(* ===== verification/Prelude.thy ===== *)
theory Prelude
  imports Main "HOL-Library.Word" "HOL-Library.Monad_Syntax"
begin

text \<open>
  The prelude of the aCoral development: the machine types of \<^verbatim>\<open>include/type.h\<close>, the
  compile-time configuration of \<^verbatim>\<open>bsp/zynq7020/config.h\<close>, the kernel error codes of
  \<^verbatim>\<open>kernel/include/error.h\<close>, the collections of rewrite rules the components fill, and the
  generic facts on words, options and lists they share.

  Effects: an operation that mutates state takes the state and returns the new one. A call
  that never comes back to its caller (it spins on a spin lock that is already taken, follows
  a list that has no end, or reads outside an array) has the value \<open>None\<close>; \<open>Some\<close> is a normal
  return. So a theorem that an operation is \<open>Some \<dots>\<close> states that it returns.
\<close>

unbundle bit_operations_syntax

section \<open>Machine types and configuration\<close>

type_synonym u8 = "8 word"
type_synonym u16 = "16 word"
type_synonym u32 = "32 word"
type_synonym ptr = "32 word"

abbreviation (input) NULL :: ptr where "NULL \<equiv> 0"

text \<open>Signed 32-bit values (\<^verbatim>\<open>acoral_32\<close>) are integers; \<open>s32\<close> is the two's complement
  wrap-around the target applies to the result of an operation. \<open>s16\<close> and \<open>s8\<close> are the
  conversions to \<^verbatim>\<open>acoral_16\<close> and \<^verbatim>\<open>acoral_8\<close>.\<close>

definition s32 :: "int \<Rightarrow> int" where
  "s32 x = signed_take_bit 31 x"

definition s16 :: "int \<Rightarrow> int" where
  "s16 x = signed_take_bit 15 x"

definition s8 :: "int \<Rightarrow> int" where
  "s8 x = signed_take_bit 7 x"

text \<open>\<^verbatim>\<open>CFG_MAX_CPU\<close>, \<^verbatim>\<open>CFG_MAX_THREAD\<close> and the priority constants of
  \<^verbatim>\<open>kernel/include/thread.h\<close>.\<close>

definition CFG_MAX_CPU :: nat where "CFG_MAX_CPU = 2"

definition CFG_MAX_THREAD :: nat where "CFG_MAX_THREAD = 60"

definition ACORAL_MAX_PRIO_NUM :: nat where
  "ACORAL_MAX_PRIO_NUM = (CFG_MAX_THREAD + 1) mod 256"

definition ACORAL_THREAD_PRIO_BITMAP_SIZE :: nat where
  "ACORAL_THREAD_PRIO_BITMAP_SIZE = ((ACORAL_MAX_PRIO_NUM + 1 + 7) div 8 + 4 - 1) div 4"

definition CFG_TICKS_PER_SEC :: u32 where "CFG_TICKS_PER_SEC = 1000"

text \<open>\<^verbatim>\<open>kernel_error_t\<close>: an enumeration that starts at \<open>-255\<close>.\<close>

datatype kernel_error =
    KR_MEM_ERR_LESS | KR_MEM_ERR_UNDEF | KR_MEM_ERR_MALLOC
  | KR_POLICY_ERR_NULL | KR_POLICY_ERR_THREAD
  | KR_RES_ERR_NO_POOL | KR_RES_ERR_NO_MEM | KR_RES_ERR_MAX_POOL
  | KR_THREAD_ERR_NO_STACK | KR_THREAD_ERR_STATE | KR_THREAD_ERR_CPU
  | KR_THREAD_ERR_PRIO | KR_THREAD_ERR_UNDEF
  | KR_IPC_ERR_NULL | KR_IPC_ERR_TYPE | KR_IPC_ERR_TASK_EXIST | KR_IPC_ERR_INTR
  | KR_IPC_ERR_UNDEF | KR_IPC_ERR_TIMEOUT | KR_IPC_ERR_THREAD | KR_IPC_ERR_CPU
  | KR_OK

fun err_code :: "kernel_error \<Rightarrow> int" where
  "err_code KR_MEM_ERR_LESS = -255"
| "err_code KR_MEM_ERR_UNDEF = -254"
| "err_code KR_MEM_ERR_MALLOC = -253"
| "err_code KR_POLICY_ERR_NULL = -252"
| "err_code KR_POLICY_ERR_THREAD = -251"
| "err_code KR_RES_ERR_NO_POOL = -250"
| "err_code KR_RES_ERR_NO_MEM = -249"
| "err_code KR_RES_ERR_MAX_POOL = -248"
| "err_code KR_THREAD_ERR_NO_STACK = -247"
| "err_code KR_THREAD_ERR_STATE = -246"
| "err_code KR_THREAD_ERR_CPU = -245"
| "err_code KR_THREAD_ERR_PRIO = -244"
| "err_code KR_THREAD_ERR_UNDEF = -243"
| "err_code KR_IPC_ERR_NULL = -242"
| "err_code KR_IPC_ERR_TYPE = -241"
| "err_code KR_IPC_ERR_TASK_EXIST = -240"
| "err_code KR_IPC_ERR_INTR = -239"
| "err_code KR_IPC_ERR_UNDEF = -238"
| "err_code KR_IPC_ERR_TIMEOUT = -237"
| "err_code KR_IPC_ERR_THREAD = -236"
| "err_code KR_IPC_ERR_CPU = -235"
| "err_code KR_OK = 0"

section \<open>Collections of rules\<close>

named_theorems list_heap \<open>effects of the intrusive-list operations on the node heap\<close>
named_theorems ring_intro \<open>how the list operations change a ring\<close>
named_theorems sched_simps \<open>effects of the scheduler's bookkeeping on kernel state fields\<close>

section \<open>Arithmetic facts\<close>

lemma s32_id [simp]: "- (2 ^ 31) \<le> x \<Longrightarrow> x < 2 ^ 31 \<Longrightarrow> s32 x = x"
  by (simp add: s32_def signed_take_bit_int_eq_self)

lemma s16_id [simp]: "- (2 ^ 15) \<le> x \<Longrightarrow> x < 2 ^ 15 \<Longrightarrow> s16 x = x"
  by (simp add: s16_def signed_take_bit_int_eq_self)

lemma s32_bounds: "- (2 ^ 31) \<le> s32 x" "s32 x < 2 ^ 31"
  using signed_take_bit_int_greater_eq_minus_exp [of 31 x] signed_take_bit_int_less_exp [of 31 x]
  by (simp_all add: s32_def)

section \<open>Options and lists\<close>

lemma bind_Some_iff: "Option.bind x f = Some y \<longleftrightarrow> (\<exists>a. x = Some a \<and> f a = Some y)"
  by (cases x) auto

lemma fun_upd_id: "m x = v \<Longrightarrow> m(x := v) = m"
  by auto


end
