(* ===== verification/Bitops.thy ===== *)
theory Bitops
  imports Prelude
begin

text \<open>
  The bitmap primitives of \<^verbatim>\<open>kernel/src/bitops.c\<close>: \<open>acoral_ffs\<close> (index of the lowest set bit
  of a word by binary search), \<open>acoral_find_first_bit\<close> (the same over an array of words) and
  the bit setters and getter. The scheduler finds the highest ready priority with them, the
  buddy system its free blocks. A bitmap is the list of its words; an access outside the list
  (undefined in C) is \<open>None\<close>.
\<close>

definition acoral_ffs :: "u32 \<Rightarrow> u32" where
  "acoral_ffs word =
     (let k = 31;
          (k, word) = (if word AND 0x0000ffff \<noteq> 0 then (k - 16, push_bit 16 word) else (k, word));
          (k, word) = (if word AND 0x00ff0000 \<noteq> 0 then (k - 8, push_bit 8 word) else (k, word));
          (k, word) = (if word AND 0x0f000000 \<noteq> 0 then (k - 4, push_bit 4 word) else (k, word));
          (k, word) = (if word AND 0x30000000 \<noteq> 0 then (k - 2, push_bit 2 word) else (k, word));
          k = (if word AND 0x40000000 \<noteq> 0 then k - 1 else k)
      in k)"

text \<open>The loop \<^verbatim>\<open>for (off = 0; v = b[off], off < length; off++)\<close> reads \<open>b[off]\<close> before it
  tests \<open>off < length\<close>: when every word is zero it reads one word past the array. The array
  argument is the memory from \<open>b\<close> on, so it may be longer than \<open>length\<close>.\<close>

function find_first_word :: "u32 list \<Rightarrow> nat \<Rightarrow> nat \<Rightarrow> (u32 \<times> nat) option" where
  "find_first_word b len off =
     (if length b \<le> off then None
      else let v = b ! off in
        if off < len then (if v \<noteq> 0 then Some (v, off) else find_first_word b len (Suc off))
        else Some (v, off))"
  by pat_completeness auto
termination by (relation "measure (\<lambda>(b, len, off). len - off)") auto

declare find_first_word.simps [simp del]

definition acoral_find_first_bit :: "u32 list \<Rightarrow> nat \<Rightarrow> u32 option" where
  "acoral_find_first_bit b len =
     (case find_first_word b len 0 of None \<Rightarrow> None
      | Some (v, off) \<Rightarrow> Some (acoral_ffs v + of_nat off * 32))"

definition acoral_set_bit :: "nat \<Rightarrow> u32 list \<Rightarrow> u32 list option" where
  "acoral_set_bit nr bitmap =
     (let p = drop_bit 5 nr; mask = push_bit (nr AND 31) 1
      in if p < length bitmap then Some (bitmap[p := (bitmap ! p) OR mask]) else None)"

definition acoral_clear_bit :: "nat \<Rightarrow> u32 list \<Rightarrow> u32 list option" where
  "acoral_clear_bit nr bitmap =
     (let p = drop_bit 5 nr; mask = push_bit (nr AND 31) 1
      in if p < length bitmap then Some (bitmap[p := (bitmap ! p) AND NOT mask]) else None)"

definition acoral_get_bit :: "nat \<Rightarrow> u32 list \<Rightarrow> u32 option" where
  "acoral_get_bit nr bitmap =
     (let p = drop_bit 5 nr; mask = push_bit (nr AND 31) 1
      in if p < length bitmap then Some ((bitmap ! p) AND mask) else None)"

section \<open>Specification: the set of one bits\<close>

text \<open>The abstract view of a bitmap: the set of indices of its one bits.\<close>

definition bits_of :: "u32 list \<Rightarrow> nat set" where
  "bits_of bitmap = {n. n div 32 < length bitmap \<and> bit (bitmap ! (n div 32)) (n mod 32)}"

definition lowest_bit :: "u32 \<Rightarrow> nat \<Rightarrow> bool" where
  "lowest_bit w b \<longleftrightarrow> b < 32 \<and> bit w b \<and> (\<forall>i<b. \<not> bit w i)"

lemma lowest_bit_exists: "w \<noteq> 0 \<Longrightarrow> \<exists>b. lowest_bit w b"
proof -
  assume "w \<noteq> 0"
  then obtain n where n: "bit w n" by (auto simp: bit_eq_iff)
  then obtain b where b: "bit w b" "\<forall>i<b. \<not> bit w i"
    using exists_least_iff [of "bit w"] by blast
  then have "lowest_bit w b"
    using bit_imp_le_length [OF b(1)] by (simp add: lowest_bit_def)
  then show ?thesis ..
qed

text \<open>One stage of the binary search: the test of the \<open>n\<close> bits from \<open>lo\<close> on.\<close>

lemma mask_test:
  assumes "lowest_bit w b" and "lo \<le> b" and "m = push_bit lo (mask n)" and "lo + n \<le> 32"
  shows "w AND m \<noteq> 0 \<longleftrightarrow> b < lo + n"
proof
  assume "w AND m \<noteq> 0"
  then obtain i where "bit (w AND m) i" by (auto simp: bit_eq_iff)
  then have "bit w i" and "i < lo + n"
    using assms(3) by (auto simp: bit_simps)
  then show "b < lo + n" using assms(1) by (meson lowest_bit_def not_less order_le_less_trans)
next
  assume "b < lo + n"
  then have "bit (w AND m) b"
    using assms by (auto simp: lowest_bit_def bit_simps)
  then show "w AND m \<noteq> 0" by auto
qed

lemma lowest_bit_shift:
  assumes "lowest_bit w b" and "b + n < 32"
  shows "lowest_bit (push_bit n w) (b + n)"
  using assms by (auto simp: lowest_bit_def bit_simps)

text \<open>A stage keeps the equation \<open>b = b' - (31 - k)\<close> between the lowest bit of the input and
  that of the shifted word.\<close>

lemma ffs_stage:
  fixes k :: u32
  assumes "lowest_bit w b" and "lo \<le> b" and "m = push_bit lo (mask n)" and "lo + 2 * n = 32"
  obtains b' where
    "lowest_bit (if w AND m \<noteq> 0 then push_bit n w else w) b'" "lo + n \<le> b'"
    "b' = (if w AND m \<noteq> 0 then b + n else b)"
proof (cases "w AND m \<noteq> 0")
  case True
  then have "b < lo + n" using mask_test [OF assms(1-3)] assms(4) by simp
  then have "lowest_bit (push_bit n w) (b + n)"
    using assms by (intro lowest_bit_shift) auto
  then show ?thesis using True assms(2) that [of "b + n"] by auto
next
  case False
  then have "lo + n \<le> b" using mask_test [OF assms(1-3)] assms(4) by simp
  then show ?thesis using False assms(1) that [of b] by auto
qed

lemma ffs_masks:
  "(0x0000ffff :: u32) = push_bit 0 (mask 16)" "(0x00ff0000 :: u32) = push_bit 16 (mask 8)"
  "(0x0f000000 :: u32) = push_bit 24 (mask 4)" "(0x30000000 :: u32) = push_bit 28 (mask 2)"
  "(0x40000000 :: u32) = push_bit 30 (mask 1)"
  by (simp_all add: mask_eq_exp_minus_1 push_bit_eq_mult)

lemma ffs_lowest: "lowest_bit w b \<Longrightarrow> acoral_ffs w = of_nat b"
proof -
  assume w: "lowest_bit w b"
  let ?w1 = "if w AND 0x0000ffff \<noteq> 0 then push_bit 16 w else w"
  let ?w2 = "if ?w1 AND 0x00ff0000 \<noteq> 0 then push_bit 8 ?w1 else ?w1"
  let ?w3 = "if ?w2 AND 0x0f000000 \<noteq> 0 then push_bit 4 ?w2 else ?w2"
  let ?w4 = "if ?w3 AND 0x30000000 \<noteq> 0 then push_bit 2 ?w3 else ?w3"
  obtain b1 where b1: "lowest_bit ?w1 b1" "16 \<le> b1" "b1 = (if w AND 0x0000ffff \<noteq> 0 then b + 16 else b)"
    using ffs_stage [OF w _ ffs_masks(1)] by auto
  obtain b2 where b2: "lowest_bit ?w2 b2" "24 \<le> b2" "b2 = (if ?w1 AND 0x00ff0000 \<noteq> 0 then b1 + 8 else b1)"
    using ffs_stage [OF b1(1) _ ffs_masks(2)] b1(2) by auto
  obtain b3 where b3: "lowest_bit ?w3 b3" "28 \<le> b3" "b3 = (if ?w2 AND 0x0f000000 \<noteq> 0 then b2 + 4 else b2)"
    using ffs_stage [OF b2(1) _ ffs_masks(3)] b2(2) by auto
  obtain b4 where b4: "lowest_bit ?w4 b4" "30 \<le> b4" "b4 = (if ?w3 AND 0x30000000 \<noteq> 0 then b3 + 2 else b3)"
    using ffs_stage [OF b3(1) _ ffs_masks(4)] b3(2) by auto
  have b5: "b4 < 32" "?w4 AND 0x40000000 \<noteq> 0 \<longleftrightarrow> b4 < 31"
    using b4(1) mask_test [OF b4(1,2) ffs_masks(5)] by (simp_all add: lowest_bit_def)
  have "b4 = 30 \<or> b4 = 31" using b4(2) b5(1) by arith
  then show ?thesis
    using b1(3) b2(3) b3(3) b4(3) b5(2)
    unfolding acoral_ffs_def Let_def
    by (elim disjE; cases "w AND 0x0000ffff \<noteq> 0"; cases "?w1 AND 0x00ff0000 \<noteq> 0";
        cases "?w2 AND 0x0f000000 \<noteq> 0"; cases "?w3 AND 0x30000000 \<noteq> 0") auto
qed

section \<open>The bit setters against the set view\<close>

lemma nr_index: "drop_bit 5 (nr::nat) = nr div 32" "(nr::nat) AND 31 = nr mod 32"
proof -
  show "drop_bit 5 nr = nr div 32" by (simp add: drop_bit_eq_div)
  have "nr AND 31 = nr AND mask 5" by (simp add: mask_eq_exp_minus_1)
  then show "nr AND 31 = nr mod 32" by (simp only: take_bit_eq_mask [symmetric] take_bit_eq_mod) simp
qed

lemma bit_single: "bit (2 ^ n :: u32) i \<longleftrightarrow> i = n \<and> n < 32"
  by (auto simp: bit_simps)

lemma div_mod_32_eq: "(n::nat) div 32 = m div 32 \<Longrightarrow> n mod 32 = m mod 32 \<Longrightarrow> n = m"
  by (metis div_mult_mod_eq)

lemma bits_of_update:
  assumes "m div 32 < length bitmap"
    and "\<And>i. i < 32 \<Longrightarrow> bit w i \<longleftrightarrow> (if i = m mod 32 then v else bit (bitmap ! (m div 32)) i)"
  shows "bits_of (bitmap[m div 32 := w]) = (if v then insert m (bits_of bitmap) else bits_of bitmap - {m})"
proof -
  have "n \<in> bits_of (bitmap[m div 32 := w]) \<longleftrightarrow> (if n = m then v else n \<in> bits_of bitmap)" for n
  proof (cases "n div 32 = m div 32")
    case True
    then show ?thesis
      using assms div_mod_32_eq [OF True] by (auto simp: bits_of_def)
  next
    case False
    then show ?thesis by (auto simp: bits_of_def)
  qed
  then show ?thesis by (simp add: set_eq_iff)
qed

lemma set_bit_Some: "nr div 32 < length bitmap \<Longrightarrow>
    acoral_set_bit nr bitmap = Some (bitmap[nr div 32 := bitmap ! (nr div 32) OR push_bit (nr mod 32) 1])"
  by (simp add: acoral_set_bit_def nr_index Let_def)

lemma clear_bit_Some: "nr div 32 < length bitmap \<Longrightarrow>
    acoral_clear_bit nr bitmap = Some (bitmap[nr div 32 := bitmap ! (nr div 32) AND NOT (push_bit (nr mod 32) 1)])"
  by (simp add: acoral_clear_bit_def nr_index Let_def)

lemma set_bit_bits:
  assumes "acoral_set_bit nr bitmap = Some b'"
  shows "bits_of b' = insert nr (bits_of bitmap)" "length b' = length bitmap"
proof -
  have r: "nr div 32 < length bitmap" "b' = bitmap[nr div 32 := bitmap ! (nr div 32) OR push_bit (nr mod 32) 1]"
    using assms by (auto simp: acoral_set_bit_def nr_index Let_def split: if_splits)
  show "bits_of b' = insert nr (bits_of bitmap)"
    using bits_of_update [OF r(1), of "bitmap ! (nr div 32) OR push_bit (nr mod 32) 1" True]
    by (simp add: r(2) bit_simps bit_single disj_commute)
  show "length b' = length bitmap" by (simp add: r(2))
qed

lemma clear_bit_bits:
  assumes "acoral_clear_bit nr bitmap = Some b'"
  shows "bits_of b' = bits_of bitmap - {nr}" "length b' = length bitmap"
proof -
  have r: "nr div 32 < length bitmap" "b' = bitmap[nr div 32 := bitmap ! (nr div 32) AND NOT (push_bit (nr mod 32) 1)]"
    using assms by (auto simp: acoral_clear_bit_def nr_index Let_def split: if_splits)
  have "bit (bitmap ! (nr div 32) AND NOT (push_bit (nr mod 32) 1)) i \<longleftrightarrow>
      (if i = nr mod 32 then False else bit (bitmap ! (nr div 32)) i)" if "i < 32" for i
    using that by (simp add: bit_and_iff bit_not_iff bit_single)
  then show "bits_of b' = bits_of bitmap - {nr}"
    using bits_of_update [OF r(1), of _ False] by (simp add: r(2))
  show "length b' = length bitmap" by (simp add: r(2))
qed

lemma get_bit_bits:
  assumes "nr div 32 < length bitmap"
  shows "\<exists>v. acoral_get_bit nr bitmap = Some v \<and> (v \<noteq> 0 \<longleftrightarrow> nr \<in> bits_of bitmap)"
proof -
  let ?v = "bitmap ! (nr div 32) AND push_bit (nr mod 32) 1"
  have "bit ?v i \<longleftrightarrow> i = nr mod 32 \<and> bit (bitmap ! (nr div 32)) i" for i
    by (auto simp: bit_and_iff bit_single)
  then have "?v \<noteq> 0 \<longleftrightarrow> bit (bitmap ! (nr div 32)) (nr mod 32)"
    by (metis bit_0_eq bot_apply bot_bool_def bit_word_eqI)
  then have "?v \<noteq> 0 \<longleftrightarrow> nr \<in> bits_of bitmap"
    using assms by (simp add: bits_of_def)
  then show ?thesis using assms by (simp add: acoral_get_bit_def nr_index)
qed

section \<open>Finding the first bit\<close>

lemma find_first_word_correct:
  assumes "off \<le> i" "i < len" "len \<le> length b" "b ! i \<noteq> 0" "\<And>j. off \<le> j \<Longrightarrow> j < i \<Longrightarrow> b ! j = 0"
  shows "find_first_word b len off = Some (b ! i, i)"
  using assms
proof (induction b len off rule: find_first_word.induct)
  case (1 b len off)
  show ?case
  proof (cases "off = i")
    case True
    then show ?thesis using 1(3-6) by (subst find_first_word.simps) auto
  next
    case False
    then have "b ! off = 0" "Suc off \<le> i" using 1(2,6) by auto
    moreover have "find_first_word b len (Suc off) = Some (b ! i, i)"
      using 1 False by (intro "1.IH") auto
    ultimately show ?thesis using 1(3,4) by (subst find_first_word.simps) auto
  qed
qed

lemma bits_of_first:
  assumes "i < len" "len \<le> length b" "lowest_bit (b ! i) k" "\<And>j. j < i \<Longrightarrow> b ! j = 0"
  shows "k + 32 * i \<in> bits_of (take len b)" "m \<in> bits_of (take len b) \<Longrightarrow> k + 32 * i \<le> m"
proof -
  have "k < 32" "bit (b ! i) k" using assms(3) by (auto simp: lowest_bit_def)
  then show "k + 32 * i \<in> bits_of (take len b)" using assms(1,2) by (simp add: bits_of_def)
  assume m: "m \<in> bits_of (take len b)"
  then have bm: "bit (b ! (m div 32)) (m mod 32)" by (auto simp: bits_of_def)
  then have "b ! (m div 32) \<noteq> 0" by (metis bit_0_eq bot_apply bot_bool_def)
  then have "i \<le> m div 32" using assms(4) by (meson not_le)
  then consider "i = m div 32" | "Suc i \<le> m div 32" by linarith
  then show "k + 32 * i \<le> m"
  proof cases
    case 1
    then have "k \<le> m mod 32" using bm assms(3) by (meson lowest_bit_def not_le)
    then show ?thesis using 1 div_mult_mod_eq [of m 32] by linarith
  next
    case 2
    then show ?thesis using \<open>k < 32\<close> div_mult_mod_eq [of m 32] by linarith
  qed
qed

lemma first_nonzero_word:
  assumes "bits_of (take len b) \<noteq> {}" "len \<le> length b"
  obtains i where "i < len" "b ! i \<noteq> 0" "\<And>j. j < i \<Longrightarrow> b ! j = 0"
proof -
  obtain n where n: "n div 32 < len" "bit (b ! (n div 32)) (n mod 32)"
    using assms by (auto simp: bits_of_def)
  then have "b ! (n div 32) \<noteq> 0" by (metis bit_0_eq bot_apply bot_bool_def)
  then obtain i where i: "b ! i \<noteq> 0" "\<forall>j<i. b ! j = 0"
    using exists_least_iff [of "\<lambda>i. b ! i \<noteq> 0"] by blast
  moreover have "i \<le> n div 32" using i(2) \<open>b ! (n div 32) \<noteq> 0\<close> by (meson not_le)
  ultimately show ?thesis using n(1) that [of i] by simp
qed

lemma find_first_bit_min:
  assumes "bits_of (take len b) \<noteq> {}" "len \<le> length b"
  shows "\<exists>m. acoral_find_first_bit b len = Some (of_nat m) \<and> m \<in> bits_of (take len b) \<and>
    (\<forall>n \<in> bits_of (take len b). m \<le> n)"
proof -
  obtain i where i: "i < len" "b ! i \<noteq> 0" "\<And>j. j < i \<Longrightarrow> b ! j = 0"
    using first_nonzero_word [OF assms] by blast
  obtain k where k: "lowest_bit (b ! i) k" using lowest_bit_exists [OF i(2)] by blast
  have "acoral_find_first_bit b len = Some (of_nat (k + 32 * i))"
    using find_first_word_correct [of 0 i len b] i assms(2) ffs_lowest [OF k]
    by (simp add: acoral_find_first_bit_def mult.commute)
  then show ?thesis using bits_of_first [OF i(1) assms(2) k i(3)] by blast
qed

section \<open>Properties\<close>

text \<open>C26. On an array with a one bit among its first \<open>len\<close> words, \<open>acoral_find_first_bit\<close> returns the index
  of the lowest one: the scheduler's and the allocator's searches find the minimum.\<close>

theorem find_first_bit_lowest:
  assumes "bits_of (take len b) \<noteq> {}" "len \<le> length b"
  shows "\<exists>m. acoral_find_first_bit b len = Some (of_nat m) \<and> m \<in> bits_of (take len b) \<and>
    (\<forall>n \<in> bits_of (take len b). m \<le> n)"
  by (rule find_first_bit_min [OF assms])

theorem find_first_bit_lowest_witness:
  "\<exists>m. acoral_find_first_bit [0, 0x8100] 2 = Some (of_nat m) \<and> m \<in> bits_of [0, 0x8100]"
proof -
  have "40 \<in> bits_of (take 2 [0, 0x8100])" by (simp add: bits_of_def bit_numeral_rec)
  then show ?thesis using find_first_bit_lowest [of 2 "[0, 0x8100]"] by auto
qed

text \<open>C27. Seen as sets of bit indices, \<open>acoral_set_bit\<close> inserts, \<open>acoral_clear_bit\<close> deletes and \<open>acoral_get_bit\<close>
  tests membership, for every index inside the bitmap.\<close>

theorem bitmap_refines_set:
  assumes "nr div 32 < length bitmap"
  shows "\<exists>b c v. acoral_set_bit nr bitmap = Some b \<and> bits_of b = insert nr (bits_of bitmap) \<and>
    acoral_clear_bit nr bitmap = Some c \<and> bits_of c = bits_of bitmap - {nr} \<and>
    acoral_get_bit nr bitmap = Some v \<and> (v \<noteq> 0 \<longleftrightarrow> nr \<in> bits_of bitmap) \<and>
    length b = length bitmap \<and> length c = length bitmap"
  using set_bit_bits [OF set_bit_Some [OF assms]] clear_bit_bits [OF clear_bit_Some [OF assms]]
    set_bit_Some [OF assms] clear_bit_Some [OF assms] get_bit_bits [OF assms] by metis

theorem bitmap_refines_set_witness:
  "\<exists>b. acoral_set_bit 33 [1, 0] = Some b \<and> bits_of b = insert 33 (bits_of [1, 0])"
  using bitmap_refines_set [of 33 "[1, 0]"] by auto

end
