(* ===== verification/Ringbuffer.thy ===== *)
theory Ringbuffer
  imports Prelude
begin

text \<open>
  The byte ring buffer of \<^verbatim>\<open>kernel/src/ringbuffer.c\<close> and \<^verbatim>\<open>kernel/include/ringbuffer.h\<close>. The buffer
  memory is a list of bytes, the indices are 32-bit words masked by \<open>ring_mask\<close>. A failed
  \<^verbatim>\<open>CAT_ASSERT\<close> loops forever and an index outside the buffer is undefined: both are \<open>None\<close>. The
  abstraction \<open>rb_list\<close> reads the stored bytes oldest first; the operations refine a bounded
  queue that drops its oldest byte when full.
\<close>

record cat_ringbuffer =
  p_buffer :: "u8 list"
  ring_mask :: u32
  tail_index :: u32
  head_index :: u32

definition CAT_EOK :: int where "CAT_EOK = 0"
definition CAT_ERROR :: int where "CAT_ERROR = -1"

definition IS_POWER_OF_TWO :: "u32 \<Rightarrow> bool" where
  "IS_POWER_OF_TWO num \<longleftrightarrow> num AND (num - 1) = 0"

text \<open>The two pointer arguments are \<open>None\<close> when the caller passes \<open>NULL\<close>.\<close>

definition cat_ringbuffer_init ::
    "cat_ringbuffer option \<Rightarrow> u8 list option \<Rightarrow> u32 \<Rightarrow> cat_ringbuffer option" where
  "cat_ringbuffer_init p_ringbuffer p_buffer_space buffer_size =
     (case p_ringbuffer of None \<Rightarrow> None
      | Some rb \<Rightarrow>
        (case p_buffer_space of None \<Rightarrow> None
         | Some space \<Rightarrow>
           if \<not> IS_POWER_OF_TWO buffer_size then None
           else Some (rb\<lparr>p_buffer := space, ring_mask := buffer_size - 1,
                         tail_index := 0, head_index := 0\<rparr>)))"

definition cat_ringbuffer_clear :: "cat_ringbuffer option \<Rightarrow> cat_ringbuffer option" where
  "cat_ringbuffer_clear p_ringbuffer =
     (case p_ringbuffer of None \<Rightarrow> None
      | Some rb \<Rightarrow> Some (rb\<lparr>tail_index := 0, head_index := 0\<rparr>))"

definition cat_ringbuffer_is_full :: "cat_ringbuffer \<Rightarrow> bool" where
  "cat_ringbuffer_is_full rb \<longleftrightarrow> (head_index rb - tail_index rb) AND ring_mask rb = ring_mask rb"

definition cat_ringbuffer_is_empty :: "cat_ringbuffer \<Rightarrow> bool" where
  "cat_ringbuffer_is_empty rb \<longleftrightarrow> head_index rb = tail_index rb"

text \<open>\<^verbatim>\<open>RINGBUFFER_INDEX_MOVE_FOWARD\<close>.\<close>

definition index_forward :: "cat_ringbuffer \<Rightarrow> u32 \<Rightarrow> u32" where
  "index_forward rb i = (i + 1) AND ring_mask rb"

definition cat_ringbuffer_put :: "cat_ringbuffer \<Rightarrow> u8 \<Rightarrow> (int \<times> cat_ringbuffer) option" where
  "cat_ringbuffer_put rb data =
     (let (ret, rb) =
        (if cat_ringbuffer_is_full rb
         then (CAT_ERROR, rb\<lparr>tail_index := index_forward rb (tail_index rb)\<rparr>)
         else (CAT_EOK, rb))
      in if unat (head_index rb) < length (p_buffer rb)
         then Some (ret, rb\<lparr>p_buffer := (p_buffer rb)[unat (head_index rb) := data],
                            head_index := index_forward rb (head_index rb)\<rparr>)
         else None)"

text \<open>The byte stored through \<^verbatim>\<open>p_data\<close> is the second component; \<open>None\<close> there: nothing stored.\<close>

definition cat_ringbuffer_get :: "cat_ringbuffer \<Rightarrow> (int \<times> u8 option \<times> cat_ringbuffer) option" where
  "cat_ringbuffer_get rb =
     (if cat_ringbuffer_is_empty rb then Some (CAT_ERROR, None, rb)
      else if unat (tail_index rb) < length (p_buffer rb)
      then Some (CAT_EOK, Some (p_buffer rb ! unat (tail_index rb)),
                 rb\<lparr>tail_index := index_forward rb (tail_index rb)\<rparr>)
      else None)"

text \<open>The \<^verbatim>\<open>for\<close> loop of \<open>cat_ringbuffer_put_more\<close>, over any \<open>put\<close> that returns a status.\<close>

fun put_loop :: "('q \<Rightarrow> 'a \<Rightarrow> (int \<times> 'q) option) \<Rightarrow> 'q \<Rightarrow> int \<Rightarrow> 'a list \<Rightarrow> (int \<times> 'q) option" where
  "put_loop put q ret [] = Some (ret, q)"
| "put_loop put q ret (d # ds) =
     do { (r, q') \<leftarrow> put q d; put_loop put q' (ret + r) ds }"

definition cat_ringbuffer_put_more :: "cat_ringbuffer \<Rightarrow> u8 list \<Rightarrow> (int \<times> cat_ringbuffer) option" where
  "cat_ringbuffer_put_more rb p_data =
     do { (ret, rb') \<leftarrow> put_loop cat_ringbuffer_put rb 0 p_data;
          Some (if 0 \<noteq> ret then CAT_ERROR else ret, rb') }"

text \<open>The \<^verbatim>\<open>do \<dots> while\<close> of \<open>cat_ringbuffer_get_more\<close>: \<open>out\<close> holds the bytes stored so far.\<close>

function get_loop ::
    "cat_ringbuffer \<Rightarrow> u8 list \<Rightarrow> nat \<Rightarrow> nat \<Rightarrow> (nat \<times> u8 list \<times> cat_ringbuffer) option" where
  "get_loop rb out cnt sz =
     (case cat_ringbuffer_get rb of None \<Rightarrow> None
      | Some (err, d, rb') \<Rightarrow>
        let out' = out @ (case d of None \<Rightarrow> [] | Some x \<Rightarrow> [x]); cnt' = cnt + 1
        in if cnt' < sz \<and> CAT_EOK = err then get_loop rb' out' cnt' sz
           else Some (cnt', out', rb'))"
  by pat_completeness auto
termination by (relation "measure (\<lambda>(rb, out, cnt, sz). sz - cnt)") auto

declare get_loop.simps [simp del]

definition cat_ringbuffer_get_more ::
    "cat_ringbuffer \<Rightarrow> nat \<Rightarrow> (nat \<times> u8 list \<times> cat_ringbuffer) option" where
  "cat_ringbuffer_get_more rb sz =
     (if \<not> cat_ringbuffer_is_empty rb then get_loop rb [] 0 sz else Some (0, [], rb))"

section \<open>Sequences in a circular array\<close>

definition ring_seq :: "'a list \<Rightarrow> nat \<Rightarrow> nat \<Rightarrow> 'a list" where
  "ring_seq buf t n = map (\<lambda>i. buf ! ((t + i) mod length buf)) [0..<n]"

lemma length_ring_seq [simp]: "length (ring_seq buf t n) = n"
  by (simp add: ring_seq_def)

lemma ring_seq_0 [simp]: "ring_seq buf t 0 = []"
  by (simp add: ring_seq_def)

lemma mod_shift_neq:
  assumes "i < n" "n < (N::nat)"
  shows "(t + i) mod N \<noteq> (t + n) mod N"
proof
  assume "(t + i) mod N = (t + n) mod N"
  then have "N dvd n - i" using assms mod_eq_dvd_iff_nat [of "t + i" "t + n" N] by (simp add: eq_commute)
  then show False using assms by (auto dest: dvd_imp_le)
qed

lemma ring_seq_snoc:
  assumes "n < length buf"
  shows "ring_seq (buf[(t + n) mod length buf := d]) t (Suc n) = ring_seq buf t n @ [d]"
proof -
  have "(t + n) mod length buf < length buf" using assms by (intro mod_less_divisor) auto
  then show ?thesis
    using assms mod_shift_neq [of _ n "length buf" t, symmetric] by (auto simp: ring_seq_def nth_list_update)
qed

lemma ring_seq_Cons:
  "ring_seq buf t (Suc n) = buf ! (t mod length buf) # ring_seq buf ((t + 1) mod length buf) n"
  by (simp add: ring_seq_def upt_conv_Cons map_Suc_upt [symmetric] comp_def mod_simps del: upt_Suc)

section \<open>Invariant and abstraction\<close>

text \<open>The buffer has \<open>2 ^ k\<close> bytes and both indices are inside it. With \<open>k = 0\<close> an empty buffer
  is also full, so the queue theorems ask for \<open>1 \<le> k\<close>.\<close>

definition rb_inv :: "nat \<Rightarrow> cat_ringbuffer \<Rightarrow> bool" where
  "rb_inv k rb \<longleftrightarrow> 1 \<le> k \<and> k < 32 \<and> length (p_buffer rb) = 2 ^ k \<and> ring_mask rb = mask k \<and>
     unat (tail_index rb) < 2 ^ k \<and> unat (head_index rb) < 2 ^ k"

definition rb_count :: "cat_ringbuffer \<Rightarrow> nat" where
  "rb_count rb = (unat (head_index rb) + length (p_buffer rb) - unat (tail_index rb)) mod length (p_buffer rb)"

definition rb_list :: "cat_ringbuffer \<Rightarrow> u8 list" where
  "rb_list rb = ring_seq (p_buffer rb) (unat (tail_index rb)) (rb_count rb)"

lemma unat_mask: "k < 32 \<Longrightarrow> unat (mask k :: u32) = 2 ^ k - 1"
  by transfer (simp add: nat_mask_eq, simp add: mask_eq_exp_minus_1)

lemma unat_and_mask: "k \<le> 32 \<Longrightarrow> unat (w AND mask k :: u32) = unat w mod 2 ^ k"
  by (metis take_bit_eq_mask take_bit_eq_mod unsigned_take_bit_eq)

lemma unat_diff_mask:
  assumes "k < 32" "unat (h::u32) < 2 ^ k" "unat (t::u32) < 2 ^ k"
  shows "unat ((h - t) AND mask k) = (unat h + 2 ^ k - unat t) mod 2 ^ k"
proof -
  have d': "(2::int) ^ k dvd 2 ^ 32" using assms(1) by (intro le_imp_power_dvd) simp
  have "int (unat ((h - t) AND mask k)) = uint (h - t) mod 2 ^ k"
    using unat_and_mask [of k "h - t"] assms(1) by (simp add: zmod_int)
  also have "\<dots> = (uint h - uint t) mod 2 ^ k"
    using d' by (simp add: uint_word_ariths mod_mod_cancel)
  also have "\<dots> = (uint h - uint t + 2 ^ k) mod 2 ^ k" by simp
  also have "\<dots> = int ((unat h + 2 ^ k - unat t) mod 2 ^ k)"
    using assms(3) by (simp add: zmod_int of_nat_diff algebra_simps)
  finally show ?thesis by (simp only: of_nat_eq_iff)
qed

lemma unat_forward:
  assumes "rb_inv k rb" "unat i < 2 ^ k"
  shows "unat (index_forward rb i) = (unat i + 1) mod 2 ^ k"
proof -
  have d: "(2::nat) ^ k dvd 2 ^ 32" using assms(1) by (intro le_imp_power_dvd) (simp add: rb_inv_def)
  then show ?thesis
    using assms by (simp add: index_forward_def rb_inv_def unat_and_mask unat_word_ariths mod_mod_cancel)
qed

lemma rb_count_mask:
  "rb_inv k rb \<Longrightarrow> unat ((head_index rb - tail_index rb) AND ring_mask rb) = rb_count rb"
  by (simp add: rb_inv_def rb_count_def unat_diff_mask)

lemma rb_count_less: "rb_inv k rb \<Longrightarrow> rb_count rb < 2 ^ k"
  by (simp add: rb_inv_def rb_count_def)

lemma length_rb_list [simp]: "length (rb_list rb) = rb_count rb"
  by (simp add: rb_list_def)

lemma is_full_count:
  assumes "rb_inv k rb"
  shows "cat_ringbuffer_is_full rb \<longleftrightarrow> rb_count rb = 2 ^ k - 1"
proof -
  have "unat (ring_mask rb) = 2 ^ k - 1"
    using assms by (simp add: rb_inv_def unat_mask)
  then show ?thesis
    using rb_count_mask [OF assms] by (metis cat_ringbuffer_is_full_def word_unat_eq_iff)
qed

lemma mod_head:
  assumes "h < (N::nat)" "t < N"
  shows "(t + (h + N - t) mod N) mod N = h"
proof -
  have "(t + (h + N - t) mod N) mod N = (t + (h + N - t)) mod N" by (simp add: mod_simps)
  also have "\<dots> = h" using assms by simp
  finally show ?thesis .
qed

lemma is_empty_count:
  assumes "rb_inv k rb"
  shows "cat_ringbuffer_is_empty rb \<longleftrightarrow> rb_count rb = 0"
proof -
  have b: "unat (head_index rb) < 2 ^ k" "unat (tail_index rb) < 2 ^ k" "length (p_buffer rb) = 2 ^ k"
    using assms by (simp_all add: rb_inv_def)
  have "unat (head_index rb) = (unat (tail_index rb) + rb_count rb) mod 2 ^ k"
    using mod_head [OF b(1,2)] by (simp add: rb_count_def b(3))
  then have "rb_count rb = 0 \<longleftrightarrow> unat (head_index rb) = unat (tail_index rb)"
    using b by (auto simp: rb_count_def)
  then show ?thesis by (simp add: cat_ringbuffer_is_empty_def word_unat_eq_iff)
qed

text \<open>The head index is the slot after the last stored byte.\<close>

lemma head_pos:
  "rb_inv k rb \<Longrightarrow> unat (head_index rb) = (unat (tail_index rb) + rb_count rb) mod 2 ^ k"
  using mod_head [of "unat (head_index rb)" "2 ^ k" "unat (tail_index rb)"]
  by (simp add: rb_inv_def rb_count_def)

text \<open>Advancing one index changes the count by one.\<close>

lemma count_mod_unique:
  assumes "h = (t + n) mod N" "n < (N::nat)" "t < N"
  shows "(h + N - t) mod N = n"
proof (cases "t + n < N")
  case True
  then show ?thesis using assms by simp
next
  case False
  then have "(t + n) mod N = t + n - N" using assms by (simp add: mod_if)
  then show ?thesis using assms False by simp
qed

lemma put_not_full:
  assumes inv: "rb_inv k rb" and nf: "\<not> cat_ringbuffer_is_full rb"
  shows "\<exists>rb'. cat_ringbuffer_put rb d = Some (CAT_EOK, rb') \<and> rb_inv k rb' \<and>
    rb_list rb' = rb_list rb @ [d]"
proof -
  let ?h = "unat (head_index rb)" and ?t = "unat (tail_index rb)" and ?n = "rb_count rb"
  let ?rb' = "rb\<lparr>p_buffer := (p_buffer rb)[?h := d], head_index := index_forward rb (head_index rb)\<rparr>"
  have b: "?h < 2 ^ k" "?t < 2 ^ k" "length (p_buffer rb) = 2 ^ k"
    using inv by (simp_all add: rb_inv_def)
  have n: "Suc ?n < 2 ^ k" using nf is_full_count [OF inv] rb_count_less [OF inv] by simp
  have h': "unat (index_forward rb (head_index rb)) = (?t + Suc ?n) mod 2 ^ k"
    using unat_forward [OF inv b(1)] head_pos [OF inv] by (simp add: mod_simps)
  have inv': "rb_inv k ?rb'"
    using inv h' by (simp add: rb_inv_def)
  have cnt: "rb_count ?rb' = Suc ?n"
    using count_mod_unique [OF h' n b(2)] by (simp add: rb_count_def b(3))
  have "rb_list ?rb' = rb_list rb @ [d]"
    using ring_seq_snoc [of ?n "p_buffer rb" ?t d] head_pos [OF inv] n b(3)
    unfolding rb_list_def cnt by simp
  moreover have "cat_ringbuffer_put rb d = Some (CAT_EOK, ?rb')"
    using nf b by (simp add: cat_ringbuffer_put_def)
  ultimately show ?thesis using inv' by blast
qed

lemma tail_forward:
  assumes inv: "rb_inv k rb" and ne: "rb_count rb = Suc n"
  shows "rb_inv k (rb\<lparr>tail_index := index_forward rb (tail_index rb)\<rparr>)"
    "rb_list (rb\<lparr>tail_index := index_forward rb (tail_index rb)\<rparr>) = tl (rb_list rb)"
    "hd (rb_list rb) = p_buffer rb ! unat (tail_index rb)"
    "rb_count (rb\<lparr>tail_index := index_forward rb (tail_index rb)\<rparr>) = n"
proof -
  let ?rb' = "rb\<lparr>tail_index := index_forward rb (tail_index rb)\<rparr>"
  let ?t = "unat (tail_index rb)"
  have b: "unat (head_index rb) < 2 ^ k" "?t < 2 ^ k" "length (p_buffer rb) = 2 ^ k"
    using inv by (simp_all add: rb_inv_def)
  have t': "unat (index_forward rb (tail_index rb)) = (?t + 1) mod 2 ^ k"
    by (rule unat_forward [OF inv b(2)])
  show inv': "rb_inv k ?rb'" using inv t' by (simp add: rb_inv_def)
  have "unat (head_index rb) = ((?t + 1) mod 2 ^ k + n) mod 2 ^ k"
    using head_pos [OF inv] ne by (simp add: mod_simps)
  moreover have "n < 2 ^ k" using rb_count_less [OF inv] ne by simp
  ultimately show cnt: "rb_count ?rb' = n"
    using count_mod_unique [of "unat (head_index rb)" "(?t + 1) mod 2 ^ k" n "2 ^ k"] t'
    by (simp add: rb_count_def b(3))
  have seq: "rb_list rb = p_buffer rb ! ?t # ring_seq (p_buffer rb) ((?t + 1) mod 2 ^ k) n"
    using b ring_seq_Cons [of "p_buffer rb" ?t n] by (simp add: rb_list_def ne)
  then show "rb_list ?rb' = tl (rb_list rb)" using cnt t' by (simp add: rb_list_def)
  show "hd (rb_list rb) = p_buffer rb ! ?t" using seq by simp
qed

lemma put_full:
  assumes inv: "rb_inv k rb" and f: "cat_ringbuffer_is_full rb"
  shows "\<exists>rb'. cat_ringbuffer_put rb d = Some (CAT_ERROR, rb') \<and> rb_inv k rb' \<and>
    rb_list rb' = tl (rb_list rb) @ [d]"
proof -
  let ?rb1 = "rb\<lparr>tail_index := index_forward rb (tail_index rb)\<rparr>"
  have "(2::nat) \<le> 2 ^ k" using inv power_increasing [of 1 k "2::nat"] by (simp add: rb_inv_def)
  moreover have "rb_count rb = 2 ^ k - 1" using f is_full_count [OF inv] by simp
  ultimately obtain n where n: "rb_count rb = Suc n" "Suc (Suc n) = 2 ^ k"
    using that [of "2 ^ k - 2"] by simp
  note tf = tail_forward [OF inv n(1)]
  have nf: "\<not> cat_ringbuffer_is_full ?rb1" using is_full_count [OF tf(1)] tf(4) n(2) by simp
  obtain rb' where rb': "cat_ringbuffer_put ?rb1 d = Some (CAT_EOK, rb')" "rb_inv k rb'"
      "rb_list rb' = tl (rb_list rb) @ [d]"
    using put_not_full [OF tf(1) nf, of d] tf(2) by auto
  moreover have "cat_ringbuffer_put rb d = Some (CAT_ERROR, rb')"
    using rb'(1) nf f by (auto simp: cat_ringbuffer_put_def index_forward_def split: if_splits)
  ultimately show ?thesis by blast
qed

lemma get_nonempty:
  assumes inv: "rb_inv k rb" and "rb_list rb = x # xs"
  shows "\<exists>rb'. cat_ringbuffer_get rb = Some (CAT_EOK, Some x, rb') \<and> rb_inv k rb' \<and> rb_list rb' = xs"
proof -
  have n: "rb_count rb = Suc (length xs)" using assms(2) length_rb_list [of rb] by simp
  note tf = tail_forward [OF inv n]
  have "unat (tail_index rb) < length (p_buffer rb)" using inv by (simp add: rb_inv_def)
  moreover have "\<not> cat_ringbuffer_is_empty rb" using is_empty_count [OF inv] n by simp
  moreover have "x = p_buffer rb ! unat (tail_index rb)" using tf(3) assms(2) by simp
  ultimately have "cat_ringbuffer_get rb =
      Some (CAT_EOK, Some x, rb\<lparr>tail_index := index_forward rb (tail_index rb)\<rparr>)"
    by (simp add: cat_ringbuffer_get_def)
  then show ?thesis using tf(1,2) assms(2) by simp
qed

lemma get_empty:
  assumes "rb_inv k rb" "rb_list rb = []"
  shows "cat_ringbuffer_get rb = Some (CAT_ERROR, None, rb)"
  using assms is_empty_count [OF assms(1)] length_rb_list [of rb] by (simp add: cat_ringbuffer_get_def)

section \<open>The interface: a bounded queue that overwrites its oldest element\<close>

locale overwriting_fifo =
  fixes put :: "'q \<Rightarrow> 'a \<Rightarrow> (int \<times> 'q) option"
    and items :: "'q \<Rightarrow> 'a list"
    and inv :: "'q \<Rightarrow> bool"
    and cap :: nat
  assumes cap_pos: "inv q \<Longrightarrow> 0 < cap"
    and items_bound: "inv q \<Longrightarrow> length (items q) \<le> cap"
    and put_room: "inv q \<Longrightarrow> length (items q) < cap \<Longrightarrow>
      \<exists>q'. put q x = Some (0, q') \<and> inv q' \<and> items q' = items q @ [x]"
    and put_over: "inv q \<Longrightarrow> length (items q) = cap \<Longrightarrow>
      \<exists>q'. put q x = Some (-1, q') \<and> inv q' \<and> items q' = tl (items q) @ [x]"
begin

text \<open>Storing a sequence keeps its last \<open>cap\<close> elements and counts the lost ones in the status.\<close>

lemma put_loop_keeps_last:
  "inv q \<Longrightarrow> \<exists>q'. put_loop put q r ds =
       Some (r - int (length (items q) + length ds - cap), q') \<and> inv q' \<and>
     items q' = drop (length (items q) + length ds - cap) (items q @ ds)"
proof (induction ds arbitrary: q r)
  case Nil
  then show ?case using items_bound [OF Nil.prems] by simp
next
  case (Cons d ds)
  show ?case
  proof (cases "length (items q) < cap")
    case True
    then obtain q' where q': "put q d = Some (0, q')" "inv q'" "items q' = items q @ [d]"
      using put_room [OF Cons.prems] by blast
    show ?thesis using Cons.IH [OF q'(2), of r] by (simp add: q')
  next
    case False
    then have len: "length (items q) = cap" using items_bound [OF Cons.prems] by simp
    then obtain q' where q': "put q d = Some (-1, q')" "inv q'" "items q' = tl (items q) @ [d]"
      using put_over [OF Cons.prems] by blast
    have "items q \<noteq> []" using len cap_pos [OF Cons.prems] by auto
    then show ?thesis
      using Cons.IH [OF q'(2), of "r - 1"] len by (cases "items q") (auto simp: q')
  qed
qed

end

interpretation cat: overwriting_fifo cat_ringbuffer_put rb_list "rb_inv k" "2 ^ k - 1" for k
proof
  show "rb_inv k rb \<Longrightarrow> 0 < (2::nat) ^ k - 1" for rb :: cat_ringbuffer
    using power_increasing [of 1 k "2::nat"] by (simp add: rb_inv_def)
  show "rb_inv k rb \<Longrightarrow> length (rb_list rb) \<le> 2 ^ k - 1" for rb
    using rb_count_less [of k rb] by simp
  show "rb_inv k rb \<Longrightarrow> length (rb_list rb) < 2 ^ k - 1 \<Longrightarrow>
      \<exists>rb'. cat_ringbuffer_put rb x = Some (0, rb') \<and> rb_inv k rb' \<and> rb_list rb' = rb_list rb @ [x]" for rb x
    using put_not_full [of k rb x] is_full_count [of k rb] by (simp add: CAT_EOK_def)
  show "rb_inv k rb \<Longrightarrow> length (rb_list rb) = 2 ^ k - 1 \<Longrightarrow>
      \<exists>rb'. cat_ringbuffer_put rb x = Some (-1, rb') \<and> rb_inv k rb' \<and> rb_list rb' = tl (rb_list rb) @ [x]" for rb x
    using put_full [of k rb x] is_full_count [of k rb] by (simp add: CAT_ERROR_def)
qed

section \<open>Reading many bytes\<close>

text \<open>The loop stores the first \<open>size\<close> bytes. Its count is right when enough bytes are there; when
  the buffer runs dry the failed last \<^verbatim>\<open>get\<close> is counted too.\<close>

lemma get_loop_result:
  "rb_inv k rb \<Longrightarrow> rb_list rb = xs \<Longrightarrow> cnt < sz \<Longrightarrow>
    \<exists>rb'. get_loop rb out cnt sz =
      Some (if cnt + length xs < sz then cnt + length xs + 1 else sz, out @ take (sz - cnt) xs, rb') \<and>
      rb_inv k rb' \<and> rb_list rb' = drop (sz - cnt) xs"
proof (induction xs arbitrary: rb cnt out)
  case Nil
  then show ?case using get_empty [OF Nil.prems(1,2)]
    by (subst get_loop.simps) (simp add: CAT_EOK_def CAT_ERROR_def)
next
  case (Cons x xs)
  obtain rb' where rb': "cat_ringbuffer_get rb = Some (CAT_EOK, Some x, rb')" "rb_inv k rb'" "rb_list rb' = xs"
    using get_nonempty [OF Cons.prems(1,2)] by blast
  show ?case
  proof (cases "Suc cnt < sz")
    case True
    have "take (sz - cnt) (x # xs) = x # take (sz - Suc cnt) xs"
      "drop (sz - cnt) (x # xs) = drop (sz - Suc cnt) xs"
      using True by (simp_all add: take_Cons' drop_Cons')
    then show ?thesis
      using Cons.IH [OF rb'(2,3) True, of "out @ [x]"] True
      by (subst get_loop.simps) (auto simp: rb'(1) split: if_splits)
  next
    case False
    then have "sz - cnt = 1" "sz = Suc cnt" using Cons.prems(3) by auto
    then show ?thesis using rb'(2,3)
      by (subst get_loop.simps) (simp add: rb'(1))
  qed
qed

section \<open>Properties\<close>

text \<open>C28. Storing bytes one by one or with \<open>cat_ringbuffer_put_more\<close> never leaves the buffer: the call
  returns, the invariant is kept, the buffer then holds the last \<open>2 ^ k - 1\<close> bytes of what it
  held followed by the new data in order, and the status is an error exactly when a byte was
  overwritten.\<close>

theorem put_more_keeps_last:
  assumes "rb_inv k rb"
  shows "\<exists>rb'. cat_ringbuffer_put_more rb ds =
      Some (if rb_count rb + length ds < 2 ^ k then CAT_EOK else CAT_ERROR, rb') \<and>
    rb_inv k rb' \<and> rb_list rb' = drop (rb_count rb + length ds - (2 ^ k - 1)) (rb_list rb @ ds)"
  using cat.put_loop_keeps_last [OF assms, of 0 ds]
  by (auto simp: cat_ringbuffer_put_more_def CAT_EOK_def simp del: of_nat_diff drop_append)

definition rb4 :: cat_ringbuffer where
  "rb4 = \<lparr>p_buffer = [0, 0, 0, 0], ring_mask = 3, tail_index = 0, head_index = 0\<rparr>"

lemma rb4_inv: "rb_inv 2 rb4" "rb_list rb4 = []" "rb_count rb4 = 0"
  by (simp_all add: rb_inv_def rb4_def rb_list_def rb_count_def mask_eq_exp_minus_1)

theorem put_more_keeps_last_witness:
  "\<exists>rb'. cat_ringbuffer_put_more rb4 [1, 2, 3, 4, 5] = Some (CAT_ERROR, rb') \<and> rb_list rb' = [3, 4, 5]"
  using put_more_keeps_last [OF rb4_inv(1), of "[1, 2, 3, 4, 5]"] by (auto simp: rb4_inv)

text \<open>Reading \<open>sz > 0\<close> bytes from a non-empty buffer returns the oldest bytes in order, as many as
  there are up to \<open>sz\<close>, and removes exactly these. The count it reports is the number of bytes
  delivered only when the buffer did not run dry: otherwise it is one more.\<close>

theorem get_more_oldest:
  assumes "rb_inv k rb" "rb_list rb \<noteq> []" "0 < sz"
  shows "\<exists>rb'. cat_ringbuffer_get_more rb sz =
      Some (if rb_count rb < sz then rb_count rb + 1 else sz, take sz (rb_list rb), rb') \<and>
    rb_inv k rb' \<and> rb_list rb' = drop sz (rb_list rb)"
proof -
  have "\<not> cat_ringbuffer_is_empty rb"
    using is_empty_count [OF assms(1)] assms(2) length_rb_list [of rb] by (metis length_0_conv)
  then show ?thesis
    using get_loop_result [OF assms(1) refl assms(3), of "[]"] by (auto simp: cat_ringbuffer_get_more_def split: if_splits)
qed

definition rb4_three :: cat_ringbuffer where
  "rb4_three = \<lparr>p_buffer = [7, 0, 5, 6], ring_mask = 3, tail_index = 2, head_index = 1\<rparr>"

theorem get_more_oldest_witness:
  "\<exists>rb'. cat_ringbuffer_get_more rb4_three 10 = Some (4, [5, 6, 7], rb') \<and> rb_list rb' = []"
proof -
  have "rb_inv 2 rb4_three" "rb_count rb4_three = 3" "rb_list rb4_three = [5, 6, 7]"
    by (simp_all add: rb_inv_def rb4_three_def rb_list_def rb_count_def ring_seq_def mask_eq_exp_minus_1 upt_rec)
  then show ?thesis using get_more_oldest [of 2 rb4_three 10] by auto
qed

text \<open>Initialising with a buffer whose size is a power of two (and at least two) gives an empty
  ring that satisfies the invariant, whatever the structure held before.\<close>

theorem init_empty:
  assumes "1 \<le> k" "k < 32" "length space = 2 ^ k"
  shows "\<exists>rb'. cat_ringbuffer_init (Some rb) (Some space) (2 ^ k) = Some rb' \<and> rb_inv k rb' \<and> rb_list rb' = []"
proof -
  have "(2::u32) ^ k AND (2 ^ k - 1) = 0"
    by (rule bit_word_eqI) (use assms(2) in \<open>auto simp: bit_simps mask_eq_exp_minus_1 [symmetric]\<close>)
  then show ?thesis
    using assms by (simp add: cat_ringbuffer_init_def IS_POWER_OF_TWO_def rb_inv_def rb_list_def rb_count_def
        mask_eq_exp_minus_1)
qed

theorem init_empty_witness:
  "\<exists>rb'. cat_ringbuffer_init (Some rb4_three) (Some [1, 2]) 2 = Some rb' \<and> rb_list rb' = []"
  using init_empty [of 1 "[1, 2]" rb4_three] by auto

end
