(* ===== verification/Klist.thy ===== *)
theory Klist
  imports Prelude
begin

text \<open>
  The intrusive circular doubly linked lists of \<^verbatim>\<open>kernel/src/list.c\<close>. Every kernel queue is such a
  ring threaded through nodes embedded in threads, pools and policies, so the nodes live in one
  heap: \<open>lnext\<close>, \<open>lprev\<close> and \<open>lvalue\<close> are the fields of \<^verbatim>\<open>struct acoral_list\<close>, \<open>llock\<close> its spin lock
  (\<^verbatim>\<open>CFG_SMP\<close> is on), and \<open>qlock\<close> is the lock of the \<^verbatim>\<open>acoral_queue_t\<close> whose head the node is. The type
  of node addresses is a parameter.

  Locks follow the code: each operation takes the locks of the nodes it touches one by one.
  Execution here is sequential, so a lock that is already taken is never released while the
  operation waits: taking it is \<open>None\<close>.
\<close>

record 'a lheap =
  lnext :: "'a \<Rightarrow> 'a"
  lprev :: "'a \<Rightarrow> 'a"
  lvalue :: "'a \<Rightarrow> int"
  llock :: "'a \<Rightarrow> bool"
  qlock :: "'a \<Rightarrow> bool"

section \<open>Operations\<close>

definition set_next :: "'a \<Rightarrow> 'a \<Rightarrow> 'a lheap \<Rightarrow> 'a lheap" where
  "set_next a b h = h\<lparr>lnext := (lnext h)(a := b)\<rparr>"

definition set_prev :: "'a \<Rightarrow> 'a \<Rightarrow> 'a lheap \<Rightarrow> 'a lheap" where
  "set_prev a b h = h\<lparr>lprev := (lprev h)(a := b)\<rparr>"

definition set_value :: "'a \<Rightarrow> int \<Rightarrow> 'a lheap \<Rightarrow> 'a lheap" where
  "set_value a v h = h\<lparr>lvalue := (lvalue h)(a := v)\<rparr>"

text \<open>\<^verbatim>\<open>hal_spin_lock\<close> and \<^verbatim>\<open>hal_spin_unlock\<close> on the lock of a node and of a queue.\<close>

definition node_lock :: "'a \<Rightarrow> 'a lheap \<Rightarrow> 'a lheap option" where
  "node_lock a h = (if llock h a then None else Some (h\<lparr>llock := (llock h)(a := True)\<rparr>))"

definition node_unlock :: "'a \<Rightarrow> 'a lheap \<Rightarrow> 'a lheap" where
  "node_unlock a h = h\<lparr>llock := (llock h)(a := False)\<rparr>"

definition queue_lock :: "'a \<Rightarrow> 'a lheap \<Rightarrow> 'a lheap option" where
  "queue_lock q h = (if qlock h q then None else Some (h\<lparr>qlock := (qlock h)(q := True)\<rparr>))"

definition queue_unlock :: "'a \<Rightarrow> 'a lheap \<Rightarrow> 'a lheap" where
  "queue_unlock q h = h\<lparr>qlock := (qlock h)(q := False)\<rparr>"

text \<open>Each assignment of the C code reads the fields as the earlier ones left them.\<close>

definition acoral_list_add :: "'a \<Rightarrow> 'a \<Rightarrow> 'a lheap \<Rightarrow> 'a lheap option" where
  "acoral_list_add new head h =
     (let temp_next = lnext h head in
      do {
        h \<leftarrow> node_lock new h;
        h \<leftarrow> node_lock head h;
        h \<leftarrow> (if head \<noteq> temp_next then node_lock temp_next h else Some h);
        let h = set_prev new head h;
        let h = set_next new (lnext h head) h;
        let h = set_prev (lnext h head) new h;
        let h = set_next head new h;
        let h = node_unlock new h;
        let h = node_unlock head h;
        Some (if head \<noteq> temp_next then node_unlock temp_next h else h)
      })"

definition acoral_list_add_tail :: "'a \<Rightarrow> 'a \<Rightarrow> 'a lheap \<Rightarrow> 'a lheap option" where
  "acoral_list_add_tail new head h =
     (let temp_prev = lprev h head in
      do {
        h \<leftarrow> node_lock new h;
        h \<leftarrow> node_lock head h;
        h \<leftarrow> (if head \<noteq> temp_prev then node_lock temp_prev h else Some h);
        let h = set_prev new (lprev h head) h;
        let h = set_next new head h;
        let h = set_next (lprev h head) new h;
        let h = set_prev head new h;
        let h = node_unlock new h;
        let h = node_unlock head h;
        Some (if head \<noteq> temp_prev then node_unlock temp_prev h else h)
      })"

definition acoral_list_del :: "'a \<Rightarrow> 'a lheap \<Rightarrow> 'a lheap option" where
  "acoral_list_del entry h =
     (let temp_prev = lprev h entry; temp_next = lnext h entry in
      do {
        h \<leftarrow> node_lock temp_prev h;
        h \<leftarrow> node_lock entry h;
        h \<leftarrow> (if temp_prev \<noteq> temp_next then node_lock temp_next h else Some h);
        let h = set_next (lprev h entry) (lnext h entry) h;
        let h = set_prev (lnext h entry) (lprev h entry) h;
        let h = set_next entry entry h;
        let h = set_prev entry entry h;
        let h = node_unlock temp_prev h;
        let h = node_unlock entry h;
        Some (if temp_prev \<noteq> temp_next then node_unlock temp_next h else h)
      })"

definition acoral_list_init :: "'a \<Rightarrow> 'a lheap \<Rightarrow> 'a lheap" where
  "acoral_list_init p h = node_unlock p (set_prev p p (set_next p p h))"

definition acoral_vlist_init :: "'a \<Rightarrow> int \<Rightarrow> 'a lheap \<Rightarrow> 'a lheap" where
  "acoral_vlist_init p value h = node_unlock p (set_value p (s32 value) (set_prev p p (set_next p p h)))"

definition acoral_list_empty :: "'a \<Rightarrow> 'a lheap \<Rightarrow> bool" where
  "acoral_list_empty head h \<longleftrightarrow> lnext h head = head"

lemmas heap_upd_defs = set_next_def set_prev_def set_value_def node_unlock_def queue_unlock_def

section \<open>Rings\<close>

text \<open>\<open>links h a xs b\<close>: following \<open>lnext\<close> from \<open>a\<close> visits the nodes \<open>xs\<close> and then \<open>b\<close>, and the \<open>lprev\<close>
  fields point back. A ring is a non-repeating cycle through its head.\<close>

fun links :: "'a lheap \<Rightarrow> 'a \<Rightarrow> 'a list \<Rightarrow> 'a \<Rightarrow> bool" where
  "links h a [] b \<longleftrightarrow> lnext h a = b \<and> lprev h b = a"
| "links h a (x # xs) b \<longleftrightarrow> lnext h a = x \<and> lprev h x = a \<and> links h x xs b"

definition ring :: "'a lheap \<Rightarrow> 'a \<Rightarrow> 'a list \<Rightarrow> bool" where
  "ring h q xs \<longleftrightarrow> distinct (q # xs) \<and> links h q xs q"

text \<open>A node that is in no list points to itself.\<close>

definition unlinked :: "'a \<Rightarrow> 'a lheap \<Rightarrow> bool" where
  "unlinked p h \<longleftrightarrow> lnext h p = p \<and> lprev h p = p"

definition lists_free :: "'a lheap \<Rightarrow> bool" where
  "lists_free h \<longleftrightarrow> llock h = (\<lambda>_. False) \<and> qlock h = (\<lambda>_. False)"

text \<open>The pure effect of insertion after \<open>p\<close> and of removal.\<close>

definition insert_after :: "'a \<Rightarrow> 'a \<Rightarrow> 'a lheap \<Rightarrow> 'a lheap" where
  "insert_after new p h =
     h\<lparr>lnext := (lnext h)(new := lnext h p, p := new),
       lprev := (lprev h)(new := p, lnext h p := new)\<rparr>"

definition unlink :: "'a \<Rightarrow> 'a lheap \<Rightarrow> 'a lheap" where
  "unlink e h =
     h\<lparr>lnext := (lnext h)(lprev h e := lnext h e, e := e),
       lprev := (lprev h)(lnext h e := lprev h e, e := e)\<rparr>"

lemma links_append:
  "links h a (xs @ y # ys) b \<longleftrightarrow> links h a xs y \<and> links h y ys b"
  by (induction xs arbitrary: a) auto

lemma links_last: "links h a xs b \<Longrightarrow> lprev h b = last (a # xs)"
  by (induction xs arbitrary: a) auto

lemma links_frame:
  assumes "\<And>c. c \<in> set (a # xs) \<Longrightarrow> lnext h' c = lnext h c"
    and "\<And>c. c \<in> set (xs @ [b]) \<Longrightarrow> lprev h' c = lprev h c"
  shows "links h' a xs b \<longleftrightarrow> links h a xs b"
  using assms by (induction xs arbitrary: a) auto

lemma ring_frame:
  assumes "\<And>c. c \<in> set (q # xs) \<Longrightarrow> lnext h' c = lnext h c \<and> lprev h' c = lprev h c"
  shows "ring h' q xs \<longleftrightarrow> ring h q xs"
proof -
  have "links h' q xs q \<longleftrightarrow> links h q xs q"
    by (rule links_frame) (use assms in auto)
  then show ?thesis by (simp add: ring_def)
qed

lemma ring_Nil: "ring h q [] \<longleftrightarrow> unlinked q h"
  by (auto simp: ring_def unlinked_def)

lemma ring_empty_iff: "ring h q xs \<Longrightarrow> acoral_list_empty q h \<longleftrightarrow> xs = []"
  by (cases xs) (auto simp: ring_def acoral_list_empty_def)

lemma ring_next_head: "ring h q (x # xs) \<Longrightarrow> lnext h q = x"
  by (simp add: ring_def)

lemma ring_prev_head: "ring h q xs \<Longrightarrow> lprev h q = last (q # xs)"
  using links_last [of h q xs q] by (simp add: ring_def)

lemma ring_next: "ring h q (xs @ x # ys) \<Longrightarrow> lnext h x = (case ys of [] \<Rightarrow> q | y # _ \<Rightarrow> y)"
  by (cases ys) (auto simp: ring_def links_append)

lemma ring_prev: "ring h q (xs @ x # ys) \<Longrightarrow> lprev h x = last (q # xs)"
  using links_last [of h q xs x] by (simp add: ring_def links_append)

lemma ring_next_last: "ring h q (ys @ zs) \<Longrightarrow> lnext h (last (q # ys)) = (case zs of [] \<Rightarrow> q | z # _ \<Rightarrow> z)"
proof (cases ys rule: rev_cases)
  case Nil
  then show "ring h q (ys @ zs) \<Longrightarrow> ?thesis" by (cases zs) (auto simp: ring_def)
next
  case (snoc us u)
  then show "ring h q (ys @ zs) \<Longrightarrow> ?thesis" using ring_next [of h q us u zs] by simp
qed

text \<open>A head has at most one ring.\<close>

lemma ring_unique:
  assumes "ring h q xs" "ring h q ys"
  shows "xs = ys"
proof -
  have "links h a xs q \<Longrightarrow> links h a ys q \<Longrightarrow> q \<notin> set xs \<Longrightarrow> q \<notin> set ys \<Longrightarrow> xs = ys" for a
    by (induction xs arbitrary: a ys) (case_tac ys; auto)+
  then show ?thesis using assms by (auto simp: ring_def)
qed

section \<open>The operations have their pure effect\<close>

lemma list_add_eq [list_heap]:
  assumes "llock h = (\<lambda>_. False)" "new \<noteq> p" "new \<noteq> lnext h p"
  shows "acoral_list_add new p h = Some (insert_after new p h)"
  using assms
  by (auto simp: acoral_list_add_def insert_after_def node_lock_def heap_upd_defs Let_def fun_eq_iff
      intro!: lheap.equality)

lemma list_add_tail_eq [list_heap]:
  assumes "llock h = (\<lambda>_. False)" "new \<noteq> p" "new \<noteq> lprev h p" "lnext h (lprev h p) = p"
  shows "acoral_list_add_tail new p h = Some (insert_after new (lprev h p) h)"
  using assms
  by (auto simp: acoral_list_add_tail_def insert_after_def node_lock_def heap_upd_defs Let_def fun_eq_iff
      intro!: lheap.equality)

lemma list_del_eq [list_heap]:
  assumes "llock h = (\<lambda>_. False)" "lprev h e \<noteq> e" "lnext h e \<noteq> e"
  shows "acoral_list_del e h = Some (unlink e h)"
  using assms
  by (auto simp: acoral_list_del_def unlink_def node_lock_def heap_upd_defs Let_def fun_eq_iff
      intro!: lheap.equality)

lemma heap_effect_fields [simp]:
  "llock (insert_after n p h) = llock h" "qlock (insert_after n p h) = qlock h"
  "lvalue (insert_after n p h) = lvalue h"
  "llock (unlink e h) = llock h" "qlock (unlink e h) = qlock h" "lvalue (unlink e h) = lvalue h"
  by (simp_all add: insert_after_def unlink_def)

text \<open>The code takes the lock of the predecessor, then its own: for a node that is in no list these
  are the same lock.\<close>

lemma list_del_unlinked: "unlinked e h \<Longrightarrow> acoral_list_del e h = None"
  by (simp add: acoral_list_del_def unlinked_def node_lock_def Let_def)

section \<open>Effect on one ring\<close>

lemma links_insert:
  assumes "links h a (xs @ ys) b" "distinct (a # xs @ ys)" "b \<notin> set (xs @ ys)"
    "new \<notin> set (a # b # xs @ ys)"
  shows "links (insert_after new (last (a # xs)) h) a (xs @ new # ys) b"
  using assms
proof (induction xs arbitrary: a)
  case Nil
  let ?h = "insert_after new a h"
  show ?case
  proof (cases ys)
    case Nil
    then show ?thesis using Nil.prems by (auto simp: insert_after_def)
  next
    case (Cons y zs)
    have "links ?h y zs b \<longleftrightarrow> links h y zs b"
      by (rule links_frame) (use Nil.prems Cons in \<open>auto simp: insert_after_def\<close>)
    then show ?thesis using Nil.prems Cons by (auto simp: insert_after_def)
  qed
next
  case (Cons x xs)
  let ?p = "last (x # xs)"
  have pin: "?p \<in> set (x # xs)" by (rule last_in_set) simp
  have nx: "lnext h ?p \<in> set ys \<union> {b}"
  proof (cases xs rule: rev_cases)
    case Nil
    then show ?thesis using Cons.prems(1) by (cases ys) auto
  next
    case (snoc us u)
    then have "links h x (us @ u # ys) b" using Cons.prems(1) by simp
    then have "links h u ys b" by (simp add: links_append)
    then show ?thesis using snoc by (cases ys) auto
  qed
  have "links (insert_after new ?p h) x (xs @ new # ys) b"
    using Cons.prems by (intro Cons.IH) auto
  moreover have "lnext (insert_after new ?p h) a = lnext h a" "lprev (insert_after new ?p h) x = lprev h x"
    using Cons.prems pin nx by (auto simp: insert_after_def)
  ultimately show ?case using Cons.prems(1) by simp
qed

lemma ring_insert [ring_intro]:
  assumes "ring h q (xs @ ys)" "new \<notin> set (q # xs @ ys)"
  shows "ring (insert_after new (last (q # xs)) h) q (xs @ new # ys)"
  using assms links_insert [of h q xs ys q new] by (auto simp: ring_def)

lemma ring_unlink [ring_intro]:
  assumes "ring h q (xs @ e # ys)"
  shows "ring (unlink e h) q (xs @ ys)" "unlinked e (unlink e h)"
proof -
  let ?p = "last (q # xs)" and ?n = "case ys of [] \<Rightarrow> q | y # _ \<Rightarrow> y"
  have d: "distinct (q # xs @ e # ys)" and l: "links h q xs e" "links h e ys q"
    using assms by (auto simp: ring_def links_append)
  have pn: "lprev h e = ?p" "lnext h e = ?n"
    using ring_prev [OF assms] ring_next [OF assms] by simp_all
  have pin: "?p \<in> set (q # xs)" by (rule last_in_set) simp
  have u: "lnext (unlink e h) = (lnext h)(?p := ?n, e := e)" "lprev (unlink e h) = (lprev h)(?n := ?p, e := e)"
    by (simp_all add: unlink_def pn)
  have "links (unlink e h) q (xs @ ys) q"
  proof (cases xs rule: rev_cases)
    case Nil
    show ?thesis
    proof (cases ys)
      case Nil
      then show ?thesis using \<open>xs = []\<close> u d by simp
    next
      case (Cons y zs)
      have "links (unlink e h) y zs q \<longleftrightarrow> links h y zs q"
        by (rule links_frame) (use \<open>xs = []\<close> Cons d u in auto)
      then show ?thesis using \<open>xs = []\<close> Cons d u l by auto
    qed
  next
    case (snoc us v)
    have v: "?p = v" by (simp add: snoc)
    have a: "links (unlink e h) q us v \<longleftrightarrow> links h q us v"
      by (rule links_frame) (use snoc d u v in \<open>auto split: list.splits\<close>)
    have b: "links (unlink e h) v ys q"
    proof (cases ys)
      case Nil
      moreover have "v \<noteq> e" "v \<noteq> q" using d snoc by auto
      ultimately show ?thesis using d u [unfolded v] by simp
    next
      case (Cons y zs)
      have "links (unlink e h) y zs q \<longleftrightarrow> links h y zs q"
        by (rule links_frame) (use snoc Cons d u v in auto)
      moreover have "v \<noteq> e" "v \<noteq> q" "y \<noteq> e" using d snoc Cons by auto
      ultimately show ?thesis using Cons u [unfolded v] l(2) by simp
    qed
    have "links h q us v" using l(1) by (simp add: snoc links_append)
    then show ?thesis using a b by (simp add: snoc links_append)
  qed
  then show "ring (unlink e h) q (xs @ ys)" using d by (simp add: ring_def)
  show "unlinked e (unlink e h)" by (simp add: unlinked_def unlink_def)
qed

section \<open>All the rings of a heap\<close>

text \<open>\<open>R\<close> maps the head of every ring to its members: the rings share no node. This is the abstract
  view of the node heap; an operation on one queue updates \<open>R\<close> at one head.\<close>

definition rings :: "'a lheap \<Rightarrow> ('a \<rightharpoonup> 'a list) \<Rightarrow> bool" where
  "rings h R \<longleftrightarrow> llock h = (\<lambda>_. False) \<and> (\<forall>q xs. R q = Some xs \<longrightarrow> ring h q xs) \<and>
     (\<forall>q xs r ys. R q = Some xs \<longrightarrow> R r = Some ys \<longrightarrow> q \<noteq> r \<longrightarrow> set (q # xs) \<inter> set (r # ys) = {})"

definition free_node :: "('a \<rightharpoonup> 'a list) \<Rightarrow> 'a \<Rightarrow> bool" where
  "free_node R n \<longleftrightarrow> (\<forall>r zs. R r = Some zs \<longrightarrow> n \<notin> set (r # zs))"

lemma ringsD: "rings h R \<Longrightarrow> R q = Some xs \<Longrightarrow> ring h q xs"
  by (simp add: rings_def)

lemma free_nodeD: "free_node R n \<Longrightarrow> R r = Some zs \<Longrightarrow> n \<notin> set (r # zs)"
  unfolding free_node_def by blast

lemma rings_llock: "rings h R \<Longrightarrow> llock h = (\<lambda>_. False)"
  by (simp add: rings_def)

lemma rings_disj:
  "rings h R \<Longrightarrow> R q = Some xs \<Longrightarrow> R r = Some ys \<Longrightarrow> q \<noteq> r \<Longrightarrow> set (q # xs) \<inter> set (r # ys) = {}"
  unfolding rings_def by blast

lemma ring_neighbours:
  assumes "ring h q zs" "c \<in> set (q # zs)"
  shows "lnext h c \<in> set (q # zs)" "lprev h c \<in> set (q # zs)"
proof -
  have "lnext h c \<in> set (q # zs) \<and> lprev h c \<in> set (q # zs)"
  proof (cases "c = q")
    case True
    have "lprev h q \<in> set (q # zs)" using ring_prev_head [OF assms(1)] by (metis last_in_set list.distinct(1))
    moreover have "lnext h q \<in> set (q # zs)" using assms(1) by (cases zs) (auto simp: ring_def)
    ultimately show ?thesis using True by simp
  next
    case False
    then obtain xs ys where z: "zs = xs @ c # ys" using assms(2) by (auto dest: split_list)
    have "last (q # xs) \<in> set (q # xs)" by (rule last_in_set) simp
    then show ?thesis
      using ring_next [of h q xs c ys] ring_prev [of h q xs c ys] assms(1) z by (auto split: list.splits)
  qed
  then show "lnext h c \<in> set (q # zs)" "lprev h c \<in> set (q # zs)" by simp_all
qed

lemma rings_upd:
  assumes R: "rings h R" and q: "R q = Some xs"
    and r: "ring h' q ys" and lk: "llock h' = llock h"
    and fr: "\<And>c. c \<notin> set (q # xs) \<Longrightarrow> c \<notin> N \<Longrightarrow> lnext h' c = lnext h c \<and> lprev h' c = lprev h c"
    and N: "\<And>n. n \<in> N \<Longrightarrow> free_node R n" and ys: "set ys \<subseteq> set xs \<union> N"
  shows "rings h' (R(q \<mapsto> ys))"
proof -
  have other: "set (q # xs) \<inter> set (r # zs) = {} \<and> N \<inter> set (r # zs) = {}" if "R r = Some zs" "r \<noteq> q" for r zs
    using rings_disj [OF R q that(1)] that N by (auto simp: free_node_def)
  have "ring h' r zs" if "R r = Some zs" "r \<noteq> q" for r zs
  proof -
    have "ring h' r zs \<longleftrightarrow> ring h r zs"
      by (rule ring_frame) (use other [OF that] fr in blast)
    then show ?thesis using ringsD [OF R that(1)] by simp
  qed
  moreover have "set (q # ys) \<inter> set (r # zs) = {}" if "R r = Some zs" "r \<noteq> q" for r zs
    using other [OF that] ys by auto
  moreover have "set (r # zs) \<inter> set (r' # zs') = {}"
    if "R r = Some zs" "R r' = Some zs'" "r \<noteq> r'" for r zs r' zs'
    using rings_disj [OF R that] .
  ultimately show ?thesis
    using r lk rings_llock [OF R] unfolding rings_def by (auto split: if_splits) blast+
qed

lemma rings_insert [ring_intro]:
  assumes R: "rings h R" and q: "R q = Some (xs @ ys)" and n: "free_node R n"
  shows "rings (insert_after n (last (q # xs)) h) (R(q \<mapsto> xs @ n # ys))"
proof (rule rings_upd [OF R q, where N = "{n}"])
  have nf: "n \<notin> set (q # xs @ ys)" by (rule free_nodeD [OF n q])
  show "ring (insert_after n (last (q # xs)) h) q (xs @ n # ys)"
    using ring_insert [OF ringsD [OF R q] nf] .
  have p: "last (q # xs) \<in> set (q # xs)" by (rule last_in_set) simp
  moreover have "lnext h (last (q # xs)) \<in> set (q # xs @ ys)"
    using ring_neighbours(1) [OF ringsD [OF R q], of "last (q # xs)"] p by auto
  ultimately show "lnext (insert_after n (last (q # xs)) h) c = lnext h c \<and>
      lprev (insert_after n (last (q # xs)) h) c = lprev h c"
    if "c \<notin> set (q # xs @ ys)" "c \<notin> {n}" for c
    using that by (auto simp: insert_after_def)
qed (use n in auto)

lemma rings_unlink [ring_intro]:
  assumes R: "rings h R" and q: "R q = Some (xs @ e # ys)"
  shows "rings (unlink e h) (R(q \<mapsto> xs @ ys))"
proof (rule rings_upd [OF R q, where N = "{}"])
  show "ring (unlink e h) q (xs @ ys)" by (rule ring_unlink(1) [OF ringsD [OF R q]])
  show "lnext (unlink e h) c = lnext h c \<and> lprev (unlink e h) c = lprev h c"
    if "c \<notin> set (q # xs @ e # ys)" for c
    using that ring_neighbours [OF ringsD [OF R q], of e] by (auto simp: unlink_def)
qed auto

lemma rings_unlink_free:
  assumes R: "rings h R" and q: "R q = Some (xs @ e # ys)"
  shows "free_node (R(q \<mapsto> xs @ ys)) e"
proof -
  have "e \<notin> set (q # xs @ ys)" using ringsD [OF R q] by (auto simp: ring_def)
  then show ?thesis using rings_disj [OF R q] by (auto simp: free_node_def)
qed

text \<open>The three list operations on a ring of a heap.\<close>

lemma list_add_rings:
  assumes R: "rings h R" and q: "R q = Some (xs @ ys)" and n: "free_node R n"
  shows "acoral_list_add n (last (q # xs)) h = Some (insert_after n (last (q # xs)) h)"
proof (rule list_add_eq [OF rings_llock [OF R]])
  have nf: "n \<notin> set (q # xs @ ys)" by (rule free_nodeD [OF n q])
  have p: "last (q # xs) \<in> set (q # xs)" by (rule last_in_set) simp
  then show "n \<noteq> last (q # xs)" using nf by auto
  show "n \<noteq> lnext h (last (q # xs))"
    using ring_neighbours(1) [OF ringsD [OF R q], of "last (q # xs)"] p nf by auto
qed

lemma list_add_tail_rings:
  assumes R: "rings h R" and q: "R q = Some xs" and n: "free_node R n"
  shows "acoral_list_add_tail n q h = Some (insert_after n (last (q # xs)) h)"
proof -
  have nf: "n \<notin> set (q # xs)" by (rule free_nodeD [OF n q])
  have p: "last (q # xs) \<in> set (q # xs)" by (rule last_in_set) simp
  show ?thesis
    using list_add_tail_eq [OF rings_llock [OF R], of n q] ring_prev_head [OF ringsD [OF R q]]
      ring_next_last [of h q xs "[]"] ringsD [OF R q] nf p by force
qed

lemma list_del_rings:
  assumes R: "rings h R" and q: "R q = Some (xs @ e # ys)"
  shows "acoral_list_del e h = Some (unlink e h)"
proof (rule list_del_eq [OF rings_llock [OF R]])
  have d: "distinct (q # xs @ e # ys)" using ringsD [OF R q] by (simp add: ring_def)
  have "last (q # xs) \<in> set (q # xs)" by (rule last_in_set) simp
  then show "lprev h e \<noteq> e" using ring_prev [OF ringsD [OF R q]] d by auto
  show "lnext h e \<noteq> e" using ring_next [OF ringsD [OF R q]] d by (auto split: list.splits)
qed

lemma list_init_rings:
  assumes R: "rings h R" and q: "R q = None" "free_node R q"
  shows "rings (acoral_list_init q h) (R(q \<mapsto> []))" "rings (acoral_vlist_init q v h) (R(q \<mapsto> []))"
proof -
  have other: "q \<notin> set (r # zs)" if "R r = Some zs" for r zs
    using q(2) that by (simp add: free_node_def)
  have "rings h' (R(q \<mapsto> []))"
    if l: "llock h' = llock h" and u: "unlinked q h'"
      and f: "\<And>c. c \<noteq> q \<Longrightarrow> lnext h' c = lnext h c \<and> lprev h' c = lprev h c" for h'
  proof -
    have "ring h' r zs" if "R r = Some zs" for r zs
    proof -
      have "ring h' r zs \<longleftrightarrow> ring h r zs" by (rule ring_frame) (use other [OF that] f in metis)
      then show ?thesis using ringsD [OF R that] by simp
    qed
    moreover have "set (r # zs) \<inter> set (r' # zs') = {}"
      if "R r = Some zs" "R r' = Some zs'" "r \<noteq> r'" for r zs r' zs'
      using rings_disj [OF R that] .
    ultimately show ?thesis
      using l u rings_llock [OF R] other unfolding rings_def by (auto simp: ring_Nil split: if_splits)
  qed
  then show "rings (acoral_list_init q h) (R(q \<mapsto> []))" "rings (acoral_vlist_init q v h) (R(q \<mapsto> []))"
    using rings_llock [OF R]
    by (auto simp: acoral_list_init_def acoral_vlist_init_def heap_upd_defs unlinked_def fun_eq_iff)
qed

text \<open>Changing a value keeps the rings.\<close>

lemma rings_set_value [simp]: "rings (set_value a v h) R \<longleftrightarrow> rings h R"
proof -
  have "ring (set_value a v h) q xs \<longleftrightarrow> ring h q xs" for q xs
    by (rule ring_frame) (simp add: set_value_def)
  then show ?thesis by (simp add: rings_def set_value_def)
qed

lemma rings_qlock [simp]: "rings (h\<lparr>qlock := l\<rparr>) R \<longleftrightarrow> rings h R"
proof -
  have "ring (h\<lparr>qlock := l\<rparr>) q xs \<longleftrightarrow> ring h q xs" for q xs
    by (rule ring_frame) simp
  then show ?thesis by (simp add: rings_def)
qed

end
