(* ===== verification/Queue.thy ===== *)
theory Queue
  imports Klist
begin

text \<open>
  The queues of \<^verbatim>\<open>kernel/src/queue.c\<close> over the intrusive lists of theory \<open>Klist\<close>: the tick queue (a
  difference list: each node holds the ticks that remain after its predecessor), the priority
  queue (ascending by value, first come first served within a value), the FIFO and the LIFO queue.
  A queue is named by the address of its head node. The searching loops are
  \<^theory_text>\<open>partial_function (option)\<close>: a walk that never meets the head again is \<open>None\<close>.

  Each queue refines an operation on the list of its members; the locale \<open>kqueue\<close> is the contract
  the kernel's clients use, and it is interpreted on the priority, FIFO and LIFO queues.
\<close>

section \<open>Operations\<close>

definition acoral_tick_queue_init :: "'a \<Rightarrow> 'a lheap \<Rightarrow> 'a lheap" where
  "acoral_tick_queue_init q h = queue_unlock q (acoral_vlist_init q 0 h)"

text \<open>The loop of \<open>acoral_tick_queue_add\<close>: from node \<open>tmp\<close> with \<open>tick\<close> ticks left it returns the node
  where the walk stops and \<^verbatim>\<open>tick_tmp\<close>, the ticks left before that node.\<close>

partial_function (option) tick_walk :: "'a lheap \<Rightarrow> 'a \<Rightarrow> 'a \<Rightarrow> int \<Rightarrow> ('a \<times> int) option" where
  "tick_walk h head tmp tick =
     (if tmp = head then Some (tmp, tick)
      else let tick' = s32 (tick - lvalue h tmp)
           in if tick' < 0 then Some (tmp, tick)
              else tick_walk h head (lnext h tmp) tick')"

definition acoral_tick_queue_add :: "'a \<Rightarrow> 'a \<Rightarrow> 'a lheap \<Rightarrow> 'a lheap option" where
  "acoral_tick_queue_add q tnode h =
     do {
       let tick = lvalue h tnode;
       h \<leftarrow> queue_lock q h;
       (tmp, tick_tmp) \<leftarrow> tick_walk h q (lnext h q) tick;
       let h = set_value tnode tick_tmp h;
       h \<leftarrow> acoral_list_add tnode (lprev h tmp) h;
       let h = (if tmp \<noteq> q then set_value tmp (s32 (lvalue h tmp - tick_tmp)) h else h);
       Some (queue_unlock q h)
     }"

definition acoral_tick_queue_del :: "'a \<Rightarrow> 'a \<Rightarrow> 'a lheap \<Rightarrow> 'a lheap option" where
  "acoral_tick_queue_del q tnode h =
     do { h \<leftarrow> queue_lock q h; h \<leftarrow> acoral_list_del tnode h; Some (queue_unlock q h) }"

definition acoral_prio_queue_init :: "'a \<Rightarrow> 'a lheap \<Rightarrow> 'a lheap" where
  "acoral_prio_queue_init q h = queue_unlock q (acoral_vlist_init q 0 h)"

text \<open>The loop of \<open>acoral_prio_queue_add\<close>; its second test stops at a node that points to itself.\<close>

partial_function (option) prio_walk :: "'a lheap \<Rightarrow> 'a \<Rightarrow> 'a \<Rightarrow> int \<Rightarrow> 'a option" where
  "prio_walk h head tmp v =
     (if tmp = head then Some tmp
      else if lvalue h tmp > v then Some tmp
      else if tmp = lnext h tmp then Some tmp
      else prio_walk h head (lnext h tmp) v)"

definition acoral_prio_queue_add :: "'a \<Rightarrow> 'a \<Rightarrow> 'a lheap \<Rightarrow> 'a lheap option" where
  "acoral_prio_queue_add q pnode h =
     do {
       h \<leftarrow> queue_lock q h;
       tmp \<leftarrow> prio_walk h q (lnext h q) (lvalue h pnode);
       h \<leftarrow> acoral_list_add pnode (lprev h tmp) h;
       Some (queue_unlock q h)
     }"

definition acoral_prio_queue_del :: "'a \<Rightarrow> 'a \<Rightarrow> 'a lheap \<Rightarrow> 'a lheap option" where
  "acoral_prio_queue_del q pnode h =
     do { h \<leftarrow> queue_lock q h; h \<leftarrow> acoral_list_del pnode h; Some (queue_unlock q h) }"

definition acoral_fifo_queue_init :: "'a \<Rightarrow> 'a lheap \<Rightarrow> 'a lheap" where
  "acoral_fifo_queue_init q h = queue_unlock q (acoral_list_init q h)"

definition acoral_fifo_queue_v_init :: "'a \<Rightarrow> int \<Rightarrow> 'a lheap \<Rightarrow> 'a lheap" where
  "acoral_fifo_queue_v_init q value h = queue_unlock q (acoral_vlist_init q value h)"

definition acoral_fifo_queue_add :: "'a \<Rightarrow> 'a \<Rightarrow> 'a lheap \<Rightarrow> 'a lheap option" where
  "acoral_fifo_queue_add q node h =
     do { h \<leftarrow> queue_lock q h; h \<leftarrow> acoral_list_add_tail node q h; Some (queue_unlock q h) }"

definition acoral_fifo_queue_del :: "'a \<Rightarrow> 'a \<Rightarrow> 'a lheap \<Rightarrow> 'a lheap option" where
  "acoral_fifo_queue_del q node h =
     do { h \<leftarrow> queue_lock q h; h \<leftarrow> acoral_list_del node h; Some (queue_unlock q h) }"

definition acoral_lifo_queue_init :: "'a \<Rightarrow> 'a lheap \<Rightarrow> 'a lheap" where
  "acoral_lifo_queue_init q h = queue_unlock q (acoral_list_init q h)"

definition acoral_lifo_queue_v_init :: "'a \<Rightarrow> int \<Rightarrow> 'a lheap \<Rightarrow> 'a lheap" where
  "acoral_lifo_queue_v_init q value h = queue_unlock q (acoral_vlist_init q value h)"

definition acoral_lifo_queue_add :: "'a \<Rightarrow> 'a \<Rightarrow> 'a lheap \<Rightarrow> 'a lheap option" where
  "acoral_lifo_queue_add q node h =
     do { h \<leftarrow> queue_lock q h; h \<leftarrow> acoral_list_add node q h; Some (queue_unlock q h) }"

definition acoral_lifo_queue_del :: "'a \<Rightarrow> 'a \<Rightarrow> 'a lheap \<Rightarrow> 'a lheap option" where
  "acoral_lifo_queue_del q node h =
     do { h \<leftarrow> queue_lock q h; h \<leftarrow> acoral_list_del node h; Some (queue_unlock q h) }"

declare tick_walk.simps [code] prio_walk.simps [code]

section \<open>The contract of a queue\<close>

text \<open>\<open>ins v xs n\<close> is where the queue puts node \<open>n\<close> in the list of its members; \<open>v\<close> gives the nodes' values.
  Adding changes no value and no other ring; removal takes out exactly the node.\<close>

locale kqueue =
  fixes add :: "'a \<Rightarrow> 'a \<Rightarrow> 'a lheap \<Rightarrow> 'a lheap option"
    and del :: "'a \<Rightarrow> 'a \<Rightarrow> 'a lheap \<Rightarrow> 'a lheap option"
    and ins :: "('a \<Rightarrow> int) \<Rightarrow> 'a list \<Rightarrow> 'a \<Rightarrow> 'a list"
  assumes add_law: "rings h R \<Longrightarrow> R q = Some xs \<Longrightarrow> \<not> qlock h q \<Longrightarrow> free_node R n \<Longrightarrow>
      \<exists>h'. add q n h = Some h' \<and> rings h' (R(q \<mapsto> ins (lvalue h) xs n)) \<and> lvalue h' = lvalue h \<and> qlock h' = qlock h"
    and del_law: "rings h R \<Longrightarrow> R q = Some (xs @ n # ys) \<Longrightarrow> \<not> qlock h q \<Longrightarrow>
      \<exists>h'. del q n h = Some h' \<and> rings h' (R(q \<mapsto> xs @ ys)) \<and> free_node (R(q \<mapsto> xs @ ys)) n \<and>
        lvalue h' = lvalue h \<and> qlock h' = qlock h"
    and ins_split: "\<exists>ys zs. xs = ys @ zs \<and> ins v xs n = ys @ n # zs"
begin

lemma ins_set [simp]: "set (ins v xs n) = insert n (set xs)"
  using ins_split [of xs v n] by auto

lemma ins_nonempty [simp]: "ins v xs n \<noteq> []"
  using ins_split [of xs v n] by auto

lemma add_then_del:
  assumes "rings h R" "R q = Some xs" "\<not> qlock h q" "free_node R n"
  shows "\<exists>h'. Option.bind (add q n h) (del q n) = Some h' \<and> rings h' R \<and> lvalue h' = lvalue h \<and> qlock h' = qlock h"
proof -
  obtain h1 where h1: "add q n h = Some h1" "rings h1 (R(q \<mapsto> ins (lvalue h) xs n))"
      "lvalue h1 = lvalue h" "qlock h1 = qlock h"
    using add_law [OF assms] by blast
  obtain ys zs where s: "xs = ys @ zs" "ins (lvalue h) xs n = ys @ n # zs" using ins_split by blast
  obtain h2 where h2: "del q n h1 = Some h2" "rings h2 (R(q \<mapsto> ins (lvalue h) xs n, q \<mapsto> ys @ zs))"
      "lvalue h2 = lvalue h1" "qlock h2 = qlock h1"
    using del_law [OF h1(2), of q ys n zs] s(2) h1(4) assms(3) by auto
  have "R(q \<mapsto> ins (lvalue h) xs n, q \<mapsto> ys @ zs) = R" using assms(2) s(1) by auto
  then show ?thesis using h1 h2 by simp
qed

end

text \<open>Removal is the same code in all four queues.\<close>

lemma queue_lock_free: "\<not> qlock h q \<Longrightarrow> queue_lock q h = Some (h\<lparr>qlock := (qlock h)(q := True)\<rparr>)"
  by (simp add: queue_lock_def)

lemma queue_del_rings:
  assumes "rings h R" "R q = Some (xs @ n # ys)" "\<not> qlock h q"
  shows "\<exists>h'. do { h \<leftarrow> queue_lock q h; h \<leftarrow> acoral_list_del n h; Some (queue_unlock q h) } = Some h' \<and>
    rings h' (R(q \<mapsto> xs @ ys)) \<and> free_node (R(q \<mapsto> xs @ ys)) n \<and> lvalue h' = lvalue h \<and> qlock h' = qlock h"
proof -
  let ?h = "h\<lparr>qlock := (qlock h)(q := True)\<rparr>"
  have R: "rings ?h R" using assms(1) by simp
  show ?thesis
    using list_del_rings [OF R assms(2)] rings_unlink [OF R assms(2)] rings_unlink_free [OF R assms(2)] assms(3)
    by (simp add: queue_lock_free queue_unlock_def fun_upd_id)
qed

lemma queue_add_rings:
  assumes "rings h R" "R q = Some (xs @ ys)" "free_node R n" "\<not> qlock h q"
  shows "\<exists>h'. Option.bind (acoral_list_add n (last (q # xs)) (h\<lparr>qlock := (qlock h)(q := True)\<rparr>))
      (\<lambda>h. Some (queue_unlock q h)) = Some h' \<and>
    rings h' (R(q \<mapsto> xs @ n # ys)) \<and> lvalue h' = lvalue h \<and> qlock h' = qlock h"
proof -
  let ?h = "h\<lparr>qlock := (qlock h)(q := True)\<rparr>"
  have R: "rings ?h R" using assms(1) by simp
  show ?thesis
    using list_add_rings [OF R assms(2,3)] rings_insert [OF R assms(2,3)] assms(4)
    by (simp add: queue_unlock_def fun_upd_id del: last.simps)
qed

section \<open>FIFO and LIFO\<close>

lemma fifo_add_rings:
  assumes "rings h R" "R q = Some xs" "\<not> qlock h q" "free_node R n"
  shows "\<exists>h'. acoral_fifo_queue_add q n h = Some h' \<and> rings h' (R(q \<mapsto> xs @ [n])) \<and>
    lvalue h' = lvalue h \<and> qlock h' = qlock h"
proof -
  let ?h = "h\<lparr>qlock := (qlock h)(q := True)\<rparr>"
  have R: "rings ?h R" using assms(1) by simp
  have q: "R q = Some (xs @ [])" using assms(2) by simp
  show ?thesis
    using list_add_tail_rings [OF R assms(2,4)] list_add_rings [OF R q assms(4)]
      queue_add_rings [OF assms(1) q assms(4,3)] assms(3)
    by (simp add: acoral_fifo_queue_add_def queue_lock_free del: last.simps)
qed

lemma lifo_add_rings:
  assumes "rings h R" "R q = Some xs" "\<not> qlock h q" "free_node R n"
  shows "\<exists>h'. acoral_lifo_queue_add q n h = Some h' \<and> rings h' (R(q \<mapsto> n # xs)) \<and>
    lvalue h' = lvalue h \<and> qlock h' = qlock h"
  using queue_add_rings [of h R q "[]" xs n] assms
  by (simp add: acoral_lifo_queue_add_def queue_lock_free)

interpretation fifo: kqueue acoral_fifo_queue_add acoral_fifo_queue_del "\<lambda>_ xs n. xs @ [n]"
proof unfold_locales
  show "\<exists>ys zs. xs = ys @ zs \<and> xs @ [n] = ys @ n # zs" for xs :: "'a list" and n
    by (rule exI [of _ xs]) simp
qed (use fifo_add_rings queue_del_rings in \<open>simp_all add: acoral_fifo_queue_del_def\<close>)

interpretation lifo: kqueue acoral_lifo_queue_add acoral_lifo_queue_del "\<lambda>_ xs n. n # xs"
proof unfold_locales
  show "\<exists>ys zs. xs = ys @ zs \<and> n # xs = ys @ n # zs" for xs :: "'a list" and n
    by (rule exI [of _ "[]"]) simp
qed (use lifo_add_rings queue_del_rings in \<open>simp_all add: acoral_lifo_queue_del_def\<close>)

section \<open>The priority queue\<close>

text \<open>Insertion before the first larger value.\<close>

definition prio_ins :: "('a \<Rightarrow> int) \<Rightarrow> 'a list \<Rightarrow> 'a \<Rightarrow> 'a list" where
  "prio_ins v xs n = takeWhile (\<lambda>x. v x \<le> v n) xs @ n # dropWhile (\<lambda>x. v x \<le> v n) xs"

lemma prio_ins_sorted:
  assumes "sorted (map v xs)"
  shows "sorted (map v (prio_ins v xs n))"
proof -
  have "v n < v x" if "x \<in> set (dropWhile (\<lambda>x. v x \<le> v n) xs)" for x
    using assms that by (induction xs) (auto split: if_splits)
  moreover have "v x \<le> v n" if "x \<in> set (takeWhile (\<lambda>x. v x \<le> v n) xs)" for x
    using set_takeWhileD [OF that] by simp
  moreover have "sorted (map v (takeWhile (\<lambda>x. v x \<le> v n) xs))" "sorted (map v (dropWhile (\<lambda>x. v x \<le> v n) xs))"
    using assms sorted_append by (metis map_append takeWhile_dropWhile_id)+
  ultimately show ?thesis
    unfolding prio_ins_def by (fastforce simp: sorted_append)
qed

lemma prio_ins_stable:
  assumes "sorted (map v xs)"
  shows "filter (\<lambda>x. v x = k) (prio_ins v xs n) = filter (\<lambda>x. v x = k) xs @ (if v n = k then [n] else [])"
proof -
  have "filter (\<lambda>x. v x = v n) (dropWhile (\<lambda>x. v x \<le> v n) xs) = []"
    using assms by (induction xs) (auto simp: filter_empty_conv)
  moreover have "filter P xs = filter P (takeWhile (\<lambda>x. v x \<le> v n) xs) @ filter P (dropWhile (\<lambda>x. v x \<le> v n) xs)" for P
    by (metis filter_append takeWhile_dropWhile_id)
  ultimately show ?thesis unfolding prio_ins_def by auto
qed

text \<open>The walk stops at the first larger node of the ring, or at the head.\<close>

lemma prio_walk_links:
  assumes "links h a xs q" "distinct (q # xs)"
  shows "prio_walk h q (lnext h a) v = Some (case dropWhile (\<lambda>x. lvalue h x \<le> v) xs of [] \<Rightarrow> q | x # _ \<Rightarrow> x)"
  using assms
proof (induction xs arbitrary: a)
  case Nil
  then show ?case by (subst prio_walk.simps) simp
next
  case (Cons x xs)
  have "lnext h x \<noteq> x" using Cons.prems by (cases xs) auto
  then show ?case using Cons by (subst prio_walk.simps) auto
qed

lemma ring_prev_split:
  assumes "ring h q (xs @ ys)"
  shows "lprev h (case ys of [] \<Rightarrow> q | y # _ \<Rightarrow> y) = last (q # xs)"
  using assms ring_prev_head [of h q xs] ring_prev [of h q xs] by (cases ys) auto

lemma prio_add_rings:
  assumes "rings h R" "R q = Some xs" "\<not> qlock h q" "free_node R n"
  shows "\<exists>h'. acoral_prio_queue_add q n h = Some h' \<and> rings h' (R(q \<mapsto> prio_ins (lvalue h) xs n)) \<and>
    lvalue h' = lvalue h \<and> qlock h' = qlock h"
proof -
  let ?h = "h\<lparr>qlock := (qlock h)(q := True)\<rparr>" and ?P = "\<lambda>x. lvalue h x \<le> lvalue h n"
  let ?t = "case dropWhile ?P xs of [] \<Rightarrow> q | x # _ \<Rightarrow> x"
  have R: "rings ?h R" using assms(1) by simp
  have w: "prio_walk ?h q (lnext ?h q) (lvalue ?h n) = Some ?t"
    using prio_walk_links [of ?h q xs q "lvalue ?h n"] ringsD [OF R assms(2)] by (simp add: ring_def)
  have p: "lprev ?h ?t = last (q # takeWhile ?P xs)"
    using ring_prev_split [of ?h q "takeWhile ?P xs" "dropWhile ?P xs"] ringsD [OF R assms(2)] by simp
  have q: "R q = Some (takeWhile ?P xs @ dropWhile ?P xs)" using assms(2) by simp
  show ?thesis
    using queue_add_rings [OF assms(1) q assms(4,3)] w p assms(3)
    by (simp add: acoral_prio_queue_add_def queue_lock_free prio_ins_def del: last.simps)
qed

interpretation prioq: kqueue acoral_prio_queue_add acoral_prio_queue_del prio_ins
proof unfold_locales
  show "\<exists>ys zs. xs = ys @ zs \<and> prio_ins v xs n = ys @ n # zs" for v :: "'a \<Rightarrow> int" and xs n
    unfolding prio_ins_def by (metis takeWhile_dropWhile_id)
qed (use prio_add_rings queue_del_rings in \<open>simp_all add: acoral_prio_queue_del_def\<close>)

section \<open>The tick queue\<close>

text \<open>The due times of the members: the prefix sums of the stored differences.\<close>

fun due :: "('a \<Rightarrow> int) \<Rightarrow> int \<Rightarrow> 'a list \<Rightarrow> ('a \<times> int) list" where
  "due v acc [] = []"
| "due v acc (x # xs) = (x, acc + v x) # due v (acc + v x) xs"

text \<open>The specification of insertion: behind every member that is due no later.\<close>

definition timed_ins :: "('a \<times> int) list \<Rightarrow> 'a \<Rightarrow> int \<Rightarrow> ('a \<times> int) list" where
  "timed_ins ds n t = takeWhile (\<lambda>d. snd d \<le> t) ds @ (n, t) # dropWhile (\<lambda>d. snd d \<le> t) ds"

fun tick_split :: "('a \<Rightarrow> int) \<Rightarrow> int \<Rightarrow> 'a list \<Rightarrow> 'a list \<times> 'a list" where
  "tick_split v t [] = ([], [])"
| "tick_split v t (x # xs) =
     (if t - v x < 0 then ([], x # xs)
      else let (ys, zs) = tick_split v (t - v x) xs in (x # ys, zs))"

definition ticks_ok :: "('a \<Rightarrow> int) \<Rightarrow> 'a list \<Rightarrow> bool" where
  "ticks_ok v xs \<longleftrightarrow> (\<forall>x \<in> set xs. 0 \<le> v x \<and> v x < 2 ^ 31)"

lemma due_append: "due v acc (xs @ ys) = due v acc xs @ due v (acc + sum_list (map v xs)) ys"
  by (induction xs arbitrary: acc) (auto simp: algebra_simps)

lemma due_cong: "(\<And>x. x \<in> set xs \<Longrightarrow> v x = w x) \<Longrightarrow> due v acc xs = due w acc xs"
  by (induction xs arbitrary: acc) auto

lemma map_fst_due [simp]: "map fst (due v acc xs) = xs"
  by (induction xs arbitrary: acc) auto

lemma due_shift: "due v (acc + d) xs = map (\<lambda>(x, t). (x, t + d)) (due v acc xs)"
proof (induction xs arbitrary: acc)
  case (Cons x xs)
  then show ?case using Cons [of "acc + v x"] by (simp add: algebra_simps)
qed simp

lemma tick_split_append: "tick_split v t xs = (ys, zs) \<Longrightarrow> xs = ys @ zs"
  by (induction v t xs arbitrary: ys rule: tick_split.induct) (auto split: if_splits prod.splits)

lemma tick_split_bounds:
  assumes "tick_split v t xs = (ys, zs)" "ticks_ok v xs" "0 \<le> t"
  shows "0 \<le> t - sum_list (map v ys)" "t - sum_list (map v ys) \<le> t"
    "zs = z # zs' \<Longrightarrow> t - sum_list (map v ys) < v z"
  using assms
  by (induction v t xs arbitrary: ys rule: tick_split.induct)
    (force simp: ticks_ok_def algebra_simps split: if_splits prod.splits)+

lemma tick_split_due:
  assumes "tick_split v t xs = (ys, zs)" "ticks_ok v xs"
  shows "takeWhile (\<lambda>d. snd d \<le> acc + t) (due v acc xs) = due v acc ys"
    "dropWhile (\<lambda>d. snd d \<le> acc + t) (due v acc xs) = due v (acc + sum_list (map v ys)) zs"
proof -
  have "takeWhile (\<lambda>d. snd d \<le> acc + t) (due v acc xs) = due v acc ys \<and>
      dropWhile (\<lambda>d. snd d \<le> acc + t) (due v acc xs) = due v (acc + sum_list (map v ys)) zs"
    using assms
  proof (induction v t xs arbitrary: ys acc rule: tick_split.induct)
    case (2 v t x xs)
    show ?case
    proof (cases "t - v x < 0")
      case True
      then show ?thesis using "2.prems" by auto
    next
      case False
      obtain us where us: "tick_split v (t - v x) xs = (us, zs)" "ys = x # us"
        using "2.prems"(1) False by (auto split: prod.splits)
      have "ticks_ok v xs" using "2.prems"(2) by (simp add: ticks_ok_def)
      then show ?thesis using "2.IH" [OF False us(1), of "acc + v x"] False us(2) by (simp add: algebra_simps)
    qed
  qed simp
  then show "takeWhile (\<lambda>d. snd d \<le> acc + t) (due v acc xs) = due v acc ys"
    "dropWhile (\<lambda>d. snd d \<le> acc + t) (due v acc xs) = due v (acc + sum_list (map v ys)) zs" by simp_all
qed

lemma tick_walk_links:
  assumes "links h a xs q" "q \<notin> set xs" "ticks_ok (lvalue h) xs" "0 \<le> t" "t < 2 ^ 31"
    "tick_split (lvalue h) t xs = (ys, zs)"
  shows "tick_walk h q (lnext h a) t =
    Some (case zs of [] \<Rightarrow> q | z # _ \<Rightarrow> z, t - sum_list (map (lvalue h) ys))"
  using assms
proof (induction xs arbitrary: a t ys)
  case Nil
  then show ?case by (subst tick_walk.simps) auto
next
  case (Cons x xs)
  have v: "0 \<le> lvalue h x" "lvalue h x < 2 ^ 31" "ticks_ok (lvalue h) xs"
    using Cons.prems(3) by (simp_all add: ticks_ok_def)
  then have s: "s32 (t - lvalue h x) = t - lvalue h x" using Cons.prems(4,5) by (intro s32_id) auto
  show ?case
  proof (cases "t - lvalue h x < 0")
    case True
    then show ?thesis using Cons.prems s by (subst tick_walk.simps) auto
  next
    case False
    obtain us where us: "tick_split (lvalue h) (t - lvalue h x) xs = (us, zs)" "ys = x # us"
      using Cons.prems(6) False by (auto split: prod.splits)
    have "tick_walk h q (lnext h x) (t - lvalue h x) =
        Some (case zs of [] \<Rightarrow> q | z # _ \<Rightarrow> z, t - lvalue h x - sum_list (map (lvalue h) us))"
      using Cons.prems v False us(1) by (intro Cons.IH) auto
    then show ?thesis using Cons.prems False us(2) by (subst tick_walk.simps) (auto simp: s diff_diff_eq)
  qed
qed

text \<open>The values after the insertion between \<open>ys\<close> and \<open>zs\<close>.\<close>

definition tick_vals :: "('a \<Rightarrow> int) \<Rightarrow> int \<Rightarrow> 'a \<Rightarrow> 'a list \<Rightarrow> 'a \<Rightarrow> int" where
  "tick_vals v d n zs = (case zs of [] \<Rightarrow> v(n := d) | z # _ \<Rightarrow> v(n := d, z := v z - d))"

lemma due_tick_vals:
  assumes "distinct (n # ys @ zs)" "d = t - sum_list (map v ys)"
  shows "due (tick_vals v d n zs) 0 (ys @ n # zs) = due v 0 ys @ (n, t) # due v (sum_list (map v ys)) zs"
proof -
  let ?w = "tick_vals v d n zs"
  have ys: "\<And>x. x \<in> set ys \<Longrightarrow> ?w x = v x" and n: "?w n = d"
    using assms(1) by (auto simp: tick_vals_def split: list.splits)
  have "due ?w t zs = due v (sum_list (map v ys)) zs"
  proof (cases zs)
    case (Cons z us)
    have "due ?w (t + ?w z) us = due v (t + ?w z) us"
      by (rule due_cong) (use assms(1) Cons in \<open>auto simp: tick_vals_def\<close>)
    then show ?thesis using Cons assms by (auto simp: tick_vals_def add.commute)
  qed simp
  moreover have "due ?w 0 ys = due v 0 ys" "map ?w ys = map v ys" using ys by (auto intro: due_cong)
  moreover have "due ?w 0 (ys @ n # zs) = due ?w 0 ys @ (n, sum_list (map ?w ys) + ?w n) #
      due ?w (sum_list (map ?w ys) + ?w n) zs" by (simp add: due_append)
  ultimately show ?thesis using n assms(2) by (simp only: add_diff_cancel_left' add_diff_eq)
qed

lemma tick_add_rings:
  assumes "rings h R" "R q = Some xs" "\<not> qlock h q" "free_node R n"
    and ok: "ticks_ok (lvalue h) (n # xs)" and sp: "tick_split (lvalue h) (lvalue h n) xs = (ys, zs)"
  defines "d \<equiv> lvalue h n - sum_list (map (lvalue h) ys)"
  shows "\<exists>h'. acoral_tick_queue_add q n h = Some h' \<and> rings h' (R(q \<mapsto> ys @ n # zs)) \<and>
    lvalue h' = tick_vals (lvalue h) d n zs \<and> qlock h' = qlock h"
proof -
  let ?h = "h\<lparr>qlock := (qlock h)(q := True)\<rparr>" and ?t = "case zs of [] \<Rightarrow> q | z # _ \<Rightarrow> z"
  let ?h1 = "set_value n d ?h"
  have R: "rings ?h R" "rings ?h1 R" using assms(1) by simp_all
  have xs: "xs = ys @ zs" by (rule tick_split_append [OF sp])
  then have q: "R q = Some (ys @ zs)" using assms(2) by simp
  have nv: "0 \<le> lvalue h n" "lvalue h n < 2 ^ 31" "ticks_ok (lvalue h) xs" using ok by (simp_all add: ticks_ok_def)
  have nf: "n \<notin> set (q # xs)" by (rule free_nodeD [OF assms(4,2)])
  have dist: "distinct (q # ys @ zs)" using ringsD [OF assms(1,2)] xs by (simp add: ring_def)
  have w: "tick_walk ?h q (lnext ?h q) (lvalue h n) = Some (?t, d)"
    using tick_walk_links [of ?h q xs q "lvalue h n" ys zs] ringsD [OF R(1) assms(2)] nv sp
    by (auto simp: ring_def d_def)
  have p: "lprev ?h1 ?t = last (q # ys)"
    using ring_prev_split [of ?h1 q ys zs] ringsD [OF R(2) q] by simp
  have s: "s32 (lvalue h z - d) = lvalue h z - d" if "zs = z # us" for z us
  proof (rule s32_id)
    have "d < lvalue h z" "0 \<le> d" "lvalue h z < 2 ^ 31"
      using tick_split_bounds [OF sp nv(3,1)] that nv(3) xs by (auto simp: d_def ticks_ok_def)
    then show "- (2 ^ 31) \<le> lvalue h z - d" "lvalue h z - d < 2 ^ 31" by simp_all
  qed
  let ?h2 = "insert_after n (last (q # ys)) ?h1"
  let ?h3 = "if ?t \<noteq> q then set_value ?t (s32 (lvalue ?h2 ?t - d)) ?h2 else ?h2"
  have "acoral_tick_queue_add q n h = Some (queue_unlock q ?h3)"
    using w p assms(3) list_add_rings [OF R(2) q assms(4)]
    by (simp add: acoral_tick_queue_add_def queue_lock_free Let_def del: last.simps)
  moreover have "rings (queue_unlock q ?h3) (R(q \<mapsto> ys @ n # zs))"
    using rings_insert [OF R(2) q assms(4)] by (simp add: queue_unlock_def del: last.simps)
  moreover have "lvalue (queue_unlock q ?h3) = tick_vals (lvalue h) d n zs"
    using s dist nf xs
    by (auto simp: queue_unlock_def tick_vals_def set_value_def split: list.splits)
  moreover have "qlock (queue_unlock q ?h3) = qlock h"
    using assms(3) by (auto simp: queue_unlock_def set_value_def fun_eq_iff)
  ultimately show ?thesis by blast
qed

lemma ticks_ok_tick_vals:
  assumes "tick_split v t xs = (ys, zs)" "ticks_ok v xs" "distinct (n # xs)" "0 \<le> t" "t < 2 ^ 31"
  shows "ticks_ok (tick_vals v (t - sum_list (map v ys)) n zs) (ys @ n # zs)"
  using tick_split_bounds [OF assms(1,2,4)] tick_split_append [OF assms(1)] assms(2,3,5)
  by (cases zs) (fastforce simp: ticks_ok_def tick_vals_def)+

lemma tick_add_due:
  assumes "rings h R" "R q = Some xs" "\<not> qlock h q" "free_node R n" "ticks_ok (lvalue h) (n # xs)"
  shows "\<exists>h' ys. acoral_tick_queue_add q n h = Some h' \<and> rings h' (R(q \<mapsto> ys)) \<and>
    due (lvalue h') 0 ys = timed_ins (due (lvalue h) 0 xs) n (lvalue h n) \<and>
    ticks_ok (lvalue h') ys \<and> (\<forall>x. x \<notin> set ys \<longrightarrow> lvalue h' x = lvalue h x) \<and> qlock h' = qlock h"
proof -
  obtain ys zs where sp: "tick_split (lvalue h) (lvalue h n) xs = (ys, zs)" by force
  obtain h' where h': "acoral_tick_queue_add q n h = Some h'" "rings h' (R(q \<mapsto> ys @ n # zs))"
      "lvalue h' = tick_vals (lvalue h) (lvalue h n - sum_list (map (lvalue h) ys)) n zs" "qlock h' = qlock h"
    using tick_add_rings [OF assms sp] by blast
  have ok: "ticks_ok (lvalue h) xs" "0 \<le> lvalue h n" "lvalue h n < 2 ^ 31" using assms(5) by (simp_all add: ticks_ok_def)
  have d: "distinct (n # xs)" "distinct (n # ys @ zs)"
    using ringsD [OF assms(1,2)] free_nodeD [OF assms(4,2)] tick_split_append [OF sp] by (simp_all add: ring_def)
  have "due (lvalue h') 0 (ys @ n # zs) = timed_ins (due (lvalue h) 0 xs) n (lvalue h n)"
    using due_tick_vals [OF d(2) refl] tick_split_due [OF sp ok(1), of 0] by (simp add: h'(3) timed_ins_def)
  moreover have "ticks_ok (lvalue h') (ys @ n # zs)"
    using ticks_ok_tick_vals [OF sp ok(1) d(1) ok(2,3)] by (simp add: h'(3))
  moreover have "\<forall>x. x \<notin> set (ys @ n # zs) \<longrightarrow> lvalue h' x = lvalue h x"
    by (auto simp: h'(3) tick_vals_def split: list.splits)
  ultimately show ?thesis using h'(1,2,4) by blast
qed

section \<open>Properties\<close>

text \<open>A heap with one queue at head \<open>0\<close> holding the nodes \<open>1\<close> and \<open>2\<close>, and a node \<open>3\<close> in no list.\<close>

definition queue_example :: "nat lheap" where
  "queue_example =
     \<lparr>lnext = id(0 := 1, 1 := 2, 2 := 0), lprev = id(0 := 2, 1 := 0, 2 := 1),
      lvalue = (\<lambda>_. 0)(1 := 5, 2 := 8, 3 := 6), llock = (\<lambda>_. False), qlock = (\<lambda>_. False)\<rparr>"

lemma queue_example_rings: "rings queue_example [0 \<mapsto> [1, 2]]" "\<not> qlock queue_example q"
  "free_node [0 \<mapsto> [1, 2]] (3::nat)"
  by (simp_all add: rings_def ring_def queue_example_def free_node_def)

text \<open>C5. Adding a node with value \<open>t\<close> to the tick queue returns, and afterwards the queue's members and
  their due times are the old ones with the new node, due in \<open>t\<close> ticks, placed behind every member
  that is due no later: nobody else's wake-up time moves. The stored differences stay in range,
  no value outside the queue changes and the lock is released.\<close>

theorem tick_queue_add_due:
  assumes "rings h R" "R q = Some xs" "\<not> qlock h q" "free_node R n" "ticks_ok (lvalue h) (n # xs)"
  shows "\<exists>h' ys. acoral_tick_queue_add q n h = Some h' \<and> rings h' (R(q \<mapsto> ys)) \<and>
    due (lvalue h') 0 ys = timed_ins (due (lvalue h) 0 xs) n (lvalue h n) \<and>
    ticks_ok (lvalue h') ys \<and> (\<forall>x. x \<notin> set ys \<longrightarrow> lvalue h' x = lvalue h x) \<and> qlock h' = qlock h"
  by (rule tick_add_due [OF assms])

theorem tick_queue_add_due_witness:
  "(\<exists>h' ys. acoral_tick_queue_add 0 3 queue_example = Some h' \<and> rings h' [0 \<mapsto> ys] \<and>
     due (lvalue h') 0 ys = [(1, 5), (3, 6), (2, 13)])"
  using tick_queue_add_due [OF queue_example_rings(1) _ queue_example_rings(2,3), of 0 "[1, 2]"]
  by (auto simp: ticks_ok_def timed_ins_def queue_example_def)

text \<open>Removing a node from the tick queue returns, but the node's difference is dropped instead of
  being added to its successor's: every member behind it becomes due earlier by that difference.\<close>

theorem tick_queue_del_due:
  assumes "rings h R" "R q = Some (xs @ n # ys)" "\<not> qlock h q"
  shows "\<exists>h'. acoral_tick_queue_del q n h = Some h' \<and> rings h' (R(q \<mapsto> xs @ ys)) \<and>
    free_node (R(q \<mapsto> xs @ ys)) n \<and> lvalue h' = lvalue h \<and> qlock h' = qlock h \<and>
    due (lvalue h') 0 (xs @ ys) =
      take (length xs) (due (lvalue h) 0 (xs @ n # ys)) @
      map (\<lambda>(x, t). (x, t - lvalue h n)) (drop (length xs + 1) (due (lvalue h) 0 (xs @ n # ys)))"
proof -
  let ?v = "lvalue h" let ?s = "sum_list (map ?v xs)"
  have l: "length (due ?v 0 xs) = length xs" by (metis length_map map_fst_due)
  have "due ?v 0 (xs @ ys) = due ?v 0 xs @ map (\<lambda>(x, t). (x, t - ?v n)) (due ?v (?s + ?v n) ys)"
    using due_shift [of ?v ?s "?v n" ys] by (simp add: due_append comp_def case_prod_unfold)
  then show ?thesis
    using queue_del_rings [OF assms] l by (auto simp: acoral_tick_queue_del_def due_append)
qed

theorem tick_queue_del_due_witness:
  "\<exists>h'. acoral_tick_queue_del 0 1 queue_example = Some h' \<and> due (lvalue queue_example) 0 [1, 2] = [(1, 5), (2, 13)] \<and>
     due (lvalue h') 0 [2] = [(2, 8)]"
  using tick_queue_del_due [OF queue_example_rings(1) _ queue_example_rings(2), of 0 "[]" 1 "[2]"]
  by (auto simp: queue_example_def)

text \<open>C25. Adding to a priority queue whose members ascend by value returns a queue that still ascends;
  the members of each value keep their order and the new node comes last of its value; no other
  ring and no value changes.\<close>

theorem prio_queue_add_sorted:
  assumes "rings h R" "R q = Some xs" "\<not> qlock h q" "free_node R n" "sorted (map (lvalue h) xs)"
  shows "\<exists>h' ys. acoral_prio_queue_add q n h = Some h' \<and> rings h' (R(q \<mapsto> ys)) \<and> lvalue h' = lvalue h \<and>
    qlock h' = qlock h \<and> sorted (map (lvalue h) ys) \<and> set ys = insert n (set xs) \<and>
    (\<forall>k. filter (\<lambda>x. lvalue h x = k) ys = filter (\<lambda>x. lvalue h x = k) xs @ (if lvalue h n = k then [n] else []))"
proof -
  let ?ys = "prio_ins (lvalue h) xs n"
  obtain h' where "acoral_prio_queue_add q n h = Some h'" "rings h' (R(q \<mapsto> ?ys))" "lvalue h' = lvalue h" "qlock h' = qlock h"
    using prioq.add_law [OF assms(1-4)] by blast
  moreover have "sorted (map (lvalue h) ?ys)" "set ?ys = insert n (set xs)"
    by (rule prio_ins_sorted [OF assms(5)], rule prioq.ins_set)
  ultimately show ?thesis using prio_ins_stable [OF assms(5)] by blast
qed

theorem prio_queue_add_sorted_witness:
  "\<exists>h' ys. acoral_prio_queue_add 0 3 queue_example = Some h' \<and> rings h' [0 \<mapsto> ys] \<and>
     sorted (map (lvalue queue_example) ys) \<and> set ys = {1, 2, 3}"
  using prio_queue_add_sorted [OF queue_example_rings(1) _ queue_example_rings(2,3), of 0 "[1, 2]"]
  by (fastforce simp: queue_example_def)

text \<open>In each of the priority, FIFO and LIFO queues, adding a node and then removing it returns and
  restores every ring, every value and every queue lock.\<close>

theorem queue_add_del_roundtrip:
  assumes "rings h R" "R q = Some xs" "\<not> qlock h q" "free_node R n"
    "(add, del) \<in> {(acoral_prio_queue_add, acoral_prio_queue_del), (acoral_fifo_queue_add, acoral_fifo_queue_del),
       (acoral_lifo_queue_add, acoral_lifo_queue_del)}"
  shows "\<exists>h'. Option.bind (add q n h) (del q n) = Some h' \<and> rings h' R \<and> lvalue h' = lvalue h \<and> qlock h' = qlock h"
  using assms(5) prioq.add_then_del [OF assms(1-4)] fifo.add_then_del [OF assms(1-4)] lifo.add_then_del [OF assms(1-4)]
  by auto

theorem queue_add_del_roundtrip_witness:
  "\<exists>h'. Option.bind (acoral_fifo_queue_add 0 3 queue_example) (acoral_fifo_queue_del 0 3) = Some h' \<and>
     rings h' [0 \<mapsto> [1, 2]]"
  using queue_add_del_roundtrip [OF queue_example_rings(1) _ queue_example_rings(2,3), of 0 "[1, 2]"] by auto

text \<open>Deleting a node that is in no list never returns: the code takes the spin lock of the
  predecessor and then its own, and an unlinked node is its own predecessor.\<close>

theorem list_del_unlinked_spins: "unlinked e h \<Longrightarrow> acoral_list_del e h = None"
  by (rule list_del_unlinked)

theorem list_del_unlinked_spins_witness: "acoral_list_del (3::nat) queue_example = None"
  using list_del_unlinked_spins [of 3 queue_example] by (simp add: unlinked_def queue_example_def)

end
