(* ===== verification/Buddy.thy ===== *)
theory Buddy
  imports Bitops
begin

text \<open>
  The buddy allocator of \<^verbatim>\<open>kernel/src/mem.c\<close>: the control block \<^verbatim>\<open>acoral_block_ctr_t\<close> with the level
  bytes \<^verbatim>\<open>acoral_mem_blocks\<close>, its initialisation and the block search and release on them. The
  critical section and the spin lock around them are in theory \<open>Kmem\<close>. Each array is a list; a read or
  write outside an array is \<open>None\<close>.
\<close>

record buddy =
  free_list :: "int list list"
  bitmap :: "u32 list list"
  free_cur :: "int list"
  num_l :: "u32 list"
  level :: nat
  mem_ok :: bool
  start_adr :: u32
  end_adr :: u32
  block_num :: u32
  free_num :: u32
  mem_blocks :: "int list"
  mem_lock :: bool

definition LEVEL :: nat where "LEVEL = 14"

definition BLOCK_SHIFT :: nat where "BLOCK_SHIFT = 7"

definition BLOCK_SIZE :: u32 where "BLOCK_SIZE = 128"

text \<open>\<^verbatim>\<open>sizeof(acoral_block_ctr_t)\<close> on the 32-bit target: four arrays of \<^verbatim>\<open>LEVEL\<close> words, the two
  bytes padded to a word, five words and the lock.\<close>

definition CTRL_SIZE :: u32 where "CTRL_SIZE = 4 * 14 * 4 + 4 + 5 * 4 + 4"

section \<open>Array accesses\<close>

definition lget :: "'a list \<Rightarrow> nat \<Rightarrow> 'a option" where
  "lget xs i = (if i < length xs then Some (xs ! i) else None)"

definition lset :: "'a list \<Rightarrow> nat \<Rightarrow> 'a \<Rightarrow> 'a list option" where
  "lset xs i v = (if i < length xs then Some (xs[i := v]) else None)"

definition iget :: "'a list \<Rightarrow> int \<Rightarrow> 'a option" where
  "iget xs i = (if i < 0 then None else lget xs (nat i))"

definition iset :: "'a list \<Rightarrow> int \<Rightarrow> 'a \<Rightarrow> 'a list option" where
  "iset xs i v = (if i < 0 then None else lset xs (nat i) v)"

definition get_free_list :: "nat \<Rightarrow> int \<Rightarrow> buddy \<Rightarrow> int option" where
  "get_free_list l i b = do { row \<leftarrow> lget (free_list b) l; iget row i }"

definition set_free_list :: "nat \<Rightarrow> int \<Rightarrow> int \<Rightarrow> buddy \<Rightarrow> buddy option" where
  "set_free_list l i v b =
     do { row \<leftarrow> lget (free_list b) l; row \<leftarrow> iset row i v; Some (b\<lparr>free_list := (free_list b)[l := row]\<rparr>) }"

definition set_free_cur :: "nat \<Rightarrow> int \<Rightarrow> buddy \<Rightarrow> buddy option" where
  "set_free_cur l v b = do { c \<leftarrow> lset (free_cur b) l v; Some (b\<lparr>free_cur := c\<rparr>) }"

definition get_word :: "nat \<Rightarrow> int \<Rightarrow> buddy \<Rightarrow> u32 option" where
  "get_word l i b = do { row \<leftarrow> lget (bitmap b) l; iget row i }"

definition set_map_bit :: "nat \<Rightarrow> nat \<Rightarrow> buddy \<Rightarrow> buddy option" where
  "set_map_bit l index b =
     do { row \<leftarrow> lget (bitmap b) l; row \<leftarrow> acoral_set_bit index row; Some (b\<lparr>bitmap := (bitmap b)[l := row]\<rparr>) }"

definition clear_map_bit :: "nat \<Rightarrow> nat \<Rightarrow> buddy \<Rightarrow> buddy option" where
  "clear_map_bit l index b =
     do { row \<leftarrow> lget (bitmap b) l; row \<leftarrow> acoral_clear_bit index row; Some (b\<lparr>bitmap := (bitmap b)[l := row]\<rparr>) }"

definition get_map_bit :: "nat \<Rightarrow> nat \<Rightarrow> buddy \<Rightarrow> u32 option" where
  "get_map_bit l index b = do { row \<leftarrow> lget (bitmap b) l; acoral_get_bit index row }"

definition set_block_level :: "int \<Rightarrow> int \<Rightarrow> buddy \<Rightarrow> buddy option" where
  "set_block_level i v b = do { bs \<leftarrow> iset (mem_blocks b) i (s8 v); Some (b\<lparr>mem_blocks := bs\<rparr>) }"

section \<open>Allocation\<close>

text \<open>\<^verbatim>\<open>recus_malloc\<close>: the number of the first basic block of a free block of level \<open>l\<close>, splitting a block
  of a higher level when there is none; a negative number is the error. The recursion climbs to
  \<open>level\<close>. The values stay far below \<open>2 ^ 31\<close> (the heap has at most \<open>2 ^ 25\<close> basic blocks), so the block
  arithmetic is on integers.\<close>

function recus_malloc :: "nat \<Rightarrow> buddy \<Rightarrow> (int \<times> buddy) option" where
  "recus_malloc l b =
     (if l \<ge> level b then Some (err_code KR_MEM_ERR_UNDEF, b)
      else do {
        cur \<leftarrow> lget (free_cur b) l;
        if cur < 0 then
          do {
            (num, b) \<leftarrow> recus_malloc (Suc l) b;
            if num < 0 then Some (err_code KR_MEM_ERR_UNDEF, b)
            else do {
              let index = nat num div 2 ^ (l + 1);
              let cur = int (index div 32);
              b \<leftarrow> set_map_bit l index b;
              b \<leftarrow> set_free_list l cur (-1) b;
              b \<leftarrow> set_free_cur l cur b;
              Some (num, b)
            }
          }
        else
          do {
            w \<leftarrow> get_word l cur b;
            let index = nat cur * 32 + unat (acoral_ffs w);
            b \<leftarrow> clear_map_bit l index b;
            w \<leftarrow> get_word l cur b;
            b \<leftarrow> (if w = 0 then do { f \<leftarrow> get_free_list l cur b; set_free_cur l f b } else Some b);
            let num = int (index * 2 ^ (l + 1));
            if l = level b - 1 then
              (if num div 2 + 2 ^ l > int (unat (block_num b)) then Some (err_code KR_MEM_ERR_UNDEF, b)
               else Some (num div 2, b))
            else do {
              v \<leftarrow> iget (mem_blocks b) (num div 2);
              Some (if v \<ge> 0 then num + 2 ^ l else num, b)
            }
          }
      })"
  by pat_completeness auto
termination by (relation "measure (\<lambda>(l, b). level b - l)") auto

declare recus_malloc.simps [simp del]

text \<open>The part of \<^verbatim>\<open>buddy_r_malloc\<close> under the lock: it returns the block number.\<close>

definition buddy_take :: "nat \<Rightarrow> buddy \<Rightarrow> (int \<times> buddy) option" where
  "buddy_take l b =
     do {
       let b = b\<lparr>free_num := free_num b - 2 ^ l\<rparr>;
       (num, b) \<leftarrow> recus_malloc l b;
       b \<leftarrow> (if num mod 2 = 0 then set_block_level (num div 2) (int l) b else Some b);
       Some (num, b)
     }"

text \<open>The doubling loop of \<^verbatim>\<open>buddy_malloc_size\<close>, which stops at the number of levels.\<close>

function size_loop :: "u32 \<Rightarrow> nat \<Rightarrow> nat \<Rightarrow> u32 \<Rightarrow> u32" where
  "size_loop sz lv l resize_size =
     (if resize_size < sz \<and> l < lv then size_loop sz lv (Suc l) (push_bit 1 resize_size) else resize_size)"
  by pat_completeness auto
termination by (relation "measure (\<lambda>(sz, lv, l, r). lv - l)") auto

declare size_loop.simps [simp del]

definition buddy_malloc_size :: "buddy \<Rightarrow> u32 \<Rightarrow> u32" where
  "buddy_malloc_size b sz = (if \<not> mem_ok b then 0 else size_loop sz (level b) 0 BLOCK_SIZE)"

text \<open>The doubling loop of \<^verbatim>\<open>buddy_malloc\<close> has no such bound: for a size above \<open>2 ^ 31\<close> the doubled
  size becomes \<open>0\<close> and the loop never ends.\<close>

partial_function (option) level_loop :: "u32 \<Rightarrow> u32 \<Rightarrow> u8 \<Rightarrow> u32 \<Rightarrow> (u32 \<times> u8) option" where
  "level_loop sz num l resize_size =
     (if resize_size < sz then level_loop sz (push_bit 1 num) (l + 1) (push_bit 1 resize_size)
      else Some (num, l))"

declare level_loop.simps [code]

section \<open>Release\<close>

lemma level_keeps:
  "set_map_bit l i b = Some b' \<Longrightarrow> level b' = level b" "clear_map_bit l i b = Some b' \<Longrightarrow> level b' = level b"
  "set_free_list l c v b = Some b' \<Longrightarrow> level b' = level b" "set_free_cur l v b = Some b' \<Longrightarrow> level b' = level b"
  "set_block_level c v b = Some b' \<Longrightarrow> level b' = level b"
  by (auto simp: set_map_bit_def clear_map_bit_def set_free_list_def set_free_cur_def set_block_level_def bind_Some_iff)

text \<open>The walk of \<^verbatim>\<open>buddy_free\<close> along a level's list to the place of word \<open>cur\<close>.\<close>

partial_function (option) free_walk :: "buddy \<Rightarrow> nat \<Rightarrow> int \<Rightarrow> int \<Rightarrow> int option" where
  "free_walk b l cur temp_cur =
     do {
       n \<leftarrow> get_free_list l temp_cur b;
       if n \<noteq> -1 \<and> n < cur then free_walk b l cur n else Some temp_cur
     }"

text \<open>The \<^verbatim>\<open>do \<dots> while\<close> that looks for the predecessor of \<open>cur\<close>.\<close>

partial_function (option) pred_walk :: "buddy \<Rightarrow> nat \<Rightarrow> int \<Rightarrow> int \<Rightarrow> int option" where
  "pred_walk b l cur temp_cur =
     (if cur = temp_cur then Some temp_cur
      else do {
        t \<leftarrow> get_free_list l temp_cur b;
        n \<leftarrow> get_free_list l t b;
        if n \<noteq> cur then pred_walk b l cur t else Some t
      })"

declare free_walk.simps [code] pred_walk.simps [code]

text \<open>The merging loop from level \<open>l\<close> and bit \<open>index\<close>.\<close>

function free_up :: "nat \<Rightarrow> nat \<Rightarrow> buddy \<Rightarrow> buddy option" where
  "free_up l index b =
     (if l < level b then
        do {
          let cur = int (index div 32);
          v \<leftarrow> get_map_bit l index b;
          fc \<leftarrow> lget (free_cur b) l;
          if v = 0 then
            do {
              b \<leftarrow> set_map_bit l index b;
              if fc < 0 \<or> cur < fc then
                do { b \<leftarrow> set_free_list l cur fc b; set_free_cur l cur b }
              else if cur > fc then
                do {
                  t \<leftarrow> free_walk b l cur fc;
                  n \<leftarrow> get_free_list l t b;
                  b \<leftarrow> set_free_list l cur n b;
                  set_free_list l t cur b
                }
              else Some b
            }
          else
            do {
              b' \<leftarrow> clear_map_bit l index b;
              t \<leftarrow> pred_walk b' l cur fc;
              w \<leftarrow> get_word l t b';
              b' \<leftarrow> (if w = 0 then do { n \<leftarrow> get_free_list l cur b'; set_free_cur l n b' } else Some b');
              free_up (Suc l) (if Suc l < level b' - 1 then index div 2 else index) b'
            }
        }
      else Some b)"
  by pat_completeness auto
termination by (relation "measure (\<lambda>(l, index, b). level b - l)") (auto simp: bind_Some_iff level_keeps split: if_splits)

declare free_up.simps [simp del]

text \<open>\<^verbatim>\<open>buddy_free\<close> once the address is known to be that of basic block \<open>num\<close>: the part under the lock. The
  result tells which of the code's exits is taken: an error message, the release of a block of the top
  level, or the merging loop.\<close>

datatype put_result = PutErr | PutTop | PutMerged

definition buddy_put :: "nat \<Rightarrow> buddy \<Rightarrow> (put_result \<times> buddy) option" where
  "buddy_put num b =
     do {
       v \<leftarrow> iget (mem_blocks b) (int (num div 2));
       if num mod 2 = 1 then
         (if v > 0 then Some (PutErr, b)
          else do {
            bt \<leftarrow> get_map_bit 0 (num div 2) b;
            if v = 0 \<and> bt \<noteq> 0 \<or> v < 0 \<and> bt = 0 then Some (PutErr, b)
            else if level b = 1 then do { b \<leftarrow> set_map_bit 0 num b; Some (PutTop, b) }
            else do { b \<leftarrow> free_up 0 (num div 2) b; Some (PutMerged, b) }
          })
       else if v < 0 then Some (PutErr, b)
       else do {
         let b = b\<lparr>free_num := free_num b + 2 ^ nat v\<rparr>;
         b \<leftarrow> set_block_level (int (num div 2)) (-1) b;
         if v = int (level b) - 1 then do { b \<leftarrow> set_map_bit (nat v) (num div 2 ^ nat v) b; Some (PutTop, b) }
         else do { b \<leftarrow> free_up (nat v) (num div 2 ^ (1 + nat v)) b; Some (PutMerged, b) }
       }
     }"

section \<open>Initialisation\<close>

text \<open>The loop that counts the levels: it doubles the size until the memory fits.\<close>

partial_function (option) level_count :: "u32 \<Rightarrow> u32 \<Rightarrow> u32 \<Rightarrow> u32 \<Rightarrow> u32 \<Rightarrow> (u32 \<times> u32 \<times> u32) option" where
  "level_count start fin resize_size num adjust_level_1 =
     (if fin \<le> start + resize_size then Some (resize_size, num, adjust_level_1)
      else level_count start fin (push_bit 1 resize_size) (push_bit 1 num) (adjust_level_1 + 1))"

text \<open>The sizes of the bitmaps of the levels below the top, from \<open>i\<close> on, and the address below them.\<close>

definition align4 :: "u32 \<Rightarrow> u32" where
  "align4 a = a AND NOT 3"

fun carve :: "nat \<Rightarrow> u32 \<Rightarrow> u32 \<Rightarrow> u32 list \<times> u32 \<times> u32" where
  "carve 0 num save_adr = ([], num, save_adr)"
| "carve (Suc n) num save_adr =
     (let num = drop_bit 1 num;
          num = (if num = 0 then 1 else num);
          save_adr = align4 (save_adr - num * 4);
          save_adr = align4 (save_adr - num * 4);
          (sizes, num', adr) = carve n num save_adr
      in (num # sizes, num', adr))"

text \<open>Whole words of the top level, then the single blocks of the top level.\<close>

partial_function (option) fill_words :: "nat \<Rightarrow> u32 \<Rightarrow> nat \<Rightarrow> u32 \<Rightarrow> u32 \<Rightarrow> buddy \<Rightarrow> (nat \<times> u32 \<times> u32 \<times> buddy) option" where
  "fill_words tp max_num i num o_num b =
     (if num \<ge> max_num * 32 then
        do {
          row \<leftarrow> lget (bitmap b) tp;
          row \<leftarrow> lset row i (- 1);
          let b = b\<lparr>bitmap := (bitmap b)[tp := row]\<rparr>;
          b \<leftarrow> set_free_list tp (int i) (int (Suc i)) b;
          fill_words tp max_num (Suc i) (num - max_num * 32) (o_num + max_num * 32) b
        }
      else Some (i, num, o_num, b))"

partial_function (option) fill_blocks :: "nat \<Rightarrow> u32 \<Rightarrow> u32 \<Rightarrow> u32 \<Rightarrow> buddy \<Rightarrow> (u32 \<times> u32 \<times> buddy) option" where
  "fill_blocks tp max_num num o_num b =
     (if num \<ge> max_num then
        do {
          b \<leftarrow> set_map_bit tp (unat (drop_bit tp o_num)) b;
          fill_blocks tp max_num (num - max_num) (o_num + max_num) b
        }
      else Some (num, o_num, b))"

text \<open>The levels below the top: each gets at most one block of what remains. The argument is the value
  of \<^verbatim>\<open>level_1\<close> after the decrement in the loop's test.\<close>

fun fill_rest :: "nat \<Rightarrow> u32 \<Rightarrow> u32 \<Rightarrow> buddy \<Rightarrow> buddy option" where
  "fill_rest 0 num o_num b = Some b"
| "fill_rest (Suc l) num o_num b =
     (let index = unat (drop_bit (Suc l) o_num) in
      if num = 0 then Some b
      else
        let cur = int (index div 32); max_num = push_bit l 1 in
        if num \<ge> max_num then
          do {
            b \<leftarrow> set_block_level (int (unat (drop_bit 1 o_num))) (-1) b;
            b \<leftarrow> set_map_bit l index b;
            b \<leftarrow> set_free_list l cur (-1) b;
            b \<leftarrow> set_free_cur l cur b;
            fill_rest l (num - max_num) (o_num + max_num) b
          }
        else fill_rest l num o_num b)"

declare level_count.simps [code] fill_words.simps [code] fill_blocks.simps [code]

text \<open>\<^verbatim>\<open>buddy_init\<close>. \<open>raw\<close> gives what the level bytes held before: the code does not initialise them all.
  After \<^verbatim>\<open>adjust_level_1--\<close> the code lowers \<^verbatim>\<open>level_1\<close> only to \<^verbatim>\<open>LEVEL\<close>, so the decrement has no effect.\<close>

definition buddy_init :: "(nat \<Rightarrow> int) \<Rightarrow> u32 \<Rightarrow> u32 \<Rightarrow> buddy \<Rightarrow> (kernel_error \<times> buddy) option" where
  "buddy_init raw s_adr e_adr b =
     (let s_adr = align4 (s_adr + 3);
          e_adr = align4 e_adr;
          e_adr = align4 (e_adr - CTRL_SIZE)
      in if s_adr > e_adr \<or> e_adr - s_adr < BLOCK_SIZE then Some (KR_MEM_ERR_LESS, b\<lparr>mem_ok := False\<rparr>)
      else do {
        (resize_size, num, adjust_level_1) \<leftarrow> level_count s_adr e_adr BLOCK_SIZE 1 1;
        let blocks = map raw [0..<unat num];
        let save_adr = e_adr - num;
        let level_1 = (if unat adjust_level_1 > LEVEL then LEVEL else unat adjust_level_1);
        let (sizes, num, save_adr) = carve (level_1 - 1) (num div 32) save_adr;
        let num = (if num = 0 then 1 else num);
        let save_adr = align4 (save_adr - num * 4);
        let save_adr = align4 (save_adr - num * 4);
        let sizes = sizes @ [num];
        let adjust_level_1 = (if save_adr \<le> s_adr + drop_bit 1 resize_size then adjust_level_1 - 1 else adjust_level_1);
        let level_1 = (if unat adjust_level_1 > LEVEL then LEVEL else level_1);
        let num = drop_bit BLOCK_SHIFT (save_adr - s_adr);
        let tp = level_1 - 1;
        let b = b\<lparr>free_list := map (\<lambda>n. replicate (unat n) (-1)) sizes,
                  bitmap := map (\<lambda>n. replicate (unat n) 0) sizes,
                  free_cur := (replicate (length sizes) (-1))[tp := (if num > 0 then 0 else -1)],
                  num_l := sizes, level := level_1, mem_ok := True, start_adr := s_adr,
                  end_adr := s_adr + push_bit BLOCK_SHIFT num, block_num := num, free_num := num,
                  mem_blocks := blocks\<rparr>;
        let max_num = push_bit tp 1;
        (i, num, o_num, b) \<leftarrow> fill_words tp max_num 0 num 0 b;
        b \<leftarrow> (if num = 0 then set_free_list tp (int i - 1) (-1) b else Some b);
        (num, o_num, b) \<leftarrow> fill_blocks tp max_num num o_num b;
        b \<leftarrow> set_free_list tp (int i) (-1) b;
        b \<leftarrow> fill_rest tp num o_num b;
        Some (KR_OK, b\<lparr>mem_lock := False\<rparr>)
      })"

end
