(* ===== verification/KState.thy ===== *)
theory KState
  imports Queue Buddy
begin

text \<open>
  The state of the kernel. Addresses of threads (TCBs), IPC objects and protocol objects are
  32-bit words; the objects live in one store per type. Every list node of the kernel has a name in
  \<open>knode\<close>: the nodes embedded in a thread, a pool, a policy or a ceiling-protocol object, and the heads
  of the queues. Arrays indexed by a CPU are functions of the CPU number. \<open>current_cpu\<close> is the CPU
  that executes (\<^verbatim>\<open>HAL_GET_CURRENT_CPU\<close>).
\<close>

section \<open>Nodes\<close>

datatype ctrl_id = ThreadCtrl | IpcCtrl

datatype knode =
    Ready ptr | Pending ptr | Timing ptr | Delaying ptr | GlobalL ptr
  | RdyQ u32 nat
  | DelayQ | ThreadsQ | ReleaseQ
  | WaitQ ptr
  | TotalPools ctrl_id | FreePools ctrl_id | TotalL nat | FreeL nat
  | PeriodQ | TimedQ u32 | PolicyQ | PolicyL nat
  | MpcpStack u32 | MpcpWait u32 | MStacking ptr
  | DpcpStack u8 u32 | DpcpWait u8 u32 | DpcpQ u8 u32 | DStacking ptr | DList ptr

text \<open>\<^verbatim>\<open>list_entry\<close>: the object a node is embedded in. On a node of another kind the code would compute a
  meaningless address: \<open>None\<close>.\<close>

fun ready_entry :: "knode \<Rightarrow> ptr option" where
  "ready_entry (Ready p) = Some p"
| "ready_entry _ = None"

fun pending_entry :: "knode \<Rightarrow> ptr option" where
  "pending_entry (Pending p) = Some p"
| "pending_entry _ = None"

fun timing_entry :: "knode \<Rightarrow> ptr option" where
  "timing_entry (Timing p) = Some p"
| "timing_entry _ = None"

fun delaying_entry :: "knode \<Rightarrow> ptr option" where
  "delaying_entry (Delaying p) = Some p"
| "delaying_entry _ = None"

fun free_pool_entry :: "knode \<Rightarrow> nat option" where
  "free_pool_entry (FreeL i) = Some i"
| "free_pool_entry _ = None"

fun policy_entry :: "knode \<Rightarrow> nat option" where
  "policy_entry (PolicyL i) = Some i"
| "policy_entry _ = None"

fun mstacking_entry :: "knode \<Rightarrow> ptr option" where
  "mstacking_entry (MStacking p) = Some p"
| "mstacking_entry _ = None"

fun dstacking_entry :: "knode \<Rightarrow> ptr option" where
  "dstacking_entry (DStacking p) = Some p"
| "dstacking_entry _ = None"

section \<open>Threads\<close>

text \<open>\<^verbatim>\<open>acoral_thread_t\<close> less its list nodes (in the node heap), its resource word (\<open>res_word\<close>) and its name.
  The context the HAL writes to a new stack is \<open>t_entry\<close>: the routine and its argument.\<close>

record thread =
  t_stack :: ptr
  t_entry :: "ptr \<times> ptr"
  stack_buttom :: ptr
  stack_size :: u32
  move_lock :: bool
  t_state :: u8
  t_prio :: u8
  t_cpu :: u32
  cpu_mask :: u32
  t_policy :: u8
  preempt_type :: u8
  t_ipc :: ptr
  t_delay :: u32
  t_time :: u32
  console_id :: u32
  deal_hook :: ptr
  release_hook :: ptr
  private_data :: ptr
  t_data :: ptr

definition STATE_READY :: u8 where "STATE_READY = 0x01"
definition STATE_SUSPEND :: u8 where "STATE_SUSPEND = 0x02"
definition STATE_RUNNING :: u8 where "STATE_RUNNING = 0x04"
definition STATE_EXIT :: u8 where "STATE_EXIT = 0x08"
definition STATE_RELEASE :: u8 where "STATE_RELEASE = 0x10"
definition STATE_MOVE :: u8 where "STATE_MOVE = 0x20"
definition STATE_RELOAD :: u8 where "STATE_RELOAD = 0x40"

lemmas state_defs = STATE_READY_def STATE_SUSPEND_def STATE_RUNNING_def STATE_EXIT_def STATE_RELEASE_def
  STATE_MOVE_def STATE_RELOAD_def

definition PREEMPT_LOCAL :: u8 where "PREEMPT_LOCAL = 0"
definition PREEMPT_GLOBAL :: u8 where "PREEMPT_GLOBAL = 1"
definition PREEMPT_TIMED :: u8 where "PREEMPT_TIMED = 2"

section \<open>IPC objects\<close>

text \<open>\<^verbatim>\<open>acoral_ipc_t\<close> less its wait queue (head \<open>WaitQ\<close>) and its name; \<open>i_count\<close> is a signed 16-bit value.\<close>

record ipc =
  i_type :: u8
  i_lock :: bool
  i_count :: int
  i_number :: u16
  i_data :: ptr

record mpcp =
  m_sem :: ptr
  m_type :: u8
  m_cpu :: u32
  m_prio_ceiling :: u8
  m_prio_switch :: u8
  m_lock :: bool

record dpcp =
  d_sem :: ptr
  d_cpu :: u32
  d_type :: u8
  d_prio_ceiling :: u8
  d_prio_switch :: u8
  d_data :: ptr

section \<open>Resource pools\<close>

text \<open>The field \<^verbatim>\<open>base_adr\<close> of a pool has two roles: the next free pool, or the memory of its resources.\<close>

datatype pool_adr = PNull | PPool nat | PMem ptr

record pool_ctrl =
  c_type :: u32
  c_size :: u32
  num_per_pool :: u32
  c_num :: u32
  max_pools :: u32
  c_lock :: bool

record pool =
  base_adr :: pool_adr
  res_free :: ptr
  p_id :: u32
  p_size :: u32
  p_num :: u32
  p_free_num :: u32
  p_ctrl :: ctrl_id
  p_lock :: bool

section \<open>Other parts\<close>

record ipi_cmd =
  cmd_lock :: bool
  cmd_code :: u32
  cmd_thread :: u32
  cmd_data :: u32

text \<open>\<^verbatim>\<open>period_private_data_t\<close>, and \<^verbatim>\<open>timed_private_data_t\<close> with its arrays as lists;
  \<open>tp_ipc_p\<close> is the address of the array of semaphores.\<close>

record period_private =
  pp_time :: u32
  pp_route :: ptr
  pp_args :: ptr

record timed_private =
  start_time :: "u32 list"
  tp_ipc :: "ptr list"
  tp_ipc_p :: ptr
  section_num :: u8
  frequency :: u8
  cur_section :: u8
  run_num :: u8
  tp_route :: ptr
  section_route :: ptr
  section_args :: ptr
  tp_args :: ptr

text \<open>The volatile-size heap \<^verbatim>\<open>vol_mem_ctrl\<close>: \<open>words\<close> is the memory as words by address.\<close>

record vol_mem =
  top_p :: u32
  down_p :: u32
  freep_p :: u32
  mem_state :: bool
  words :: "u32 \<Rightarrow> u32"

section \<open>The kernel\<close>

record kstate =
  current_cpu :: u32
  heap :: "knode lheap"
  threads :: "ptr \<Rightarrow> thread"
  res_word :: "ptr \<Rightarrow> u32"
  ipcs :: "ptr \<Rightarrow> ipc"
  mpcps :: "ptr \<Rightarrow> mpcp"
  dpcps :: "ptr \<Rightarrow> dpcp"
  need_sched :: "u32 \<Rightarrow> bool"
  sched_lock :: "u32 \<Rightarrow> bool"
  critical_nesting :: "u32 \<Rightarrow> u32"
  intr_masked :: "u32 \<Rightarrow> bool"
  intr_nesting :: "u32 \<Rightarrow> u32"
  irq_switch :: "u32 \<Rightarrow> bool"
  sched_enable :: bool
  running_thread :: "u32 \<Rightarrow> ptr"
  ready_thread :: "u32 \<Rightarrow> ptr"
  rdy_num :: "u32 \<Rightarrow> u32"
  rdy_bitmap :: "u32 \<Rightarrow> u32 list"
  pools :: "nat \<Rightarrow> pool"
  free_res_pool :: pool_adr
  ctrls :: "ctrl_id \<Rightarrow> pool_ctrl"
  mem :: buddy
  vol :: vol_mem
  ipi_cmds :: "u32 \<Rightarrow> ipi_cmd"
  ipi_sent :: "u32 \<Rightarrow> nat"
  ticks :: u32
  daemon_id :: u32
  periods :: "ptr \<Rightarrow> period_private"
  timeds :: "ptr \<Rightarrow> timed_private"
  last_timed :: "u32 \<Rightarrow> ptr"
  mpcp_prio :: "u32 \<Rightarrow> u8"
  dpcp_prio :: "u8 \<Rightarrow> u32 \<Rightarrow> u8"
  active_map :: "u32 list"

text \<open>Results of operations: \<open>kop\<close> for a \<^verbatim>\<open>void\<close> function, \<open>'r kret\<close> for one that returns a value.\<close>

type_synonym kop = "kstate \<Rightarrow> kstate option"
type_synonym 'r kret = "kstate \<Rightarrow> ('r \<times> kstate) option"

definition upd_thr :: "ptr \<Rightarrow> (thread \<Rightarrow> thread) \<Rightarrow> kstate \<Rightarrow> kstate" where
  "upd_thr p f s = s\<lparr>threads := (threads s)(p := f (threads s p))\<rparr>"

definition upd_ipc :: "ptr \<Rightarrow> (ipc \<Rightarrow> ipc) \<Rightarrow> kstate \<Rightarrow> kstate" where
  "upd_ipc p f s = s\<lparr>ipcs := (ipcs s)(p := f (ipcs s p))\<rparr>"

definition on_heap :: "(knode lheap \<Rightarrow> knode lheap option) \<Rightarrow> kop" where
  "on_heap f s = (case f (heap s) of None \<Rightarrow> None | Some h \<Rightarrow> Some (s\<lparr>heap := h\<rparr>))"

definition cur_thread :: "kstate \<Rightarrow> ptr" where
  "cur_thread s = running_thread s (current_cpu s)"

definition flag :: "u8 \<Rightarrow> u8 \<Rightarrow> bool" where
  "flag st f \<longleftrightarrow> st AND f \<noteq> 0"

text \<open>Spin locks outside the node heap.\<close>

definition ipc_lock :: "ptr \<Rightarrow> kop" where
  "ipc_lock p s = (if i_lock (ipcs s p) then None else Some (upd_ipc p (i_lock_update (\<lambda>_. True)) s))"

definition ipc_unlock :: "ptr \<Rightarrow> kstate \<Rightarrow> kstate" where
  "ipc_unlock p = upd_ipc p (i_lock_update (\<lambda>_. False))"

definition move_lock_take :: "ptr \<Rightarrow> kop" where
  "move_lock_take p s = (if move_lock (threads s p) then None else Some (upd_thr p (move_lock_update (\<lambda>_. True)) s))"

definition move_lock_free :: "ptr \<Rightarrow> kstate \<Rightarrow> kstate" where
  "move_lock_free p = upd_thr p (move_lock_update (\<lambda>_. False))"

lemmas kstate_upd_defs = upd_thr_def upd_ipc_def ipc_unlock_def move_lock_free_def

lemma on_heap_Some: "on_heap f s = Some s' \<longleftrightarrow> (\<exists>h. f (heap s) = Some h \<and> s' = s\<lparr>heap := h\<rparr>)"
  by (auto simp: on_heap_def split: option.splits)

end
