(* ===== verification/Sched.thy ===== *)
theory Sched
  imports KState
begin

text \<open>
  The scheduler: \<^verbatim>\<open>kernel/src/sched.c\<close>, the ready array of \<^verbatim>\<open>kernel/src/thread.c\<close> (its bitmap and its FIFO
  queue per priority), \<^verbatim>\<open>kernel/src/cpu.c\<close>, and the interrupt counters of the HAL. \<^verbatim>\<open>HAL_COMM_SWITCH\<close> is a
  software interrupt whose handler saves the context, calls \<open>acoral_switch_context\<close> and restores the
  context of the running thread; the register contexts are not modelled, so it is that call. An
  operation's result state is the state in which it hands the CPU to the thread it selected.
\<close>

section \<open>Interrupt counters and masks\<close>

definition hal_intr_nesting_init :: "kstate \<Rightarrow> kstate" where
  "hal_intr_nesting_init s = s\<lparr>intr_nesting := (\<lambda>i. if i < 2 then 0 else intr_nesting s i)\<rparr>"

definition hal_get_intr_nesting :: "kstate \<Rightarrow> u32" where
  "hal_get_intr_nesting s = intr_nesting s (current_cpu s)"

definition hal_intr_nesting_dec :: "kstate \<Rightarrow> kstate" where
  "hal_intr_nesting_dec s =
     (let cpu = current_cpu s in
      if intr_nesting s cpu > 0 then s\<lparr>intr_nesting := (intr_nesting s)(cpu := intr_nesting s cpu - 1)\<rparr> else s)"

definition hal_intr_nesting_inc :: "kstate \<Rightarrow> kstate" where
  "hal_intr_nesting_inc s =
     (let cpu = current_cpu s in s\<lparr>intr_nesting := (intr_nesting s)(cpu := intr_nesting s cpu + 1)\<rparr>)"

text \<open>The priority mask register \<^verbatim>\<open>ICCPMR\<close> of the CPU's interrupt controller.\<close>

definition hal_intr_disable_save :: "kstate \<Rightarrow> kstate" where
  "hal_intr_disable_save s = s\<lparr>intr_masked := (intr_masked s)(current_cpu s := True)\<rparr>"

definition hal_intr_restore :: "kstate \<Rightarrow> kstate" where
  "hal_intr_restore s = s\<lparr>intr_masked := (intr_masked s)(current_cpu s := False)\<rparr>"

section \<open>The ready array\<close>

definition acoral_thread_prio_queue_add :: "u32 \<Rightarrow> u8 \<Rightarrow> knode \<Rightarrow> kop" where
  "acoral_thread_prio_queue_add cpu prio node s =
     (if unat cpu < CFG_MAX_CPU \<and> unat prio < ACORAL_MAX_PRIO_NUM then
        do {
          let s = s\<lparr>rdy_num := (rdy_num s)(cpu := rdy_num s cpu + 1)\<rparr>;
          s \<leftarrow> on_heap (acoral_fifo_queue_add (RdyQ cpu (unat prio)) node) s;
          b \<leftarrow> acoral_set_bit (unat prio) (rdy_bitmap s cpu);
          Some (s\<lparr>rdy_bitmap := (rdy_bitmap s)(cpu := b)\<rparr>)
        }
      else None)"

definition acoral_thread_prio_queue_del :: "u32 \<Rightarrow> u8 \<Rightarrow> knode \<Rightarrow> kop" where
  "acoral_thread_prio_queue_del cpu prio node s =
     (if unat cpu < CFG_MAX_CPU \<and> unat prio < ACORAL_MAX_PRIO_NUM then
        do {
          let s = s\<lparr>rdy_num := (rdy_num s)(cpu := rdy_num s cpu - 1)\<rparr>;
          s \<leftarrow> on_heap (acoral_fifo_queue_del (RdyQ cpu (unat prio)) node) s;
          if acoral_list_empty (RdyQ cpu (unat prio)) (heap s) then
            do {
              b \<leftarrow> acoral_clear_bit (unat prio) (rdy_bitmap s cpu);
              Some (s\<lparr>rdy_bitmap := (rdy_bitmap s)(cpu := b)\<rparr>)
            }
          else Some s
        }
      else None)"

definition acoral_thread_get_high_prio :: "u32 \<Rightarrow> kstate \<Rightarrow> u32 option" where
  "acoral_thread_get_high_prio cpu s = acoral_find_first_bit (rdy_bitmap s cpu) ACORAL_THREAD_PRIO_BITMAP_SIZE"

definition acoral_thread_prio_queue_init :: "u32 \<Rightarrow> kstate \<Rightarrow> kstate" where
  "acoral_thread_prio_queue_init cpu s =
     s\<lparr>rdy_num := (rdy_num s)(cpu := 0),
       rdy_bitmap := (rdy_bitmap s)(cpu := replicate ACORAL_THREAD_PRIO_BITMAP_SIZE 0),
       heap := fold (\<lambda>i. acoral_fifo_queue_init (RdyQ cpu i)) [0..<ACORAL_MAX_PRIO_NUM] (heap s)\<rparr>"

section \<open>Scheduling\<close>

definition acoral_sched_init :: "kstate \<Rightarrow> kstate" where
  "acoral_sched_init s =
     s\<lparr>sched_lock := (\<lambda>i. if i < 2 then False else sched_lock s i),
       critical_nesting := (\<lambda>i. if i < 2 then 0 else critical_nesting s i),
       need_sched := (\<lambda>i. if i < 2 then False else need_sched s i)\<rparr>"

definition acoral_set_need_sched :: "bool \<Rightarrow> kstate \<Rightarrow> kstate" where
  "acoral_set_need_sched v s = s\<lparr>need_sched := (need_sched s)(current_cpu s := v)\<rparr>"

definition acoral_run_orig_thread :: "ptr \<Rightarrow> kstate \<Rightarrow> kstate" where
  "acoral_run_orig_thread orig s = s\<lparr>running_thread := (running_thread s)(current_cpu s := orig)\<rparr>"

definition acoral_set_running_thread :: "ptr \<Rightarrow> kstate \<Rightarrow> kstate" where
  "acoral_set_running_thread p s =
     (let s = upd_thr (cur_thread s) (t_state_update (\<lambda>st. st AND NOT STATE_RUNNING)) s;
          s = upd_thr p (t_state_update (\<lambda>st. st OR STATE_RUNNING)) s
      in s\<lparr>running_thread := (running_thread s)(current_cpu s := p)\<rparr>)"

definition acoral_sched_rdyqueue_init :: "kstate \<Rightarrow> kstate" where
  "acoral_sched_rdyqueue_init s =
     fold (\<lambda>cpu. acoral_thread_prio_queue_init (of_nat cpu)) [0..<CFG_MAX_CPU] s"

text \<open>The resource id of a thread also encodes its CPU, in bit \<^verbatim>\<open>ACORAL_RES_CPU_BIT\<close>.\<close>

definition RES_CPU_FLAG :: u32 where "RES_CPU_FLAG = push_bit 24 1"

definition set_res_cpu :: "ptr \<Rightarrow> u32 \<Rightarrow> kstate \<Rightarrow> kstate" where
  "set_res_cpu p cpu s =
     (if cpu = 0 then s\<lparr>res_word := (res_word s)(p := res_word s p AND NOT RES_CPU_FLAG)\<rparr>
      else if cpu = 1 then s\<lparr>res_word := (res_word s)(p := res_word s p OR RES_CPU_FLAG)\<rparr>
      else s)"

definition acoral_sched_rdyqueue_add :: "ptr \<Rightarrow> kop" where
  "acoral_sched_rdyqueue_add new s =
     do {
       let cpu = t_cpu (threads s new);
       s \<leftarrow> acoral_thread_prio_queue_add cpu (t_prio (threads s new)) (Ready new) s;
       let s = upd_thr new (t_state_update (\<lambda>st. (st AND NOT STATE_SUSPEND) OR STATE_READY)) s;
       let s = set_res_cpu new cpu s;
       Some (acoral_set_need_sched True s)
     }"

definition acoral_sched_rdyqueue_del :: "ptr \<Rightarrow> kop" where
  "acoral_sched_rdyqueue_del old s =
     do {
       let cpu = t_cpu (threads s old);
       s \<leftarrow> acoral_thread_prio_queue_del cpu (t_prio (threads s old)) (Ready old) s;
       let s = upd_thr old (t_state_update (\<lambda>st. ((st AND NOT STATE_READY) AND NOT STATE_RUNNING) OR STATE_SUSPEND)) s;
       Some (acoral_set_need_sched True s)
     }"

definition acoral_select_thread :: kop where
  "acoral_select_thread s =
     do {
       let cpu = current_cpu s;
       index \<leftarrow> acoral_thread_get_high_prio cpu s;
       if unat index < ACORAL_MAX_PRIO_NUM then
         do {
           p \<leftarrow> ready_entry (lnext (heap s) (RdyQ cpu (unat index)));
           Some (s\<lparr>ready_thread := (ready_thread s)(cpu := p)\<rparr>)
         }
       else None
     }"

text \<open>May \<open>next\<close> take the CPU from \<open>prev\<close>? Always when \<open>prev\<close> is suspended; otherwise a thread that holds a
  global resource is not preempted by a local thread and a timed thread by nobody.\<close>

definition can_preempt :: "thread \<Rightarrow> thread \<Rightarrow> bool" where
  "can_preempt prev next \<longleftrightarrow> flag (t_state prev) STATE_SUSPEND \<or>
     \<not> ((preempt_type prev = PREEMPT_GLOBAL \<and> preempt_type next = PREEMPT_LOCAL) \<or> preempt_type prev = PREEMPT_TIMED)"

definition acoral_switch_context :: kop where
  "acoral_switch_context s =
     do {
       let s = acoral_set_need_sched False s;
       let prev = cur_thread s;
       s \<leftarrow> acoral_select_thread s;
       let next = ready_thread s (current_cpu s);
       if prev \<noteq> next \<or> flag (t_state (threads s prev)) STATE_RELOAD then
         if t_state (threads s prev) = STATE_EXIT then
           Some (upd_thr prev (t_state_update (\<lambda>_. STATE_RELEASE)) (acoral_set_running_thread next s))
         else if can_preempt (threads s prev) (threads s next) then
           let s = acoral_set_running_thread next s in
           if flag (t_state (threads s prev)) STATE_RELOAD
           then Some (upd_thr prev (t_state_update (\<lambda>st. st AND NOT STATE_RELOAD)) s)
           else if flag (t_state (threads s prev)) STATE_MOVE
           then Some (move_lock_free prev (upd_thr prev (t_state_update (\<lambda>st. st AND NOT STATE_MOVE)) s))
           else Some s
         else Some s
       else Some s
     }"

definition acoral_sched :: kop where
  "acoral_sched s =
     (if \<not> need_sched s (current_cpu s) then Some s
      else if hal_get_intr_nesting s \<noteq> 0 then Some s
      else if sched_lock s (current_cpu s) then Some s
      else if \<not> sched_enable s then Some s
      else acoral_switch_context s)"

definition acoral_sched_unlock :: kop where
  "acoral_sched_unlock s = acoral_sched (s\<lparr>sched_lock := (sched_lock s)(current_cpu s := False)\<rparr>)"

definition acoral_enter_critical :: "kstate \<Rightarrow> kstate" where
  "acoral_enter_critical s =
     (let cpu = current_cpu s;
          s = hal_intr_disable_save s;
          s = (if \<not> sched_lock s cpu then s\<lparr>sched_lock := (sched_lock s)(cpu := True)\<rparr> else s)
      in s\<lparr>critical_nesting := (critical_nesting s)(cpu := critical_nesting s cpu + 1)\<rparr>)"

definition acoral_exit_critical :: kop where
  "acoral_exit_critical s =
     (let cpu = current_cpu s;
          s = (if critical_nesting s cpu > 0
               then s\<lparr>critical_nesting := (critical_nesting s)(cpu := critical_nesting s cpu - 1)\<rparr> else s)
      in if critical_nesting s cpu = 0 then acoral_sched_unlock (hal_intr_restore s) else Some s)"

text \<open>The interrupt exit path of \<^verbatim>\<open>kernel/src/int.c\<close>: the same tests, but the switch is left to the return
  from the interrupt, which tests \<^verbatim>\<open>hal_irq_switch\<close>. Nothing ever clears that flag.\<close>

definition acoral_intr_exit :: "kstate \<Rightarrow> kstate" where
  "acoral_intr_exit s =
     (if \<not> need_sched s (current_cpu s) then s
      else if hal_get_intr_nesting s \<noteq> 0 then s
      else if sched_lock s (current_cpu s) then s
      else if \<not> sched_enable s then s
      else s\<lparr>irq_switch := (irq_switch s)(current_cpu s := True)\<rparr>)"

text \<open>\<^verbatim>\<open>acoral_intr_entry\<close> around the handler of the interrupt.\<close>

definition acoral_intr_entry :: "kop \<Rightarrow> kop" where
  "acoral_intr_entry handler s =
     do {
       s \<leftarrow> handler (hal_intr_nesting_inc s);
       Some (acoral_intr_exit (hal_intr_nesting_dec s))
     }"

section \<open>CPUs\<close>

definition acoral_cpu_is_active :: "u32 \<Rightarrow> kstate \<Rightarrow> u32 option" where
  "acoral_cpu_is_active cpu s = acoral_get_bit (unat cpu) (active_map s)"

definition acoral_cpu_set_active :: "u32 \<Rightarrow> kop" where
  "acoral_cpu_set_active cpu s = do { b \<leftarrow> acoral_set_bit (unat cpu) (active_map s); Some (s\<lparr>active_map := b\<rparr>) }"

text \<open>The loop of \<open>acoral_get_idlest_cpu\<close> and \<open>acoral_get_idle_maskcpu\<close> over the CPUs that satisfy a test, with
  the smallest count so far (from \<^verbatim>\<open>(acoral_u32)-1\<close>) and its CPU.\<close>

fun idlest_loop :: "(u32 \<Rightarrow> bool) \<Rightarrow> kstate \<Rightarrow> u32 list \<Rightarrow> u32 \<Rightarrow> u32 option \<Rightarrow> u32 option" where
  "idlest_loop ok s [] count cpu = cpu"
| "idlest_loop ok s (i # is) count cpu =
     (if count > rdy_num s i \<and> ok i then idlest_loop ok s is (rdy_num s i) (Some i)
      else idlest_loop ok s is count cpu)"

text \<open>\<open>None\<close>: the variable \<^verbatim>\<open>cpu\<close> is returned uninitialised.\<close>

definition acoral_get_idlest_cpu :: "kstate \<Rightarrow> u32 option" where
  "acoral_get_idlest_cpu s = idlest_loop (\<lambda>_. True) s (map of_nat [0..<CFG_MAX_CPU]) (- 1) None"

definition acoral_get_idle_maskcpu :: "u32 \<Rightarrow> kstate \<Rightarrow> u32" where
  "acoral_get_idle_maskcpu cmask s =
     (case idlest_loop (\<lambda>i. push_bit (unat i) 1 AND cmask \<noteq> 0) s (map of_nat [0..<CFG_MAX_CPU]) (- 1) (Some 0) of
        Some c \<Rightarrow> c | None \<Rightarrow> 0)"

section \<open>Field effects\<close>

lemma set_need_sched_simps [simp]:
  "heap (acoral_set_need_sched v s) = heap s" "threads (acoral_set_need_sched v s) = threads s"
  "rdy_bitmap (acoral_set_need_sched v s) = rdy_bitmap s" "rdy_num (acoral_set_need_sched v s) = rdy_num s"
  "current_cpu (acoral_set_need_sched v s) = current_cpu s" "running_thread (acoral_set_need_sched v s) = running_thread s"
  "sched_lock (acoral_set_need_sched v s) = sched_lock s" "critical_nesting (acoral_set_need_sched v s) = critical_nesting s"
  "ipcs (acoral_set_need_sched v s) = ipcs s"
  by (simp_all add: acoral_set_need_sched_def)

lemma enter_critical_simps [simp]:
  "heap (acoral_enter_critical s) = heap s" "threads (acoral_enter_critical s) = threads s"
  "rdy_bitmap (acoral_enter_critical s) = rdy_bitmap s" "rdy_num (acoral_enter_critical s) = rdy_num s"
  "current_cpu (acoral_enter_critical s) = current_cpu s" "running_thread (acoral_enter_critical s) = running_thread s"
  "ipcs (acoral_enter_critical s) = ipcs s" "need_sched (acoral_enter_critical s) = need_sched s"
  "sched_lock (acoral_enter_critical s) = (sched_lock s)(current_cpu s := True)"
  "critical_nesting (acoral_enter_critical s) =
     (critical_nesting s)(current_cpu s := critical_nesting s (current_cpu s) + 1)"
  "intr_masked (acoral_enter_critical s) = (intr_masked s)(current_cpu s := True)"
  "mem (acoral_enter_critical s) = mem s" "pools (acoral_enter_critical s) = pools s"
  "cur_thread (acoral_enter_critical s) = cur_thread s" "res_word (acoral_enter_critical s) = res_word s"
  "intr_nesting (acoral_enter_critical s) = intr_nesting s" "ipi_cmds (acoral_enter_critical s) = ipi_cmds s"
  by (auto simp: acoral_enter_critical_def hal_intr_disable_save_def Let_def cur_thread_def fun_eq_iff)

text \<open>Leaving a nested critical section only decrements the counter: no scheduling.\<close>

lemma exit_nested:
  assumes "1 < critical_nesting s (current_cpu s)"
  shows "acoral_exit_critical s =
    Some (s\<lparr>critical_nesting := (critical_nesting s)(current_cpu s := critical_nesting s (current_cpu s) - 1)\<rparr>)"
proof -
  let ?n = "critical_nesting s (current_cpu s)"
  have "?n > 0" "?n - 1 \<noteq> 0" using assms by (auto simp: word_gt_0)
  then show ?thesis by (simp add: acoral_exit_critical_def Let_def)
qed

definition leave_critical :: "kstate \<Rightarrow> kstate" where
  "leave_critical s =
     s\<lparr>critical_nesting := (critical_nesting s)(current_cpu s := 0), intr_masked := (intr_masked s)(current_cpu s := False),
       sched_lock := (sched_lock s)(current_cpu s := False)\<rparr>"

lemma exit_outermost:
  assumes "critical_nesting s (current_cpu s) \<le> 1"
  shows "acoral_exit_critical s = acoral_sched (leave_critical s)"
proof -
  let ?n = "critical_nesting s (current_cpu s)"
  have "unat ?n = 0 \<or> unat ?n = 1" using assms by (simp add: word_le_nat_alt) arith
  then have "?n = 0 \<or> ?n = 1" by (simp add: word_unat_eq_iff)
  moreover have "?n = 0 \<Longrightarrow> (critical_nesting s)(current_cpu s := 0) = critical_nesting s" by auto
  ultimately show ?thesis
    by (auto simp: acoral_exit_critical_def leave_critical_def acoral_sched_unlock_def hal_intr_restore_def Let_def)
qed

section \<open>State flags\<close>

lemma flag_bits:
  "flag st STATE_READY \<longleftrightarrow> bit st 0" "flag st STATE_SUSPEND \<longleftrightarrow> bit st 1" "flag st STATE_RUNNING \<longleftrightarrow> bit st 2"
  "flag st STATE_EXIT \<longleftrightarrow> bit st 3" "flag st STATE_RELEASE \<longleftrightarrow> bit st 4" "flag st STATE_MOVE \<longleftrightarrow> bit st 5"
  "flag st STATE_RELOAD \<longleftrightarrow> bit st 6"
  using and_exp_eq_0_iff_not_bit [of st 0] and_exp_eq_0_iff_not_bit [of st 1] and_exp_eq_0_iff_not_bit [of st 2]
    and_exp_eq_0_iff_not_bit [of st 3] and_exp_eq_0_iff_not_bit [of st 4] and_exp_eq_0_iff_not_bit [of st 5]
    and_exp_eq_0_iff_not_bit [of st 6]
  by (simp_all add: flag_def state_defs)

lemma state_const_bits:
  "bit STATE_READY n \<longleftrightarrow> n = 0" "bit STATE_SUSPEND n \<longleftrightarrow> n = 1" "bit STATE_RUNNING n \<longleftrightarrow> n = 2"
  "bit STATE_EXIT n \<longleftrightarrow> n = 3" "bit STATE_RELEASE n \<longleftrightarrow> n = 4" "bit STATE_MOVE n \<longleftrightarrow> n = 5" "bit STATE_RELOAD n \<longleftrightarrow> n = 6"
proof -
  have "bit ((2::u8) ^ k) n \<longleftrightarrow> n = k" if "k < 8" for k using that by (auto simp: bit_simps)
  from this [of 0] this [of 1] this [of 2] this [of 3] this [of 4] this [of 5] this [of 6]
  show "bit STATE_READY n \<longleftrightarrow> n = 0" "bit STATE_SUSPEND n \<longleftrightarrow> n = 1" "bit STATE_RUNNING n \<longleftrightarrow> n = 2"
    "bit STATE_EXIT n \<longleftrightarrow> n = 3" "bit STATE_RELEASE n \<longleftrightarrow> n = 4" "bit STATE_MOVE n \<longleftrightarrow> n = 5"
    "bit STATE_RELOAD n \<longleftrightarrow> n = 6"
    by (simp_all add: state_defs)
qed

lemma flag_ops [simp]:
  "flag (st OR STATE_RUNNING) STATE_READY = flag st STATE_READY"
  "flag (st OR STATE_RUNNING) STATE_SUSPEND = flag st STATE_SUSPEND"
  "flag (st OR STATE_MOVE) STATE_READY = flag st STATE_READY"
  "flag (st OR STATE_RELOAD) STATE_READY = flag st STATE_READY"
  "flag ((st AND NOT STATE_SUSPEND) OR STATE_READY) STATE_READY"
  "\<not> flag ((st AND NOT STATE_SUSPEND) OR STATE_READY) STATE_SUSPEND"
  "\<not> flag (((st AND NOT STATE_READY) AND NOT STATE_RUNNING) OR STATE_SUSPEND) STATE_READY"
  "flag (((st AND NOT STATE_READY) AND NOT STATE_RUNNING) OR STATE_SUSPEND) STATE_SUSPEND"
  "flag (st AND NOT STATE_RUNNING) STATE_READY = flag st STATE_READY"
  "flag (st AND NOT STATE_RUNNING) STATE_SUSPEND = flag st STATE_SUSPEND"
  "flag (st AND NOT STATE_RELOAD) STATE_READY = flag st STATE_READY"
  "flag (st AND NOT STATE_MOVE) STATE_READY = flag st STATE_READY"
  "flag (st AND NOT STATE_RELOAD) STATE_SUSPEND = flag st STATE_SUSPEND"
  "flag (st AND NOT STATE_MOVE) STATE_SUSPEND = flag st STATE_SUSPEND"
  "\<not> flag STATE_RUNNING STATE_READY" "\<not> flag STATE_RUNNING STATE_SUSPEND" "\<not> flag STATE_EXIT STATE_READY"
  "\<not> flag STATE_EXIT STATE_SUSPEND" "\<not> flag STATE_RELEASE STATE_READY" "\<not> flag STATE_MOVE STATE_READY"
  "\<not> flag STATE_SUSPEND STATE_READY" "flag STATE_SUSPEND STATE_SUSPEND" "flag STATE_READY STATE_READY"
  "\<not> flag STATE_READY STATE_SUSPEND" "\<not> flag STATE_EXIT STATE_RELOAD" "\<not> flag STATE_RELEASE STATE_SUSPEND"
  by (simp_all add: flag_bits state_const_bits bit_or_iff bit_and_iff bit_not_iff)

section \<open>The invariant of the ready queues\<close>

text \<open>\<open>L\<close> is the set of live threads. On each CPU every priority has a ring; the bitmap marks exactly the
  non-empty ones; a ring holds ready threads of that CPU and priority, and a live thread is in its
  ring exactly when its state has the ready flag.\<close>

definition in_ring :: "kstate \<Rightarrow> ptr set \<Rightarrow> u32 \<Rightarrow> nat \<Rightarrow> knode \<Rightarrow> bool" where
  "in_ring s L cpu pr x \<longleftrightarrow> (\<exists>p\<in>L. x = Ready p \<and> t_cpu (threads s p) = cpu \<and> unat (t_prio (threads s p)) = pr \<and>
     flag (t_state (threads s p)) STATE_READY)"

definition rdy_count :: "(knode \<rightharpoonup> knode list) \<Rightarrow> u32 \<Rightarrow> nat" where
  "rdy_count R cpu = (\<Sum>pr<ACORAL_MAX_PRIO_NUM. length (the (R (RdyQ cpu pr))))"

definition cpu_ok :: "ptr set \<Rightarrow> kstate \<Rightarrow> (knode \<rightharpoonup> knode list) \<Rightarrow> u32 \<Rightarrow> bool" where
  "cpu_ok L s R cpu \<longleftrightarrow> length (rdy_bitmap s cpu) = ACORAL_THREAD_PRIO_BITMAP_SIZE \<and>
     rdy_num s cpu = of_nat (rdy_count R cpu) \<and>
     bits_of (rdy_bitmap s cpu) = {pr. pr < ACORAL_MAX_PRIO_NUM \<and> R (RdyQ cpu pr) \<noteq> Some []} \<and>
     (\<forall>pr<ACORAL_MAX_PRIO_NUM. \<exists>xs. R (RdyQ cpu pr) = Some xs \<and> (\<forall>x\<in>set xs. in_ring s L cpu pr x))"

definition thread_ok :: "kstate \<Rightarrow> (knode \<rightharpoonup> knode list) \<Rightarrow> ptr \<Rightarrow> bool" where
  "thread_ok s R p \<longleftrightarrow> unat (t_cpu (threads s p)) < CFG_MAX_CPU \<and> unat (t_prio (threads s p)) < ACORAL_MAX_PRIO_NUM \<and>
     (if flag (t_state (threads s p)) STATE_READY
      then Ready p \<in> set (the (R (RdyQ (t_cpu (threads s p)) (unat (t_prio (threads s p))))))
      else free_node R (Ready p))"

definition rdy_inv :: "ptr set \<Rightarrow> kstate \<Rightarrow> (knode \<rightharpoonup> knode list) \<Rightarrow> bool" where
  "rdy_inv L s R \<longleftrightarrow> rings (heap s) R \<and> qlock (heap s) = (\<lambda>_. False) \<and>
     (\<forall>cpu. unat cpu < CFG_MAX_CPU \<longrightarrow> cpu_ok L s R cpu) \<and> (\<forall>p\<in>L. thread_ok s R p)"

lemma prio_consts [simp]: "ACORAL_MAX_PRIO_NUM = 61" "ACORAL_THREAD_PRIO_BITMAP_SIZE = 2"
  by (simp_all add: ACORAL_MAX_PRIO_NUM_def ACORAL_THREAD_PRIO_BITMAP_SIZE_def CFG_MAX_THREAD_def)

lemma rdy_invD:
  assumes "rdy_inv L s R"
  shows "rings (heap s) R" "\<not> qlock (heap s) q" "unat cpu < CFG_MAX_CPU \<Longrightarrow> cpu_ok L s R cpu"
    "p \<in> L \<Longrightarrow> thread_ok s R p"
  using assms by (auto simp: rdy_inv_def)

lemma rdy_inv_ring:
  assumes "rdy_inv L s R" "unat cpu < CFG_MAX_CPU" "pr < 61"
  obtains xs where "R (RdyQ cpu pr) = Some xs" "\<And>x. x \<in> set xs \<Longrightarrow> in_ring s L cpu pr x"
  using rdy_invD(3) [OF assms(1,2)] assms(3) by (auto simp: cpu_ok_def)

text \<open>The invariant only looks at these fields.\<close>

lemma rdy_inv_cong:
  assumes "heap s' = heap s" "rdy_bitmap s' = rdy_bitmap s" "rdy_num s' = rdy_num s"
    "\<And>p. t_cpu (threads s' p) = t_cpu (threads s p) \<and> t_prio (threads s' p) = t_prio (threads s p) \<and>
      (flag (t_state (threads s' p)) STATE_READY \<longleftrightarrow> flag (t_state (threads s p)) STATE_READY)"
  shows "rdy_inv L s' R \<longleftrightarrow> rdy_inv L s R"
  using assms unfolding rdy_inv_def cpu_ok_def thread_ok_def in_ring_def by simp

lemma rdy_inv_enter [simp]: "rdy_inv L (acoral_enter_critical s) R \<longleftrightarrow> rdy_inv L s R"
  by (rule rdy_inv_cong) simp_all

lemma rdy_inv_need_sched [simp]: "rdy_inv L (acoral_set_need_sched v s) R \<longleftrightarrow> rdy_inv L s R"
  by (rule rdy_inv_cong) simp_all

lemma rdy_count_upd:
  assumes "pr < 61" "R (RdyQ cpu pr) = Some xs"
  shows "rdy_count (R(RdyQ cpu pr \<mapsto> ys)) cpu + length xs = rdy_count R cpu + length ys"
proof -
  let ?S = "{..<61::nat} - {pr}"
  have split: "rdy_count Q cpu = length (the (Q (RdyQ cpu pr))) + (\<Sum>i\<in>?S. length (the (Q (RdyQ cpu i))))" for Q
    unfolding rdy_count_def using assms(1) by (simp add: sum.remove [of "{..<61}" pr])
  show ?thesis using split [of "R(RdyQ cpu pr \<mapsto> ys)"] split [of R] assms(2) by simp
qed

lemma rdy_count_other: "cpu' \<noteq> cpu \<Longrightarrow> rdy_count (R(RdyQ cpu pr \<mapsto> ys)) cpu' = rdy_count R cpu'"
  by (simp add: rdy_count_def)

lemma free_node_upd:
  "free_node R x \<Longrightarrow> x \<noteq> q \<Longrightarrow> x \<notin> set ys \<Longrightarrow> free_node (R(q \<mapsto> ys)) x"
  by (simp add: free_node_def)

text \<open>Replacing the ring of one priority, with the bitmap and the counter that fit it, keeps the CPU's part of
  the invariant when the new members are ready there.\<close>

lemma cpu_ok_upd:
  assumes ok: "cpu_ok L s R c" and pr: "pr < 61" "R (RdyQ cpu pr) = Some xs"
    and bm: "bits_of b = (if ys = [] then bits_of (rdy_bitmap s cpu) - {pr} else insert pr (bits_of (rdy_bitmap s cpu)))"
      "length b = 2"
    and n: "n + of_nat (length xs) = rdy_num s cpu + of_nat (length ys)"
    and s': "rdy_bitmap s' = (rdy_bitmap s)(cpu := b)" "rdy_num s' = (rdy_num s)(cpu := n)"
    and mem: "\<And>x. x \<in> set ys \<Longrightarrow> in_ring s' L cpu pr x"
    and oth: "\<And>pr' x zs. (c, pr') \<noteq> (cpu, pr) \<Longrightarrow> R (RdyQ c pr') = Some zs \<Longrightarrow> x \<in> set zs \<Longrightarrow>
      in_ring s L c pr' x \<Longrightarrow> in_ring s' L c pr' x"
  shows "cpu_ok L s' (R(RdyQ cpu pr \<mapsto> ys)) c"
proof (cases "c = cpu")
  case True
  have "n = of_nat (rdy_count (R(RdyQ cpu pr \<mapsto> ys)) cpu)"
  proof -
    have "of_nat (rdy_count (R(RdyQ cpu pr \<mapsto> ys)) cpu) + of_nat (length xs) = rdy_num s cpu + (of_nat (length ys) :: u32)"
      using rdy_count_upd [of pr R cpu xs ys] pr ok True by (simp add: cpu_ok_def flip: of_nat_add)
    then show ?thesis using n by (metis add_right_cancel)
  qed
  moreover have "bits_of b = {p. p < 61 \<and> (R(RdyQ cpu pr \<mapsto> ys)) (RdyQ cpu p) \<noteq> Some []}"
    using ok True pr bm(1) by (auto simp: cpu_ok_def)
  moreover have "\<exists>zs. (R(RdyQ cpu pr \<mapsto> ys)) (RdyQ cpu p) = Some zs \<and> (\<forall>x\<in>set zs. in_ring s' L cpu p x)" if p: "p < 61" for p
  proof (cases "p = pr")
    case False
    then obtain zs where "R (RdyQ cpu p) = Some zs" "\<forall>x\<in>set zs. in_ring s L cpu p x"
      using ok True p by (auto simp: cpu_ok_def)
    then show ?thesis using oth [of p zs] True False by auto
  qed (use mem in simp)
  ultimately show ?thesis using True bm(2) s' by (simp add: cpu_ok_def)
next
  case False
  have "\<exists>zs. R (RdyQ c p) = Some zs \<and> (\<forall>x\<in>set zs. in_ring s' L c p x)" if p: "p < 61" for p
  proof -
    obtain zs where "R (RdyQ c p) = Some zs" "\<forall>x\<in>set zs. in_ring s L c p x"
      using ok p by (auto simp: cpu_ok_def)
    then show ?thesis using oth [of p zs] False by auto
  qed
  then show ?thesis using ok False s' by (simp add: cpu_ok_def rdy_count_other)
qed

section \<open>Making a thread ready and unready\<close>

text \<open>The state after \<open>acoral_sched_rdyqueue_add\<close>, given the new heap and bitmap.\<close>

definition rdy_added :: "ptr \<Rightarrow> knode lheap \<Rightarrow> u32 list \<Rightarrow> kstate \<Rightarrow> kstate" where
  "rdy_added p h b s =
     (let cpu = t_cpu (threads s p) in
      acoral_set_need_sched True (set_res_cpu p cpu (upd_thr p (t_state_update (\<lambda>st. (st AND NOT STATE_SUSPEND) OR STATE_READY))
        (s\<lparr>rdy_num := (rdy_num s)(cpu := rdy_num s cpu + 1), heap := h, rdy_bitmap := (rdy_bitmap s)(cpu := b)\<rparr>))))"

definition rdy_deleted :: "ptr \<Rightarrow> knode lheap \<Rightarrow> u32 list \<Rightarrow> kstate \<Rightarrow> kstate" where
  "rdy_deleted p h b s =
     (let cpu = t_cpu (threads s p) in
      acoral_set_need_sched True (upd_thr p (t_state_update (\<lambda>st. ((st AND NOT STATE_READY) AND NOT STATE_RUNNING) OR STATE_SUSPEND))
        (s\<lparr>rdy_num := (rdy_num s)(cpu := rdy_num s cpu - 1), heap := h, rdy_bitmap := (rdy_bitmap s)(cpu := b)\<rparr>)))"

text \<open>The bitmap and the ready queues stay in step when a thread enters its ring and its bit is set, and when it leaves the
  ring and the bit is cleared with the last member.\<close>

lemma rdy_added_inv:
  assumes inv: "rdy_inv L s R" and p: "p \<in> L" "\<not> flag (t_state (threads s p)) STATE_READY"
  defines "cpu \<equiv> t_cpu (threads s p)" and "pr \<equiv> unat (t_prio (threads s p))"
  assumes xs: "R (RdyQ cpu pr) = Some xs" and h: "rings h (R(RdyQ cpu pr \<mapsto> xs @ [Ready p]))" "qlock h = qlock (heap s)"
    and b: "bits_of b = insert pr (bits_of (rdy_bitmap s cpu))" "length b = 2"
  shows "rdy_inv L (rdy_added p h b s) (R(RdyQ cpu pr \<mapsto> xs @ [Ready p]))"
proof -
  let ?s = "rdy_added p h b s" and ?R = "R(RdyQ cpu pr \<mapsto> xs @ [Ready p])"
  have tok: "unat cpu < 2" "pr < 61"
    using rdy_invD(4) [OF inv p(1)] by (auto simp: thread_ok_def CFG_MAX_CPU_def cpu_def pr_def)
  have mem: "in_ring s L cpu pr x" if "x \<in> set xs" for x
    using rdy_inv_ring [OF inv, of cpu pr] tok xs that by (auto simp: CFG_MAX_CPU_def)
  have f: "heap ?s = h" "rdy_bitmap ?s = (rdy_bitmap s)(cpu := b)" "rdy_num ?s = (rdy_num s)(cpu := rdy_num s cpu + 1)"
    "threads ?s = (threads s)(p := t_state_update (\<lambda>st. (st AND NOT STATE_SUSPEND) OR STATE_READY) (threads s p))"
    by (simp_all add: rdy_added_def set_res_cpu_def upd_thr_def Let_def cpu_def)
  have ring: "in_ring ?s L c r x" if "in_ring s L c r x" for c r x
    using that p(2) by (auto simp: in_ring_def f(4))
  have self: "in_ring ?s L cpu pr (Ready p)" using p(1) by (auto simp: in_ring_def f(4) cpu_def pr_def)
  have "cpu_ok L ?s ?R c" if "unat c < CFG_MAX_CPU" for c
    by (rule cpu_ok_upd [OF rdy_invD(3) [OF inv that] tok(2) xs _ b(2) _ f(2,3)]) (use mem ring self b(1) in auto)
  moreover have "thread_ok ?s ?R t" if t: "t \<in> L" for t
  proof (cases "t = p")
    case True
    then show ?thesis using tok by (simp add: thread_ok_def f(4) CFG_MAX_CPU_def cpu_def pr_def)
  next
    case False
    have "free_node ?R (Ready t)" if "free_node R (Ready t)"
      using free_node_upd [OF that] free_nodeD [OF that xs] False by simp
    then show ?thesis using rdy_invD(4) [OF inv t] xs False by (auto simp: thread_ok_def f(4))
  qed
  ultimately show ?thesis using h rdy_invD(2) [OF inv] by (auto simp: rdy_inv_def f(1))
qed

lemma rdyqueue_add_inv:
  assumes inv: "rdy_inv L s R" and p: "p \<in> L" "\<not> flag (t_state (threads s p)) STATE_READY"
  defines "q \<equiv> RdyQ (t_cpu (threads s p)) (unat (t_prio (threads s p)))"
  shows "\<exists>h b xs. R q = Some xs \<and> acoral_sched_rdyqueue_add p s = Some (rdy_added p h b s) \<and>
    rdy_inv L (rdy_added p h b s) (R(q \<mapsto> xs @ [Ready p])) \<and> lvalue h = lvalue (heap s)"
proof -
  let ?cpu = "t_cpu (threads s p)" and ?pr = "unat (t_prio (threads s p))"
  have tok: "unat ?cpu < 2" "?pr < 61" "free_node R (Ready p)"
    using rdy_invD(4) [OF inv p(1)] p(2) by (auto simp: thread_ok_def CFG_MAX_CPU_def)
  obtain xs where xs: "R q = Some xs" using rdy_inv_ring [OF inv, of ?cpu ?pr] tok by (auto simp: q_def CFG_MAX_CPU_def)
  obtain h where h: "acoral_fifo_queue_add q (Ready p) (heap s) = Some h" "rings h (R(q \<mapsto> xs @ [Ready p]))"
      "lvalue h = lvalue (heap s)" "qlock h = qlock (heap s)"
    using fifo.add_law [OF rdy_invD(1) [OF inv] xs rdy_invD(2) [OF inv] tok(3)] by blast
  have len: "length (rdy_bitmap s ?cpu) = 2" using rdy_invD(3) [OF inv, of ?cpu] tok(1) by (simp add: cpu_ok_def CFG_MAX_CPU_def)
  have div: "?pr div 32 < length (rdy_bitmap s ?cpu)" using tok(2) len by simp
  obtain b where b: "acoral_set_bit ?pr (rdy_bitmap s ?cpu) = Some b" "bits_of b = insert ?pr (bits_of (rdy_bitmap s ?cpu))"
      "length b = 2"
    using set_bit_Some [OF div] set_bit_bits len by metis
  have "acoral_sched_rdyqueue_add p s = Some (rdy_added p h b s)"
    using h(1) b(1) tok
    by (simp add: acoral_sched_rdyqueue_add_def acoral_thread_prio_queue_add_def rdy_added_def on_heap_def q_def
        CFG_MAX_CPU_def Let_def)
  then show ?thesis using rdy_added_inv [OF inv p xs [unfolded q_def] h(2) [unfolded q_def] h(4) b(2,3)] xs h(3) unfolding q_def by blast
qed

lemma rdy_deleted_inv:
  assumes inv: "rdy_inv L s R" and p: "p \<in> L" "flag (t_state (threads s p)) STATE_READY"
  defines "cpu \<equiv> t_cpu (threads s p)" and "pr \<equiv> unat (t_prio (threads s p))"
  assumes q: "R (RdyQ cpu pr) = Some (xs @ Ready p # ys)" and h: "rings h (R(RdyQ cpu pr \<mapsto> xs @ ys))"
      "free_node (R(RdyQ cpu pr \<mapsto> xs @ ys)) (Ready p)" "qlock h = qlock (heap s)"
    and b: "bits_of b = (if xs @ ys = [] then bits_of (rdy_bitmap s cpu) - {pr} else insert pr (bits_of (rdy_bitmap s cpu)))" "length b = 2"
  shows "rdy_inv L (rdy_deleted p h b s) (R(RdyQ cpu pr \<mapsto> xs @ ys))"
proof -
  let ?s = "rdy_deleted p h b s" and ?R = "R(RdyQ cpu pr \<mapsto> xs @ ys)"
  have tok: "unat cpu < 2" "pr < 61"
    using rdy_invD(4) [OF inv p(1)] by (auto simp: thread_ok_def CFG_MAX_CPU_def cpu_def pr_def)
  have dist: "Ready p \<notin> set (xs @ ys)" using ringsD [OF rdy_invD(1) [OF inv] q] by (auto simp: ring_def)
  have f: "heap ?s = h" "rdy_bitmap ?s = (rdy_bitmap s)(cpu := b)" "rdy_num ?s = (rdy_num s)(cpu := rdy_num s cpu - 1)"
    "threads ?s = (threads s)(p := t_state_update (\<lambda>st. ((st AND NOT STATE_READY) AND NOT STATE_RUNNING) OR STATE_SUSPEND) (threads s p))"
    by (simp_all add: rdy_deleted_def upd_thr_def Let_def cpu_def)
  have ring: "in_ring ?s L c r x" if "in_ring s L c r x" "x \<noteq> Ready p" for c r x
    using that by (auto simp: in_ring_def f(4))
  have other: "x \<noteq> Ready p" if "(c, r) \<noteq> (cpu, pr)" "R (RdyQ c r) = Some us" "x \<in> set us" for c r us x
    using rdy_invD(1) [OF inv] rings_disj [OF _ q that(2)] that by auto
  have memb: "in_ring ?s L cpu pr x" if "x \<in> set (xs @ ys)" for x
    using rdy_inv_ring [OF inv, of cpu pr] tok q that dist ring by (auto simp: CFG_MAX_CPU_def)
  have "cpu_ok L ?s ?R c" if c: "unat c < CFG_MAX_CPU" for c
  proof (rule cpu_ok_upd [OF rdy_invD(3) [OF inv c] tok(2) q b _ f(2,3) memb])
    show "in_ring ?s L c r x"
      if "(c, r) \<noteq> (cpu, pr)" "R (RdyQ c r) = Some us" "x \<in> set us" "in_ring s L c r x" for r x us
      using ring [OF that(4) other [OF that(1-3)]] .
  qed simp_all
  moreover have "thread_ok ?s ?R t" if t: "t \<in> L" for t
  proof (cases "t = p")
    case True
    then show ?thesis using tok h(2) by (simp add: thread_ok_def f(4) CFG_MAX_CPU_def cpu_def pr_def)
  next
    case False
    have "free_node ?R (Ready t)" if "free_node R (Ready t)"
      using free_node_upd [OF that] free_nodeD [OF that q] by simp
    then show ?thesis using rdy_invD(4) [OF inv t] q False by (auto simp: thread_ok_def f(4))
  qed
  ultimately show ?thesis using h(1,3) rdy_invD(2) [OF inv] by (auto simp: rdy_inv_def f(1))
qed

lemma rdyqueue_del_inv:
  assumes inv: "rdy_inv L s R" and p: "p \<in> L" "flag (t_state (threads s p)) STATE_READY"
  defines "q \<equiv> RdyQ (t_cpu (threads s p)) (unat (t_prio (threads s p)))"
  shows "\<exists>h b xs ys. R q = Some (xs @ Ready p # ys) \<and> acoral_sched_rdyqueue_del p s = Some (rdy_deleted p h b s) \<and>
    rdy_inv L (rdy_deleted p h b s) (R(q \<mapsto> xs @ ys)) \<and> lvalue h = lvalue (heap s)"
proof -
  let ?cpu = "t_cpu (threads s p)" and ?pr = "unat (t_prio (threads s p))"
  have tok: "unat ?cpu < 2" "?pr < 61" "Ready p \<in> set (the (R q))"
    using rdy_invD(4) [OF inv p(1)] p(2) by (auto simp: thread_ok_def CFG_MAX_CPU_def q_def)
  obtain zs where zs: "R q = Some zs" using rdy_inv_ring [OF inv, of ?cpu ?pr] tok by (auto simp: q_def CFG_MAX_CPU_def)
  then obtain xs ys where "zs = xs @ Ready p # ys" using tok(3) by (auto dest: split_list)
  note q = zs [unfolded this]
  obtain h where h: "acoral_fifo_queue_del q (Ready p) (heap s) = Some h" "rings h (R(q \<mapsto> xs @ ys))"
      "free_node (R(q \<mapsto> xs @ ys)) (Ready p)" "lvalue h = lvalue (heap s)" "qlock h = qlock (heap s)"
    using fifo.del_law [OF rdy_invD(1) [OF inv] q rdy_invD(2) [OF inv]] by blast
  have len: "length (rdy_bitmap s ?cpu) = 2" using rdy_invD(3) [OF inv, of ?cpu] tok(1) by (simp add: cpu_ok_def CFG_MAX_CPU_def)
  have div: "?pr div 32 < length (rdy_bitmap s ?cpu)" using tok(2) len by simp
  have inb: "?pr \<in> bits_of (rdy_bitmap s ?cpu)"
    using rdy_invD(3) [OF inv, of ?cpu] tok(1,2) q by (simp add: cpu_ok_def CFG_MAX_CPU_def q_def)
  obtain b' where b': "acoral_clear_bit ?pr (rdy_bitmap s ?cpu) = Some b'" "bits_of b' = bits_of (rdy_bitmap s ?cpu) - {?pr}"
      "length b' = 2"
    using clear_bit_Some [OF div] clear_bit_bits len by metis
  define b where "b = (if xs @ ys = [] then b' else rdy_bitmap s ?cpu)"
  have bm: "bits_of b = (if xs @ ys = [] then bits_of (rdy_bitmap s ?cpu) - {?pr} else insert ?pr (bits_of (rdy_bitmap s ?cpu)))"
    "length b = 2"
    using b'(2,3) inb len by (auto simp: b_def)
  have "acoral_list_empty q h \<longleftrightarrow> xs @ ys = []" using ring_empty_iff [OF ringsD [OF h(2)]] by simp
  then have "acoral_sched_rdyqueue_del p s = Some (rdy_deleted p h b s)"
    using h(1) b'(1) tok
    by (simp add: acoral_sched_rdyqueue_del_def acoral_thread_prio_queue_del_def rdy_deleted_def on_heap_def q_def
        CFG_MAX_CPU_def Let_def b_def)
  then show ?thesis using rdy_deleted_inv [OF inv p q [unfolded q_def] h(2,3,5) [unfolded q_def] bm] q h(4) unfolding q_def by blast
qed

section \<open>Selection and switching\<close>

text \<open>A thread of \<open>L\<close> is ready on the executing CPU. The idle thread of a CPU never leaves its ready queue, so
  this holds whenever the scheduler runs.\<close>

definition ready_on :: "kstate \<Rightarrow> ptr set \<Rightarrow> u32 \<Rightarrow> ptr set" where
  "ready_on s L cpu = {p \<in> L. t_cpu (threads s p) = cpu \<and> flag (t_state (threads s p)) STATE_READY}"

text \<open>The thread the scheduler has to choose: the longest waiting one of the highest priority (the smallest
  number) that has a ready thread.\<close>

definition chosen :: "kstate \<Rightarrow> (knode \<rightharpoonup> knode list) \<Rightarrow> ptr \<Rightarrow> bool" where
  "chosen s R p \<longleftrightarrow> (\<exists>pr xs. pr < 61 \<and> R (RdyQ (current_cpu s) pr) = Some (Ready p # xs) \<and>
     (\<forall>i<pr. R (RdyQ (current_cpu s) i) = Some []))"

lemma select_thread_chosen:
  assumes inv: "rdy_inv L s R" and cpu: "unat (current_cpu s) < CFG_MAX_CPU" and ne: "ready_on s L (current_cpu s) \<noteq> {}"
  shows "\<exists>p. acoral_select_thread s = Some (s\<lparr>ready_thread := (ready_thread s)(current_cpu s := p)\<rparr>) \<and> chosen s R p \<and>
    p \<in> ready_on s L (current_cpu s)"
proof -
  let ?c = "current_cpu s"
  have ok: "cpu_ok L s R ?c" by (rule rdy_invD(3) [OF inv cpu])
  obtain t where t: "t \<in> L" "t_cpu (threads s t) = ?c" "flag (t_state (threads s t)) STATE_READY"
    using ne by (auto simp: ready_on_def)
  have "Ready t \<in> set (the (R (RdyQ ?c (unat (t_prio (threads s t))))))" "unat (t_prio (threads s t)) < 61"
    using rdy_invD(4) [OF inv t(1)] t(2,3) by (auto simp: thread_ok_def)
  then have "unat (t_prio (threads s t)) \<in> bits_of (rdy_bitmap s ?c)" using ok by (auto simp: cpu_ok_def)
  moreover have l: "length (rdy_bitmap s ?c) = 2" using ok by (simp add: cpu_ok_def)
  ultimately obtain m where m: "acoral_find_first_bit (rdy_bitmap s ?c) 2 = Some (of_nat m)"
      "m \<in> bits_of (rdy_bitmap s ?c)" "\<forall>n \<in> bits_of (rdy_bitmap s ?c). m \<le> n"
    using find_first_bit_min [of 2 "rdy_bitmap s ?c"] by force
  have m61: "m < 61" "R (RdyQ ?c m) \<noteq> Some []" using ok m(2) by (auto simp: cpu_ok_def)
  then obtain x xs where x: "R (RdyQ ?c m) = Some (x # xs)" "in_ring s L ?c m x"
    using rdy_inv_ring [OF inv cpu m61(1)] by (metis list.set_intros(1) neq_Nil_conv)
  obtain p where p: "x = Ready p" "p \<in> ready_on s L ?c" using x(2) by (auto simp: in_ring_def ready_on_def)
  have "R (RdyQ ?c i) = Some []" if "i < m" for i
  proof (rule ccontr)
    assume "R (RdyQ ?c i) \<noteq> Some []"
    then have "i \<in> bits_of (rdy_bitmap s ?c)" using ok that m61(1) by (auto simp: cpu_ok_def)
    then show False using m(3) that by auto
  qed
  then have ch: "chosen s R p" using m61(1) x(1) p(1) by (auto simp: chosen_def)
  have "lnext (heap s) (RdyQ ?c m) = Ready p"
    using ring_next_head ringsD [OF rdy_invD(1) [OF inv] x(1)] p(1) by metis
  moreover have "unat (of_nat m :: u32) = m" using m61(1) by (simp add: unsigned_of_nat take_bit_nat_eq_self)
  ultimately have "acoral_select_thread s = Some (s\<lparr>ready_thread := (ready_thread s)(?c := p)\<rparr>)"
    using m(1) m61(1) by (simp add: acoral_select_thread_def acoral_thread_get_high_prio_def)
  then show ?thesis using p(2) ch by blast
qed

lemma chosen_highest:
  assumes inv: "rdy_inv L s R" and cpu: "unat (current_cpu s) < CFG_MAX_CPU" and ch: "chosen s R p"
    and t: "t \<in> ready_on s L (current_cpu s)"
  shows "t_prio (threads s p) \<le> t_prio (threads s t)"
proof -
  obtain pr xs where pr: "pr < 61" "R (RdyQ (current_cpu s) pr) = Some (Ready p # xs)"
      "\<forall>i<pr. R (RdyQ (current_cpu s) i) = Some []"
    using ch by (auto simp: chosen_def)
  have "in_ring s L (current_cpu s) pr (Ready p)"
    using rdy_inv_ring [OF inv cpu pr(1)] pr(2) by (metis list.set_intros(1) option.inject)
  then have "unat (t_prio (threads s p)) = pr" by (auto simp: in_ring_def)
  moreover have "Ready t \<in> set (the (R (RdyQ (current_cpu s) (unat (t_prio (threads s t))))))"
    using rdy_invD(4) [OF inv, of t] t by (auto simp: thread_ok_def ready_on_def)
  then have "pr \<le> unat (t_prio (threads s t))" using pr(3) by (metis empty_iff empty_set not_le option.sel)
  ultimately show ?thesis by (simp add: word_le_nat_alt)
qed

lemma chosen_unique: "chosen s R p \<Longrightarrow> chosen s R p' \<Longrightarrow> p = p'"
  unfolding chosen_def
  by (metis knode.inject(1) linorder_neqE_nat list.inject neq_Nil_conv option.inject)

text \<open>What a call of the scheduler may change.\<close>

definition sched_frame :: "kstate \<Rightarrow> kstate \<Rightarrow> bool" where
  "sched_frame s s' \<longleftrightarrow>
     s' = s\<lparr>threads := threads s', running_thread := running_thread s', ready_thread := ready_thread s',
            need_sched := need_sched s'\<rparr> \<and>
     (\<forall>p. threads s' p = (threads s p)\<lparr>t_state := t_state (threads s' p), move_lock := move_lock (threads s' p)\<rparr> \<and>
          (flag (t_state (threads s' p)) STATE_READY \<longleftrightarrow> flag (t_state (threads s p)) STATE_READY) \<and>
          (flag (t_state (threads s' p)) STATE_SUSPEND \<longleftrightarrow> flag (t_state (threads s p)) STATE_SUSPEND))"

lemma sched_frame_refl [simp]: "sched_frame s s"
  by (simp add: sched_frame_def)

lemma sched_frameD:
  assumes "sched_frame s s'"
  shows "heap s' = heap s" "ipcs s' = ipcs s" "rdy_bitmap s' = rdy_bitmap s" "rdy_num s' = rdy_num s"
    "current_cpu s' = current_cpu s" "sched_lock s' = sched_lock s" "critical_nesting s' = critical_nesting s"
    "intr_masked s' = intr_masked s" "mem s' = mem s" "pools s' = pools s" "ctrls s' = ctrls s" "res_word s' = res_word s"
    "ticks s' = ticks s" "ipi_cmds s' = ipi_cmds s" "intr_nesting s' = intr_nesting s" "sched_enable s' = sched_enable s"
    "vol s' = vol s" "free_res_pool s' = free_res_pool s"
proof -
  have eq: "s' = s\<lparr>threads := threads s', running_thread := running_thread s', ready_thread := ready_thread s',
      need_sched := need_sched s'\<rparr>" (is "_ = ?t")
    using assms by (simp add: sched_frame_def)
  show "heap s' = heap s" "ipcs s' = ipcs s" "rdy_bitmap s' = rdy_bitmap s" "rdy_num s' = rdy_num s"
    "current_cpu s' = current_cpu s" "sched_lock s' = sched_lock s" "critical_nesting s' = critical_nesting s"
    "intr_masked s' = intr_masked s" "mem s' = mem s" "pools s' = pools s" "ctrls s' = ctrls s" "res_word s' = res_word s"
    "ticks s' = ticks s" "ipi_cmds s' = ipi_cmds s" "intr_nesting s' = intr_nesting s" "sched_enable s' = sched_enable s"
    "vol s' = vol s" "free_res_pool s' = free_res_pool s"
    by (subst eq, simp)+
qed

lemma sched_frame_thread:
  assumes "sched_frame s s'"
  shows "t_cpu (threads s' p) = t_cpu (threads s p)" "t_prio (threads s' p) = t_prio (threads s p)"
    "flag (t_state (threads s' p)) STATE_READY = flag (t_state (threads s p)) STATE_READY"
    "flag (t_state (threads s' p)) STATE_SUSPEND = flag (t_state (threads s p)) STATE_SUSPEND"
    "t_ipc (threads s' p) = t_ipc (threads s p)" "preempt_type (threads s' p) = preempt_type (threads s p)"
proof -
  have eq: "threads s' p = (threads s p)\<lparr>t_state := t_state (threads s' p), move_lock := move_lock (threads s' p)\<rparr>"
    using assms unfolding sched_frame_def by blast
  show "t_cpu (threads s' p) = t_cpu (threads s p)" "t_prio (threads s' p) = t_prio (threads s p)"
    "t_ipc (threads s' p) = t_ipc (threads s p)" "preempt_type (threads s' p) = preempt_type (threads s p)"
    by (subst eq, simp)+
  show "flag (t_state (threads s' p)) STATE_READY = flag (t_state (threads s p)) STATE_READY"
    "flag (t_state (threads s' p)) STATE_SUSPEND = flag (t_state (threads s p)) STATE_SUSPEND"
    using assms unfolding sched_frame_def by blast+
qed

lemma sched_frame_rdy_inv: "sched_frame s s' \<Longrightarrow> rdy_inv L s' R \<longleftrightarrow> rdy_inv L s R"
  by (rule rdy_inv_cong) (simp_all add: sched_frameD sched_frame_thread)

text \<open>The switch: it returns, changes only run-time flags, and the CPU goes to the chosen thread unless the
  running thread must not be preempted by it.\<close>

lemma switch_context_ok:
  assumes inv: "rdy_inv L s R" and cpu: "unat (current_cpu s) < CFG_MAX_CPU" and ne: "ready_on s L (current_cpu s) \<noteq> {}"
  defines "prev \<equiv> cur_thread s"
  shows "\<exists>s' p. acoral_switch_context s = Some s' \<and> sched_frame s s' \<and> chosen s R p \<and>
    \<not> need_sched s' (current_cpu s) \<and>
    cur_thread s' = (if t_state (threads s prev) = STATE_EXIT \<or> can_preempt (threads s prev) (threads s p) then p else prev)"
proof -
  let ?s = "acoral_set_need_sched False s"
  have ne': "ready_on ?s L (current_cpu ?s) \<noteq> {}" using ne by (simp add: ready_on_def)
  obtain p where p: "acoral_select_thread ?s = Some (?s\<lparr>ready_thread := (ready_thread ?s)(current_cpu s := p)\<rparr>)" "chosen s R p"
    using select_thread_chosen [of L ?s R] inv cpu ne' by (auto simp: chosen_def)
  show ?thesis
    using p
    by (auto simp: acoral_switch_context_def Let_def sched_frame_def prev_def acoral_set_running_thread_def cur_thread_def
        upd_thr_def move_lock_free_def acoral_set_need_sched_def can_preempt_def)
qed

text \<open>The same for \<open>acoral_sched\<close>, which switches only when asked to, outside interrupts, with the scheduler
  unlocked and enabled, and for leaving the outermost critical section.\<close>

definition sched_due :: "kstate \<Rightarrow> bool" where
  "sched_due s \<longleftrightarrow> need_sched s (current_cpu s) \<and> hal_get_intr_nesting s = 0 \<and> \<not> sched_lock s (current_cpu s) \<and> sched_enable s"

lemma acoral_sched_eq: "acoral_sched s = (if sched_due s then acoral_switch_context s else Some s)"
  by (simp add: acoral_sched_def sched_due_def)

lemma acoral_sched_ok:
  assumes "rdy_inv L s R" "unat (current_cpu s) < CFG_MAX_CPU" "ready_on s L (current_cpu s) \<noteq> {}"
  shows "\<exists>s'. acoral_sched s = Some s' \<and> sched_frame s s'"
  using switch_context_ok [OF assms] by (auto simp: acoral_sched_eq)

lemma leave_critical_simps [simp]:
  "heap (leave_critical s) = heap s" "threads (leave_critical s) = threads s" "ipcs (leave_critical s) = ipcs s"
  "rdy_bitmap (leave_critical s) = rdy_bitmap s" "rdy_num (leave_critical s) = rdy_num s"
  "current_cpu (leave_critical s) = current_cpu s" "running_thread (leave_critical s) = running_thread s"
  "need_sched (leave_critical s) = need_sched s" "\<not> sched_lock (leave_critical s) (current_cpu s)"
  "hal_get_intr_nesting (leave_critical s) = hal_get_intr_nesting s" "sched_enable (leave_critical s) = sched_enable s"
  "critical_nesting (leave_critical s) (current_cpu s) = 0" "cur_thread (leave_critical s) = cur_thread s"
  "mem (leave_critical s) = mem s" "pools (leave_critical s) = pools s" "res_word (leave_critical s) = res_word s"
  "ipi_cmds (leave_critical s) = ipi_cmds s" "ready_on (leave_critical s) L c = ready_on s L c"
  "chosen (leave_critical s) R p = chosen s R p" "ctrls (leave_critical s) = ctrls s" "vol (leave_critical s) = vol s"
  "free_res_pool (leave_critical s) = free_res_pool s" "ticks (leave_critical s) = ticks s"
  by (simp_all add: leave_critical_def hal_get_intr_nesting_def cur_thread_def ready_on_def chosen_def)

lemma rdy_inv_leave [simp]: "rdy_inv L (leave_critical s) R \<longleftrightarrow> rdy_inv L s R"
  by (rule rdy_inv_cong) simp_all

lemma exit_critical_ok:
  assumes inv: "rdy_inv L s R" and cpu: "unat (current_cpu s) < CFG_MAX_CPU" and ne: "ready_on s L (current_cpu s) \<noteq> {}"
    and nest: "critical_nesting s (current_cpu s) = 1"
  shows "\<exists>s'. acoral_exit_critical s = Some s' \<and> sched_frame (leave_critical s) s' \<and> rdy_inv L s' R"
proof -
  obtain s' where s': "acoral_sched (leave_critical s) = Some s'" "sched_frame (leave_critical s) s'"
    using acoral_sched_ok [of L "leave_critical s" R] inv cpu ne by auto
  then show ?thesis using exit_outermost [of s] nest inv sched_frame_rdy_inv [OF s'(2)] by simp
qed

end
