(* ===== verification/Example.thy ===== *)
theory Example
  imports Sched
begin

text \<open>
  A small concrete kernel, used to show that the hypotheses of the theorems can hold: CPU 0 runs the
  idle thread at address \<open>0x100\<close> (priority 60), behind which the thread at \<open>0x180\<close> of the same priority is
  ready; the thread at \<open>0x200\<close> (priority 5) is suspended; the
  thread at \<open>0x280\<close> (priority 7) is suspended; an unlocked mutex is at \<open>0x300\<close> and a semaphore at \<open>0x340\<close>.
\<close>

definition thread0 :: thread where
  "thread0 = \<lparr>t_stack = 0, t_entry = (0, 0), stack_buttom = 0, stack_size = 0, move_lock = False, t_state = STATE_SUSPEND,
     t_prio = 0, t_cpu = 0, cpu_mask = 0, t_policy = 21, preempt_type = PREEMPT_LOCAL, t_ipc = 0, t_delay = 0, t_time = 0,
     console_id = 0, deal_hook = 0, release_hook = 0, private_data = 0, t_data = 0\<rparr>"

definition ipc0 :: ipc where
  "ipc0 = \<lparr>i_type = 0, i_lock = False, i_count = 255, i_number = 0, i_data = 0\<rparr>"

definition buddy0 :: buddy where
  "buddy0 = \<lparr>free_list = [], bitmap = [], free_cur = [], num_l = [], level = 0, mem_ok = False, start_adr = 0, end_adr = 0,
     block_num = 0, free_num = 0, mem_blocks = [], mem_lock = False\<rparr>"

definition ex_R :: "knode \<rightharpoonup> knode list" where
  "ex_R x = (case x of
       RdyQ c pr \<Rightarrow> if unat c < 2 \<and> pr < 61 then Some (if c = 0 \<and> pr = 60 then [Ready 0x100, Ready 0x180] else []) else None
     | DelayQ \<Rightarrow> Some [] | ThreadsQ \<Rightarrow> Some [] | ReleaseQ \<Rightarrow> Some [] | PeriodQ \<Rightarrow> Some []
     | WaitQ p \<Rightarrow> Some []
     | _ \<Rightarrow> None)"

definition ex_heap :: "knode lheap" where
  "ex_heap = \<lparr>lnext = (\<lambda>x. x)(RdyQ 0 60 := Ready 0x100, Ready 0x100 := Ready 0x180, Ready 0x180 := RdyQ 0 60),
     lprev = (\<lambda>x. x)(RdyQ 0 60 := Ready 0x180, Ready 0x100 := RdyQ 0 60, Ready 0x180 := Ready 0x100),
     lvalue = (\<lambda>_. 0)(Pending 0x200 := 5, Pending 0x280 := 7), llock = (\<lambda>_. False), qlock = (\<lambda>_. False)\<rparr>"

definition ex_threads :: "ptr \<Rightarrow> thread" where
  "ex_threads = (\<lambda>_. thread0)(0x100 := thread0\<lparr>t_prio := 60, t_state := STATE_READY OR STATE_RUNNING\<rparr>,
     0x180 := thread0\<lparr>t_prio := 60, t_state := STATE_READY\<rparr>,
     0x200 := thread0\<lparr>t_prio := 5\<rparr>, 0x280 := thread0\<lparr>t_prio := 7\<rparr>)"

definition ex_live :: "ptr set" where
  "ex_live = {0x100, 0x180, 0x200, 0x280}"

definition ex_kernel :: kstate where
  "ex_kernel = \<lparr>current_cpu = 0, heap = ex_heap, threads = ex_threads, res_word = (\<lambda>_. 0),
     ipcs = (\<lambda>_. ipc0)(0x340 := ipc0\<lparr>i_type := 1, i_count := 1\<rparr>),
     mpcps = (\<lambda>_. \<lparr>m_sem = 0, m_type = 0, m_cpu = 0, m_prio_ceiling = 0, m_prio_switch = 0, m_lock = False\<rparr>),
     dpcps = (\<lambda>_. \<lparr>d_sem = 0, d_cpu = 0, d_type = 0, d_prio_ceiling = 0, d_prio_switch = 0, d_data = 0\<rparr>),
     need_sched = (\<lambda>_. False), sched_lock = (\<lambda>_. False), critical_nesting = (\<lambda>_. 0), intr_masked = (\<lambda>_. False),
     intr_nesting = (\<lambda>_. 0), irq_switch = (\<lambda>_. False), sched_enable = True,
     running_thread = (\<lambda>_. 0)(0 := 0x100), ready_thread = (\<lambda>_. 0)(0 := 0x100),
     rdy_num = (\<lambda>_. 0)(0 := 2), rdy_bitmap = (\<lambda>_. [0, 0])(0 := [0, push_bit 28 1]),
     pools = (\<lambda>_. \<lparr>base_adr = PNull, res_free = 0, p_id = 0, p_size = 0, p_num = 0, p_free_num = 0, p_ctrl = ThreadCtrl, p_lock = False\<rparr>),
     free_res_pool = PNull,
     ctrls = (\<lambda>_. \<lparr>c_type = 0, c_size = 0, num_per_pool = 0, c_num = 0, max_pools = 0, c_lock = False\<rparr>),
     mem = buddy0, vol = \<lparr>top_p = 0, down_p = 0, freep_p = 0, mem_state = False, words = (\<lambda>_. 0)\<rparr>,
     ipi_cmds = (\<lambda>_. \<lparr>cmd_lock = False, cmd_code = 0, cmd_thread = 0, cmd_data = 0\<rparr>), ipi_sent = (\<lambda>_. 0),
     ticks = 0, daemon_id = 0,
     periods = (\<lambda>_. \<lparr>pp_time = 0, pp_route = 0, pp_args = 0\<rparr>),
     timeds = (\<lambda>_. \<lparr>start_time = [], tp_ipc = [], tp_ipc_p = 0, section_num = 0, frequency = 0, cur_section = 0, run_num = 0, tp_route = 0,
                  section_route = 0, section_args = 0, tp_args = 0\<rparr>),
     last_timed = (\<lambda>_. 0), mpcp_prio = (\<lambda>_. 61), dpcp_prio = (\<lambda>_ _. 61), active_map = [0]\<rparr>"

lemma ex_fields [simp]:
  "current_cpu ex_kernel = 0" "heap ex_kernel = ex_heap" "threads ex_kernel = ex_threads" "intr_nesting ex_kernel = (\<lambda>_. 0)"
  "critical_nesting ex_kernel = (\<lambda>_. 0)" "sched_lock ex_kernel = (\<lambda>_. False)" "need_sched ex_kernel = (\<lambda>_. False)"
  "running_thread ex_kernel 0 = 0x100" "sched_enable ex_kernel" "cur_thread ex_kernel = 0x100"
  by (simp_all add: ex_kernel_def cur_thread_def)

lemma ex_rings: "rings ex_heap ex_R"
proof -
  have "ring ex_heap q xs" if "ex_R q = Some xs" for q xs
    using that by (cases q) (auto simp: ex_R_def ring_def ex_heap_def split: if_splits)
  moreover have "set (q # xs) \<inter> set (r # ys) = {}" if "ex_R q = Some xs" "ex_R r = Some ys" "q \<noteq> r" for q xs r ys
    using that by (cases q; cases r) (auto simp: ex_R_def split: if_splits)
  ultimately show ?thesis unfolding rings_def by (auto simp: ex_heap_def)
qed

lemma ex_bits: "bits_of [0, push_bit 28 1] = {60}" "bits_of [0, 0] = {}"
proof -
  have b28: "bit (push_bit 28 1 :: u32) i \<longleftrightarrow> i = 28" for i using bit_single [of 28 i] by simp
  have "n \<in> bits_of [0, push_bit 28 1] \<longleftrightarrow> n = 60" for n
  proof -
    consider "n div 32 = 0" | "n div 32 = 1" | "2 \<le> n div 32" by linarith
    then show ?thesis
    proof cases
      case 2
      then have "n = 60 \<longleftrightarrow> n mod 32 = 28" using div_mod_32_eq [of n 60] by auto
      then show ?thesis using 2 b28 [of "n mod 32"] by (simp add: bits_of_def)
    qed (auto simp: bits_of_def)
  qed
  then show "bits_of [0, push_bit 28 1] = {60}" by blast
  have "[0, 0] ! i = (0::u32)" if "i < 2" for i using that by (auto simp: less_2_cases_iff)
  then show "bits_of [0, 0] = {}" by (auto simp: bits_of_def)
qed

lemma ex_free: "ex_R r = Some zs \<Longrightarrow> x \<in> set zs \<Longrightarrow> x = Ready 0x100 \<or> x = Ready 0x180"
  by (cases r) (auto simp: ex_R_def split: if_splits)

lemma ex_inv: "rdy_inv ex_live ex_kernel ex_R"
proof -
  have "rdy_count ex_R cpu = (if cpu = 0 then 2 else 0)" if "unat cpu < 2" for cpu
  proof -
    have "rdy_count ex_R cpu = (\<Sum>pr<(61::nat). if pr = 60 then (if cpu = 0 then 2 else 0) else 0)"
      unfolding rdy_count_def prio_consts by (rule sum.cong) (use that in \<open>auto simp: ex_R_def\<close>)
    then show ?thesis by (simp add: sum.delta)
  qed
  moreover have "cpu_ok ex_live ex_kernel ex_R cpu" if "unat cpu < 2" "rdy_count ex_R cpu = (if cpu = 0 then 2 else 0)" for cpu
    using that ex_bits
    by (auto simp: cpu_ok_def ex_kernel_def ex_R_def in_ring_def ex_live_def ex_threads_def thread0_def flag_bits state_const_bits bit_or_iff
        split: if_splits)
  moreover have "thread_ok ex_kernel ex_R p" if "p \<in> ex_live" for p
    using that
    by (auto simp: thread_ok_def ex_live_def ex_threads_def thread0_def CFG_MAX_CPU_def flag_bits state_const_bits bit_or_iff
        free_node_def ex_R_def dest: ex_free split: if_splits knode.splits)
  ultimately show ?thesis using ex_rings by (simp add: rdy_inv_def CFG_MAX_CPU_def) (simp add: ex_heap_def)
qed

lemma ex_ready_on: "ready_on ex_kernel ex_live 0 = {0x100, 0x180}"
  by (auto simp: ready_on_def ex_live_def ex_threads_def thread0_def)

lemma ex_ready: "ready_on ex_kernel ex_live 0 \<noteq> {}"
  by (simp add: ex_ready_on)

end
