(* ===== verification/Sched_Props.thy ===== *)
theory Sched_Props
  imports Example
begin

text \<open>
  Properties of the scheduler and of its ready queues, over the lemmas of theory \<open>Sched\<close>.
\<close>

text \<open>Leaving a number of critical sections one after the other.\<close>

fun exits :: "nat \<Rightarrow> kop" where
  "exits 0 s = Some s"
| "exits (Suc n) s = Option.bind (acoral_exit_critical s) (exits n)"

text \<open>C1. When a thread of the executing CPU is ready, \<open>acoral_select_thread\<close> returns and sets the ready thread to the
  thread at the head of the lowest-numbered non-empty queue: it is ready, belongs to this CPU, and no ready
  thread of this CPU has a higher priority (a smaller number).\<close>

theorem select_thread_highest:
  assumes "rdy_inv L s R" "unat (current_cpu s) < CFG_MAX_CPU" "ready_on s L (current_cpu s) \<noteq> {}"
  shows "\<exists>p. acoral_select_thread s = Some (s\<lparr>ready_thread := (ready_thread s)(current_cpu s := p)\<rparr>) \<and>
    p \<in> ready_on s L (current_cpu s) \<and> (\<forall>t \<in> ready_on s L (current_cpu s). t_prio (threads s p) \<le> t_prio (threads s t)) \<and>
    (\<exists>xs. R (RdyQ (current_cpu s) (unat (t_prio (threads s p)))) = Some (Ready p # xs))"
proof -
  obtain p where p: "acoral_select_thread s = Some (s\<lparr>ready_thread := (ready_thread s)(current_cpu s := p)\<rparr>)"
      "chosen s R p" "p \<in> ready_on s L (current_cpu s)"
    using select_thread_chosen [OF assms] by blast
  obtain pr xs where pr: "pr < 61" "R (RdyQ (current_cpu s) pr) = Some (Ready p # xs)" using p(2) by (auto simp: chosen_def)
  have "in_ring s L (current_cpu s) pr (Ready p)"
    using rdy_inv_ring [OF assms(1,2) pr(1)] pr(2) by (metis list.set_intros(1) option.inject)
  then have "unat (t_prio (threads s p)) = pr" by (auto simp: in_ring_def)
  then show ?thesis using p chosen_highest [OF assms(1,2) p(2)] pr(2) by blast
qed

theorem select_thread_highest_witness:
  "\<exists>p. acoral_select_thread ex_kernel = Some (ex_kernel\<lparr>ready_thread := (ready_thread ex_kernel)(0 := p)\<rparr>) \<and>
     p \<in> ready_on ex_kernel ex_live 0"
  using select_thread_highest [OF ex_inv] ex_ready by (auto simp: CFG_MAX_CPU_def)

text \<open>C8. Making a thread ready that is not: \<open>acoral_sched_rdyqueue_add\<close> returns, appends the thread to the queue of its
  priority on its CPU (first come, first served within a priority), keeps every other queue, keeps bitmap,
  counter and queues consistent, clears the suspended and sets the ready flag, and asks for rescheduling.\<close>

theorem rdyqueue_add_appends:
  assumes "rdy_inv L s R" "p \<in> L" "\<not> flag (t_state (threads s p)) STATE_READY"
  shows "\<exists>s' xs. acoral_sched_rdyqueue_add p s = Some s' \<and>
    R (RdyQ (t_cpu (threads s p)) (unat (t_prio (threads s p)))) = Some xs \<and>
    rdy_inv L s' (R(RdyQ (t_cpu (threads s p)) (unat (t_prio (threads s p))) \<mapsto> xs @ [Ready p])) \<and>
    flag (t_state (threads s' p)) STATE_READY \<and> \<not> flag (t_state (threads s' p)) STATE_SUSPEND \<and>
    (\<forall>t. t \<noteq> p \<longrightarrow> threads s' t = threads s t) \<and> need_sched s' (current_cpu s)"
  using rdyqueue_add_inv [OF assms]
  by (auto simp: rdy_added_def upd_thr_def set_res_cpu_def acoral_set_need_sched_def Let_def)

theorem rdyqueue_add_appends_witness:
  "\<exists>s'. acoral_sched_rdyqueue_add 0x200 ex_kernel = Some s' \<and>
     rdy_inv ex_live s' (ex_R(RdyQ 0 5 \<mapsto> [Ready 0x200])) \<and> flag (t_state (threads s' 0x200)) STATE_READY"
proof -
  have "0x200 \<in> ex_live" "\<not> flag (t_state (threads ex_kernel 0x200)) STATE_READY" "t_cpu (threads ex_kernel 0x200) = 0"
    "t_prio (threads ex_kernel 0x200) = 5" "ex_R (RdyQ 0 5) = Some []"
    by (simp_all add: ex_live_def ex_threads_def thread0_def ex_R_def)
  then show ?thesis using rdyqueue_add_appends [OF ex_inv, of "0x200"] by auto
qed

text \<open>C9. Taking a ready thread off: \<open>acoral_sched_rdyqueue_del\<close> returns, removes exactly this thread from the queue of
  its priority, keeps bitmap, counter and queues consistent, marks the thread suspended and asks for
  rescheduling.\<close>

theorem rdyqueue_del_removes:
  assumes "rdy_inv L s R" "p \<in> L" "flag (t_state (threads s p)) STATE_READY"
  shows "\<exists>s' xs ys. acoral_sched_rdyqueue_del p s = Some s' \<and>
    R (RdyQ (t_cpu (threads s p)) (unat (t_prio (threads s p)))) = Some (xs @ Ready p # ys) \<and>
    rdy_inv L s' (R(RdyQ (t_cpu (threads s p)) (unat (t_prio (threads s p))) \<mapsto> xs @ ys)) \<and>
    \<not> flag (t_state (threads s' p)) STATE_READY \<and> flag (t_state (threads s' p)) STATE_SUSPEND \<and>
    (\<forall>t. t \<noteq> p \<longrightarrow> threads s' t = threads s t) \<and> need_sched s' (current_cpu s)"
  using rdyqueue_del_inv [OF assms]
  by (fastforce simp: rdy_deleted_def upd_thr_def acoral_set_need_sched_def Let_def)

theorem rdyqueue_del_removes_witness:
  "\<exists>s' xs ys. acoral_sched_rdyqueue_del 0x100 ex_kernel = Some s' \<and>
     rdy_inv ex_live s' (ex_R(RdyQ 0 60 \<mapsto> xs @ ys)) \<and> flag (t_state (threads s' 0x100)) STATE_SUSPEND"
proof -
  have "0x100 \<in> ex_live" "flag (t_state (threads ex_kernel 0x100)) STATE_READY" "t_cpu (threads ex_kernel 0x100) = 0"
    "t_prio (threads ex_kernel 0x100) = 60"
    by (simp_all add: ex_live_def ex_threads_def thread0_def)
  then show ?thesis using rdyqueue_del_removes [OF ex_inv, of "0x100"] by auto
qed

text \<open>C2. The context switch returns, clears the request, changes nothing but run-time flags, and gives the CPU to the
  highest-priority ready thread, unless the running thread is not suspended and must not be preempted by it: a
  timed thread by nobody, a holder of a global resource not by a local thread. An exited thread always gives up
  the CPU.\<close>

theorem switch_context_runs_chosen:
  assumes "rdy_inv L s R" "unat (current_cpu s) < CFG_MAX_CPU" "ready_on s L (current_cpu s) \<noteq> {}"
  shows "\<exists>s' p. acoral_switch_context s = Some s' \<and> sched_frame s s' \<and> rdy_inv L s' R \<and> \<not> need_sched s' (current_cpu s) \<and>
    p \<in> ready_on s L (current_cpu s) \<and> (\<forall>t \<in> ready_on s L (current_cpu s). t_prio (threads s p) \<le> t_prio (threads s t)) \<and>
    cur_thread s' = (if t_state (threads s (cur_thread s)) = STATE_EXIT \<or> flag (t_state (threads s (cur_thread s))) STATE_SUSPEND \<or>
                        preempt_type (threads s (cur_thread s)) \<noteq> PREEMPT_TIMED \<and>
                        \<not> (preempt_type (threads s (cur_thread s)) = PREEMPT_GLOBAL \<and> preempt_type (threads s p) = PREEMPT_LOCAL)
                     then p else cur_thread s)"
proof -
  obtain s' p where s': "acoral_switch_context s = Some s'" "sched_frame s s'" "chosen s R p" "\<not> need_sched s' (current_cpu s)"
    "cur_thread s' = (if t_state (threads s (cur_thread s)) = STATE_EXIT \<or> can_preempt (threads s (cur_thread s)) (threads s p)
                     then p else cur_thread s)"
    using switch_context_ok [OF assms] by blast
  obtain p' where "chosen s R p'" "p' \<in> ready_on s L (current_cpu s)" using select_thread_chosen [OF assms] by blast
  then have p: "p \<in> ready_on s L (current_cpu s)" using chosen_unique s'(3) by metis
  have "can_preempt t u \<longleftrightarrow> flag (t_state t) STATE_SUSPEND \<or>
      preempt_type t \<noteq> PREEMPT_TIMED \<and> \<not> (preempt_type t = PREEMPT_GLOBAL \<and> preempt_type u = PREEMPT_LOCAL)" for t u
    unfolding can_preempt_def by blast
  then show ?thesis
    using s' p sched_frame_rdy_inv [OF s'(2)] assms(1) chosen_highest [OF assms(1,2) s'(3)] by (intro exI [of _ s'] exI [of _ p]) simp
qed

theorem switch_context_runs_chosen_witness:
  "\<exists>s'. acoral_switch_context ex_kernel = Some s' \<and> rdy_inv ex_live s' ex_R"
  using switch_context_runs_chosen [OF ex_inv] ex_ready by (auto simp: CFG_MAX_CPU_def)

text \<open>Critical sections nest: entering \<open>n\<close> of them from the outside and leaving all but one is the same as entering
  one; in between nothing is scheduled and interrupts stay masked.\<close>

theorem critical_sections_nest:
  assumes "critical_nesting s (current_cpu s) = 0" "0 < n" "n < 2 ^ 32"
  shows "exits (n - 1) ((acoral_enter_critical ^^ n) s) = Some (acoral_enter_critical s)"
proof -
  let ?c = "current_cpu s" and ?e = "acoral_enter_critical s"
  define N where "N k = ?e\<lparr>critical_nesting := (critical_nesting s)(?c := k)\<rparr>" for k
  have base: "N 1 = ?e"
    using enter_critical_simps(10) [of s] assms(1) unfolding N_def
    by (metis (no_types, lifting) add_0 kstate.surjective kstate.update_convs(10))
  have twice: "acoral_enter_critical (N k) = N (k + 1)" for k
    by (simp add: N_def acoral_enter_critical_def hal_intr_disable_save_def Let_def)
  have leave: "acoral_exit_critical (N k) = Some (N (k - 1))" if "1 < k" for k
    using exit_nested [of "N k"] that by (simp add: N_def)
  have "(acoral_enter_critical ^^ Suc m) s = N (of_nat (Suc m))" for m
    by (induction m) (simp_all add: base twice add.commute)
  moreover have "exits m (N (of_nat (Suc m))) = Some ?e" if "Suc m < 2 ^ 32" for m
    using that
  proof (induction m)
    case (Suc m)
    have "(1::u32) < of_nat (Suc (Suc m))"
      using Suc.prems by (simp add: word_less_nat_alt unsigned_of_nat take_bit_nat_eq_self del: of_nat_Suc)
    then show ?case using Suc leave [of "of_nat (Suc (Suc m))"] by simp
  qed (simp add: base)
  ultimately show ?thesis using assms(2,3) by (cases n) auto
qed

theorem critical_sections_nest_witness:
  "exits 2 ((acoral_enter_critical ^^ 3) ex_kernel) = Some (acoral_enter_critical ex_kernel)"
  using critical_sections_nest [of ex_kernel 3] by simp

end
