(* ===== verification/Ticklist.thy ===== *)
theory Ticklist
  imports Sched
begin

text \<open>
  Queues of difference values beside the ready queues: what an insertion, a removal and a tick do to the due times of the members and
  to the invariant of the ready queues. The operations that the delay queue and the queue of periodic threads share are a locale.
\<close>

section \<open>Other rings\<close>

lemma rdy_inv_heap:
  "rdy_inv L s R \<Longrightarrow> rings h R \<Longrightarrow> qlock h = (\<lambda>_. False) \<Longrightarrow> rdy_inv L (s\<lparr>heap := h\<rparr>) R"
  by (simp add: rdy_inv_def cpu_ok_def thread_ok_def in_ring_def)

fun is_rdy :: "knode \<Rightarrow> bool" where
  "is_rdy (Ready _) = True"
| "is_rdy (RdyQ _ _) = True"
| "is_rdy _ = False"

text \<open>Queues of other kinds may change freely.\<close>

lemma rdy_inv_other:
  assumes "rdy_inv L s R" "rings h (R(q \<mapsto> ys))" "qlock h = (\<lambda>_. False)" "\<not> is_rdy q" "\<forall>x \<in> set ys. \<not> is_rdy x"
  shows "rdy_inv L (s\<lparr>heap := h\<rparr>) (R(q \<mapsto> ys))"
proof -
  have q: "RdyQ c pr \<noteq> q" "Ready p \<noteq> q" "Ready p \<notin> set ys" for c pr p using assms(4,5) by auto
  have "free_node (R(q \<mapsto> ys)) (Ready p)" if "free_node R (Ready p)" for p
    using free_node_upd [OF that] q by (metis)
  moreover have "rdy_count (R(q \<mapsto> ys)) c = rdy_count R c" for c using q(1) by (simp add: rdy_count_def)
  ultimately show ?thesis
    using assms(1-3) q unfolding rdy_inv_def cpu_ok_def thread_ok_def in_ring_def by auto
qed

lemma vlist_init_free:
  assumes R: "rings h R" and n: "free_node R n"
  shows "rings (acoral_vlist_init n v h) R"
proof -
  have "ring (acoral_vlist_init n v h) q xs" if "R q = Some xs" for q xs
  proof -
    have "ring (acoral_vlist_init n v h) q xs \<longleftrightarrow> ring h q xs"
      by (rule ring_frame) (use free_nodeD [OF n that] in \<open>auto simp: acoral_vlist_init_def heap_upd_defs\<close>)
    then show ?thesis using ringsD [OF R that] by simp
  qed
  moreover have "llock (acoral_vlist_init n v h) = (\<lambda>_. False)"
    using rings_llock [OF R] by (auto simp: acoral_vlist_init_def heap_upd_defs fun_eq_iff)
  ultimately show ?thesis using R unfolding rings_def by blast
qed

lemma list_init_free:
  assumes R: "rings h R" and n: "free_node R n"
  shows "rings (acoral_list_init n h) R"
proof -
  have "ring (acoral_list_init n h) q xs" if "R q = Some xs" for q xs
  proof -
    have "ring (acoral_list_init n h) q xs \<longleftrightarrow> ring h q xs"
      by (rule ring_frame) (use free_nodeD [OF n that] in \<open>auto simp: acoral_list_init_def heap_upd_defs\<close>)
    then show ?thesis using ringsD [OF R that] by simp
  qed
  moreover have "llock (acoral_list_init n h) = (\<lambda>_. False)"
    using rings_llock [OF R] by (auto simp: acoral_list_init_def heap_upd_defs fun_eq_iff)
  ultimately show ?thesis using R unfolding rings_def by blast
qed

section \<open>Due times\<close>

lemma fst_set_due [simp]: "fst ` set (due v acc xs) = set xs"
  by (metis list.set_map map_fst_due)

lemma set_timed_ins: "fst ` set (timed_ins ds n t) = insert n (fst ` set ds)"
proof -
  have "set ds = set (takeWhile (\<lambda>d. snd d \<le> t) ds) \<union> set (dropWhile (\<lambda>d. snd d \<le> t) ds)"
    by (metis set_append takeWhile_dropWhile_id)
  then show ?thesis unfolding timed_ins_def by (auto simp del: set_takeWhileD)
qed

lemma due_zero: "\<forall>x \<in> set xs. v x = 0 \<Longrightarrow> due v acc xs = map (\<lambda>x. (x, acc)) xs"
  by (induction xs arbitrary: acc) auto

lemma ticks_ok_subset: "ticks_ok v xs \<Longrightarrow> set ys \<subseteq> set xs \<Longrightarrow> ticks_ok v ys"
  by (auto simp: ticks_ok_def)

lemma sum_list_zero: "\<forall>x \<in> set xs. f x = (0::int) \<Longrightarrow> sum_list (map f xs) = 0"
  by (induction xs) auto

lemma due_ge: "ticks_ok v xs \<Longrightarrow> (y, t) \<in> set (due v acc (x # xs)) \<Longrightarrow> acc + v x \<le> t"
proof (induction xs arbitrary: acc x)
  case (Cons z xs)
  then have "0 \<le> v z" "ticks_ok v xs" by (simp_all add: ticks_ok_def)
  then show ?case using Cons.IH [of "acc + v x" z] Cons.prems(2) by auto
qed simp

lemma due_dec_head: "distinct (x # xs) \<Longrightarrow> due (v(x := v x - d)) acc (x # xs) = map (\<lambda>(y, t). (y, t - d)) (due v acc (x # xs))"
proof -
  assume "distinct (x # xs)"
  then have "due (v(x := v x - d)) a xs = due v a xs" for a by (intro due_cong) auto
  then show ?thesis using due_shift [of v "acc + v x" "- d" xs] by (simp add: algebra_simps)
qed

text \<open>One tick off the head of a difference list: which members become due, and when the others are.\<close>

lemma tick_head_split:
  assumes "xs \<noteq> []" "distinct xs" "ticks_ok v xs"
  defines "d \<equiv> (if 0 < v (hd xs) then 1 else 0 :: int)"
  defines "w \<equiv> v(hd xs := v (hd xs) - d)"
  shows "\<exists>ws rs. xs = ws @ rs \<and> (\<forall>x \<in> set ws. w x = 0) \<and> (rs \<noteq> [] \<longrightarrow> 0 < w (hd rs)) \<and> ticks_ok w xs \<and>
    (\<forall>(x, t) \<in> set (take (length ws) (due v 0 xs)). t = d) \<and> (\<forall>(x, t) \<in> set (drop (length ws) (due v 0 xs)). d < t) \<and>
    due w 0 rs = map (\<lambda>(x, t). (x, t - d)) (drop (length ws) (due v 0 xs))"
proof -
  let ?D = "due v 0 xs"
  obtain x0 xs' where xs: "xs = x0 # xs'" using assms(1) by (cases xs) auto
  have f0: "0 \<le> v x0" "v x0 < 2 ^ 31" using assms(3) by (simp_all add: xs ticks_ok_def)
  have w0: "0 \<le> w x" if "x \<in> set xs" for x using assms(3) that f0 by (auto simp: ticks_ok_def d_def w_def xs)
  have wok: "ticks_ok w xs" using assms(3) f0 by (auto simp: ticks_ok_def d_def w_def xs)
  define ws where "ws = takeWhile (\<lambda>x. w x \<le> 0) xs"
  define rs where "rs = dropWhile (\<lambda>x. w x \<le> 0) xs"
  have split: "xs = ws @ rs" by (simp add: ws_def rs_def)
  have wz: "\<forall>x \<in> set ws. w x = 0"
  proof
    fix x assume x: "x \<in> set ws"
    have "x \<in> set xs \<and> w x \<le> 0" using set_takeWhileD [OF x [unfolded ws_def]] .
    then show "w x = 0" using w0 [of x] by simp
  qed
  have rp: "rs \<noteq> [] \<longrightarrow> 0 < w (hd rs)" using hd_dropWhile [of "\<lambda>x. w x \<le> 0" xs] by (force simp: rs_def)
  have dw: "due w 0 xs = map (\<lambda>(x, t). (x, t - d)) ?D"
    using due_dec_head [of x0 xs' v d 0] assms(2) by (simp add: xs w_def)
  have sw: "sum_list (map w ws) = 0" by (rule sum_list_zero [OF wz])
  have dsp: "due w 0 xs = map (\<lambda>x. (x, 0)) ws @ due w 0 rs"
    using due_zero [OF wz] sw by (simp add: split due_append)
  have eq: "map (\<lambda>(x, t). (x, t - d)) ?D = map (\<lambda>x. (x, 0)) ws @ due w 0 rs"
    using dw dsp by (rule trans [OF sym])
  have tk: "map (\<lambda>(x, t). (x, t - d)) (take (length ws) ?D) = map (\<lambda>x. (x, 0)) ws"
    "map (\<lambda>(x, t). (x, t - d)) (drop (length ws) ?D) = due w 0 rs"
    unfolding take_map [symmetric] drop_map [symmetric] eq by simp_all
  have img: "(x, t) \<in> set E \<Longrightarrow> (x, t - d) \<in> set (map (\<lambda>(x, t). (x, t - d)) E)" for x t and E :: "('a \<times> int) list"
    using image_eqI [of "(x, t - d)" "\<lambda>(x, t). (x, t - d)" "(x, t)" "set E"] by simp
  have "t = d" if "(x, t) \<in> set (take (length ws) ?D)" for x t
    using img [OF that] unfolding tk(1) by auto
  moreover have "d < t" if "(x, t) \<in> set (drop (length ws) ?D)" for x t
  proof -
    have "(x, t - d) \<in> set (due w 0 rs)" using img [OF that] unfolding tk(2) .
    moreover have "set (tl rs) \<subseteq> set xs" using split by (cases rs) auto
    then have "ticks_ok w (tl rs)" by (rule ticks_ok_subset [OF wok])
    ultimately show ?thesis using rp due_ge [of w "tl rs" x "t - d" 0 "hd rs"] by (cases rs) auto
  qed
  ultimately show ?thesis using split wz rp wok tk(2) by (intro exI [of _ ws] exI [of _ rs] conjI) auto
qed

lemma tick_head_split_map:
  assumes "ps \<noteq> []" "distinct (map f ps)" "ticks_ok v (map f ps)"
  defines "d \<equiv> (if 0 < v (f (hd ps)) then 1 else 0 :: int)"
  defines "w \<equiv> v(f (hd ps) := v (f (hd ps)) - d)"
  shows "\<exists>ws rs. ps = ws @ rs \<and> (\<forall>p \<in> set ws. w (f p) = 0) \<and> (rs \<noteq> [] \<longrightarrow> 0 < w (f (hd rs))) \<and> ticks_ok w (map f ps) \<and>
    (\<forall>(x, t) \<in> set (take (length ws) (due v 0 (map f ps))). t = d) \<and>
    (\<forall>(x, t) \<in> set (drop (length ws) (due v 0 (map f ps))). d < t) \<and>
    due w 0 (map f rs) = map (\<lambda>(x, t). (x, t - d)) (drop (length ws) (due v 0 (map f ps)))"
proof -
  have ne: "map f ps \<noteq> []" and hf: "hd (map f ps) = f (hd ps)" using assms(1) by (simp_all add: hd_map)
  obtain ws' rs' where sp: "map f ps = ws' @ rs'" "\<forall>x \<in> set ws'. w x = 0" "rs' \<noteq> [] \<longrightarrow> 0 < w (hd rs')" "ticks_ok w (map f ps)"
      "\<forall>(x, t) \<in> set (take (length ws') (due v 0 (map f ps))). t = d" "\<forall>(x, t) \<in> set (drop (length ws') (due v 0 (map f ps))). d < t"
      "due w 0 rs' = map (\<lambda>(x, t). (x, t - d)) (drop (length ws') (due v 0 (map f ps)))"
    using tick_head_split [OF ne assms(2,3)] unfolding hf d_def [symmetric] w_def [symmetric] by blast
  obtain ws rs where split: "ps = ws @ rs" "map f ws = ws'" "map f rs = rs'"
    using map_eq_append_conv [of f ps ws' rs'] sp(1) by blast
  have rp: "rs \<noteq> [] \<longrightarrow> 0 < w (f (hd rs))" using sp(3) unfolding split(3) [symmetric] by (simp add: hd_map)
  have ln: "length ws' = length ws" unfolding split(2) [symmetric] by simp
  show ?thesis
    using split(1) sp(2,4-7) rp unfolding ln unfolding split(2,3) [symmetric]
    by (intro exI [of _ ws] exI [of _ rs] conjI) simp_all
qed

section \<open>The interface of a tick list\<close>

text \<open>A queue of difference values whose members are nodes of threads, apart from the ready queues. The delay queue and the queue of
  the periodic threads are such queues; their handlers enter a thread at its due time, take threads out and count down the
  head.\<close>

locale tick_list =
  fixes q :: knode and node :: "ptr \<Rightarrow> knode"
  assumes q_other: "\<not> is_rdy q" and node_other: "\<not> is_rdy (node p)" and node_inj: "inj node"
begin

lemma nodes_other: "\<forall>x \<in> set (map node ps). \<not> is_rdy x"
  using node_other by auto

lemma enter:
  assumes inv: "rdy_inv L s R" and q: "R q = Some (map node ps)" "ticks_ok (lvalue (heap s)) (map node ps)"
    and fr: "free_node R (node p)" and t: "0 \<le> t" "t < 2 ^ 31"
  shows "\<exists>h ps'. acoral_tick_queue_add q (node p) (acoral_vlist_init (node p) t (heap s)) = Some h \<and>
    rdy_inv L (s\<lparr>heap := h\<rparr>) (R(q \<mapsto> map node ps')) \<and>
    due (lvalue h) 0 (map node ps') = timed_ins (due (lvalue (heap s)) 0 (map node ps)) (node p) t \<and>
    ticks_ok (lvalue h) (map node ps') \<and> set ps' = insert p (set ps)"
proof -
  let ?h = "acoral_vlist_init (node p) t (heap s)"
  have "s32 t = t" by (rule s32_id [OF order_trans [of _ 0] t(2)]) (use t(1) in simp_all)
  then have v: "lvalue ?h = (lvalue (heap s))(node p := t)" "qlock ?h = qlock (heap s)"
    by (simp_all add: acoral_vlist_init_def heap_upd_defs)
  have nin: "node p \<notin> set (q # map node ps)" by (rule free_nodeD [OF fr q(1)])
  have R1: "rings ?h R" by (rule vlist_init_free [OF rdy_invD(1) [OF inv] fr])
  have tk: "ticks_ok (lvalue ?h) (node p # map node ps)" using q(2) t nin by (auto simp: ticks_ok_def v(1))
  obtain h ys where h: "acoral_tick_queue_add q (node p) ?h = Some h" "rings h (R(q \<mapsto> ys))"
      "due (lvalue h) 0 ys = timed_ins (due (lvalue ?h) 0 (map node ps)) (node p) (lvalue ?h (node p))"
      "ticks_ok (lvalue h) ys" "qlock h = qlock ?h"
    using tick_add_due [OF R1 q(1) _ fr tk] rdy_invD(2) [OF inv] v(2) by auto
  have "due (lvalue ?h) 0 (map node ps) = due (lvalue (heap s)) 0 (map node ps)" by (rule due_cong) (use nin v(1) in \<open>metis fun_upd_other list.set_intros(2)\<close>)
  then have due: "due (lvalue h) 0 ys = timed_ins (due (lvalue (heap s)) 0 (map node ps)) (node p) t" using h(3) v(1) by simp
  have "fst ` set (due (lvalue h) 0 ys) = fst ` set (timed_ins (due (lvalue (heap s)) 0 (map node ps)) (node p) t)" using due by simp
  then have ys: "set ys = insert (node p) (node ` set ps)" by (simp add: set_timed_ins)
  then have "\<forall>y \<in> set ys. \<exists>x. y = node x" by auto
  then obtain ps' where ps': "ys = map node ps'" by (metis ex_map_conv)
  have "node ` set ps' = node ` insert p (set ps)" using ys by (simp add: ps')
  then have "set ps' = insert p (set ps)" using node_inj by (metis inj_image_eq_iff)
  moreover have "rdy_inv L (s\<lparr>heap := h\<rparr>) (R(q \<mapsto> map node ps'))"
    by (rule rdy_inv_other [OF inv]) (use h(2,5) v(2) rdy_invD(2) [OF inv] q_other node_other in \<open>auto simp: ps' fun_eq_iff\<close>)
  ultimately show ?thesis using h(1,4) due by (auto simp: ps')
qed

lemma leave:
  assumes inv: "rdy_inv L s R" and q: "R q = Some (map node (p # ps))"
  shows "\<exists>h. acoral_tick_queue_del q (node p) (heap s) = Some h \<and> rdy_inv L (s\<lparr>heap := h\<rparr>) (R(q \<mapsto> map node ps)) \<and>
    free_node (R(q \<mapsto> map node ps)) (node p) \<and> lvalue h = lvalue (heap s)"
proof -
  have R: "rings (heap s) R" and q': "R q = Some ([] @ node p # map node ps)" "\<not> qlock (heap s) q"
    using rdy_invD(1,2) [OF inv] q by simp_all
  obtain h where h: "acoral_tick_queue_del q (node p) (heap s) = Some h" "rings h (R(q \<mapsto> map node ps))"
      "free_node (R(q \<mapsto> map node ps)) (node p)" "lvalue h = lvalue (heap s)" "qlock h = qlock (heap s)"
    using queue_del_rings [OF R q'] by (auto simp: acoral_tick_queue_del_def)
  have "rdy_inv L (s\<lparr>heap := h\<rparr>) (R(q \<mapsto> map node ps))"
    by (rule rdy_inv_other [OF inv h(2)]) (use h(5) rdy_invD(2) [OF inv] q_other nodes_other in \<open>simp_all add: fun_eq_iff\<close>)
  then show ?thesis using h by blast
qed

text \<open>Counting down the head.\<close>

lemma count_down:
  assumes inv: "rdy_inv L s R" and q: "R q = Some (map node ps)" "ps \<noteq> []" "ticks_ok (lvalue (heap s)) (map node ps)"
  defines "d \<equiv> (if 0 < lvalue (heap s) (node (hd ps)) then 1 else 0 :: int)"
    and "h \<equiv> set_value (node (hd ps)) (lvalue (heap s) (node (hd ps)) - (if 0 < lvalue (heap s) (node (hd ps)) then 1 else 0)) (heap s)"
    and "D \<equiv> due (lvalue (heap s)) 0 (map node ps)"
  shows "rdy_inv L (s\<lparr>heap := h\<rparr>) R" "lnext (heap s) q = node (hd ps)" "lnext h q = node (hd ps)" "\<not> acoral_list_empty q (heap s)"
    "\<exists>ws rs. ps = ws @ rs \<and> (\<forall>p \<in> set ws. lvalue h (node p) = 0) \<and> (rs \<noteq> [] \<longrightarrow> 0 < lvalue h (node (hd rs))) \<and>
       ticks_ok (lvalue h) (map node ps) \<and>
       (\<forall>(x, t) \<in> set (take (length ws) D). t = d) \<and> (\<forall>(x, t) \<in> set (drop (length ws) D). d < t) \<and>
       due (lvalue h) 0 (map node rs) = map (\<lambda>(x, t). (x, t - d)) (drop (length ws) D)"
proof -
  have R: "rings (heap s) R" by (rule rdy_invD(1) [OF inv])
  have dist: "distinct (map node ps)" using ringsD [OF R q(1)] by (simp add: ring_def)
  have "rings h R" using R by (simp add: h_def)
  moreover have "qlock h = (\<lambda>_. False)" using rdy_invD(2) [OF inv] by (simp add: h_def set_value_def fun_eq_iff)
  ultimately show "rdy_inv L (s\<lparr>heap := h\<rparr>) R" by (rule rdy_inv_heap [OF inv])
  obtain p0 ps' where ps: "ps = p0 # ps'" using q(2) by (cases ps) auto
  show nx: "lnext (heap s) q = node (hd ps)" using ring_next_head ringsD [OF R q(1)] by (simp add: ps)
  then show "lnext h q = node (hd ps)" by (simp add: h_def set_value_def)
  show "\<not> acoral_list_empty q (heap s)" using ring_empty_iff [OF ringsD [OF R q(1)]] q(2) by simp
  have v: "lvalue h = (lvalue (heap s))(node (hd ps) := lvalue (heap s) (node (hd ps)) - d)" by (simp add: h_def d_def set_value_def)
  show "\<exists>ws rs. ps = ws @ rs \<and> (\<forall>p \<in> set ws. lvalue h (node p) = 0) \<and> (rs \<noteq> [] \<longrightarrow> 0 < lvalue h (node (hd rs))) \<and>
       ticks_ok (lvalue h) (map node ps) \<and>
       (\<forall>(x, t) \<in> set (take (length ws) D). t = d) \<and> (\<forall>(x, t) \<in> set (drop (length ws) D). d < t) \<and>
       due (lvalue h) 0 (map node rs) = map (\<lambda>(x, t). (x, t - d)) (drop (length ws) D)"
    using tick_head_split_map [OF q(2) dist q(3)] unfolding v d_def D_def by blast
qed

end

interpretation delay: tick_list DelayQ Delaying
  by unfold_locales (auto simp: inj_def)

interpretation period: tick_list PeriodQ Timing
  by unfold_locales (auto simp: inj_def)

end
