(* ===== verification/Kmem.thy ===== *)
theory Kmem
  imports Sched
begin

text \<open>
  The allocator's entry points on the kernel state (\<^verbatim>\<open>kernel/src/mem.c\<close>): the block search and release of theory
  \<open>Buddy\<close> inside the critical section and the spin lock. \<^verbatim>\<open>acoral_malloc\<close> and \<^verbatim>\<open>acoral_free\<close> are these functions
  (\<^verbatim>\<open>kernel/include/mem.h\<close>). Error messages are not modelled.
\<close>

definition mem_lock_take :: kop where
  "mem_lock_take s = (if mem_lock (mem s) then None else Some (s\<lparr>mem := (mem s)\<lparr>mem_lock := True\<rparr>\<rparr>))"

definition mem_lock_free :: "kstate \<Rightarrow> kstate" where
  "mem_lock_free s = s\<lparr>mem := (mem s)\<lparr>mem_lock := False\<rparr>\<rparr>"

definition buddy_r_malloc :: "nat \<Rightarrow> ptr kret" where
  "buddy_r_malloc l s =
     do {
       s \<leftarrow> mem_lock_take (acoral_enter_critical s);
       (num, b) \<leftarrow> buddy_take l (mem s);
       s \<leftarrow> acoral_exit_critical (mem_lock_free (s\<lparr>mem := b\<rparr>));
       Some (start_adr (mem s) + of_int (num * 2 ^ BLOCK_SHIFT), s)
     }"

definition buddy_malloc :: "u32 \<Rightarrow> ptr kret" where
  "buddy_malloc sz s =
     (if \<not> mem_ok (mem s) then Some (NULL, s)
      else do {
        (num, l) \<leftarrow> level_loop sz 1 0 BLOCK_SIZE;
        if num > free_num (mem s) then Some (NULL, s)
        else if unat l \<ge> level (mem s) then Some (NULL, s)
        else buddy_r_malloc (unat l) s
      })"

text \<open>On the merging path the code leaves the critical section before it releases the spin lock.\<close>

definition buddy_free :: "ptr \<Rightarrow> kop" where
  "buddy_free p s =
     (let b = mem s; num = drop_bit BLOCK_SHIFT (p - start_adr b) in
      if \<not> mem_ok b then Some s
      else if p = NULL \<or> p < start_adr b \<or> p + BLOCK_SIZE > end_adr b then Some s
      else if p \<noteq> start_adr b + push_bit BLOCK_SHIFT num then Some s
      else do {
        s \<leftarrow> mem_lock_take (acoral_enter_critical s);
        (r, b) \<leftarrow> buddy_put (unat num) (mem s);
        let s = s\<lparr>mem := b\<rparr>;
        if r = PutMerged then do { s \<leftarrow> acoral_exit_critical s; Some (mem_lock_free s) }
        else acoral_exit_critical (mem_lock_free s)
      })"

end
