(* ===== verification/Respool.thy ===== *)
theory Respool
  imports Kmem
begin

text \<open>
  The resource pools of \<^verbatim>\<open>kernel/src/res_pool.c\<close>, from which thread and IPC control blocks are allocated. The
  first word of a resource is the union \<^verbatim>\<open>acoral_res_t\<close>: its id when in use; when free, its index in the upper
  half and the index of the next free resource (\<^verbatim>\<open>next_id\<close>) in the lower half. \<open>res_word\<close> holds that word by
  address.
\<close>

section \<open>Ids\<close>

definition ACORAL_MAX_POOLS :: nat where "ACORAL_MAX_POOLS = 40"
definition POOL_INDEX_MASK :: u32 where "POOL_INDEX_MASK = 0x000003FF"
definition RES_TYPE_BIT :: nat where "RES_TYPE_BIT = 10"
definition RES_INDEX_MASK :: u32 where "RES_INDEX_MASK = 0x00FFC000"
definition RES_INDEX_BIT :: nat where "RES_INDEX_BIT = 14"
definition RES_INDEX_INIT_BIT :: nat where "RES_INDEX_INIT_BIT = 16"

definition next_id :: "u32 \<Rightarrow> u16" where
  "next_id w = ucast w"

definition set_next_id :: "u16 \<Rightarrow> u32 \<Rightarrow> u32" where
  "set_next_id n w = (w AND 0xFFFF0000) OR ucast n"

definition upd_pool :: "nat \<Rightarrow> (pool \<Rightarrow> pool) \<Rightarrow> kstate \<Rightarrow> kstate" where
  "upd_pool i f s = s\<lparr>pools := (pools s)(i := f (pools s i))\<rparr>"

definition upd_ctrl :: "ctrl_id \<Rightarrow> (pool_ctrl \<Rightarrow> pool_ctrl) \<Rightarrow> kstate \<Rightarrow> kstate" where
  "upd_ctrl c f s = s\<lparr>ctrls := (ctrls s)(c := f (ctrls s c))\<rparr>"

definition set_res :: "ptr \<Rightarrow> u32 \<Rightarrow> kstate \<Rightarrow> kstate" where
  "set_res p w s = s\<lparr>res_word := (res_word s)(p := w)\<rparr>"

definition ctrl_lock :: "ctrl_id \<Rightarrow> kop" where
  "ctrl_lock c s = (if c_lock (ctrls s c) then None else Some (upd_ctrl c (c_lock_update (\<lambda>_. True)) s))"

definition ctrl_unlock :: "ctrl_id \<Rightarrow> kstate \<Rightarrow> kstate" where
  "ctrl_unlock c = upd_ctrl c (c_lock_update (\<lambda>_. False))"

section \<open>Pools\<close>

text \<open>The pool of an id; \<open>None\<close> is \<^verbatim>\<open>NULL\<close>.\<close>

definition acoral_get_pool_by_id :: "u32 \<Rightarrow> nat option" where
  "acoral_get_pool_by_id res_id =
     (let index = unat (res_id AND POOL_INDEX_MASK) in if index < ACORAL_MAX_POOLS then Some index else None)"

text \<open>\<^verbatim>\<open>*(void **)tmp->base_adr\<close>: the first word of the pool that \<^verbatim>\<open>base_adr\<close> points to, that is its own
  \<^verbatim>\<open>base_adr\<close>.\<close>

definition deref_pool :: "kstate \<Rightarrow> pool_adr \<Rightarrow> pool_adr option" where
  "deref_pool s a = (case a of PPool j \<Rightarrow> Some (base_adr (pools s j)) | _ \<Rightarrow> None)"

text \<open>The pool, or \<open>None\<close> for \<^verbatim>\<open>NULL\<close>.\<close>

definition acoral_get_free_pool :: "nat option kret" where
  "acoral_get_free_pool s =
     (let s = acoral_enter_critical s in
      case free_res_pool s of
        PNull \<Rightarrow> do { s \<leftarrow> acoral_exit_critical s; Some (None, s) }
      | PMem _ \<Rightarrow> None
      | PPool i \<Rightarrow>
        if p_lock (pools s i) then None
        else do {
          a \<leftarrow> deref_pool s (base_adr (pools s i));
          s \<leftarrow> acoral_exit_critical (s\<lparr>free_res_pool := a\<rparr>);
          Some (Some i, s)
        })"

definition acoral_pool_res_init :: "nat \<Rightarrow> kstate \<Rightarrow> kstate" where
  "acoral_pool_res_init i s =
     (case base_adr (pools s i) of
        PMem base \<Rightarrow>
          let blks = p_num (pools s i); sz = p_size (pools s i);
              s = fold (\<lambda>k. set_res (base + of_nat k * sz) (set_next_id (of_nat (k + 1)) (push_bit RES_INDEX_INIT_BIT (of_nat k))))
                    [0..<unat (blks - 1)] s
          in set_res (base + of_nat (unat (blks - 1)) * sz) (set_next_id 0 (push_bit RES_INDEX_INIT_BIT (blks - 1))) s
      | _ \<Rightarrow> s)"

definition acoral_create_pool :: "ctrl_id \<Rightarrow> kernel_error kret" where
  "acoral_create_pool c s =
     (if c_num (ctrls s c) \<ge> max_pools (ctrls s c) then Some (KR_RES_ERR_MAX_POOL, s)
      else do {
        (r, s) \<leftarrow> acoral_get_free_pool s;
        case r of None \<Rightarrow> Some (KR_RES_ERR_NO_POOL, s)
        | Some i \<Rightarrow>
          do {
            let s = upd_pool i (\<lambda>p. p\<lparr>p_id := push_bit RES_TYPE_BIT (c_type (ctrls s c)) OR p_id p,
                                      p_size := c_size (ctrls s c), p_num := num_per_pool (ctrls s c)\<rparr>) s;
            (a, s) \<leftarrow> buddy_malloc (p_size (pools s i) * p_num (pools s i)) s;
            if a = NULL then Some (KR_RES_ERR_NO_MEM, upd_pool i (\<lambda>p. p\<lparr>base_adr := PNull\<rparr>) s)
            else do {
              let s = upd_pool i (\<lambda>p. p\<lparr>base_adr := PMem a, res_free := a, p_free_num := p_num p, p_ctrl := c\<rparr>) s;
              let s = acoral_pool_res_init i s;
              s \<leftarrow> on_heap (acoral_fifo_queue_add (TotalPools c) (TotalL i)) s;
              s \<leftarrow> on_heap (acoral_fifo_queue_add (FreePools c) (FreeL i)) s;
              Some (KR_OK, upd_ctrl c (\<lambda>k. k\<lparr>c_num := c_num k + 1\<rparr>) s)
            }
          }
      })"

text \<open>Giving a pool back: the common body of \<open>acoral_release_pool\<close> and \<open>acoral_collect_pool\<close>.\<close>

definition return_pool :: "nat \<Rightarrow> kop" where
  "return_pool i s =
     do {
       s \<leftarrow> on_heap (acoral_list_del (TotalL i)) s;
       s \<leftarrow> on_heap (acoral_list_del (FreeL i)) s;
       s \<leftarrow> (case base_adr (pools s i) of PMem a \<Rightarrow> buddy_free a s | _ \<Rightarrow> None);
       let s = upd_pool i (\<lambda>p. p\<lparr>base_adr := free_res_pool s, p_id := p_id p AND POOL_INDEX_MASK\<rparr>) s;
       Some (s\<lparr>free_res_pool := PPool i\<rparr>)
     }"

text \<open>The loop of \<open>acoral_release_pool\<close> walks the list of all pools but takes each node for a member of the list of
  free pools.\<close>

partial_function (option) release_pool_loop :: "knode \<Rightarrow> knode \<Rightarrow> kstate \<Rightarrow> kstate option" where
  "release_pool_loop head l s =
     (if l = head then Some s
      else do { i \<leftarrow> free_pool_entry l; s \<leftarrow> return_pool i s; release_pool_loop head (lnext (heap s) l) s })"

definition acoral_release_pool :: "ctrl_id \<Rightarrow> kop" where
  "acoral_release_pool c s =
     (if acoral_list_empty (TotalPools c) (heap s) then Some s
      else release_pool_loop (TotalPools c) (lnext (heap s) (TotalPools c)) s)"

partial_function (option) collect_pool_loop :: "knode \<Rightarrow> knode \<Rightarrow> kstate \<Rightarrow> kstate option" where
  "collect_pool_loop head l s =
     (if l = head then Some s
      else do {
        i \<leftarrow> free_pool_entry l;
        s \<leftarrow> (if p_free_num (pools s i) = p_num (pools s i) then return_pool i s else Some s);
        collect_pool_loop head (lnext (heap s) l) s
      })"

definition acoral_collect_pool :: "ctrl_id \<Rightarrow> kop" where
  "acoral_collect_pool c s =
     (if acoral_list_empty (FreePools c) (heap s) then Some s
      else collect_pool_loop (FreePools c) (lnext (heap s) (FreePools c)) s)"

section \<open>Resources\<close>

text \<open>Taking the first free resource of pool \<open>i\<close>.\<close>

definition take_res :: "nat \<Rightarrow> ptr kret" where
  "take_res i s =
     (case base_adr (pools s i) of
        PMem base \<Rightarrow>
          do {
            let res = res_free (pools s i);
            let w = res_word s res;
            let s = upd_pool i (\<lambda>p. p\<lparr>res_free := base + ucast (next_id w) * p_size p\<rparr>) s;
            let s = set_res res ((drop_bit (RES_INDEX_INIT_BIT - RES_INDEX_BIT) w AND RES_INDEX_MASK) OR p_id (pools s i)) s;
            let s = upd_pool i (\<lambda>p. p\<lparr>p_free_num := p_free_num p - 1\<rparr>) s;
            s \<leftarrow> (if p_free_num (pools s i) = 0 then on_heap (acoral_list_del (FreeL i)) s else Some s);
            Some (res, s)
          }
      | _ \<Rightarrow> None)"

definition acoral_get_res :: "ctrl_id \<Rightarrow> ptr kret" where
  "acoral_get_res c s =
     do {
       s \<leftarrow> ctrl_lock c (acoral_enter_critical s);
       let first = lnext (heap s) (FreePools c);
       (err, s) \<leftarrow> (if acoral_list_empty first (heap s) then acoral_create_pool c s else Some (KR_OK, s));
       if err \<noteq> KR_OK then do { s \<leftarrow> acoral_exit_critical (ctrl_unlock c s); Some (NULL, s) }
       else do {
         i \<leftarrow> free_pool_entry (lnext (heap s) (FreePools c));
         (res, s) \<leftarrow> take_res i s;
         s \<leftarrow> acoral_exit_critical (ctrl_unlock c s);
         Some (res, s)
       }
     }"

text \<open>The two address checks return without releasing the lock of the pool control block.\<close>

definition acoral_release_res :: "ptr \<Rightarrow> kop" where
  "acoral_release_res res s =
     (case acoral_get_pool_by_id (res_word s res) of
        None \<Rightarrow> Some s
      | Some i \<Rightarrow>
        (let c = p_ctrl (pools s i) in
         do {
           s \<leftarrow> ctrl_lock c s;
           case base_adr (pools s i) of
             PMem base \<Rightarrow>
               if res < base then Some s
               else
                 let index = (res - base) div p_size (pools s i) in
                 if index \<ge> p_num (pools s i) then Some s
                 else do {
                   let tmp = res_free (pools s i);
                   let s = upd_pool i (\<lambda>p. p\<lparr>res_free := res\<rparr>) s;
                   let s = set_res res (push_bit RES_INDEX_INIT_BIT index) s;
                   let s = set_res res (set_next_id (ucast (drop_bit RES_INDEX_INIT_BIT (res_word s tmp))) (res_word s res)) s;
                   let s = upd_pool i (\<lambda>p. p\<lparr>p_free_num := p_free_num p + 1\<rparr>) s;
                   s \<leftarrow> (if acoral_list_empty (FreeL i) (heap s)
                        then on_heap (acoral_fifo_queue_add (FreePools c) (FreeL i)) s else Some s);
                   Some (ctrl_unlock c s)
                 }
           | _ \<Rightarrow> None
         }))"

text \<open>\<open>acoral_get_res_by_id\<close>: \<open>NULL\<close> when there is no such pool.\<close>

definition acoral_get_res_by_id :: "u32 \<Rightarrow> kstate \<Rightarrow> ptr option" where
  "acoral_get_res_by_id rid s =
     (case acoral_get_pool_by_id rid of
        None \<Rightarrow> Some NULL
      | Some i \<Rightarrow>
        (let index = drop_bit RES_INDEX_BIT (rid AND RES_INDEX_MASK) in
         case base_adr (pools s i) of
           PMem base \<Rightarrow> Some (base + index * p_size (pools s i))
         | PNull \<Rightarrow> Some (index * p_size (pools s i))
         | PPool _ \<Rightarrow> None))"

section \<open>Initialisation\<close>

text \<open>The loop sets the lock of the next pool in each step and never the id of the last pool.\<close>

definition acoral_pools_init :: "kstate \<Rightarrow> kstate" where
  "acoral_pools_init s =
     (let s = fold (\<lambda>i s. upd_pool (Suc i) (p_lock_update (\<lambda>_. False))
                (upd_pool i (\<lambda>p. p\<lparr>base_adr := PPool (Suc i), p_id := of_nat i\<rparr>) s)) [0..<ACORAL_MAX_POOLS - 1] s;
          s = upd_pool (ACORAL_MAX_POOLS - 1) (base_adr_update (\<lambda>_. PNull)) s;
          s = s\<lparr>free_res_pool := PPool 0\<rparr>
      in upd_pool 0 (p_lock_update (\<lambda>_. False)) s)"

definition acoral_res_pool_sys_init :: "kstate \<Rightarrow> kstate" where
  "acoral_res_pool_sys_init s = acoral_pools_init s"

definition acoral_pool_ctrl_init :: "ctrl_id \<Rightarrow> kop" where
  "acoral_pool_ctrl_init c s =
     (let s = upd_ctrl c (c_num_update (\<lambda>_. 0)) s;
          s = s\<lparr>heap := acoral_fifo_queue_init (FreePools c) (acoral_fifo_queue_init (TotalPools c) (heap s))\<rparr>;
          s = ctrl_unlock c s;
          sz = buddy_malloc_size (mem s) (c_size (ctrls s c) * num_per_pool (ctrls s c))
      in if sz < c_size (ctrls s c) then Some (upd_ctrl c (num_per_pool_update (\<lambda>_. 0)) s)
         else do {
           (_, s) \<leftarrow> acoral_create_pool c (upd_ctrl c (num_per_pool_update (\<lambda>_. sz div c_size (ctrls s c))) s);
           Some s
         })"

end
