(* ===== verification/Thread.thy ===== *)
theory Thread
  imports Respool
begin

text \<open>
  Threads: \<^verbatim>\<open>kernel/src/thread.c\<close>, the inter-processor commands of \<^verbatim>\<open>kernel/src/ipi.c\<close>, the wait-queue helpers of
  \<^verbatim>\<open>kernel/src/ipc.c\<close> that killing a thread needs, and the delay queue of \<^verbatim>\<open>kernel/src/timer.c\<close>. An operation on
  a thread of another CPU sends a command to that CPU; \<open>ipi_sent\<close> counts the software interrupts raised.
\<close>

section \<open>Inter-processor commands\<close>

definition IPI_THREAD_KILL :: u32 where "IPI_THREAD_KILL = 0x01"
definition IPI_THREAD_READY :: u32 where "IPI_THREAD_READY = 0x02"
definition IPI_THREAD_SUSPEND :: u32 where "IPI_THREAD_SUSPEND = 0x04"
definition IPI_THREAD_CHG_PRIO :: u32 where "IPI_THREAD_CHG_PRIO = 0x08"
definition IPI_THREAD_MOVETO :: u32 where "IPI_THREAD_MOVETO = 0x10"
definition IPI_THREAD_MOVEIN :: u32 where "IPI_THREAD_MOVEIN = 0x20"
definition IPI_ADMIS_CHG_PRIO :: u32 where "IPI_ADMIS_CHG_PRIO = 0x200"
definition IPI_ADMIS_CHG_RES :: u32 where "IPI_ADMIS_CHG_RES = 0x400"

definition acoral_ipi_send :: "u32 \<Rightarrow> kstate \<Rightarrow> kstate" where
  "acoral_ipi_send cpu s =
     (if cpu = 0 \<or> cpu = 1 then s\<lparr>ipi_sent := (ipi_sent s)(cpu := ipi_sent s cpu + 1)\<rparr> else s)"

definition acoral_ipi_cmd_init :: "kstate \<Rightarrow> kstate" where
  "acoral_ipi_cmd_init s = s\<lparr>ipi_cmds := (\<lambda>i. if i < 2 then (ipi_cmds s i)\<lparr>cmd_lock := False\<rparr> else ipi_cmds s i)\<rparr>"

text \<open>The command slot is locked by the sender and unlocked by the handler on the target CPU.\<close>

definition acoral_ipi_cmd_send :: "u32 \<Rightarrow> u32 \<Rightarrow> u32 \<Rightarrow> u32 \<Rightarrow> kop" where
  "acoral_ipi_cmd_send cpu cmd thread_id data s =
     (let cpu = (if cpu \<ge> of_nat CFG_MAX_CPU then of_nat (CFG_MAX_CPU - 1) else cpu) in
      if cmd_lock (ipi_cmds s cpu) then None
      else Some (acoral_ipi_send cpu (s\<lparr>ipi_cmds := (ipi_cmds s)
             (cpu := \<lparr>cmd_lock = True, cmd_code = cmd, cmd_thread = thread_id, cmd_data = data\<rparr>)\<rparr>)))"

section \<open>Wait queues\<close>

definition acoral_ipc_wait_queue_empty :: "ptr \<Rightarrow> kstate \<Rightarrow> bool" where
  "acoral_ipc_wait_queue_empty ipc s = acoral_list_empty (WaitQ ipc) (heap s)"

text \<open>\<open>NULL\<close> when nobody waits.\<close>

definition acoral_ipc_high_thread :: "ptr \<Rightarrow> kstate \<Rightarrow> ptr option" where
  "acoral_ipc_high_thread ipc s =
     (if acoral_list_empty (WaitQ ipc) (heap s) then Some NULL else pending_entry (lnext (heap s) (WaitQ ipc)))"

definition acoral_ipc_wait_queue_add :: "ptr \<Rightarrow> ptr \<Rightarrow> kop" where
  "acoral_ipc_wait_queue_add ipc new s =
     on_heap (acoral_prio_queue_add (WaitQ ipc) (Pending new)) (upd_thr new (t_ipc_update (\<lambda>_. ipc)) s)"

definition acoral_ipc_wait_queue_del :: "ptr \<Rightarrow> ptr \<Rightarrow> kop" where
  "acoral_ipc_wait_queue_del ipc old s =
     do {
       s \<leftarrow> on_heap (acoral_prio_queue_del (WaitQ ipc) (Pending old)) s;
       Some (upd_thr old (t_ipc_update (\<lambda>_. NULL)) s)
     }"

section \<open>Ready, suspend, priority\<close>

definition acoral_rdy_thread :: "ptr \<Rightarrow> kernel_error kret" where
  "acoral_rdy_thread p s =
     (if \<not> flag (t_state (threads s p)) STATE_SUSPEND then Some (KR_THREAD_ERR_STATE, s)
      else if t_cpu (threads s p) \<noteq> current_cpu s then
        do { s \<leftarrow> acoral_ipi_cmd_send (t_cpu (threads s p)) IPI_THREAD_READY (res_word s p) 0 s; Some (KR_OK, s) }
      else do {
        s \<leftarrow> acoral_sched_rdyqueue_add p (acoral_enter_critical s);
        s \<leftarrow> acoral_exit_critical s;
        Some (KR_OK, s)
      })"

definition acoral_suspend_thread :: "ptr \<Rightarrow> kernel_error kret" where
  "acoral_suspend_thread p s =
     (if \<not> flag (t_state (threads s p)) STATE_READY then Some (KR_THREAD_ERR_STATE, s)
      else if t_cpu (threads s p) \<noteq> current_cpu s then
        do { s \<leftarrow> acoral_ipi_cmd_send (t_cpu (threads s p)) IPI_THREAD_SUSPEND (res_word s p) 0 s; Some (KR_OK, s) }
      else do {
        s \<leftarrow> acoral_sched_rdyqueue_del p (acoral_enter_critical s);
        s \<leftarrow> acoral_exit_critical s;
        Some (KR_OK, s)
      })"

definition acoral_suspend_self :: "kernel_error kret" where
  "acoral_suspend_self s = acoral_suspend_thread (cur_thread s) s"

definition acoral_thread_change_prio :: "ptr \<Rightarrow> u32 \<Rightarrow> kop" where
  "acoral_thread_change_prio p prio s =
     (if t_cpu (threads s p) \<noteq> current_cpu s then
        acoral_ipi_cmd_send (t_cpu (threads s p)) IPI_THREAD_CHG_PRIO (res_word s p) prio s
      else do {
        let s = acoral_enter_critical s;
        s \<leftarrow> (if flag (t_state (threads s p)) STATE_READY then
                do {
                  s \<leftarrow> acoral_sched_rdyqueue_del p s;
                  acoral_sched_rdyqueue_add p (upd_thr p (t_prio_update (\<lambda>_. ucast prio)) s)
                }
              else Some (upd_thr p (t_prio_update (\<lambda>_. ucast prio)) s));
        acoral_exit_critical s
      })"

definition acoral_thread_change_prio_self :: "u32 \<Rightarrow> kop" where
  "acoral_thread_change_prio_self prio s = acoral_thread_change_prio (cur_thread s) prio s"

section \<open>Migration\<close>

definition acoral_moveto_thread :: "ptr \<Rightarrow> u32 \<Rightarrow> kernel_error kret" where
  "acoral_moveto_thread p cpu s =
     (if cpu \<ge> of_nat CFG_MAX_CPU then Some (KR_THREAD_ERR_CPU, s)
      else if t_cpu (threads s p) = cpu then Some (KR_OK, s)
      else do {
        let cur = cur_thread s;
        s \<leftarrow> move_lock_take p (acoral_enter_critical s);
        if t_cpu (threads s p) \<noteq> current_cpu s then
          do {
            s \<leftarrow> acoral_ipi_cmd_send (t_cpu (threads s p)) IPI_THREAD_MOVETO (res_word s p) cpu s;
            s \<leftarrow> acoral_exit_critical (move_lock_free p s);
            Some (KR_THREAD_ERR_CPU, s)
          }
        else
          do {
            (_, s) \<leftarrow> acoral_suspend_thread p s;
            let s = upd_thr p (t_state_update (\<lambda>st. st OR STATE_MOVE)) s;
            s \<leftarrow> acoral_ipi_cmd_send cpu IPI_THREAD_MOVEIN (res_word s p) 0 s;
            s \<leftarrow> acoral_exit_critical (if p \<noteq> cur then move_lock_free p s else s);
            Some (KR_OK, s)
          }
      })"

definition acoral_jump_cpu :: "u32 \<Rightarrow> kernel_error kret" where
  "acoral_jump_cpu cpu s = acoral_moveto_thread (cur_thread s) cpu s"

definition acoral_movein_thread :: "ptr \<Rightarrow> kernel_error kret" where
  "acoral_movein_thread p s =
     do {
       s \<leftarrow> move_lock_take p s;
       let s = upd_thr p (t_cpu_update (\<lambda>_. current_cpu s)) s;
       (err, s) \<leftarrow> acoral_rdy_thread p s;
       Some (err, move_lock_free p s)
     }"

section \<open>Killing\<close>

definition acoral_prerelease_thread :: "ptr \<Rightarrow> kernel_error kret" where
  "acoral_prerelease_thread p s =
     do {
       let s = upd_thr p (t_state_update (\<lambda>_. STATE_EXIT)) s;
       s \<leftarrow> on_heap (acoral_fifo_queue_add ReleaseQ (Pending p)) s;
       daem \<leftarrow> acoral_get_res_by_id (daemon_id s) s;
       acoral_rdy_thread daem s
     }"

definition del_if_linked :: "knode \<Rightarrow> kop" where
  "del_if_linked n s = (if \<not> acoral_list_empty n (heap s) then on_heap (acoral_list_del n) s else Some s)"

definition acoral_kill_thread :: "ptr \<Rightarrow> kop" where
  "acoral_kill_thread p s =
     (if t_cpu (threads s p) \<noteq> current_cpu s then
        acoral_ipi_cmd_send (t_cpu (threads s p)) IPI_THREAD_KILL (res_word s p) 0 s
      else do {
        let s = acoral_enter_critical s;
        s \<leftarrow> (if flag (t_state (threads s p)) STATE_SUSPEND then
                do {
                  let ipc = t_ipc (threads s p);
                  s \<leftarrow> del_if_linked (Timing p) s;
                  s \<leftarrow> del_if_linked (Delaying p) s;
                  if ipc \<noteq> NULL then
                    do { s \<leftarrow> ipc_lock ipc s; s \<leftarrow> acoral_ipc_wait_queue_del ipc p s; Some (ipc_unlock ipc s) }
                  else Some s
                }
              else Some s);
        (_, s) \<leftarrow> acoral_suspend_thread p s;
        (_, s) \<leftarrow> acoral_prerelease_thread p s;
        acoral_exit_critical s
      })"

definition acoral_thread_exit :: kop where
  "acoral_thread_exit s = acoral_kill_thread (cur_thread s) s"

section \<open>Operations by id\<close>

definition acoral_kill_thread_by_id :: "u32 \<Rightarrow> kop" where
  "acoral_kill_thread_by_id rid s = do { p \<leftarrow> acoral_get_res_by_id rid s; acoral_kill_thread p s }"

definition acoral_rdy_thread_by_id :: "u32 \<Rightarrow> kernel_error kret" where
  "acoral_rdy_thread_by_id rid s = do { p \<leftarrow> acoral_get_res_by_id rid s; acoral_rdy_thread p s }"

definition acoral_suspend_thread_by_id :: "u32 \<Rightarrow> kernel_error kret" where
  "acoral_suspend_thread_by_id rid s = do { p \<leftarrow> acoral_get_res_by_id rid s; acoral_suspend_thread p s }"

definition acoral_thread_change_prio_by_id :: "u32 \<Rightarrow> u32 \<Rightarrow> kop" where
  "acoral_thread_change_prio_by_id rid prio s = do { p \<leftarrow> acoral_get_res_by_id rid s; acoral_thread_change_prio p prio s }"

definition acoral_moveto_thread_by_id :: "u32 \<Rightarrow> u32 \<Rightarrow> kernel_error kret" where
  "acoral_moveto_thread_by_id rid cpu s = do { p \<leftarrow> acoral_get_res_by_id rid s; acoral_moveto_thread p cpu s }"

definition acoral_movein_thread_by_id :: "u32 \<Rightarrow> kernel_error kret" where
  "acoral_movein_thread_by_id rid s = do { p \<leftarrow> acoral_get_res_by_id rid s; acoral_movein_thread p s }"

text \<open>The handler on the target CPU. The two admission-control commands call functions outside this model,
  which are parameters.\<close>

definition acoral_ipi_cmd_handler :: "(u32 \<Rightarrow> kop) \<Rightarrow> (u32 \<Rightarrow> kop) \<Rightarrow> kop" where
  "acoral_ipi_cmd_handler admis_change_prio admis_change_res s =
     (let me = current_cpu s; c = ipi_cmds s me; cmd = cmd_code c; tid = cmd_thread c; data = cmd_data c;
          s = s\<lparr>ipi_cmds := (ipi_cmds s)(me := c\<lparr>cmd_lock := False\<rparr>)\<rparr>
      in if cmd = IPI_THREAD_KILL then acoral_kill_thread_by_id tid s
         else if cmd = IPI_THREAD_READY then map_option snd (acoral_rdy_thread_by_id tid s)
         else if cmd = IPI_THREAD_SUSPEND then map_option snd (acoral_suspend_thread_by_id tid s)
         else if cmd = IPI_THREAD_CHG_PRIO then acoral_thread_change_prio_by_id tid data s
         else if cmd = IPI_THREAD_MOVETO then map_option snd (acoral_moveto_thread_by_id tid data s)
         else if cmd = IPI_THREAD_MOVEIN then map_option snd (acoral_movein_thread_by_id tid s)
         else if cmd = IPI_ADMIS_CHG_PRIO then admis_change_prio data s
         else if cmd = IPI_ADMIS_CHG_RES then admis_change_res data s
         else Some s)"

section \<open>Delays\<close>

definition TIME_TO_TICKS :: "u32 \<Rightarrow> u32" where
  "TIME_TO_TICKS time = time * CFG_TICKS_PER_SEC div 1000"

definition acoral_time_sys_init :: "kstate \<Rightarrow> kstate" where
  "acoral_time_sys_init s = s\<lparr>heap := acoral_tick_queue_init DelayQ (heap s)\<rparr>"

definition acoral_get_ticks :: "kstate \<Rightarrow> u32" where
  "acoral_get_ticks s = ticks s"

definition acoral_set_ticks :: "u32 \<Rightarrow> kstate \<Rightarrow> kstate" where
  "acoral_set_ticks time s = s\<lparr>ticks := time\<rparr>"

definition acoral_time_delay_queue_add :: "ptr \<Rightarrow> kop" where
  "acoral_time_delay_queue_add p s =
     do {
       s \<leftarrow> on_heap (acoral_tick_queue_add DelayQ (Delaying p)) (acoral_enter_critical s);
       (_, s) \<leftarrow> acoral_suspend_thread p s;
       acoral_exit_critical s
     }"

definition acoral_delay_thread :: "ptr \<Rightarrow> u32 \<Rightarrow> kernel_error kret" where
  "acoral_delay_thread p time s =
     (if \<not> acoral_list_empty (Delaying p) (heap s) then Some (KR_THREAD_ERR_UNDEF, s)
      else if t_cpu (threads s p) \<noteq> current_cpu s then Some (KR_THREAD_ERR_CPU, s)
      else do {
        let real_ticks = TIME_TO_TICKS time;
        let s = upd_thr p (t_delay_update (\<lambda>_. real_ticks)) s;
        let s = s\<lparr>heap := acoral_vlist_init (Delaying p) (uint real_ticks) (heap s)\<rparr>;
        s \<leftarrow> acoral_time_delay_queue_add p s;
        Some (KR_OK, s)
      })"

definition acoral_delay_ms :: "u32 \<Rightarrow> kernel_error kret" where
  "acoral_delay_ms time s = acoral_delay_thread (cur_thread s) time s"

text \<open>The loop of \<open>time_delay_deal\<close> over the expired threads.\<close>

partial_function (option) delay_loop :: "knode \<Rightarrow> kstate \<Rightarrow> kstate option" where
  "delay_loop tmp s =
     (if tmp = DelayQ then Some s
      else do {
        p \<leftarrow> delaying_entry tmp;
        if lvalue (heap s) tmp > 0 then Some s
        else do {
          let tmp1 = lnext (heap s) tmp;
          s \<leftarrow> on_heap (acoral_tick_queue_del DelayQ (Delaying p)) s;
          (_, s) \<leftarrow> acoral_rdy_thread p s;
          delay_loop tmp1 s
        }
      })"

definition time_delay_deal :: kop where
  "time_delay_deal s =
     (if acoral_list_empty DelayQ (heap s) then Some s
      else
        let f = lnext (heap s) DelayQ;
            s = (if lvalue (heap s) f > 0 then s\<lparr>heap := set_value f (lvalue (heap s) f - 1) (heap s)\<rparr> else s)
        in delay_loop (lnext (heap s) DelayQ) s)"

section \<open>Initialisation of threads\<close>

definition CFG_MIN_STACK_SIZE :: u32 where "CFG_MIN_STACK_SIZE = 128"

text \<open>\<^verbatim>\<open>hal_stack_init\<close>: the initial context (16 words) below the top of the stack.\<close>

definition hal_stack_init :: "ptr \<Rightarrow> ptr \<Rightarrow> ptr \<Rightarrow> thread \<Rightarrow> thread" where
  "hal_stack_init stk route args t = t\<lparr>t_stack := stk - 64 + 4, t_entry := (route, args)\<rparr>"

definition acoral_set_thread_console :: "u32 \<Rightarrow> kstate \<Rightarrow> kstate" where
  "acoral_set_thread_console cid s = upd_thr (cur_thread s) (console_id_update (\<lambda>_. cid)) s"

definition acoral_alloc_thread :: "ptr kret" where
  "acoral_alloc_thread s = acoral_get_res ThreadCtrl s"

definition set_thread_fields :: "ptr \<Rightarrow> kstate \<Rightarrow> thread \<Rightarrow> thread" where
  "set_thread_fields p s t =
     (let t = t\<lparr>t_delay := 0, t_time := 0, t_ipc := NULL, preempt_type := PREEMPT_LOCAL\<rparr>;
          t = (if cpu_mask t = - 1 then t\<lparr>cpu_mask := 0xefffffff\<rparr> else t);
          t = (if t_cpu t < 0 then t\<lparr>t_cpu := acoral_get_idle_maskcpu (cpu_mask t) s\<rparr> else t);
          t = (if t_cpu t \<ge> of_nat CFG_MAX_CPU then t\<lparr>t_cpu := of_nat (CFG_MAX_CPU - 1)\<rparr> else t)
      in t\<lparr>t_data := NULL, t_state := STATE_SUSPEND, console_id := console_id (threads s (cur_thread s))\<rparr>)"

definition init_thread_nodes :: "ptr \<Rightarrow> u8 \<Rightarrow> knode lheap \<Rightarrow> knode lheap" where
  "init_thread_nodes p prio h =
     acoral_list_init (GlobalL p) (acoral_list_init (Ready p) (acoral_vlist_init (Pending p) (uint prio)
       (acoral_vlist_init (Delaying p) 0 (acoral_vlist_init (Timing p) 0 h))))"

definition acoral_thread_init :: "ptr \<Rightarrow> ptr \<Rightarrow> ptr \<Rightarrow> kernel_error kret" where
  "acoral_thread_init p route args s =
     do {
       let sz = stack_size (threads s p);
       (ok, sz, s) \<leftarrow>
         (if stack_buttom (threads s p) = NULL then
            do {
              let sz = (if sz < CFG_MIN_STACK_SIZE then CFG_MIN_STACK_SIZE else sz);
              (a, s) \<leftarrow> buddy_malloc sz s;
              let s = upd_thr p (stack_buttom_update (\<lambda>_. a)) s;
              if a = NULL then Some (False, sz, s) else Some (True, sz, upd_thr p (stack_size_update (\<lambda>_. sz)) s)
            }
          else Some (True, sz, s));
       if \<not> ok then Some (KR_THREAD_ERR_NO_STACK, s)
       else do {
         let s = upd_thr p (\<lambda>t. hal_stack_init (stack_buttom t + sz - 4) route args t) s;
         let s = upd_thr p (set_thread_fields p s) s;
         let s = s\<lparr>heap := init_thread_nodes p (t_prio (threads s p)) (heap s)\<rparr>;
         let s = move_lock_free p s;
         s \<leftarrow> on_heap (acoral_fifo_queue_add ThreadsQ (GlobalL p)) (acoral_enter_critical s);
         s \<leftarrow> acoral_exit_critical s;
         Some (KR_OK, s)
       }
     }"

text \<open>\<^verbatim>\<open>sizeof(acoral_thread_t)\<close> is a parameter.\<close>

definition acoral_thread_pool_init :: "u32 \<Rightarrow> kop" where
  "acoral_thread_pool_init tcb_size s =
     (let n = (if CFG_MAX_THREAD > 20 then 20 else CFG_MAX_THREAD);
          s = upd_ctrl ThreadCtrl (\<lambda>c. c\<lparr>c_type := 1, c_size := tcb_size, num_per_pool := of_nat n,
                                         max_pools := of_nat (CFG_MAX_THREAD div n)\<rparr>) s
      in acoral_pool_ctrl_init ThreadCtrl s)"

definition acoral_sched_mechanism_init :: "u32 \<Rightarrow> kop" where
  "acoral_sched_mechanism_init tcb_size s =
     do {
       s \<leftarrow> acoral_thread_pool_init tcb_size s;
       let s = acoral_sched_rdyqueue_init s;
       Some (s\<lparr>heap := acoral_fifo_queue_init ThreadsQ (heap s)\<rparr>)
     }"

end
