(* ===== verification/Thread_Props.thy ===== *)
theory Thread_Props
  imports Ticklist Thread Example
begin

text \<open>
  Properties of the thread operations: how readying, suspending, changing priority and delaying a thread act
  on the ready queues, the delay queue and the running thread.
\<close>

section \<open>Readying and suspending on the executing CPU\<close>

text \<open>The executing CPU is outside any critical section and may schedule.\<close>

definition can_sched :: "kstate \<Rightarrow> bool" where
  "can_sched s \<longleftrightarrow> unat (current_cpu s) < CFG_MAX_CPU \<and> critical_nesting s (current_cpu s) = 0 \<and>
     hal_get_intr_nesting s = 0 \<and> sched_enable s"

lemma rdy_added_simps [simp]:
  "heap (rdy_added p h b s) = h" "current_cpu (rdy_added p h b s) = current_cpu s"
  "critical_nesting (rdy_added p h b s) = critical_nesting s" "sched_enable (rdy_added p h b s) = sched_enable s"
  "intr_nesting (rdy_added p h b s) = intr_nesting s" "running_thread (rdy_added p h b s) = running_thread s"
  "ipcs (rdy_added p h b s) = ipcs s" "need_sched (rdy_added p h b s) = (need_sched s)(current_cpu s := True)"
  "threads (rdy_added p h b s) = (threads s)(p := t_state_update (\<lambda>st. (st AND NOT STATE_SUSPEND) OR STATE_READY) (threads s p))"
  by (auto simp: rdy_added_def set_res_cpu_def upd_thr_def acoral_set_need_sched_def Let_def)

lemma rdy_deleted_simps [simp]:
  "heap (rdy_deleted p h b s) = h" "current_cpu (rdy_deleted p h b s) = current_cpu s"
  "critical_nesting (rdy_deleted p h b s) = critical_nesting s" "sched_enable (rdy_deleted p h b s) = sched_enable s"
  "intr_nesting (rdy_deleted p h b s) = intr_nesting s" "running_thread (rdy_deleted p h b s) = running_thread s"
  "ipcs (rdy_deleted p h b s) = ipcs s" "need_sched (rdy_deleted p h b s) = (need_sched s)(current_cpu s := True)"
  "res_word (rdy_deleted p h b s) = res_word s"
  "threads (rdy_deleted p h b s) = (threads s)(p := t_state_update (\<lambda>st. ((st AND NOT STATE_READY) AND NOT STATE_RUNNING) OR STATE_SUSPEND) (threads s p))"
  by (auto simp: rdy_deleted_def upd_thr_def acoral_set_need_sched_def Let_def)

lemma enter_more_simps [simp]:
  "sched_enable (acoral_enter_critical s) = sched_enable s"
  "hal_get_intr_nesting (acoral_enter_critical s) = hal_get_intr_nesting s"
  by (auto simp: acoral_enter_critical_def hal_intr_disable_save_def hal_get_intr_nesting_def Let_def)

text \<open>Leaving the outermost critical section with a rescheduling request pending: the chosen thread runs, or the
  running thread keeps the CPU because it must not be preempted.\<close>

lemma exit_critical_switches:
  assumes inv: "rdy_inv L s R" and cpu: "unat (current_cpu s) < CFG_MAX_CPU" and ne: "ready_on s L (current_cpu s) \<noteq> {}"
    and nest: "critical_nesting s (current_cpu s) = 1" and due: "need_sched s (current_cpu s)" "hal_get_intr_nesting s = 0" "sched_enable s"
  shows "\<exists>s' p. acoral_exit_critical s = Some s' \<and> sched_frame (leave_critical s) s' \<and> rdy_inv L s' R \<and>
    p \<in> ready_on s L (current_cpu s) \<and> (\<forall>t \<in> ready_on s L (current_cpu s). t_prio (threads s p) \<le> t_prio (threads s t)) \<and>
    cur_thread s' = (if t_state (threads s (cur_thread s)) = STATE_EXIT \<or> can_preempt (threads s (cur_thread s)) (threads s p)
                     then p else cur_thread s)"
proof -
  let ?s = "leave_critical s"
  have a: "rdy_inv L ?s R" "unat (current_cpu ?s) < CFG_MAX_CPU" "ready_on ?s L (current_cpu ?s) \<noteq> {}" using inv cpu ne by simp_all
  obtain s' p where s': "acoral_switch_context ?s = Some s'" "sched_frame ?s s'" "chosen ?s R p"
    "cur_thread s' = (if t_state (threads s (cur_thread s)) = STATE_EXIT \<or> can_preempt (threads s (cur_thread s)) (threads s p)
                     then p else cur_thread s)"
    using switch_context_ok [OF a] by auto
  have ex: "acoral_exit_critical s = Some s'"
    using exit_outermost [of s] nest due s'(1) by (simp add: acoral_sched_eq sched_due_def)
  have "p \<in> ready_on s L (current_cpu s)"
    using select_thread_chosen [OF a] chosen_unique s'(3) by (metis leave_critical_simps(18) leave_critical_simps(6))
  moreover have "t_prio (threads s p) \<le> t_prio (threads s t)" if "t \<in> ready_on s L (current_cpu s)" for t
    using chosen_highest [OF a(1,2) s'(3)] that by simp
  ultimately show ?thesis using ex s' sched_frame_rdy_inv [OF s'(2)] a(1) by blast
qed

lemma rdy_thread_ok:
  assumes inv: "rdy_inv L s R" and p: "p \<in> L" "flag (t_state (threads s p)) STATE_SUSPEND" "\<not> flag (t_state (threads s p)) STATE_READY"
    and here: "t_cpu (threads s p) = current_cpu s" and cs: "can_sched s"
  shows "\<exists>s' r xs. acoral_rdy_thread p s = Some (KR_OK, s') \<and> R (RdyQ (current_cpu s) (unat (t_prio (threads s p)))) = Some xs \<and>
    rdy_inv L s' (R(RdyQ (current_cpu s) (unat (t_prio (threads s p))) \<mapsto> xs @ [Ready p])) \<and>
    flag (t_state (threads s' p)) STATE_READY \<and> r \<in> insert p (ready_on s L (current_cpu s)) \<and>
    (\<forall>t \<in> insert p (ready_on s L (current_cpu s)). t_prio (threads s r) \<le> t_prio (threads s t)) \<and>
    (t_state (threads s (cur_thread s)) \<noteq> STATE_EXIT \<longrightarrow> p \<noteq> cur_thread s \<longrightarrow>
      cur_thread s' = (if can_preempt (threads s (cur_thread s)) (threads s r) then r else cur_thread s)) \<and>
    can_sched s' \<and> current_cpu s' = current_cpu s \<and> t_cpu (threads s' p) = current_cpu s \<and>
    (\<exists>h b. sched_frame (leave_critical (rdy_added p h b (acoral_enter_critical s))) s')"
proof -
  let ?e = "acoral_enter_critical s"
  have inv': "rdy_inv L ?e R" using inv by simp
  obtain h b xs where hb: "R (RdyQ (current_cpu s) (unat (t_prio (threads s p)))) = Some xs"
      "acoral_sched_rdyqueue_add p ?e = Some (rdy_added p h b ?e)"
      "rdy_inv L (rdy_added p h b ?e) (R(RdyQ (current_cpu s) (unat (t_prio (threads s p))) \<mapsto> xs @ [Ready p]))"
    using rdyqueue_add_inv [OF inv' p(1)] p(3) here by auto
  let ?a = "rdy_added p h b ?e"
  have ro: "ready_on ?a L (current_cpu s) = insert p (ready_on s L (current_cpu s))"
    using p(1) here by (auto simp: ready_on_def)
  have pr: "t_prio (threads ?a t) = t_prio (threads s t)" "preempt_type (threads ?a t) = preempt_type (threads s t)" for t
    by (simp_all)
  obtain s' r where s': "acoral_exit_critical ?a = Some s'" "sched_frame (leave_critical ?a) s'"
      "rdy_inv L s' (R(RdyQ (current_cpu s) (unat (t_prio (threads s p))) \<mapsto> xs @ [Ready p]))"
      "r \<in> ready_on ?a L (current_cpu s)" "\<forall>t \<in> ready_on ?a L (current_cpu s). t_prio (threads ?a r) \<le> t_prio (threads ?a t)"
      "cur_thread s' = (if t_state (threads ?a (cur_thread ?a)) = STATE_EXIT \<or> can_preempt (threads ?a (cur_thread ?a)) (threads ?a r)
                     then r else cur_thread ?a)"
    using exit_critical_switches [OF hb(3)] cs ro by (auto simp: can_sched_def hal_get_intr_nesting_def)
  have "flag (t_state (threads s' p)) STATE_READY"
    using sched_frame_thread(3) [OF s'(2), of p] by simp
  moreover have "can_sched s'" "current_cpu s' = current_cpu s" "t_cpu (threads s' p) = current_cpu s"
    using cs here sched_frameD [OF s'(2)] sched_frame_thread(1) [OF s'(2), of p]
    by (simp_all add: can_sched_def hal_get_intr_nesting_def) (simp_all add: leave_critical_def)
  moreover have "cur_thread ?a = cur_thread s" by (simp add: cur_thread_def)
  moreover have "acoral_rdy_thread p s = Some (KR_OK, s')"
    using p(2) here hb(2) s'(1) by (simp add: acoral_rdy_thread_def)
  ultimately show ?thesis using s' hb(1) ro pr by (auto simp: can_preempt_def split: if_splits)
qed

lemma suspend_thread_ok:
  assumes inv: "rdy_inv L s R" and p: "p \<in> L" "flag (t_state (threads s p)) STATE_READY"
    and here: "t_cpu (threads s p) = current_cpu s" and cs: "can_sched s" and ne: "ready_on s L (current_cpu s) - {p} \<noteq> {}"
  shows "\<exists>s' r xs ys. acoral_suspend_thread p s = Some (KR_OK, s') \<and>
    R (RdyQ (current_cpu s) (unat (t_prio (threads s p)))) = Some (xs @ Ready p # ys) \<and>
    rdy_inv L s' (R(RdyQ (current_cpu s) (unat (t_prio (threads s p))) \<mapsto> xs @ ys)) \<and>
    flag (t_state (threads s' p)) STATE_SUSPEND \<and> \<not> flag (t_state (threads s' p)) STATE_READY \<and>
    r \<in> ready_on s L (current_cpu s) - {p} \<and>
    (\<forall>t \<in> ready_on s L (current_cpu s) - {p}. t_prio (threads s r) \<le> t_prio (threads s t)) \<and>
    (p = cur_thread s \<longrightarrow> cur_thread s' = r)"
proof -
  let ?e = "acoral_enter_critical s" and ?q = "RdyQ (current_cpu s) (unat (t_prio (threads s p)))"
  have inv': "rdy_inv L ?e R" using inv by simp
  obtain h b xs ys where hb: "R ?q = Some (xs @ Ready p # ys)"
      "acoral_sched_rdyqueue_del p ?e = Some (rdy_deleted p h b ?e)" "rdy_inv L (rdy_deleted p h b ?e) (R(?q \<mapsto> xs @ ys))"
    using rdyqueue_del_inv [OF inv' p(1)] p(2) here by auto
  let ?a = "rdy_deleted p h b ?e"
  have ro: "ready_on ?a L (current_cpu s) = ready_on s L (current_cpu s) - {p}" by (auto simp: ready_on_def)
  have cc: "current_cpu ?a = current_cpu s" by simp
  have pre: "unat (current_cpu ?a) < CFG_MAX_CPU" "ready_on ?a L (current_cpu ?a) \<noteq> {}" "critical_nesting ?a (current_cpu ?a) = 1"
    "need_sched ?a (current_cpu ?a)" "hal_get_intr_nesting ?a = 0" "sched_enable ?a"
    using cs ro ne by (simp_all add: can_sched_def hal_get_intr_nesting_def)
  obtain s' r where s': "acoral_exit_critical ?a = Some s'" "sched_frame (leave_critical ?a) s'" "rdy_inv L s' (R(?q \<mapsto> xs @ ys))"
      "r \<in> ready_on ?a L (current_cpu s)" "\<forall>t \<in> ready_on ?a L (current_cpu s). t_prio (threads ?a r) \<le> t_prio (threads ?a t)"
      "cur_thread s' = (if t_state (threads ?a (cur_thread ?a)) = STATE_EXIT \<or> can_preempt (threads ?a (cur_thread ?a)) (threads ?a r)
                     then r else cur_thread ?a)"
    using exit_critical_switches [OF hb(3) pre] unfolding cc by blast
  have "flag (t_state (threads s' p)) STATE_SUSPEND" "\<not> flag (t_state (threads s' p)) STATE_READY"
    using sched_frame_thread(3,4) [OF s'(2), of p] by simp_all
  moreover have "cur_thread ?a = cur_thread s" by (simp add: cur_thread_def)
  moreover have "acoral_suspend_thread p s = Some (KR_OK, s')"
    using p(2) here hb(2) s'(1) by (simp add: acoral_suspend_thread_def)
  ultimately show ?thesis using s' hb(1) ro by (auto simp: can_preempt_def split: if_splits)
qed

section \<open>Properties of ready and suspend\<close>

text \<open>C29. Readying a suspended thread of the executing CPU that outranks every ready thread there, when the running
  thread may be preempted by it: the call succeeds, the thread is appended to its ready queue and is the running
  thread when it returns.\<close>

theorem rdy_thread_preempts:
  assumes "rdy_inv L s R" "p \<in> L" "flag (t_state (threads s p)) STATE_SUSPEND" "\<not> flag (t_state (threads s p)) STATE_READY"
    "t_cpu (threads s p) = current_cpu s" "can_sched s"
    "\<forall>t \<in> ready_on s L (current_cpu s). t_prio (threads s p) < t_prio (threads s t)"
    "t_state (threads s (cur_thread s)) \<noteq> STATE_EXIT" "p \<noteq> cur_thread s" "can_preempt (threads s (cur_thread s)) (threads s p)"
  shows "\<exists>s' xs. acoral_rdy_thread p s = Some (KR_OK, s') \<and> cur_thread s' = p \<and>
    R (RdyQ (current_cpu s) (unat (t_prio (threads s p)))) = Some xs \<and>
    rdy_inv L s' (R(RdyQ (current_cpu s) (unat (t_prio (threads s p))) \<mapsto> xs @ [Ready p]))"
proof -
  obtain s' r xs where s': "acoral_rdy_thread p s = Some (KR_OK, s')"
      "R (RdyQ (current_cpu s) (unat (t_prio (threads s p)))) = Some xs"
      "rdy_inv L s' (R(RdyQ (current_cpu s) (unat (t_prio (threads s p))) \<mapsto> xs @ [Ready p]))"
      "r \<in> insert p (ready_on s L (current_cpu s))"
      "\<forall>t \<in> insert p (ready_on s L (current_cpu s)). t_prio (threads s r) \<le> t_prio (threads s t)"
      "cur_thread s' = (if can_preempt (threads s (cur_thread s)) (threads s r) then r else cur_thread s)"
    using rdy_thread_ok [OF assms(1-6)] assms(8,9) by blast
  have "r = p" using s'(4,5) assms(7) by (metis insertCI insertE not_le)
  then show ?thesis using s' assms(10) by auto
qed

lemma ex_can_sched: "can_sched ex_kernel"
  by (simp add: can_sched_def CFG_MAX_CPU_def hal_get_intr_nesting_def)

theorem rdy_thread_preempts_witness:
  "\<exists>s'. acoral_rdy_thread 0x200 ex_kernel = Some (KR_OK, s') \<and> cur_thread s' = 0x200"
proof -
  have "t_state (threads ex_kernel 0x100) \<noteq> STATE_EXIT"
    by (simp add: ex_threads_def thread0_def state_defs)
  moreover have "can_preempt (threads ex_kernel 0x100) (threads ex_kernel 0x200)"
    by (simp add: can_preempt_def ex_threads_def thread0_def PREEMPT_LOCAL_def PREEMPT_GLOBAL_def PREEMPT_TIMED_def)
  ultimately show ?thesis
    using rdy_thread_preempts [OF ex_inv, of "0x200"] ex_can_sched ex_ready_on
    by (auto simp: ex_live_def ex_threads_def thread0_def)
qed

text \<open>A running thread that suspends itself leaves its ready queue and the CPU: the call succeeds and the
  highest-priority remaining ready thread of the CPU runs, even when the suspended thread was not preemptible.\<close>

theorem suspend_self_runs_next:
  assumes "rdy_inv L s R" "cur_thread s \<in> L" "flag (t_state (threads s (cur_thread s))) STATE_READY"
    "t_cpu (threads s (cur_thread s)) = current_cpu s" "can_sched s" "ready_on s L (current_cpu s) - {cur_thread s} \<noteq> {}"
  shows "\<exists>s' xs ys. acoral_suspend_self s = Some (KR_OK, s') \<and>
    R (RdyQ (current_cpu s) (unat (t_prio (threads s (cur_thread s))))) = Some (xs @ Ready (cur_thread s) # ys) \<and>
    rdy_inv L s' (R(RdyQ (current_cpu s) (unat (t_prio (threads s (cur_thread s)))) \<mapsto> xs @ ys)) \<and>
    flag (t_state (threads s' (cur_thread s))) STATE_SUSPEND \<and>
    cur_thread s' \<in> ready_on s L (current_cpu s) - {cur_thread s} \<and>
    (\<forall>t \<in> ready_on s L (current_cpu s) - {cur_thread s}. t_prio (threads s (cur_thread s')) \<le> t_prio (threads s t))"
  using suspend_thread_ok [OF assms] by (auto simp: acoral_suspend_self_def)

theorem suspend_self_runs_next_witness:
  "\<exists>s'. acoral_suspend_self ex_kernel = Some (KR_OK, s') \<and> cur_thread s' = 0x180"
proof -
  have "0x100 \<in> ex_live" "flag (t_state (threads ex_kernel 0x100)) STATE_READY" "t_cpu (threads ex_kernel 0x100) = 0"
    by (simp_all add: ex_live_def ex_threads_def thread0_def)
  then show ?thesis using suspend_self_runs_next [OF ex_inv] ex_can_sched by (auto simp: ex_ready_on)
qed

section \<open>Inside a critical section\<close>

text \<open>Within a critical section the same operations only change the queues and leave a request.\<close>

definition in_crit :: "kstate \<Rightarrow> bool" where
  "in_crit s \<longleftrightarrow> 0 < critical_nesting s (current_cpu s) \<and> critical_nesting s (current_cpu s) + 1 \<noteq> 0 \<and>
     unat (current_cpu s) < CFG_MAX_CPU"

definition op_frame :: "kstate \<Rightarrow> kstate \<Rightarrow> bool" where
  "op_frame s s' \<longleftrightarrow> current_cpu s' = current_cpu s \<and> running_thread s' = running_thread s \<and>
     critical_nesting s' = critical_nesting s \<and> sched_enable s' = sched_enable s \<and> intr_nesting s' = intr_nesting s \<and>
     ipcs s' = ipcs s \<and> lvalue (heap s') = lvalue (heap s)"

lemma op_frameD:
  assumes "op_frame s s'"
  shows "current_cpu s' = current_cpu s" "running_thread s' = running_thread s" "critical_nesting s' = critical_nesting s"
    "sched_enable s' = sched_enable s" "intr_nesting s' = intr_nesting s" "ipcs s' = ipcs s" "lvalue (heap s') = lvalue (heap s)"
    "cur_thread s' = cur_thread s" "hal_get_intr_nesting s' = hal_get_intr_nesting s" "in_crit s' = in_crit s"
  using assms by (simp_all add: op_frame_def cur_thread_def hal_get_intr_nesting_def in_crit_def)

lemma enter_exit_nested:
  assumes "in_crit s" "current_cpu t = current_cpu s" "critical_nesting t = critical_nesting (acoral_enter_critical s)"
  shows "acoral_exit_critical t = Some (t\<lparr>critical_nesting := critical_nesting s\<rparr>)"
proof -
  let ?n = "critical_nesting s (current_cpu s)"
  have "0 < unat ?n" "?n + 1 \<noteq> 0" using assms(1) by (auto simp: in_crit_def word_less_nat_alt)
  then have "unat (?n + 1) = Suc (unat ?n)" using unatSuc [of ?n] by (simp add: add.commute)
  then have "(1::u32) < ?n + 1" using \<open>0 < unat ?n\<close> by (simp add: word_less_nat_alt)
  then show ?thesis using exit_nested [of t] assms(2,3) by (simp add: fun_upd_id)
qed

lemma suspend_nested:
  assumes inv: "rdy_inv L s R" and p: "p \<in> L" "flag (t_state (threads s p)) STATE_READY"
    and here: "t_cpu (threads s p) = current_cpu s" and cr: "in_crit s"
  defines "q \<equiv> RdyQ (current_cpu s) (unat (t_prio (threads s p)))"
  shows "\<exists>s' xs ys. acoral_suspend_thread p s = Some (KR_OK, s') \<and> R q = Some (xs @ Ready p # ys) \<and>
    rdy_inv L s' (R(q \<mapsto> xs @ ys)) \<and> op_frame s s' \<and> need_sched s' (current_cpu s) \<and>
    threads s' = (threads s)(p := t_state_update (\<lambda>st. ((st AND NOT STATE_READY) AND NOT STATE_RUNNING) OR STATE_SUSPEND) (threads s p))"
proof -
  let ?e = "acoral_enter_critical s"
  have inv': "rdy_inv L ?e R" using inv by simp
  obtain h b xs ys where hb: "R q = Some (xs @ Ready p # ys)" "lvalue h = lvalue (heap s)"
      "acoral_sched_rdyqueue_del p ?e = Some (rdy_deleted p h b ?e)" "rdy_inv L (rdy_deleted p h b ?e) (R(q \<mapsto> xs @ ys))"
    using rdyqueue_del_inv [OF inv' p(1)] p(2) here by (auto simp: q_def)
  let ?s = "(rdy_deleted p h b ?e)\<lparr>critical_nesting := critical_nesting s\<rparr>"
  have "acoral_exit_critical (rdy_deleted p h b ?e) = Some ?s"
    using enter_exit_nested [OF cr, of "rdy_deleted p h b ?e"] by simp
  then have "acoral_suspend_thread p s = Some (KR_OK, ?s)"
    using p(2) here hb(3) by (simp add: acoral_suspend_thread_def)
  moreover have "rdy_inv L ?s (R(q \<mapsto> xs @ ys))" using hb(4) by (subst rdy_inv_cong [of _ "rdy_deleted p h b ?e"]) simp_all
  moreover have "op_frame s ?s" by (simp add: op_frame_def hb(2))
  ultimately show ?thesis using hb(1) by (force simp: )
qed

lemma rdy_nested:
  assumes inv: "rdy_inv L s R" and p: "p \<in> L" "flag (t_state (threads s p)) STATE_SUSPEND" "\<not> flag (t_state (threads s p)) STATE_READY"
    and here: "t_cpu (threads s p) = current_cpu s" and cr: "in_crit s"
  defines "q \<equiv> RdyQ (current_cpu s) (unat (t_prio (threads s p)))"
  shows "\<exists>s' xs. acoral_rdy_thread p s = Some (KR_OK, s') \<and> R q = Some xs \<and>
    rdy_inv L s' (R(q \<mapsto> xs @ [Ready p])) \<and> op_frame s s' \<and> need_sched s' (current_cpu s) \<and>
    threads s' = (threads s)(p := t_state_update (\<lambda>st. (st AND NOT STATE_SUSPEND) OR STATE_READY) (threads s p))"
proof -
  let ?e = "acoral_enter_critical s"
  have inv': "rdy_inv L ?e R" using inv by simp
  obtain h b xs where hb: "R q = Some xs" "lvalue h = lvalue (heap s)"
      "acoral_sched_rdyqueue_add p ?e = Some (rdy_added p h b ?e)" "rdy_inv L (rdy_added p h b ?e) (R(q \<mapsto> xs @ [Ready p]))"
    using rdyqueue_add_inv [OF inv' p(1)] p(3) here by (auto simp: q_def)
  let ?s = "(rdy_added p h b ?e)\<lparr>critical_nesting := critical_nesting s\<rparr>"
  have "acoral_exit_critical (rdy_added p h b ?e) = Some ?s"
    using enter_exit_nested [OF cr, of "rdy_added p h b ?e"] by simp
  then have "acoral_rdy_thread p s = Some (KR_OK, ?s)"
    using p(2) here hb(3) by (simp add: acoral_rdy_thread_def)
  moreover have "rdy_inv L ?s (R(q \<mapsto> xs @ [Ready p]))" using hb(4) by (subst rdy_inv_cong [of _ "rdy_added p h b ?e"]) simp_all
  moreover have "op_frame s ?s" by (simp add: op_frame_def hb(2))
  ultimately show ?thesis using hb(1) by force
qed

section \<open>Delays\<close>

lemma enter_critical_heap: "(acoral_enter_critical (s\<lparr>heap := h\<rparr>))\<lparr>heap := h'\<rparr> = (acoral_enter_critical s)\<lparr>heap := h'\<rparr>"
  by (simp add: acoral_enter_critical_def hal_intr_disable_save_def Let_def)

text \<open>A running thread that delays itself (its ticks below \<open>2 ^ 31\<close>) is suspended and enters the delay queue behind all
  threads due no later, with exactly its number of ticks to go; the other threads' remaining delays stay.\<close>

theorem delay_thread_enqueues:
  assumes inv: "rdy_inv L s R" and dl: "R DelayQ = Some (map Delaying ds)" "ticks_ok (lvalue (heap s)) (map Delaying ds)"
    and cur: "cur_thread s \<in> L" "flag (t_state (threads s (cur_thread s))) STATE_READY" "t_cpu (threads s (cur_thread s)) = current_cpu s"
    and cs: "can_sched s" and ne: "ready_on s L (current_cpu s) - {cur_thread s} \<noteq> {}"
    and nd: "free_node R (Delaying (cur_thread s))" "acoral_list_empty (Delaying (cur_thread s)) (heap s)"
    and t: "uint (TIME_TO_TICKS time) < 2 ^ 31"
  shows "\<exists>s' R' ds'. acoral_delay_ms time s = Some (KR_OK, s') \<and> rdy_inv L s' R' \<and> R' DelayQ = Some (map Delaying ds') \<and>
    due (lvalue (heap s')) 0 (map Delaying ds') =
      timed_ins (due (lvalue (heap s)) 0 (map Delaying ds)) (Delaying (cur_thread s)) (uint (TIME_TO_TICKS time)) \<and>
    ticks_ok (lvalue (heap s')) (map Delaying ds') \<and> flag (t_state (threads s' (cur_thread s))) STATE_SUSPEND \<and> cur_thread s' \<noteq> cur_thread s"
proof -
  let ?p = "cur_thread s" and ?v = "uint (TIME_TO_TICKS time)"
  let ?s1 = "acoral_enter_critical (upd_thr ?p (t_delay_update (\<lambda>_. TIME_TO_TICKS time)) s)"
  have base: "rdy_inv L ?s1 R" using inv by (subst rdy_inv_cong [of _ s]) (auto simp: upd_thr_def)
  have hs: "heap ?s1 = heap s" by (simp add: upd_thr_def)
  obtain h2 ds' where h2: "acoral_tick_queue_add DelayQ (Delaying ?p) (acoral_vlist_init (Delaying ?p) ?v (heap s)) = Some h2"
      and inv2: "rdy_inv L (?s1\<lparr>heap := h2\<rparr>) (R(DelayQ \<mapsto> map Delaying ds'))"
      and due: "due (lvalue h2) 0 (map Delaying ds') = timed_ins (due (lvalue (heap s)) 0 (map Delaying ds)) (Delaying ?p) ?v"
      and tk: "ticks_ok (lvalue h2) (map Delaying ds')"
    using delay.enter [OF base dl(1) _ nd(1) _ t] dl(2) unfolding hs by auto
  let ?s2 = "?s1\<lparr>heap := h2\<rparr>"
  have f2: "current_cpu ?s2 = current_cpu s" "in_crit ?s2" "t_state (threads ?s2 t) = t_state (threads s t)"
    "t_cpu (threads ?s2 t) = t_cpu (threads s t)" for t
    using cs by (auto simp: in_crit_def can_sched_def upd_thr_def)
  obtain s3 xs ys where s3: "acoral_suspend_thread ?p ?s2 = Some (KR_OK, s3)"
      "rdy_inv L s3 ((R(DelayQ \<mapsto> map Delaying ds'))(RdyQ (current_cpu s) (unat (t_prio (threads ?s2 ?p))) \<mapsto> xs @ ys))" "op_frame ?s2 s3"
      "need_sched s3 (current_cpu s)"
      "threads s3 = (threads ?s2)(?p := t_state_update (\<lambda>st. ((st AND NOT STATE_READY) AND NOT STATE_RUNNING) OR STATE_SUSPEND) (threads ?s2 ?p))"
    using suspend_nested [OF inv2 cur(1) _ _ f2(2)] cur(2,3) f2(1,3,4) by auto
  have ro: "ready_on s3 L (current_cpu s) = ready_on s L (current_cpu s) - {?p}"
    by (auto simp: ready_on_def s3(5) upd_thr_def)
  have pre: "unat (current_cpu s3) < CFG_MAX_CPU" "ready_on s3 L (current_cpu s3) \<noteq> {}" "critical_nesting s3 (current_cpu s3) = 1"
    "need_sched s3 (current_cpu s3)" "hal_get_intr_nesting s3 = 0" "sched_enable s3"
    using cs ne ro s3(4) by (simp_all add: op_frameD [OF s3(3)] can_sched_def hal_get_intr_nesting_def upd_thr_def)
  have c3: "cur_thread s3 = ?p" by (simp add: op_frameD [OF s3(3)] cur_thread_def upd_thr_def)
  obtain s' r where s': "acoral_exit_critical s3 = Some s'" "sched_frame (leave_critical s3) s'"
      "rdy_inv L s' ((R(DelayQ \<mapsto> map Delaying ds'))(RdyQ (current_cpu s) (unat (t_prio (threads ?s2 ?p))) \<mapsto> xs @ ys))"
      "r \<in> ready_on s3 L (current_cpu s3)"
      "cur_thread s' = (if t_state (threads s3 ?p) = STATE_EXIT \<or> can_preempt (threads s3 ?p) (threads s3 r) then r else ?p)"
    using exit_critical_switches [OF s3(2) pre] unfolding c3 by blast
  have "cur_thread s' = r" "r \<noteq> ?p"
    using s'(4,5) ro by (auto simp: can_preempt_def s3(5) op_frameD [OF s3(3)] upd_thr_def)
  moreover have "acoral_delay_ms time s = Some (KR_OK, s')"
    using nd(2) cur(3) h2 s3(1) s'(1)
    by (simp add: enter_critical_heap acoral_delay_ms_def acoral_delay_thread_def acoral_time_delay_queue_add_def on_heap_def Let_def upd_thr_def)
  moreover have "heap s' = heap s3" using sched_frameD(1) [OF s'(2)] by simp
  then have "lvalue (heap s') = lvalue h2" by (simp add: op_frameD [OF s3(3)])
  moreover have "flag (t_state (threads s' ?p)) STATE_SUSPEND" using sched_frame_thread(4) [OF s'(2), of ?p] by (simp add: s3(5))
  ultimately show ?thesis
    using s'(3) due tk
    by (intro exI [of _ s'] exI [of _ "(R(DelayQ \<mapsto> map Delaying ds'))(RdyQ (current_cpu s) (unat (t_prio (threads ?s2 ?p))) \<mapsto> xs @ ys)"]
        exI [of _ ds'] conjI) simp_all
qed

theorem delay_thread_enqueues_witness:
  "\<exists>s'. acoral_delay_ms 10 ex_kernel = Some (KR_OK, s') \<and> cur_thread s' \<noteq> 0x100 \<and>
     flag (t_state (threads s' 0x100)) STATE_SUSPEND"
proof -
  have "ex_R DelayQ = Some []" "uint (TIME_TO_TICKS 10) < 2 ^ 31" "0x100 \<in> ex_live"
    "flag (t_state (threads ex_kernel 0x100)) STATE_READY" "t_cpu (threads ex_kernel 0x100) = 0"
    "acoral_list_empty (Delaying 0x100) (heap ex_kernel)"
    by (simp_all add: ex_R_def TIME_TO_TICKS_def CFG_TICKS_PER_SEC_def ex_live_def ex_threads_def thread0_def acoral_list_empty_def ex_heap_def)
  moreover have "free_node ex_R (Delaying 0x100)"
    using ex_free by (fastforce simp: free_node_def ex_R_def split: knode.splits)
  ultimately show ?thesis
    using delay_thread_enqueues [OF ex_inv, of "[]" 10] ex_can_sched by (auto simp: ex_ready_on ticks_ok_def)
qed

section \<open>The tick\<close>

text \<open>The interrupt context: no scheduling happens before the interrupt returns.\<close>

definition in_intr :: "kstate \<Rightarrow> bool" where
  "in_intr s \<longleftrightarrow> hal_get_intr_nesting s \<noteq> 0 \<and> critical_nesting s (current_cpu s) = 0 \<and> unat (current_cpu s) < CFG_MAX_CPU"

lemma leave_intr [simp]: "intr_nesting (leave_critical s) = intr_nesting s"
  by (simp add: leave_critical_def)

lemma periods_frame [simp]:
  "periods (acoral_enter_critical s) = periods s" "periods (leave_critical s) = periods s" "periods (rdy_added p h b s) = periods s"
  by (simp_all add: acoral_enter_critical_def hal_intr_disable_save_def Let_def leave_critical_def rdy_added_def set_res_cpu_def
      upd_thr_def acoral_set_need_sched_def)

lemma rdy_intr:
  assumes inv: "rdy_inv L s R" and p: "p \<in> L" "flag (t_state (threads s p)) STATE_SUSPEND" "\<not> flag (t_state (threads s p)) STATE_READY"
    and here: "t_cpu (threads s p) = current_cpu s" and it: "in_intr s"
  defines "q \<equiv> RdyQ (current_cpu s) (unat (t_prio (threads s p)))"
  shows "\<exists>s' xs. acoral_rdy_thread p s = Some (KR_OK, s') \<and> R q = Some xs \<and>
    rdy_inv L s' (R(q \<mapsto> xs @ [Ready p])) \<and> in_intr s' \<and> current_cpu s' = current_cpu s \<and> running_thread s' = running_thread s \<and>
    lvalue (heap s') = lvalue (heap s) \<and> need_sched s' (current_cpu s) \<and> periods s' = periods s \<and>
    threads s' = (threads s)(p := t_state_update (\<lambda>st. (st AND NOT STATE_SUSPEND) OR STATE_READY) (threads s p))"
proof -
  let ?e = "acoral_enter_critical s"
  have inv': "rdy_inv L ?e R" using inv by simp
  obtain h b xs where hb: "R q = Some xs" "lvalue h = lvalue (heap s)"
      "acoral_sched_rdyqueue_add p ?e = Some (rdy_added p h b ?e)" "rdy_inv L (rdy_added p h b ?e) (R(q \<mapsto> xs @ [Ready p]))"
    using rdyqueue_add_inv [OF inv' p(1)] p(3) here by (auto simp: q_def)
  let ?s = "leave_critical (rdy_added p h b ?e)"
  have "acoral_exit_critical (rdy_added p h b ?e) = Some ?s"
    using exit_outermost [of "rdy_added p h b ?e"] it by (simp add: in_intr_def acoral_sched_eq sched_due_def hal_get_intr_nesting_def)
  then have "acoral_rdy_thread p s = Some (KR_OK, ?s)"
    using p(2) here hb(3) by (simp add: acoral_rdy_thread_def)
  moreover have "in_intr ?s" using it leave_critical_simps(12) [of "rdy_added p h b ?e"] by (simp add: in_intr_def hal_get_intr_nesting_def)
  ultimately show ?thesis using hb by (intro exI [of _ ?s] exI [of _ xs] conjI) simp_all
qed

text \<open>Threads of this CPU that wait in the delay queue.\<close>

definition delayed_here :: "ptr set \<Rightarrow> kstate \<Rightarrow> ptr \<Rightarrow> bool" where
  "delayed_here L s p \<longleftrightarrow> p \<in> L \<and> flag (t_state (threads s p)) STATE_SUSPEND \<and> \<not> flag (t_state (threads s p)) STATE_READY \<and>
     t_cpu (threads s p) = current_cpu s"

lemma delay_loop_wakes:
  assumes "rdy_inv L s R" "R DelayQ = Some (map Delaying (ps @ rs))" "in_intr s" "\<forall>p \<in> set (ps @ rs). delayed_here L s p"
    "\<forall>p \<in> set ps. lvalue (heap s) (Delaying p) \<le> 0" "rs \<noteq> [] \<longrightarrow> 0 < lvalue (heap s) (Delaying (hd rs))"
  shows "\<exists>s' R'. delay_loop (case ps @ rs of [] \<Rightarrow> DelayQ | p # _ \<Rightarrow> Delaying p) s = Some s' \<and> rdy_inv L s' R' \<and>
    R' DelayQ = Some (map Delaying rs) \<and> in_intr s' \<and> current_cpu s' = current_cpu s \<and> running_thread s' = running_thread s \<and>
    lvalue (heap s') = lvalue (heap s) \<and> (\<forall>p \<in> set ps. flag (t_state (threads s' p)) STATE_READY) \<and>
    (\<forall>p. p \<notin> set ps \<longrightarrow> threads s' p = threads s p)"
  using assms
proof (induction ps arbitrary: s R)
  case Nil
  then show ?case by (subst delay_loop.simps) (auto split: list.splits)
next
  case (Cons p ps)
  let ?n = "Delaying p" and ?next = "case ps @ rs of [] \<Rightarrow> DelayQ | p # _ \<Rightarrow> Delaying p"
  have R: "rings (heap s) R" and q: "R DelayQ = Some ([] @ ?n # map Delaying (ps @ rs))" "\<not> qlock (heap s) DelayQ"
    using rdy_invD(1,2) [OF Cons.prems(1)] Cons.prems(2) by simp_all
  have d: "distinct (p # ps @ rs)" using ringsD [OF R q(1)] by (auto simp: ring_def distinct_map)
  have nx: "lnext (heap s) ?n = ?next"
    using ring_next [OF ringsD [OF R q(1)]] by (cases "ps @ rs") (simp_all only: list.map list.case)
  let ?R1 = "R(DelayQ \<mapsto> map Delaying (ps @ rs))"
  obtain h where h: "acoral_tick_queue_del DelayQ ?n (heap s) = Some h" "rdy_inv L (s\<lparr>heap := h\<rparr>) ?R1" "lvalue h = lvalue (heap s)"
    using delay.leave [OF Cons.prems(1), of p "ps @ rs"] Cons.prems(2) by auto
  let ?s1 = "s\<lparr>heap := h\<rparr>"
  have ph: "delayed_here L s p" using Cons.prems(4) by simp
  have it1: "in_intr ?s1" using Cons.prems(3) by (simp add: in_intr_def hal_get_intr_nesting_def)
  obtain s2 xs where s2: "acoral_rdy_thread p ?s1 = Some (KR_OK, s2)"
      "rdy_inv L s2 (?R1(RdyQ (current_cpu s) (unat (t_prio (threads s p))) \<mapsto> xs @ [Ready p]))" "in_intr s2"
      "current_cpu s2 = current_cpu s" "running_thread s2 = running_thread s" "lvalue (heap s2) = lvalue (heap s)"
      "threads s2 = (threads s)(p := t_state_update (\<lambda>st. (st AND NOT STATE_SUSPEND) OR STATE_READY) (threads s p))"
    using rdy_intr [OF h(2) _ _ _ _ it1, of p] ph h(3) by (auto simp: delayed_here_def)
  have "\<forall>t \<in> set (ps @ rs). delayed_here L s2 t"
    using Cons.prems(4) d by (auto simp: delayed_here_def s2(4,7))
  then obtain s' R' where s': "delay_loop ?next s2 = Some s'" "rdy_inv L s' R'" "R' DelayQ = Some (map Delaying rs)" "in_intr s'"
      "current_cpu s' = current_cpu s2" "running_thread s' = running_thread s2" "lvalue (heap s') = lvalue (heap s2)"
      "\<forall>t \<in> set ps. flag (t_state (threads s' t)) STATE_READY" "\<forall>t. t \<notin> set ps \<longrightarrow> threads s' t = threads s2 t"
    using Cons.IH [OF s2(2)] s2(3,6) Cons.prems(5,6) by auto
  have "flag (t_state (threads s' p)) STATE_READY" using s'(9) d by (simp add: s2(7))
  moreover have "delay_loop ?n s = Some s'"
    using Cons.prems(5) h(1) s2(1) nx s'(1) by (subst delay_loop.simps) (simp add: on_heap_def)
  ultimately show ?case using s' s2 by (intro exI [of _ s'] exI [of _ R'] conjI) auto
qed

text \<open>C10. One tick of the delay queue, in the tick interrupt, with all delayed threads on this CPU. With a head whose delay has
  not expired, every delay goes down by one; exactly the threads whose delay reaches zero are readied and leave the
  queue, and the others keep their order. With a head that already has delay zero the remaining delays are not
  counted down in this tick: those threads sleep one tick longer.\<close>

theorem time_delay_deal_wakes:
  assumes inv: "rdy_inv L s R" and q: "R DelayQ = Some (map Delaying ps)" "ps \<noteq> []" "ticks_ok (lvalue (heap s)) (map Delaying ps)"
    and it: "in_intr s" and here: "\<forall>p \<in> set ps. delayed_here L s p"
  defines "d \<equiv> (if 0 < lvalue (heap s) (Delaying (hd ps)) then 1 else 0 :: int)"
    and "D \<equiv> due (lvalue (heap s)) 0 (map Delaying ps)"
  shows "\<exists>s' R' ws rs. time_delay_deal s = Some s' \<and> rdy_inv L s' R' \<and> ps = ws @ rs \<and> R' DelayQ = Some (map Delaying rs) \<and>
    (\<forall>(x, t) \<in> set (take (length ws) D). t = d) \<and> (\<forall>(x, t) \<in> set (drop (length ws) D). d < t) \<and>
    due (lvalue (heap s')) 0 (map Delaying rs) = map (\<lambda>(x, t). (x, t - d)) (drop (length ws) D) \<and>
    (\<forall>p \<in> set ws. flag (t_state (threads s' p)) STATE_READY) \<and> (\<forall>p. p \<notin> set ws \<longrightarrow> threads s' p = threads s p) \<and>
    running_thread s' = running_thread s"
proof -
  let ?f = "Delaying (hd ps)"
  let ?h = "set_value ?f (lvalue (heap s) ?f - (if 0 < lvalue (heap s) ?f then 1 else 0)) (heap s)"
  let ?s1 = "s\<lparr>heap := ?h\<rparr>"
  note cd = delay.count_down [OF inv q]
  obtain ws rs where split: "ps = ws @ rs" and wz: "\<forall>p \<in> set ws. lvalue ?h (Delaying p) = 0" and rp: "rs \<noteq> [] \<longrightarrow> 0 < lvalue ?h (Delaying (hd rs))"
      and sp: "\<forall>(x, t) \<in> set (take (length ws) D). t = d" "\<forall>(x, t) \<in> set (drop (length ws) D). d < t"
      "due (lvalue ?h) 0 (map Delaying rs) = map (\<lambda>(x, t). (x, t - d)) (drop (length ws) D)"
    using cd(5) unfolding d_def [symmetric] D_def [symmetric] by blast
  have s1: "in_intr ?s1" "\<forall>p \<in> set (ws @ rs). delayed_here L ?s1 p"
    using it here unfolding split [symmetric] by (simp_all add: in_intr_def hal_get_intr_nesting_def delayed_here_def)
  obtain s' R' where s': "delay_loop (case ws @ rs of [] \<Rightarrow> DelayQ | p # _ \<Rightarrow> Delaying p) ?s1 = Some s'" "rdy_inv L s' R'"
      "R' DelayQ = Some (map Delaying rs)" "running_thread s' = running_thread s" "lvalue (heap s') = lvalue ?h"
      "\<forall>p \<in> set ws. flag (t_state (threads s' p)) STATE_READY" "\<forall>p. p \<notin> set ws \<longrightarrow> threads s' p = threads s p"
    using delay_loop_wakes [OF cd(1) _ s1, of] q(1) wz rp unfolding split [symmetric] by auto
  have "(case ws @ rs of [] \<Rightarrow> DelayQ | p # _ \<Rightarrow> Delaying p) = ?f" using q(2) unfolding split [symmetric] by (cases ps) simp_all
  moreover have "set_value ?f (lvalue (heap s) ?f) (heap s) = heap s" by (simp add: set_value_def)
  ultimately have "time_delay_deal s = Some s'"
    using s'(1) cd(2-4) by (auto simp: time_delay_deal_def set_value_def Let_def split: if_splits)
  then show ?thesis using s' split sp
    by (intro exI [of _ s'] exI [of _ R'] exI [of _ ws] exI [of _ rs] conjI) simp_all
qed

text \<open>The example kernel with two members in a queue that is not a ready queue.\<close>

lemma ex_two_queued:
  assumes "ex_R q = Some []" "free_node ex_R a" "free_node ex_R b" "a \<noteq> b" "\<not> is_rdy q" "\<not> is_rdy a" "\<not> is_rdy b"
  shows "rdy_inv ex_live (ex_kernel\<lparr>heap := set_value b y (set_value a x (insert_after b a (insert_after a q ex_heap)))\<rparr>) (ex_R(q \<mapsto> [a, b]))"
proof -
  have "ex_R q = Some ([] @ [])" using assms(1) by simp
  from rings_insert [OF ex_rings this assms(2)] have r1: "rings (insert_after a q ex_heap) (ex_R(q \<mapsto> [a]))" by simp
  have nq: "b \<noteq> q" using free_nodeD [OF assms(3,1)] by simp
  have f: "free_node (ex_R(q \<mapsto> [a])) b" by (rule free_node_upd [OF assms(3)]) (use assms(4) nq in simp_all)
  have "(ex_R(q \<mapsto> [a])) q = Some ([a] @ [])" by simp
  from rings_insert [OF r1 this f] have r2: "rings (insert_after b a (insert_after a q ex_heap)) (ex_R(q \<mapsto> [a, b]))" by simp
  show ?thesis
  proof (rule rdy_inv_other [OF ex_inv])
    let ?h = "set_value b y (set_value a x (insert_after b a (insert_after a q ex_heap)))"
    show "rings ?h (ex_R(q \<mapsto> [a, b]))" using r2 by simp
    show "qlock ?h = (\<lambda>_. False)" by (simp add: set_value_def insert_after_def ex_heap_def)
  qed (use assms(5-7) in simp_all)
qed

text \<open>The example kernel in the tick interrupt, with two delayed threads, due in one and in five ticks.\<close>

definition ex_delay :: kstate where
  "ex_delay = ex_kernel\<lparr>heap := set_value (Delaying 0x280) 4 (set_value (Delaying 0x200) 1
     (insert_after (Delaying 0x280) (Delaying 0x200) (insert_after (Delaying 0x200) DelayQ ex_heap))), intr_nesting := (\<lambda>_. 1)\<rparr>"

lemma ex_free_other: "free_node ex_R (Delaying p)" "free_node ex_R (Timing p)"
  using ex_free by (fastforce simp: free_node_def ex_R_def split: knode.splits)+

lemma ex_delay_inv: "rdy_inv ex_live ex_delay (ex_R(DelayQ \<mapsto> map Delaying [0x200, 0x280]))"
  unfolding ex_delay_def
  using ex_two_queued [of DelayQ "Delaying 0x200" "Delaying 0x280" 4 1] ex_free_other
  by (subst rdy_inv_cong [of _ "ex_kernel\<lparr>heap := set_value (Delaying 0x280) 4 (set_value (Delaying 0x200) 1
     (insert_after (Delaying 0x280) (Delaying 0x200) (insert_after (Delaying 0x200) DelayQ ex_heap)))\<rparr>"])
    (simp_all add: ex_R_def)

theorem time_delay_deal_wakes_witness:
  "\<exists>s' ws rs. time_delay_deal ex_delay = Some s' \<and> [0x200, 0x280] = ws @ rs \<and>
     (\<forall>p \<in> set ws. flag (t_state (threads s' p)) STATE_READY)"
proof -
  have "ticks_ok (lvalue (heap ex_delay)) (map Delaying [0x200, 0x280])" "in_intr ex_delay"
    "\<forall>p \<in> set [0x200, 0x280]. delayed_here ex_live ex_delay p"
    by (simp_all add: ex_delay_def ticks_ok_def set_value_def in_intr_def hal_get_intr_nesting_def CFG_MAX_CPU_def delayed_here_def
        ex_live_def ex_threads_def thread0_def)
  then obtain s' R' ws rs where "time_delay_deal ex_delay = Some s'" "[0x200, 0x280] = ws @ rs"
      "\<forall>p \<in> set ws. flag (t_state (threads s' p)) STATE_READY"
    using time_delay_deal_wakes [OF ex_delay_inv, of "[0x200, 0x280]"] by fastforce
  then show ?thesis by blast
qed

section \<open>Changing priorities\<close>

lemma rdy_inv_chg_prio:
  assumes inv: "rdy_inv L s R" and nr: "\<not> flag (t_state (threads s p)) STATE_READY" and v: "unat v < 61"
  shows "rdy_inv L (upd_thr p (t_prio_update (\<lambda>_. v)) s) R"
proof -
  let ?s = "upd_thr p (t_prio_update (\<lambda>_. v)) s"
  have ring: "in_ring ?s L c r x \<longleftrightarrow> in_ring s L c r x" for c r x
    using nr by (auto simp: in_ring_def upd_thr_def)
  have "cpu_ok L ?s R c \<longleftrightarrow> cpu_ok L s R c" for c unfolding cpu_ok_def ring by (simp add: upd_thr_def)
  moreover have "thread_ok s R t \<Longrightarrow> thread_ok ?s R t" for t
    using nr v by (auto simp: thread_ok_def upd_thr_def)
  ultimately show ?thesis using inv unfolding rdy_inv_def by (auto simp: upd_thr_def)
qed

text \<open>C31. Changing the priority of a ready thread of the executing CPU (to a priority in range) moves it from its old queue to
  the end of the queue of the new priority, keeps all queues consistent, and then runs the highest-priority ready
  thread as usual.\<close>

theorem change_prio_moves:
  assumes inv: "rdy_inv L s R" and p: "p \<in> L" "flag (t_state (threads s p)) STATE_READY" "t_cpu (threads s p) = current_cpu s"
    and cs: "can_sched s" and v: "unat (ucast prio :: u8) < ACORAL_MAX_PRIO_NUM"
  shows "\<exists>s' xs ys zs. acoral_thread_change_prio p prio s = Some s' \<and>
    R (RdyQ (current_cpu s) (unat (t_prio (threads s p)))) = Some (xs @ Ready p # ys) \<and>
    (R(RdyQ (current_cpu s) (unat (t_prio (threads s p))) \<mapsto> xs @ ys)) (RdyQ (current_cpu s) (unat (ucast prio :: u8))) = Some zs \<and>
    rdy_inv L s' (R(RdyQ (current_cpu s) (unat (t_prio (threads s p))) \<mapsto> xs @ ys,
                    RdyQ (current_cpu s) (unat (ucast prio :: u8)) \<mapsto> zs @ [Ready p])) \<and>
    t_prio (threads s' p) = ucast prio"
proof -
  let ?e = "acoral_enter_critical s" and ?q = "RdyQ (current_cpu s) (unat (t_prio (threads s p)))" and ?v = "ucast prio :: u8"
  obtain h b xs ys where d: "R ?q = Some (xs @ Ready p # ys)" "acoral_sched_rdyqueue_del p ?e = Some (rdy_deleted p h b ?e)"
      "rdy_inv L (rdy_deleted p h b ?e) (R(?q \<mapsto> xs @ ys))"
    using rdyqueue_del_inv [of L ?e R p] inv p by auto
  let ?m = "upd_thr p (t_prio_update (\<lambda>_. ?v)) (rdy_deleted p h b ?e)"
  have m: "rdy_inv L ?m (R(?q \<mapsto> xs @ ys))" by (rule rdy_inv_chg_prio [OF d(3)]) (use v in simp_all)
  have f: "current_cpu ?m = current_cpu s" "t_cpu (threads ?m p) = current_cpu s" "t_prio (threads ?m p) = ?v"
    "\<not> flag (t_state (threads ?m p)) STATE_READY" using p(3) by (simp_all add: upd_thr_def)
  obtain h' b' zs where a: "(R(?q \<mapsto> xs @ ys)) (RdyQ (current_cpu s) (unat ?v)) = Some zs"
      "acoral_sched_rdyqueue_add p ?m = Some (rdy_added p h' b' ?m)"
      "rdy_inv L (rdy_added p h' b' ?m) (R(?q \<mapsto> xs @ ys, RdyQ (current_cpu s) (unat ?v) \<mapsto> zs @ [Ready p]))"
    using rdyqueue_add_inv [OF m p(1) f(4)] unfolding f(2,3) by blast
  let ?a = "rdy_added p h' b' ?m"
  have ra: "p \<in> ready_on ?a L (current_cpu s)" using p(1) f(2) by (simp add: ready_on_def)
  have pre: "unat (current_cpu ?a) < CFG_MAX_CPU" "ready_on ?a L (current_cpu ?a) \<noteq> {}" "critical_nesting ?a (current_cpu ?a) = 1"
    using cs ra f(1) by (auto simp: can_sched_def upd_thr_def)
  obtain s' where s': "acoral_exit_critical ?a = Some s'" "sched_frame (leave_critical ?a) s'"
      "rdy_inv L s' (R(?q \<mapsto> xs @ ys, RdyQ (current_cpu s) (unat ?v) \<mapsto> zs @ [Ready p]))"
    using exit_critical_ok [OF a(3) pre] by blast
  have "t_prio (threads s' p) = ?v" using sched_frame_thread(2) [OF s'(2), of p] f(3) by simp
  moreover have "acoral_thread_change_prio p prio s = Some s'"
    using p(2,3) d(2) a(2) s'(1) by (simp add: acoral_thread_change_prio_def Let_def)
  ultimately show ?thesis using d(1) a(1) s'(3) by blast
qed

theorem change_prio_moves_witness:
  "\<exists>s'. acoral_thread_change_prio 0x180 9 ex_kernel = Some s' \<and> t_prio (threads s' 0x180) = 9"
proof -
  have "0x180 \<in> ex_live" "flag (t_state (threads ex_kernel 0x180)) STATE_READY" "t_cpu (threads ex_kernel 0x180) = current_cpu ex_kernel"
    "unat (ucast (9::u32) :: u8) < ACORAL_MAX_PRIO_NUM"
    by (simp_all add: ex_live_def ex_threads_def thread0_def)
  then show ?thesis using change_prio_moves [OF ex_inv _ _ _ ex_can_sched, of "0x180" 9] by auto
qed

section \<open>Across CPUs\<close>

text \<open>C32. Readying a thread of another CPU: the call only sends a command there and returns; when that CPU then handles the
  command in its interrupt, the thread enters its ready queue there and the command slot is free again. The thread is
  found through its resource id.\<close>

theorem remote_ready:
  assumes inv: "rdy_inv L s R" and p: "p \<in> L" "flag (t_state (threads s p)) STATE_SUSPEND" "\<not> flag (t_state (threads s p)) STATE_READY"
    and far: "t_cpu (threads s p) = cpu" "cpu \<noteq> current_cpu s" and free: "\<not> cmd_lock (ipi_cmds s cpu)"
    and rid: "acoral_get_res_by_id (res_word s p) s = Some p" and there: "in_intr (s\<lparr>current_cpu := cpu\<rparr>)"
  shows "\<exists>s1 s2 xs. acoral_rdy_thread p s = Some (KR_OK, s1) \<and> heap s1 = heap s \<and> threads s1 = threads s \<and>
    acoral_ipi_cmd_handler ap ar (s1\<lparr>current_cpu := cpu\<rparr>) = Some s2 \<and> R (RdyQ cpu (unat (t_prio (threads s p)))) = Some xs \<and>
    rdy_inv L s2 (R(RdyQ cpu (unat (t_prio (threads s p))) \<mapsto> xs @ [Ready p])) \<and>
    flag (t_state (threads s2 p)) STATE_READY \<and> need_sched s2 cpu"
proof -
  have c: "unat cpu < 2" using rdy_invD(4) [OF inv p(1)] far(1) by (simp add: thread_ok_def CFG_MAX_CPU_def)
  then have lt: "\<not> cpu \<ge> 2" "cpu = 0 \<or> cpu = 1" by (auto simp: word_le_nat_alt word_unat_eq_iff less_2_cases_iff)
  let ?c = "\<lparr>cmd_lock = True, cmd_code = IPI_THREAD_READY, cmd_thread = res_word s p, cmd_data = 0\<rparr>"
  let ?s1 = "s\<lparr>ipi_cmds := (ipi_cmds s)(cpu := ?c), ipi_sent := (ipi_sent s)(cpu := ipi_sent s cpu + 1)\<rparr>"
  have one: "acoral_rdy_thread p s = Some (KR_OK, ?s1)"
    using p(2) far free lt by (simp add: acoral_rdy_thread_def acoral_ipi_cmd_send_def acoral_ipi_send_def CFG_MAX_CPU_def)
  let ?t = "?s1\<lparr>current_cpu := cpu, ipi_cmds := (ipi_cmds s)(cpu := ?c\<lparr>cmd_lock := False\<rparr>)\<rparr>"
  have inv': "rdy_inv L ?t R" using inv by (subst rdy_inv_cong [of _ s]) simp_all
  have "in_intr ?t" using there by (simp add: in_intr_def hal_get_intr_nesting_def)
  from rdy_intr [OF inv' p(1) _ _ _ this] p far
  obtain s2 xs where s2: "acoral_rdy_thread p ?t = Some (KR_OK, s2)" "R (RdyQ cpu (unat (t_prio (threads s p)))) = Some xs"
      "rdy_inv L s2 (R(RdyQ cpu (unat (t_prio (threads s p))) \<mapsto> xs @ [Ready p]))" "need_sched s2 cpu"
      "threads s2 = (threads s)(p := t_state_update (\<lambda>st. (st AND NOT STATE_SUSPEND) OR STATE_READY) (threads s p))"
    by auto
  have "acoral_get_res_by_id (res_word s p) ?t = Some p"
    using rid by (simp add: acoral_get_res_by_id_def Let_def split: option.splits pool_adr.splits)
  then have "acoral_ipi_cmd_handler ap ar (?s1\<lparr>current_cpu := cpu\<rparr>) = Some s2"
    using s2(1) by (simp add: acoral_ipi_cmd_handler_def acoral_rdy_thread_by_id_def IPI_THREAD_READY_def IPI_THREAD_KILL_def Let_def)
  then show ?thesis using one s2 by (intro exI [of _ ?s1] exI [of _ s2] exI [of _ xs] conjI) simp_all
qed

definition ex_remote :: kstate where
  "ex_remote = ex_kernel\<lparr>current_cpu := 1, intr_nesting := (\<lambda>_. 1), res_word := (\<lambda>_. 0)(0x200 := 0x4000),
     pools := (pools ex_kernel)(0 := (pools ex_kernel 0)\<lparr>base_adr := PMem 0x100, p_size := 0x100\<rparr>)\<rparr>"

theorem remote_ready_witness:
  "\<exists>s1 s2. acoral_rdy_thread 0x200 ex_remote = Some (KR_OK, s1) \<and>
     acoral_ipi_cmd_handler (\<lambda>_ s. Some s) (\<lambda>_ s. Some s) (s1\<lparr>current_cpu := 0\<rparr>) = Some s2 \<and>
     flag (t_state (threads s2 0x200)) STATE_READY"
proof -
  have "rdy_inv ex_live ex_remote ex_R" using ex_inv by (subst rdy_inv_cong [of _ ex_kernel]) (simp_all add: ex_remote_def)
  moreover have "acoral_get_res_by_id (res_word ex_remote 0x200) ex_remote = Some 0x200"
    by (simp add: ex_remote_def acoral_get_res_by_id_def acoral_get_pool_by_id_def POOL_INDEX_MASK_def RES_INDEX_MASK_def RES_INDEX_BIT_def
        ACORAL_MAX_POOLS_def)
  moreover have "0x200 \<in> ex_live" "flag (t_state (threads ex_remote 0x200)) STATE_SUSPEND" "t_cpu (threads ex_remote 0x200) = 0"
    "\<not> flag (t_state (threads ex_remote 0x200)) STATE_READY" "\<not> cmd_lock (ipi_cmds ex_remote 0)" "current_cpu ex_remote = 1"
    "in_intr (ex_remote\<lparr>current_cpu := 0\<rparr>)"
    by (simp_all add: ex_live_def ex_remote_def ex_threads_def thread0_def in_intr_def hal_get_intr_nesting_def CFG_MAX_CPU_def)
      (simp add: ex_kernel_def)
  ultimately show ?thesis using remote_ready [of ex_live ex_remote ex_R "0x200" 0] by fastforce
qed

end
