(* ===== verification/Ipc.thy ===== *)
theory Ipc
  imports Thread
begin

text \<open>
  Mutexes and counting semaphores: \<^verbatim>\<open>kernel/src/ipc.c\<close>. A blocking call suspends its thread when it leaves its first
  critical section and goes on when the thread runs again, so it is two operations: the call up to that point, which
  returns a result or \<open>Blocked\<close>, and its continuation (\<open>\<dots>_resume\<close>), for the thread that made the call. The spin lock
  of the object is taken in each of the two parts.
\<close>

definition ACORAL_IPC_MUTEX :: u8 where "ACORAL_IPC_MUTEX = 0"
definition ACORAL_IPC_SEM :: u8 where "ACORAL_IPC_SEM = 1"

datatype pend_result = Done kernel_error | Blocked

section \<open>Objects\<close>

text \<open>\<^verbatim>\<open>sizeof(acoral_ipc_t)\<close> is a parameter.\<close>

definition acoral_ipc_pool_init :: "u32 \<Rightarrow> kop" where
  "acoral_ipc_pool_init ipc_size s =
     acoral_pool_ctrl_init IpcCtrl
       (upd_ctrl IpcCtrl (\<lambda>c. c\<lparr>c_type := 2, c_size := ipc_size, num_per_pool := 8, c_num := 0, max_pools := 4\<rparr>) s)"

definition acoral_ipc_sys_init :: "u32 \<Rightarrow> kop" where
  "acoral_ipc_sys_init ipc_size s = acoral_ipc_pool_init ipc_size s"

definition acoral_ipc_alloc :: "ptr kret" where
  "acoral_ipc_alloc s = acoral_get_res IpcCtrl s"

definition acoral_ipc_init :: "ptr \<Rightarrow> kstate \<Rightarrow> kstate" where
  "acoral_ipc_init ipc s =
     (let s = upd_ipc ipc (i_lock_update (\<lambda>_. False)) s in s\<lparr>heap := acoral_prio_queue_init (WaitQ ipc) (heap s)\<rparr>)"

text \<open>A critical section with the object's spin lock held.\<close>

definition ipc_begin :: "ptr \<Rightarrow> kop" where
  "ipc_begin ipc s = ipc_lock ipc (acoral_enter_critical s)"

definition ipc_end :: "ptr \<Rightarrow> kop" where
  "ipc_end ipc s = acoral_exit_critical (ipc_unlock ipc s)"

definition ipc_return :: "ptr \<Rightarrow> 'r \<Rightarrow> 'r kret" where
  "ipc_return ipc r s = do { s \<leftarrow> ipc_end ipc s; Some (r, s) }"

section \<open>Mutexes\<close>

text \<open>The two values of the count; \<open>0xFF00\<close> stored in a signed 16-bit field.\<close>

definition MUTEX_AVAI :: int where "MUTEX_AVAI = 0x00FF"
definition MUTEX_NOAVAI :: int where "MUTEX_NOAVAI = s16 0xFF00"

definition mutex_fresh :: "ptr \<Rightarrow> kstate \<Rightarrow> kstate" where
  "mutex_fresh ipc s =
     acoral_ipc_init ipc (upd_ipc ipc (\<lambda>i. i\<lparr>i_count := MUTEX_AVAI, i_type := ACORAL_IPC_MUTEX, i_data := NULL\<rparr>) s)"

definition acoral_mutex_init :: "ptr \<Rightarrow> kernel_error kret" where
  "acoral_mutex_init ipc s =
     (if ipc = NULL then Some (KR_IPC_ERR_NULL, s) else Some (KR_OK, mutex_fresh ipc s))"

definition acoral_mutex_create :: "ptr kret" where
  "acoral_mutex_create s =
     do {
       (ipc, s) \<leftarrow> acoral_ipc_alloc s;
       if ipc = NULL then Some (NULL, s) else Some (ipc, mutex_fresh ipc s)
     }"

text \<open>The guards the calls share; the last argument is the type the object must have.\<close>

definition ipc_guard :: "bool \<Rightarrow> ptr \<Rightarrow> u8 \<Rightarrow> kstate \<Rightarrow> kernel_error option" where
  "ipc_guard no_intr ipc ty s =
     (if no_intr \<and> hal_get_intr_nesting s \<noteq> 0 then Some KR_IPC_ERR_INTR
      else if ipc = NULL then Some KR_IPC_ERR_NULL
      else if i_type (ipcs s ipc) \<noteq> ty then Some KR_IPC_ERR_TYPE
      else None)"

definition acoral_mutex_del :: "ptr \<Rightarrow> kernel_error kret" where
  "acoral_mutex_del ipc s =
     (case ipc_guard True ipc ACORAL_IPC_MUTEX s of
        Some e \<Rightarrow> Some (e, s)
      | None \<Rightarrow>
        do {
          s \<leftarrow> ipc_begin ipc s;
          if acoral_ipc_wait_queue_empty ipc s then ipc_return ipc KR_OK s
          else ipc_return ipc KR_IPC_ERR_TASK_EXIST s
        })"

definition mutex_take :: "ptr \<Rightarrow> ptr \<Rightarrow> kstate \<Rightarrow> kstate" where
  "mutex_take ipc cur = upd_ipc ipc (\<lambda>i. i\<lparr>i_count := MUTEX_NOAVAI, i_data := cur\<rparr>)"

definition acoral_mutex_trypend :: "ptr \<Rightarrow> kernel_error kret" where
  "acoral_mutex_trypend ipc s =
     (case ipc_guard True ipc ACORAL_IPC_MUTEX s of
        Some e \<Rightarrow> Some (e, s)
      | None \<Rightarrow>
        do {
          let cur = cur_thread s;
          s \<leftarrow> ipc_begin ipc s;
          if i_count (ipcs s ipc) = MUTEX_AVAI then ipc_return ipc KR_OK (mutex_take ipc cur s)
          else ipc_return ipc KR_IPC_ERR_TIMEOUT s
        })"

definition acoral_mutex_pend :: "ptr \<Rightarrow> pend_result kret" where
  "acoral_mutex_pend ipc s =
     (case ipc_guard True ipc ACORAL_IPC_MUTEX s of
        Some e \<Rightarrow> Some (Done e, s)
      | None \<Rightarrow>
        do {
          let cur = cur_thread s;
          s \<leftarrow> ipc_begin ipc s;
          if i_count (ipcs s ipc) = MUTEX_AVAI then ipc_return ipc (Done KR_OK) (mutex_take ipc cur s)
          else do {
            (_, s) \<leftarrow> acoral_suspend_self s;
            s \<leftarrow> acoral_ipc_wait_queue_add ipc cur s;
            ipc_return ipc Blocked s
          }
        })"

text \<open>When the mutex has an owner again, the call fails and the thread stays in the wait queue.\<close>

definition acoral_mutex_pend_resume :: "ptr \<Rightarrow> ptr \<Rightarrow> kernel_error kret" where
  "acoral_mutex_pend_resume ipc cur s =
     do {
       s \<leftarrow> ipc_begin ipc s;
       if i_data (ipcs s ipc) = NULL then
         do {
           s \<leftarrow> acoral_ipc_wait_queue_del ipc cur s;
           ipc_return ipc KR_OK (mutex_take ipc cur s)
         }
       else ipc_return ipc KR_IPC_ERR_UNDEF s
     }"

definition acoral_mutex_post :: "ptr \<Rightarrow> kernel_error kret" where
  "acoral_mutex_post ipc s =
     (case ipc_guard False ipc ACORAL_IPC_MUTEX s of
        Some e \<Rightarrow> Some (e, s)
      | None \<Rightarrow>
        if i_data (ipcs s ipc) \<noteq> cur_thread s then Some (KR_IPC_ERR_THREAD, s)
        else do {
          let s = upd_thr (cur_thread s) (t_ipc_update (\<lambda>_. NULL)) s;
          s \<leftarrow> ipc_begin ipc s;
          let s = upd_ipc ipc (\<lambda>i. i\<lparr>i_count := MUTEX_AVAI, i_data := NULL\<rparr>) s;
          thread \<leftarrow> acoral_ipc_high_thread ipc s;
          if thread = NULL then ipc_return ipc KR_OK s
          else do {
            s \<leftarrow> ipc_end ipc s;
            (_, s) \<leftarrow> acoral_rdy_thread thread s;
            Some (KR_OK, s)
          }
        })"

section \<open>Semaphores\<close>

text \<open>The count of a semaphore with \<open>n\<close> free resources is \<open>1 - n\<close>; above 1 it counts the waiting threads.\<close>

definition SEM_AVAI :: int where "SEM_AVAI = 0"
definition SEM_NOAVAI :: int where "SEM_NOAVAI = 1"

definition sem_fresh :: "u32 \<Rightarrow> ptr \<Rightarrow> kstate \<Rightarrow> kstate" where
  "sem_fresh semNum ipc s =
     acoral_ipc_init ipc (upd_ipc ipc (\<lambda>i. i\<lparr>i_count := s16 (uint (1 - semNum)), i_number := ucast semNum,
                                             i_type := ACORAL_IPC_SEM, i_data := NULL\<rparr>) s)"

text \<open>On a null pointer the code returns 0, the value of \<open>KR_OK\<close>.\<close>

definition acoral_sem_init :: "ptr \<Rightarrow> u32 \<Rightarrow> kernel_error kret" where
  "acoral_sem_init ipc semNum s = (if ipc = NULL then Some (KR_OK, s) else Some (KR_OK, sem_fresh semNum ipc s))"

definition acoral_sem_create :: "u32 \<Rightarrow> ptr kret" where
  "acoral_sem_create semNum s =
     do {
       (ipc, s) \<leftarrow> acoral_ipc_alloc s;
       if ipc = NULL then Some (NULL, s) else Some (ipc, sem_fresh semNum ipc s)
     }"

definition acoral_sem_del :: "ptr \<Rightarrow> kernel_error kret" where
  "acoral_sem_del ipc s =
     (case ipc_guard True ipc ACORAL_IPC_SEM s of
        Some e \<Rightarrow> Some (e, s)
      | None \<Rightarrow>
        do {
          s \<leftarrow> ipc_begin ipc s;
          if acoral_ipc_wait_queue_empty ipc s then ipc_return ipc KR_IPC_ERR_UNDEF s
          else ipc_return ipc KR_IPC_ERR_TASK_EXIST s
        })"

text \<open>The test for a free resource casts the count to a signed 8-bit value.\<close>

definition sem_avail :: "ptr \<Rightarrow> kstate \<Rightarrow> bool" where
  "sem_avail ipc s \<longleftrightarrow> s8 (i_count (ipcs s ipc)) \<le> SEM_AVAI"

definition count_add :: "ptr \<Rightarrow> int \<Rightarrow> kstate \<Rightarrow> kstate" where
  "count_add ipc d = upd_ipc ipc (\<lambda>i. i\<lparr>i_count := s16 (i_count i + d)\<rparr>)"

definition acoral_sem_trypend :: "ptr \<Rightarrow> kernel_error kret" where
  "acoral_sem_trypend ipc s =
     (case ipc_guard True ipc ACORAL_IPC_SEM s of
        Some e \<Rightarrow> Some (e, s)
      | None \<Rightarrow>
        do {
          s \<leftarrow> ipc_begin ipc s;
          if sem_avail ipc s then ipc_return ipc KR_OK (count_add ipc 1 s)
          else ipc_return ipc KR_IPC_ERR_TIMEOUT s
        })"

definition sem_block :: "ptr \<Rightarrow> ptr \<Rightarrow> pend_result kret" where
  "sem_block ipc cur s =
     do {
       (_, s) \<leftarrow> acoral_suspend_self s;
       s \<leftarrow> acoral_ipc_wait_queue_add ipc cur s;
       ipc_return ipc Blocked s
     }"

text \<open>\<open>acoral_sem_pends\<close> waits for a resource without taking it.\<close>

definition acoral_sem_pends :: "ptr \<Rightarrow> pend_result kret" where
  "acoral_sem_pends ipc s =
     (case ipc_guard True ipc ACORAL_IPC_SEM s of
        Some e \<Rightarrow> Some (Done e, s)
      | None \<Rightarrow>
        do {
          let cur = cur_thread s;
          s \<leftarrow> ipc_begin ipc s;
          if sem_avail ipc s then ipc_return ipc (Done KR_OK) s
          else sem_block ipc cur s
        })"

definition acoral_sem_pend :: "ptr \<Rightarrow> pend_result kret" where
  "acoral_sem_pend ipc s =
     (case ipc_guard True ipc ACORAL_IPC_SEM s of
        Some e \<Rightarrow> Some (Done e, s)
      | None \<Rightarrow>
        do {
          let cur = cur_thread s;
          s \<leftarrow> ipc_begin ipc s;
          if sem_avail ipc s then ipc_return ipc (Done KR_OK) (count_add ipc 1 s)
          else sem_block ipc cur (count_add ipc 1 s)
        })"

text \<open>The continuation of both.\<close>

definition acoral_sem_pend_resume :: "ptr \<Rightarrow> ptr \<Rightarrow> kernel_error kret" where
  "acoral_sem_pend_resume ipc cur s =
     do {
       s \<leftarrow> ipc_begin ipc s;
       s \<leftarrow> acoral_ipc_wait_queue_del ipc cur s;
       ipc_return ipc KR_OK s
     }"

text \<open>Readying all waiting threads. A list node of a thread is never at address 0, so the null test of the loop fails.\<close>

partial_function (option) posts_loop :: "knode \<Rightarrow> knode \<Rightarrow> kstate \<Rightarrow> kstate option" where
  "posts_loop head tmp s =
     (if tmp = head then Some s
      else do {
        thread \<leftarrow> pending_entry tmp;
        (_, s) \<leftarrow> acoral_rdy_thread thread s;
        posts_loop head (lnext (heap s) tmp) s
      })"

definition acoral_sem_posts :: "ptr \<Rightarrow> kernel_error kret" where
  "acoral_sem_posts ipc s =
     (case ipc_guard False ipc ACORAL_IPC_SEM s of
        Some e \<Rightarrow> Some (e, s)
      | None \<Rightarrow>
        do {
          s \<leftarrow> ipc_begin ipc s;
          if i_count (ipcs s ipc) \<ge> -32768 then
            do {
              let s = (if i_count (ipcs s ipc) \<le> SEM_NOAVAI then count_add ipc (-1) s else s);
              if acoral_list_empty (WaitQ ipc) (heap s) then ipc_return ipc KR_OK s
              else do {
                s \<leftarrow> posts_loop (WaitQ ipc) (lnext (heap s) (WaitQ ipc)) s;
                ipc_return ipc KR_OK s
              }
            }
          else Some (KR_OK, s)
        })"

text \<open>The error branch unlocks the object but stays in the critical section; a 16-bit count never takes it.\<close>

definition acoral_sem_post :: "ptr \<Rightarrow> kernel_error kret" where
  "acoral_sem_post ipc s =
     (case ipc_guard False ipc ACORAL_IPC_SEM s of
        Some e \<Rightarrow> Some (e, s)
      | None \<Rightarrow>
        do {
          s \<leftarrow> ipc_begin ipc s;
          if i_count (ipcs s ipc) \<ge> -32768 then
            if i_count (ipcs s ipc) \<le> SEM_NOAVAI then ipc_return ipc KR_OK (count_add ipc (-1) s)
            else do {
              let s = count_add ipc (-1) s;
              thread \<leftarrow> acoral_ipc_high_thread ipc s;
              if thread = NULL then ipc_return ipc KR_IPC_ERR_UNDEF s
              else do {
                (_, s) \<leftarrow> acoral_rdy_thread thread s;
                ipc_return ipc KR_OK s
              }
            }
          else Some (KR_IPC_ERR_UNDEF, ipc_unlock ipc s)
        })"

definition acoral_sem_getnum :: "ptr \<Rightarrow> int kret" where
  "acoral_sem_getnum ipc s =
     (if ipc = NULL then Some (err_code KR_IPC_ERR_NULL, s)
      else do {
        s \<leftarrow> ipc_begin ipc s;
        ipc_return ipc (1 - i_count (ipcs s ipc)) s
      })"

end
