(* ===== verification/Ipc_Props.thy ===== *)
theory Ipc_Props
  imports Ipc Thread_Props
begin

text \<open>
  Properties of mutexes and semaphores: mutual exclusion over all interleavings of the calls, who waits and who is
  woken, and how the count of a semaphore relates to its free resources.
\<close>

section \<open>Calls that leave the objects alone\<close>

named_theorems ipcs_frame

lemma select_ipcs [ipcs_frame]: "acoral_select_thread s = Some s' \<Longrightarrow> ipcs s' = ipcs s"
  by (auto simp: acoral_select_thread_def bind_Some_iff Let_def split: if_splits)

lemma set_running_ipcs [simp]: "ipcs (acoral_set_running_thread t s) = ipcs s"
  by (simp add: acoral_set_running_thread_def upd_thr_def Let_def)

lemma switch_ipcs [ipcs_frame]: "acoral_switch_context s = Some s' \<Longrightarrow> ipcs s' = ipcs s"
  by (auto simp: acoral_switch_context_def bind_Some_iff Let_def upd_thr_def move_lock_free_def
      dest!: select_ipcs split: if_splits)

lemma exit_critical_ipcs [ipcs_frame]: "acoral_exit_critical s = Some s' \<Longrightarrow> ipcs s' = ipcs s"
  by (auto simp: acoral_exit_critical_def acoral_sched_unlock_def acoral_sched_def hal_intr_restore_def Let_def
      dest!: switch_ipcs split: if_splits)

lemma on_heap_ipcs [ipcs_frame]: "on_heap f s = Some s' \<Longrightarrow> ipcs s' = ipcs s"
  by (auto simp: on_heap_Some)

lemma prio_queue_ipcs [ipcs_frame]:
  "acoral_thread_prio_queue_add c pr n s = Some s' \<Longrightarrow> ipcs s' = ipcs s"
  "acoral_thread_prio_queue_del c pr n s = Some s' \<Longrightarrow> ipcs s' = ipcs s"
  unfolding acoral_thread_prio_queue_add_def acoral_thread_prio_queue_del_def on_heap_def Let_def
  by (clarsimp simp only: bind_Some_iff option.inject split: if_splits option.splits; force)+

lemma rdyqueue_ipcs [ipcs_frame]:
  "acoral_sched_rdyqueue_add p s = Some s' \<Longrightarrow> ipcs s' = ipcs s"
  "acoral_sched_rdyqueue_del p s = Some s' \<Longrightarrow> ipcs s' = ipcs s"
  by (auto simp: acoral_sched_rdyqueue_add_def acoral_sched_rdyqueue_del_def bind_Some_iff upd_thr_def set_res_cpu_def
      acoral_set_need_sched_def Let_def dest!: prio_queue_ipcs)

lemma ipi_ipcs [ipcs_frame]: "acoral_ipi_cmd_send c k t d s = Some s' \<Longrightarrow> ipcs s' = ipcs s"
  by (auto simp: acoral_ipi_cmd_send_def acoral_ipi_send_def Let_def split: if_splits)

lemma rdy_ipcs [ipcs_frame]: "acoral_rdy_thread p s = Some (r, s') \<Longrightarrow> ipcs s' = ipcs s"
  by (auto simp: acoral_rdy_thread_def bind_Some_iff dest!: ipcs_frame split: if_splits)

lemma suspend_ipcs [ipcs_frame]: "acoral_suspend_self s = Some (r, s') \<Longrightarrow> ipcs s' = ipcs s"
  by (auto simp: acoral_suspend_self_def acoral_suspend_thread_def bind_Some_iff dest!: ipcs_frame split: if_splits)

lemma wait_queue_ipcs [ipcs_frame]:
  "acoral_ipc_wait_queue_add i p s = Some s' \<Longrightarrow> ipcs s' = ipcs s"
  "acoral_ipc_wait_queue_del i p s = Some s' \<Longrightarrow> ipcs s' = ipcs s"
  by (auto simp: acoral_ipc_wait_queue_add_def acoral_ipc_wait_queue_del_def bind_Some_iff upd_thr_def dest!: on_heap_ipcs)

text \<open>What a call did to the value of its object: the spin lock is free again.\<close>

lemma ipc_begin_ipcs: "ipc_begin ipc s = Some s' \<Longrightarrow> ipcs s' = (ipcs s)(ipc := (ipcs s ipc)\<lparr>i_lock := True\<rparr>)"
  by (auto simp: ipc_begin_def ipc_lock_def upd_ipc_def split: if_splits)

lemma ipc_return_ipcs:
  "ipc_return ipc x s = Some (r, s') \<longleftrightarrow> r = x \<and> ipc_end ipc s = Some s'"
  by (auto simp: ipc_return_def bind_Some_iff)

lemma ipc_end_ipcs: "ipc_end ipc s = Some s' \<Longrightarrow> ipcs s' = (ipcs s)(ipc := (ipcs s ipc)\<lparr>i_lock := False\<rparr>)"
  by (auto simp: ipc_end_def ipc_unlock_def upd_ipc_def dest!: exit_critical_ipcs)

lemmas ipc_effect = ipc_return_ipcs bind_Some_iff Let_def upd_ipc_def upd_thr_def

section \<open>Mutual exclusion\<close>

text \<open>The owner and the count of a mutex.\<close>

definition mutex_val :: "ptr \<Rightarrow> kstate \<Rightarrow> int \<times> ptr" where
  "mutex_val ipc s = (i_count (ipcs s ipc), i_data (ipcs s ipc))"

lemma trypend_val:
  assumes "acoral_mutex_trypend ipc s = Some (r, s')"
  shows "r = KR_OK \<and> i_count (ipcs s ipc) = MUTEX_AVAI \<and> mutex_val ipc s' = (MUTEX_NOAVAI, cur_thread s) \<or>
    r \<noteq> KR_OK \<and> mutex_val ipc s' = mutex_val ipc s"
  using assms
  by (auto simp: acoral_mutex_trypend_def ipc_effect mutex_val_def mutex_take_def ipc_guard_def
      dest!: ipc_begin_ipcs ipc_end_ipcs split: option.splits if_splits)

lemma pend_val:
  assumes "acoral_mutex_pend ipc s = Some (r, s')"
  shows "r = Done KR_OK \<and> i_count (ipcs s ipc) = MUTEX_AVAI \<and> mutex_val ipc s' = (MUTEX_NOAVAI, cur_thread s) \<or>
    r \<noteq> Done KR_OK \<and> mutex_val ipc s' = mutex_val ipc s"
  using assms
  by (auto simp: acoral_mutex_pend_def ipc_effect mutex_val_def mutex_take_def ipc_guard_def
      dest!: ipc_begin_ipcs ipc_end_ipcs suspend_ipcs wait_queue_ipcs split: option.splits if_splits)

lemma resume_val:
  assumes "acoral_mutex_pend_resume ipc p s = Some (r, s')"
  shows "r = KR_OK \<and> i_data (ipcs s ipc) = NULL \<and> mutex_val ipc s' = (MUTEX_NOAVAI, p) \<or>
    r \<noteq> KR_OK \<and> mutex_val ipc s' = mutex_val ipc s"
  using assms
  by (auto simp: acoral_mutex_pend_resume_def ipc_effect mutex_val_def mutex_take_def
      dest!: ipc_begin_ipcs ipc_end_ipcs wait_queue_ipcs split: if_splits)

lemma post_val:
  assumes "acoral_mutex_post ipc s = Some (r, s')"
  shows "r = KR_OK \<and> i_data (ipcs s ipc) = cur_thread s \<and> mutex_val ipc s' = (MUTEX_AVAI, NULL) \<or>
    r \<noteq> KR_OK \<and> mutex_val ipc s' = mutex_val ipc s"
  using assms
  by (auto simp: acoral_mutex_post_def ipc_effect mutex_val_def ipc_guard_def
      dest!: ipc_begin_ipcs ipc_end_ipcs rdy_ipcs split: option.splits if_splits)

text \<open>Runs of the kernel as the mutex \<open>ipc\<close> sees them: its initialisation, then in any order calls of its operations by
  whatever thread is running, the continuation of a blocked call by its thread, and steps of the rest of the kernel,
  which leave its value alone. \<open>H\<close> is the set of threads that were granted the mutex and have not released it, \<open>W\<close>
  the set of threads blocked in a call.\<close>

inductive mutex_run :: "ptr \<Rightarrow> kstate \<Rightarrow> ptr set \<Rightarrow> ptr set \<Rightarrow> bool" for ipc where
  start: "ipc \<noteq> NULL \<Longrightarrow> acoral_mutex_init ipc s0 = Some (KR_OK, s) \<Longrightarrow> mutex_run ipc s {} {}"
| trypend: "mutex_run ipc s H W \<Longrightarrow> cur_thread s \<noteq> NULL \<Longrightarrow> acoral_mutex_trypend ipc s = Some (r, s') \<Longrightarrow>
    mutex_run ipc s' (if r = KR_OK then insert (cur_thread s) H else H) W"
| pend: "mutex_run ipc s H W \<Longrightarrow> cur_thread s \<noteq> NULL \<Longrightarrow> acoral_mutex_pend ipc s = Some (r, s') \<Longrightarrow>
    mutex_run ipc s' (if r = Done KR_OK then insert (cur_thread s) H else H) (if r = Blocked then insert (cur_thread s) W else W)"
| resume: "mutex_run ipc s H W \<Longrightarrow> p \<in> W \<Longrightarrow> p = cur_thread s \<Longrightarrow> p \<noteq> NULL \<Longrightarrow>
    acoral_mutex_pend_resume ipc p s = Some (r, s') \<Longrightarrow> mutex_run ipc s' (if r = KR_OK then insert p H else H) (W - {p})"
| post: "mutex_run ipc s H W \<Longrightarrow> cur_thread s \<noteq> NULL \<Longrightarrow> acoral_mutex_post ipc s = Some (r, s') \<Longrightarrow>
    mutex_run ipc s' (if r = KR_OK then H - {cur_thread s} else H) W"
| other: "mutex_run ipc s H W \<Longrightarrow> mutex_val ipc s' = mutex_val ipc s \<Longrightarrow> mutex_run ipc s' H W"

inductive_cases mutex_run_elim: "mutex_run ipc s H W"

definition mutex_free :: "ptr \<Rightarrow> kstate \<Rightarrow> bool" where
  "mutex_free ipc s \<longleftrightarrow> mutex_val ipc s = (MUTEX_AVAI, NULL)"

lemma avai_neq [simp]: "MUTEX_AVAI \<noteq> MUTEX_NOAVAI" "MUTEX_NOAVAI \<noteq> MUTEX_AVAI"
  by (simp_all add: MUTEX_AVAI_def MUTEX_NOAVAI_def s16_def)

lemma mutex_run_inv:
  "mutex_run ipc s H W \<Longrightarrow> mutex_free ipc s \<and> H = {} \<or> (\<exists>p. p \<noteq> NULL \<and> mutex_val ipc s = (MUTEX_NOAVAI, p) \<and> H = {p})"
proof (induction rule: mutex_run.induct)
  case (start s0 s)
  then show ?case
    by (auto simp: acoral_mutex_init_def mutex_fresh_def acoral_ipc_init_def mutex_free_def mutex_val_def upd_ipc_def Let_def)
next
  case (trypend s H W r s')
  then show ?case using trypend_val [OF trypend.hyps(3)] by (auto simp: mutex_free_def mutex_val_def)
next
  case (pend s H W r s')
  then show ?case using pend_val [OF pend.hyps(3)] by (auto simp: mutex_free_def mutex_val_def)
next
  case (resume s H W p r s')
  then show ?case using resume_val [OF resume.hyps(5)] by (auto simp: mutex_free_def mutex_val_def)
next
  case (post s H W r s')
  then show ?case using post_val [OF post.hyps(3)] by (auto simp: mutex_free_def mutex_val_def)
next
  case (other s H W s')
  then show ?case by (simp add: mutex_free_def)
qed

text \<open>C3. Mutual exclusion. Over every interleaving of the calls on a mutex, at most one thread holds it; the thread
  recorded in the object is exactly the holder, and the count says the mutex is available exactly when nobody holds
  it.\<close>

theorem mutex_mutual_exclusion:
  assumes "mutex_run ipc s H W"
  shows "H = (if i_data (ipcs s ipc) = NULL then {} else {i_data (ipcs s ipc)}) \<and>
    (i_count (ipcs s ipc) = MUTEX_AVAI \<longleftrightarrow> H = {})"
  using mutex_run_inv [OF assms] by (auto simp: mutex_free_def mutex_val_def)

lemma exit_idle:
  assumes "critical_nesting s (current_cpu s) = 1" "\<not> need_sched s (current_cpu s)"
  shows "acoral_exit_critical s = Some (leave_critical s)"
  using exit_outermost [of s] assms by (simp add: acoral_sched_eq sched_due_def)

text \<open>A mutex taken by the running thread of the example kernel.\<close>

definition ex_held :: kstate where
  "ex_held = leave_critical (ipc_unlock 0x300 (mutex_take 0x300 0x100 (upd_ipc 0x300 (i_lock_update (\<lambda>_. True))
     (acoral_enter_critical (mutex_fresh 0x300 ex_kernel)))))"

lemma ex_held_run: "mutex_run 0x300 ex_held {0x100} {}"
proof -
  let ?s = "mutex_fresh 0x300 ex_kernel"
  have s: "current_cpu ?s = 0" "cur_thread ?s = 0x100" "hal_get_intr_nesting ?s = 0" "i_type (ipcs ?s 0x300) = 0"
    "i_count (ipcs ?s 0x300) = MUTEX_AVAI" "\<not> i_lock (ipcs ?s 0x300)" "critical_nesting ?s = (\<lambda>_. 0)" "\<not> need_sched ?s 0"
    by (simp_all add: mutex_fresh_def acoral_ipc_init_def upd_ipc_def hal_get_intr_nesting_def ACORAL_IPC_MUTEX_def Let_def
        cur_thread_def)
  have "mutex_run 0x300 ?s {} {}" by (rule mutex_run.start [of _ ex_kernel]) (simp_all add: acoral_mutex_init_def)
  moreover have "acoral_mutex_trypend 0x300 ?s = Some (KR_OK, ex_held)"
    using s by (simp add: acoral_mutex_trypend_def ipc_guard_def ACORAL_IPC_MUTEX_def ipc_begin_def ipc_lock_def
        ipc_return_def ipc_end_def exit_idle ipc_unlock_def mutex_take_def upd_ipc_def ex_held_def)
  ultimately show ?thesis using mutex_run.trypend [of "0x300" ?s "{}" "{}" KR_OK ex_held] s(2) by simp
qed

theorem mutex_mutual_exclusion_witness:
  "mutex_run 0x300 ex_held {0x100} {} \<and> i_data (ipcs ex_held 0x300) = 0x100 \<and> i_count (ipcs ex_held 0x300) \<noteq> MUTEX_AVAI"
  using mutex_mutual_exclusion [OF ex_held_run] ex_held_run by (auto split: if_splits)

section \<open>Waiting\<close>

text \<open>The running thread may block on an object: it is a ready thread of the executing CPU, another one is ready too, and
  it is in no wait queue.\<close>

definition may_block :: "ptr set \<Rightarrow> kstate \<Rightarrow> (knode \<rightharpoonup> knode list) \<Rightarrow> bool" where
  "may_block L s R \<longleftrightarrow> can_sched s \<and> cur_thread s \<in> L \<and> flag (t_state (threads s (cur_thread s))) STATE_READY \<and>
     t_cpu (threads s (cur_thread s)) = current_cpu s \<and> ready_on s L (current_cpu s) - {cur_thread s} \<noteq> {} \<and>
     free_node R (Pending (cur_thread s))"

lemma rdy_inv_upd_ipc [simp]: "rdy_inv L (upd_ipc i f s) R \<longleftrightarrow> rdy_inv L s R"
  by (rule rdy_inv_cong) (simp_all add: upd_ipc_def)

lemma rdy_inv_upd_t_ipc [simp]: "rdy_inv L (upd_thr p (t_ipc_update f) s) R \<longleftrightarrow> rdy_inv L s R"
  by (rule rdy_inv_cong) (simp_all add: upd_thr_def)

lemma upd_simps [simp]:
  "heap (upd_ipc i f s) = heap s" "threads (upd_ipc i f s) = threads s" "current_cpu (upd_ipc i f s) = current_cpu s"
  "critical_nesting (upd_ipc i f s) = critical_nesting s" "need_sched (upd_ipc i f s) = need_sched s"
  "cur_thread (upd_ipc i f s) = cur_thread s" "hal_get_intr_nesting (upd_ipc i f s) = hal_get_intr_nesting s"
  "sched_enable (upd_ipc i f s) = sched_enable s" "running_thread (upd_ipc i f s) = running_thread s"
  "heap (upd_thr p g s) = heap s" "current_cpu (upd_thr p g s) = current_cpu s" "critical_nesting (upd_thr p g s) = critical_nesting s"
  "need_sched (upd_thr p g s) = need_sched s" "cur_thread (upd_thr p g s) = cur_thread s"
  "hal_get_intr_nesting (upd_thr p g s) = hal_get_intr_nesting s" "sched_enable (upd_thr p g s) = sched_enable s"
  "running_thread (upd_thr p g s) = running_thread s" "ipcs (upd_thr p g s) = ipcs s"
  by (simp_all add: upd_ipc_def upd_thr_def cur_thread_def hal_get_intr_nesting_def)

text \<open>Blocking, from inside the critical section: the thread enters the wait queue by its waiting priority, and the
  highest-priority other ready thread runs.\<close>

lemma suspend_and_wait:
  assumes inv: "rdy_inv L s R" and mb: "may_block L s R" and w: "R (WaitQ ipc) = Some (map Pending ws)"
    and e: "heap e = heap s" "threads e = threads s" "rdy_bitmap e = rdy_bitmap s" "rdy_num e = rdy_num s"
      "current_cpu e = current_cpu s" "running_thread e = running_thread s" "sched_enable e = sched_enable s"
      "intr_nesting e = intr_nesting s" "critical_nesting e (current_cpu s) = 1" "cur = cur_thread s"
  obtains a h xs ys where "acoral_suspend_thread cur e = Some (KR_OK, a)"
    "R (RdyQ (current_cpu s) (unat (t_prio (threads s cur)))) = Some (xs @ Ready cur # ys)"
    "acoral_prio_queue_add (WaitQ ipc) (Pending cur) (heap a) = Some h"
    "rdy_inv L ((upd_thr cur (t_ipc_update (\<lambda>_. ipc)) a)\<lparr>heap := h\<rparr>)
       (R(RdyQ (current_cpu s) (unat (t_prio (threads s cur))) \<mapsto> xs @ ys,
          WaitQ ipc \<mapsto> prio_ins (lvalue (heap s)) (map Pending ws) (Pending cur)))"
    "op_frame e a" "need_sched a (current_cpu s)"
    "threads a = (threads s)(cur := t_state_update (\<lambda>st. ((st AND NOT STATE_READY) AND NOT STATE_RUNNING) OR STATE_SUSPEND) (threads s cur))"
proof -
  let ?q = "RdyQ (current_cpu s) (unat (t_prio (threads s cur)))"
  have m: "can_sched s" "cur \<in> L" "flag (t_state (threads s cur)) STATE_READY" "t_cpu (threads s cur) = current_cpu s"
    "ready_on s L (current_cpu s) - {cur} \<noteq> {}" "free_node R (Pending cur)" using mb e(10) by (simp_all add: may_block_def)
  have inve: "rdy_inv L e R" using inv by (subst rdy_inv_cong [of _ s]) (simp_all add: e)
  have "(1::u32) + 1 \<noteq> 0" by simp
  then have cr: "in_crit e" using m(1) e by (simp add: in_crit_def can_sched_def)
  obtain a xs ys where a: "acoral_suspend_thread cur e = Some (KR_OK, a)" "R ?q = Some (xs @ Ready cur # ys)"
      "rdy_inv L a (R(?q \<mapsto> xs @ ys))" "op_frame e a" "need_sched a (current_cpu s)"
      "threads a = (threads s)(cur := t_state_update (\<lambda>st. ((st AND NOT STATE_READY) AND NOT STATE_RUNNING) OR STATE_SUSPEND) (threads s cur))"
    using suspend_nested [OF inve m(2) _ _ cr] m e by auto
  note fa = op_frameD [OF a(4)]
  let ?b = "upd_thr cur (t_ipc_update (\<lambda>_. ipc)) a"
  have b: "rdy_inv L ?b (R(?q \<mapsto> xs @ ys))" using a(3) by simp
  have w': "(R(?q \<mapsto> xs @ ys)) (WaitQ ipc) = Some (map Pending ws)" using w by simp
  have nw: "free_node (R(?q \<mapsto> xs @ ys)) (Pending cur)"
  proof (rule free_node_upd [OF m(6)])
    show "Pending cur \<notin> set (xs @ ys)" using free_nodeD [OF m(6) a(2)] by auto
  qed simp
  obtain h where h: "acoral_prio_queue_add (WaitQ ipc) (Pending cur) (heap ?b) = Some h"
      "rings h (R(?q \<mapsto> xs @ ys, WaitQ ipc \<mapsto> prio_ins (lvalue (heap ?b)) (map Pending ws) (Pending cur)))" "qlock h = qlock (heap ?b)"
    using prioq.add_law [OF rdy_invD(1) [OF b] w' rdy_invD(2) [OF b] nw] by blast
  have lv: "lvalue (heap ?b) = lvalue (heap s)" using fa e by simp
  let ?R = "R(?q \<mapsto> xs @ ys, WaitQ ipc \<mapsto> prio_ins (lvalue (heap s)) (map Pending ws) (Pending cur))"
  have nr: "\<forall>x \<in> set (prio_ins (lvalue (heap s)) (map Pending ws) (Pending cur)). \<not> is_rdy x" by (auto simp: prioq.ins_set)
  let ?c = "?b\<lparr>heap := h\<rparr>"
  have "qlock h = (\<lambda>_. False)" using h(3) rdy_invD(2) [OF b] by auto
  then have c: "rdy_inv L ?c ?R" using rdy_inv_other [OF b, of h] h(2) nr unfolding lv by simp
  have "acoral_prio_queue_add (WaitQ ipc) (Pending cur) (heap a) = Some h" using h(1) by simp
  then show thesis by (rule that [OF a(1,2) _ c a(4-6)])
qed

lemma sem_block_ok:
  assumes inv: "rdy_inv L s R" and mb: "may_block L s R" and w: "R (WaitQ ipc) = Some (map Pending ws)"
    and e: "heap e = heap s" "threads e = threads s" "rdy_bitmap e = rdy_bitmap s" "rdy_num e = rdy_num s"
      "current_cpu e = current_cpu s" "running_thread e = running_thread s" "sched_enable e = sched_enable s"
      "intr_nesting e = intr_nesting s" "critical_nesting e (current_cpu s) = 1" "cur = cur_thread s"
  shows "\<exists>s' xs ys. sem_block ipc cur e = Some (Blocked, s') \<and>
    R (RdyQ (current_cpu s) (unat (t_prio (threads s cur)))) = Some (xs @ Ready cur # ys) \<and>
    rdy_inv L s' (R(RdyQ (current_cpu s) (unat (t_prio (threads s cur))) \<mapsto> xs @ ys,
                    WaitQ ipc \<mapsto> prio_ins (lvalue (heap s)) (map Pending ws) (Pending cur))) \<and>
    ipcs s' = (ipcs e)(ipc := (ipcs e ipc)\<lparr>i_lock := False\<rparr>) \<and>
    flag (t_state (threads s' cur)) STATE_SUSPEND \<and> t_ipc (threads s' cur) = ipc \<and>
    cur_thread s' \<in> ready_on s L (current_cpu s) - {cur} \<and>
    (\<forall>t \<in> ready_on s L (current_cpu s) - {cur}. t_prio (threads s (cur_thread s')) \<le> t_prio (threads s t))"
proof -
  let ?q = "RdyQ (current_cpu s) (unat (t_prio (threads s cur)))"
  have m: "can_sched s" "cur \<in> L" "t_cpu (threads s cur) = current_cpu s" "ready_on s L (current_cpu s) - {cur} \<noteq> {}"
    using mb e(10) by (simp_all add: may_block_def)
  have ce: "cur_thread e = cur" using e by (simp add: cur_thread_def)
  let ?R = "\<lambda>xs ys. R(?q \<mapsto> xs @ ys, WaitQ ipc \<mapsto> prio_ins (lvalue (heap s)) (map Pending ws) (Pending cur))"
  obtain a h xs ys where a: "acoral_suspend_thread cur e = Some (KR_OK, a)" "R ?q = Some (xs @ Ready cur # ys)"
      and h: "acoral_prio_queue_add (WaitQ ipc) (Pending cur) (heap a) = Some h"
      and c: "rdy_inv L ((upd_thr cur (t_ipc_update (\<lambda>_. ipc)) a)\<lparr>heap := h\<rparr>) (?R xs ys)"
      and fr: "op_frame e a" "need_sched a (current_cpu s)"
        "threads a = (threads s)(cur := t_state_update (\<lambda>st. ((st AND NOT STATE_READY) AND NOT STATE_RUNNING) OR STATE_SUSPEND) (threads s cur))"
    by (rule suspend_and_wait [OF inv mb w e])
  note fa = op_frameD [OF fr(1)]
  let ?d = "ipc_unlock ipc ((upd_thr cur (t_ipc_update (\<lambda>_. ipc)) a)\<lparr>heap := h\<rparr>)"
  have d: "rdy_inv L ?d (?R xs ys)" using c by (simp add: ipc_unlock_def)
  have ro: "ready_on ?d L (current_cpu s) = ready_on s L (current_cpu s) - {cur}"
    by (auto simp: ready_on_def ipc_unlock_def upd_ipc_def upd_thr_def fr(3))
  have fd: "current_cpu ?d = current_cpu s" "cur_thread ?d = cur" "need_sched ?d (current_cpu s)" "hal_get_intr_nesting ?d = 0"
    "sched_enable ?d" "critical_nesting ?d (current_cpu s) = 1" "ipcs ?d = (ipcs e)(ipc := (ipcs e ipc)\<lparr>i_lock := False\<rparr>)"
    "threads ?d = (threads a)(cur := t_ipc_update (\<lambda>_. ipc) (threads a cur))"
    using fa e m(1) fr(2) ce by (simp_all add: ipc_unlock_def upd_ipc_def upd_thr_def can_sched_def cur_thread_def hal_get_intr_nesting_def)
  have pre: "unat (current_cpu ?d) < CFG_MAX_CPU" "ready_on ?d L (current_cpu ?d) \<noteq> {}" "critical_nesting ?d (current_cpu ?d) = 1"
    "need_sched ?d (current_cpu ?d)" unfolding fd(1) using m fd ro by (simp_all add: can_sched_def)
  obtain s' p where s': "acoral_exit_critical ?d = Some s'" "sched_frame (leave_critical ?d) s'" "rdy_inv L s' (?R xs ys)"
      "p \<in> ready_on ?d L (current_cpu s)" "\<forall>t \<in> ready_on ?d L (current_cpu s). t_prio (threads ?d p) \<le> t_prio (threads ?d t)"
      "cur_thread s' = (if t_state (threads ?d cur) = STATE_EXIT \<or> can_preempt (threads ?d cur) (threads ?d p) then p else cur)"
    using exit_critical_switches [OF d pre fd(4,5)] unfolding fd(1,2) by blast
  have "flag (t_state (threads ?d cur)) STATE_SUSPEND" by (simp add: fd(8) fr(3))
  then have cp: "cur_thread s' = p" "flag (t_state (threads s' cur)) STATE_SUSPEND"
    using s'(6) sched_frame_thread(4) [OF s'(2)] by (simp_all add: can_preempt_def)
  have pr: "t_prio (threads ?d t) = t_prio (threads s t)" for t by (simp add: fd(8) fr(3))
  have "sem_block ipc cur e = Some (Blocked, s')"
    using a(1) h s'(1) ce
    by (simp add: sem_block_def acoral_suspend_self_def acoral_ipc_wait_queue_add_def on_heap_def ipc_return_def ipc_end_def)
  moreover have "ipcs s' = ipcs ?d" using sched_frameD(2) [OF s'(2)] by simp
  moreover have "t_ipc (threads s' cur) = ipc" using sched_frame_thread(5) [OF s'(2)] fd(8) by simp
  ultimately show ?thesis using s'(3,4,5) cp a(2) fd(7) unfolding ro pr by (intro exI [of _ s'] exI [of _ xs] exI [of _ ys]) simp
qed

lemma begin_free:
  "\<not> i_lock (ipcs s ipc) \<Longrightarrow> ipc_begin ipc s = Some (upd_ipc ipc (i_lock_update (\<lambda>_. True)) (acoral_enter_critical s))"
  by (simp add: ipc_begin_def ipc_lock_def)

lemma enter_idle [simp]: "can_sched s \<Longrightarrow> critical_nesting (acoral_enter_critical s) (current_cpu s) = 1"
  by (simp add: can_sched_def)

text \<open>C30. Pending on a mutex somebody holds: the calling thread is suspended and queued behind the waiters of the same or a
  higher priority, the highest-priority other ready thread gets the CPU, and the mutex keeps its owner.\<close>

theorem mutex_pend_blocks:
  assumes "rdy_inv L s R" "may_block L s R" "R (WaitQ ipc) = Some (map Pending ws)" "ipc \<noteq> NULL" "i_type (ipcs s ipc) = ACORAL_IPC_MUTEX"
    "i_count (ipcs s ipc) \<noteq> MUTEX_AVAI" "\<not> i_lock (ipcs s ipc)"
  shows "\<exists>s' xs ys. acoral_mutex_pend ipc s = Some (Blocked, s') \<and>
    R (RdyQ (current_cpu s) (unat (t_prio (threads s (cur_thread s))))) = Some (xs @ Ready (cur_thread s) # ys) \<and>
    rdy_inv L s' (R(RdyQ (current_cpu s) (unat (t_prio (threads s (cur_thread s)))) \<mapsto> xs @ ys,
                    WaitQ ipc \<mapsto> prio_ins (lvalue (heap s)) (map Pending ws) (Pending (cur_thread s)))) \<and>
    ipcs s' = ipcs s \<and> flag (t_state (threads s' (cur_thread s))) STATE_SUSPEND \<and> t_ipc (threads s' (cur_thread s)) = ipc \<and>
    cur_thread s' \<in> ready_on s L (current_cpu s) - {cur_thread s} \<and>
    (\<forall>t \<in> ready_on s L (current_cpu s) - {cur_thread s}. t_prio (threads s (cur_thread s')) \<le> t_prio (threads s t))"
proof -
  let ?e = "upd_ipc ipc (i_lock_update (\<lambda>_. True)) (acoral_enter_critical s)"
  have cs: "can_sched s" using assms(2) by (simp add: may_block_def)
  have e: "heap ?e = heap s" "threads ?e = threads s" "rdy_bitmap ?e = rdy_bitmap s" "rdy_num ?e = rdy_num s"
    "current_cpu ?e = current_cpu s" "running_thread ?e = running_thread s" "sched_enable ?e = sched_enable s"
    "intr_nesting ?e = intr_nesting s" "critical_nesting ?e (current_cpu s) = 1" "cur_thread s = cur_thread s"
    using cs by (simp_all add: count_add_def upd_ipc_def can_sched_def)
  have restored: "(ipcs ?e)(ipc := (ipcs ?e ipc)\<lparr>i_lock := False\<rparr>) = ipcs s"
    using assms(7) by (auto simp: upd_ipc_def fun_eq_iff)
  have "acoral_mutex_pend ipc s = sem_block ipc (cur_thread s) ?e"
    using assms(4-7) cs
    by (simp add: acoral_mutex_pend_def sem_block_def ipc_guard_def begin_free can_sched_def) (simp add: upd_ipc_def)
  then show ?thesis
    using sem_block_ok [OF assms(1-3) e] cs unfolding restored by metis
qed

text \<open>Pending on a semaphore without a free resource does the same, and counts one waiter more.\<close>

theorem sem_pend_blocks:
  assumes "rdy_inv L s R" "may_block L s R" "R (WaitQ ipc) = Some (map Pending ws)" "ipc \<noteq> NULL" "i_type (ipcs s ipc) = ACORAL_IPC_SEM"
    "0 < i_count (ipcs s ipc)" "i_count (ipcs s ipc) < 128" "\<not> i_lock (ipcs s ipc)"
  shows "\<exists>s' xs ys. acoral_sem_pend ipc s = Some (Blocked, s') \<and>
    R (RdyQ (current_cpu s) (unat (t_prio (threads s (cur_thread s))))) = Some (xs @ Ready (cur_thread s) # ys) \<and>
    rdy_inv L s' (R(RdyQ (current_cpu s) (unat (t_prio (threads s (cur_thread s)))) \<mapsto> xs @ ys,
                    WaitQ ipc \<mapsto> prio_ins (lvalue (heap s)) (map Pending ws) (Pending (cur_thread s)))) \<and>
    i_count (ipcs s' ipc) = i_count (ipcs s ipc) + 1 \<and> flag (t_state (threads s' (cur_thread s))) STATE_SUSPEND \<and>
    cur_thread s' \<in> ready_on s L (current_cpu s) - {cur_thread s} \<and>
    (\<forall>t \<in> ready_on s L (current_cpu s) - {cur_thread s}. t_prio (threads s (cur_thread s')) \<le> t_prio (threads s t))"
proof -
  let ?e = "count_add ipc 1 (upd_ipc ipc (i_lock_update (\<lambda>_. True)) (acoral_enter_critical s))"
  have cs: "can_sched s" using assms(2) by (simp add: may_block_def)
  have e: "heap ?e = heap s" "threads ?e = threads s" "rdy_bitmap ?e = rdy_bitmap s" "rdy_num ?e = rdy_num s"
    "current_cpu ?e = current_cpu s" "running_thread ?e = running_thread s" "sched_enable ?e = sched_enable s"
    "intr_nesting ?e = intr_nesting s" "critical_nesting ?e (current_cpu s) = 1" "cur_thread s = cur_thread s"
    using cs by (simp_all add: count_add_def upd_ipc_def can_sched_def)
  have s8: "s8 (i_count (ipcs s ipc)) = i_count (ipcs s ipc)" using assms(6,7) by (simp add: s8_def signed_take_bit_int_eq_self)
  have cnt: "i_count (ipcs ?e ipc) = i_count (ipcs s ipc) + 1" using assms(6,7) by (simp add: count_add_def upd_ipc_def)
  have "acoral_sem_pend ipc s = sem_block ipc (cur_thread s) ?e"
    using assms(4-8) cs s8
    by (simp add: acoral_sem_pend_def ipc_guard_def begin_free can_sched_def sem_avail_def SEM_AVAI_def) (simp add: upd_ipc_def)
  moreover obtain s' xs ys where "sem_block ipc (cur_thread s) ?e = Some (Blocked, s')"
      "R (RdyQ (current_cpu s) (unat (t_prio (threads s (cur_thread s))))) = Some (xs @ Ready (cur_thread s) # ys)"
      "rdy_inv L s' (R(RdyQ (current_cpu s) (unat (t_prio (threads s (cur_thread s)))) \<mapsto> xs @ ys,
                    WaitQ ipc \<mapsto> prio_ins (lvalue (heap s)) (map Pending ws) (Pending (cur_thread s))))"
      "ipcs s' = (ipcs ?e)(ipc := (ipcs ?e ipc)\<lparr>i_lock := False\<rparr>)" "flag (t_state (threads s' (cur_thread s))) STATE_SUSPEND"
      "cur_thread s' \<in> ready_on s L (current_cpu s) - {cur_thread s}"
      "\<forall>t \<in> ready_on s L (current_cpu s) - {cur_thread s}. t_prio (threads s (cur_thread s')) \<le> t_prio (threads s t)"
    using sem_block_ok [OF assms(1-3) e] by blast
  moreover from this(4) have "i_count (ipcs s' ipc) = i_count (ipcs s ipc) + 1" using cnt by simp
  ultimately show ?thesis by metis
qed

lemma ex_may_block: "may_block ex_live ex_kernel ex_R"
proof -
  have "free_node ex_R (Pending 0x100)" using ex_free by (fastforce simp: free_node_def ex_R_def split: knode.splits)
  then show ?thesis using ex_can_sched by (simp add: may_block_def ex_ready_on) (simp add: ex_live_def ex_threads_def thread0_def)
qed

definition ex_owned :: kstate where
  "ex_owned = upd_ipc 0x300 (\<lambda>i. i\<lparr>i_count := MUTEX_NOAVAI, i_data := 0x180\<rparr>) ex_kernel"

lemma ex_ipc_fields [simp]:
  "i_type (ipcs ex_kernel 0x300) = 0" "\<not> i_lock (ipcs ex_kernel 0x300)" "i_type (ipcs ex_kernel 0x340) = 1"
  "\<not> i_lock (ipcs ex_kernel 0x340)" "i_count (ipcs ex_kernel 0x340) = 1" "ex_R (WaitQ q) = Some []"
  by (simp_all add: ex_kernel_def ipc0_def ex_R_def)

lemma may_block_upd_ipc: "may_block L (upd_ipc i f s) R \<longleftrightarrow> may_block L s R"
  by (simp add: may_block_def can_sched_def ready_on_def)

theorem mutex_pend_blocks_witness:
  "\<exists>s'. acoral_mutex_pend 0x300 ex_owned = Some (Blocked, s') \<and> cur_thread s' = 0x180"
proof -
  have "rdy_inv ex_live ex_owned ex_R" "may_block ex_live ex_owned ex_R" "i_type (ipcs ex_owned 0x300) = ACORAL_IPC_MUTEX"
    "i_count (ipcs ex_owned 0x300) \<noteq> MUTEX_AVAI" "\<not> i_lock (ipcs ex_owned 0x300)" "current_cpu ex_owned = 0" "cur_thread ex_owned = 0x100"
    "ready_on ex_owned ex_live 0 = {0x100, 0x180}"
    using ex_inv ex_may_block ex_ready_on by (simp_all add: ex_owned_def may_block_upd_ipc ready_on_def) (simp_all add: upd_ipc_def ACORAL_IPC_MUTEX_def)
  then show ?thesis using mutex_pend_blocks [of ex_live ex_owned ex_R "0x300" "[]"] by auto
qed

theorem sem_pend_blocks_witness:
  "\<exists>s'. acoral_sem_pend 0x340 ex_kernel = Some (Blocked, s') \<and> cur_thread s' = 0x180 \<and> i_count (ipcs s' 0x340) = 2"
  using sem_pend_blocks [OF ex_inv ex_may_block, of "0x340" "[]"] ex_ready_on by (auto simp: ACORAL_IPC_SEM_def)

section \<open>Waking\<close>

text \<open>The executing CPU may schedule and has a ready thread.\<close>

definition live_cpu :: "ptr set \<Rightarrow> kstate \<Rightarrow> bool" where
  "live_cpu L s \<longleftrightarrow> can_sched s \<and> ready_on s L (current_cpu s) \<noteq> {}"

lemma ipc_end_ok:
  assumes inv: "rdy_inv L s R" and live: "live_cpu L s"
    and e: "rdy_inv L e R'" "current_cpu e = current_cpu s" "critical_nesting e (current_cpu s) = 1" "sched_enable e = sched_enable s"
      "intr_nesting e = intr_nesting s" "threads e = threads s"
  shows "\<exists>s'. ipc_end ipc e = Some s' \<and> rdy_inv L s' R' \<and> live_cpu L s' \<and> current_cpu s' = current_cpu s \<and> heap s' = heap e \<and>
    ipcs s' = (ipcs e)(ipc := (ipcs e ipc)\<lparr>i_lock := False\<rparr>) \<and> sched_frame (leave_critical (ipc_unlock ipc e)) s'"
proof -
  let ?d = "ipc_unlock ipc e"
  have d: "rdy_inv L ?d R'" using e(1) by (simp add: ipc_unlock_def)
  have f: "current_cpu ?d = current_cpu s" "critical_nesting ?d (current_cpu s) = 1" "threads ?d = threads s"
    "heap ?d = heap e" "ipcs ?d = (ipcs e)(ipc := (ipcs e ipc)\<lparr>i_lock := False\<rparr>)" "sched_enable ?d = sched_enable s"
    "intr_nesting ?d = intr_nesting s"
    using e by (simp_all add: ipc_unlock_def upd_ipc_def)
  have ro: "ready_on ?d L c = ready_on s L c" for c by (simp add: ready_on_def f)
  have pre: "unat (current_cpu ?d) < CFG_MAX_CPU" "ready_on ?d L (current_cpu ?d) \<noteq> {}" "critical_nesting ?d (current_cpu ?d) = 1"
    unfolding f(1) ro using live f(2) by (simp_all add: live_cpu_def can_sched_def)
  obtain s' where s': "acoral_exit_critical ?d = Some s'" "sched_frame (leave_critical ?d) s'" "rdy_inv L s' R'"
    using exit_critical_ok [OF d pre] by blast
  note g = sched_frameD [OF s'(2)]
  have "ready_on s' L c = ready_on s L c" for c
    using sched_frame_thread [OF s'(2)] by (simp add: ready_on_def f)
  then have "live_cpu L s'"
    using live g f by (simp add: live_cpu_def can_sched_def hal_get_intr_nesting_def) (simp add: leave_critical_def f)
  then show ?thesis using s' g f by (simp add: ipc_end_def)
qed

lemma begin_fields:
  assumes "can_sched s" "\<not> i_lock (ipcs s ipc)"
  defines "e \<equiv> upd_ipc ipc (i_lock_update (\<lambda>_. True)) (acoral_enter_critical s)"
  shows "ipc_begin ipc s = Some e" "current_cpu e = current_cpu s" "critical_nesting e (current_cpu s) = 1"
    "sched_enable e = sched_enable s" "intr_nesting e = intr_nesting s" "threads e = threads s" "heap e = heap s"
    "ipcs e = (ipcs s)(ipc := (ipcs s ipc)\<lparr>i_lock := True\<rparr>)" "rdy_inv L e R = rdy_inv L s R" "cur_thread e = cur_thread s"
  using assms by (simp_all add: begin_free can_sched_def) (simp_all add: upd_ipc_def)

lemma ready_on_upd [simp]:
  "ready_on (upd_ipc i f s) L c = ready_on s L c" "ready_on (upd_thr p (t_ipc_update g) s) L c = ready_on s L c"
  by (auto simp: ready_on_def upd_thr_def)

lemma live_cpu_upd [simp]:
  "live_cpu L (upd_ipc i f s) = live_cpu L s" "live_cpu L (upd_thr p (t_ipc_update g) s) = live_cpu L s"
  by (simp_all add: live_cpu_def can_sched_def)

text \<open>The state of a posted mutex before its critical section ends.\<close>

abbreviation mutex_given :: "ptr \<Rightarrow> kstate \<Rightarrow> kstate" where
  "mutex_given ipc s \<equiv> upd_ipc ipc (\<lambda>i. i\<lparr>i_count := MUTEX_AVAI, i_data := NULL\<rparr>)
     (upd_ipc ipc (i_lock_update (\<lambda>_. True)) (acoral_enter_critical (upd_thr (cur_thread s) (t_ipc_update (\<lambda>_. NULL)) s)))"

lemma mutex_given_end:
  assumes inv: "rdy_inv L s R" and live: "live_cpu L s" and lk: "\<not> i_lock (ipcs s ipc)"
  obtains s1 where "ipc_end ipc (mutex_given ipc s) = Some s1" "rdy_inv L s1 R" "live_cpu L s1" "current_cpu s1 = current_cpu s"
    "\<not> i_lock (ipcs s1 ipc)" "i_count (ipcs s1 ipc) = MUTEX_AVAI" "i_data (ipcs s1 ipc) = NULL"
    "\<And>t. t_prio (threads s1 t) = t_prio (threads s t)" "\<And>t. preempt_type (threads s1 t) = preempt_type (threads s t)"
    "\<And>t. flag (t_state (threads s1 t)) STATE_SUSPEND = flag (t_state (threads s t)) STATE_SUSPEND"
    "\<And>t. flag (t_state (threads s1 t)) STATE_READY = flag (t_state (threads s t)) STATE_READY"
    "\<And>t. t_cpu (threads s1 t) = t_cpu (threads s t)"
    "\<not> need_sched s (current_cpu s) \<Longrightarrow>
      cur_thread s1 = cur_thread s \<and> t_state (threads s1 (cur_thread s)) = t_state (threads s (cur_thread s))"
proof -
  let ?s = "upd_thr (cur_thread s) (t_ipc_update (\<lambda>_. NULL)) s" and ?f = "mutex_given ipc s"
  have inv': "rdy_inv L ?s R" "rdy_inv L ?f R" using inv by simp_all
  have live': "live_cpu L ?s" using live by simp
  then have cs: "can_sched ?s" by (simp add: live_cpu_def)
  have lk': "\<not> i_lock (ipcs ?s ipc)" using lk by simp
  note b = begin_fields [OF cs lk']
  have g: "current_cpu ?f = current_cpu ?s" "critical_nesting ?f (current_cpu ?s) = 1" "sched_enable ?f = sched_enable ?s"
    "intr_nesting ?f = intr_nesting ?s" "threads ?f = threads ?s"
    using b by (simp_all add: upd_ipc_def)
  obtain s1 where s1: "ipc_end ipc ?f = Some s1" "rdy_inv L s1 R" "live_cpu L s1" "current_cpu s1 = current_cpu ?s"
      "ipcs s1 = (ipcs ?f)(ipc := (ipcs ?f ipc)\<lparr>i_lock := False\<rparr>)" "sched_frame (leave_critical (ipc_unlock ipc ?f)) s1"
    using ipc_end_ok [OF inv'(1) live' inv'(2) g] by blast
  have pr: "t_prio (threads s1 t) = t_prio (threads s t)" "preempt_type (threads s1 t) = preempt_type (threads s t)"
      "flag (t_state (threads s1 t)) STATE_SUSPEND = flag (t_state (threads s t)) STATE_SUSPEND"
      "flag (t_state (threads s1 t)) STATE_READY = flag (t_state (threads s t)) STATE_READY" "t_cpu (threads s1 t) = t_cpu (threads s t)" for t
    using sched_frame_thread [OF s1(6), of t] b(6)
    by (cases "t = cur_thread s"; simp add: ipc_unlock_def; simp add: upd_thr_def)+
  have idle: "cur_thread s1 = cur_thread s \<and> t_state (threads s1 (cur_thread s)) = t_state (threads s (cur_thread s))"
    if c: "\<not> need_sched s (current_cpu s)"
  proof -
    let ?u = "ipc_unlock ipc ?f"
    have u: "critical_nesting ?u (current_cpu ?u) = 1" "\<not> need_sched ?u (current_cpu ?u)"
      using g(1,2) c by (simp_all add: ipc_unlock_def upd_ipc_def)
    then have "s1 = leave_critical ?u" using s1(1) exit_idle [OF u] by (simp add: ipc_end_def)
    then show ?thesis by (simp add: ipc_unlock_def upd_ipc_def cur_thread_def) (simp add: upd_thr_def)
  qed
  show thesis using that [OF s1(1-3) _ _ _ _ pr idle] s1(4,5) by (simp add: upd_ipc_def)
qed

text \<open>Posting a mutex with waiters: the mutex is free, the first waiter (the longest waiting one of the highest waiting
  priority) is appended to its ready queue, and it stays in the wait queue until it runs.\<close>

lemma mutex_post_ok:
  assumes inv: "rdy_inv L s R" and live: "live_cpu L s" and i: "ipc \<noteq> NULL" "i_type (ipcs s ipc) = ACORAL_IPC_MUTEX" "\<not> i_lock (ipcs s ipc)"
    and own: "i_data (ipcs s ipc) = cur_thread s" and w: "R (WaitQ ipc) = Some (Pending w # ws)" "w \<in> L" "w \<noteq> NULL"
      "flag (t_state (threads s w)) STATE_SUSPEND" "\<not> flag (t_state (threads s w)) STATE_READY" "t_cpu (threads s w) = current_cpu s"
  shows "\<exists>s' xs. acoral_mutex_post ipc s = Some (KR_OK, s') \<and> mutex_free ipc s' \<and>
    R (RdyQ (current_cpu s) (unat (t_prio (threads s w)))) = Some xs \<and>
    rdy_inv L s' (R(RdyQ (current_cpu s) (unat (t_prio (threads s w))) \<mapsto> xs @ [Ready w])) \<and>
    flag (t_state (threads s' w)) STATE_READY \<and> \<not> i_lock (ipcs s' ipc) \<and> live_cpu L s' \<and>
    (\<not> need_sched s (current_cpu s) \<longrightarrow> t_state (threads s (cur_thread s)) \<noteq> STATE_EXIT \<longrightarrow> w \<noteq> cur_thread s \<longrightarrow>
      can_preempt (threads s (cur_thread s)) (threads s w) \<longrightarrow> (\<forall>t \<in> ready_on s L (current_cpu s). t_prio (threads s w) < t_prio (threads s t)) \<longrightarrow>
      cur_thread s' = w)"
proof -
  obtain s1 where s1: "ipc_end ipc (mutex_given ipc s) = Some s1" "rdy_inv L s1 R" "live_cpu L s1" "current_cpu s1 = current_cpu s"
    "\<not> i_lock (ipcs s1 ipc)" "i_count (ipcs s1 ipc) = MUTEX_AVAI" "i_data (ipcs s1 ipc) = NULL"
    and pr1: "\<And>t. t_prio (threads s1 t) = t_prio (threads s t)" "\<And>t. preempt_type (threads s1 t) = preempt_type (threads s t)"
    "\<And>t. flag (t_state (threads s1 t)) STATE_SUSPEND = flag (t_state (threads s t)) STATE_SUSPEND"
    "\<And>t. flag (t_state (threads s1 t)) STATE_READY = flag (t_state (threads s t)) STATE_READY"
    "\<And>t. t_cpu (threads s1 t) = t_cpu (threads s t)"
    and idle: "\<not> need_sched s (current_cpu s) \<Longrightarrow>
      cur_thread s1 = cur_thread s \<and> t_state (threads s1 (cur_thread s)) = t_state (threads s (cur_thread s))"
    by (rule mutex_given_end [OF inv live i(3)]) blast
  have w1: "flag (t_state (threads s1 w)) STATE_SUSPEND" "\<not> flag (t_state (threads s1 w)) STATE_READY" "t_cpu (threads s1 w) = current_cpu s1"
    using w(4-6) s1(4) by (simp_all add: pr1)
  have ro1: "ready_on s1 L (current_cpu s) = ready_on s L (current_cpu s)" by (simp add: ready_on_def pr1)
  have c: "can_sched s1" using s1(3) by (simp add: live_cpu_def)
  let ?s = "upd_thr (cur_thread s) (t_ipc_update (\<lambda>_. NULL)) s"
  have "live_cpu L ?s" using live by simp
  then have cs: "can_sched ?s" by (simp add: live_cpu_def)
  have lk: "\<not> i_lock (ipcs ?s ipc)" using i(3) by simp
  obtain s' r xs where s': "acoral_rdy_thread w s1 = Some (KR_OK, s')" "R (RdyQ (current_cpu s) (unat (t_prio (threads s w)))) = Some xs"
      "rdy_inv L s' (R(RdyQ (current_cpu s) (unat (t_prio (threads s w))) \<mapsto> xs @ [Ready w]))" "flag (t_state (threads s' w)) STATE_READY"
      "r \<in> insert w (ready_on s L (current_cpu s))" "\<forall>t \<in> insert w (ready_on s L (current_cpu s)). t_prio (threads s r) \<le> t_prio (threads s t)"
      "t_state (threads s1 (cur_thread s1)) \<noteq> STATE_EXIT \<Longrightarrow> w \<noteq> cur_thread s1 \<Longrightarrow>
        cur_thread s' = (if can_preempt (threads s1 (cur_thread s1)) (threads s1 r) then r else cur_thread s1)"
      "can_sched s'" "current_cpu s' = current_cpu s" "t_cpu (threads s' w) = current_cpu s"
    using rdy_thread_ok [OF s1(2) w(2) w1 c] unfolding pr1(1) s1(4) ro1 by blast
  have "live_cpu L s'" using s'(4,8-10) w(2) by (auto simp: live_cpu_def ready_on_def)
  moreover have "cur_thread s' = w"
    if c: "\<not> need_sched s (current_cpu s)" "t_state (threads s (cur_thread s)) \<noteq> STATE_EXIT" "w \<noteq> cur_thread s"
      "can_preempt (threads s (cur_thread s)) (threads s w)" "\<forall>t \<in> ready_on s L (current_cpu s). t_prio (threads s w) < t_prio (threads s t)"
  proof -
    have "r = w" using s'(5,6) c(5) by (metis insertCI insertE not_le)
    moreover have "can_preempt (threads s1 (cur_thread s)) (threads s1 w)" using c(4) pr1 by (simp add: can_preempt_def)
    ultimately show ?thesis using s'(7) c(2,3) idle [OF c(1)] by simp
  qed
  moreover have rf: "rings (heap s) R" by (rule rdy_invD(1) [OF inv])
  have hi: "acoral_ipc_high_thread ipc (mutex_given ipc s) = Some w"
    using ring_next_head [OF ringsD [OF rf, of "WaitQ ipc" "Pending w # ws"]] ring_empty_iff [OF ringsD [OF rf w(1)]] w(1)
    by (simp add: acoral_ipc_high_thread_def upd_ipc_def)
  moreover have "acoral_mutex_post ipc s = Some (KR_OK, s')"
    using hi i own w(3) s1(1) s'(1) begin_fields(1) [OF cs lk] by (simp add: acoral_mutex_post_def ipc_guard_def Let_def)
  moreover have "mutex_free ipc s'" using rdy_ipcs [OF s'(1)] s1(6,7) by (simp add: mutex_free_def mutex_val_def)
  moreover have "\<not> i_lock (ipcs s' ipc)" using rdy_ipcs [OF s'(1)] s1(5) by simp
  ultimately show ?thesis using s'(2-4) by blast
qed

text \<open>When the woken thread runs and the mutex is still free, its call returns successfully: it owns the mutex and has left
  the wait queue, whose other members stay in order.\<close>

lemma mutex_resume_ok:
  assumes inv: "rdy_inv L s R" and live: "live_cpu L s" and i: "\<not> i_lock (ipcs s ipc)" "i_data (ipcs s ipc) = NULL"
    and w: "R (WaitQ ipc) = Some (map Pending (us @ p # vs))"
  shows "\<exists>s'. acoral_mutex_pend_resume ipc p s = Some (KR_OK, s') \<and> mutex_val ipc s' = (MUTEX_NOAVAI, p) \<and>
    rdy_inv L s' (R(WaitQ ipc \<mapsto> map Pending (us @ vs)))"
proof -
  let ?e = "upd_ipc ipc (i_lock_update (\<lambda>_. True)) (acoral_enter_critical s)" and ?R = "R(WaitQ ipc \<mapsto> map Pending (us @ vs))"
  have cs: "can_sched s" using live by (simp add: live_cpu_def)
  note b = begin_fields [OF cs i(1)]
  have inve: "rdy_inv L ?e R" using inv by simp
  have w': "R (WaitQ ipc) = Some (map Pending us @ Pending p # map Pending vs)" using w by simp
  obtain h where h: "acoral_prio_queue_del (WaitQ ipc) (Pending p) (heap ?e) = Some h" "rings h (R(WaitQ ipc \<mapsto> map Pending us @ map Pending vs))"
      "qlock h = qlock (heap ?e)"
    using prioq.del_law [OF rdy_invD(1) [OF inve] w' rdy_invD(2) [OF inve]] by blast
  have "qlock h = (\<lambda>_. False)" using h(3) rdy_invD(2) [OF inve] by auto
  moreover have "\<forall>x \<in> set (map Pending (us @ vs)). \<not> is_rdy x" by auto
  ultimately have i1: "rdy_inv L (?e\<lparr>heap := h\<rparr>) ?R" using rdy_inv_other [OF inve, of h "WaitQ ipc" "map Pending (us @ vs)"] h(2) by simp
  let ?f = "mutex_take ipc p (upd_thr p (t_ipc_update (\<lambda>_. NULL)) (?e\<lparr>heap := h\<rparr>))"
  have if': "rdy_inv L ?f ?R" using i1 by (simp add: mutex_take_def)
  have "\<exists>s'. ipc_end ipc ?f = Some s' \<and> rdy_inv L s' ?R \<and> ipcs s' = (ipcs ?f)(ipc := (ipcs ?f ipc)\<lparr>i_lock := False\<rparr>)"
  proof -
    let ?s = "upd_thr p (t_ipc_update (\<lambda>_. NULL)) s"
    have "rdy_inv L ?s R" "live_cpu L ?s"
      using inv live by simp_all
    moreover have "current_cpu ?f = current_cpu ?s" "critical_nesting ?f (current_cpu ?s) = 1" "sched_enable ?f = sched_enable ?s"
      "intr_nesting ?f = intr_nesting ?s" "threads ?f = threads ?s"
      using b by (simp_all add: mutex_take_def) (simp_all add: upd_ipc_def upd_thr_def)
    ultimately show ?thesis using ipc_end_ok [OF _ _ if'] by blast
  qed
  then obtain s' where s': "ipc_end ipc ?f = Some s'" "rdy_inv L s' ?R" "ipcs s' = (ipcs ?f)(ipc := (ipcs ?f ipc)\<lparr>i_lock := False\<rparr>)" by blast
  have "acoral_mutex_pend_resume ipc p s = Some (KR_OK, s')"
    using s'(1) b(1,8) h(1) i(2)
    by (simp add: acoral_mutex_pend_resume_def acoral_ipc_wait_queue_del_def on_heap_def ipc_return_def)
  then show ?thesis using s'(2,3) by (simp add: mutex_val_def mutex_take_def upd_ipc_def)
qed

text \<open>C4. The hand-over of a mutex: when its holder posts it and the first waiter outranks the ready threads and may preempt the
  holder, the post switches to that waiter, whose call then returns successfully: it holds the mutex, and the other waiters keep
  their order.\<close>

theorem mutex_handover:
  assumes inv: "rdy_inv L s R" and live: "live_cpu L s" and i: "ipc \<noteq> NULL" "i_type (ipcs s ipc) = ACORAL_IPC_MUTEX" "\<not> i_lock (ipcs s ipc)"
    and own: "i_data (ipcs s ipc) = cur_thread s" and w: "R (WaitQ ipc) = Some (map Pending (w # ws))" "w \<in> L" "w \<noteq> NULL"
      "flag (t_state (threads s w)) STATE_SUSPEND" "\<not> flag (t_state (threads s w)) STATE_READY" "t_cpu (threads s w) = current_cpu s"
    and pre: "\<not> need_sched s (current_cpu s)" "t_state (threads s (cur_thread s)) \<noteq> STATE_EXIT" "w \<noteq> cur_thread s"
      "can_preempt (threads s (cur_thread s)) (threads s w)" "\<forall>t \<in> ready_on s L (current_cpu s). t_prio (threads s w) < t_prio (threads s t)"
  shows "\<exists>s1 s2 xs. acoral_mutex_post ipc s = Some (KR_OK, s1) \<and> cur_thread s1 = w \<and>
    acoral_mutex_pend_resume ipc w s1 = Some (KR_OK, s2) \<and> mutex_val ipc s2 = (MUTEX_NOAVAI, w) \<and>
    rdy_inv L s2 (R(RdyQ (current_cpu s) (unat (t_prio (threads s w))) \<mapsto> xs @ [Ready w], WaitQ ipc \<mapsto> map Pending ws))"
proof -
  have w1: "R (WaitQ ipc) = Some (Pending w # map Pending ws)" using w(1) by simp
  obtain s1 xs where s1: "acoral_mutex_post ipc s = Some (KR_OK, s1)" "mutex_free ipc s1"
      "rdy_inv L s1 (R(RdyQ (current_cpu s) (unat (t_prio (threads s w))) \<mapsto> xs @ [Ready w]))"
      "\<not> i_lock (ipcs s1 ipc)" "live_cpu L s1" "cur_thread s1 = w"
    using mutex_post_ok [OF inv live i own w1 w(2-6)] pre by blast
  have d: "i_data (ipcs s1 ipc) = NULL" using s1(2) by (simp add: mutex_free_def mutex_val_def)
  have "(R(RdyQ (current_cpu s) (unat (t_prio (threads s w))) \<mapsto> xs @ [Ready w])) (WaitQ ipc) = Some (map Pending ([] @ w # ws))"
    using w(1) by simp
  from mutex_resume_ok [OF s1(3,5,4) d this] show ?thesis using s1(1,6) by (simp only: append_Nil) blast
qed

definition ex_waited :: kstate where
  "ex_waited = (upd_ipc 0x300 (\<lambda>i. i\<lparr>i_count := MUTEX_NOAVAI, i_data := 0x100\<rparr>) ex_kernel)
     \<lparr>heap := insert_after (Pending 0x200) (WaitQ 0x300) ex_heap\<rparr>"

lemma ex_free_pending: "free_node ex_R (Pending p)"
  using ex_free by (fastforce simp: free_node_def ex_R_def split: knode.splits)

lemma ex_waited_inv: "rdy_inv ex_live ex_waited (ex_R(WaitQ 0x300 \<mapsto> map Pending [0x200]))"
proof -
  let ?h = "insert_after (Pending 0x200) (WaitQ 0x300) ex_heap"
  have "ex_R (WaitQ 0x300) = Some ([] @ [])" by simp
  from rings_insert [OF ex_rings this ex_free_pending, of "0x200"]
  have r: "rings ?h (ex_R(WaitQ 0x300 \<mapsto> map Pending [0x200]))" by simp
  have "rdy_inv ex_live (ex_kernel\<lparr>heap := ?h\<rparr>) (ex_R(WaitQ 0x300 \<mapsto> map Pending [0x200]))"
  proof (rule rdy_inv_other [OF ex_inv])
    show "rings ?h (ex_R(WaitQ 0x300 \<mapsto> map Pending [0x200]))" by (rule r)
    show "qlock ?h = (\<lambda>_. False)" by (simp add: insert_after_def ex_heap_def)
  qed simp_all
  then show ?thesis by (subst rdy_inv_cong [of _ "ex_kernel\<lparr>heap := ?h\<rparr>"]) (simp_all add: ex_waited_def upd_ipc_def)
qed

lemma ex_waited_live: "live_cpu ex_live ex_waited"
  using ex_can_sched ex_ready_on by (simp add: live_cpu_def can_sched_def ready_on_def ex_waited_def upd_ipc_def hal_get_intr_nesting_def)

theorem mutex_handover_witness:
  "\<exists>s1 s2. acoral_mutex_post 0x300 ex_waited = Some (KR_OK, s1) \<and> cur_thread s1 = 0x200 \<and>
     acoral_mutex_pend_resume 0x300 0x200 s1 = Some (KR_OK, s2) \<and> mutex_val 0x300 s2 = (MUTEX_NOAVAI, 0x200)"
proof -
  have "i_type (ipcs ex_waited 0x300) = ACORAL_IPC_MUTEX" "\<not> i_lock (ipcs ex_waited 0x300)" "i_data (ipcs ex_waited 0x300) = cur_thread ex_waited"
    "flag (t_state (threads ex_waited 0x200)) STATE_SUSPEND" "\<not> flag (t_state (threads ex_waited 0x200)) STATE_READY"
    "t_cpu (threads ex_waited 0x200) = current_cpu ex_waited" "0x200 \<in> ex_live"
    by (simp_all add: ex_waited_def upd_ipc_def ACORAL_IPC_MUTEX_def cur_thread_def ex_live_def ex_threads_def thread0_def)
  moreover have "\<not> need_sched ex_waited (current_cpu ex_waited)" "cur_thread ex_waited = 0x100"
    "t_state (threads ex_waited (cur_thread ex_waited)) \<noteq> STATE_EXIT"
    "can_preempt (threads ex_waited (cur_thread ex_waited)) (threads ex_waited 0x200)"
    by (simp_all add: ex_waited_def upd_ipc_def cur_thread_def can_preempt_def ex_threads_def thread0_def state_defs PREEMPT_LOCAL_def
      PREEMPT_GLOBAL_def PREEMPT_TIMED_def)
  moreover have "\<forall>t \<in> ready_on ex_waited ex_live (current_cpu ex_waited). t_prio (threads ex_waited 0x200) < t_prio (threads ex_waited t)"
    using ex_ready_on by (simp add: ready_on_def ex_waited_def upd_ipc_def) (simp add: ex_threads_def thread0_def)
  ultimately show ?thesis
    using mutex_handover [OF ex_waited_inv ex_waited_live, of "0x300" "0x200" "[]"] by auto
qed

text \<open>When somebody else took the mutex before the woken thread ran, its call fails and the thread, running, is left in the
  wait queue.\<close>

theorem mutex_resume_overtaken:
  assumes inv: "rdy_inv L s R" and live: "live_cpu L s" and i: "\<not> i_lock (ipcs s ipc)" "i_data (ipcs s ipc) \<noteq> NULL"
  shows "\<exists>s'. acoral_mutex_pend_resume ipc p s = Some (KR_IPC_ERR_UNDEF, s') \<and> rdy_inv L s' R \<and> heap s' = heap s \<and> ipcs s' = ipcs s"
proof -
  have cs: "can_sched s" using live by (simp add: live_cpu_def)
  note b = begin_fields [OF cs i(1)]
  let ?e = "upd_ipc ipc (i_lock_update (\<lambda>_. True)) (acoral_enter_critical s)"
  have inve: "rdy_inv L ?e R" using inv by simp
  obtain s' where s': "ipc_end ipc ?e = Some s'" "rdy_inv L s' R" "heap s' = heap s"
      "ipcs s' = (ipcs ?e)(ipc := (ipcs ?e ipc)\<lparr>i_lock := False\<rparr>)"
    using ipc_end_ok [OF inv live inve b(2-6)] unfolding b(7) by blast
  have "ipcs s' = ipcs s" using s'(4) i(1) unfolding b(8) by (auto simp: fun_eq_iff)
  then show ?thesis using s' i(2) b(1,8) by (simp add: acoral_mutex_pend_resume_def ipc_return_def)
qed

theorem mutex_resume_overtaken_witness:
  "\<exists>s'. acoral_mutex_pend_resume 0x300 0x200 ex_waited = Some (KR_IPC_ERR_UNDEF, s') \<and>
     acoral_ipc_high_thread 0x300 s' = Some 0x200"
proof -
  have e: "\<not> i_lock (ipcs ex_waited 0x300)" "i_data (ipcs ex_waited 0x300) \<noteq> NULL" by (simp_all add: ex_waited_def upd_ipc_def)
  have w: "(ex_R(WaitQ 0x300 \<mapsto> map Pending [0x200])) (WaitQ 0x300) = Some [Pending 0x200]" by simp
  obtain s' where "acoral_mutex_pend_resume 0x300 0x200 ex_waited = Some (KR_IPC_ERR_UNDEF, s')" "heap s' = heap ex_waited"
    using mutex_resume_overtaken [OF ex_waited_inv ex_waited_live e] by blast
  moreover from this(2) have "acoral_ipc_high_thread 0x300 s' = Some 0x200"
    using ring_next_head [OF ringsD [OF rdy_invD(1) [OF ex_waited_inv] w]] ring_empty_iff [OF ringsD [OF rdy_invD(1) [OF ex_waited_inv] w]]
    by (simp add: acoral_ipc_high_thread_def)
  ultimately show ?thesis by blast
qed

section \<open>Counting\<close>

lemma s8_truncates: "-255 \<le> x \<Longrightarrow> x \<le> -129 \<Longrightarrow> 0 < s8 x"
proof -
  assume x: "-255 \<le> x" "x \<le> -129"
  have "(x + 128) mod 256 = (x + 128 + 256) mod 256" by (rule mod_add_self2 [symmetric])
  also have "\<dots> = x + 128 + 256" by (rule mod_pos_pos_trivial) (use x in linarith)+
  finally have "(x + 128) mod 256 = x + 384" by linarith
  then show "0 < s8 x" using x by (simp add: s8_def signed_take_bit_eq_take_bit_shift take_bit_eq_mod)
qed

lemma s16_resources: "unat n \<le> 32769 \<Longrightarrow> 1 - s16 (uint (1 - n)) = int (unat n)" for n :: u32
proof -
  assume n: "unat n \<le> 32769"
  have "uint (1 - n) = take_bit 32 (1 - uint n)" by (simp add: uint_word_arith_bintrs)
  then have "take_bit 16 (uint (1 - n)) = take_bit 16 (1 - uint n)" by simp
  then have "s16 (uint (1 - n)) = s16 (1 - uint n)" by (simp add: s16_def signed_take_bit_eq_iff_take_bit_eq)
  also have "\<dots> = 1 - uint n"
  proof (rule s16_id)
    have "uint n = int (unat n)" by simp
    also have "\<dots> \<le> 32769" using n by linarith
    finally have "uint n \<le> 32769" .
    then show "- (2 ^ 15) \<le> 1 - uint n" by simp
    have "0 \<le> uint n" by (rule uint_ge_0)
    then have "1 - uint n < 32768" by linarith
    then show "1 - uint n < 2 ^ 15" by simp
  qed
  finally show ?thesis by simp
qed

lemma ipc_lock_absorb: "\<not> i_lock i \<Longrightarrow> i\<lparr>i_count := x, i_lock := False\<rparr> = i\<lparr>i_count := x\<rparr>"
  by (cases i) simp

text \<open>A call that ends its critical section after changing only the count.\<close>

lemma count_call_same:
  assumes inv: "rdy_inv L s R" and live: "live_cpu L s" and lk: "\<not> i_lock (ipcs s ipc)"
  shows "\<exists>s'. ipc_end ipc (upd_ipc ipc (i_lock_update (\<lambda>_. True)) (acoral_enter_critical s)) = Some s' \<and>
    rdy_inv L s' R \<and> live_cpu L s' \<and> ipcs s' = ipcs s \<and> heap s' = heap s"
proof -
  let ?e = "upd_ipc ipc (i_lock_update (\<lambda>_. True)) (acoral_enter_critical s)"
  have cs: "can_sched s" using live by (simp add: live_cpu_def)
  note b = begin_fields [OF cs lk]
  have i: "rdy_inv L ?e R" using inv by simp
  have r: "(ipcs ?e)(ipc := (ipcs ?e ipc)\<lparr>i_lock := False\<rparr>) = ipcs s" using lk unfolding b(8) by (auto simp: fun_eq_iff)
  show ?thesis using ipc_end_ok [OF inv live i b(2-6), of ipc] unfolding r unfolding b(7) by blast
qed

lemma count_call_add:
  assumes inv: "rdy_inv L s R" and live: "live_cpu L s" and lk: "\<not> i_lock (ipcs s ipc)"
  shows "\<exists>s'. ipc_end ipc (count_add ipc d (upd_ipc ipc (i_lock_update (\<lambda>_. True)) (acoral_enter_critical s))) = Some s' \<and>
    rdy_inv L s' R \<and> live_cpu L s' \<and> heap s' = heap s \<and>
    ipcs s' = (ipcs s)(ipc := (ipcs s ipc)\<lparr>i_count := s16 (i_count (ipcs s ipc) + d)\<rparr>)"
proof -
  let ?e = "count_add ipc d (upd_ipc ipc (i_lock_update (\<lambda>_. True)) (acoral_enter_critical s))"
  have cs: "can_sched s" using live by (simp add: live_cpu_def)
  note b = begin_fields [OF cs lk]
  have i: "rdy_inv L ?e R" using inv by (simp add: count_add_def)
  have c: "current_cpu ?e = current_cpu s" "critical_nesting ?e (current_cpu s) = 1" "sched_enable ?e = sched_enable s"
    "intr_nesting ?e = intr_nesting s" "threads ?e = threads s" "heap ?e = heap s"
    using b by (simp_all add: count_add_def) (simp_all add: upd_ipc_def)
  have r: "(ipcs ?e)(ipc := (ipcs ?e ipc)\<lparr>i_lock := False\<rparr>) =
      (ipcs s)(ipc := (ipcs s ipc)\<lparr>i_count := s16 (i_count (ipcs s ipc) + d)\<rparr>)"
    using ipc_lock_absorb [OF lk] by (simp add: count_add_def upd_ipc_def)
  show ?thesis using ipc_end_ok [OF inv live i c(1-5), of ipc] unfolding r unfolding c(6) by blast
qed

text \<open>\<open>acoral_sem_trypend\<close> on a semaphore with at most 129 free resources (a count from -128 to 127): it succeeds exactly
  when there is one and takes it.\<close>

theorem sem_trypend_takes:
  assumes inv: "rdy_inv L s R" and live: "live_cpu L s" and lk: "\<not> i_lock (ipcs s ipc)" and i: "ipc \<noteq> NULL" "i_type (ipcs s ipc) = ACORAL_IPC_SEM"
    and c: "-128 \<le> i_count (ipcs s ipc)" "i_count (ipcs s ipc) \<le> 127"
  shows "\<exists>s'. acoral_sem_trypend ipc s = Some (if 1 - i_count (ipcs s ipc) \<ge> 1 then KR_OK else KR_IPC_ERR_TIMEOUT, s') \<and> rdy_inv L s' R \<and>
    1 - i_count (ipcs s' ipc) = (if 1 - i_count (ipcs s ipc) \<ge> 1 then 1 - i_count (ipcs s ipc) - 1 else 1 - i_count (ipcs s ipc))"
proof -
  have cs: "can_sched s" using live by (simp add: live_cpu_def)
  then have ni: "hal_get_intr_nesting s = 0" by (simp add: can_sched_def)
  note b = begin_fields [OF cs lk]
  have s8: "s8 (i_count (ipcs s ipc)) = i_count (ipcs s ipc)" using c by (simp add: s8_def signed_take_bit_int_eq_self)
  show ?thesis
  proof (cases "i_count (ipcs s ipc) \<le> 0")
    case True
    obtain s' where s': "ipc_end ipc (count_add ipc 1 (upd_ipc ipc (i_lock_update (\<lambda>_. True)) (acoral_enter_critical s))) = Some s'"
        "rdy_inv L s' R" "ipcs s' = (ipcs s)(ipc := (ipcs s ipc)\<lparr>i_count := s16 (i_count (ipcs s ipc) + 1)\<rparr>)" using count_call_add [OF inv live lk] by blast
    have "acoral_sem_trypend ipc s = Some (KR_OK, s')"
      using i ni b(1,8) s8 s'(1) True by (simp add: acoral_sem_trypend_def ipc_guard_def sem_avail_def SEM_AVAI_def ipc_return_def)
    then show ?thesis using s' True c by auto
  next
    case False
    obtain s' where s': "ipc_end ipc (upd_ipc ipc (i_lock_update (\<lambda>_. True)) (acoral_enter_critical s)) = Some s'"
        "rdy_inv L s' R" "ipcs s' = ipcs s" using count_call_same [OF inv live lk] by blast
    have "acoral_sem_trypend ipc s = Some (KR_IPC_ERR_TIMEOUT, s')"
      using i ni b(1,8) s8 s'(1) False by (simp add: acoral_sem_trypend_def ipc_guard_def sem_avail_def SEM_AVAI_def ipc_return_def)
    then show ?thesis using s' False by auto
  qed
qed

text \<open>C34. With 130 to 256 free resources (a count from -255 to -129) \<open>acoral_sem_trypend\<close> finds none: the cast to 8 bits makes the
  count positive.\<close>

theorem sem_trypend_truncates:
  assumes inv: "rdy_inv L s R" and live: "live_cpu L s" and lk: "\<not> i_lock (ipcs s ipc)" and i: "ipc \<noteq> NULL" "i_type (ipcs s ipc) = ACORAL_IPC_SEM"
    and c: "130 \<le> 1 - i_count (ipcs s ipc)" "1 - i_count (ipcs s ipc) \<le> 256"
  shows "\<exists>s'. acoral_sem_trypend ipc s = Some (KR_IPC_ERR_TIMEOUT, s') \<and> ipcs s' = ipcs s"
proof -
  have cs: "can_sched s" using live by (simp add: live_cpu_def)
  then have ni: "hal_get_intr_nesting s = 0" by (simp add: can_sched_def)
  note b = begin_fields [OF cs lk]
  have s8: "0 < s8 (i_count (ipcs s ipc))" by (rule s8_truncates) (use c in simp_all)
  obtain s' where s': "ipc_end ipc (upd_ipc ipc (i_lock_update (\<lambda>_. True)) (acoral_enter_critical s)) = Some s'" "ipcs s' = ipcs s"
    using count_call_same [OF inv live lk] by blast
  have "acoral_sem_trypend ipc s = Some (KR_IPC_ERR_TIMEOUT, s')"
    using i ni b(1,8) s8 s'(1) by (simp add: acoral_sem_trypend_def ipc_guard_def sem_avail_def SEM_AVAI_def ipc_return_def)
  then show ?thesis using s'(2) by blast
qed

text \<open>A semaphore initialised with \<open>n\<close> resources (\<open>n\<close> at most 32769, unlocked by the initialisation) reports \<open>n\<close>.\<close>

theorem sem_init_getnum:
  assumes inv: "rdy_inv L (sem_fresh n ipc s) R" and live: "live_cpu L s" and ipc: "ipc \<noteq> NULL" and n: "unat n \<le> 32769"
  shows "\<exists>s1 s2. acoral_sem_init ipc n s = Some (KR_OK, s1) \<and> acoral_sem_getnum ipc s1 = Some (int (unat n), s2) \<and> ipcs s2 = ipcs s1"
proof -
  let ?s = "sem_fresh n ipc s"
  have live': "live_cpu L ?s"
    using live by (simp add: sem_fresh_def acoral_ipc_init_def live_cpu_def can_sched_def ready_on_def upd_ipc_def hal_get_intr_nesting_def Let_def)
  then have cs: "can_sched ?s" by (simp add: live_cpu_def)
  have lk: "\<not> i_lock (ipcs ?s ipc)" and cnt: "i_count (ipcs ?s ipc) = s16 (uint (1 - n))"
    by (simp_all add: sem_fresh_def acoral_ipc_init_def upd_ipc_def Let_def)
  have c: "1 - i_count (ipcs ?s ipc) = int (unat n)" unfolding cnt by (rule s16_resources [OF n])
  obtain s' where s': "ipc_end ipc (upd_ipc ipc (i_lock_update (\<lambda>_. True)) (acoral_enter_critical ?s)) = Some s'" "ipcs s' = ipcs ?s"
    using count_call_same [OF inv live' lk] by blast
  note b = begin_fields [OF cs lk]
  have "acoral_sem_getnum ipc ?s = Some (int (unat n), s')"
    using ipc b(1,8) s'(1) c by (simp add: acoral_sem_getnum_def ipc_return_def)
  then show ?thesis using ipc s'(2) by (simp add: acoral_sem_init_def)
qed

text \<open>C33. The lost wake-up: when the first waiter of a semaphore has been readied but did not run yet, another post takes one
  waiter off the count and wakes nobody, although other threads wait.\<close>

theorem sem_post_lost_wakeup:
  assumes inv: "rdy_inv L s R" and live: "live_cpu L s" and lk: "\<not> i_lock (ipcs s ipc)" and i: "ipc \<noteq> NULL" "i_type (ipcs s ipc) = ACORAL_IPC_SEM"
    and c: "1 < i_count (ipcs s ipc)" "i_count (ipcs s ipc) < 2 ^ 15" and w: "R (WaitQ ipc) = Some (Pending w # ws)" "w \<noteq> NULL"
    and woken: "\<not> flag (t_state (threads s w)) STATE_SUSPEND"
  shows "\<exists>s'. acoral_sem_post ipc s = Some (KR_OK, s') \<and> i_count (ipcs s' ipc) = i_count (ipcs s ipc) - 1 \<and> rdy_inv L s' R"
proof -
  have cs: "can_sched s" using live by (simp add: live_cpu_def)
  note b = begin_fields [OF cs lk]
  let ?e = "count_add ipc (-1) (upd_ipc ipc (i_lock_update (\<lambda>_. True)) (acoral_enter_critical s))"
  have e: "threads ?e = threads s" "heap ?e = heap s" using b by (simp_all add: count_add_def)
  obtain s' where s': "ipc_end ipc ?e = Some s'" "rdy_inv L s' R"
      "ipcs s' = (ipcs s)(ipc := (ipcs s ipc)\<lparr>i_count := s16 (i_count (ipcs s ipc) + - 1)\<rparr>)"
    using count_call_add [OF inv live lk, of "-1"] by blast
  have rf: "rings (heap s) R" by (rule rdy_invD(1) [OF inv])
  have "acoral_ipc_high_thread ipc ?e = Some w"
    using ring_next_head [OF ringsD [OF rf w(1)]] ring_empty_iff [OF ringsD [OF rf w(1)]] e(2)
    by (simp add: acoral_ipc_high_thread_def)
  moreover have "acoral_rdy_thread w ?e = Some (KR_THREAD_ERR_STATE, ?e)" using woken e(1) by (simp add: acoral_rdy_thread_def)
  ultimately have "acoral_sem_post ipc s = Some (KR_OK, s')"
    using i c b(1,8) s'(1) w(2) by (simp add: acoral_sem_post_def ipc_guard_def SEM_NOAVAI_def ipc_return_def Let_def)
  then show ?thesis using s' c by simp
qed

definition ex_sem :: "int \<Rightarrow> kstate" where
  "ex_sem c = upd_ipc 0x340 (i_count_update (\<lambda>_. c)) ex_kernel"

lemma ex_live_cpu: "live_cpu ex_live ex_kernel"
  using ex_can_sched ex_ready_on by (simp add: live_cpu_def)

lemma ex_sem_ok: "rdy_inv ex_live (ex_sem c) ex_R" "live_cpu ex_live (ex_sem c)" "\<not> i_lock (ipcs (ex_sem c) 0x340)"
  "i_type (ipcs (ex_sem c) 0x340) = ACORAL_IPC_SEM" "i_count (ipcs (ex_sem c) 0x340) = c"
  using ex_inv ex_live_cpu by (simp_all add: ex_sem_def ACORAL_IPC_SEM_def) (simp_all add: upd_ipc_def)

theorem sem_trypend_takes_witness:
  "\<exists>s'. acoral_sem_trypend 0x340 (ex_sem 0) = Some (KR_OK, s') \<and> i_count (ipcs s' 0x340) = 1"
  using sem_trypend_takes [OF ex_sem_ok(1-3) _ ex_sem_ok(4), of 0] ex_sem_ok(5) [of 0] by auto

theorem sem_trypend_truncates_witness:
  "\<exists>s'. acoral_sem_trypend 0x340 (ex_sem (-129)) = Some (KR_IPC_ERR_TIMEOUT, s')"
  using sem_trypend_truncates [OF ex_sem_ok(1-3) _ ex_sem_ok(4), of "-129"] ex_sem_ok(5) [of "-129"] by auto

theorem sem_init_getnum_witness:
  "\<exists>s1 s2. acoral_sem_init 0x340 3 ex_kernel = Some (KR_OK, s1) \<and> acoral_sem_getnum 0x340 s1 = Some (3, s2)"
proof -
  have "acoral_prio_queue_init (WaitQ 0x340) ex_heap = ex_heap"
    by (auto simp: acoral_prio_queue_init_def acoral_vlist_init_def heap_upd_defs ex_heap_def fun_eq_iff Let_def)
  then have "rdy_inv ex_live (sem_fresh 3 0x340 ex_kernel) ex_R"
    using ex_inv by (subst rdy_inv_cong [of _ ex_kernel]) (simp_all add: sem_fresh_def acoral_ipc_init_def Let_def, simp_all add: upd_ipc_def)
  from sem_init_getnum [OF this ex_live_cpu] show ?thesis by auto
qed

text \<open>The example kernel with two waiters at the semaphore, the first of them ready again.\<close>

definition ex_woken :: kstate where
  "ex_woken = (upd_ipc 0x340 (i_count_update (\<lambda>_. 3)) ex_kernel)
     \<lparr>heap := insert_after (Pending 0x280) (Pending 0x180) (insert_after (Pending 0x180) (WaitQ 0x340) ex_heap)\<rparr>"

theorem sem_post_lost_wakeup_witness:
  "\<exists>s'. acoral_sem_post 0x340 ex_woken = Some (KR_OK, s') \<and> i_count (ipcs s' 0x340) = 2"
proof -
  let ?h1 = "insert_after (Pending 0x180) (WaitQ 0x340) ex_heap" and ?R = "ex_R(WaitQ 0x340 \<mapsto> [Pending 0x180, Pending 0x280])"
  let ?h = "insert_after (Pending 0x280) (Pending 0x180) ?h1"
  have "ex_R (WaitQ 0x340) = Some ([] @ [])" by simp
  from rings_insert [OF ex_rings this ex_free_pending, of "0x180"] have r1: "rings ?h1 (ex_R(WaitQ 0x340 \<mapsto> [Pending 0x180]))" by simp
  have f: "free_node (ex_R(WaitQ 0x340 \<mapsto> [Pending 0x180])) (Pending 0x280)" by (rule free_node_upd [OF ex_free_pending]) simp_all
  have "(ex_R(WaitQ 0x340 \<mapsto> [Pending 0x180])) (WaitQ 0x340) = Some ([Pending 0x180] @ [])" by simp
  from rings_insert [OF r1 this f] have r: "rings ?h ?R" by simp
  have "rdy_inv ex_live (ex_kernel\<lparr>heap := ?h\<rparr>) ?R"
  proof (rule rdy_inv_other [OF ex_inv])
    show "rings ?h ?R" by (rule r)
    show "qlock ?h = (\<lambda>_. False)" by (simp add: insert_after_def ex_heap_def)
  qed simp_all
  then have "rdy_inv ex_live ex_woken ?R"
    by (subst rdy_inv_cong [of _ "ex_kernel\<lparr>heap := ?h\<rparr>"])
      (simp_all add: ex_woken_def, simp_all add: upd_ipc_def)
  moreover have "live_cpu ex_live ex_woken"
    using ex_live_cpu ex_ready_on
    by (simp add: live_cpu_def can_sched_def ex_woken_def hal_get_intr_nesting_def)
      (auto simp: ready_on_def upd_ipc_def ex_live_def ex_threads_def thread0_def)
  moreover have "\<not> i_lock (ipcs ex_woken 0x340)" "i_type (ipcs ex_woken 0x340) = ACORAL_IPC_SEM" "i_count (ipcs ex_woken 0x340) = 3"
    "\<not> flag (t_state (threads ex_woken 0x180)) STATE_SUSPEND"
    by (simp_all add: ex_woken_def ACORAL_IPC_SEM_def) (simp_all add: upd_ipc_def ex_threads_def)
  ultimately show ?thesis using sem_post_lost_wakeup [of ex_live ex_woken ?R "0x340" "0x180" "[Pending 0x280]"] by auto
qed

end
