(* ===== verification/Volmem.thy ===== *)
theory Volmem
  imports Ipc
begin

text \<open>
  The heap of variable-size blocks: the second part of \<^verbatim>\<open>kernel/src/mem.c\<close>. Every block starts with a header word: its
  size in the upper 24 bits, a magic number, and a bit that says whether it is in use. The operations on the heap itself
  come first, then the calls, which pend on the heap's mutex (at address \<open>vm\<close>) and ignore the result; a call whose
  pend blocks goes on when its thread runs again (\<open>\<dots>_resume\<close>). Error messages are not modelled.
\<close>

section \<open>Headers\<close>

definition MAGIC :: u32 where "MAGIC = 0xcc"
definition MAGIC_MASK :: u32 where "MAGIC_MASK = 0xfe"
definition USETAG_MASK :: u32 where "USETAG_MASK = 0x1"
definition SIZE_MASK :: u32 where "SIZE_MASK = 0xffffff00"
definition SIZE_SHIFT :: nat where "SIZE_SHIFT = 8"

definition BLOCK_CHECK :: "u32 \<Rightarrow> bool" where "BLOCK_CHECK v \<longleftrightarrow> v AND MAGIC_MASK = MAGIC"
definition BLOCK_GET_SIZE :: "u32 \<Rightarrow> u32" where "BLOCK_GET_SIZE v = drop_bit SIZE_SHIFT (v AND SIZE_MASK)"
definition BLOCK_IS_FREE :: "u32 \<Rightarrow> bool" where "BLOCK_IS_FREE v \<longleftrightarrow> v AND USETAG_MASK = 0"
definition BLOCK_IS_USED :: "u32 \<Rightarrow> bool" where "BLOCK_IS_USED v \<longleftrightarrow> v AND USETAG_MASK = 1"

definition set_word :: "ptr \<Rightarrow> u32 \<Rightarrow> vol_mem \<Rightarrow> vol_mem" where
  "set_word p v m = m\<lparr>words := (words m)(p := v)\<rparr>"

definition BLOCK_SET_USED :: "ptr \<Rightarrow> u32 \<Rightarrow> vol_mem \<Rightarrow> vol_mem" where
  "BLOCK_SET_USED p sz = set_word p (push_bit SIZE_SHIFT sz OR 0x1 OR MAGIC)"

definition BLOCK_SET_FREE :: "ptr \<Rightarrow> u32 \<Rightarrow> vol_mem \<Rightarrow> vol_mem" where
  "BLOCK_SET_FREE p sz = set_word p (push_bit SIZE_SHIFT sz OR MAGIC)"

definition BLOCK_CLEAR :: "ptr \<Rightarrow> vol_mem \<Rightarrow> vol_mem" where
  "BLOCK_CLEAR p = set_word p 0"

section \<open>Allocation\<close>

text \<open>The two search loops of \<open>vol_r_malloc\<close>, from \<open>tp\<close> up to \<open>limit\<close>: a free block that is large enough, a block of size 0
  (an error), or none.\<close>

datatype vol_found = Fits ptr | BadSize | NoFit

partial_function (option) vol_search :: "vol_mem \<Rightarrow> u32 \<Rightarrow> ptr \<Rightarrow> ptr \<Rightarrow> vol_found option" where
  "vol_search m sz limit tp =
     (if tp < limit then
        let b_size = BLOCK_GET_SIZE (words m tp) in
        if b_size = 0 then Some BadSize
        else if BLOCK_IS_USED (words m tp) \<or> b_size < sz then vol_search m sz limit (tp + b_size)
        else Some (Fits tp)
      else Some NoFit)"

definition vol_take :: "ptr \<Rightarrow> u32 \<Rightarrow> vol_mem \<Rightarrow> vol_mem" where
  "vol_take tp sz m =
     (let b_size = BLOCK_GET_SIZE (words m tp);
          m = BLOCK_SET_USED tp sz m;
          m = (if b_size - sz > 0 then BLOCK_SET_FREE (tp + sz) (b_size - sz) m else m)
      in m\<lparr>freep_p := tp + sz\<rparr>)"

text \<open>\<open>vol_r_malloc\<close> under the mutex; the size is that of the whole block, header included.\<close>

definition vol_alloc :: "u32 \<Rightarrow> vol_mem \<Rightarrow> (ptr \<times> vol_mem) option" where
  "vol_alloc sz m =
     do {
       r \<leftarrow> vol_search m sz (top_p m) (freep_p m);
       case r of
         Fits tp \<Rightarrow> Some (tp + 4, vol_take tp sz m)
       | BadSize \<Rightarrow> Some (NULL, m)
       | NoFit \<Rightarrow>
         do {
           r \<leftarrow> vol_search m sz (freep_p m) (down_p m);
           case r of Fits tp \<Rightarrow> Some (tp + 4, vol_take tp sz m) | _ \<Rightarrow> Some (NULL, m)
         }
     }"

section \<open>Release\<close>

text \<open>The walk from the bottom to the block before \<open>p\<close>: that block and its size, \<open>None\<close> inside on a block of size 0.\<close>

partial_function (option) vol_before :: "vol_mem \<Rightarrow> ptr \<Rightarrow> ptr \<Rightarrow> ptr \<Rightarrow> u32 \<Rightarrow> (ptr \<times> u32) option option" where
  "vol_before m p ctp prev_tp sz =
     (if ctp < p then
        let sz = BLOCK_GET_SIZE (words m ctp) in
        if sz = 0 then Some None else vol_before m p (ctp + sz) ctp sz
      else Some (Some (prev_tp, sz)))"

declare vol_search.simps [code] and vol_before.simps [code]

text \<open>The outcome of \<open>vol_free\<close> under the mutex. The two refusals return without giving the mutex back.\<close>

datatype vol_free_result = Refused | Posted

definition vol_release :: "ptr \<Rightarrow> vol_mem \<Rightarrow> (vol_free_result \<times> vol_mem) option" where
  "vol_release p m =
     (if p = NULL \<or> p < down_p m \<or> p \<ge> top_p m \<or> \<not> BLOCK_CHECK (words m p) then Some (Refused, m)
      else if BLOCK_IS_FREE (words m p) then Some (Refused, m)
      else
        let b_size = BLOCK_GET_SIZE (words m p); tp = p + b_size;
            sz = BLOCK_GET_SIZE (words m tp)
        in if BLOCK_IS_FREE (words m tp) \<and> sz = 0 then Some (Posted, m)
           else
             let (b_size, m) = (if BLOCK_IS_FREE (words m tp) then (b_size + sz, BLOCK_CLEAR tp m) else (b_size, m));
                 m = (BLOCK_SET_FREE p b_size m)\<lparr>freep_p := p\<rparr>
             in if p = down_p m then Some (Posted, m)
                else do {
                  r \<leftarrow> vol_before m p (down_p m) p sz;
                  case r of
                    None \<Rightarrow> Some (Posted, m)
                  | Some (prev_tp, sz) \<Rightarrow>
                    if BLOCK_IS_FREE (words m prev_tp)
                    then Some (Posted, (BLOCK_SET_FREE prev_tp (b_size + sz) (BLOCK_CLEAR p m))\<lparr>freep_p := prev_tp\<rparr>)
                    else Some (Posted, m)
                })"

section \<open>The calls\<close>

datatype 'a call = Return 'a | Waiting

definition CFG_MEM_VOL_SIZE :: u32 where "CFG_MEM_VOL_SIZE = 327680"

definition vol_mem_init :: "ptr \<Rightarrow> kop" where
  "vol_mem_init vm s =
     do {
       let sz = buddy_malloc_size (mem s) CFG_MEM_VOL_SIZE;
       (a, s) \<leftarrow> buddy_malloc sz s;
       let s = s\<lparr>vol := (vol s)\<lparr>down_p := a\<rparr>\<rparr>;
       if a = NULL then Some (s\<lparr>vol := (vol s)\<lparr>mem_state := False\<rparr>\<rparr>)
       else do {
         let s = s\<lparr>vol := (vol s)\<lparr>mem_state := True\<rparr>\<rparr>;
         (_, s) \<leftarrow> acoral_mutex_init vm s;
         Some (s\<lparr>vol := BLOCK_SET_FREE a sz ((vol s)\<lparr>top_p := a + sz, freep_p := a\<rparr>)\<rparr>)
       }
     }"

text \<open>The size of the block for a request: rounded up to words, plus the header; signed 32-bit arithmetic.\<close>

definition vol_block_size :: "u32 \<Rightarrow> u32" where
  "vol_block_size sz = ((sz + 3) AND NOT 3) + 4"

definition vol_malloc_body :: "ptr \<Rightarrow> u32 \<Rightarrow> ptr call kret" where
  "vol_malloc_body vm sz s =
     do {
       (a, m) \<leftarrow> vol_alloc (vol_block_size sz) (vol s);
       (_, s) \<leftarrow> acoral_mutex_post vm (s\<lparr>vol := m\<rparr>);
       Some (Return a, s)
     }"

definition vol_malloc :: "ptr \<Rightarrow> u32 \<Rightarrow> ptr call kret" where
  "vol_malloc vm sz s =
     (if \<not> mem_state (vol s) then Some (Return NULL, s)
      else do {
        (r, s) \<leftarrow> acoral_mutex_pend vm s;
        if r = Blocked then Some (Waiting, s) else vol_malloc_body vm sz s
      })"

definition vol_malloc_resume :: "ptr \<Rightarrow> ptr \<Rightarrow> u32 \<Rightarrow> ptr call kret" where
  "vol_malloc_resume vm cur sz s = do { (_, s) \<leftarrow> acoral_mutex_pend_resume vm cur s; vol_malloc_body vm sz s }"

definition vol_free_body :: "ptr \<Rightarrow> ptr \<Rightarrow> unit call kret" where
  "vol_free_body vm p s =
     do {
       (r, m) \<leftarrow> vol_release p (vol s);
       let s = s\<lparr>vol := m\<rparr>;
       if r = Refused then Some (Return (), s)
       else do { (_, s) \<leftarrow> acoral_mutex_post vm s; Some (Return (), s) }
     }"

definition vol_free :: "ptr \<Rightarrow> ptr \<Rightarrow> unit call kret" where
  "vol_free vm p s =
     (if \<not> mem_state (vol s) then Some (Return (), s)
      else do {
        (r, s) \<leftarrow> acoral_mutex_pend vm s;
        if r = Blocked then Some (Waiting, s) else vol_free_body vm (p - 4) s
      })"

definition vol_free_resume :: "ptr \<Rightarrow> ptr \<Rightarrow> ptr \<Rightarrow> unit call kret" where
  "vol_free_resume vm cur p s = do { (_, s) \<leftarrow> acoral_mutex_pend_resume vm cur s; vol_free_body vm (p - 4) s }"

section \<open>The heap as a list of blocks\<close>

text \<open>A heap from \<open>a\<close> to \<open>b\<close> is a gapless sequence of blocks: whether each is in use, and its size.\<close>

type_synonym blocks = "(bool \<times> u32) list"

definition header :: "bool \<Rightarrow> u32 \<Rightarrow> u32" where
  "header used sz = push_bit SIZE_SHIFT sz OR (if used then 0x1 OR MAGIC else MAGIC)"

fun tiled :: "(u32 \<Rightarrow> u32) \<Rightarrow> ptr \<Rightarrow> blocks \<Rightarrow> ptr \<Rightarrow> bool" where
  "tiled w a [] b \<longleftrightarrow> a = b"
| "tiled w a ((u, n) # bs) b \<longleftrightarrow> w a = header u n \<and> 0 < n \<and> 4 dvd unat n \<and> unat n < 2 ^ 24 \<and> unat a + unat n \<le> unat b \<and> tiled w (a + n) bs b"

text \<open>First fit on the list: what is before the block, its size, and what is behind it.\<close>

definition fits :: "u32 \<Rightarrow> bool \<times> u32 \<Rightarrow> bool" where
  "fits sz x \<longleftrightarrow> \<not> fst x \<and> sz \<le> snd x"

fun first_fit :: "u32 \<Rightarrow> blocks \<Rightarrow> (blocks \<times> u32 \<times> blocks) option" where
  "first_fit sz [] = None"
| "first_fit sz (x # bs) =
     (if fits sz x then Some ([], snd x, bs) else map_option (\<lambda>(xs, b, ys). (x # xs, b, ys)) (first_fit sz bs))"

text \<open>What remains of a free block of size \<open>b\<close>.\<close>

definition rest :: "u32 \<Rightarrow> u32 \<Rightarrow> blocks" where
  "rest sz b = (if b = sz then [] else [(False, b - sz)])"

text \<open>Releasing the block of size \<open>n\<close> between \<open>xs\<close> and \<open>ys\<close> joins it with free neighbours.\<close>

fun join_next :: "u32 \<Rightarrow> blocks \<Rightarrow> u32 \<times> blocks" where
  "join_next n ((False, k) # ys) = (n + k, ys)"
| "join_next n ys = (n, ys)"

definition join_prev :: "blocks \<Rightarrow> u32 \<Rightarrow> blocks" where
  "join_prev xs n = (if xs \<noteq> [] \<and> \<not> fst (last xs) then butlast xs @ [(False, n + snd (last xs))] else xs @ [(False, n)])"

lemma header_low: "push_bit 8 n AND 0xfe = 0" "push_bit 8 n AND 1 = 0" for n :: u32
proof -
  have m: "(0xff::u32) = mask 8" by (simp add: mask_eq_exp_minus_1)
  have f: "push_bit 8 n AND 0xff = 0" unfolding m by (rule bit_eqI) (auto simp del: mask_numeral simp: bit_simps)
  have "push_bit 8 n AND k = 0" if "0xff AND k = k" for k
    using arg_cong [OF f, where f = "\<lambda>x. x AND k"] that by (simp add: and.assoc)
  from this [of "0xfe"] this [of 1] show "push_bit 8 n AND 0xfe = 0" "push_bit 8 n AND 1 = 0" by simp_all
qed

lemma header_size: "unat n < 2 ^ 24 \<Longrightarrow> drop_bit 8 ((push_bit 8 n OR c) AND 0xffffff00) = n" if "c AND 0xffffff00 = 0" for n c :: u32
proof -
  assume n: "unat n < 2 ^ 24"
  have "unat (take_bit 24 n) = unat n" using n by (simp add: unsigned_take_bit_eq take_bit_nat_eq_self)
  then have t: "take_bit 24 n = n" by (simp add: word_unat_eq_iff)
  have b: "bit n i \<longleftrightarrow> i < 24 \<and> bit n i" for i using arg_cong [OF t, where f = "\<lambda>x. bit x i"] by (simp add: bit_take_bit_iff)
  have m: "(0xffffff00::u32) = NOT (mask 8)" by (simp add: mask_eq_exp_minus_1)
  have "(push_bit 8 n OR c) AND 0xffffff00 = push_bit 8 n"
    unfolding bit.conj_disj_distrib2 that unfolding m by (rule bit_eqI) (auto simp del: mask_numeral simp: bit_simps)
  moreover have "drop_bit 8 (push_bit 8 n) = n" by (rule bit_eqI) (use b in \<open>auto simp: bit_simps\<close>)
  ultimately show ?thesis by simp
qed

lemma header_fields [simp]:
  assumes "unat n < 2 ^ 24"
  shows "BLOCK_GET_SIZE (header u n) = n" "BLOCK_IS_USED (header u n) \<longleftrightarrow> u" "BLOCK_IS_FREE (header u n) \<longleftrightarrow> \<not> u"
    "BLOCK_CHECK (header u n)"
  using header_size [OF _ assms, of "0xcc"] header_size [OF _ assms, of "0xcd"] header_low [of n]
  by (auto simp: header_def BLOCK_GET_SIZE_def BLOCK_IS_USED_def BLOCK_IS_FREE_def BLOCK_CHECK_def bit.conj_disj_distrib2
      SIZE_SHIFT_def SIZE_MASK_def MAGIC_def MAGIC_MASK_def USETAG_MASK_def)

lemma set_used_word: "words (BLOCK_SET_USED p n m) = (words m)(p := header True n)"
  "words (BLOCK_SET_FREE p n m) = (words m)(p := header False n)"
  by (simp_all add: BLOCK_SET_USED_def BLOCK_SET_FREE_def set_word_def header_def or.assoc)

lemma vol_fields [simp]:
  "down_p (BLOCK_SET_FREE p n m) = down_p m" "top_p (BLOCK_SET_FREE p n m) = top_p m" "freep_p (BLOCK_SET_FREE p n m) = freep_p m"
  "down_p (BLOCK_SET_USED p n m) = down_p m" "top_p (BLOCK_SET_USED p n m) = top_p m"
  "down_p (BLOCK_CLEAR p m) = down_p m" "top_p (BLOCK_CLEAR p m) = top_p m" "words (BLOCK_CLEAR p m) = (words m)(p := 0)"
  by (simp_all add: BLOCK_SET_FREE_def BLOCK_SET_USED_def BLOCK_CLEAR_def set_word_def)

section \<open>Tilings\<close>

lemma add_unat: "unat a + unat n \<le> unat b \<Longrightarrow> unat (a + n) = unat a + unat n" for a n b :: u32
proof -
  assume "unat a + unat n \<le> unat b"
  moreover have "unat b < 2 ^ 32" using unsigned_less [of b, where ?'a = nat] by simp
  ultimately show ?thesis by (simp add: unat_word_ariths)
qed

lemma tiled_le: "tiled w a bs b \<Longrightarrow> unat a \<le> unat b"
proof (induction w a bs b rule: tiled.induct)
  case (2 w a u n bs b)
  then show ?case by simp
qed simp

lemma tiled_append: "tiled w a (xs @ ys) b \<longleftrightarrow> (\<exists>c. tiled w a xs c \<and> tiled w c ys b)"
proof (induction xs arbitrary: a)
  case (Cons x xs)
  obtain u n where x: "x = (u, n)" by (cases x)
  have "unat a + unat n \<le> unat b" if "tiled w (a + n) xs c" "tiled w c ys b" "unat a + unat n \<le> unat c" for c
    using tiled_le [OF that(2)] that(3) by linarith
  moreover have "unat a + unat n \<le> unat c" if "tiled w (a + n) xs c" "unat a + unat n \<le> unat b" for c
    using tiled_le [OF that(1)] add_unat [OF that(2)] by simp
  ultimately show ?case by (auto simp: x Cons.IH)
qed simp

lemma tiled_cong:
  "(\<And>x. unat a \<le> unat x \<Longrightarrow> unat x < unat b \<Longrightarrow> w x = w' x) \<Longrightarrow> tiled w a bs b \<longleftrightarrow> tiled w' a bs b"
proof (induction w a bs b rule: tiled.induct)
  case (2 w a u n bs b)
  show ?case
  proof (cases "0 < n \<and> unat a + unat n \<le> unat b")
    case True
    have n: "0 < unat n" using True by (simp add: unat_gt_0 word_gt_0)
    have "w a = w' a" by (rule 2) (use True n in simp_all)
    moreover have "tiled w (a + n) bs b \<longleftrightarrow> tiled w' (a + n) bs b" if "w a = header u n" "4 dvd unat n" "unat n < 2 ^ 24"
      using 2 True that add_unat [of a n b] by simp
    ultimately show ?thesis by auto
  next
    case False
    then show ?thesis by auto
  qed
qed simp

lemma tiled_head:
  assumes "tiled w a ((u, n) # bs) b"
  shows "w a = header u n" "BLOCK_GET_SIZE (w a) = n" "n \<noteq> 0" "unat a < unat b" "unat (a + n) = unat a + unat n" "0 < unat n"
    "BLOCK_IS_USED (w a) = u" "BLOCK_IS_FREE (w a) = (\<not> u)" "BLOCK_CHECK (w a)" "tiled w (a + n) bs b"
proof -
  have h: "w a = header u n" "0 < n" "unat n < 2 ^ 24" "unat a + unat n \<le> unat b" "tiled w (a + n) bs b" using assms by simp_all
  then have n: "0 < unat n" by (simp add: unat_gt_0 word_gt_0)
  show "w a = header u n" "BLOCK_GET_SIZE (w a) = n" "n \<noteq> 0" "unat a < unat b" "unat (a + n) = unat a + unat n" "0 < unat n"
    "BLOCK_IS_USED (w a) = u" "BLOCK_IS_FREE (w a) = (\<not> u)" "BLOCK_CHECK (w a)" "tiled w (a + n) bs b"
    using h n add_unat by auto
qed

lemma search_none: "tiled (words m) a bs b \<Longrightarrow> first_fit sz bs = None \<Longrightarrow> vol_search m sz b a = Some NoFit"
proof (induction bs arbitrary: a)
  case Nil
  then show ?case by (subst vol_search.simps) simp
next
  case (Cons x bs)
  obtain u n where x: "x = (u, n)" by (cases x)
  note h = tiled_head [OF Cons.prems(1) [unfolded x]]
  show ?case
    using Cons.prems(2) h Cons.IH [OF h(10)]
    by (subst vol_search.simps) (auto simp: x fits_def word_less_nat_alt word_le_nat_alt Let_def split: if_splits)
qed

lemma search_some:
  assumes "tiled (words m) a bs b" "first_fit sz bs = Some (xs, n, ys)"
  shows "\<exists>c. vol_search m sz b a = Some (Fits c) \<and> tiled (words m) a xs c \<and> tiled (words m) c ((False, n) # ys) b \<and> sz \<le> n"
  using assms
proof (induction bs arbitrary: a xs)
  case (Cons x bs)
  obtain u k where x: "x = (u, k)" by (cases x)
  note h = tiled_head [OF Cons.prems(1) [unfolded x]]
  show ?case
  proof (cases "fits sz x")
    case True
    then have "xs = []" "n = k" "ys = bs" "\<not> u" "sz \<le> k" using Cons.prems(2) by (auto simp: x fits_def)
    moreover have "vol_search m sz b a = Some (Fits a)"
      using h calculation by (subst vol_search.simps) (auto simp: word_less_nat_alt word_le_nat_alt Let_def)
    ultimately show ?thesis using Cons.prems(1) x by auto
  next
    case False
    then obtain xs' where xs': "first_fit sz bs = Some (xs', n, ys)" "xs = x # xs'" using Cons.prems(2) by auto
    obtain c where c: "vol_search m sz b (a + k) = Some (Fits c)" "tiled (words m) (a + k) xs' c" "tiled (words m) c ((False, n) # ys) b" "sz \<le> n"
      using Cons.IH [OF h(10) xs'(1)] by blast
    have "vol_search m sz b a = vol_search m sz b (a + k)"
      using h False by (subst vol_search.simps) (auto simp: x fits_def word_less_nat_alt word_le_nat_alt Let_def)
    moreover have "tiled (words m) a xs c"
    proof -
      have "tiled (words m) a ((x # xs') @ (False, n) # ys) b"
        using Cons.prems(1) c(2,3) by (auto simp: x tiled_append)
      then show ?thesis using c xs'(2) x Cons.prems(1) tiled_le [OF c(2)] h(5) by simp
    qed
    ultimately show ?thesis using c by auto
  qed
qed simp

lemma vol_take_tiled:
  assumes t: "tiled (words m) c ((False, n) # ys) t" and sz: "sz \<le> n" "0 < sz" "4 dvd unat sz"
  shows "tiled (words (vol_take c sz m)) c ((True, sz) # rest sz n @ ys) t" "freep_p (vol_take c sz m) = c + sz"
    "down_p (vol_take c sz m) = down_p m" "top_p (vol_take c sz m) = top_p m"
    "unat x < unat c \<Longrightarrow> words (vol_take c sz m) x = words m x"
    "tiled (words (vol_take c sz m)) (c + sz) (rest sz n @ ys) t"
proof -
  note h = tiled_head [OF t]
  have d: "unat n < 2 ^ 24" "4 dvd unat n" "unat c + unat n \<le> unat t" using t by simp_all
  have un: "unat sz \<le> unat n" "0 < unat sz" using sz by (simp_all add: word_le_nat_alt word_less_nat_alt)
  have us: "unat (n - sz) = unat n - unat sz" using sz(1) by (rule unat_sub)
  have cs: "unat (c + sz) = unat c + unat sz" using add_unat [of c sz t] d un by linarith
  have w: "words (vol_take c sz m) = (if sz < n then (words m)(c := header True sz, c + sz := header False (n - sz)) else (words m)(c := header True sz))"
    using h(2) sz(1) by (auto simp: vol_take_def Let_def set_used_word word_gt_0)
  have ne: "c + sz \<noteq> c" using un cs by auto
  show "freep_p (vol_take c sz m) = c + sz" "down_p (vol_take c sz m) = down_p m" "top_p (vol_take c sz m) = top_p m"
    by (simp_all add: vol_take_def Let_def BLOCK_SET_USED_def BLOCK_SET_FREE_def set_word_def)
  show "words (vol_take c sz m) x = words m x" if "unat x < unat c" using that cs by (auto simp: w)
  have tail: "tiled (words (vol_take c sz m)) (c + n) ys t"
  proof -
    have "tiled (words m) (c + n) ys t" by (rule h(10))
    moreover have "words m x = words (vol_take c sz m) x" if "unat (c + n) \<le> unat x" for x
      using that h(5) un cs unfolding w by (auto simp: word_less_nat_alt)
    ultimately show ?thesis using tiled_cong [of "c + n" t "words m" "words (vol_take c sz m)"] by blast
  qed
  show rest: "tiled (words (vol_take c sz m)) (c + sz) (rest sz n @ ys) t"
  proof (cases "n = sz")
    case True
    then show ?thesis using tail by (simp add: rest_def)
  next
    case False
    then have lt: "sz < n" using sz(1) by simp
    then have "0 < unat (n - sz)" using us by (simp add: word_less_nat_alt)
    moreover have "4 dvd unat (n - sz)" using us d(2) sz(3) by simp
    moreover have "c + sz + (n - sz) = c + n" by simp
    ultimately show ?thesis using lt tail us cs d un by (simp add: rest_def w unat_gt_0 word_gt_0 False)
  qed
  have "words (vol_take c sz m) c = header True sz" using ne by (simp add: w)
  then show "tiled (words (vol_take c sz m)) c ((True, sz) # rest sz n @ ys) t"
    using rest sz un d by simp
qed

lemma tiled_below:
  assumes "tiled (words m) a bs c" "\<And>x. unat x < unat c \<Longrightarrow> words m' x = words m x"
  shows "tiled (words m') a bs c"
  using assms tiled_cong [of a c "words m" "words m'"] by metis

section \<open>Properties of the heap\<close>

text \<open>C6. Allocation is first fit from the last allocation on, then from the bottom: on a heap whose blocks are \<open>lo\<close> below and
  \<open>hi\<close> above the search pointer, the call returns the payload address of the first free block in that order that is
  large enough, splits it, and leaves every other block as it was; it returns \<open>NULL\<close> and changes nothing only when no
  free block is large enough. The heap stays a gapless sequence of blocks, so blocks in use never overlap.\<close>

theorem vol_alloc_first_fit:
  assumes lo: "tiled (words m) (down_p m) lo (freep_p m)" and hi: "tiled (words m) (freep_p m) hi (top_p m)"
    and sz: "0 < sz" "4 dvd unat sz"
  shows "case first_fit sz hi of
      Some (xs, n, ys) \<Rightarrow> \<exists>c m'. vol_alloc sz m = Some (c + 4, m') \<and> tiled (words m) (freep_p m) xs c \<and> freep_p m' = c + sz \<and>
        tiled (words m') (down_p m) (lo @ xs @ [(True, sz)]) (c + sz) \<and> tiled (words m') (c + sz) (rest sz n @ ys) (top_p m)
    | None \<Rightarrow> (case first_fit sz lo of
        Some (xs, n, ys) \<Rightarrow> \<exists>c m'. vol_alloc sz m = Some (c + 4, m') \<and> tiled (words m) (down_p m) xs c \<and> freep_p m' = c + sz \<and>
          tiled (words m') (down_p m) (xs @ [(True, sz)]) (c + sz) \<and> tiled (words m') (c + sz) (rest sz n @ ys @ hi) (top_p m)
      | None \<Rightarrow> vol_alloc sz m = Some (NULL, m))"
proof (cases "first_fit sz hi")
  case (Some r)
  obtain xs n ys where r: "r = (xs, n, ys)" by (cases r)
  obtain c where c: "vol_search m sz (top_p m) (freep_p m) = Some (Fits c)" "tiled (words m) (freep_p m) xs c"
      "tiled (words m) c ((False, n) # ys) (top_p m)" "sz \<le> n"
    using search_some [OF hi] Some r by blast
  note k = vol_take_tiled [OF c(3,4) sz]
  have "tiled (words m) (down_p m) (lo @ xs) c" using lo c(2) by (auto simp: tiled_append)
  then have "tiled (words (vol_take c sz m)) (down_p m) (lo @ xs) c" by (rule tiled_below) (rule k(5))
  moreover have "tiled (words (vol_take c sz m)) c [(True, sz)] (c + sz)"
    using k(1) tiled_append [of _ c "[(True, sz)]" "rest sz n @ ys" "top_p m"] by auto
  ultimately have "tiled (words (vol_take c sz m)) (down_p m) (lo @ xs @ [(True, sz)]) (c + sz)"
    unfolding append_assoc [symmetric] tiled_append [of _ _ "lo @ xs"] by blast
  then show ?thesis using Some r c k by (auto simp: vol_alloc_def)
next
  case None
  note n1 = search_none [OF hi None]
  show ?thesis
  proof (cases "first_fit sz lo")
    case n2: None
    then show ?thesis using None n1 search_none [OF lo n2] by (simp add: vol_alloc_def)
  next
    case (Some r)
    obtain xs n ys where r: "r = (xs, n, ys)" by (cases r)
    obtain c where c: "vol_search m sz (freep_p m) (down_p m) = Some (Fits c)" "tiled (words m) (down_p m) xs c"
        "tiled (words m) c ((False, n) # ys) (freep_p m)" "sz \<le> n"
      using search_some [OF lo] Some r by blast
    have "tiled (words m) c ((False, n) # ys @ hi) (top_p m)"
      using c(3) hi tiled_append [of "words m" c "(False, n) # ys" hi "top_p m"] by auto
    note k = vol_take_tiled [OF this c(4) sz]
    have "tiled (words (vol_take c sz m)) (down_p m) xs c" using c(2) by (rule tiled_below) (rule k(5))
    moreover have "tiled (words (vol_take c sz m)) c [(True, sz)] (c + sz)"
      using k(1) tiled_append [of _ c "[(True, sz)]" "rest sz n @ ys @ hi" "top_p m"] by auto
    ultimately have "tiled (words (vol_take c sz m)) (down_p m) (xs @ [(True, sz)]) (c + sz)"
      unfolding tiled_append [of _ _ xs] by blast
    then show ?thesis using None Some r c k n1 by (auto simp: vol_alloc_def)
  qed
qed

lemma before_tiled:
  "tiled (words m) c xs p \<Longrightarrow> xs \<noteq> [] \<Longrightarrow>
    \<exists>q. vol_before m p c z k = Some (Some (q, snd (last xs))) \<and> tiled (words m) c (butlast xs) q \<and> tiled (words m) q [last xs] p"
proof (induction xs arbitrary: c z k)
  case (Cons x xs)
  obtain u n where x: "x = (u, n)" by (cases x)
  note h = tiled_head [OF Cons.prems(1) [unfolded x]]
  have step: "vol_before m p c z k = vol_before m p (c + n) c n"
    using h by (subst vol_before.simps) (simp add: word_less_nat_alt Let_def)
  show ?case
  proof (cases "xs = []")
    case True
    then have "c + n = p" using h(10) by simp
    moreover have "vol_before m p p c n = Some (Some (c, n))" by (subst vol_before.simps) simp
    ultimately show ?thesis using step True Cons.prems(1) by (simp add: x)
  next
    case False
    obtain q where q: "vol_before m p (c + n) c n = Some (Some (q, snd (last xs)))" "tiled (words m) (c + n) (butlast xs) q"
        "tiled (words m) q [last xs] p"
      using Cons.IH [OF h(10) False] by blast
    have "tiled (words m) c (x # butlast xs) q"
      using Cons.prems(1) q(2) tiled_le [OF q(2)] h(5) by (simp add: x)
    then show ?thesis using step q False by auto
  qed
qed simp

text \<open>The outcome on the words: the block and a free next block become one free block.\<close>

lemma join_next_tiled:
  assumes t: "tiled (words m) p ((True, n) # ys) t" and ne: "ys \<noteq> []" and small: "unat t - unat p < 2 ^ 24"
  defines "tp \<equiv> p + BLOCK_GET_SIZE (words m p)"
  defines "nf \<equiv> BLOCK_IS_FREE (words m tp)" and "k \<equiv> BLOCK_GET_SIZE (words m tp)"
  defines "m1 \<equiv> (if nf then BLOCK_CLEAR tp m else m)"
  shows "\<not> (nf \<and> k = 0)" "(if nf then n + k else n) = fst (join_next n ys)"
    "tiled ((words m1)(p := header False (fst (join_next n ys)))) p ((False, fst (join_next n ys)) # snd (join_next n ys)) t"
    "unat p < unat t" "unat x < unat p \<Longrightarrow> words m1 x = words m x" "words m1 p = words m p"
proof -
  note h = tiled_head [OF t]
  obtain u j zs where ys: "ys = (u, j) # zs" using ne by (metis list.exhaust surj_pair)
  have tp: "tp = p + n" unfolding tp_def h(2) ..
  note g = tiled_head [OF h(10) [unfolded ys]]
  have f: "nf = (\<not> u)" "k = j" using g by (simp_all add: nf_def k_def tp)
  have d: "unat n < 2 ^ 24" "4 dvd unat n" "unat p + unat n \<le> unat t" "4 dvd unat j" "unat (p + n) + unat j \<le> unat t"
    using t by (simp_all add: ys)
  show "\<not> (nf \<and> k = 0)" using f g by simp
  show eq: "(if nf then n + k else n) = fst (join_next n ys)" using f by (cases u) (simp_all add: ys)
  show "unat p < unat t" by (rule h(4))
  show "words m1 x = words m x" if "unat x < unat p" using that h by (auto simp: m1_def BLOCK_CLEAR_def set_word_def tp)
  have tpp: "tp \<noteq> p" using h by (auto simp: tp)
  then show "words m1 p = words m p" by (auto simp: m1_def BLOCK_CLEAR_def set_word_def)
  show "tiled ((words m1)(p := header False (fst (join_next n ys)))) p ((False, fst (join_next n ys)) # snd (join_next n ys)) t"
  proof (cases u)
    case True
    have "words m x = ((words m)(p := header False n)) x" if "unat (p + n) \<le> unat x" for x using that h(5,6) by auto
    then have "tiled ((words m)(p := header False n)) (p + n) ys t"
      using h(10) tiled_cong [of "p + n" t "words m" "(words m)(p := header False n)"] by blast
    then show ?thesis using d h True f by (simp add: ys m1_def word_gt_0)
  next
    case False
    have "unat n + unat j \<le> unat t - unat p" using d h(5) by simp
    then have lt: "unat n + unat j < 2 ^ 24" using small by linarith
    have nj: "unat (n + j) = unat n + unat j" using add_unat [of n j "2 ^ 24 - 1"] lt by simp
    have e: "unat (p + (n + j)) = unat p + unat n + unat j" using add_unat [of "p + n" j t] d h(5) by (simp add: add.assoc)
    have "words m x = ((words m1)(p := header False (n + j))) x" if "unat (p + n + j) \<le> unat x" for x
      using that e h(5,6) g(6) by (auto simp: m1_def BLOCK_CLEAR_def set_word_def tp add.assoc)
    then have "tiled ((words m1)(p := header False (n + j))) (p + n + j) zs t"
      using g(10) tiled_cong [of "p + n + j" t "words m" "(words m1)(p := header False (n + j))"] by blast
    moreover have "0 < n + j" using nj h(6) by (simp add: word_less_nat_alt)
    moreover have "4 dvd unat (n + j)" "unat (n + j) < 2 ^ 24" "unat p + unat (n + j) \<le> unat t" using nj d h(5) lt by simp_all
    ultimately show ?thesis using False by (simp add: ys add.assoc)
  qed
qed

text \<open>The blocks after the next one has been joined: the state from which the code looks for a previous block.\<close>

definition next_joined :: "ptr \<Rightarrow> blocks \<Rightarrow> u32 \<Rightarrow> vol_mem \<Rightarrow> vol_mem" where
  "next_joined p ys n m =
     (let tp = p + BLOCK_GET_SIZE (words m p); m1 = (if BLOCK_IS_FREE (words m tp) then BLOCK_CLEAR tp m else m)
      in (BLOCK_SET_FREE p (fst (join_next n ys)) m1)\<lparr>freep_p := p\<rparr>)"

lemma next_joined_tiled:
  assumes lo: "tiled (words m) d xs p" and hi: "tiled (words m) p ((True, n) # ys) t" and ne: "ys \<noteq> []"
    and small: "unat t - unat p < 2 ^ 24"
  shows "tiled (words (next_joined p ys n m)) d xs p"
    "tiled (words (next_joined p ys n m)) p ((False, fst (join_next n ys)) # snd (join_next n ys)) t"
    "down_p (next_joined p ys n m) = down_p m" "freep_p (next_joined p ys n m) = p"
proof -
  let ?tp = "p + BLOCK_GET_SIZE (words m p)"
  let ?m1 = "if BLOCK_IS_FREE (words m ?tp) then BLOCK_CLEAR ?tp m else m"
  note j = join_next_tiled [OF hi ne small]
  have w: "words (next_joined p ys n m) = (words ?m1)(p := header False (fst (join_next n ys)))"
    by (simp add: next_joined_def Let_def set_used_word)
  show "tiled (words (next_joined p ys n m)) p ((False, fst (join_next n ys)) # snd (join_next n ys)) t" unfolding w by (rule j(3))
  have "words (next_joined p ys n m) x = words m x" if "unat x < unat p" for x using that j(5) [OF that] unfolding w by auto
  then show "tiled (words (next_joined p ys n m)) d xs p" by (rule tiled_below [OF lo])
qed (simp_all add: next_joined_def Let_def)

lemma vol_release_used:
  assumes lo: "tiled (words m) (down_p m) xs p" and hi: "tiled (words m) p ((True, n) # ys) (top_p m)" and ne: "ys \<noteq> []"
    and ok: "down_p m \<noteq> NULL" "unat (top_p m) - unat (down_p m) < 2 ^ 24"
  defines "m2 \<equiv> next_joined p ys n m" and "k \<equiv> BLOCK_GET_SIZE (words m (p + BLOCK_GET_SIZE (words m p)))"
  shows "vol_release p m = (if p = down_p m then Some (Posted, m2)
    else do {
      r \<leftarrow> vol_before m2 p (down_p m) p k;
      case r of None \<Rightarrow> Some (Posted, m2)
      | Some (q, sz) \<Rightarrow>
        if BLOCK_IS_FREE (words m2 q)
        then Some (Posted, (BLOCK_SET_FREE q (fst (join_next n ys) + sz) (BLOCK_CLEAR p m2))\<lparr>freep_p := q\<rparr>)
        else Some (Posted, m2)
    })"
proof -
  let ?tp = "p + BLOCK_GET_SIZE (words m p)" and ?n = "fst (join_next n ys)"
  let ?nf = "BLOCK_IS_FREE (words m ?tp)"
  have dp: "unat (down_p m) \<le> unat p" by (rule tiled_le [OF lo])
  then have small: "unat (top_p m) - unat p < 2 ^ 24" using ok(2) by linarith
  note h = tiled_head [OF hi] and j = join_next_tiled [OF hi ne small]
  have p: "p \<noteq> NULL" "\<not> p < down_p m" "p < top_p m"
    using dp ok(1) h(4) by (auto simp: word_less_nat_alt unat_eq_zero)
  have guard: "\<not> (p = NULL \<or> p < down_p m \<or> p \<ge> top_p m \<or> \<not> BLOCK_CHECK (words m p))" "\<not> BLOCK_IS_FREE (words m p)"
    using p h(8,9) by (simp_all add: linorder_not_le)
  have sz: "(if ?nf then BLOCK_GET_SIZE (words m p) + k else BLOCK_GET_SIZE (words m p)) = ?n"
    using j(2) unfolding h(2) k_def .
  have pr: "(if ?nf then (BLOCK_GET_SIZE (words m p) + k, BLOCK_CLEAR ?tp m) else (BLOCK_GET_SIZE (words m p), m))
      = (?n, if ?nf then BLOCK_CLEAR ?tp m else m)"
    using sz by (cases ?nf) simp_all
  have dm: "down_p m2 = down_p m" by (simp add: m2_def next_joined_def Let_def)
  have m2: "(BLOCK_SET_FREE p ?n (if ?nf then BLOCK_CLEAR ?tp m else m))\<lparr>freep_p := p\<rparr> = m2"
    by (simp add: m2_def next_joined_def Let_def)
  show ?thesis
    unfolding vol_release_def if_not_P [OF guard(1)] if_not_P [OF guard(2)] Let_def k_def [symmetric]
      if_not_P [OF j(1) [folded k_def]] pr prod.case m2 by (simp only: dm)
qed

text \<open>The outcome on the words: a free block and the free block before it become one.\<close>

lemma join_prev_tiled:
  assumes lo: "tiled (words m) d xs q" and prev: "tiled (words m) q [(False, l)] p" and t: "tiled (words m) p ((False, n) # zs) t"
    and small: "unat t - unat d < 2 ^ 24"
  defines "m3 \<equiv> (BLOCK_SET_FREE q (n + l) (BLOCK_CLEAR p m))\<lparr>freep_p := q\<rparr>"
  shows "tiled (words m3) d xs q" "tiled (words m3) q ((False, n + l) # zs) t"
proof -
  note g = tiled_head [OF prev] and e = tiled_head [OF t]
  have qp: "unat p = unat q + unat l" using g(5,10) by simp
  have d: "unat p + unat n \<le> unat t" "4 dvd unat n" "4 dvd unat l" using t prev by simp_all
  have "unat n + unat l \<le> unat t - unat d" using d(1) qp tiled_le [OF lo] by linarith
  then have lt: "unat n + unat l < 2 ^ 24" using small by linarith
  have nl: "unat (n + l) = unat n + unat l" using add_unat [of n l "2 ^ 24 - 1"] lt by simp
  have nums: "4 dvd unat (n + l)" "unat (n + l) < 2 ^ 24" "unat q + unat (n + l) \<le> unat t" using nl lt d qp by simp_all
  have ql: "q + (n + l) = p + n" using g(10) by (simp add: ac_simps)
  have w: "words m3 = (words m)(p := 0, q := header False (n + l))" by (simp add: m3_def set_used_word BLOCK_CLEAR_def set_word_def)
  have "words m x = words m3 x" if "unat (p + n) \<le> unat x" for x using that e(5,6) qp g(6) unfolding w by auto
  then have "tiled (words m3) (p + n) zs t" using e(10) tiled_cong [of "p + n" t "words m" "words m3"] by blast
  moreover have "0 < n + l" using nl g(6) by (simp add: word_less_nat_alt)
  moreover have "words m3 q = header False (n + l)" by (simp add: w)
  ultimately show "tiled (words m3) q ((False, n + l) # zs) t" using nums unfolding tiled.simps ql by blast
  show "tiled (words m3) d xs q" by (rule tiled_below [OF lo]) (use qp in \<open>auto simp: w\<close>)
qed

text \<open>C7. Release of a block in use that is not the last one: it becomes free and is joined with a free next block and a free
  previous block; the search pointer points to the joined block; every other block stays. (The heap is smaller than 16 MB,
  the largest size a header can hold.)\<close>

theorem vol_release_joins:
  assumes lo: "tiled (words m) (down_p m) xs p" and hi: "tiled (words m) p ((True, n) # ys) (top_p m)" and ne: "ys \<noteq> []"
    and ok: "down_p m \<noteq> NULL" "unat (top_p m) - unat (down_p m) < 2 ^ 24"
  shows "\<exists>m' q. vol_release p m = Some (Posted, m') \<and> freep_p m' = q \<and>
    tiled (words m') (down_p m) (butlast (join_prev xs (fst (join_next n ys)))) q \<and>
    tiled (words m') (down_p m) (join_prev xs (fst (join_next n ys)) @ snd (join_next n ys)) (top_p m)"
proof -
  let ?n = "fst (join_next n ys)" and ?m2 = "next_joined p ys n m" and ?k = "BLOCK_GET_SIZE (words m (p + BLOCK_GET_SIZE (words m p)))"
  have "unat (top_p m) - unat p < 2 ^ 24" using ok(2) tiled_le [OF lo] by linarith
  note t = next_joined_tiled [OF lo hi ne this] and rel = vol_release_used [OF lo hi ne ok]
  have keep: "vol_release p m = Some (Posted, ?m2) \<Longrightarrow> join_prev xs ?n = xs @ [(False, ?n)] \<Longrightarrow> ?thesis"
    using t by (intro exI [of _ ?m2] exI [of _ p]) (auto simp: tiled_append)
  show ?thesis
  proof (cases "xs = []")
    case True
    then have "p = down_p m" using lo by simp
    then show ?thesis using keep rel True by (simp add: join_prev_def)
  next
    case False
    obtain q u l where l: "last xs = (u, l)" and before: "vol_before ?m2 p (down_p m) p ?k = Some (Some (q, l))"
        and q: "tiled (words ?m2) (down_p m) (butlast xs) q" "tiled (words ?m2) q [(u, l)] p"
      using before_tiled [OF t(1) False] by (metis snd_conv surj_pair)
    note g = tiled_head [OF q(2)]
    have pd: "p \<noteq> down_p m" using tiled_le [OF q(1)] g(4) by auto
    show ?thesis
    proof (cases u)
      case True
      then show ?thesis using keep rel before pd g(8) l by (simp add: join_prev_def)
    next
      case u: False
      let ?m3 = "(BLOCK_SET_FREE q (?n + l) (BLOCK_CLEAR p ?m2))\<lparr>freep_p := q\<rparr>"
      have r3: "vol_release p m = Some (Posted, ?m3)" using rel before pd g(8) u by simp
      have prev: "tiled (words ?m2) q [(False, l)] p" using q(2) u by simp
      show ?thesis using r3 join_prev_tiled [OF q(1) prev t(2) ok(2)] False u l
        by (intro exI [of _ ?m3] exI [of _ q]) (auto simp: join_prev_def tiled_append butlast_append simp del: tiled.simps)
    qed
  qed
qed

text \<open>A heap of 64 bytes with a block of 16 bytes in use between two free ones, the last in use.\<close>

definition ex_vol :: vol_mem where
  "ex_vol = \<lparr>top_p = 0x1040, down_p = 0x1000, freep_p = 0x1000, mem_state = True,
     words = (\<lambda>_. 0)(0x1000 := header False 16, 0x1010 := header True 16, 0x1020 := header False 16, 0x1030 := header True 16)\<rparr>"

lemma ex_vol_tiled:
  "tiled (words ex_vol) 0x1000 [(False, 16), (True, 16), (False, 16), (True, 16)] 0x1040"
  "tiled (words ex_vol) 0x1000 [(False, 16)] 0x1010" "tiled (words ex_vol) 0x1010 [(True, 16), (False, 16), (True, 16)] 0x1040"
  by (simp_all add: ex_vol_def)

theorem vol_alloc_first_fit_witness: "\<exists>m'. vol_alloc 8 ex_vol = Some (0x1004, m') \<and> freep_p m' = 0x1008"
proof -
  have "tiled (words ex_vol) (down_p ex_vol) [] (freep_p ex_vol)"
    "tiled (words ex_vol) (freep_p ex_vol) [(False, 16), (True, 16), (False, 16), (True, 16)] (top_p ex_vol)"
    using ex_vol_tiled(1) by (simp_all add: ex_vol_def)
  from vol_alloc_first_fit [OF this, of 8] show ?thesis by (auto simp: fits_def) (simp add: ex_vol_def)+
qed

theorem vol_release_joins_witness:
  "\<exists>m'. vol_release 0x1010 ex_vol = Some (Posted, m') \<and> tiled (words m') 0x1000 [(False, 48), (True, 16)] 0x1040"
proof -
  have "tiled (words ex_vol) (down_p ex_vol) [(False, 16)] 0x1010" "tiled (words ex_vol) 0x1010 [(True, 16), (False, 16), (True, 16)] (top_p ex_vol)"
    "down_p ex_vol = 0x1000" "top_p ex_vol = 0x1040"
    using ex_vol_tiled by (simp_all add: ex_vol_def)
  from vol_release_joins [OF this(1,2)] this(3,4) show ?thesis by (auto simp: join_prev_def)
qed

text \<open>The code looks at the word behind the block also when the block is the last one, that is at memory outside the heap.
  When that word is 0 the release reports success in the same way and does nothing: the block stays in use.\<close>

theorem vol_release_last_lost:
  assumes "tiled (words m) (down_p m) xs p" "tiled (words m) p [(True, n)] (top_p m)" "down_p m \<noteq> NULL" "words m (top_p m) = 0"
  shows "vol_release p m = Some (Posted, m) \<and> BLOCK_IS_USED (words m p)"
proof -
  note h = tiled_head [OF assms(2)]
  have dp: "unat (down_p m) \<le> unat p" by (rule tiled_le [OF assms(1)])
  have p: "p \<noteq> NULL" "\<not> p < down_p m" "\<not> top_p m \<le> p"
    using dp assms(3) h(4) by (auto simp: word_less_nat_alt word_le_nat_alt unat_eq_zero)
  have t: "p + BLOCK_GET_SIZE (words m p) = top_p m" using h(10) unfolding h(2) by simp
  have "BLOCK_IS_FREE (0::u32)" "BLOCK_GET_SIZE (0::u32) = 0" by (simp_all add: BLOCK_IS_FREE_def BLOCK_GET_SIZE_def)
  then show ?thesis using p h(7,8,9) assms(4) by (simp add: vol_release_def Let_def t)
qed

theorem vol_release_last_lost_witness: "vol_release 0x1030 ex_vol = Some (Posted, ex_vol)"
proof -
  have "tiled (words ex_vol) (down_p ex_vol) [(False, 16), (True, 16), (False, 16)] 0x1030" "tiled (words ex_vol) 0x1030 [(True, 16)] (top_p ex_vol)"
    "down_p ex_vol \<noteq> NULL" "words ex_vol (top_p ex_vol) = 0"
    by (simp_all add: ex_vol_def)
  from vol_release_last_lost [OF this] show ?thesis by simp
qed

end
