(* ===== verification/Volmem_Props.thy ===== *)
theory Volmem_Props
  imports Volmem Ipc_Props
begin

text \<open>
  The calls of the variable-size heap: with the heap's mutex free they are the heap operations of theory \<open>Volmem\<close> followed
  by the return of the mutex, except that refusing an address keeps the mutex.
\<close>

text \<open>The running thread finds the mutex at \<open>vm\<close> free and no rescheduling is pending.\<close>

definition vol_ready :: "ptr \<Rightarrow> kstate \<Rightarrow> bool" where
  "vol_ready vm s \<longleftrightarrow> mem_state (vol s) \<and> vm \<noteq> NULL \<and> i_type (ipcs s vm) = ACORAL_IPC_MUTEX \<and> mutex_free vm s \<and> \<not> i_lock (ipcs s vm) \<and>
     can_sched s \<and> \<not> need_sched s (current_cpu s) \<and> acoral_list_empty (WaitQ vm) (heap s)"

lemma pend_idle:
  assumes "vol_ready vm s"
  shows "\<exists>s'. acoral_mutex_pend vm s = Some (Done KR_OK, s') \<and> mutex_val vm s' = (MUTEX_NOAVAI, cur_thread s) \<and> vol s' = vol s \<and>
    heap s' = heap s \<and> threads s' = threads s \<and> cur_thread s' = cur_thread s \<and> current_cpu s' = current_cpu s \<and>
    i_type (ipcs s' vm) = ACORAL_IPC_MUTEX \<and> \<not> i_lock (ipcs s' vm) \<and> can_sched s' \<and> \<not> need_sched s' (current_cpu s)"
proof -
  let ?e = "upd_ipc vm (i_lock_update (\<lambda>_. True)) (acoral_enter_critical s)"
  let ?s' = "leave_critical (ipc_unlock vm (mutex_take vm (cur_thread s) ?e))"
  have a: "can_sched s" "\<not> i_lock (ipcs s vm)" "vm \<noteq> NULL" "i_type (ipcs s vm) = ACORAL_IPC_MUTEX" "i_count (ipcs s vm) = MUTEX_AVAI"
    "\<not> need_sched s (current_cpu s)" "hal_get_intr_nesting s = 0"
    using assms by (auto simp: vol_ready_def mutex_free_def mutex_val_def can_sched_def)
  note b = begin_fields [OF a(1,2)]
  have "ipc_end vm (mutex_take vm (cur_thread s) ?e) = Some ?s'"
    using a b by (simp add: ipc_end_def exit_idle ipc_unlock_def mutex_take_def)
  then have "acoral_mutex_pend vm s = Some (Done KR_OK, ?s')"
    using a b(1,8) by (simp add: acoral_mutex_pend_def ipc_guard_def ipc_return_def Let_def)
  moreover have "vol ?s' = vol s" "mutex_val vm ?s' = (MUTEX_NOAVAI, cur_thread s)" "\<not> i_lock (ipcs ?s' vm)" "i_type (ipcs ?s' vm) = ACORAL_IPC_MUTEX"
    "heap ?s' = heap s" "threads ?s' = threads s" "cur_thread ?s' = cur_thread s" "current_cpu ?s' = current_cpu s" "can_sched ?s'"
    "\<not> need_sched ?s' (current_cpu s)"
    using a by (simp_all add: leave_critical_def ipc_unlock_def mutex_take_def upd_ipc_def mutex_val_def acoral_enter_critical_def
        hal_intr_disable_save_def Let_def cur_thread_def can_sched_def hal_get_intr_nesting_def)
  ultimately show ?thesis by blast
qed

lemma post_idle:
  assumes "vm \<noteq> NULL" "i_type (ipcs s vm) = ACORAL_IPC_MUTEX" "i_data (ipcs s vm) = cur_thread s" "\<not> i_lock (ipcs s vm)" "can_sched s"
    "\<not> need_sched s (current_cpu s)" "acoral_list_empty (WaitQ vm) (heap s)"
  shows "\<exists>s'. acoral_mutex_post vm s = Some (KR_OK, s') \<and> mutex_free vm s' \<and> vol s' = vol s \<and> cur_thread s' = cur_thread s"
proof -
  let ?s = "upd_thr (cur_thread s) (t_ipc_update (\<lambda>_. NULL)) s"
  let ?e = "upd_ipc vm (i_lock_update (\<lambda>_. True)) (acoral_enter_critical ?s)"
  let ?f = "upd_ipc vm (\<lambda>i. i\<lparr>i_count := MUTEX_AVAI, i_data := NULL\<rparr>) ?e"
  let ?s' = "leave_critical (ipc_unlock vm ?f)"
  have cs: "can_sched ?s" using assms(5) by (simp add: can_sched_def)
  have lk: "\<not> i_lock (ipcs ?s vm)" using assms(4) by simp
  note b = begin_fields [OF cs lk]
  have "ipc_end vm ?f = Some ?s'" using assms b by (simp add: ipc_end_def exit_idle ipc_unlock_def)
  then have "acoral_mutex_post vm s = Some (KR_OK, ?s')"
    using assms b(1,7) by (simp add: acoral_mutex_post_def ipc_guard_def ipc_return_def acoral_ipc_high_thread_def Let_def)
  moreover have "mutex_free vm ?s'" "vol ?s' = vol s" "cur_thread ?s' = cur_thread s"
    by (simp_all add: mutex_free_def mutex_val_def leave_critical_def ipc_unlock_def upd_ipc_def upd_thr_def acoral_enter_critical_def
        hal_intr_disable_save_def Let_def cur_thread_def)
  ultimately show ?thesis by blast
qed

text \<open>A call of \<open>vol_malloc\<close> that finds the mutex free is one allocation of the request rounded up to words plus a header, and
  gives the mutex back.\<close>

theorem vol_malloc_allocates:
  assumes r: "vol_ready vm s" and a: "vol_alloc (vol_block_size sz) (vol s) = Some (a, m)"
  shows "\<exists>s'. vol_malloc vm sz s = Some (Return a, s') \<and> vol s' = m \<and> mutex_free vm s'"
proof -
  obtain s1 where s1: "acoral_mutex_pend vm s = Some (Done KR_OK, s1)" "mutex_val vm s1 = (MUTEX_NOAVAI, cur_thread s)" "vol s1 = vol s"
    "heap s1 = heap s" "cur_thread s1 = cur_thread s" "current_cpu s1 = current_cpu s" "i_type (ipcs s1 vm) = ACORAL_IPC_MUTEX"
    "\<not> i_lock (ipcs s1 vm)" "can_sched s1" "\<not> need_sched s1 (current_cpu s)"
    using pend_idle [OF r] by blast
  have c: "cur_thread (s1\<lparr>vol := m\<rparr>) = cur_thread s" "can_sched (s1\<lparr>vol := m\<rparr>)"
    using s1(5,9) by (simp_all add: cur_thread_def can_sched_def hal_get_intr_nesting_def)
  obtain s' where "acoral_mutex_post vm (s1\<lparr>vol := m\<rparr>) = Some (KR_OK, s')" "mutex_free vm s'" "vol s' = m"
    using post_idle [of vm "s1\<lparr>vol := m\<rparr>"] s1 c r by (auto simp: vol_ready_def mutex_val_def)
  then show ?thesis using r s1(1,3) a by (auto simp: vol_malloc_def vol_malloc_body_def vol_ready_def)
qed

text \<open>Freeing an address that is not a block in use takes the heap's mutex and returns with it: the caller stays the owner,
  so every later call of another thread blocks.\<close>

theorem vol_free_refused_keeps_mutex:
  assumes r: "vol_ready vm s" and p: "vol_release (p - 4) (vol s) = Some (Refused, m)"
  shows "\<exists>s'. vol_free vm p s = Some (Return (), s') \<and> mutex_val vm s' = (MUTEX_NOAVAI, cur_thread s)"
proof -
  obtain s1 where s1: "acoral_mutex_pend vm s = Some (Done KR_OK, s1)" "mutex_val vm s1 = (MUTEX_NOAVAI, cur_thread s)" "vol s1 = vol s"
    using pend_idle [OF r] by blast
  then show ?thesis using r p by (auto simp: vol_free_def vol_free_body_def vol_ready_def mutex_val_def)
qed

definition ex_vol_kernel :: kstate where
  "ex_vol_kernel = ex_kernel\<lparr>vol := ex_vol\<rparr>"

lemma ex_vol_ready: "vol_ready 0x300 ex_vol_kernel"
proof -
  have "can_sched ex_vol_kernel" using ex_can_sched by (simp add: can_sched_def ex_vol_kernel_def hal_get_intr_nesting_def)
  then show ?thesis
    by (simp add: vol_ready_def ex_vol_kernel_def ACORAL_IPC_MUTEX_def mutex_free_def mutex_val_def)
      (simp add: ex_kernel_def ipc0_def ex_vol_def MUTEX_AVAI_def acoral_list_empty_def ex_heap_def)
qed

theorem vol_malloc_allocates_witness: "\<exists>s'. vol_malloc 0x300 3 ex_vol_kernel = Some (Return 0x1004, s') \<and> mutex_free 0x300 s'"
proof -
  have "vol_search ex_vol 8 0x1040 0x1000 = Some (Fits 0x1000)"
    by (subst vol_search.simps) (simp add: ex_vol_def)
  then have "vol_alloc (vol_block_size 3) (vol ex_vol_kernel) = Some (0x1004, vol_take 0x1000 8 ex_vol)"
    by (simp add: vol_alloc_def vol_block_size_def ex_vol_kernel_def) (simp add: ex_vol_def)
  from vol_malloc_allocates [OF ex_vol_ready this] show ?thesis by blast
qed

theorem vol_free_refused_keeps_mutex_witness:
  "\<exists>s'. vol_free 0x300 0x1024 ex_vol_kernel = Some (Return (), s') \<and> mutex_val 0x300 s' = (MUTEX_NOAVAI, 0x100)"
proof -
  have "vol_release (0x1024 - 4) (vol ex_vol_kernel) = Some (Refused, ex_vol)"
    by (simp add: vol_release_def ex_vol_kernel_def) (simp add: ex_vol_def)
  from vol_free_refused_keeps_mutex [OF ex_vol_ready this] show ?thesis
    by (simp add: ex_vol_kernel_def cur_thread_def)
qed

end
