(* ===== verification/Mem_Props.thy ===== *)
theory Mem_Props
  imports Kmem Example
begin

text \<open>
  Properties of the buddy allocator: the level a request is rounded to, the agreement of \<open>buddy_malloc_size\<close> with it, the
  requests for which \<open>buddy_malloc\<close> never returns, the count of free blocks, which leaks, and two runs on a small heap that show where the allocator goes wrong.
\<close>

section \<open>Runs on a small heap\<close>

text \<open>A sequence of calls of the allocator: \<open>Alloc l\<close> asks for a block of level \<open>l\<close> (of \<open>2 ^ l\<close> basic blocks), which
  \<open>buddy_malloc\<close> refuses when the count of free blocks or the number of levels is too small; \<open>Free n\<close> gives back basic block \<open>n\<close>.
  The answers to the requests are collected, \<open>None\<close> for a refusal.\<close>

datatype mem_op = Alloc nat | Free nat

fun mem_run :: "mem_op list \<Rightarrow> buddy \<Rightarrow> (int option list \<times> buddy) option" where
  "mem_run [] b = Some ([], b)"
| "mem_run (Alloc l # ops) b =
     (if 2 ^ l > unat (free_num b) \<or> l \<ge> level b then do { (ns, b) \<leftarrow> mem_run ops b; Some (None # ns, b) }
      else do { (n, b) \<leftarrow> buddy_take l b; (ns, b) \<leftarrow> mem_run ops b; Some (Some n # ns, b) })"
| "mem_run (Free n # ops) b = do { (_, b) \<leftarrow> buddy_put n b; mem_run ops b }"

definition small_heap :: "(kernel_error \<times> buddy) option" where
  "small_heap = buddy_init (\<lambda>_. 0) 0x1000 0x1600 buddy0"

definition runs :: "mem_op list \<Rightarrow> int option list option" where
  "runs ops = do { (_, b) \<leftarrow> small_heap; map_option fst (mem_run ops b) }"

text \<open>Two blocks in use can overlap: on a heap of nine basic blocks, three requests for one basic block are given blocks 8, 0
  and 1; after block 0 is freed, a request for two basic blocks is given blocks 0 and 1, although block 1 is still in use.\<close>

lemma buddy_blocks_overlap: "runs [Alloc 0, Alloc 0, Alloc 0, Free 0, Alloc 1] = Some [Some 8, Some 0, Some 1, Some 0]"
  by code_simp

text \<open>A request that fragmentation makes impossible does not fail: with all nine blocks in use and two separate ones freed, a
  request for two basic blocks passes the test of the number of free blocks, and the error code of the search is taken for the number
  of a block and used as an index.\<close>

lemma buddy_fragmented_out_of_bounds:
  "runs (replicate 9 (Alloc 0) @ [Free 0, Free 2]) = Some (map Some [8, 0, 1, 2, 3, 4, 5, 6, 7]) \<and>
   runs (replicate 9 (Alloc 0) @ [Free 0, Free 2, Alloc 1]) = None"
  by (rule conjI; code_simp)

section \<open>The count of free blocks\<close>

text \<open>The next block of level 0 that the allocator gives out is the second half of a pair whose first half is in use: bit \<open>i\<close> of word
  \<open>c\<close> is the lowest one bit of the first word in the list of the level, and the words of the list are in increasing order.\<close>

definition half_pair :: "nat \<Rightarrow> nat \<Rightarrow> buddy \<Rightarrow> bool" where
  "half_pair c i b \<longleftrightarrow> 1 < level b \<and> lget (free_cur b) 0 = Some (int c) \<and> (\<exists>w. get_word 0 (int c) b = Some w \<and> lowest_bit w i) \<and>
     iget (mem_blocks b) (int (32 * c + i)) = Some 0 \<and> (\<exists>f. get_free_list 0 (int c) b = Some f \<and> (f < 0 \<or> int c < f))"

lemma half_pair_round:
  assumes "half_pair c i b"
  shows "\<exists>b'. buddy_take 0 b = Some (int (2 * (32 * c + i) + 1), b') \<and>
    buddy_put (2 * (32 * c + i) + 1) b' = Some (PutMerged, b\<lparr>free_num := free_num b - 1\<rparr>)"
proof -
  define x where "x = 32 * c + i"
  have nx: "nat (32 * int c + int i) = x" "nat (int x) = x" by (simp_all add: x_def)
  obtain w f where lv: "1 < level b" and fc: "0 < length (free_cur b)" "free_cur b ! 0 = int c"
      and w: "0 < length (bitmap b)" "c < length (bitmap b ! 0)" "bitmap b ! 0 ! c = w" "lowest_bit w i"
      and mb: "x < length (mem_blocks b)" "mem_blocks b ! x = 0"
      and fl: "0 < length (free_list b)" "c < length (free_list b ! 0)" "free_list b ! 0 ! c = f" "f < 0 \<or> int c < f"
    using assms by (auto simp: half_pair_def lget_def iget_def get_word_def get_free_list_def bind_Some_iff nx split: if_splits)
  have i: "i < 32" "bit w i" using w(4) by (simp_all add: lowest_bit_def)
  have x: "x div 32 = c" "x mod 32 = i" "c * 32 + i = x" using i(1) by (simp_all add: x_def)
  have ff: "unat (acoral_ffs w) = i" using ffs_lowest [OF w(4)] i(1) by (simp add: unsigned_of_nat take_bit_nat_eq_self)
  let ?w = "w AND NOT (push_bit i 1)"
  let ?row = "bitmap b ! 0"
  have onoff: "?w OR push_bit i 1 = w" "?w AND push_bit i 1 = 0" by (rule bit_word_eqI, use i(2) in \<open>auto simp: bit_simps\<close>)+
  have cb: "acoral_clear_bit x ?row = Some (?row[c := ?w])" using clear_bit_Some [of x ?row] w(2,3) x by simp
  have sb: "acoral_set_bit x (?row[c := ?w]) = Some ?row"
    using set_bit_Some [of x "?row[c := ?w]"] w(2,3) x onoff(1) list_update_id [of ?row c] by simp
  have gb: "acoral_get_bit x (?row[c := ?w]) = Some 0" using w(2) x onoff(2) by (simp add: acoral_get_bit_def nr_index Let_def)
  define b1 where "b1 = b\<lparr>free_num := free_num b - 1\<rparr>"
  define b2 where "b2 = b1\<lparr>bitmap := (bitmap b)[0 := ?row[c := ?w]], free_cur := (if ?w = 0 then (free_cur b)[0 := f] else free_cur b)\<rparr>"
  have cur: "nat (int c) * 32 + unat (acoral_ffs w) = x" using ff x(3) by simp
  have "recus_malloc 0 b1 = Some (int (2 * x + 1), b2)"
    using lv fc w mb fl cb ff x(3)
    by (subst recus_malloc.simps) (auto simp: b1_def b2_def lget_def iget_def get_word_def clear_map_bit_def get_free_list_def set_free_cur_def lset_def
        Let_def ac_simps)
  then have take: "buddy_take 0 b = Some (int (2 * x + 1), b2)" by (simp add: buddy_take_def b1_def [symmetric] Let_def)
  have m: "(2 * x + 1) div 2 = x" "(2 * x + 1) mod 2 = 1" by simp_all
  have "(free_cur b)[0 := int (x div 32)] = free_cur b" using fc(2) list_update_id [of "free_cur b" 0] x(1) by simp
  then have fr: "free_up 0 x b2 = Some b1"
    using lv fc w fl mb gb sb x(1)
    by (subst free_up.simps) (auto simp: b1_def b2_def lget_def iget_def get_map_bit_def set_map_bit_def set_free_list_def set_free_cur_def
        lset_def iset_def Let_def intro!: buddy.equality)
  have "buddy_put (2 * x + 1) b2 = Some (PutMerged, b1)"
    using lv mb gb w(1) fr unfolding buddy_put_def m by (simp add: b1_def b2_def iget_def lget_def get_map_bit_def)
  then show ?thesis using take unfolding x_def b1_def by blast
qed

text \<open>C37. The count of free blocks leaks. While the next block that a request for one basic block is given is the second half of a
  pair whose first half is in use, taking it and giving it back restores the allocator, but leaves one block fewer in the count, since
  the release of an odd block does not raise it. After as many rounds as the count says, every request, of whatever size, is refused,
  although no block more is in use than at the beginning.\<close>

theorem buddy_count_leaks:
  assumes "half_pair c i b"
  defines "n \<equiv> 2 * (32 * c + i) + 1"
  shows "mem_run (concat (replicate (unat (free_num b)) [Alloc 0, Free n]) @ [Alloc l]) b =
    Some (replicate (unat (free_num b)) (Some (int n)) @ [None], b\<lparr>free_num := 0\<rparr>)"
proof -
  have run: "mem_run (concat (replicate (unat (free_num b)) [Alloc 0, Free n]) @ [Alloc l]) b =
      Some (replicate (unat (free_num b)) (Some (int n)) @ [None], b\<lparr>free_num := 0\<rparr>)" if "half_pair c i b" for b
    using that
  proof (induction "unat (free_num b)" arbitrary: b)
    case 0
    then have "free_num b = 0" by (simp add: unat_eq_zero)
    then show ?case by (simp add: buddy.equality)
  next
    case (Suc k)
    let ?b = "b\<lparr>free_num := free_num b - 1\<rparr>"
    have "free_num b \<noteq> 0" using Suc.hyps(2) by auto
    then have k: "unat (free_num ?b) = k" using Suc.hyps(2) by (simp add: unat_minus_one)
    have "half_pair c i ?b" using Suc.prems by (simp add: half_pair_def get_word_def get_free_list_def)
    from Suc.hyps(1) [OF k [symmetric] this]
    show ?case using half_pair_round [OF Suc.prems] Suc.prems Suc.hyps(2) k unfolding n_def [symmetric]
      by (auto simp: half_pair_def simp flip: Suc.hyps(2))
  qed
  then show ?thesis using assms(1) .
qed

text \<open>The small heap after its blocks 8 and 0 have been given out: block 1 is next.\<close>

definition ex_half :: buddy where
  "ex_half = snd (the (do { (_, b) \<leftarrow> small_heap; mem_run [Alloc 0, Alloc 0] b }))"

lemma ex_half_fields:
  "(level ex_half, free_num ex_half, lget (free_cur ex_half) 0, get_word 0 0 ex_half, iget (mem_blocks ex_half) 0, get_free_list 0 0 ex_half) =
     (5, 7, Some 0, Some 1, Some 0, Some (- 1))"
  by code_simp

lemma ex_half_state: "half_pair 0 0 ex_half \<and> free_num ex_half = 7"
  using ex_half_fields by (simp add: half_pair_def lowest_bit_def)

theorem buddy_count_leaks_witness:
  "mem_run (concat (replicate 7 [Alloc 0, Free 1]) @ [Alloc 2]) ex_half = Some (replicate 7 (Some 1) @ [None], ex_half\<lparr>free_num := 0\<rparr>)"
  using buddy_count_leaks [of 0 0 ex_half 2] ex_half_state by simp

section \<open>Sizes\<close>

lemma shift_pow: "push_bit 1 (2 ^ n :: 'a :: len word) = 2 ^ Suc n"
  by (simp add: push_bit_eq_mult)

lemma unat_pow: "n < 32 \<Longrightarrow> unat (2 ^ n :: u32) = 2 ^ n"
proof -
  assume n: "n < 32"
  have "unat (of_nat (2 ^ n) :: u32) = 2 ^ n" using n by (simp only: unsigned_of_nat) (simp add: take_bit_nat_eq_self)
  then show ?thesis by simp
qed

text \<open>The doubling loop of \<open>buddy_malloc\<close> from its \<open>k\<close>-th step.\<close>

lemma level_loop_step:
  assumes "j \<le> k" "k \<le> 24" "unat sz \<le> 128 * 2 ^ k" "k = 0 \<or> 128 * 2 ^ (k - 1) < unat sz"
  shows "level_loop sz (2 ^ j) (of_nat j) (2 ^ (7 + j)) = Some (2 ^ k, of_nat k)"
  using assms(1)
proof (induction "k - j" arbitrary: j)
  case 0
  then have j: "j = k" by simp
  have "unat (2 ^ (7 + k) :: u32) = 2 ^ (7 + k)" by (rule unat_pow) (use assms(2) in simp)
  then have "\<not> (2 ^ (7 + k) :: u32) < sz" using assms(3) by (simp add: word_less_nat_alt power_add)
  then show ?case by (subst level_loop.simps) (simp add: j)
next
  case (Suc d)
  then have jk: "j < k" by simp
  have "(2::nat) ^ j \<le> 2 ^ (k - 1)" using jk by (intro power_increasing) simp_all
  then have "128 * 2 ^ j < unat sz" using assms(4) jk by linarith
  moreover have "unat (2 ^ (7 + j) :: u32) = 2 ^ (7 + j)" by (rule unat_pow) (use jk assms(2) in simp)
  ultimately have lt: "(2 ^ (7 + j) :: u32) < sz" by (simp add: word_less_nat_alt power_add)
  have "level_loop sz (2 ^ Suc j) (of_nat (Suc j)) (2 ^ (7 + Suc j)) = Some (2 ^ k, of_nat k)"
    by (rule Suc.hyps(1)) (use Suc.hyps(2) jk in simp_all)
  then show ?case using lt unfolding level_loop.simps [of sz "2 ^ j"] shift_pow by (simp add: add.commute)
qed

text \<open>The step at which the loop of a size stops.\<close>

lemma size_level: "0 < sz \<Longrightarrow> \<exists>k. sz \<le> 128 * 2 ^ k \<and> (k = 0 \<or> 128 * 2 ^ (k - 1) < (sz::nat))"
proof -
  assume "0 < sz"
  have "sz \<le> 128 * 2 ^ sz" using less_exp [of sz] by linarith
  then obtain k where k: "sz \<le> 128 * 2 ^ k" "\<forall>i<k. \<not> sz \<le> 128 * 2 ^ i"
    using exists_least_iff [of "\<lambda>k. sz \<le> 128 * 2 ^ k"] by blast
  then show ?thesis by (intro exI [of _ k]) (cases k; simp add: not_le)
qed

text \<open>The loop of \<open>buddy_malloc_size\<close> takes the same steps until it has used up the levels.\<close>

lemma size_loop_step:
  assumes "j \<le> min k lv" "k \<le> 24" "unat sz \<le> 128 * 2 ^ k" "k = 0 \<or> 128 * 2 ^ (k - 1) < unat sz"
  shows "size_loop sz lv j (2 ^ (7 + j)) = 2 ^ (7 + min k lv)"
  using assms(1)
proof (induction "min k lv - j" arbitrary: j)
  case 0
  then have j: "j = min k lv" by simp
  have "unat (2 ^ (7 + k) :: u32) = 2 ^ (7 + k)" by (rule unat_pow) (use assms(2) in simp)
  then have "\<not> (2 ^ (7 + k) :: u32) < sz" using assms(3) by (simp add: word_less_nat_alt power_add)
  then show ?case by (subst size_loop.simps) (simp add: j min_def)
next
  case (Suc d)
  then have jk: "j < k" "j < lv" by simp_all
  have "(2::nat) ^ j \<le> 2 ^ (k - 1)" using jk by (intro power_increasing) simp_all
  then have "128 * 2 ^ j < unat sz" using assms(4) jk by linarith
  moreover have "unat (2 ^ (7 + j) :: u32) = 2 ^ (7 + j)" by (rule unat_pow) (use jk assms(2) in simp)
  ultimately have lt: "(2 ^ (7 + j) :: u32) < sz" by (simp add: word_less_nat_alt power_add)
  have "size_loop sz lv (Suc j) (2 ^ (7 + Suc j)) = 2 ^ (7 + min k lv)"
    by (rule Suc.hyps(1)) (use Suc.hyps(2) jk in simp_all)
  then show ?case using lt jk unfolding size_loop.simps [of sz lv j] shift_pow by simp
qed

lemma block_size_pow: "BLOCK_SIZE = 2 ^ (7 + 0)"
  by (simp add: BLOCK_SIZE_def BLOCK_SHIFT_def)

text \<open>The level of a size up to \<open>2 ^ 31\<close> is at most 24.\<close>

lemma size_level_le: "128 * 2 ^ (k - 1) < sz \<Longrightarrow> sz \<le> (2::nat) ^ 31 \<Longrightarrow> k \<le> 24"
proof (rule ccontr)
  assume a: "128 * 2 ^ (k - 1) < sz" "sz \<le> 2 ^ 31" "\<not> k \<le> 24"
  have "(2::nat) ^ 24 \<le> 2 ^ (k - 1)" using a(3) by (intro power_increasing) simp_all
  then show False using a(1,2) by simp
qed

lemma level_of:
  assumes "0 < sz" "sz \<le> 0x80000000"
  obtains k where "k \<le> 24" "unat (sz::u32) \<le> 128 * 2 ^ k" "k = 0 \<or> 128 * 2 ^ (k - 1) < unat sz"
proof -
  have "0 < unat sz" "unat sz \<le> 2 ^ 31" using assms by (simp_all add: word_less_nat_alt word_le_nat_alt)
  from size_level [OF this(1)] obtain k where k: "unat sz \<le> 128 * 2 ^ k" "k = 0 \<or> 128 * 2 ^ (k - 1) < unat sz" by blast
  have "k \<le> 24" using k(2) size_level_le [OF _ \<open>unat sz \<le> 2 ^ 31\<close>] by (cases "k = 0") simp_all
  then show ?thesis using k by (rule that)
qed

text \<open>C36. For a size from 1 to \<open>2 ^ 31\<close> bytes the loop of \<open>buddy_malloc\<close> that rounds it up ends, with the smallest power of two of
  basic blocks that holds the size, and with its level.\<close>

theorem buddy_rounding_terminates:
  assumes "0 < sz" "sz \<le> 0x80000000"
  shows "\<exists>k\<le>24. level_loop sz 1 0 BLOCK_SIZE = Some (2 ^ k, of_nat k) \<and> unat sz \<le> 128 * 2 ^ k \<and>
    (\<forall>j<k. 128 * 2 ^ j < unat sz)"
proof -
  obtain k where k: "k \<le> 24" "unat sz \<le> 128 * 2 ^ k" "k = 0 \<or> 128 * 2 ^ (k - 1) < unat sz" by (rule level_of [OF assms])
  have "level_loop sz 1 0 BLOCK_SIZE = Some (2 ^ k, of_nat k)"
    using level_loop_step [OF le0 k] unfolding block_size_pow by simp
  moreover have "128 * 2 ^ j < unat sz" if j: "j < k" for j
  proof -
    have "(2::nat) ^ j \<le> 2 ^ (k - 1)" using j by (intro power_increasing) simp_all
    then show ?thesis using k(3) j by linarith
  qed
  ultimately show ?thesis using k(1,2) by blast
qed

theorem buddy_rounding_terminates_witness:
  "\<exists>k\<le>24. level_loop 1000 1 0 BLOCK_SIZE = Some (2 ^ k, of_nat k) \<and> unat (1000 :: u32) \<le> 128 * 2 ^ k \<and>
    (\<forall>j<k. 128 * 2 ^ j < unat (1000 :: u32))"
  by (rule buddy_rounding_terminates [of 1000]) simp_all

text \<open>\<open>buddy_malloc_size\<close> and \<open>buddy_malloc\<close> agree on what a request takes: when the size \<open>buddy_malloc_size\<close> answers holds the
  request, it is the number of basic blocks, and at most the top level, that \<open>buddy_malloc\<close> goes on to allocate.\<close>

theorem buddy_malloc_size_agrees:
  assumes "0 < sz" "sz \<le> 0x80000000" "mem_ok b" "sz \<le> buddy_malloc_size b sz"
  shows "\<exists>num l. level_loop sz 1 0 BLOCK_SIZE = Some (num, l) \<and> buddy_malloc_size b sz = num * BLOCK_SIZE \<and> unat l \<le> level b"
proof -
  obtain k where k: "k \<le> 24" "unat sz \<le> 128 * 2 ^ k" "k = 0 \<or> 128 * 2 ^ (k - 1) < unat sz" by (rule level_of [OF assms(1,2)])
  have ll: "level_loop sz 1 0 BLOCK_SIZE = Some (2 ^ k, of_nat k)"
    using level_loop_step [OF le0 k] unfolding block_size_pow by simp
  have bs: "buddy_malloc_size b sz = 2 ^ (7 + min k (level b))"
    unfolding buddy_malloc_size_def block_size_pow using size_loop_step [OF _ k, of 0 "level b"] assms(3) by simp
  have kl: "k \<le> level b"
  proof (rule ccontr)
    assume n: "\<not> k \<le> level b"
    then have m: "min k (level b) = level b" by simp
    have "unat (2 ^ (7 + level b) :: u32) = 2 ^ (7 + level b)" by (rule unat_pow) (use n k(1) in simp)
    then have "unat sz \<le> 128 * 2 ^ level b" using assms(4) unfolding bs m by (simp add: word_le_nat_alt power_add)
    moreover have "(2::nat) ^ level b \<le> 2 ^ (k - 1)" using n by (intro power_increasing) simp_all
    ultimately show False using k(3) n by linarith
  qed
  have "unat (of_nat k :: u8) \<le> level b" using kl by (simp add: unsigned_of_nat take_bit_eq_mod)
  then show ?thesis using ll bs kl by (simp add: power_add block_size_pow mult.commute min_def)
qed

theorem buddy_malloc_size_agrees_witness:
  "\<exists>num l. level_loop 1000 1 0 BLOCK_SIZE = Some (num, l) \<and>
     buddy_malloc_size (buddy0\<lparr>mem_ok := True, level := 4\<rparr>) 1000 = num * BLOCK_SIZE \<and> unat l \<le> level (buddy0\<lparr>mem_ok := True, level := 4\<rparr>)"
  by (rule buddy_malloc_size_agrees) (simp_all add: buddy_malloc_size_def, code_simp)

text \<open>Above \<open>2 ^ 31\<close> the doubled size never reaches the request: it becomes 0 and stays there.\<close>

definition doubled :: "u32 \<Rightarrow> bool" where
  "doubled r \<longleftrightarrow> r = 0 \<or> (\<exists>k\<le>24. r = 2 ^ (7 + k))"

lemma doubled_step: "doubled r \<Longrightarrow> doubled (push_bit 1 r)"
proof -
  assume "doubled r"
  then consider "r = 0" | k where "k < 24" "r = 2 ^ (7 + k)" | "r = 2 ^ (7 + 24)"
    unfolding doubled_def using le_neq_implies_less by blast
  then show ?thesis
  proof cases
    case 2
    then show ?thesis unfolding doubled_def by (intro disjI2 exI [of _ "Suc k"]) (simp add: push_bit_eq_mult flip: power_Suc2)
  next
    case 3
    then show ?thesis by (simp add: doubled_def push_bit_eq_mult)
  qed (simp add: doubled_def)
qed

lemma doubled_small: "doubled r \<Longrightarrow> r \<le> 0x80000000"
proof -
  assume "doubled r"
  then consider "r = 0" | k where "k \<le> 24" "r = 2 ^ (7 + k)" unfolding doubled_def by blast
  then show ?thesis
  proof cases
    case 2
    then have "unat r = 2 ^ (7 + k)" using unat_pow [of "7 + k"] by simp
    moreover have "(2::nat) ^ (7 + k) \<le> 2 ^ 31" using 2(1) by (intro power_increasing) simp_all
    ultimately show ?thesis by (simp add: word_le_nat_alt)
  qed simp
qed

lemma level_loop_spins:
  assumes "level_loop sz num l r = Some q"
  shows "0x80000000 < sz \<longrightarrow> \<not> doubled r"
proof (rule level_loop.raw_induct [OF _ assms], intro impI notI)
  fix f :: "u32 \<Rightarrow> u32 \<Rightarrow> u8 \<Rightarrow> u32 \<Rightarrow> (u32 \<times> u8) option" and sz num l r q
  assume ih: "\<And>sz num l r q. f sz num l r = Some q \<Longrightarrow> 0x80000000 < sz \<longrightarrow> \<not> doubled r"
    and body: "(if r < sz then f sz (push_bit 1 num) (l + 1) (push_bit 1 r) else Some (num, l)) = Some q"
    and sz: "0x80000000 < sz" and d: "doubled r"
  have "r < sz" using doubled_small [OF d] sz by (rule le_less_trans)
  then have "f sz (push_bit 1 num) (l + 1) (push_bit 1 r) = Some q" using body by simp
  from ih [OF this] doubled_step [OF d] sz show False by blast
qed

text \<open>For a request above \<open>2 ^ 31\<close> bytes the rounding loop never ends (its size wraps around to 0), so \<open>buddy_malloc\<close> does not
  return, where its error path would answer \<open>NULL\<close>.\<close>

theorem buddy_malloc_never_returns:
  assumes "0x80000000 < sz" "mem_ok (mem s)"
  shows "level_loop sz 1 0 BLOCK_SIZE = None \<and> buddy_malloc sz s = None"
proof -
  have "doubled BLOCK_SIZE" unfolding block_size_pow doubled_def by blast
  then have "level_loop sz 1 0 BLOCK_SIZE \<noteq> Some q" for q using level_loop_spins assms(1) by blast
  then have "level_loop sz 1 0 BLOCK_SIZE = None" by (meson not_None_eq)
  then show ?thesis using assms(2) by (simp add: buddy_malloc_def)
qed

theorem buddy_malloc_never_returns_witness:
  "level_loop 0x80000001 1 0 BLOCK_SIZE = None \<and>
   buddy_malloc 0x80000001 (ex_kernel\<lparr>mem := buddy0\<lparr>mem_ok := True\<rparr>\<rparr>) = None"
  by (rule buddy_malloc_never_returns) simp_all

end
