(* ===== verification/Memscan.thy ===== *)
theory Memscan
  imports Mem_Props Volmem
begin

text \<open>
  The reports on the state of both allocators (\<^verbatim>\<open>kernel/src/mem.c\<close>). A report is the list of its calls of
  \<^verbatim>\<open>acoral_print\<close> and \<^verbatim>\<open>acoral_prints\<close>: the format and the arguments (theory \<open>Print\<close> says what they write). The walk over the
  heap is a loop to the first header that is not before the top. On a tiled heap its report is the list of blocks.
\<close>

type_synonym print_call = "string \<times> u32 list"

definition crlf :: string where "crlf = [CHR 0x0D, CHR 0x0A]"

section \<open>The buddy allocator\<close>

text \<open>One line of the bitmap holds up to eight words; \<open>k\<close> words have been written.\<close>

function scan_row :: "u32 list \<Rightarrow> nat \<Rightarrow> nat \<Rightarrow> print_call list option" where
  "scan_row row num k =
     (if k < num then do {
        let k' = min num (k + 8);
        ws \<leftarrow> those (map (lget row) [k ..< k']);
        rest \<leftarrow> scan_row row num k';
        Some (map (\<lambda>w. (''%x '', [w])) ws @ (crlf, []) # rest)
      } else Some [])"
  by pat_completeness auto
termination by (relation "measure (\<lambda>(_, num, k). num - k)") auto

definition scan_level :: "buddy \<Rightarrow> nat \<Rightarrow> print_call list option" where
  "scan_level b i =
     do {
       num_perlevel \<leftarrow> lget (num_l b) i;
       row \<leftarrow> lget (bitmap b) i;
       words \<leftarrow> scan_row row (unat num_perlevel) 0;
       cur \<leftarrow> lget (free_cur b) i;
       Some ((''Level%d'' @ crlf, [of_nat i]) # (''bitmap:'', []) # words @ [(''Free Block head:%d'' @ crlf, [word_of_int cur]), (crlf, [])])
     }"

definition buddy_scan :: "buddy \<Rightarrow> print_call list option" where
  "buddy_scan b =
     do {
       levels \<leftarrow> those (map (scan_level b) [0 ..< level b]);
       Some (concat levels @ [(''Free Mem Block Number:%d'' @ crlf, [free_num b]), (crlf, [])])
     }"

section \<open>The variable-size heap\<close>

text \<open>The body of the loop comes before its condition.\<close>

partial_function (option) vol_scan_loop :: "vol_mem \<Rightarrow> ptr \<Rightarrow> print_call list option" where
  "vol_scan_loop m ctp =
     (let tp = ctp; size = BLOCK_GET_SIZE (words m tp) in
      if size = 0 then Some [(''Err address is 0x%x,size should not be 0'' @ crlf, [tp])]
      else
        let line = (if BLOCK_IS_USED (words m tp) then (''The address is 0x%x,the block is used and it's size is %d'' @ crlf, [tp, size])
                    else (''The address is 0x%x,the block is unused and it's size is %d'' @ crlf, [tp, size]));
            ctp = ctp + size
        in if ctp < top_p m then do { rest \<leftarrow> vol_scan_loop m ctp; Some (line # rest) } else Some [line])"

declare vol_scan_loop.simps [code]

definition vol_mem_scan :: "vol_mem \<Rightarrow> print_call list option" where
  "vol_mem_scan m =
     (if \<not> mem_state m then Some [(''Mem Init Err ,so no mem space to malloc'' @ crlf, [])]
      else vol_scan_loop m (down_p m))"

section \<open>What the reports say\<close>

definition block_line :: "bool \<Rightarrow> ptr \<Rightarrow> u32 \<Rightarrow> print_call" where
  "block_line u p n = ((if u then ''The address is 0x%x,the block is used and it's size is %d''
     else ''The address is 0x%x,the block is unused and it's size is %d'') @ crlf, [p, n])"

fun block_lines :: "ptr \<Rightarrow> blocks \<Rightarrow> print_call list" where
  "block_lines p [] = []"
| "block_lines p ((u, n) # bs) = block_line u p n # block_lines (p + n) bs"

lemma vol_scan_tiled:
  assumes "tiled (words m) p bs (top_p m)" "bs \<noteq> []"
  shows "vol_scan_loop m p = Some (block_lines p bs)"
  using assms
proof (induction bs arbitrary: p)
  case (Cons x bs)
  obtain u n where x: "x = (u, n)" by (cases x)
  note h = tiled_head [OF Cons.prems(1) [unfolded x]]
  have t: "tiled (words m) (p + n) bs (top_p m)" by (rule h(10))
  have w: "BLOCK_GET_SIZE (words m p) = n" "n \<noteq> 0" "BLOCK_IS_USED (words m p) \<longleftrightarrow> u"
    using Cons.prems(1) by (auto simp: x)
  show ?case
  proof (cases "bs = []")
    case True
    then show ?thesis using t w by (subst vol_scan_loop.simps) (simp add: x block_line_def)
  next
    case False
    then obtain v k cs where "bs = (v, k) # cs" by (metis list.exhaust surj_pair)
    then have "p + n < top_p m" using tiled_head(4) [OF t [unfolded \<open>bs = (v, k) # cs\<close>]] by (simp add: word_less_nat_alt)
    then show ?thesis using Cons.IH [OF t False] w by (subst vol_scan_loop.simps) (simp add: x block_line_def)
  qed
qed simp

text \<open>The report on a heap in use is the list of its blocks; after the release of a block it shows the joined one.\<close>

lemma vol_mem_scan_blocks:
  "mem_state m \<Longrightarrow> tiled (words m) (down_p m) bs (top_p m) \<Longrightarrow> bs \<noteq> [] \<Longrightarrow> vol_mem_scan m = Some (block_lines (down_p m) bs)"
  by (simp add: vol_mem_scan_def vol_scan_tiled)

text \<open>The number of words that a row reports is the number of words it has, in order.\<close>

lemma those_lget: "j \<le> length row \<Longrightarrow> those (map (lget row) [i ..< j]) = Some (map ((!) row) [i ..< j])"
  by (induction "j - i" arbitrary: i) (auto simp: upt_rec lget_def)

lemma scan_row_words:
  assumes "num \<le> length row" "k \<le> num"
  shows "\<exists>ls. scan_row row num k = Some ls \<and> concat (map snd ls) = drop k (take num row)"
  using assms
proof (induction row num k rule: scan_row.induct)
  case (1 row num k)
  show ?case
  proof (cases "k < num")
    case True
    let ?k' = "min num (k + 8)"
    have le: "?k' \<le> length row" "?k' \<le> num" using 1(2) by auto
    obtain ls where ls: "scan_row row num ?k' = Some ls" "concat (map snd ls) = drop ?k' (take num row)"
      using 1(1) [OF True refl _ 1(2) le(2)] those_lget [OF le(1)] by blast
    have "map ((!) row) [k ..< ?k'] @ drop ?k' (take num row) = drop k (take num row)"
    proof (rule nth_equalityI)
      show "length (map ((!) row) [k ..< ?k'] @ drop ?k' (take num row)) = length (drop k (take num row))"
        using True 1(2) by simp
    next
      fix i assume "i < length (map ((!) row) [k ..< ?k'] @ drop ?k' (take num row))"
      then show "(map ((!) row) [k ..< ?k'] @ drop ?k' (take num row)) ! i = drop k (take num row) ! i"
        using True 1(2) by (auto simp: nth_append min_def add.commute)
    qed
    then show ?thesis using True ls those_lget [OF le(1), of k] by (subst scan_row.simps) (simp add: comp_def)
  qed (use 1(3) in simp)
qed

end
