(* ===== verification/Pcp.thy ===== *)
theory Pcp
  imports Volmem
begin

text \<open>
  The multiprocessor and the distributed priority-ceiling protocol of \<^verbatim>\<open>kernel/src/ipc.c\<close>. Each CPU has a system
  priority, a stack of the resources in use and a queue of waiting threads (two of each for the distributed protocol). A
  call that gives up the CPU is split where it does: the waiting of the protocol, the blocking in the resource's semaphore,
  and, for the distributed protocol, the jump of the thread to the CPU of the resource. The sizes of the objects are
  parameters of the functions that allocate them.
\<close>

definition ACORAL_MPCP_GLOBAL :: u8 where "ACORAL_MPCP_GLOBAL = 1"
definition ACORAL_MPCP_LOCAL :: u8 where "ACORAL_MPCP_LOCAL = 0"
definition ACORAL_DPCP_GLOBAL :: u8 where "ACORAL_DPCP_GLOBAL = 1"
definition ACORAL_DPCP_LOCAL :: u8 where "ACORAL_DPCP_LOCAL = 0"
definition UNBIND_CPU :: u32 where "UNBIND_CPU = 0xff"

definition upd_mpcp :: "ptr \<Rightarrow> (mpcp \<Rightarrow> mpcp) \<Rightarrow> kstate \<Rightarrow> kstate" where
  "upd_mpcp p f s = s\<lparr>mpcps := (mpcps s)(p := f (mpcps s p))\<rparr>"

definition upd_dpcp :: "ptr \<Rightarrow> (dpcp \<Rightarrow> dpcp) \<Rightarrow> kstate \<Rightarrow> kstate" where
  "upd_dpcp p f s = s\<lparr>dpcps := (dpcps s)(p := f (dpcps s p))\<rparr>"

definition set_preempt :: "ptr \<Rightarrow> u8 \<Rightarrow> u8 \<Rightarrow> kstate \<Rightarrow> kstate" where
  "set_preempt cur old new s = (if preempt_type (threads s cur) = old then upd_thr cur (preempt_type_update (\<lambda>_. new)) s else s)"

section \<open>Multiprocessor priority ceiling\<close>

definition set_mpcp_prio :: "u32 \<Rightarrow> u8 \<Rightarrow> kstate \<Rightarrow> kstate" where
  "set_mpcp_prio c pr s = s\<lparr>mpcp_prio := (mpcp_prio s)(c := pr)\<rparr>"

definition acoral_mpcp_system_init :: "kstate \<Rightarrow> kstate" where
  "acoral_mpcp_system_init s =
     fold (\<lambda>i s. let s = set_mpcp_prio i (of_nat ACORAL_MAX_PRIO_NUM) s in
         s\<lparr>heap := acoral_prio_queue_init (MpcpWait i) (acoral_lifo_queue_v_init (MpcpStack i) (int ACORAL_MAX_PRIO_NUM) (heap s))\<rparr>)
       (map of_nat [0..<CFG_MAX_CPU]) s"

definition mpcp_lock :: "ptr \<Rightarrow> kop" where
  "mpcp_lock p s = (if m_lock (mpcps s p) then None else Some (upd_mpcp p (m_lock_update (\<lambda>_. True)) s))"

definition mpcp_unlock :: "ptr \<Rightarrow> kstate \<Rightarrow> kstate" where
  "mpcp_unlock p = upd_mpcp p (m_lock_update (\<lambda>_. False))"

text \<open>A failed allocation is not noticed: the object is then at address 0.\<close>

definition acoral_mpcp_create :: "u32 \<Rightarrow> u8 \<Rightarrow> u8 \<Rightarrow> ptr kret" where
  "acoral_mpcp_create mpcp_size ty prio_ceiling s =
     do {
       (p, s) \<leftarrow> buddy_malloc mpcp_size s;
       let s = upd_mpcp p (m_type_update (\<lambda>_. ty)) s;
       if ty \<noteq> ACORAL_MPCP_GLOBAL \<and> ty \<noteq> ACORAL_MPCP_LOCAL then Some (NULL, s)
       else do {
         let s = upd_mpcp p (\<lambda>m. m\<lparr>m_cpu := (if ty = ACORAL_MPCP_GLOBAL then 0xff else current_cpu s),
                                  m_prio_ceiling := prio_ceiling, m_prio_switch := 0\<rparr>) s;
         let s = s\<lparr>heap := acoral_vlist_init (MStacking p) (uint prio_ceiling) (heap s)\<rparr>;
         (sem, s) \<leftarrow> acoral_sem_create 1 (mpcp_unlock p s);
         Some (p, upd_mpcp p (m_sem_update (\<lambda>_. sem)) s)
       }
     }"

definition acoral_mpcp_del :: "ptr \<Rightarrow> kernel_error kret" where
  "acoral_mpcp_del p s =
     do {
       (r, s) \<leftarrow> acoral_sem_del (m_sem (mpcps s p)) s;
       s \<leftarrow> buddy_free p s;
       Some (r, s)
     }"

text \<open>What a call of \<open>acoral_mpcp_pend\<close> comes to: a result, waiting for the system priority of the CPU to drop
  (\<open>MWaits\<close>), or blocking in the semaphore (\<open>MBlocked\<close>), with the lock of a global resource held.\<close>

datatype mpcp_result = MDone kernel_error | MWaits | MBlocked

definition mpcp_leave :: "ptr \<Rightarrow> kstate \<Rightarrow> kstate" where
  "mpcp_leave p s = (if m_type (mpcps s p) = ACORAL_MPCP_GLOBAL then mpcp_unlock p s else s)"

definition mpcp_sem_part :: "ptr \<Rightarrow> ptr \<Rightarrow> mpcp_result kret" where
  "mpcp_sem_part p cur s =
     do {
       let sem = m_sem (mpcps s p);
       let s = (if i_data (ipcs s sem) = NULL then upd_ipc sem (i_data_update (\<lambda>_. cur)) s else s);
       (r, s) \<leftarrow> acoral_sem_pend sem s;
       case r of Blocked \<Rightarrow> Some (MBlocked, s) | Done e \<Rightarrow> Some (MDone e, mpcp_leave p s)
     }"

text \<open>The second test of the local case, and what follows.\<close>

definition acoral_mpcp_pend_woken :: "ptr \<Rightarrow> ptr \<Rightarrow> u32 \<Rightarrow> mpcp_result kret" where
  "acoral_mpcp_pend_woken p cur c s =
     do {
       s \<leftarrow> (if t_prio (threads s cur) < mpcp_prio s c then
               do {
                 let s = set_mpcp_prio c (m_prio_ceiling (mpcps s p)) s;
                 s \<leftarrow> on_heap (acoral_lifo_queue_add (MpcpStack c) (MStacking p)) s;
                 Some (upd_mpcp p (m_prio_switch_update (\<lambda>_. t_prio (threads s cur))) s)
               }
             else Some s);
       mpcp_sem_part p cur s
     }"

definition acoral_mpcp_pend :: "ptr \<Rightarrow> mpcp_result kret" where
  "acoral_mpcp_pend p s =
     (let cur = cur_thread s; c = current_cpu s; prio = t_prio (threads s cur) in
      if m_type (mpcps s p) = ACORAL_MPCP_LOCAL then
        if m_cpu (mpcps s p) \<noteq> c then Some (MDone KR_IPC_ERR_CPU, s)
        else if prio \<ge> mpcp_prio s c then
          do {
            last \<leftarrow> mstacking_entry (lnext (heap s) (MpcpStack c));
            s \<leftarrow> acoral_thread_change_prio (i_data (ipcs s (m_sem (mpcps s last)))) (ucast prio) s;
            s \<leftarrow> on_heap (acoral_prio_queue_add (MpcpWait c) (Pending cur)) s;
            (_, s) \<leftarrow> acoral_suspend_self s;
            Some (MWaits, s)
          }
        else acoral_mpcp_pend_woken p cur c s
      else if m_type (mpcps s p) = ACORAL_MPCP_GLOBAL then
        do {
          s \<leftarrow> mpcp_lock p s;
          let s = set_preempt cur PREEMPT_LOCAL PREEMPT_GLOBAL s;
          s \<leftarrow> (if i_data (ipcs s (m_sem (mpcps s p))) = NULL then
                  acoral_thread_change_prio cur (ucast (m_prio_ceiling (mpcps s p)))
                    (upd_mpcp p (m_prio_switch_update (\<lambda>_. t_prio (threads s cur))) s)
                else Some s);
          mpcp_sem_part p cur s
        }
      else mpcp_sem_part p cur s)"

definition acoral_mpcp_pend_resume :: "ptr \<Rightarrow> ptr \<Rightarrow> kernel_error kret" where
  "acoral_mpcp_pend_resume p cur s =
     do {
       (r, s) \<leftarrow> acoral_sem_pend_resume (m_sem (mpcps s p)) cur s;
       Some (r, mpcp_leave p s)
     }"

text \<open>The system priority falls back to the value of the new top of the stack (of its head when it is empty). The waiting
  thread is readied but stays in the queue.\<close>

definition acoral_mpcp_post :: "ptr \<Rightarrow> kernel_error kret" where
  "acoral_mpcp_post p s =
     (let cur = cur_thread s; c = current_cpu s; sem = m_sem (mpcps s p); owner = i_data (ipcs s sem) in
      if owner \<noteq> cur then Some (KR_IPC_ERR_THREAD, s)
      else do {
        s \<leftarrow> (if m_type (mpcps s p) = ACORAL_MPCP_LOCAL then
                do {
                  s \<leftarrow> on_heap (acoral_lifo_queue_del (MpcpStack c) (MStacking p)) s;
                  let s = set_mpcp_prio c (word_of_int (lvalue (heap s) (lnext (heap s) (MpcpStack c)))) s;
                  if \<not> acoral_list_empty (MpcpWait c) (heap s) then
                    do {
                      thread \<leftarrow> pending_entry (lnext (heap s) (MpcpWait c));
                      (_, s) \<leftarrow> acoral_rdy_thread thread s;
                      Some s
                    }
                  else Some s
                }
              else if m_type (mpcps s p) = ACORAL_MPCP_GLOBAL then
                do { s \<leftarrow> mpcp_lock p s; Some (set_preempt cur PREEMPT_GLOBAL PREEMPT_LOCAL s) }
              else Some s);
        s \<leftarrow> (if owner \<noteq> NULL then
                do {
                  let sw = m_prio_switch (mpcps s p);
                  s \<leftarrow> (if t_prio (threads s owner) \<noteq> sw then acoral_thread_change_prio owner (ucast sw) s else Some s);
                  Some (upd_ipc sem (i_data_update (\<lambda>_. NULL)) (upd_mpcp p (m_prio_switch_update (\<lambda>_. 0)) s))
                }
              else Some s);
        (r, s) \<leftarrow> acoral_sem_post sem s;
        Some (r, mpcp_leave p s)
      })"

section \<open>Distributed priority ceiling\<close>

definition PRIO_SWITCH_FLAG_MASK :: u32 where "PRIO_SWITCH_FLAG_MASK = 0x8000"
definition PRIO_SWITCH_MASK :: u32 where "PRIO_SWITCH_MASK = 0x7fff"

definition set_dpcp_prio :: "u8 \<Rightarrow> u32 \<Rightarrow> u8 \<Rightarrow> kstate \<Rightarrow> kstate" where
  "set_dpcp_prio ty c pr s = s\<lparr>dpcp_prio := (dpcp_prio s)(ty := (dpcp_prio s ty)(c := pr))\<rparr>"

text \<open>Is \<open>[ty][c]\<close> inside the arrays of the systems? Elsewhere the code would access memory outside: \<open>None\<close>.\<close>

definition dpcp_index :: "u8 \<Rightarrow> u32 \<Rightarrow> bool" where
  "dpcp_index ty c \<longleftrightarrow> ty < 2 \<and> unat c < CFG_MAX_CPU"

definition acoral_dpcp_system_init :: "kstate \<Rightarrow> kstate" where
  "acoral_dpcp_system_init s =
     fold (\<lambda>i s. let s = set_dpcp_prio 1 i (of_nat ACORAL_MAX_PRIO_NUM) (set_dpcp_prio 0 i (of_nat ACORAL_MAX_PRIO_NUM) s);
           sys = (\<lambda>ty h. acoral_prio_queue_init (DpcpWait ty i) (acoral_lifo_queue_v_init (DpcpStack ty i) (int ACORAL_MAX_PRIO_NUM) h)) in
         s\<lparr>heap := acoral_lifo_queue_init (DpcpQ ACORAL_DPCP_GLOBAL i) (acoral_lifo_queue_init (DpcpQ ACORAL_DPCP_LOCAL i)
                (sys ACORAL_DPCP_GLOBAL (sys ACORAL_DPCP_LOCAL (heap s))))\<rparr>)
       (map of_nat [0..<CFG_MAX_CPU]) s"

definition top_prio :: "u8 \<Rightarrow> u32 \<Rightarrow> kstate \<Rightarrow> u8" where
  "top_prio ty c s = word_of_int (lvalue (heap s) (lnext (heap s) (DpcpStack ty c)))"

definition acoral_dpcp_set :: "ptr \<Rightarrow> u8 \<Rightarrow> u8 \<Rightarrow> kop" where
  "acoral_dpcp_set p ty prio_ceiling s =
     (let old = d_type (dpcps s p); c = d_cpu (dpcps s p) in
      if \<not> dpcp_index old c then None
      else do {
        s \<leftarrow> (if lnext (heap s) (DpcpStack old c) = DStacking p then
                if old \<noteq> ty then
                  if \<not> dpcp_index ty c then None
                  else do {
                    s \<leftarrow> on_heap (acoral_lifo_queue_del (DpcpStack old c) (DStacking p)) s;
                    let s = set_dpcp_prio ty c prio_ceiling (set_dpcp_prio old c (top_prio old c s) s);
                    s \<leftarrow> on_heap (acoral_lifo_queue_add (DpcpStack ty c) (DStacking p)) s;
                    s \<leftarrow> on_heap (acoral_lifo_queue_del (DpcpQ old c) (DList p)) s;
                    on_heap (acoral_lifo_queue_add (DpcpQ ty c) (DList p)) s
                  }
                else Some (set_dpcp_prio old c prio_ceiling s)
              else Some s);
        let s = upd_dpcp p (\<lambda>d. d\<lparr>d_type := ty, d_prio_ceiling := prio_ceiling\<rparr>) s;
        Some (s\<lparr>heap := set_value (DStacking p) (uint prio_ceiling) (heap s)\<rparr>)
      })"

text \<open>The field \<^verbatim>\<open>data\<close> is not initialised.\<close>

definition acoral_dpcp_create :: "u32 \<Rightarrow> ptr kret" where
  "acoral_dpcp_create dpcp_size s =
     do {
       (p, s) \<leftarrow> buddy_malloc dpcp_size s;
       let s = upd_dpcp p (\<lambda>d. d\<lparr>d_type := ACORAL_DPCP_LOCAL, d_cpu := UNBIND_CPU, d_prio_ceiling := of_nat ACORAL_MAX_PRIO_NUM,
                                 d_prio_switch := 0\<rparr>) s;
       let s = s\<lparr>heap := acoral_list_init (DList p) (acoral_vlist_init (DStacking p) (int ACORAL_MAX_PRIO_NUM) (heap s))\<rparr>;
       (sem, s) \<leftarrow> acoral_sem_create 1 s;
       Some (p, upd_dpcp p (d_sem_update (\<lambda>_. sem)) s)
     }"

definition dpcp_del_end :: "ptr \<Rightarrow> kernel_error \<Rightarrow> kernel_error call kret" where
  "dpcp_del_end p r s = do { s \<leftarrow> buddy_free p s; Some (Return r, s) }"

definition acoral_dpcp_del :: "ptr \<Rightarrow> ptr \<Rightarrow> kernel_error call kret" where
  "acoral_dpcp_del vm p s =
     do {
       (r, s) \<leftarrow> acoral_sem_del (d_sem (dpcps s p)) s;
       s \<leftarrow> (if \<not> acoral_list_empty (DStacking p) (heap s) then
               if dpcp_index (d_type (dpcps s p)) (d_cpu (dpcps s p))
               then on_heap (acoral_lifo_queue_del (DpcpStack (d_type (dpcps s p)) (d_cpu (dpcps s p))) (DStacking p)) s else None
             else Some s);
       if d_data (dpcps s p) \<noteq> NULL then
         do {
           (c, s) \<leftarrow> vol_free vm (d_data (dpcps s p)) s;
           if c = Waiting then Some (Waiting, s) else dpcp_del_end p r (upd_dpcp p (d_data_update (\<lambda>_. NULL)) s)
         }
       else dpcp_del_end p r s
     }"

definition acoral_dpcp_del_resume :: "ptr \<Rightarrow> ptr \<Rightarrow> ptr \<Rightarrow> kernel_error \<Rightarrow> kernel_error call kret" where
  "acoral_dpcp_del_resume vm p cur r s =
     do {
       (_, s) \<leftarrow> vol_free_resume vm cur (d_data (dpcps s p)) s;
       dpcp_del_end p r (upd_dpcp p (d_data_update (\<lambda>_. NULL)) s)
     }"

text \<open>Calls inside a critical section do not switch: a blocking call goes on at once.\<close>

definition sem_pend_nested :: "ptr \<Rightarrow> ptr \<Rightarrow> kernel_error kret" where
  "sem_pend_nested sem cur s =
     do {
       (r, s) \<leftarrow> acoral_sem_pend sem s;
       case r of Blocked \<Rightarrow> acoral_sem_pend_resume sem cur s | Done e \<Rightarrow> Some (e, s)
     }"

definition vol_malloc_nested :: "ptr \<Rightarrow> ptr \<Rightarrow> u32 \<Rightarrow> ptr kret" where
  "vol_malloc_nested vm cur sz s =
     do {
       (r, s) \<leftarrow> vol_malloc vm sz s;
       case r of
         Return a \<Rightarrow> Some (a, s)
       | Waiting \<Rightarrow> do { (r, s) \<leftarrow> vol_malloc_resume vm cur sz s; case r of Return a \<Rightarrow> Some (a, s) | Waiting \<Rightarrow> None }
     }"

definition vol_free_nested :: "ptr \<Rightarrow> ptr \<Rightarrow> ptr \<Rightarrow> kop" where
  "vol_free_nested vm cur p s =
     do {
       (r, s) \<leftarrow> vol_free vm p s;
       case r of Return _ \<Rightarrow> Some s | Waiting \<Rightarrow> map_option snd (vol_free_resume vm cur p s)
     }"

text \<open>What a call comes to: a result; waiting for the system priority (\<open>DWaits\<close>); or the thread jumps to another CPU, before
  the call goes on (\<open>DMigrates\<close>) or at its end (\<open>DLeaves\<close>).\<close>

datatype dpcp_result = DDone kernel_error | DWaits | DMigrates | DLeaves kernel_error

definition dpcp_sem_part :: "ptr \<Rightarrow> ptr \<Rightarrow> dpcp_result kret" where
  "dpcp_sem_part p cur s =
     do {
       let sem = d_sem (dpcps s p);
       let s = (if i_data (ipcs s sem) = NULL then upd_ipc sem (i_data_update (\<lambda>_. cur)) s else s);
       (r, s) \<leftarrow> sem_pend_nested sem cur s;
       s \<leftarrow> acoral_exit_critical s;
       Some (DDone r, s)
     }"

definition dpcp_wait :: "u8 \<Rightarrow> u32 \<Rightarrow> ptr \<Rightarrow> dpcp_result kret" where
  "dpcp_wait ty c cur s =
     do {
       s \<leftarrow> on_heap (acoral_prio_queue_add (DpcpWait ty c) (Pending cur)) s;
       s \<leftarrow> acoral_exit_critical s;
       (_, s) \<leftarrow> acoral_suspend_self s;
       Some (DWaits, s)
     }"

definition dpcp_claim :: "u8 \<Rightarrow> u32 \<Rightarrow> ptr \<Rightarrow> kop" where
  "dpcp_claim ty c p s =
     on_heap (acoral_lifo_queue_add (DpcpStack ty c) (DStacking p)) (set_dpcp_prio ty c (d_prio_ceiling (dpcps s p)) s)"

text \<open>One round of the loop of the local case; a woken thread enters the critical section and tries again.\<close>

definition dpcp_local_try :: "ptr \<Rightarrow> ptr \<Rightarrow> u32 \<Rightarrow> dpcp_result kret" where
  "dpcp_local_try p cur c s =
     (let prio = t_prio (threads s cur) in
      if prio \<ge> dpcp_prio s ACORAL_DPCP_LOCAL c then
        do {
          last \<leftarrow> dstacking_entry (lnext (heap s) (DpcpStack ACORAL_DPCP_LOCAL c));
          s \<leftarrow> acoral_thread_change_prio (i_data (ipcs s (d_sem (dpcps s last)))) (ucast prio) s;
          dpcp_wait ACORAL_DPCP_LOCAL c cur s
        }
      else do {
        s \<leftarrow> dpcp_claim ACORAL_DPCP_LOCAL c p s;
        dpcp_sem_part p cur (upd_dpcp p (d_prio_switch_update (\<lambda>_. ucast (push_bit 31 1 OR ucast prio :: u32))) s)
      })"

definition acoral_dpcp_pend_local_woken :: "ptr \<Rightarrow> ptr \<Rightarrow> u32 \<Rightarrow> dpcp_result kret" where
  "acoral_dpcp_pend_local_woken p cur c s = dpcp_local_try p cur c (acoral_enter_critical s)"

definition dpcp_global_try :: "ptr \<Rightarrow> ptr \<Rightarrow> dpcp_result kret" where
  "dpcp_global_try p cur s =
     (let c = d_cpu (dpcps s p) in
      if \<not> dpcp_index ACORAL_DPCP_GLOBAL c then None
      else if t_prio (threads s cur) \<ge> dpcp_prio s ACORAL_DPCP_GLOBAL c then dpcp_wait ACORAL_DPCP_GLOBAL c cur s
      else do { s \<leftarrow> dpcp_claim ACORAL_DPCP_GLOBAL c p s; dpcp_sem_part p cur s })"

definition acoral_dpcp_pend_global_woken :: "ptr \<Rightarrow> ptr \<Rightarrow> dpcp_result kret" where
  "acoral_dpcp_pend_global_woken p cur s = dpcp_global_try p cur (acoral_enter_critical s)"

definition acoral_dpcp_pend_migrated :: "ptr \<Rightarrow> ptr \<Rightarrow> dpcp_result kret" where
  "acoral_dpcp_pend_migrated p cur s =
     dpcp_global_try p cur (set_preempt cur PREEMPT_LOCAL PREEMPT_GLOBAL (acoral_enter_critical s))"

text \<open>The error return stays in the critical section.\<close>

definition acoral_dpcp_pend :: "ptr \<Rightarrow> ptr \<Rightarrow> dpcp_result kret" where
  "acoral_dpcp_pend vm p s =
     (let cur = cur_thread s; c = current_cpu s; s = acoral_enter_critical s in
      if d_type (dpcps s p) = ACORAL_DPCP_LOCAL then
        if d_cpu (dpcps s p) \<noteq> c then Some (DDone KR_IPC_ERR_CPU, s) else dpcp_local_try p cur c s
      else if d_type (dpcps s p) = ACORAL_DPCP_GLOBAL then
        if t_cpu (threads s cur) \<noteq> d_cpu (dpcps s p) then
          do {
            (a, s) \<leftarrow> vol_malloc_nested vm cur 4 s;
            let s = s\<lparr>vol := set_word a (t_cpu (threads s cur)) (vol s)\<rparr>;
            s \<leftarrow> acoral_exit_critical (upd_thr cur (t_data_update (\<lambda>_. a)) s);
            (_, s) \<leftarrow> acoral_jump_cpu (d_cpu (dpcps s p)) s;
            Some (DMigrates, s)
          }
        else dpcp_global_try p cur (set_preempt cur PREEMPT_LOCAL PREEMPT_GLOBAL s)
      else dpcp_sem_part p cur s)"

definition dpcp_unstack :: "u8 \<Rightarrow> u32 \<Rightarrow> ptr \<Rightarrow> kop" where
  "dpcp_unstack ty c p s =
     do {
       s \<leftarrow> on_heap (acoral_lifo_queue_del (DpcpStack ty c) (DStacking p)) s;
       let s = set_dpcp_prio ty c (top_prio ty c s) s;
       if \<not> acoral_list_empty (DpcpWait ty c) (heap s) then
         do {
           thread \<leftarrow> pending_entry (lnext (heap s) (DpcpWait ty c));
           s \<leftarrow> on_heap (acoral_prio_queue_del (DpcpWait ty c) (Pending thread)) s;
           (_, s) \<leftarrow> acoral_rdy_thread thread s;
           Some s
         }
       else Some s
     }"

text \<open>The priority switch is an 8-bit field, so its flag is never set.\<close>

definition dpcp_restore :: "ptr \<Rightarrow> ptr \<Rightarrow> kop" where
  "dpcp_restore p owner s =
     (let sw = ucast (d_prio_switch (dpcps s p)) :: u32 in
      do {
        s \<leftarrow> (if sw AND PRIO_SWITCH_FLAG_MASK \<noteq> 0 then
                do {
                  s \<leftarrow> (if ucast (t_prio (threads s owner)) \<noteq> sw AND PRIO_SWITCH_MASK then acoral_thread_change_prio owner sw s else Some s);
                  Some (upd_dpcp p (d_prio_switch_update (\<lambda>_. 0)) s)
                }
              else Some s);
        Some (upd_ipc (d_sem (dpcps s p)) (i_data_update (\<lambda>_. NULL)) s)
      })"

definition acoral_dpcp_post :: "ptr \<Rightarrow> ptr \<Rightarrow> dpcp_result kret" where
  "acoral_dpcp_post vm p s =
     (let cur = cur_thread s; c = current_cpu s; owner = i_data (ipcs s (d_sem (dpcps s p))); origin = t_data (threads s cur);
          s = acoral_enter_critical s; ty = d_type (dpcps s p); dc = d_cpu (dpcps s p) in
      if owner \<noteq> cur then Some (DDone KR_IPC_ERR_THREAD, s)
      else if ty = ACORAL_DPCP_LOCAL \<and> dc \<noteq> c then Some (DDone KR_IPC_ERR_CPU, s)
      else if ty = ACORAL_DPCP_GLOBAL \<and> \<not> dpcp_index ty dc then None
      else do {
        s \<leftarrow> (if ty = ACORAL_DPCP_LOCAL then dpcp_unstack ty c p s
              else if ty = ACORAL_DPCP_GLOBAL then dpcp_unstack ty dc p (set_preempt cur PREEMPT_GLOBAL PREEMPT_LOCAL s)
              else Some s);
        s \<leftarrow> (if owner \<noteq> NULL then dpcp_restore p owner s else Some s);
        (r, s) \<leftarrow> acoral_sem_post (d_sem (dpcps s p)) s;
        if ty = ACORAL_DPCP_GLOBAL \<and> origin \<noteq> NULL \<and> words (vol s) origin \<noteq> c then
          do {
            let origin_cpu = words (vol s) origin;
            s \<leftarrow> vol_free_nested vm cur (t_data (threads s cur)) s;
            s \<leftarrow> acoral_exit_critical (upd_thr cur (t_data_update (\<lambda>_. NULL)) s);
            (_, s) \<leftarrow> acoral_jump_cpu origin_cpu s;
            Some (DLeaves r, s)
          }
        else do { s \<leftarrow> acoral_exit_critical s; Some (DDone r, s) }
      })"

definition acoral_dpcp_post_end :: "kernel_error \<Rightarrow> kernel_error kret" where
  "acoral_dpcp_post_end r s = do { s \<leftarrow> acoral_exit_critical (acoral_enter_critical s); Some (r, s) }"

end
