(* ===== verification/Pcp_Props.thy ===== *)
theory Pcp_Props
  imports Pcp Volmem_Props
begin

text \<open>Properties of the ceiling protocols: the lock of a global resource, and the ceilings of local resources.\<close>

section \<open>Calls that leave the protocol objects alone\<close>

lemma select_mpcps: "acoral_select_thread s = Some s' \<Longrightarrow> mpcps s' = mpcps s"
  by (auto simp: acoral_select_thread_def bind_Some_iff Let_def split: if_splits)

lemma mpcps_simps [simp]:
  "mpcps (acoral_set_running_thread t s) = mpcps s" "mpcps (upd_ipc i f s) = mpcps s" "mpcps (upd_thr p g s) = mpcps s"
  "mpcps (acoral_enter_critical s) = mpcps s" "mpcps (acoral_set_need_sched b s) = mpcps s" "mpcps (set_preempt p o1 o2 s) = mpcps s"
  "ipcs (set_preempt p o1 o2 s) = ipcs s" "ipcs (upd_mpcp q h s) = ipcs s" "cur_thread (upd_mpcp q h s) = cur_thread s"
  by (simp_all add: acoral_set_running_thread_def upd_ipc_def upd_thr_def acoral_enter_critical_def hal_intr_disable_save_def
      acoral_set_need_sched_def set_preempt_def upd_mpcp_def cur_thread_def Let_def)

lemma switch_mpcps: "acoral_switch_context s = Some s' \<Longrightarrow> mpcps s' = mpcps s"
  by (auto simp: acoral_switch_context_def bind_Some_iff Let_def move_lock_free_def dest!: select_mpcps split: if_splits)

lemma exit_critical_mpcps: "acoral_exit_critical s = Some s' \<Longrightarrow> mpcps s' = mpcps s"
  by (auto simp: acoral_exit_critical_def acoral_sched_unlock_def acoral_sched_def hal_intr_restore_def Let_def
      dest!: switch_mpcps split: if_splits)

lemma on_heap_mpcps: "on_heap f s = Some s' \<Longrightarrow> mpcps s' = mpcps s"
  by (auto simp: on_heap_Some)

lemma prio_queue_mpcps:
  "acoral_thread_prio_queue_add c pr n s = Some s' \<Longrightarrow> mpcps s' = mpcps s"
  "acoral_thread_prio_queue_del c pr n s = Some s' \<Longrightarrow> mpcps s' = mpcps s"
  unfolding acoral_thread_prio_queue_add_def acoral_thread_prio_queue_del_def on_heap_def Let_def
  by (clarsimp simp only: bind_Some_iff option.inject split: if_splits option.splits; force)+

lemma rdyqueue_mpcps:
  "acoral_sched_rdyqueue_add p s = Some s' \<Longrightarrow> mpcps s' = mpcps s"
  "acoral_sched_rdyqueue_del p s = Some s' \<Longrightarrow> mpcps s' = mpcps s"
  by (auto simp: acoral_sched_rdyqueue_add_def acoral_sched_rdyqueue_del_def bind_Some_iff set_res_cpu_def Let_def
      dest!: prio_queue_mpcps)

lemma ipi_mpcps: "acoral_ipi_cmd_send c k t d s = Some s' \<Longrightarrow> mpcps s' = mpcps s"
  by (auto simp: acoral_ipi_cmd_send_def acoral_ipi_send_def Let_def split: if_splits)

lemma suspend_mpcps: "acoral_suspend_self s = Some (r, s') \<Longrightarrow> mpcps s' = mpcps s"
  by (auto simp: acoral_suspend_self_def acoral_suspend_thread_def bind_Some_iff
      dest!: exit_critical_mpcps rdyqueue_mpcps ipi_mpcps split: if_splits)

lemma change_prio_mpcps: "acoral_thread_change_prio p v s = Some s' \<Longrightarrow> mpcps s' = mpcps s"
  by (auto simp: acoral_thread_change_prio_def bind_Some_iff Let_def
      dest!: exit_critical_mpcps rdyqueue_mpcps ipi_mpcps split: if_splits)

lemma ipc_calls_mpcps:
  "ipc_begin i s = Some s' \<Longrightarrow> mpcps s' = mpcps s" "ipc_end i s = Some s' \<Longrightarrow> mpcps s' = mpcps s"
  "acoral_ipc_wait_queue_add i p s = Some s' \<Longrightarrow> mpcps s' = mpcps s"
  by (auto simp: ipc_begin_def ipc_lock_def ipc_end_def ipc_unlock_def acoral_ipc_wait_queue_add_def
      dest!: exit_critical_mpcps on_heap_mpcps split: if_splits)

lemma sem_pend_mpcps: "acoral_sem_pend i s = Some (r, s') \<Longrightarrow> mpcps s' = mpcps s"
  by (auto simp: acoral_sem_pend_def sem_block_def bind_Some_iff ipc_return_ipcs count_add_def Let_def
      dest!: ipc_calls_mpcps suspend_mpcps split: option.splits if_splits)

lemma sem_part_mpcps: "mpcp_sem_part p cur s = Some (MBlocked, s') \<Longrightarrow> mpcps s' = mpcps s"
proof -
  let ?s = "if i_data (ipcs s (m_sem (mpcps s p))) = NULL then upd_ipc (m_sem (mpcps s p)) (i_data_update (\<lambda>_. cur)) s else s"
  assume b: "mpcp_sem_part p cur s = Some (MBlocked, s')"
  then obtain r where "acoral_sem_pend (m_sem (mpcps s p)) ?s = Some (r, s')"
    by (auto simp: mpcp_sem_part_def bind_Some_iff Let_def split: pend_result.splits) (metis pend_result.exhaust)
  from sem_pend_mpcps [OF this] show ?thesis by simp
qed

section \<open>Global resources\<close>

text \<open>C35. A thread that blocks in \<open>acoral_mpcp_pend\<close> on a global resource keeps the spin lock of the resource while it waits; the
  owner's \<open>acoral_mpcp_post\<close>, the only call that could wake it, then spins on that lock for ever (as does every other pend),
  whatever else happened in between.\<close>

theorem mpcp_global_contention_deadlocks:
  assumes "acoral_mpcp_pend p s = Some (MBlocked, s1)" "m_type (mpcps s p) = ACORAL_MPCP_GLOBAL"
    and later: "mpcps s2 p = mpcps s1 p" "i_data (ipcs s2 (m_sem (mpcps s1 p))) = cur_thread s2"
  shows "acoral_mpcp_post p s2 = None \<and> acoral_mpcp_pend p s2 = None"
proof -
  have ty: "\<not> m_type (mpcps s p) = ACORAL_MPCP_LOCAL" "m_type (mpcps s p) = ACORAL_MPCP_GLOBAL"
    using assms(2) by (simp_all add: ACORAL_MPCP_GLOBAL_def ACORAL_MPCP_LOCAL_def)
  have lock: "m_lock (mpcps s1 p) \<and> m_type (mpcps s1 p) = ACORAL_MPCP_GLOBAL"
    using assms(1) ty
    by (auto simp: acoral_mpcp_pend_def mpcp_lock_def bind_Some_iff Let_def
        dest!: change_prio_mpcps sem_part_mpcps split: if_splits) (simp_all add: upd_mpcp_def)
  then have "mpcp_lock p s2 = None" "m_type (mpcps s2 p) = ACORAL_MPCP_GLOBAL" using later(1) by (simp_all add: mpcp_lock_def)
  then show ?thesis
    using later by (simp add: acoral_mpcp_post_def acoral_mpcp_pend_def ACORAL_MPCP_GLOBAL_def ACORAL_MPCP_LOCAL_def Let_def)
qed

text \<open>A global resource held by the thread at \<open>0x180\<close>, on which the running thread pends.\<close>

definition ex_mpcp :: kstate where
  "ex_mpcp = upd_mpcp 0x400 (\<lambda>m. m\<lparr>m_sem := 0x340, m_type := ACORAL_MPCP_GLOBAL\<rparr>) (upd_ipc 0x340 (i_data_update (\<lambda>_. 0x180)) ex_kernel)"

theorem mpcp_global_contention_deadlocks_witness:
  "\<exists>s1. acoral_mpcp_pend 0x400 ex_mpcp = Some (MBlocked, s1) \<and> acoral_mpcp_post 0x400 s1 = None"
proof -
  let ?s = "set_preempt 0x100 PREEMPT_LOCAL PREEMPT_GLOBAL (upd_mpcp 0x400 (m_lock_update (\<lambda>_. True)) ex_mpcp)"
  let ?e = "count_add 0x340 1 (upd_ipc 0x340 (i_lock_update (\<lambda>_. True)) (acoral_enter_critical ?s))"
  have base: "rdy_bitmap ?s = rdy_bitmap ex_kernel" "rdy_num ?s = rdy_num ex_kernel" "heap ?s = ex_heap"
    "\<And>p. t_cpu (threads ?s p) = t_cpu (ex_threads p) \<and> t_prio (threads ?s p) = t_prio (ex_threads p) \<and> t_state (threads ?s p) = t_state (ex_threads p)"
    "current_cpu ?s = 0" "cur_thread ?s = 0x100" "critical_nesting ?s = (\<lambda>_. 0)" "hal_get_intr_nesting ?s = 0" "sched_enable ?s"
    "ipcs ?s = (ipcs ex_kernel)(0x340 := (ipcs ex_kernel 0x340)\<lparr>i_data := 0x180\<rparr>)" "m_sem (mpcps ?s 0x400) = 0x340"
    "m_type (mpcps ?s 0x400) = ACORAL_MPCP_GLOBAL"
    by (simp_all add: set_preempt_def ex_mpcp_def upd_mpcp_def upd_ipc_def upd_thr_def cur_thread_def hal_get_intr_nesting_def)
  have inv: "rdy_inv ex_live ?s ex_R" using ex_inv by (subst rdy_inv_cong [of _ ex_kernel]) (simp_all add: base)
  have "ready_on ?s ex_live 0 = {0x100, 0x180}" using ex_ready_on by (simp add: ready_on_def base)
  then have ro: "ready_on ?s ex_live (current_cpu ?s) = {0x100, 0x180}" by (simp add: base)
  have cs: "can_sched ?s" by (simp add: can_sched_def base CFG_MAX_CPU_def)
  have mb: "may_block ex_live ?s ex_R"
    using ro cs ex_free_pending by (simp add: may_block_def base) (simp add: ex_live_def ex_threads_def thread0_def)
  have lk: "\<not> i_lock (ipcs ?s 0x340)" unfolding base(10) by simp
  note b = begin_fields [OF cs lk]
  have e: "heap ?e = heap ?s" "threads ?e = threads ?s" "rdy_bitmap ?e = rdy_bitmap ?s" "rdy_num ?e = rdy_num ?s"
    "current_cpu ?e = current_cpu ?s" "running_thread ?e = running_thread ?s" "sched_enable ?e = sched_enable ?s"
    "intr_nesting ?e = intr_nesting ?s" "critical_nesting ?e (current_cpu ?s) = 1" "cur_thread ?s = cur_thread ?s"
    using cs by (simp_all add: count_add_def upd_ipc_def can_sched_def)
  obtain s1 where s1: "sem_block 0x340 (cur_thread ?s) ?e = Some (Blocked, s1)" "ipcs s1 = (ipcs ?e)(0x340 := (ipcs ?e 0x340)\<lparr>i_lock := False\<rparr>)"
      "cur_thread s1 \<in> ready_on ?s ex_live (current_cpu ?s) - {cur_thread ?s}"
    using sem_block_ok [OF inv mb _ e, of "0x340" "[]"] by auto
  have "cur_thread s1 \<in> {0x100, 0x180} - {0x100}" using s1(3) unfolding ro base(6) .
  then have c: "cur_thread s1 = 0x180" by auto
  have d: "i_data (ipcs s1 0x340) = 0x180" unfolding s1(2) count_add_def by (simp add: upd_ipc_def base(10) del: mpcps_simps)
  have ex: "i_type (ipcs ex_mpcp 0x340) = 1" "i_count (ipcs ex_mpcp 0x340) = 1" "hal_get_intr_nesting ex_mpcp = 0"
    by (simp_all add: ex_mpcp_def upd_mpcp_def upd_ipc_def hal_get_intr_nesting_def)
  have "acoral_sem_pend 0x340 ?s = Some (Blocked, s1)"
    using s1(1) b(1,8) base(8) ex
    by (simp add: acoral_sem_pend_def ipc_guard_def sem_avail_def SEM_AVAI_def s8_def ACORAL_IPC_SEM_def base(6) signed_take_bit_int_eq_self)
  moreover have dn: "i_data (ipcs ?s (m_sem (mpcps ?s 0x400))) \<noteq> NULL" unfolding base(10,11) by simp
  ultimately have "mpcp_sem_part 0x400 0x100 ?s = Some (MBlocked, s1)"
    unfolding mpcp_sem_part_def Let_def if_not_P [OF dn] unfolding base(11) by (simp del: mpcps_simps)
  then have p: "acoral_mpcp_pend 0x400 ex_mpcp = Some (MBlocked, s1)"
  proof -
    have f: "cur_thread ex_mpcp = 0x100" "m_type (mpcps ex_mpcp 0x400) = 1" "mpcp_lock 0x400 ex_mpcp = Some (upd_mpcp 0x400 (m_lock_update (\<lambda>_. True)) ex_mpcp)"
      by (simp_all add: ex_mpcp_def cur_thread_def ACORAL_MPCP_GLOBAL_def mpcp_lock_def) (simp_all add: upd_mpcp_def upd_ipc_def ex_kernel_def)
    have g: "i_data (ipcs ?s (m_sem (mpcps ?s 0x400))) \<noteq> NULL" unfolding base(10,11) by simp
    show ?thesis
      using \<open>mpcp_sem_part 0x400 0x100 ?s = Some (MBlocked, s1)\<close> g f
      by (simp add: acoral_mpcp_pend_def ACORAL_MPCP_GLOBAL_def ACORAL_MPCP_LOCAL_def Let_def)
  qed
  have "mpcps s1 = mpcps ?s" by (rule sem_part_mpcps [OF \<open>mpcp_sem_part 0x400 0x100 ?s = Some (MBlocked, s1)\<close>])
  then have "m_sem (mpcps s1 0x400) = 0x340" using base(11) by simp
  then show ?thesis
    using p mpcp_global_contention_deadlocks [OF p, of s1] d c by (simp add: ex_mpcp_def upd_mpcp_def)
qed

end
