(* ===== verification/Policy.thy ===== *)
theory Policy
  imports Volmem
begin

text \<open>
  Scheduling policies: \<^verbatim>\<open>kernel/src/policy.c\<close>, the policies of ordinary and periodic threads
  (\<^verbatim>\<open>comm_thrd.c\<close>, \<^verbatim>\<open>period_thrd.c\<close>; timed threads are in theory \<open>Timed\<close>). A policy object is a \<open>sched_policy\<close> in a table, linked by its list node
  \<open>PolicyL\<close>. The hooks of a thread are functions of the application: the parameter \<open>hook\<close> takes the function pointer and
  the thread. \<open>vm\<close> is the address of the mutex of the variable-size heap; the calls of that heap made here are modelled
  when they find the mutex free, otherwise the operation has no result (\<open>None\<close>).
\<close>

section \<open>Policies\<close>

definition ACORAL_SCHED_POLICY_COMM :: u8 where "ACORAL_SCHED_POLICY_COMM = 21"
definition ACORAL_SCHED_POLICY_PERIOD :: u8 where "ACORAL_SCHED_POLICY_PERIOD = 22"
definition ACORAL_SCHED_POLICY_TIMED :: u8 where "ACORAL_SCHED_POLICY_TIMED = 23"
definition ACORAL_TIMED_PRIO :: u8 where "ACORAL_TIMED_PRIO = 1"

text \<open>The data of the three policies together; a policy reads its own fields.\<close>

record policy_data =
  pd_cpu :: u32
  pd_prio :: u8
  pd_time :: u32
  pd_start_time :: "u32 list"
  pd_section_num :: u8
  pd_frequency :: u8
  pd_section_route :: ptr
  pd_section_args :: ptr

type_synonym thread_start = "ptr \<Rightarrow> ptr \<Rightarrow> ptr \<Rightarrow> policy_data \<Rightarrow> ptr \<Rightarrow> (kernel_error + u32) kret"

record sched_policy =
  pol_type :: u8
  pol_init :: "thread_start option"
  pol_release :: "(ptr \<Rightarrow> kop) option"
  pol_time_deal :: "kop option"

type_synonym policy_table = "nat \<Rightarrow> sched_policy"

text \<open>The policy of a type; \<open>Some None\<close> is \<^verbatim>\<open>NULL\<close>.\<close>

partial_function (option) policy_walk :: "policy_table \<Rightarrow> knode lheap \<Rightarrow> u8 \<Rightarrow> knode \<Rightarrow> nat option option" where
  "policy_walk tab h ty tmp =
     (if tmp = PolicyQ then Some None
      else do {
        i \<leftarrow> policy_entry tmp;
        if pol_type (tab i) = ty then Some (Some i) else policy_walk tab h ty (lnext h tmp)
      })"

definition acoral_get_policy_ctrl :: "policy_table \<Rightarrow> u8 \<Rightarrow> kstate \<Rightarrow> nat option option" where
  "acoral_get_policy_ctrl tab ty s = policy_walk tab (heap s) ty (lnext (heap s) PolicyQ)"

definition release_tcb :: "ptr \<Rightarrow> kop" where
  "release_tcb p s = do { s \<leftarrow> acoral_release_res p (acoral_enter_critical s); acoral_exit_critical s }"

definition acoral_policy_thread_init :: "policy_table \<Rightarrow> u32 \<Rightarrow> thread_start" where
  "acoral_policy_thread_init tab policy_type p route args pd data s =
     do {
       r \<leftarrow> acoral_get_policy_ctrl tab (ucast policy_type) s;
       case (case r of None \<Rightarrow> None | Some i \<Rightarrow> pol_init (tab i)) of
         None \<Rightarrow> do { s \<leftarrow> release_tcb p s; Some (Inl KR_POLICY_ERR_NULL, s) }
       | Some init \<Rightarrow> init p route args pd data s
     }"

definition create_thread_by_policy ::
  "policy_table \<Rightarrow> ptr \<Rightarrow> u32 \<Rightarrow> ptr \<Rightarrow> ptr \<Rightarrow> u32 \<Rightarrow> policy_data \<Rightarrow> ptr \<Rightarrow> (ptr \<times> ptr) option \<Rightarrow> (kernel_error + u32) kret" where
  "create_thread_by_policy tab route sz args stack policy_type pd data hooks s =
     do {
       (p, s) \<leftarrow> acoral_alloc_thread s;
       if p = NULL then Some (Inl KR_POLICY_ERR_THREAD, s)
       else
         let s = upd_thr p (\<lambda>t. t\<lparr>stack_size := sz AND NOT 3, stack_buttom := stack, t_policy := ucast policy_type,
                deal_hook := (case hooks of None \<Rightarrow> NULL | Some h \<Rightarrow> fst h),
                release_hook := (case hooks of None \<Rightarrow> NULL | Some h \<Rightarrow> snd h)\<rparr>) s
         in acoral_policy_thread_init tab policy_type p route args pd data s
     }"

definition acoral_register_sched_policy :: "nat \<Rightarrow> kop" where
  "acoral_register_sched_policy i s = on_heap (acoral_fifo_queue_add PolicyQ (PolicyL i)) s"

partial_function (option) policy_deal_loop :: "policy_table \<Rightarrow> knode \<Rightarrow> kstate \<Rightarrow> kstate option" where
  "policy_deal_loop tab tmp s =
     (if tmp = PolicyQ then Some s
      else do {
        i \<leftarrow> policy_entry tmp;
        s \<leftarrow> (case pol_time_deal (tab i) of None \<Rightarrow> Some s | Some deal \<Rightarrow> deal s);
        policy_deal_loop tab (lnext (heap s) tmp) s
      })"

definition acoral_policy_time_deal :: "policy_table \<Rightarrow> kop" where
  "acoral_policy_time_deal tab s = policy_deal_loop tab (lnext (heap s) PolicyQ) s"

text \<open>Without a policy of the thread's type the code would read through a null pointer: \<open>None\<close>.\<close>

definition acoral_policy_thread_release :: "policy_table \<Rightarrow> ptr \<Rightarrow> kop" where
  "acoral_policy_thread_release tab p s =
     do {
       r \<leftarrow> acoral_get_policy_ctrl tab (t_policy (threads s p)) s;
       i \<leftarrow> r;
       case pol_release (tab i) of None \<Rightarrow> Some s | Some release \<Rightarrow> release p s
     }"

section \<open>Ordinary threads\<close>

definition comm_policy_thread_init :: thread_start where
  "comm_policy_thread_init p route args pd data s =
     do {
       let s = (if t_policy (threads s p) = ACORAL_SCHED_POLICY_COMM
                then upd_thr p (\<lambda>t. t\<lparr>t_cpu := pd_cpu pd, t_prio := pd_prio pd\<rparr>) s else s);
       (err, s) \<leftarrow> acoral_thread_init p route args s;
       if err \<noteq> KR_OK then do { s \<leftarrow> release_tcb p s; Some (Inl err, s) }
       else do {
         (_, s) \<leftarrow> acoral_rdy_thread p (upd_thr p (t_data_update (\<lambda>_. data)) s);
         Some (Inr (res_word s p), s)
       }
     }"

definition comm_policy_init :: kop where
  "comm_policy_init s = acoral_register_sched_policy 0 s"

section \<open>Periodic threads\<close>

definition vol_malloc_now :: "ptr \<Rightarrow> u32 \<Rightarrow> ptr kret" where
  "vol_malloc_now vm sz s = do { (r, s) \<leftarrow> vol_malloc vm sz s; case r of Return a \<Rightarrow> Some (a, s) | Waiting \<Rightarrow> None }"

definition vol_free_now :: "ptr \<Rightarrow> ptr \<Rightarrow> kop" where
  "vol_free_now vm p s = do { (r, s) \<leftarrow> vol_free vm p s; case r of Return _ \<Rightarrow> Some s | Waiting \<Rightarrow> None }"

definition call_hook :: "(ptr \<Rightarrow> ptr \<Rightarrow> kop) \<Rightarrow> ptr \<Rightarrow> ptr \<Rightarrow> kop" where
  "call_hook hook f p s = (if f \<noteq> NULL then hook f p s else Some s)"

definition acoral_period_time_queue_add :: "ptr \<Rightarrow> kop" where
  "acoral_period_time_queue_add p s = on_heap (acoral_tick_queue_add PeriodQ (Timing p)) s"

definition acoral_period_queue_del :: "ptr \<Rightarrow> kop" where
  "acoral_period_queue_del p s = on_heap (acoral_tick_queue_del PeriodQ (Timing p)) s"

definition period_thread_reload :: "ptr \<Rightarrow> kop" where
  "period_thread_reload p s =
     (let time = TIME_TO_TICKS (pp_time (periods s (private_data (threads s p))));
          s = upd_thr p (t_time_update (\<lambda>_. time)) s;
          s = s\<lparr>heap := acoral_vlist_init (Timing p) (uint time) (heap s)\<rparr>
      in acoral_period_time_queue_add p s)"

definition period_thread_exit :: kop where
  "period_thread_exit s = map_option snd (acoral_suspend_self s)"

definition period_policy_thread_init :: "ptr \<Rightarrow> thread_start" where
  "period_policy_thread_init vm p route args pd data s =
     do {
       (ok, s) \<leftarrow>
         (if t_policy (threads s p) = ACORAL_SCHED_POLICY_PERIOD then
            do {
              let s = upd_thr p (\<lambda>t. t\<lparr>t_cpu := pd_cpu pd, t_prio := pd_prio pd\<rparr>) s;
              (a, s) \<leftarrow> vol_malloc_now vm 12 s;
              if a = NULL then do { s \<leftarrow> release_tcb p s; Some (False, s) }
              else
                let s = s\<lparr>periods := (periods s)(a := \<lparr>pp_time = pd_time pd, pp_route = route, pp_args = args\<rparr>)\<rparr>
                in Some (True, upd_thr p (\<lambda>t. t\<lparr>private_data := a, cpu_mask := - 1\<rparr>) s)
            }
          else Some (True, s));
       if \<not> ok then Some (Inl KR_MEM_ERR_MALLOC, s)
       else do {
         (err, s) \<leftarrow> acoral_thread_init p route args s;
         if err \<noteq> KR_OK then do { s \<leftarrow> release_tcb p s; Some (Inl err, s) }
         else do {
           let s = acoral_enter_critical (upd_thr p (t_data_update (\<lambda>_. data)) s);
           s \<leftarrow> period_thread_reload p s;
           s \<leftarrow> acoral_exit_critical s;
           (_, s) \<leftarrow> acoral_rdy_thread p s;
           Some (Inr (res_word s p), s)
         }
       }
     }"

definition period_policy_thread_release :: "(ptr \<Rightarrow> ptr \<Rightarrow> kop) \<Rightarrow> ptr \<Rightarrow> ptr \<Rightarrow> kop" where
  "period_policy_thread_release hook vm p s =
     do {
       s \<leftarrow> vol_free_now vm (private_data (threads s p)) s;
       call_hook hook (release_hook (threads s p)) p (upd_thr p (private_data_update (\<lambda>_. NULL)) s)
     }"

text \<open>A new run of a thread: its stack is set up for the routine again.\<close>

definition restart :: "ptr \<Rightarrow> ptr \<Rightarrow> ptr \<Rightarrow> kop" where
  "restart p route args s =
     do {
       (_, s) \<leftarrow> acoral_rdy_thread p (upd_thr p (\<lambda>t. hal_stack_init (stack_buttom t + stack_size t - 4) route args t) s);
       Some s
     }"

text \<open>What happens to an expired periodic thread: when it is suspended, a new run; in any case, its next period.\<close>

definition period_expire :: "(ptr \<Rightarrow> ptr \<Rightarrow> kop) \<Rightarrow> ptr \<Rightarrow> kop" where
  "period_expire hook p s =
     do {
       let a = private_data (threads s p);
       s \<leftarrow> acoral_period_queue_del p s;
       s \<leftarrow> (if flag (t_state (threads s p)) STATE_SUSPEND then
               do { s \<leftarrow> call_hook hook (deal_hook (threads s p)) p s; restart p (pp_route (periods s a)) (pp_args (periods s a)) s }
             else Some s);
       period_thread_reload p s
     }"

partial_function (option) period_loop :: "(ptr \<Rightarrow> ptr \<Rightarrow> kop) \<Rightarrow> knode \<Rightarrow> kstate \<Rightarrow> kstate option" where
  "period_loop hook tmp s =
     (if tmp = PeriodQ then Some s
      else do {
        p \<leftarrow> timing_entry tmp;
        if lvalue (heap s) tmp > 0 then Some s
        else do {
          let tmp1 = lnext (heap s) tmp;
          s \<leftarrow> period_expire hook p s;
          period_loop hook tmp1 s
        }
      })"

text \<open>One tick off the head of a difference list.\<close>

definition tick_head :: "knode \<Rightarrow> kstate \<Rightarrow> kstate" where
  "tick_head q s =
     (let f = lnext (heap s) q in
      if lvalue (heap s) f > 0 then s\<lparr>heap := set_value f (lvalue (heap s) f - 1) (heap s)\<rparr> else s)"

definition period_time_deal :: "(ptr \<Rightarrow> ptr \<Rightarrow> kop) \<Rightarrow> kop" where
  "period_time_deal hook s =
     (if acoral_list_empty PeriodQ (heap s) then Some s
      else let s = tick_head PeriodQ s in period_loop hook (lnext (heap s) PeriodQ) s)"

definition period_policy_init :: kop where
  "period_policy_init s = acoral_register_sched_policy 1 (s\<lparr>heap := acoral_tick_queue_init PeriodQ (heap s)\<rparr>)"

end
