(* ===== verification/Timed.thy ===== *)
theory Timed
  imports Policy
begin

text \<open>
  Timed threads (\<^verbatim>\<open>kernel/src/timed_thrd.c\<close>), whose runs and sections start at given times; the tick handler
  (\<^verbatim>\<open>timer.c\<close>); the reclaiming of dead threads by the daemon (\<^verbatim>\<open>thread.c\<close>, \<^verbatim>\<open>smp.c\<close>); and the table of the kernel's
  policies. The arrays of a thread's private data are lists; reading past their end is \<open>None\<close>. The thread body
  \<^verbatim>\<open>acoral_timed_task\<close> only calls application code and is not modelled.
\<close>

section \<open>Start times\<close>

definition acoral_timed_time_queue_add :: "ptr \<Rightarrow> kop" where
  "acoral_timed_time_queue_add p s = on_heap (acoral_tick_queue_add (TimedQ (t_cpu (threads s p))) (Timing p)) s"

definition acoral_timed_queue_del :: "ptr \<Rightarrow> kop" where
  "acoral_timed_queue_del p s = on_heap (acoral_tick_queue_del (TimedQ (t_cpu (threads s p))) (Timing p)) s"

definition timed_offset :: "timed_private \<Rightarrow> nat option" where
  "timed_offset pd =
     (let k = (uint (run_num pd) - 1) * (uint (section_num pd) + 1) + (uint (cur_section pd) - 1)
      in if 0 \<le> k then Some (nat k) else None)"

text \<open>The static variable of the code is assigned before it is read, so it is no state.\<close>

definition timed_start_time_reload :: "ptr \<Rightarrow> kop" where
  "timed_start_time_reload p s =
     do {
       let pd = timeds s (private_data (threads s p));
       k \<leftarrow> timed_offset pd;
       if k \<ge> length (start_time pd) then None
       else do {
         let last = t_time (threads s p);
         let time = TIME_TO_TICKS (start_time pd ! k);
         let s = upd_thr p (t_time_update (\<lambda>_. time)) s;
         let s = s\<lparr>heap := acoral_vlist_init (Timing p) (uint (time - last)) (heap s)\<rparr>;
         acoral_timed_time_queue_add p s
       }
     }"

definition timed_thread_exit :: kop where
  "timed_thread_exit s = map_option snd (acoral_suspend_self s)"

section \<open>Creation and release\<close>

text \<open>The semaphores of the sections.\<close>

fun create_sems :: "nat \<Rightarrow> kstate \<Rightarrow> (ptr list \<times> kstate) option" where
  "create_sems 0 s = Some ([], s)"
| "create_sems (Suc n) s =
     do {
       (sem, s) \<leftarrow> acoral_sem_create 0 s;
       (sems, s) \<leftarrow> create_sems n s;
       Some (sem # sems, s)
     }"

text \<open>\<^verbatim>\<open>sizeof(timed_private_data_t)\<close> is 32 on the target.\<close>

definition timed_policy_thread_init :: "ptr \<Rightarrow> thread_start" where
  "timed_policy_thread_init vm p route args pd data s =
     do {
       (ok, s) \<leftarrow>
         (if t_policy (threads s p) = ACORAL_SCHED_POLICY_TIMED then
            do {
              let s = upd_thr p (\<lambda>t. t\<lparr>t_cpu := pd_cpu pd, t_prio := ACORAL_TIMED_PRIO\<rparr>) s;
              (a, s) \<leftarrow> vol_malloc_now vm 32 s;
              if a = NULL then do { s \<leftarrow> release_tcb p s; Some (False, s) }
              else do {
                (ia, s) \<leftarrow> vol_malloc_now vm (ucast (pd_section_num pd) * 4) s;
                (sems, s) \<leftarrow> create_sems (unat (pd_section_num pd)) s;
                let s = s\<lparr>timeds := (timeds s)(a := \<lparr>start_time = pd_start_time pd, tp_ipc = sems, tp_ipc_p = ia,
                    section_num = pd_section_num pd, frequency = pd_frequency pd, cur_section = 1, run_num = 1, tp_route = route,
                    section_route = pd_section_route pd, section_args = pd_section_args pd, tp_args = args\<rparr>)\<rparr>;
                Some (True, upd_thr p (\<lambda>t. t\<lparr>private_data := a, cpu_mask := - 1\<rparr>) s)
              }
            }
          else Some (True, s));
       if \<not> ok then Some (Inl KR_MEM_ERR_MALLOC, s)
       else do {
         (err, s) \<leftarrow> acoral_thread_init p route args s;
         if err \<noteq> KR_OK then do { s \<leftarrow> release_tcb p s; Some (Inl err, s) }
         else do {
           let s = upd_thr p (\<lambda>t. t\<lparr>t_data := data, preempt_type := PREEMPT_TIMED\<rparr>) s;
           s \<leftarrow> timed_start_time_reload p (acoral_enter_critical s);
           s \<leftarrow> acoral_exit_critical s;
           (_, s) \<leftarrow> acoral_rdy_thread p s;
           Some (Inr (res_word s p), s)
         }
       }
     }"

definition upd_timed :: "ptr \<Rightarrow> (timed_private \<Rightarrow> timed_private) \<Rightarrow> kstate \<Rightarrow> kstate" where
  "upd_timed a f s = s\<lparr>timeds := (timeds s)(a := f (timeds s a))\<rparr>"

definition timed_policy_thread_release :: "(ptr \<Rightarrow> ptr \<Rightarrow> kop) \<Rightarrow> ptr \<Rightarrow> ptr \<Rightarrow> kop" where
  "timed_policy_thread_release hook vm p s =
     do {
       let a = private_data (threads s p);
       s \<leftarrow> vol_free_now vm (section_route (timeds s a)) s;
       let s = upd_timed a (section_route_update (\<lambda>_. NULL)) s;
       s \<leftarrow> vol_free_now vm (section_args (timeds s a)) s;
       let s = upd_timed a (section_args_update (\<lambda>_. NULL)) s;
       s \<leftarrow> vol_free_now vm (tp_ipc_p (timeds s a)) s;
       let s = upd_timed a (tp_ipc_p_update (\<lambda>_. NULL)) s;
       s \<leftarrow> vol_free_now vm a s;
       call_hook hook (release_hook (threads s p)) p (upd_thr p (private_data_update (\<lambda>_. NULL)) s)
     }"

section \<open>The tick of timed threads\<close>

text \<open>A timed thread that still runs when the next one starts is suspended and will be reloaded; the flag says so.\<close>

definition timed_overrun :: "u32 \<Rightarrow> bool \<Rightarrow> kstate \<Rightarrow> (bool \<times> kstate) option" where
  "timed_overrun cpu err s =
     (if last_timed s cpu = running_thread s cpu then
        do {
          let l = last_timed s cpu;
          let a = private_data (threads s l);
          (_, s) \<leftarrow> acoral_suspend_thread l s;
          let s = upd_thr l (t_state_update (\<lambda>st. st OR STATE_RELOAD)) s;
          Some (True, upd_timed a (\<lambda>d. d\<lparr>cur_section := section_num d + 1\<rparr>) s)
        }
      else Some (err, s))"

text \<open>Inside a run: the semaphore of the section is posted.\<close>

definition timed_section :: "ptr \<Rightarrow> kop" where
  "timed_section a s =
     (let d = timeds s a in
      if cur_section d \<le> section_num d then
        let i = unat (cur_section d) - 1 in
        if cur_section d = 0 \<or> i \<ge> length (tp_ipc d) then None
        else do {
          (_, s) \<leftarrow> acoral_sem_post (tp_ipc d ! i) s;
          Some (upd_timed a (\<lambda>d. d\<lparr>cur_section := cur_section d + 1\<rparr>) s)
        }
      else Some s)"

fun init_sems :: "ptr list \<Rightarrow> kop" where
  "init_sems [] s = Some s"
| "init_sems (sem # sems) s = do { (_, s) \<leftarrow> acoral_sem_init sem 0 s; init_sems sems s }"

text \<open>The next run.\<close>

definition timed_next_run :: "(ptr \<Rightarrow> ptr \<Rightarrow> kop) \<Rightarrow> ptr \<Rightarrow> kop" where
  "timed_next_run hook p s =
     do {
       let a = private_data (threads s p);
       let s = upd_timed a (\<lambda>d. d\<lparr>run_num := run_num d + 1, cur_section := 1\<rparr>) s;
       let s = (if run_num (timeds s a) > frequency (timeds s a)
                then upd_thr p (t_time_update (\<lambda>_. 0)) (upd_timed a (run_num_update (\<lambda>_. 1)) s) else s);
       s \<leftarrow> init_sems (take (unat (section_num (timeds s a))) (tp_ipc (timeds s a))) s;
       s \<leftarrow> call_hook hook (deal_hook (threads s p)) p s;
       restart p (tp_route (timeds s a)) (tp_args (timeds s a)) s
     }"

definition timed_expire :: "(ptr \<Rightarrow> ptr \<Rightarrow> kop) \<Rightarrow> u32 \<Rightarrow> ptr \<Rightarrow> bool \<Rightarrow> kop" where
  "timed_expire hook cpu p err s =
     do {
       s \<leftarrow> acoral_timed_queue_del p s;
       let s = s\<lparr>last_timed := (last_timed s)(cpu := p)\<rparr>;
       let a = private_data (threads s p);
       s \<leftarrow> (if t_ipc (threads s p) \<noteq> NULL then timed_section a s
             else if \<not> err then timed_next_run hook p s
             else Some s);
       if run_num (timeds s a) \<le> frequency (timeds s a) then timed_start_time_reload p s else Some s
     }"

partial_function (option) timed_loop ::
  "(ptr \<Rightarrow> ptr \<Rightarrow> kop) \<Rightarrow> u32 \<Rightarrow> knode \<Rightarrow> bool \<Rightarrow> kstate \<Rightarrow> (bool \<times> kstate) option" where
  "timed_loop hook cpu tmp err s =
     (if tmp = TimedQ cpu then Some (err, s)
      else do {
        p \<leftarrow> timing_entry tmp;
        if lvalue (heap s) tmp > 0 then Some (err, s)
        else do {
          (err, s) \<leftarrow> timed_overrun cpu err s;
          let tmp1 = lnext (heap s) tmp;
          s \<leftarrow> timed_expire hook cpu p err s;
          timed_loop hook cpu tmp1 err s
        }
      })"

definition timed_cpu_deal :: "(ptr \<Rightarrow> ptr \<Rightarrow> kop) \<Rightarrow> u32 \<Rightarrow> bool \<Rightarrow> kstate \<Rightarrow> (bool \<times> kstate) option" where
  "timed_cpu_deal hook cpu err s =
     (if acoral_list_empty (TimedQ cpu) (heap s) then Some (err, s)
      else let s = tick_head (TimedQ cpu) s in timed_loop hook cpu (lnext (heap s) (TimedQ cpu)) err s)"

text \<open>The error flag of the first CPU is still set when the second one is dealt with.\<close>

definition timed_time_deal :: "(ptr \<Rightarrow> ptr \<Rightarrow> kop) \<Rightarrow> kop" where
  "timed_time_deal hook s =
     do {
       (err, s) \<leftarrow> timed_cpu_deal hook 0 False s;
       (err, s) \<leftarrow> timed_cpu_deal hook 1 err s;
       Some s
     }"

definition timed_policy_init :: kop where
  "timed_policy_init s =
     acoral_register_sched_policy 2 (s\<lparr>heap := acoral_tick_queue_init (TimedQ 1) (acoral_tick_queue_init (TimedQ 0) (heap s))\<rparr>)"

section \<open>The kernel's policies\<close>

definition kernel_policies :: "(ptr \<Rightarrow> ptr \<Rightarrow> kop) \<Rightarrow> ptr \<Rightarrow> policy_table" where
  "kernel_policies hook vm i =
     (if i = 0 then \<lparr>pol_type = ACORAL_SCHED_POLICY_COMM, pol_init = Some comm_policy_thread_init, pol_release = None, pol_time_deal = None\<rparr>
      else if i = 1 then \<lparr>pol_type = ACORAL_SCHED_POLICY_PERIOD, pol_init = Some (period_policy_thread_init vm),
             pol_release = Some (period_policy_thread_release hook vm), pol_time_deal = Some (period_time_deal hook)\<rparr>
      else \<lparr>pol_type = ACORAL_SCHED_POLICY_TIMED, pol_init = Some (timed_policy_thread_init vm),
             pol_release = Some (timed_policy_thread_release hook vm), pol_time_deal = Some (timed_time_deal hook)\<rparr>)"

definition acoral_sched_policy_init :: kop where
  "acoral_sched_policy_init s =
     do {
       s \<leftarrow> comm_policy_init (s\<lparr>heap := acoral_fifo_queue_init PolicyQ (heap s)\<rparr>);
       s \<leftarrow> period_policy_init s;
       timed_policy_init s
     }"

definition acoral_thread_sys_init :: "u32 \<Rightarrow> kop" where
  "acoral_thread_sys_init tcb_size s = do { s \<leftarrow> acoral_sched_mechanism_init tcb_size s; acoral_sched_policy_init s }"

section \<open>The tick\<close>

text \<open>The tick interrupt; whether the timer has expired is read from the device. Printing is not modelled.\<close>

definition acoral_ticks_handler :: "policy_table \<Rightarrow> bool \<Rightarrow> kop" where
  "acoral_ticks_handler tab expired s =
     (if \<not> expired then Some s
      else
        let s = s\<lparr>ticks := ticks s + 1\<rparr> in
        if sched_enable s then do { s \<leftarrow> time_delay_deal s; acoral_policy_time_deal tab s } else Some s)"

section \<open>Dead threads\<close>

definition acoral_release_thread :: "policy_table \<Rightarrow> ptr \<Rightarrow> kop" where
  "acoral_release_thread tab p s =
     do {
       s \<leftarrow> on_heap (acoral_lifo_queue_del ThreadsQ (GlobalL p)) s;
       s \<leftarrow> acoral_policy_thread_release tab p s;
       s \<leftarrow> buddy_free (stack_buttom (threads s p)) s;
       acoral_release_res p (upd_thr p (stack_buttom_update (\<lambda>_. NULL)) s)
     }"

text \<open>One round of the daemon: a thread that has not left its CPU yet goes to the end of the queue again. A round may not
  end.\<close>

partial_function (option) daem_loop :: "policy_table \<Rightarrow> knode \<Rightarrow> kstate \<Rightarrow> kstate option" where
  "daem_loop tab tmp s =
     (if tmp = ReleaseQ then Some s
      else do {
        let tmp1 = lnext (heap s) tmp;
        p \<leftarrow> pending_entry tmp;
        s \<leftarrow> on_heap (acoral_fifo_queue_del ReleaseQ tmp) (acoral_enter_critical s);
        s \<leftarrow> acoral_exit_critical s;
        s \<leftarrow> (if t_state (threads s p) = STATE_RELEASE then acoral_release_thread tab p s
              else do {
                s \<leftarrow> on_heap (acoral_fifo_queue_add ReleaseQ (Pending p)) (acoral_enter_critical s);
                acoral_exit_critical s
              });
        daem_loop tab tmp1 s
      })"

definition daem_round :: "policy_table \<Rightarrow> kop" where
  "daem_round tab s =
     do {
       s \<leftarrow> daem_loop tab (lnext (heap s) ReleaseQ) s;
       map_option snd (acoral_suspend_self s)
     }"

end
