(* ===== verification/Ringwalk.thy ===== *)
theory Ringwalk
  imports Klist
begin

text \<open>
  Loops over rings. The kernel and its components look entries up, or treat all entries, by following \<open>lnext\<close> from the head of a
  ring until the head comes again. The two patterns are locales; the components interpret them on their loops.
\<close>

section \<open>Searching\<close>

text \<open>\<open>test\<close> looks at one node: \<open>Some (Some y)\<close> ends the search with \<open>y\<close>, \<open>Some None\<close> goes on; \<open>search\<close> returns \<open>Some None\<close> when the
  head comes again.\<close>

locale ring_search =
  fixes head :: 'a and search :: "'s \<Rightarrow> 'a \<Rightarrow> 'b option option" and hp :: "'s \<Rightarrow> 'a lheap" and test :: "'s \<Rightarrow> 'a \<Rightarrow> 'b option option"
  assumes step: "search s x = (if x = head then Some None else
    (case test s x of None \<Rightarrow> None | Some None \<Rightarrow> search s (lnext (hp s) x) | Some (Some y) \<Rightarrow> Some (Some y)))"
begin

lemma links_find:
  assumes "links (hp s) x (map f is) head" "head \<notin> f ` set is" "\<And>i. i \<in> set is \<Longrightarrow> test s (f i) = Some (if P i then Some i else None)"
  shows "search s (lnext (hp s) x) = Some (List.find P is)"
  using assms
proof (induction "is" arbitrary: x)
  case Nil
  then show ?case by (subst step) simp
next
  case (Cons i "is")
  then have l: "lnext (hp s) x = f i" "links (hp s) (f i) (map f is) head" by simp_all
  have "search s (lnext (hp s) (f i)) = Some (List.find P is)" by (rule Cons.IH [OF l(2)]) (use Cons.prems(2,3) in auto)
  then show ?case using Cons.prems(2,3) by (subst step) (auto simp: l(1))
qed

text \<open>On a ring of nodes of the objects \<open>is\<close> the search returns, with the first object that passes the test.\<close>

lemma ring_find:
  assumes "ring (hp s) head (map f is)" "\<And>i. i \<in> set is \<Longrightarrow> test s (f i) = Some (if P i then Some i else None)"
  shows "search s (lnext (hp s) head) = Some (List.find P is)"
  using links_find [of s head f "is" P] assms by (simp add: ring_def)

end

section \<open>Visiting\<close>

text \<open>\<open>nexts n x zs b\<close>: from \<open>x\<close> the function \<open>n\<close> leads through \<open>zs\<close> to \<open>b\<close>.\<close>

fun nexts :: "('a \<Rightarrow> 'a) \<Rightarrow> 'a \<Rightarrow> 'a list \<Rightarrow> 'a \<Rightarrow> bool" where
  "nexts n x [] b \<longleftrightarrow> n x = b"
| "nexts n x (z # zs) b \<longleftrightarrow> n x = z \<and> nexts n z zs b"

lemma links_nexts: "links h x zs b \<Longrightarrow> nexts (lnext h) x zs b"
  by (induction zs arbitrary: x) auto

lemma nexts_cong: "nexts n x zs b \<Longrightarrow> (\<And>w. w \<in> set (x # zs) \<Longrightarrow> m w = n w) \<Longrightarrow> nexts m x zs b"
  by (induction zs arbitrary: x) auto

text \<open>\<open>body\<close> treats one node; the link to the next one is read afterwards.\<close>

locale ring_visit =
  fixes head :: 'a and loop :: "'a \<Rightarrow> 's \<Rightarrow> 's option" and hp :: "'s \<Rightarrow> 'a lheap" and body :: "'a \<Rightarrow> 's \<Rightarrow> 's option"
  assumes step: "loop x s = (if x = head then Some s else (case body x s of None \<Rightarrow> None | Some s \<Rightarrow> loop (lnext (hp s) x) s))"
begin

text \<open>With an invariant \<open>I\<close> over the visited nodes under which every body returns and leaves the rest of the ring linked, the loop
  returns and the invariant holds for the whole ring.\<close>

lemma nexts_visit:
  assumes "nexts (lnext (hp s)) x zs head" "set zs \<subseteq> set xs" "head \<notin> set zs" "I ys s"
    "\<And>ys z s. z \<in> set xs \<Longrightarrow> I ys s \<Longrightarrow> \<exists>s'. body z s = Some s' \<and> I (ys @ [z]) s' \<and> (\<forall>w \<in> set xs. lnext (hp s') w = lnext (hp s) w)"
  shows "\<exists>s'. loop (lnext (hp s) x) s = Some s' \<and> I (ys @ zs) s'"
  using assms(1-4)
proof (induction zs arbitrary: x ys s)
  case Nil
  then show ?case by (subst step) simp
next
  case (Cons z zs)
  then have zx: "z \<in> set xs" "z \<noteq> head" "lnext (hp s) x = z" "nexts (lnext (hp s)) z zs head" by auto
  obtain s' where s': "body z s = Some s'" "I (ys @ [z]) s'" "\<forall>w \<in> set xs. lnext (hp s') w = lnext (hp s) w"
    using assms(5) [OF zx(1) Cons.prems(4)] by blast
  have "nexts (lnext (hp s')) z zs head"
    using zx(4) by (rule nexts_cong) (use s'(3) zx(1) Cons.prems(2) in auto)
  then have "\<exists>s''. loop (lnext (hp s') z) s' = Some s'' \<and> I ((ys @ [z]) @ zs) s''"
    using Cons.prems(2,3) s'(2) by (intro Cons.IH) auto
  then show ?case using zx(2) by (subst step) (simp add: zx(3) s'(1))
qed

lemma ring_visit:
  assumes "ring (hp s) head xs" "I [] s"
    "\<And>ys z s. z \<in> set xs \<Longrightarrow> I ys s \<Longrightarrow> \<exists>s'. body z s = Some s' \<and> I (ys @ [z]) s' \<and> (\<forall>w \<in> set xs. lnext (hp s') w = lnext (hp s) w)"
  shows "\<exists>s'. loop (lnext (hp s) head) s = Some s' \<and> I xs s'"
  using nexts_visit [of s head xs xs I "[]"] links_nexts [of "hp s" head xs head] assms by (simp add: ring_def)

end

end
