(* ===== verification/Policy_Props.thy ===== *)
theory Policy_Props
  imports Timed Thread_Props Ringwalk
begin

text \<open>
  Properties of the scheduling policies: how a tick of the queue of periodic threads starts new runs and queues their next periods.
\<close>

section \<open>Policies\<close>

lemma policy_walk_step:
  "policy_walk tab h ty x = (if x = PolicyQ then Some None else
     (case do { i \<leftarrow> policy_entry x; Some (if pol_type (tab i) = ty then Some i else None) } of
        None \<Rightarrow> None | Some None \<Rightarrow> policy_walk tab h ty (lnext h x) | Some (Some y) \<Rightarrow> Some (Some y)))"
  by (subst policy_walk.simps) (auto split: Option.bind_splits)

interpretation policies: ring_search PolicyQ "\<lambda>(tab, h, ty). policy_walk tab h ty" "\<lambda>(tab, h, ty). h"
    "\<lambda>(tab, h, ty) x. do { i \<leftarrow> policy_entry x; Some (if pol_type (tab i) = ty then Some i else None) }"
  by unfold_locales (simp only: split_paired_all prod.case, rule policy_walk_step)

text \<open>The policy found for a type is the first one registered with it.\<close>

lemma get_policy_first:
  "ring (heap s) PolicyQ (map PolicyL is) \<Longrightarrow> acoral_get_policy_ctrl tab ty s = Some (find (\<lambda>i. pol_type (tab i) = ty) is)"
  using policies.ring_find [of "(tab, heap s, ty)" PolicyL "is" "\<lambda>i. pol_type (tab i) = ty"] by (simp add: acoral_get_policy_ctrl_def)

text \<open>The work of a policy at a tick of the timer, and the loop over all policies.\<close>

abbreviation deal_of :: "policy_table \<Rightarrow> nat \<Rightarrow> kop" where
  "deal_of tab i s \<equiv> (case pol_time_deal (tab i) of None \<Rightarrow> Some s | Some deal \<Rightarrow> deal s)"

lemma policy_deal_step:
  "policy_deal_loop tab x s = (if x = PolicyQ then Some s else
     (case do { i \<leftarrow> policy_entry x; deal_of tab i s } of None \<Rightarrow> None | Some s \<Rightarrow> policy_deal_loop tab (lnext (heap s) x) s))"
  by (subst policy_deal_loop.simps) (auto split: Option.bind_splits option.splits)

interpretation deals: ring_visit PolicyQ "policy_deal_loop tab" heap "\<lambda>x s. do { i \<leftarrow> policy_entry x; deal_of tab i s }" for tab
  by unfold_locales (rule policy_deal_step)

text \<open>A property of the state that the work of every registered policy keeps, without relinking the policies, holds after a tick; and
  the tick returns.\<close>

lemma policy_time_deal_keeps:
  assumes "ring (heap s) PolicyQ (map PolicyL is)" "J s"
    "\<And>i s. i \<in> set is \<Longrightarrow> J s \<Longrightarrow> \<exists>s'. deal_of tab i s = Some s' \<and> J s' \<and> (\<forall>j \<in> set is. lnext (heap s') (PolicyL j) = lnext (heap s) (PolicyL j))"
  shows "\<exists>s'. acoral_policy_time_deal tab s = Some s' \<and> J s'"
proof -
  have "\<exists>s'. policy_deal_loop tab (lnext (heap s) PolicyQ) s = Some s' \<and> J s'"
    by (rule deals.ring_visit [where I = "\<lambda>_. J", OF assms(1,2)]) (use assms(3) in fastforce)
  then show ?thesis by (simp add: acoral_policy_time_deal_def)
qed

section \<open>Periodic threads\<close>

text \<open>The period of a thread in ticks.\<close>

definition period_of :: "kstate \<Rightarrow> ptr \<Rightarrow> int" where
  "period_of s p = uint (TIME_TO_TICKS (pp_time (periods s (private_data (threads s p)))))"

text \<open>A periodic thread of this CPU without a hook, with a period from one tick to \<open>2 ^ 31 - 1\<close>.\<close>

definition periodic_here :: "ptr set \<Rightarrow> kstate \<Rightarrow> ptr \<Rightarrow> bool" where
  "periodic_here L s p \<longleftrightarrow> p \<in> L \<and> t_cpu (threads s p) = current_cpu s \<and> deal_hook (threads s p) = NULL \<and>
     0 < period_of s p \<and> period_of s p < 2 ^ 31 \<and>
     (flag (t_state (threads s p)) STATE_SUSPEND \<longrightarrow> \<not> flag (t_state (threads s p)) STATE_READY)"

text \<open>What a tick does to a thread that is due: a suspended thread starts a new run of its routine, and in any case its next
  period is noted.\<close>

definition next_run :: "kstate \<Rightarrow> ptr \<Rightarrow> thread \<Rightarrow> thread" where
  "next_run s p t =
     (if flag (t_state t) STATE_SUSPEND
      then t_state_update (\<lambda>st. (st AND NOT STATE_SUSPEND) OR STATE_READY)
        (hal_stack_init (stack_buttom t + stack_size t - 4) (pp_route (periods s (private_data t))) (pp_args (periods s (private_data t))) t)
      else t)\<lparr>t_time := TIME_TO_TICKS (pp_time (periods s (private_data t)))\<rparr>"

lemma rdy_inv_upd_stack [simp]:
  "rdy_inv L (upd_thr p (hal_stack_init a b c) s) R \<longleftrightarrow> rdy_inv L s R"
  "rdy_inv L (upd_thr p (\<lambda>t. hal_stack_init (f t) b c t) s) R \<longleftrightarrow> rdy_inv L s R"
  "rdy_inv L (upd_thr p (t_time_update g) s) R \<longleftrightarrow> rdy_inv L s R"
  by (rule rdy_inv_cong; simp add: upd_thr_def hal_stack_init_def)+

text \<open>The first half: the node leaves the queue, and a suspended thread is set up again and readied.\<close>

lemma period_restart:
  assumes inv: "rdy_inv L s R" and q: "R PeriodQ = Some (map Timing (p # qs))"
    and it: "in_intr s" and ph: "periodic_here L s p"
  defines "a \<equiv> private_data (threads s p)"
  shows "\<exists>s1 s2 R2. acoral_period_queue_del p s = Some s1 \<and>
    (if flag (t_state (threads s1 p)) STATE_SUSPEND then
       do { s \<leftarrow> call_hook hook (deal_hook (threads s1 p)) p s1; restart p (pp_route (periods s a)) (pp_args (periods s a)) s }
     else Some s1) = Some s2 \<and> rdy_inv L s2 R2 \<and> R2 PeriodQ = Some (map Timing qs) \<and> free_node R2 (Timing p) \<and>
    lvalue (heap s2) = lvalue (heap s) \<and> in_intr s2 \<and> current_cpu s2 = current_cpu s \<and> running_thread s2 = running_thread s \<and>
    periods s2 = periods s \<and> (\<forall>t. t_time_update (\<lambda>_. t) (threads s2 p) = t_time_update (\<lambda>_. t) (next_run s p (threads s p))) \<and>
    (\<forall>t. t \<noteq> p \<longrightarrow> threads s2 t = threads s t)"
proof -
  obtain h where h: "acoral_tick_queue_del PeriodQ (Timing p) (heap s) = Some h"
      and inv1: "rdy_inv L (s\<lparr>heap := h\<rparr>) (R(PeriodQ \<mapsto> map Timing qs))"
      and fr1: "free_node (R(PeriodQ \<mapsto> map Timing qs)) (Timing p)" and lv: "lvalue h = lvalue (heap s)"
    using period.leave [OF inv q] by blast
  let ?s1 = "s\<lparr>heap := h\<rparr>" and ?R1 = "R(PeriodQ \<mapsto> map Timing qs)"
  have del: "acoral_period_queue_del p s = Some ?s1" using h by (simp add: acoral_period_queue_del_def on_heap_def)
  have it1: "in_intr ?s1" using it by (simp add: in_intr_def hal_get_intr_nesting_def)
  show ?thesis
  proof (cases "flag (t_state (threads s p)) STATE_SUSPEND")
    case False
    then show ?thesis using del inv1 fr1 lv it1
      by (intro exI [of _ ?s1] exI [of _ ?R1] conjI) (simp_all add: next_run_def)
  next
    case True
    let ?s2 = "upd_thr p (\<lambda>t. hal_stack_init (stack_buttom t + stack_size t - 4) (pp_route (periods s a)) (pp_args (periods s a)) t) ?s1"
    have inv2: "rdy_inv L ?s2 ?R1" using inv1 by simp
    have it2: "in_intr ?s2" using it1 by (simp add: in_intr_def hal_get_intr_nesting_def upd_thr_def)
    have th: "p \<in> L" "flag (t_state (threads ?s2 p)) STATE_SUSPEND" "\<not> flag (t_state (threads ?s2 p)) STATE_READY"
        "t_cpu (threads ?s2 p) = current_cpu ?s2"
      using ph True by (simp_all add: periodic_here_def upd_thr_def hal_stack_init_def)
    obtain s3 xs where s3: "acoral_rdy_thread p ?s2 = Some (KR_OK, s3)"
        "rdy_inv L s3 (?R1(RdyQ (current_cpu ?s2) (unat (t_prio (threads ?s2 p))) \<mapsto> xs @ [Ready p]))"
        "?R1 (RdyQ (current_cpu ?s2) (unat (t_prio (threads ?s2 p)))) = Some xs" "in_intr s3"
        "current_cpu s3 = current_cpu ?s2" "running_thread s3 = running_thread ?s2" "lvalue (heap s3) = lvalue (heap ?s2)"
        "periods s3 = periods ?s2"
        "threads s3 = (threads ?s2)(p := t_state_update (\<lambda>st. (st AND NOT STATE_SUSPEND) OR STATE_READY) (threads ?s2 p))"
      using rdy_intr [OF inv2 th it2] by blast
    let ?R3 = "?R1(RdyQ (current_cpu ?s2) (unat (t_prio (threads ?s2 p))) \<mapsto> xs @ [Ready p])"
    have fr: "free_node ?R3 (Timing p)"
      using free_nodeD [OF fr1 s3(3)] by (intro free_node_upd [OF fr1]) simp_all
    have "deal_hook (threads s p) = NULL" using ph by (simp add: periodic_here_def)
    then show ?thesis using del s3 fr True lv
      by (intro exI [of _ ?s1] exI [of _ s3] exI [of _ ?R3] conjI)
         (simp_all add: restart_def call_hook_def next_run_def upd_thr_def a_def)
  qed
qed

text \<open>The second half: the node is set up with the period and enters the queue at its due time.\<close>

lemma period_reload:
  assumes inv: "rdy_inv L s R" and q: "R PeriodQ = Some (map Timing qs)" "ticks_ok (lvalue (heap s)) (map Timing qs)"
    and fr: "free_node R (Timing p)" and T: "0 < period_of s p" "period_of s p < 2 ^ 31"
  shows "\<exists>s' R' qs'. period_thread_reload p s = Some s' \<and> rdy_inv L s' R' \<and> R' PeriodQ = Some (map Timing qs') \<and>
    due (lvalue (heap s')) 0 (map Timing qs') = timed_ins (due (lvalue (heap s)) 0 (map Timing qs)) (Timing p) (period_of s p) \<and>
    ticks_ok (lvalue (heap s')) (map Timing qs') \<and> (in_intr s \<longrightarrow> in_intr s') \<and> current_cpu s' = current_cpu s \<and>
    running_thread s' = running_thread s \<and> periods s' = periods s \<and>
    threads s' = (threads s)(p := (threads s p)\<lparr>t_time := TIME_TO_TICKS (pp_time (periods s (private_data (threads s p))))\<rparr>)"
proof -
  let ?t = "TIME_TO_TICKS (pp_time (periods s (private_data (threads s p))))"
  let ?s1 = "upd_thr p (t_time_update (\<lambda>_. ?t)) s"
  have base: "rdy_inv L ?s1 R" using inv by simp
  have hs: "heap ?s1 = heap s" by (simp add: upd_thr_def)
  have T0: "0 \<le> period_of s p" using T(1) by simp
  obtain h qs' where h: "acoral_tick_queue_add PeriodQ (Timing p) (acoral_vlist_init (Timing p) (period_of s p) (heap s)) = Some h"
      and inv2: "rdy_inv L (?s1\<lparr>heap := h\<rparr>) (R(PeriodQ \<mapsto> map Timing qs'))"
      and due: "due (lvalue h) 0 (map Timing qs') = timed_ins (due (lvalue (heap s)) 0 (map Timing qs)) (Timing p) (period_of s p)"
      "ticks_ok (lvalue h) (map Timing qs')"
    using period.enter [OF base q(1) _ fr T0 T(2)] q(2) unfolding hs by auto
  have "period_thread_reload p s = Some (?s1\<lparr>heap := h\<rparr>)"
    using h by (simp add: period_thread_reload_def acoral_period_time_queue_add_def on_heap_def Let_def period_of_def upd_thr_def)
  then show ?thesis
    using inv2 due
    by (intro exI [of _ "?s1\<lparr>heap := h\<rparr>"] exI [of _ "R(PeriodQ \<mapsto> map Timing qs')"] exI [of _ qs'] conjI)
      (simp_all add: upd_thr_def in_intr_def hal_get_intr_nesting_def)
qed

lemma period_expire_ok:
  assumes inv: "rdy_inv L s R" and q: "R PeriodQ = Some (map Timing (p # qs))" "ticks_ok (lvalue (heap s)) (map Timing qs)"
    and it: "in_intr s" and ph: "periodic_here L s p"
  shows "\<exists>s' R' qs'. period_expire hook p s = Some s' \<and> rdy_inv L s' R' \<and> R' PeriodQ = Some (map Timing qs') \<and>
    due (lvalue (heap s')) 0 (map Timing qs') = timed_ins (due (lvalue (heap s)) 0 (map Timing qs)) (Timing p) (period_of s p) \<and>
    ticks_ok (lvalue (heap s')) (map Timing qs') \<and> in_intr s' \<and> current_cpu s' = current_cpu s \<and>
    running_thread s' = running_thread s \<and> periods s' = periods s \<and> threads s' = (threads s)(p := next_run s p (threads s p))"
proof -
  from period_restart [OF inv q(1) it ph, of hook] obtain s1 s2 R2 where r: "acoral_period_queue_del p s = Some s1"
      "(if flag (t_state (threads s1 p)) STATE_SUSPEND then
         do { s' \<leftarrow> call_hook hook (deal_hook (threads s1 p)) p s1;
              restart p (pp_route (periods s' (private_data (threads s p)))) (pp_args (periods s' (private_data (threads s p)))) s' }
       else Some s1) = Some s2"
      and r2: "rdy_inv L s2 R2" "R2 PeriodQ = Some (map Timing qs)" "free_node R2 (Timing p)" "lvalue (heap s2) = lvalue (heap s)"
      "in_intr s2" "current_cpu s2 = current_cpu s" "running_thread s2 = running_thread s" "periods s2 = periods s"
      and t: "\<And>t. t_time_update (\<lambda>_. t) (threads s2 p) = t_time_update (\<lambda>_. t) (next_run s p (threads s p))"
      and o: "\<And>t. t \<noteq> p \<Longrightarrow> threads s2 t = threads s t"
    by blast
  have "private_data (t_time_update (\<lambda>_. 0) (threads s2 p)) = private_data (threads s p)"
    unfolding t by (simp add: next_run_def hal_stack_init_def)
  then have pd: "private_data (threads s2 p) = private_data (threads s p)" by simp
  then have per: "period_of s2 p = period_of s p" by (simp add: period_of_def r2(8))
  have T: "0 < period_of s2 p" "period_of s2 p < 2 ^ 31" and tk: "ticks_ok (lvalue (heap s2)) (map Timing qs)"
    using ph q(2) by (simp_all add: periodic_here_def per r2(4))
  have nx: "(threads s2 p)\<lparr>t_time := TIME_TO_TICKS (pp_time (periods s (private_data (threads s2 p))))\<rparr> = next_run s p (threads s p)"
    unfolding t pd by (simp add: next_run_def)
  have th: "(threads s2)(p := next_run s p (threads s p)) = (threads s)(p := next_run s p (threads s p))" using o by (auto simp: fun_eq_iff)
  have e: "period_expire hook p s = period_thread_reload p s2" using r by (simp add: period_expire_def)
  show ?thesis
    using period_reload [OF r2(1,2) tk r2(3) T] unfolding e per r2(4,6-8) nx th using r2(5) by blast
qed

text \<open>Members that are due now stay in front of an insertion that is due later, with difference zero.\<close>

lemma timed_ins_zeros:
  assumes "0 < t" "\<forall>x \<in> set zs. v x = 0" "due v' 0 ys = timed_ins (due v 0 (zs @ qs)) n t"
  shows "\<exists>qs'. ys = zs @ qs' \<and> (\<forall>x \<in> set zs. v' x = 0) \<and> due v' 0 qs' = timed_ins (due v 0 qs) n t"
  using assms
proof (induction zs arbitrary: ys)
  case (Cons z zs)
  have "due v 0 ((z # zs) @ qs) = (z, 0) # due v 0 (zs @ qs)" using Cons.prems(2) by simp
  then have e: "due v' 0 ys = (z, 0) # timed_ins (due v 0 (zs @ qs)) n t" using Cons.prems(1,3) by (simp add: timed_ins_def)
  then obtain ys' where y: "ys = z # ys'" by (cases ys) auto
  have z: "v' z = 0" using e by (simp add: y)
  have t: "due v' 0 ys' = timed_ins (due v 0 (zs @ qs)) n t" using e z by (simp add: y)
  have zz: "\<forall>x \<in> set zs. v x = 0" using Cons.prems(2) by simp
  obtain qs' where "ys' = zs @ qs'" "\<forall>x \<in> set zs. v' x = 0" "due v' 0 qs' = timed_ins (due v 0 qs) n t"
    using Cons.IH [OF Cons.prems(1) zz t] by blast
  then show ?case using y z by auto
qed simp

text \<open>The old head of the queue still has time to go after an insertion.\<close>

lemma timed_ins_old_head:
  assumes "0 < t" "0 < v x" "due v' 0 ys = timed_ins (due v 0 (x # qs)) n t"
  shows "0 < v' x" "0 < v' (hd ys)"
proof -
  show "0 < v' x"
  proof (cases "v x \<le> t")
    case True
    then have "due v' 0 ys = (x, v x) # timed_ins (due v (v x) qs) n t" using assms(3) by (simp add: timed_ins_def)
    then show ?thesis using assms(2) by (cases ys) auto
  next
    case False
    then have e: "due v' 0 ys = (n, t) # (x, v x) # due v (v x) qs" using assms(3) by (simp add: timed_ins_def)
    then obtain ys' where "ys = n # x # ys'" by (cases ys; cases "tl ys") auto
    then show ?thesis using e False by simp
  qed
  show "0 < v' (hd ys)"
    using assms by (cases ys) (auto simp: timed_ins_def split: if_splits)
qed

lemma timed_ins_nil: "due v' 0 ys = timed_ins (due v 0 []) n t \<Longrightarrow> ys = [n] \<and> v' n = t"
  by (cases ys; cases "tl ys") (auto simp: timed_ins_def)

text \<open>The requeued members, in the order in which the loop takes them.\<close>

definition requeue :: "kstate \<Rightarrow> ptr list \<Rightarrow> (knode \<times> int) list \<Rightarrow> (knode \<times> int) list" where
  "requeue s ws ds = fold (\<lambda>p ds. timed_ins ds (Timing p) (period_of s p)) ws ds"

lemma requeue_cong: "(\<And>r. r \<in> set ws \<Longrightarrow> period_of s' r = period_of s r) \<Longrightarrow> requeue s' ws ds = requeue s ws ds"
  unfolding requeue_def by (rule fold_cong) simp_all

text \<open>What an insertion leaves when the first threads of the queue are due, in terms of the threads.\<close>

lemma timed_ins_due_threads:
  assumes "0 < t" "\<forall>r \<in> set ws. v (Timing r) = 0"
    "due v' 0 (map Timing xs) = timed_ins (due v 0 (map Timing (ws @ qs))) n t"
  obtains qs' where "xs = ws @ qs'" "\<forall>r \<in> set ws. v' (Timing r) = 0" "due v' 0 (map Timing qs') = timed_ins (due v 0 (map Timing qs)) n t"
proof -
  have z: "\<forall>x \<in> set (map Timing ws). v x = 0" using assms(2) by auto
  from timed_ins_zeros [OF assms(1) z, of v' "map Timing xs" "map Timing qs" n] assms(3)
  obtain ys where ys: "map Timing xs = map Timing ws @ ys" "\<forall>x \<in> set (map Timing ws). v' x = 0"
      "due v' 0 ys = timed_ins (due v 0 (map Timing qs)) n t"
    by auto
  obtain ws0 qs' where "xs = ws0 @ qs'" "map Timing ws0 = map Timing ws" "map Timing qs' = ys"
    using map_eq_append_conv [of Timing xs] ys(1) by metis
  moreover have "inj Timing" by (auto simp: inj_def)
  ultimately show thesis using that [of qs'] ys(2,3) by (simp add: inj_map_eq_map)
qed

abbreviation after_due :: "ptr list \<Rightarrow> knode" where
  "after_due qs \<equiv> (case qs of [] \<Rightarrow> PeriodQ | r # _ \<Rightarrow> Timing r)"

lemma timed_ins_not_due:
  assumes t: "0 < t" and hd: "qs \<noteq> [] \<longrightarrow> 0 < v (Timing (hd qs))"
    and d: "due v' 0 (map Timing qs') = timed_ins (due v 0 (map Timing qs)) n t"
  shows "(qs' \<noteq> [] \<longrightarrow> 0 < v' (Timing (hd qs'))) \<and>
    (after_due qs = PeriodQ \<or> (\<exists>r. after_due qs = Timing r \<and> 0 < v' (after_due qs)))"
proof (cases qs)
  case Nil
  then show ?thesis using timed_ins_nil [of v' "map Timing qs'" v n t] d t by auto
next
  case (Cons r rs)
  have "0 < v (Timing r)" using hd Cons by simp
  then show ?thesis
    using timed_ins_old_head [OF t, of v "Timing r" v' "map Timing qs'" "map Timing rs" n] d Cons by (auto simp: hd_map)
qed

lemma period_loop_ok:
  assumes "rdy_inv L s R" "R PeriodQ = Some (map Timing (ws @ qs))" "ticks_ok (lvalue (heap s)) (map Timing (ws @ qs))" "in_intr s"
    "\<forall>p \<in> set ws. periodic_here L s p \<and> lvalue (heap s) (Timing p) = 0" "qs \<noteq> [] \<longrightarrow> 0 < lvalue (heap s) (Timing (hd qs))"
    "ws = [] \<Longrightarrow> e = PeriodQ \<or> (\<exists>r. e = Timing r \<and> 0 < lvalue (heap s) e)"
  shows "\<exists>s' R' qs'. period_loop hook (case ws of [] \<Rightarrow> e | p # _ \<Rightarrow> Timing p) s = Some s' \<and> rdy_inv L s' R' \<and>
    R' PeriodQ = Some (map Timing qs') \<and>
    due (lvalue (heap s')) 0 (map Timing qs') = requeue s ws (due (lvalue (heap s)) 0 (map Timing qs)) \<and>
    in_intr s' \<and> running_thread s' = running_thread s \<and> (\<forall>p \<in> set ws. threads s' p = next_run s p (threads s p)) \<and>
    (\<forall>p. p \<notin> set ws \<longrightarrow> threads s' p = threads s p)"
  using assms
proof (induction ws arbitrary: s R qs e)
  case Nil
  then have "period_loop hook e s = Some s" by (subst period_loop.simps) auto
  then show ?case using Nil.prems(1-4) by (intro exI [of _ s] exI [of _ R] exI [of _ qs]) (simp add: requeue_def)
next
  case (Cons p ws)
  let ?nd = "Timing p" and ?T = "period_of s p" and ?v = "lvalue (heap s)"
  let ?e = "after_due qs"
  let ?next = "case ws of [] \<Rightarrow> ?e | r # _ \<Rightarrow> Timing r"
  have q0: "R PeriodQ = Some (map Timing (p # (ws @ qs)))" using Cons.prems(2) by simp
  have q1: "R PeriodQ = Some ([] @ ?nd # map Timing (ws @ qs))" using Cons.prems(2) by simp
  have R: "rings (heap s) R" by (rule rdy_invD(1) [OF Cons.prems(1)])
  have d: "distinct (p # ws @ qs)" using ringsD [OF R q1] by (auto simp: ring_def distinct_map)
  have nx: "lnext (heap s) ?nd = ?next"
    using ring_next [OF ringsD [OF R q1]] by (cases ws; cases qs) simp_all
  have tk: "ticks_ok ?v (map Timing (ws @ qs))" using Cons.prems(3) by (simp add: ticks_ok_def)
  have ph: "periodic_here L s p" and v0: "?v ?nd = 0" using Cons.prems(5) by simp_all
  have T: "0 < ?T" using ph by (simp add: periodic_here_def)
  from period_expire_ok [OF Cons.prems(1) q0 tk Cons.prems(4) ph, of hook] obtain s2 R2 xs where s2: "period_expire hook p s = Some s2"
      "rdy_inv L s2 R2" "R2 PeriodQ = Some (map Timing xs)"
      "due (lvalue (heap s2)) 0 (map Timing xs) = timed_ins (due ?v 0 (map Timing (ws @ qs))) ?nd ?T"
      "ticks_ok (lvalue (heap s2)) (map Timing xs)" "in_intr s2" "current_cpu s2 = current_cpu s"
      "running_thread s2 = running_thread s" "periods s2 = periods s" "threads s2 = (threads s)(p := next_run s p (threads s p))"
    by blast
  have z: "\<forall>x \<in> set ws. ?v (Timing x) = 0" using Cons.prems(5) by auto
  obtain qs2 where xs: "xs = ws @ qs2" and z2: "\<forall>r \<in> set ws. lvalue (heap s2) (Timing r) = 0"
      and due2: "due (lvalue (heap s2)) 0 (map Timing qs2) = timed_ins (due ?v 0 (map Timing qs)) ?nd ?T"
    by (rule timed_ins_due_threads [OF T z s2(4)])
  have per: "period_of s2 r = period_of s r \<and> next_run s2 r (threads s2 r) = next_run s r (threads s r)" if "r \<noteq> p" for r
    using that by (simp add: period_of_def next_run_def s2(9,10))
  have here: "\<forall>r \<in> set ws. periodic_here L s2 r \<and> lvalue (heap s2) (Timing r) = 0"
    using Cons.prems(5) d z2 per by (auto simp: periodic_here_def s2(7,10))
  note nx2 = timed_ins_not_due [OF T Cons.prems(6) due2]
  have st: "R2 PeriodQ = Some (map Timing (ws @ qs2))" "ticks_ok (lvalue (heap s2)) (map Timing (ws @ qs2))"
    using s2(3,5) by (simp_all add: xs)
  obtain s' R' qs' where s': "period_loop hook ?next s2 = Some s'" "rdy_inv L s' R'" "R' PeriodQ = Some (map Timing qs')"
      "due (lvalue (heap s')) 0 (map Timing qs') = requeue s2 ws (due (lvalue (heap s2)) 0 (map Timing qs2))"
      "in_intr s'" "running_thread s' = running_thread s2" "\<forall>r \<in> set ws. threads s' r = next_run s2 r (threads s2 r)"
      "\<forall>r. r \<notin> set ws \<longrightarrow> threads s' r = threads s2 r"
    using Cons.IH [OF s2(2) st s2(6) here conjunct1 [OF nx2], of ?e] conjunct2 [OF nx2] by blast
  have po: "period_of s2 r = period_of s r" if "r \<in> set ws" for r using per [of r] d that by auto
  have "requeue s2 ws ds = requeue s ws ds" for ds by (rule requeue_cong) (rule po)
  then have "due (lvalue (heap s')) 0 (map Timing qs') = requeue s (p # ws) (due ?v 0 (map Timing qs))"
    using s'(4) due2 by (simp add: requeue_def)
  moreover have "period_loop hook ?nd s = Some s'"
    using v0 s2(1) nx s'(1) by (subst period_loop.simps) simp
  moreover have "\<forall>r \<in> set (p # ws). threads s' r = next_run s r (threads s r)"
    using s'(7,8) d per by (auto simp: s2(10))
  moreover have "\<forall>r. r \<notin> set (p # ws) \<longrightarrow> threads s' r = threads s r"
    using s'(8) by (auto simp: s2(10))
  ultimately show ?case using s'(2,3,5,6) s2(8) by (intro exI [of _ s'] exI [of _ R'] exI [of _ qs']) simp
qed

text \<open>C11. One tick of the periodic threads, in the tick interrupt, with all of them on this CPU, without hooks and with periods
  between one tick and \<open>2 ^ 31 - 1\<close>. With a head that is not due yet, every thread's remaining time goes down by one; exactly
  the threads that become due are taken: each enters the queue again at its full period, behind everything due no later,
  its routine starts from the beginning if the last run had ended, and nobody else's due time or thread data change.\<close>

theorem period_tick_requeues:
  assumes inv: "rdy_inv L s R" and q: "R PeriodQ = Some (map Timing ps)" "ps \<noteq> []" "ticks_ok (lvalue (heap s)) (map Timing ps)"
    and it: "in_intr s" and here: "\<forall>p \<in> set ps. periodic_here L s p"
  defines "d \<equiv> (if 0 < lvalue (heap s) (Timing (hd ps)) then 1 else 0 :: int)"
    and "D \<equiv> due (lvalue (heap s)) 0 (map Timing ps)"
  shows "\<exists>s' R' ws rs qs. period_time_deal hook s = Some s' \<and> rdy_inv L s' R' \<and> ps = ws @ rs \<and> R' PeriodQ = Some (map Timing qs) \<and>
    (\<forall>(x, t) \<in> set (take (length ws) D). t = d) \<and> (\<forall>(x, t) \<in> set (drop (length ws) D). d < t) \<and>
    due (lvalue (heap s')) 0 (map Timing qs) = requeue s ws (map (\<lambda>(x, t). (x, t - d)) (drop (length ws) D)) \<and>
    (\<forall>p \<in> set ws. threads s' p = next_run s p (threads s p)) \<and> (\<forall>p. p \<notin> set ws \<longrightarrow> threads s' p = threads s p) \<and>
    running_thread s' = running_thread s"
proof -
  let ?v = "lvalue (heap s)" and ?f = "Timing (hd ps)"
  let ?w = "?v(?f := ?v ?f - d)" and ?h = "set_value ?f (?v ?f - d) (heap s)"
  let ?s1 = "s\<lparr>heap := ?h\<rparr>"
  note cd = period.count_down [OF inv q, folded d_def D_def]
  have w: "lvalue ?h = ?w" by (simp add: set_value_def)
  obtain ws rs where split: "ps = ws @ rs" and wz: "\<forall>p \<in> set ws. ?w (Timing p) = 0" and rp: "rs \<noteq> [] \<longrightarrow> 0 < ?w (Timing (hd rs))"
      and wok: "ticks_ok ?w (map Timing ps)"
      and sp: "\<forall>(x, t) \<in> set (take (length ws) D). t = d" "\<forall>(x, t) \<in> set (drop (length ws) D). d < t"
      "due ?w 0 (map Timing rs) = map (\<lambda>(x, t). (x, t - d)) (drop (length ws) D)"
    using cd(5) unfolding w by blast
  have s1: "rdy_inv L ?s1 R" using cd(1) .
  have f: "lvalue (heap ?s1) = ?w" "in_intr ?s1" using it by (simp_all add: set_value_def in_intr_def hal_get_intr_nesting_def)
  have same: "period_of ?s1 p = period_of s p" "next_run ?s1 p t = next_run s p t" "periodic_here L ?s1 p = periodic_here L s p" for p t
    by (simp_all add: period_of_def next_run_def periodic_here_def)
  have ws: "\<forall>p \<in> set ws. periodic_here L ?s1 p \<and> lvalue (heap ?s1) (Timing p) = 0" using here wz unfolding f(1) same(3) by (simp add: split)
  have e: "ws = [] \<Longrightarrow> Timing (hd ps) = PeriodQ \<or> (\<exists>r. Timing (hd ps) = Timing r \<and> 0 < lvalue (heap ?s1) (Timing (hd ps)))"
    using rp q(2) unfolding f(1) by (auto simp: split)
  have start: "(case ws of [] \<Rightarrow> Timing (hd ps) | p # _ \<Rightarrow> Timing p) = ?f" by (cases ws) (simp_all add: split)
  obtain s' R' qs where s': "period_loop hook ?f ?s1 = Some s'" "rdy_inv L s' R'" "R' PeriodQ = Some (map Timing qs)"
      "due (lvalue (heap s')) 0 (map Timing qs) = requeue ?s1 ws (due ?w 0 (map Timing rs))" "running_thread s' = running_thread s"
      "\<forall>p \<in> set ws. threads s' p = next_run s p (threads s p)" "\<forall>p. p \<notin> set ws \<longrightarrow> threads s' p = threads s p"
    using period_loop_ok [OF s1 _ _ f(2) ws, of rs "Timing (hd ps)" hook] q(1) wok rp e
    unfolding start f(1) same split [symmetric] by auto
  have rq: "requeue ?s1 ws ds = requeue s ws ds" for ds by (simp add: requeue_def same)
  have "tick_head PeriodQ s = ?s1" using cd(2) by (auto simp: tick_head_def d_def set_value_def Let_def)
  then have "period_time_deal hook s = Some s'"
    using s'(1) cd(3,4) by (simp add: period_time_deal_def Let_def)
  then show ?thesis using s' split sp unfolding rq
    by (intro exI [of _ s'] exI [of _ R'] exI [of _ ws] exI [of _ rs] exI [of _ qs] conjI) simp_all
qed

text \<open>The example kernel in the tick interrupt, with two periodic threads of period 3, due in one and in five ticks.\<close>

definition ex_period :: kstate where
  "ex_period = ex_kernel\<lparr>heap := set_value (Timing 0x280) 4 (set_value (Timing 0x200) 1
     (insert_after (Timing 0x280) (Timing 0x200) (insert_after (Timing 0x200) PeriodQ ex_heap))), intr_nesting := (\<lambda>_. 1),
     periods := (\<lambda>_. \<lparr>pp_time = 3, pp_route = 0x1000, pp_args = 0\<rparr>)\<rparr>"

lemma ex_period_inv: "rdy_inv ex_live ex_period (ex_R(PeriodQ \<mapsto> map Timing [0x200, 0x280]))"
  unfolding ex_period_def
  using ex_two_queued [of PeriodQ "Timing 0x200" "Timing 0x280" 4 1] ex_free_other
  by (subst rdy_inv_cong [of _ "ex_kernel\<lparr>heap := set_value (Timing 0x280) 4 (set_value (Timing 0x200) 1
     (insert_after (Timing 0x280) (Timing 0x200) (insert_after (Timing 0x200) PeriodQ ex_heap)))\<rparr>"])
    (simp_all add: ex_R_def)

theorem period_tick_requeues_witness:
  "\<exists>s'. period_time_deal (\<lambda>_ _. Some) ex_period = Some s' \<and> threads s' 0x200 = next_run ex_period 0x200 (threads ex_period 0x200) \<and>
     threads s' 0x280 = threads ex_period 0x280 \<and>
     (\<exists>qs. due (lvalue (heap s')) 0 (map Timing qs) = [(Timing 0x200, 3), (Timing 0x280, 4)])"
proof -
  have v: "lvalue (heap ex_period) (Timing 0x200) = 1" "lvalue (heap ex_period) (Timing 0x280) = 4"
    "period_of ex_period p = 3" for p
    by (simp_all add: ex_period_def set_value_def period_of_def TIME_TO_TICKS_def CFG_TICKS_PER_SEC_def)
  have "ticks_ok (lvalue (heap ex_period)) (map Timing [0x200, 0x280])" by (simp add: ticks_ok_def v)
  moreover have "in_intr ex_period"
    by (simp add: ex_period_def in_intr_def hal_get_intr_nesting_def CFG_MAX_CPU_def)
  moreover have "\<forall>p \<in> set [0x200, 0x280]. periodic_here ex_live ex_period p"
    by (simp add: periodic_here_def v, simp add: ex_period_def ex_live_def ex_threads_def thread0_def)
  ultimately obtain s' ws rs qs where s: "period_time_deal (\<lambda>_ _. Some) ex_period = Some s'" "[0x200, 0x280] = ws @ rs"
      "\<forall>(x, t) \<in> set (take (length ws) [(Timing 0x200, 1), (Timing 0x280, 5::int)]). t = 1"
      "\<forall>(x, t) \<in> set (drop (length ws) [(Timing 0x200, 1), (Timing 0x280, 5::int)]). 1 < t"
      "due (lvalue (heap s')) 0 (map Timing qs) =
         requeue ex_period ws (map (\<lambda>(x, t). (x, t - 1)) (drop (length ws) [(Timing 0x200, 1), (Timing 0x280, 5::int)]))"
      "\<forall>p \<in> set ws. threads s' p = next_run ex_period p (threads ex_period p)"
      "\<forall>p. p \<notin> set ws \<longrightarrow> threads s' p = threads ex_period p"
    using period_tick_requeues [OF ex_period_inv, of "[0x200, 0x280]" "\<lambda>_ _. Some"] by (auto simp: v)
  obtain p rs' where "ws = p # rs'" using s(4) by (cases ws) auto
  moreover have "rs' = []" using s(2,3) calculation by (cases rs') auto
  ultimately have ws: "ws = [0x200]" using s(2) by simp
  show ?thesis
    using s(1,5-7) by (intro exI [of _ s'] conjI exI [of _ qs]) (simp_all add: ws requeue_def timed_ins_def v)
qed

end
