(* ===== verification/Pool_Props.thy ===== *)
theory Pool_Props
  imports Respool Thread_Props
begin

text \<open>
  Properties of the resource pools: the free resources of a pool are a stack of indices, an allocated resource is found again under
  its id, and releasing it puts it on top of the stack.
\<close>

section \<open>Outermost critical sections\<close>

text \<open>Nothing is to be scheduled, and the CPU is in no critical section.\<close>

definition quiet :: "kstate \<Rightarrow> bool" where
  "quiet s \<longleftrightarrow> critical_nesting s (current_cpu s) = 0 \<and> \<not> need_sched s (current_cpu s) \<and>
     \<not> sched_lock s (current_cpu s) \<and> \<not> intr_masked s (current_cpu s)"

lemma exit_quiet:
  assumes "quiet s" "current_cpu t = current_cpu s" "critical_nesting t = critical_nesting (acoral_enter_critical s)"
    "need_sched t = need_sched s" "sched_lock t = sched_lock (acoral_enter_critical s)"
    "intr_masked t = intr_masked (acoral_enter_critical s)"
  shows "acoral_exit_critical t =
    Some (t\<lparr>critical_nesting := critical_nesting s, intr_masked := intr_masked s, sched_lock := sched_lock s\<rparr>)"
proof -
  have "(f(c := a))(c := b) = f" if "f c = b" for f and c :: u32 and a b :: 'b using that by auto
  then show ?thesis
    using exit_outermost [of t] assms by (simp add: acoral_sched_def quiet_def) (simp add: leave_critical_def fun_upd_idem)
qed

section \<open>Words of resources\<close>

lemma pool_masks: "RES_INDEX_MASK = push_bit 14 (mask 10)" "POOL_INDEX_MASK = mask 10"
  by (simp_all add: RES_INDEX_MASK_def POOL_INDEX_MASK_def mask_eq_exp_minus_1 push_bit_eq_mult)

lemma bit_index:
  assumes "k < 1024" "bit (of_nat k :: u32) n"
  shows "n < 10"
proof -
  have "take_bit 10 (of_nat k :: u32) = of_nat k" using assms(1) by (simp add: take_bit_of_nat take_bit_nat_eq_self)
  then have "bit (take_bit 10 (of_nat k :: u32)) n" using assms(2) by simp
  then show ?thesis by (simp add: bit_take_bit_iff)
qed

text \<open>The id of resource \<open>k\<close>, from the word of a free resource and the id of the pool.\<close>

lemma res_id_fields:
  fixes w p :: u32
  assumes w: "drop_bit RES_INDEX_INIT_BIT w = of_nat k" "k < 1024" and p: "p AND RES_INDEX_MASK = 0"
  defines "v \<equiv> (drop_bit (RES_INDEX_INIT_BIT - RES_INDEX_BIT) w AND RES_INDEX_MASK) OR p"
  shows "v AND POOL_INDEX_MASK = p AND POOL_INDEX_MASK" "drop_bit RES_INDEX_BIT (v AND RES_INDEX_MASK) = of_nat k"
proof -
  have wk: "bit w (n + 16) = bit (of_nat k :: u32) n" for n
    using arg_cong [OF w(1), of "\<lambda>x. bit x n"] by (simp add: RES_INDEX_INIT_BIT_def bit_drop_bit_eq add.commute)
  have pn: "14 \<le> n \<Longrightarrow> n < 24 \<Longrightarrow> \<not> bit p n" for n
    using arg_cong [OF p, of "\<lambda>x. bit x n"] by (auto simp: pool_masks bit_simps)
  show "v AND POOL_INDEX_MASK = p AND POOL_INDEX_MASK"
    by (rule bit_word_eqI) (auto simp: v_def pool_masks bit_simps)
  show "drop_bit RES_INDEX_BIT (v AND RES_INDEX_MASK) = of_nat k"
  proof (rule bit_word_eqI)
    fix n assume "n < LENGTH(32)"
    have "bit w (16 + n) = bit (of_nat k :: u32) n" using wk [of n] by (simp add: add.commute)
    then show "bit (drop_bit RES_INDEX_BIT (v AND RES_INDEX_MASK)) n = bit (of_nat k :: u32) n"
      using bit_index [OF w(2), of n] pn [of "14 + n"]
      by (auto simp: v_def pool_masks bit_simps RES_INDEX_BIT_def RES_INDEX_INIT_BIT_def)
  qed
qed

section \<open>The free resources of a pool\<close>

definition res_at :: "pool \<Rightarrow> nat \<Rightarrow> ptr" where
  "res_at q k = (case base_adr q of PMem b \<Rightarrow> b + of_nat k * p_size q | _ \<Rightarrow> NULL)"

text \<open>The memory of the pool does not wrap around, its resources can be numbered in an id, and its id is that of pool \<open>i\<close>.\<close>

definition pool_shape :: "nat \<Rightarrow> pool \<Rightarrow> bool" where
  "pool_shape i q \<longleftrightarrow> i < ACORAL_MAX_POOLS \<and> p_id q AND POOL_INDEX_MASK = of_nat i \<and> p_id q AND RES_INDEX_MASK = 0 \<and>
     0 < p_size q \<and> unat (p_num q) \<le> 1024 \<and>
     (\<exists>b. base_adr q = PMem b \<and> unat b + unat (p_num q) * unat (p_size q) \<le> 2 ^ 32)"

text \<open>The words of free resources hold their own index and link them in the order of \<open>ks\<close>; what the last one points to is never
  used.\<close>

fun chain :: "(ptr \<Rightarrow> u32) \<Rightarrow> pool \<Rightarrow> nat list \<Rightarrow> bool" where
  "chain w q [] \<longleftrightarrow> True"
| "chain w q (k # ks) \<longleftrightarrow> drop_bit RES_INDEX_INIT_BIT (w (res_at q k)) = of_nat k \<and>
     (ks \<noteq> [] \<longrightarrow> next_id (w (res_at q k)) = of_nat (hd ks)) \<and> chain w q ks"

definition pool_free :: "kstate \<Rightarrow> nat \<Rightarrow> nat list \<Rightarrow> bool" where
  "pool_free s i ks \<longleftrightarrow> (let q = pools s i in pool_shape i q \<and> distinct ks \<and> (\<forall>k \<in> set ks. k < unat (p_num q)) \<and>
     p_free_num q = of_nat (length ks) \<and> (ks \<noteq> [] \<longrightarrow> res_free q = res_at q (hd ks)) \<and> chain (res_word s) q ks)"

lemma unat_res_at:
  assumes "pool_shape i q" "base_adr q = PMem b" "k < unat (p_num q)"
  shows "unat (res_at q k) = unat b + k * unat (p_size q)"
proof -
  have le: "unat b + unat (p_num q) * unat (p_size q) \<le> 2 ^ 32" "0 < unat (p_size q)"
    using assms(1,2) by (auto simp: pool_shape_def word_gt_0 unat_gt_0)
  have "Suc k * unat (p_size q) \<le> unat (p_num q) * unat (p_size q)" using assms(3) by (intro mult_le_mono1) simp
  then have b: "unat b + k * unat (p_size q) < 2 ^ 32" using le by (simp del: power.simps)
  have "res_at q k = of_nat (unat b + k * unat (p_size q))" using assms(2) by (simp add: res_at_def)
  then show ?thesis using b by (simp only: unat_of_nat len_num1 len_num0 len_bit0) simp
qed

lemma res_at_inj:
  assumes "pool_shape i q" "k < unat (p_num q)" "l < unat (p_num q)" "res_at q k = res_at q l"
  shows "k = l"
proof -
  obtain b where "base_adr q = PMem b" using assms(1) by (auto simp: pool_shape_def)
  then have "k * unat (p_size q) = l * unat (p_size q)"
    using unat_res_at [OF assms(1), of b] assms(2-4) by (metis add_left_cancel)
  moreover have "0 < unat (p_size q)" using assms(1) by (auto simp: pool_shape_def unat_gt_0)
  ultimately show ?thesis by simp
qed

text \<open>The index is found again from the address.\<close>

lemma res_index:
  assumes "pool_shape i q" "base_adr q = PMem b" "k < unat (p_num q)"
  shows "b \<le> res_at q k" "(res_at q k - b) div p_size q = of_nat k" "of_nat k < p_num q"
proof -
  have u: "unat (res_at q k) = unat b + k * unat (p_size q)" by (rule unat_res_at [OF assms])
  then show le: "b \<le> res_at q k" by (simp add: word_le_nat_alt)
  have "unat (res_at q k - b) = k * unat (p_size q)" using u le by (simp add: unat_sub)
  moreover have "0 < unat (p_size q)" using assms(1) by (auto simp: pool_shape_def unat_gt_0)
  ultimately have "unat ((res_at q k - b) div p_size q) = k" by (simp add: unat_div)
  from arg_cong [OF this, of "of_nat :: nat \<Rightarrow> u32"] show "(res_at q k - b) div p_size q = of_nat k" by simp
  have "k < 1024" using assms(1,3) by (simp add: pool_shape_def)
  then have "unat (of_nat k :: u32) = k" by (simp add: unat_of_nat take_bit_nat_eq_self)
  then show "of_nat k < p_num q" using assms(3) by (simp add: word_less_nat_alt)
qed

lemma chain_cong: "(\<And>k. k \<in> set ks \<Longrightarrow> w (res_at q k) = w' (res_at q k)) \<Longrightarrow> res_at q' = res_at q \<Longrightarrow> chain w q ks = chain w' q' ks"
  by (induction ks) auto

section \<open>Taking a resource\<close>

text \<open>The pool without its first free resource, and the id of that resource.\<close>

definition pool_took :: "pool \<Rightarrow> u32 \<Rightarrow> pool" where
  "pool_took q w = q\<lparr>res_free := res_at q (unat (next_id w)), p_free_num := p_free_num q - 1\<rparr>"

definition took_id :: "pool \<Rightarrow> u32 \<Rightarrow> u32" where
  "took_id q w = (drop_bit (RES_INDEX_INIT_BIT - RES_INDEX_BIT) w AND RES_INDEX_MASK) OR p_id q"

lemma pool_took_simps [simp]:
  "base_adr (pool_took q w) = base_adr q" "p_size (pool_took q w) = p_size q" "p_num (pool_took q w) = p_num q"
  "p_id (pool_took q w) = p_id q" "p_ctrl (pool_took q w) = p_ctrl q" "p_free_num (pool_took q w) = p_free_num q - 1"
  "res_free (pool_took q w) = res_at q (unat (next_id w))"
  by (simp_all add: pool_took_def)

lemma res_at_took [simp]: "res_at (pool_took q w) = res_at q" "pool_shape i (pool_took q w) = pool_shape i q"
  by (auto simp: res_at_def pool_shape_def fun_eq_iff split: pool_adr.splits)

lemma pool_freeD:
  assumes "pool_free s i ks"
  shows "pool_shape i (pools s i)" "distinct ks" "k \<in> set ks \<Longrightarrow> k < unat (p_num (pools s i))" "k \<in> set ks \<Longrightarrow> k < 1024"
    "p_free_num (pools s i) = of_nat (length ks)" "ks \<noteq> [] \<Longrightarrow> res_free (pools s i) = res_at (pools s i) (hd ks)"
    "chain (res_word s) (pools s i) ks" "length ks \<le> 1024"
proof -
  note d = assms [unfolded pool_free_def Let_def]
  show "pool_shape i (pools s i)" "distinct ks" "k \<in> set ks \<Longrightarrow> k < unat (p_num (pools s i))"
    "p_free_num (pools s i) = of_nat (length ks)" "ks \<noteq> [] \<Longrightarrow> res_free (pools s i) = res_at (pools s i) (hd ks)"
    "chain (res_word s) (pools s i) ks"
    using d by blast+
  have n: "unat (p_num (pools s i)) \<le> 1024" using d by (simp add: pool_shape_def)
  then show "k \<in> set ks \<Longrightarrow> k < 1024" using d by auto
  have "set ks \<subseteq> {..<1024}" using d n by force
  then have "card (set ks) \<le> 1024" using card_mono [of "{..<1024::nat}" "set ks"] by simp
  then show "length ks \<le> 1024" using d by (simp add: distinct_card)
qed

lemma take_pool_free:
  assumes pf: "pool_free s i (k # ks)"
  defines "q \<equiv> pools s i" and "p \<equiv> res_at (pools s i) k"
  assumes s': "pools s' i = pool_took q (res_word s p)" "res_word s' = (res_word s)(p := took_id q (res_word s p))"
  shows "pool_free s' i ks" "acoral_get_res_by_id (res_word s' p) s' = Some p"
proof -
  note d = pool_freeD [OF pf, folded q_def]
  let ?w = "res_word s p"
  have ch: "drop_bit RES_INDEX_INIT_BIT ?w = of_nat k" "ks \<noteq> [] \<Longrightarrow> next_id ?w = of_nat (hd ks)" "chain (res_word s) q ks"
    using d(7) by (auto simp: p_def q_def)
  have nk: "res_at q l \<noteq> p" if "l \<in> set ks" for l
    using res_at_inj [OF d(1) d(3) [of l] d(3) [of k]] that d(2) by (auto simp: p_def q_def)
  have "chain (res_word s') (pools s' i) ks = chain (res_word s) q ks"
    by (rule chain_cong) (use nk in \<open>auto simp: s'\<close>)
  moreover have "res_free (pools s' i) = res_at q (hd ks)" if "ks \<noteq> []"
    using d(4) [of "hd ks"] ch(2) that by (simp add: s'(1) unat_of_nat take_bit_nat_eq_self)
  moreover have "p_free_num (pools s' i) = of_nat (length ks)" using d(5) by (simp add: s'(1))
  moreover have "p_num (pools s' i) = p_num q" by (simp add: s'(1))
  ultimately show "pool_free s' i ks"
    using d(1,2) d(3) ch(3) unfolding pool_free_def Let_def by (auto simp: s'(1))
  have sh: "i < ACORAL_MAX_POOLS" "p_id q AND POOL_INDEX_MASK = of_nat i" "p_id q AND RES_INDEX_MASK = 0"
    using d(1) by (simp_all add: pool_shape_def)
  obtain b where b: "base_adr q = PMem b" using d(1) by (auto simp: pool_shape_def)
  have f: "res_word s' p AND POOL_INDEX_MASK = of_nat i" "drop_bit RES_INDEX_BIT (res_word s' p AND RES_INDEX_MASK) = of_nat k"
    using res_id_fields [OF ch(1) d(4) sh(3)] sh(2) by (simp_all add: s'(2) took_id_def)
  have "unat (of_nat i :: u32) = i" using sh(1) by (simp add: ACORAL_MAX_POOLS_def unat_of_nat take_bit_nat_eq_self)
  then have "acoral_get_pool_by_id (res_word s' p) = Some i"
    using sh(1) by (simp add: acoral_get_pool_by_id_def f(1))
  then show "acoral_get_res_by_id (res_word s' p) s' = Some p"
    unfolding acoral_get_res_by_id_def f(2) using b by (simp add: s'(1) p_def res_at_def q_def)
qed

text \<open>The list of pools with free resources after a resource of the first one has been taken.\<close>

definition free_pools_took :: "nat \<Rightarrow> nat list \<Rightarrow> knode list \<Rightarrow> knode list" where
  "free_pools_took i ks fs = (if ks = [] then fs else FreeL i # fs)"

definition took :: "kstate \<Rightarrow> nat \<Rightarrow> nat \<Rightarrow> knode lheap \<Rightarrow> kstate \<Rightarrow> bool" where
  "took s i k h s' \<longleftrightarrow> (let q = pools s i; p = res_at q k in
     s' = s\<lparr>res_word := (res_word s)(p := took_id q (res_word s p)), pools := (pools s)(i := pool_took q (res_word s p)), heap := h\<rparr>)"

lemma take_res_eq:
  assumes pf: "pool_free s i (k # ks)" and h: "if ks = [] then acoral_list_del (FreeL i) (heap s) = Some h else h = heap s"
  shows "\<exists>s'. take_res i s = Some (res_at (pools s i) k, s') \<and> took s i k h s'"
proof -
  note d = pool_freeD [OF pf]
  obtain b where b: "base_adr (pools s i) = PMem b" using d(1) by (auto simp: pool_shape_def)
  have n: "p_free_num (pools s i) - 1 = of_nat (length ks)" using d(5) by simp
  have "length ks \<le> 1024" using d(8) by simp
  then have z: "(of_nat (length ks) :: u32) = 0 \<longleftrightarrow> ks = []" by (simp add: word_unat_eq_iff unat_of_nat take_bit_nat_eq_self)
  have nx: "b + ucast (next_id w) * p_size (pools s i) = res_at (pools s i) (unat (next_id w))" for w
    using b by (simp add: res_at_def)
  have one: "p_free_num (pools s i) = 1 \<longleftrightarrow> ks = []" using z n by (metis right_minus_eq)
  have hp: "s\<lparr>res_word := w, pools := q\<rparr> = s\<lparr>res_word := w, pools := q, heap := heap s\<rparr>" for w q by (cases s) simp
  show ?thesis
    using d(6) b h one hp
    by (cases "ks = []") (simp_all add: take_res_def took_def Let_def upd_pool_def set_res_def n nx pool_took_def took_id_def on_heap_def)
qed

lemma took_fields:
  assumes "took s i k h s'"
  shows "heap s' = h" "pools s' i = pool_took (pools s i) (res_word s (res_at (pools s i) k))" "j \<noteq> i \<Longrightarrow> pools s' j = pools s j"
    "res_word s' = (res_word s)(res_at (pools s i) k := took_id (pools s i) (res_word s (res_at (pools s i) k)))"
    "threads s' = threads s" "current_cpu s' = current_cpu s" "running_thread s' = running_thread s" "ctrls s' = ctrls s"
    "critical_nesting s' = critical_nesting s" "need_sched s' = need_sched s" "sched_lock s' = sched_lock s"
    "intr_masked s' = intr_masked s" "intr_nesting s' = intr_nesting s" "sched_enable s' = sched_enable s"
    "rdy_bitmap s' = rdy_bitmap s" "rdy_num s' = rdy_num s" "ipcs s' = ipcs s" "mem s' = mem s"
  using assms by (simp_all add: took_def Let_def)

text \<open>What \<open>acoral_get_res\<close> leaves unchanged.\<close>

definition res_frame :: "kstate \<Rightarrow> kstate \<Rightarrow> bool" where
  "res_frame s s' \<longleftrightarrow> threads s' = threads s \<and> current_cpu s' = current_cpu s \<and> running_thread s' = running_thread s \<and>
     ctrls s' = ctrls s \<and> critical_nesting s' = critical_nesting s \<and> need_sched s' = need_sched s \<and>
     sched_lock s' = sched_lock s \<and> intr_masked s' = intr_masked s \<and> intr_nesting s' = intr_nesting s \<and>
     sched_enable s' = sched_enable s \<and> rdy_bitmap s' = rdy_bitmap s \<and> rdy_num s' = rdy_num s \<and> ipcs s' = ipcs s \<and>
     mem s' = mem s"

lemma get_res_took:
  assumes q: "quiet s" and c: "\<not> c_lock (ctrls s c)" and R: "rings (heap s) R" "R (FreePools c) = Some (FreeL i # fs)"
    and pf: "pool_free s i (k # ks)"
  defines "p \<equiv> res_at (pools s i) k"
  shows "\<exists>s'. acoral_get_res c s = Some (p, s') \<and> pool_free s' i ks \<and> acoral_get_res_by_id (res_word s' p) s' = Some p \<and>
    rings (heap s') (R(FreePools c \<mapsto> free_pools_took i ks fs)) \<and> lvalue (heap s') = lvalue (heap s) \<and> qlock (heap s') = qlock (heap s) \<and>
    (ks = [] \<longrightarrow> unlinked (FreeL i) (heap s') \<and> free_node (R(FreePools c \<mapsto> fs)) (FreeL i)) \<and>
    res_frame s s' \<and> (\<forall>j. j \<noteq> i \<longrightarrow> pools s' j = pools s j) \<and> (\<forall>a. a \<noteq> p \<longrightarrow> res_word s' a = res_word s a) \<and>
    res_word s' p = took_id (pools s i) (res_word s p) \<and> pools s' i = pool_took (pools s i) (res_word s p)"
proof -
  let ?e = "upd_ctrl c (c_lock_update (\<lambda>_. True)) (acoral_enter_critical s)"
  let ?h = "if ks = [] then unlink (FreeL i) (heap s) else heap s"
  have R2: "R (FreePools c) = Some ([] @ FreeL i # fs)" using R(2) by simp
  note rg = ringsD [OF R(1) R(2)]
  have e: "heap ?e = heap s" "pools ?e = pools s" "res_word ?e = res_word s" by (simp_all add: upd_ctrl_def)
  have pfe: "pool_free ?e i (k # ks)" using pf by (simp add: pool_free_def e)
  have he: "if ks = [] then acoral_list_del (FreeL i) (heap ?e) = Some ?h else ?h = heap ?e"
    using list_del_rings [OF R(1) R2] by (simp add: e)
  obtain t where t: "take_res i ?e = Some (p, t)" "took ?e i k ?h t"
    using take_res_eq [OF pfe he] by (auto simp: e p_def)
  note tf = took_fields [OF t(2)]
  let ?u = "ctrl_unlock c t"
  let ?s = "?u\<lparr>critical_nesting := critical_nesting s, intr_masked := intr_masked s, sched_lock := sched_lock s\<rparr>"
  have ex: "acoral_exit_critical ?u = Some ?s"
    by (rule exit_quiet [OF q]) (simp_all add: ctrl_unlock_def upd_ctrl_def tf)
  have nx: "lnext (heap s) (FreePools c) = FreeL i" "\<not> acoral_list_empty (FreeL i) (heap s)"
    using ring_next_head [OF rg] ring_next [of _ _ "[]", simplified, OF rg] rg by (auto simp: acoral_list_empty_def ring_def split: list.splits)
  have lk: "ctrl_lock c (acoral_enter_critical s) = Some ?e"
    using c by (simp add: ctrl_lock_def acoral_enter_critical_def hal_intr_disable_save_def Let_def)
  have cl: "(ctrls s)(c := (ctrls s c)\<lparr>c_lock := False\<rparr>) = ctrls s" using c by (simp add: fun_upd_idem)
  have "acoral_get_res c s = Some (p, ?s)" using t(1) ex nx lk by (simp add: acoral_get_res_def e)
  moreover have "pool_free ?s i ks" "acoral_get_res_by_id (res_word ?s p) ?s = Some p"
    using take_pool_free [OF pf, of ?s] by (simp_all add: ctrl_unlock_def upd_ctrl_def tf e p_def)
  moreover have "rings (heap ?s) (R(FreePools c \<mapsto> free_pools_took i ks fs))"
    using rings_unlink [OF R(1) R2] R by (auto simp: ctrl_unlock_def upd_ctrl_def tf free_pools_took_def fun_upd_idem)
  moreover have "ks = [] \<longrightarrow> unlinked (FreeL i) (heap ?s) \<and> free_node (R(FreePools c \<mapsto> fs)) (FreeL i)"
    using rings_unlink_free [OF R(1) R2] by (auto simp: ctrl_unlock_def upd_ctrl_def tf unlinked_def unlink_def)
  moreover have "res_frame s ?s"
    using cl by (simp add: res_frame_def ctrl_unlock_def upd_ctrl_def tf) (simp add: acoral_enter_critical_def hal_intr_disable_save_def Let_def)
  ultimately show ?thesis
    by (intro exI [of _ ?s] conjI) (simp_all add: ctrl_unlock_def upd_ctrl_def tf e p_def)
qed

section \<open>Releasing a resource\<close>

lemma high_mask: "(0xFFFF0000 :: u32) = push_bit 16 (mask 16)"
  by (simp add: mask_eq_exp_minus_1 push_bit_eq_mult)

lemma free_word:
  assumes "k < 1024"
  shows "drop_bit RES_INDEX_INIT_BIT (set_next_id n (push_bit RES_INDEX_INIT_BIT (of_nat k :: u32))) = of_nat k"
    "next_id (set_next_id n w) = n"
proof -
  show "next_id (set_next_id n w) = n"
    by (rule bit_word_eqI) (auto simp: next_id_def set_next_id_def high_mask bit_simps)
  show "drop_bit RES_INDEX_INIT_BIT (set_next_id n (push_bit RES_INDEX_INIT_BIT (of_nat k :: u32))) = of_nat k"
  proof (rule bit_word_eqI)
    fix m assume "m < LENGTH(32)"
    show "bit (drop_bit RES_INDEX_INIT_BIT (set_next_id n (push_bit RES_INDEX_INIT_BIT (of_nat k :: u32)))) m = bit (of_nat k :: u32) m"
      using bit_index [OF assms, of m] bit_imp_le_length [of n "16 + m"]
      by (auto simp: set_next_id_def high_mask RES_INDEX_INIT_BIT_def bit_simps)
  qed
qed

text \<open>The pool with resource \<open>p\<close> put back.\<close>

definition pool_put :: "pool \<Rightarrow> ptr \<Rightarrow> pool" where
  "pool_put q p = q\<lparr>res_free := p, p_free_num := p_free_num q + 1\<rparr>"

lemma pool_put_simps [simp]:
  "base_adr (pool_put q p) = base_adr q" "p_size (pool_put q p) = p_size q" "p_num (pool_put q p) = p_num q"
  "p_id (pool_put q p) = p_id q" "p_ctrl (pool_put q p) = p_ctrl q" "p_free_num (pool_put q p) = p_free_num q + 1"
  "res_free (pool_put q p) = p"
  by (simp_all add: pool_put_def)

lemma res_at_put [simp]: "res_at (pool_put q p) = res_at q" "pool_shape i (pool_put q p) = pool_shape i q"
  by (auto simp: res_at_def pool_shape_def fun_eq_iff split: pool_adr.splits)

lemma ring_member_linked: "ring h q xs \<Longrightarrow> x \<in> set xs \<Longrightarrow> lnext h x \<noteq> x"
proof -
  assume r: "ring h q xs" and "x \<in> set xs"
  then obtain ys zs where xs: "xs = ys @ x # zs" by (auto simp: in_set_conv_decomp)
  have "distinct (q # xs)" using r by (simp add: ring_def)
  then show ?thesis using ring_next [of h q ys x zs] r by (auto simp: xs split: list.splits)
qed

lemma put_pool_free:
  assumes pf: "pool_free s i ks" and k: "k < unat (p_num (pools s i))" "k \<notin> set ks"
  defines "q \<equiv> pools s i" and "p \<equiv> res_at (pools s i) k"
  assumes s': "pools s' i = pool_put q p"
    "res_word s' = (res_word s)(p := set_next_id n (push_bit RES_INDEX_INIT_BIT (of_nat k)))" "ks \<noteq> [] \<Longrightarrow> n = of_nat (hd ks)"
  shows "pool_free s' i (k # ks)"
proof -
  note d = pool_freeD [OF pf, folded q_def]
  have nk: "res_at q l \<noteq> p" if "l \<in> set ks" for l
    using res_at_inj [OF d(1) d(3) [OF that] k(1) [folded q_def]] that k(2) by (auto simp: p_def q_def)
  have k1024: "k < 1024" using d(1) k(1) by (simp add: pool_shape_def q_def)
  have "chain (res_word s') (pools s' i) ks = chain (res_word s) q ks"
    by (rule chain_cong) (use nk in \<open>auto simp: s'\<close>)
  then have "chain (res_word s') (pools s' i) (k # ks)"
    using d(7) free_word [OF k1024] s'(3) by (simp add: s'(1,2)) (simp add: p_def q_def)
  then show ?thesis
    using d(1,2,3,5) k unfolding pool_free_def Let_def by (auto simp: s'(1) p_def q_def)
qed

lemma release_res_put:
  assumes R: "rings (heap s) R" "R (FreePools c) = Some fs" "\<not> qlock (heap s) (FreePools c)"
    and pf: "pool_free s i ks" and k: "k < unat (p_num (pools s i))" "k \<notin> set ks"
    and c: "c = p_ctrl (pools s i)" "\<not> c_lock (ctrls s c)"
  defines "p \<equiv> res_at (pools s i) k"
  assumes idw: "res_word s p AND POOL_INDEX_MASK = of_nat i"
    and fl: "if ks = [] then unlinked (FreeL i) (heap s) \<and> free_node R (FreeL i) else FreeL i \<in> set fs"
  shows "\<exists>s'. acoral_release_res p s = Some s' \<and> pool_free s' i (k # ks) \<and>
    rings (heap s') (R(FreePools c \<mapsto> (if ks = [] then fs @ [FreeL i] else fs))) \<and> res_frame s s' \<and>
    lvalue (heap s') = lvalue (heap s) \<and> qlock (heap s') = qlock (heap s) \<and>
    (\<forall>j. j \<noteq> i \<longrightarrow> pools s' j = pools s j) \<and> (\<forall>a. a \<noteq> p \<longrightarrow> res_word s' a = res_word s a)"
proof -
  let ?q = "pools s i"
  note d = pool_freeD [OF pf]
  obtain b where b: "base_adr ?q = PMem b" using d(1) by (auto simp: pool_shape_def)
  have i: "i < ACORAL_MAX_POOLS" using d(1) by (simp add: pool_shape_def)
  then have "unat (of_nat i :: u32) = i" by (simp add: ACORAL_MAX_POOLS_def unat_of_nat take_bit_nat_eq_self)
  then have pl: "acoral_get_pool_by_id (res_word s p) = Some i" using i by (simp add: acoral_get_pool_by_id_def idw)
  note ix = res_index [OF d(1) b k(1), folded p_def]
  obtain h where h: "(if acoral_list_empty (FreeL i) (heap s) then acoral_fifo_queue_add (FreePools c) (FreeL i) (heap s) else Some (heap s)) = Some h"
      "rings h (R(FreePools c \<mapsto> (if ks = [] then fs @ [FreeL i] else fs)))" "lvalue h = lvalue (heap s)" "qlock h = qlock (heap s)"
  proof (cases "ks = []")
    case True
    then show ?thesis using that fl fifo_add_rings [OF R] by (auto simp: acoral_list_empty_def unlinked_def)
  next
    case False
    have "\<not> acoral_list_empty (FreeL i) (heap s)"
      using fl False ring_member_linked [OF ringsD [OF R(1,2)]] by (simp add: acoral_list_empty_def)
    then show ?thesis using that [of "heap s"] R False by (simp add: fun_upd_idem)
  qed
  define n :: u16 where "n = ucast (drop_bit RES_INDEX_INIT_BIT (((res_word s)(p := push_bit RES_INDEX_INIT_BIT (of_nat k))) (res_free ?q)))"
  let ?w = "(res_word s)(p := set_next_id n (push_bit RES_INDEX_INIT_BIT (of_nat k)))"
  let ?s = "s\<lparr>pools := (pools s)(i := pool_put ?q p), res_word := ?w, heap := h\<rparr>"
  have nk: "res_free ?q \<noteq> p" if "ks \<noteq> []"
    using res_at_inj [OF d(1) d(3) [of "hd ks"] k(1)] d(6) k(2) that by (auto simp: p_def)
  have "n = of_nat (hd ks)" if "ks \<noteq> []"
    using d(6,7) nk that d(4) [of "hd ks"] by (cases ks) (auto simp: n_def p_def unsigned_of_nat take_bit_nat_eq_self)
  then have "pool_free ?s i (k # ks)" using put_pool_free [OF pf k, of ?s n] by (simp add: p_def)
  moreover have "acoral_release_res p s = Some ?s"
    unfolding n_def using pl b ix h(1) c
    by (cases "acoral_list_empty (FreeL i) (heap s)")
      (simp_all add: acoral_release_res_def ctrl_lock_def Let_def upd_ctrl_def upd_pool_def set_res_def on_heap_def ctrl_unlock_def
        pool_put_def not_le not_less fun_upd_idem kstate.equality)
  moreover have "res_frame s ?s" by (simp add: res_frame_def)
  ultimately show ?thesis using h(2-4) by (intro exI [of _ ?s] conjI) simp_all
qed

section \<open>Allocation and release\<close>

lemma took_pool_index:
  assumes "pool_free s i (k # ks)" "res_word s' p = took_id (pools s i) (res_word s (res_at (pools s i) k))"
  shows "res_word s' p AND POOL_INDEX_MASK = of_nat i"
proof -
  note d = pool_freeD [OF assms(1)]
  have "drop_bit RES_INDEX_INIT_BIT (res_word s (res_at (pools s i) k)) = of_nat k" using d(7) by simp
  from res_id_fields(1) [OF this d(4), of "p_id (pools s i)"] show ?thesis
    using d(1) by (simp add: assms(2) took_id_def pool_shape_def)
qed

text \<open>C15. The free resources of a pool are a stack. With a free pool first in the list of free pools, \<open>acoral_get_res\<close> returns its
  top resource and removes it from the stack (the pool leaves the list when it has no other), its id leads back to its address,
  and no other resource, pool, thread or object changes. \<open>acoral_release_res\<close> puts it back on top; a pool that had left the list
  comes back at its end.\<close>

theorem res_pool_roundtrip:
  assumes q: "quiet s" and c: "\<not> c_lock (ctrls s c)" "p_ctrl (pools s i) = c"
    and R: "rings (heap s) R" "R (FreePools c) = Some (FreeL i # fs)" "\<not> qlock (heap s) (FreePools c)"
    and pf: "pool_free s i (k # ks)"
  defines "p \<equiv> res_at (pools s i) k"
  shows "\<exists>s' s''. acoral_get_res c s = Some (p, s') \<and> pool_free s' i ks \<and>
    rings (heap s') (R(FreePools c \<mapsto> free_pools_took i ks fs)) \<and> acoral_get_res_by_id (res_word s' p) s' = Some p \<and>
    (\<forall>j. j \<noteq> i \<longrightarrow> pools s' j = pools s j) \<and> (\<forall>a. a \<noteq> p \<longrightarrow> res_word s' a = res_word s a) \<and> res_frame s s' \<and>
    acoral_release_res p s' = Some s'' \<and> pool_free s'' i (k # ks) \<and>
    rings (heap s'') (R(FreePools c \<mapsto> (if ks = [] then fs @ [FreeL i] else FreeL i # fs))) \<and> res_frame s s''"
proof -
  obtain s' where s': "acoral_get_res c s = Some (p, s')" "pool_free s' i ks" "acoral_get_res_by_id (res_word s' p) s' = Some p"
      "rings (heap s') (R(FreePools c \<mapsto> free_pools_took i ks fs))" "qlock (heap s') = qlock (heap s)"
      "ks = [] \<longrightarrow> unlinked (FreeL i) (heap s') \<and> free_node (R(FreePools c \<mapsto> fs)) (FreeL i)" "res_frame s s'"
      "\<forall>j. j \<noteq> i \<longrightarrow> pools s' j = pools s j" "\<forall>a. a \<noteq> p \<longrightarrow> res_word s' a = res_word s a"
      "res_word s' p = took_id (pools s i) (res_word s p)" "pools s' i = pool_took (pools s i) (res_word s p)"
    using get_res_took [OF q c(1) R(1,2) pf] unfolding p_def by blast
  have at: "res_at (pools s' i) k = p" by (simp add: s'(11) p_def)
  have k: "k < unat (p_num (pools s' i))" "k \<notin> set ks" using pool_freeD(2,3) [OF pf] by (simp_all add: s'(11))
  have "res_word s' p AND POOL_INDEX_MASK = of_nat i" by (rule took_pool_index [OF pf]) (use s'(10) in \<open>simp add: p_def\<close>)
  moreover have "if ks = [] then unlinked (FreeL i) (heap s') \<and> free_node (R(FreePools c \<mapsto> free_pools_took i ks fs)) (FreeL i)
      else FreeL i \<in> set (free_pools_took i ks fs)"
    using s'(6) by (simp add: free_pools_took_def)
  moreover have "\<not> qlock (heap s') (FreePools c)" "c = p_ctrl (pools s' i)" "\<not> c_lock (ctrls s' c)"
    using R(3) c s'(7) by (simp_all add: s'(5,11) res_frame_def)
  ultimately obtain s'' where "acoral_release_res p s' = Some s''" "pool_free s'' i (k # ks)"
      "rings (heap s'') (R(FreePools c \<mapsto> (if ks = [] then fs @ [FreeL i] else FreeL i # fs)))" "res_frame s' s''"
    using release_res_put [OF s'(4) _ _ s'(2) k, of c] unfolding at by (auto simp: free_pools_took_def split: if_splits)
  moreover have "res_frame s s''" using calculation(4) s'(7) by (simp add: res_frame_def)
  ultimately show ?thesis using s' by blast
qed

text \<open>The example kernel with a pool of two thread control blocks of 32 bytes at \<open>0x1000\<close>, both free.\<close>

definition ex_pool0 :: pool where
  "ex_pool0 = \<lparr>base_adr = PMem 0x1000, res_free = 0x1000, p_id = 0x400, p_size = 0x20, p_num = 2, p_free_num = 2, p_ctrl = ThreadCtrl,
     p_lock = False\<rparr>"

definition ex_pool :: kstate where
  "ex_pool = ex_kernel\<lparr>heap := insert_after (FreeL 0) (FreePools ThreadCtrl) ex_heap, pools := (pools ex_kernel)(0 := ex_pool0),
     res_word := (res_word ex_kernel)(0x1000 := 1, 0x1020 := 0x10000)\<rparr>"

definition ex_pool_R :: "knode \<rightharpoonup> knode list" where
  "ex_pool_R = ex_R(FreePools ThreadCtrl \<mapsto> [FreeL 0])"

lemma ex_pool_free: "pool_free ex_pool 0 [0, 1]"
proof -
  have [simp]: "res_at ex_pool0 0 = 0x1000" "res_at ex_pool0 1 = 0x1020" "res_at ex_pool0 (Suc 0) = 0x1020"
    by (simp_all add: res_at_def ex_pool0_def)
  have "pool_shape 0 ex_pool0"
    by (simp add: pool_shape_def ex_pool0_def POOL_INDEX_MASK_def RES_INDEX_MASK_def ACORAL_MAX_POOLS_def)
  moreover have "drop_bit RES_INDEX_INIT_BIT (1 :: u32) = 0" "drop_bit RES_INDEX_INIT_BIT (0x10000 :: u32) = 1" "next_id 1 = 1"
    by (simp_all add: RES_INDEX_INIT_BIT_def next_id_def)
  ultimately show ?thesis by (simp add: pool_free_def ex_pool_def) (simp add: ex_pool0_def)
qed

lemma ex_pool_inv: "rdy_inv ex_live ex_pool ex_pool_R"
proof -
  let ?q = "FreePools ThreadCtrl"
  have fr: "free_node ex_R ?q" "free_node ex_R (FreeL 0)" "ex_R ?q = None"
    using ex_free by (fastforce simp: free_node_def ex_R_def split: knode.splits)+
  have "acoral_list_init ?q ex_heap = ex_heap"
    by (simp add: acoral_list_init_def heap_upd_defs ex_heap_def fun_upd_idem_iff)
  then have r0: "rings ex_heap (ex_R(?q \<mapsto> []))" using list_init_rings(1) [OF ex_rings fr(3,1)] by simp
  have q0: "(ex_R(?q \<mapsto> [])) ?q = Some ([] @ [])" by simp
  have "free_node (ex_R(?q \<mapsto> [])) (FreeL 0)" by (rule free_node_upd [OF fr(2)]) simp_all
  from rings_insert [OF r0 q0 this] have r: "rings (insert_after (FreeL 0) ?q ex_heap) ex_pool_R" by (simp add: ex_pool_R_def)
  have "rdy_inv ex_live (ex_kernel\<lparr>heap := insert_after (FreeL 0) ?q ex_heap\<rparr>) ex_pool_R"
    unfolding ex_pool_R_def by (rule rdy_inv_other [OF ex_inv r [unfolded ex_pool_R_def]]) (simp_all add: insert_after_def ex_heap_def)
  then show ?thesis
    by (subst rdy_inv_cong [of _ "ex_kernel\<lparr>heap := insert_after (FreeL 0) ?q ex_heap\<rparr>"]) (simp_all add: ex_pool_def)
qed

theorem res_pool_roundtrip_witness:
  "\<exists>s' s''. acoral_get_res ThreadCtrl ex_pool = Some (0x1000, s') \<and> acoral_get_res_by_id (res_word s' 0x1000) s' = Some 0x1000 \<and>
     pool_free s' 0 [1] \<and> acoral_release_res 0x1000 s' = Some s'' \<and> pool_free s'' 0 [0, 1]"
proof -
  have p: "pools ex_pool 0 = ex_pool0" "res_at ex_pool0 0 = 0x1000" "p_ctrl (pools ex_pool 0) = ThreadCtrl"
    by (simp_all add: ex_pool_def res_at_def ex_pool0_def)
  have "quiet ex_pool" "\<not> c_lock (ctrls ex_pool ThreadCtrl)" "ex_pool_R (FreePools ThreadCtrl) = Some [FreeL 0]"
    by (simp_all add: quiet_def ex_pool_def ex_kernel_def ex_pool_R_def)
  then show ?thesis
    using res_pool_roundtrip [OF _ _ p(3) rdy_invD(1) [OF ex_pool_inv] _ rdy_invD(2) [OF ex_pool_inv] ex_pool_free] p(1,2) by auto
qed

section \<open>Memory of the kernel while nothing is to be scheduled\<close>

text \<open>What a request takes from the heap while no other CPU holds its lock: the block, or NULL, and the heap afterwards.\<close>

definition block_for :: "u32 \<Rightarrow> buddy \<Rightarrow> (ptr \<times> buddy) option" where
  "block_for sz b =
     (if \<not> mem_ok b then Some (NULL, b)
      else do {
        (num, l) \<leftarrow> level_loop sz 1 0 BLOCK_SIZE;
        if num > free_num b \<or> unat l \<ge> level b then Some (NULL, b)
        else if mem_lock b then None
        else do {
          (n, b) \<leftarrow> buddy_take (unat l) (b\<lparr>mem_lock := True\<rparr>);
          Some (start_adr b + of_int (n * 2 ^ BLOCK_SHIFT), b\<lparr>mem_lock := False\<rparr>)
        }
      })"

lemma buddy_malloc_quiet:
  assumes "quiet s" "block_for sz (mem s) = Some (a, m)"
  shows "buddy_malloc sz s = Some (a, s\<lparr>mem := m\<rparr>)"
proof -
  have e: "mem (acoral_enter_critical s) = mem s" by (simp add: acoral_enter_critical_def hal_intr_disable_save_def Let_def)
  have x: "acoral_exit_critical (mem_lock_free ((acoral_enter_critical s)\<lparr>mem := b\<rparr>)) = Some (s\<lparr>mem := b\<lparr>mem_lock := False\<rparr>\<rparr>)" for b
  proof -
    let ?e = "mem_lock_free ((acoral_enter_critical s)\<lparr>mem := b\<rparr>)"
    have "acoral_exit_critical ?e = Some (?e\<lparr>critical_nesting := critical_nesting s, intr_masked := intr_masked s, sched_lock := sched_lock s\<rparr>)"
      by (rule exit_quiet [OF assms(1)]) (simp_all add: mem_lock_free_def acoral_enter_critical_def hal_intr_disable_save_def Let_def)
    also have "?e\<lparr>critical_nesting := critical_nesting s, intr_masked := intr_masked s, sched_lock := sched_lock s\<rparr> = s\<lparr>mem := b\<lparr>mem_lock := False\<rparr>\<rparr>"
      by (rule kstate.equality) (simp_all add: mem_lock_free_def acoral_enter_critical_def hal_intr_disable_save_def Let_def)
    finally show ?thesis .
  qed
  show ?thesis
  proof (cases "mem_ok (mem s)")
    case True
    then obtain num l where l: "level_loop sz 1 0 BLOCK_SIZE = Some (num, l)"
        "(if num > free_num (mem s) \<or> unat l \<ge> level (mem s) then Some (NULL, mem s)
          else if mem_lock (mem s) then None
          else do {
            (n, b) \<leftarrow> buddy_take (unat l) ((mem s)\<lparr>mem_lock := True\<rparr>);
            Some (start_adr b + of_int (n * 2 ^ BLOCK_SHIFT), b\<lparr>mem_lock := False\<rparr>)
          }) = Some (a, m)"
      using assms(2) unfolding block_for_def by (auto simp: bind_Some_iff)
    show ?thesis
    proof (cases "num > free_num (mem s) \<or> unat l \<ge> level (mem s)")
      case True
      then show ?thesis using l \<open>mem_ok (mem s)\<close> by (auto simp: buddy_malloc_def)
    next
      case False
      then obtain k b where b: "\<not> mem_lock (mem s)" "buddy_take (unat l) ((mem s)\<lparr>mem_lock := True\<rparr>) = Some (k, b)"
          "a = start_adr b + of_int (k * 2 ^ BLOCK_SHIFT)" "m = b\<lparr>mem_lock := False\<rparr>"
        using l(2) by (simp add: bind_Some_iff split: if_splits) blast
      have "buddy_r_malloc (unat l) s = Some (a, s\<lparr>mem := m\<rparr>)" using b x by (simp add: buddy_r_malloc_def mem_lock_take_def e)
      then show ?thesis using False l(1) \<open>mem_ok (mem s)\<close> by (simp add: buddy_malloc_def)
    qed
  qed (use assms(2) in \<open>simp add: block_for_def buddy_malloc_def\<close>)
qed

end
