(* ===== verification/Create_Props.thy ===== *)
theory Create_Props
  imports Pool_Props Policy_Props Mem_Props
begin

text \<open>
  The creation of an ordinary thread: a control block is taken from the pool of threads, the policy of its type is looked up, the
  thread gets a stack from the heap if the caller gives none, it is initialised, and it becomes ready.
\<close>

section \<open>Initialising a thread\<close>

text \<open>The nodes of a thread that is in no queue.\<close>

definition nodes_free :: "(knode \<rightharpoonup> knode list) \<Rightarrow> ptr \<Rightarrow> bool" where
  "nodes_free R p \<longleftrightarrow> free_node R (Ready p) \<and> free_node R (Pending p) \<and> free_node R (Delaying p) \<and> free_node R (Timing p) \<and>
     free_node R (GlobalL p)"

lemma nodes_free_upd:
  assumes "nodes_free R p" "R q = Some xs" "set ys \<subseteq> set xs"
  shows "nodes_free (R(q \<mapsto> ys)) p"
proof -
  have "free_node (R(q \<mapsto> ys)) n" if "free_node R n" for n
    using free_nodeD [OF that assms(2)] assms(3) by (intro free_node_upd [OF that]) auto
  then show ?thesis using assms(1) by (simp add: nodes_free_def)
qed

lemma init_nodes_rings:
  assumes "rings h R" "nodes_free R p"
  shows "rings (init_thread_nodes p pr h) R" "qlock (init_thread_nodes p pr h) = qlock h"
  using assms unfolding nodes_free_def init_thread_nodes_def
  by (simp_all add: list_init_free vlist_init_free) (simp add: acoral_list_init_def acoral_vlist_init_def heap_upd_defs)

lemma rdy_inv_dead:
  assumes "p \<notin> L"
  shows "rdy_inv L (upd_thr p f s) R \<longleftrightarrow> rdy_inv L s R"
proof -
  have "in_ring (upd_thr p f s) L c pr x \<longleftrightarrow> in_ring s L c pr x" for c pr x
    using assms by (auto simp: in_ring_def upd_thr_def)
  moreover have "thread_ok (upd_thr p f s) R t \<longleftrightarrow> thread_ok s R t" if "t \<in> L" for t
    using assms that by (auto simp: thread_ok_def upd_thr_def)
  ultimately show ?thesis unfolding rdy_inv_def cpu_ok_def by (simp add: upd_thr_def)
qed

text \<open>A thread that is not ready joins the live threads.\<close>

lemma rdy_inv_join:
  assumes "rdy_inv L s R" "thread_ok s R p"
  shows "rdy_inv (insert p L) s R"
proof -
  have "in_ring s L c pr x \<Longrightarrow> in_ring s (insert p L) c pr x" for c pr x by (auto simp: in_ring_def)
  then have "cpu_ok L s R c \<Longrightarrow> cpu_ok (insert p L) s R c" for c unfolding cpu_ok_def by meson
  then show ?thesis using assms unfolding rdy_inv_def by auto
qed

text \<open>The control block of an initialised thread.\<close>

definition inited :: "ptr \<Rightarrow> ptr \<Rightarrow> u32 \<Rightarrow> thread \<Rightarrow> thread" where
  "inited route args cid t =
     (let t = (hal_stack_init (stack_buttom t + stack_size t - 4) route args t)
                \<lparr>t_delay := 0, t_time := 0, t_ipc := NULL, preempt_type := PREEMPT_LOCAL\<rparr>;
          t = (if cpu_mask t = - 1 then t\<lparr>cpu_mask := 0xefffffff\<rparr> else t)
      in t\<lparr>t_data := NULL, t_state := STATE_SUSPEND, console_id := cid, move_lock := False\<rparr>)"

lemma inited_simps [simp]:
  "t_prio (inited route args cid t) = t_prio t" "t_cpu (inited route args cid t) = t_cpu t" "t_state (inited route args cid t) = STATE_SUSPEND"
  "t_entry (inited route args cid t) = (route, args)" "preempt_type (inited route args cid t) = PREEMPT_LOCAL"
  "t_policy (inited route args cid t) = t_policy t" "deal_hook (inited route args cid t) = deal_hook t"
  "release_hook (inited route args cid t) = release_hook t"
  by (simp_all add: inited_def hal_stack_init_def Let_def)

lemma thread_init_ok:
  assumes inv: "rdy_inv L s R" and q: "quiet s" and p: "p \<notin> L" "p \<noteq> cur_thread s" "nodes_free R p" "R ThreadsQ = Some (map GlobalL gs)"
    and t: "stack_buttom (threads s p) \<noteq> NULL" "unat (t_cpu (threads s p)) < CFG_MAX_CPU" "unat (t_prio (threads s p)) < 61"
  shows "\<exists>s'. acoral_thread_init p route args s = Some (KR_OK, s') \<and> rdy_inv (insert p L) s' (R(ThreadsQ \<mapsto> map GlobalL (gs @ [p]))) \<and>
    threads s' = (threads s)(p := inited route args (console_id (threads s (cur_thread s))) (threads s p)) \<and>
    s' = s\<lparr>threads := threads s', heap := heap s'\<rparr>"
proof -
  let ?h = "init_thread_nodes p (t_prio (threads s p)) (heap s)"
  let ?t = "inited route args (console_id (threads s (cur_thread s))) (threads s p)"
  have R: "rings ?h R" "\<not> qlock ?h ThreadsQ" using init_nodes_rings [OF rdy_invD(1) [OF inv] p(3)] rdy_invD(2) [OF inv] by simp_all
  have "free_node R (GlobalL p)" using p(3) by (simp add: nodes_free_def)
  from fifo_add_rings [OF R(1) p(4) R(2) this] obtain h where h: "acoral_fifo_queue_add ThreadsQ (GlobalL p) ?h = Some h"
      "rings h (R(ThreadsQ \<mapsto> map GlobalL (gs @ [p])))" "qlock h = qlock ?h" by auto
  let ?s = "s\<lparr>threads := (threads s)(p := ?t), heap := h\<rparr>"
  have c2: "\<not> 2 \<le> t_cpu (threads s p)" using t(2) by (simp add: CFG_MAX_CPU_def word_less_nat_alt not_le)
  let ?u = "s\<lparr>heap := ?h, threads := (threads s)(p := ?t)\<rparr>"
  let ?v = "(acoral_enter_critical ?u)\<lparr>heap := h\<rparr>"
  have "quiet ?u" using q by (simp add: quiet_def)
  then have "acoral_exit_critical ?v =
      Some (?v\<lparr>critical_nesting := critical_nesting ?u, intr_masked := intr_masked ?u, sched_lock := sched_lock ?u\<rparr>)"
    by (rule exit_quiet) simp_all
  also have "?v\<lparr>critical_nesting := critical_nesting ?u, intr_masked := intr_masked ?u, sched_lock := sched_lock ?u\<rparr> = ?s"
    by (rule kstate.equality) (simp_all add: acoral_enter_critical_def hal_intr_disable_save_def Let_def)
  finally have ex: "acoral_exit_critical ?v = Some ?s" .
  have "acoral_thread_init p route args s = do { s \<leftarrow> on_heap (acoral_fifo_queue_add ThreadsQ (GlobalL p)) (acoral_enter_critical ?u);
      s \<leftarrow> acoral_exit_critical s; Some (KR_OK, s) }"
    using t(1) c2 p(2)
    by (simp add: acoral_thread_init_def Let_def upd_thr_def set_thread_fields_def move_lock_free_def inited_def hal_stack_init_def
        CFG_MAX_CPU_def cur_thread_def)
  then have "acoral_thread_init p route args s = Some (KR_OK, ?s)" using h(1) ex by (simp add: on_heap_def)
  moreover have "rdy_inv (insert p L) ?s (R(ThreadsQ \<mapsto> map GlobalL (gs @ [p])))"
  proof (rule rdy_inv_join)
    have ql: "qlock h = (\<lambda>_. False)" using h(3) init_nodes_rings(2) [OF rdy_invD(1) [OF inv] p(3)] rdy_invD(2) [OF inv] by auto
    have gl: "\<forall>x \<in> set (map GlobalL (gs @ [p])). \<not> is_rdy x" by auto
    have "rdy_inv L (upd_thr p (\<lambda>_. ?t) s) R" using inv p(1) by (simp add: rdy_inv_dead)
    from rdy_inv_other [OF this h(2) ql _ gl] show "rdy_inv L ?s (R(ThreadsQ \<mapsto> map GlobalL (gs @ [p])))" by (simp add: upd_thr_def)
    show "thread_ok ?s (R(ThreadsQ \<mapsto> map GlobalL (gs @ [p]))) p"
      using t p(3) free_node_upd [of R "Ready p" ThreadsQ "map GlobalL (gs @ [p])"] free_nodeD [of R "Ready p", OF _ p(4)]
      by (simp add: thread_ok_def nodes_free_def)
  qed
  ultimately show ?thesis by (intro exI [of _ ?s]) simp
qed

section \<open>The stack of a new thread\<close>

text \<open>The stack: the caller's, or a block of at least \<open>CFG_MIN_STACK_SIZE\<close> bytes from the heap.\<close>

definition stack_for :: "u32 \<Rightarrow> ptr \<Rightarrow> buddy \<Rightarrow> (ptr \<times> u32 \<times> buddy) option" where
  "stack_for sz stack b =
     (if stack \<noteq> NULL then Some (stack, sz, b)
      else let n = max sz CFG_MIN_STACK_SIZE in do { (a, b) \<leftarrow> block_for n b; Some (a, n, b) })"

definition with_stack :: "ptr \<Rightarrow> ptr \<Rightarrow> u32 \<Rightarrow> buddy \<Rightarrow> kstate \<Rightarrow> kstate" where
  "with_stack p a n m s = upd_thr p (\<lambda>t. t\<lparr>stack_buttom := a, stack_size := n\<rparr>) (s\<lparr>mem := m\<rparr>)"

text \<open>The initialisation does with a new stack what it does with one from the caller.\<close>

lemma thread_init_stack:
  assumes "quiet s" "stack_for (stack_size (threads s p)) (stack_buttom (threads s p)) (mem s) = Some (a, n, m)" "a \<noteq> NULL"
  shows "acoral_thread_init p route args s = acoral_thread_init p route args (with_stack p a n m s)"
proof (cases "stack_buttom (threads s p) = NULL")
  case True
  then have n: "n = max (stack_size (threads s p)) CFG_MIN_STACK_SIZE" "block_for n (mem s) = Some (a, m)"
    using assms(2) by (auto simp: stack_for_def Let_def bind_Some_iff)
  have n': "n = (if stack_size (threads s p) < CFG_MIN_STACK_SIZE then CFG_MIN_STACK_SIZE else stack_size (threads s p))"
    using n(1) by (auto simp: max_def)
  have "buddy_malloc n s = Some (a, s\<lparr>mem := m\<rparr>)" by (rule buddy_malloc_quiet [OF assms(1) n(2)])
  moreover have "upd_thr p (stack_size_update (\<lambda>_. n)) (upd_thr p (stack_buttom_update (\<lambda>_. a)) (s\<lparr>mem := m\<rparr>)) = with_stack p a n m s"
    by (simp add: with_stack_def upd_thr_def)
  moreover have "stack_buttom (threads (with_stack p a n m s) p) = a" "stack_size (threads (with_stack p a n m s) p) = n"
    by (simp_all add: with_stack_def upd_thr_def)
  ultimately show ?thesis using True assms(3) unfolding acoral_thread_init_def [of p route args] by (simp add: Let_def flip: n')
next
  case False
  then have "a = stack_buttom (threads s p)" "n = stack_size (threads s p)" "m = mem s" using assms(2) by (auto simp: stack_for_def)
  then have "with_stack p a n m s = s" by (simp add: with_stack_def upd_thr_def)
  then show ?thesis by simp
qed

lemma comm_init_stack:
  assumes "quiet s" "stack_for (stack_size (threads s p)) (stack_buttom (threads s p)) (mem s) = Some (a, n, m)" "a \<noteq> NULL"
    "t_policy (threads s p) = ACORAL_SCHED_POLICY_COMM"
  shows "comm_policy_thread_init p route args pd data s = comm_policy_thread_init p route args pd data (with_stack p a n m s)"
proof -
  let ?f = "\<lambda>t. t\<lparr>t_cpu := pd_cpu pd, t_prio := pd_prio pd\<rparr>"
  have "quiet (upd_thr p ?f s)" using assms(1) by (simp add: quiet_def upd_thr_def)
  moreover have "(?f t)\<lparr>stack_buttom := a, stack_size := n\<rparr> = ?f (t\<lparr>stack_buttom := a, stack_size := n\<rparr>)" for t :: thread
    by (rule thread.equality) simp_all
  then have "with_stack p a n m (upd_thr p ?f s) = upd_thr p ?f (with_stack p a n m s)"
    unfolding with_stack_def upd_thr_def by (intro kstate.equality) (auto simp: fun_eq_iff)
  ultimately have "acoral_thread_init p route args (upd_thr p ?f s) = acoral_thread_init p route args (upd_thr p ?f (with_stack p a n m s))"
    using thread_init_stack [of "upd_thr p ?f s" p a n m route args] assms(2,3) by (simp add: upd_thr_def)
  moreover have "t_policy (threads (with_stack p a n m s) p) = ACORAL_SCHED_POLICY_COMM" using assms(4) by (simp add: with_stack_def upd_thr_def)
  ultimately show ?thesis using assms(4) by (simp add: comm_policy_thread_init_def)
qed

section \<open>Creating a thread\<close>

text \<open>The id of a thread says which CPU it is on; the address it leads to is the same.\<close>

lemma get_res_cpu_bit:
  assumes "res_word s' p = (if c = 0 then res_word s p AND NOT RES_CPU_FLAG else if c = 1 then res_word s p OR RES_CPU_FLAG else res_word s p)"
    "pools s' = pools s"
  shows "acoral_get_res_by_id (res_word s' p) s' = acoral_get_res_by_id (res_word s p) s"
proof -
  have f: "bit RES_CPU_FLAG n \<longleftrightarrow> n = 24" for n using bit_single [of 24 n] by (simp add: RES_CPU_FLAG_def)
  have m: "res_word s' p AND POOL_INDEX_MASK = res_word s p AND POOL_INDEX_MASK"
    "res_word s' p AND RES_INDEX_MASK = res_word s p AND RES_INDEX_MASK"
    by (rule bit_word_eqI, auto simp: assms(1) pool_masks bit_simps f)+
  show ?thesis unfolding acoral_get_res_by_id_def acoral_get_pool_by_id_def m assms(2) ..
qed

lemma ready_new:
  assumes inv: "rdy_inv L s R" and p: "p \<in> L" "t_state (threads s p) = STATE_SUSPEND" "t_cpu (threads s p) = current_cpu s"
    and cs: "can_sched s"
  defines "q \<equiv> RdyQ (current_cpu s) (unat (t_prio (threads s p)))"
  shows "\<exists>s' xs. acoral_rdy_thread p s = Some (KR_OK, s') \<and> R q = Some xs \<and> rdy_inv L s' (R(q \<mapsto> xs @ [Ready p])) \<and>
    acoral_get_res_by_id (res_word s' p) s' = acoral_get_res_by_id (res_word s p) s \<and>
    flag (t_state (threads s' p)) STATE_READY \<and>
    threads s' p = (threads s p)\<lparr>t_state := t_state (threads s' p), move_lock := move_lock (threads s' p)\<rparr> \<and>
    ((\<forall>t \<in> ready_on s L (current_cpu s). t_prio (threads s p) < t_prio (threads s t)) \<and> p \<noteq> cur_thread s \<and>
       t_state (threads s (cur_thread s)) \<noteq> STATE_EXIT \<and> can_preempt (threads s (cur_thread s)) (threads s p) \<longrightarrow> cur_thread s' = p)"
proof -
  have f: "flag (t_state (threads s p)) STATE_SUSPEND" "\<not> flag (t_state (threads s p)) STATE_READY" by (simp_all add: p(2))
  obtain s' r xs h b where s': "acoral_rdy_thread p s = Some (KR_OK, s')" "R q = Some xs" "rdy_inv L s' (R(q \<mapsto> xs @ [Ready p]))"
      "flag (t_state (threads s' p)) STATE_READY" "r \<in> insert p (ready_on s L (current_cpu s))"
      "\<forall>t \<in> insert p (ready_on s L (current_cpu s)). t_prio (threads s r) \<le> t_prio (threads s t)"
      "t_state (threads s (cur_thread s)) \<noteq> STATE_EXIT \<longrightarrow> p \<noteq> cur_thread s \<longrightarrow>
        cur_thread s' = (if can_preempt (threads s (cur_thread s)) (threads s r) then r else cur_thread s)"
      "sched_frame (leave_critical (rdy_added p h b (acoral_enter_critical s))) s'"
    using rdy_thread_ok [OF inv p(1) f p(3) cs] unfolding q_def by blast
  let ?a = "rdy_added p h b (acoral_enter_critical s)"
  have w: "res_word ?a p = (if current_cpu s = 0 then res_word s p AND NOT RES_CPU_FLAG
      else if current_cpu s = 1 then res_word s p OR RES_CPU_FLAG else res_word s p)" "pools ?a = pools s"
    using p(3) by (auto simp: rdy_added_def set_res_cpu_def upd_thr_def acoral_set_need_sched_def Let_def)
  have "acoral_get_res_by_id (res_word s' p) s' = acoral_get_res_by_id (res_word s p) s"
    by (rule get_res_cpu_bit [of _ _ "current_cpu s"]) (use w sched_frameD(10,12) [OF s'(8)] in simp_all)
  moreover have "threads s' p = (threads (leave_critical ?a) p)\<lparr>t_state := t_state (threads s' p), move_lock := move_lock (threads s' p)\<rparr>"
    using s'(8) unfolding sched_frame_def by blast
  moreover have "r = p" if "\<forall>t \<in> ready_on s L (current_cpu s). t_prio (threads s p) < t_prio (threads s t)"
    using s'(5,6) that by (metis insertCI insertE not_le)
  ultimately show ?thesis using s'(1-4,7) by auto
qed

text \<open>The arguments of the creation of an ordinary thread are kept in the control block.\<close>

definition created :: "u32 \<Rightarrow> ptr \<Rightarrow> ptr \<Rightarrow> ptr \<Rightarrow> policy_data \<Rightarrow> ptr \<Rightarrow> thread \<Rightarrow> bool" where
  "created n stack route args pd data t \<longleftrightarrow> t_entry t = (route, args) \<and> t_prio t = pd_prio pd \<and> t_cpu t = pd_cpu pd \<and>
     t_policy t = ACORAL_SCHED_POLICY_COMM \<and> t_data t = data \<and> preempt_type t = PREEMPT_LOCAL \<and>
     t_stack t = stack + n - 64"

text \<open>The state before the new thread is made ready: its control block is filled and it is in the list of all threads.\<close>

lemma comm_filled:
  assumes inv: "rdy_inv L s R" and q: "quiet s" "can_sched s" and p: "p \<notin> L" "p \<noteq> cur_thread s" "nodes_free R p"
      "R ThreadsQ = Some (map GlobalL gs)"
    and t: "stack_buttom (threads s p) \<noteq> NULL" and pd: "pd_cpu pd = current_cpu s" "unat (pd_prio pd) < 61"
  obtains s2 s3 where
    "acoral_thread_init p route args (upd_thr p (\<lambda>t. t\<lparr>t_cpu := pd_cpu pd, t_prio := pd_prio pd\<rparr>) s) = Some (KR_OK, s2)"
    "upd_thr p (t_data_update (\<lambda>_. data)) s2 = s3" "rdy_inv (insert p L) s3 (R(ThreadsQ \<mapsto> map GlobalL (gs @ [p])))"
    "can_sched s3" "current_cpu s3 = current_cpu s" "cur_thread s3 = cur_thread s" "res_word s3 = res_word s" "pools s3 = pools s"
    "threads s3 = (threads s)(p := (inited route args (console_id (threads s (cur_thread s)))
       ((threads s p)\<lparr>t_cpu := pd_cpu pd, t_prio := pd_prio pd\<rparr>))\<lparr>t_data := data\<rparr>)"
proof -
  let ?s1 = "upd_thr p (\<lambda>t. t\<lparr>t_cpu := pd_cpu pd, t_prio := pd_prio pd\<rparr>) s"
  have f1: "threads ?s1 = (threads s)(p := (threads s p)\<lparr>t_cpu := pd_cpu pd, t_prio := pd_prio pd\<rparr>)"
    "current_cpu ?s1 = current_cpu s" "cur_thread ?s1 = cur_thread s" "res_word ?s1 = res_word s" "pools ?s1 = pools s"
    by (simp_all add: upd_thr_def cur_thread_def)
  have a1: "rdy_inv L ?s1 R" "quiet ?s1" "p \<noteq> cur_thread ?s1" "stack_buttom (threads ?s1 p) \<noteq> NULL"
    "unat (t_cpu (threads ?s1 p)) < CFG_MAX_CPU" "unat (t_prio (threads ?s1 p)) < 61"
    using inv q p t pd by (simp_all add: rdy_inv_dead f1) (simp_all add: quiet_def upd_thr_def can_sched_def cur_thread_def)
  obtain s2 where s2: "acoral_thread_init p route args ?s1 = Some (KR_OK, s2)"
      "rdy_inv (insert p L) s2 (R(ThreadsQ \<mapsto> map GlobalL (gs @ [p])))"
      "threads s2 = (threads ?s1)(p := inited route args (console_id (threads ?s1 (cur_thread ?s1))) (threads ?s1 p))"
      "s2 = ?s1\<lparr>threads := threads s2, heap := heap s2\<rparr>"
    using thread_init_ok [OF a1(1,2) p(1) a1(3) p(3,4) a1(4-6)] by blast
  let ?s3 = "upd_thr p (t_data_update (\<lambda>_. data)) s2"
  have f2: "current_cpu s2 = current_cpu s" "running_thread s2 = running_thread s" "res_word s2 = res_word s" "pools s2 = pools s"
    "critical_nesting s2 = critical_nesting s" "intr_nesting s2 = intr_nesting s" "sched_enable s2 = sched_enable s"
    by (subst s2(4), simp add: upd_thr_def)+
  show thesis
  proof (rule that [OF s2(1) refl])
    show "rdy_inv (insert p L) ?s3 (R(ThreadsQ \<mapsto> map GlobalL (gs @ [p])))"
      using s2(2) by (subst rdy_inv_cong [of _ s2]) (simp_all add: upd_thr_def)
    show "can_sched ?s3" using q(2) by (simp add: can_sched_def hal_get_intr_nesting_def upd_thr_def f2)
  qed (use p(2) in \<open>simp_all add: upd_thr_def s2(3) f1 f2 cur_thread_def\<close>)
qed

lemma comm_start:
  assumes inv: "rdy_inv L s R" and q: "quiet s" "can_sched s" and p: "p \<notin> L" "p \<noteq> cur_thread s" "nodes_free R p"
      "R ThreadsQ = Some (map GlobalL gs)"
    and t: "stack_buttom (threads s p) = stack" "stack_size (threads s p) = n" "stack \<noteq> NULL"
      "t_policy (threads s p) = ACORAL_SCHED_POLICY_COMM"
    and pd: "pd_cpu pd = current_cpu s" "unat (pd_prio pd) < 61"
  defines "Q \<equiv> RdyQ (current_cpu s) (unat (pd_prio pd))"
  shows "\<exists>s' xs. comm_policy_thread_init p route args pd data s = Some (Inr (res_word s' p), s') \<and> R Q = Some xs \<and>
    rdy_inv (insert p L) s' (R(ThreadsQ \<mapsto> map GlobalL (gs @ [p]), Q \<mapsto> xs @ [Ready p])) \<and>
    acoral_get_res_by_id (res_word s' p) s' = acoral_get_res_by_id (res_word s p) s \<and>
    flag (t_state (threads s' p)) STATE_READY \<and> created n stack route args pd data (threads s' p) \<and>
    ((\<forall>t \<in> ready_on s L (current_cpu s). pd_prio pd < t_prio (threads s t)) \<and>
       t_state (threads s (cur_thread s)) \<noteq> STATE_EXIT \<and> preempt_type (threads s (cur_thread s)) = PREEMPT_LOCAL \<longrightarrow> cur_thread s' = p)"
proof -
  let ?t3 = "(inited route args (console_id (threads s (cur_thread s))) ((threads s p)\<lparr>t_cpu := pd_cpu pd, t_prio := pd_prio pd\<rparr>))\<lparr>t_data := data\<rparr>"
  have sb: "stack_buttom (threads s p) \<noteq> NULL" using t by simp
  obtain s2 s3 where s2: "acoral_thread_init p route args (upd_thr p (\<lambda>t. t\<lparr>t_cpu := pd_cpu pd, t_prio := pd_prio pd\<rparr>) s) = Some (KR_OK, s2)"
      "upd_thr p (t_data_update (\<lambda>_. data)) s2 = s3" and inv3: "rdy_inv (insert p L) s3 (R(ThreadsQ \<mapsto> map GlobalL (gs @ [p])))"
      and cs3: "can_sched s3" and f3: "current_cpu s3 = current_cpu s" "cur_thread s3 = cur_thread s" "res_word s3 = res_word s"
        "pools s3 = pools s" "threads s3 = (threads s)(p := ?t3)"
    by (rule comm_filled [OF inv q p sb pd])
  have th3: "t_state (threads s3 p) = STATE_SUSPEND" "t_cpu (threads s3 p) = current_cpu s3" "t_prio (threads s3 p) = pd_prio pd"
    using pd(1) by (simp_all add: f3)
  have ro: "ready_on s3 (insert p L) (current_cpu s) = ready_on s L (current_cpu s)"
    using p(1) by (auto simp: ready_on_def f3(5))
  obtain s' xs where s': "acoral_rdy_thread p s3 = Some (KR_OK, s')" "(R(ThreadsQ \<mapsto> map GlobalL (gs @ [p]))) Q = Some xs"
      "rdy_inv (insert p L) s' (R(ThreadsQ \<mapsto> map GlobalL (gs @ [p]), Q \<mapsto> xs @ [Ready p]))"
      "acoral_get_res_by_id (res_word s' p) s' = acoral_get_res_by_id (res_word s3 p) s3" "flag (t_state (threads s' p)) STATE_READY"
      "threads s' p = (threads s3 p)\<lparr>t_state := t_state (threads s' p), move_lock := move_lock (threads s' p)\<rparr>"
      "(\<forall>t \<in> ready_on s L (current_cpu s). pd_prio pd < t_prio (threads s3 t)) \<and> p \<noteq> cur_thread s \<and>
       t_state (threads s3 (cur_thread s)) \<noteq> STATE_EXIT \<and> can_preempt (threads s3 (cur_thread s)) (threads s3 p) \<longrightarrow> cur_thread s' = p"
    using ready_new [OF inv3 _ th3(1,2) cs3] unfolding f3(1,2) th3(3) ro Q_def by blast
  have "comm_policy_thread_init p route args pd data s = Some (Inr (res_word s' p), s')"
    using s2 s'(1) t(4) by (simp add: comm_policy_thread_init_def)
  moreover have "created n stack route args pd data (threads s' p)"
    using t by (subst s'(6)) (simp add: created_def f3(5) inited_def hal_stack_init_def Let_def)
  moreover have "R Q = Some xs" using s'(2) by (simp add: Q_def)
  moreover have "can_preempt (threads s3 (cur_thread s)) (threads s3 p)" if "preempt_type (threads s (cur_thread s)) = PREEMPT_LOCAL"
    using that p(2) by (simp add: can_preempt_def f3(5) PREEMPT_LOCAL_def PREEMPT_GLOBAL_def PREEMPT_TIMED_def)
  moreover have "t_prio (threads s3 t) = t_prio (threads s t)" if "t \<in> ready_on s L (current_cpu s)" for t
    using that p(1) by (auto simp: f3(5) ready_on_def)
  moreover have "t_state (threads s3 (cur_thread s)) = t_state (threads s (cur_thread s))" using p(2) by (simp add: f3(5))
  moreover have "acoral_get_res_by_id (res_word s3 p) s3 = acoral_get_res_by_id (res_word s p) s"
    unfolding acoral_get_res_by_id_def f3(3,4) ..
  ultimately show ?thesis using s' p(2) by (intro exI [of _ s'] exI [of _ xs] conjI) auto
qed

text \<open>C14. Creating an ordinary thread on the executing CPU while nothing is to be scheduled, with a stack from the caller or, without
  one, with a block of at least \<open>CFG_MIN_STACK_SIZE\<close> bytes that the heap grants: the call returns the id of the control block on top
  of the first free pool, and the id leads back to it; the control block records the arguments, with the initial context at the top of
  the stack; the thread is live, entered in the list of all threads and last in the ready queue of its priority; and when the thread outranks all ready threads and the running one may be preempted, it runs.\<close>

theorem create_thread_ready:
  fixes pd :: policy_data
  assumes inv: "rdy_inv L s R" and q: "quiet s" "can_sched s"
    and pool: "\<not> c_lock (ctrls s ThreadCtrl)" "R (FreePools ThreadCtrl) = Some (FreeL i # fs)" "pool_free s i (k # ks)"
      "\<forall>x \<in> set fs. \<not> is_rdy x"
    and lists: "R PolicyQ = Some (map PolicyL [0, 1, 2])" "R ThreadsQ = Some (map GlobalL gs)"
  defines "p \<equiv> res_at (pools s i) k" and "Q \<equiv> RdyQ (current_cpu s) (unat (pd_prio pd))"
  assumes p: "p \<notin> L" "p \<noteq> cur_thread s" "p \<noteq> NULL" "nodes_free R p"
    and args: "stack_for (sz AND NOT 3) stack (mem s) = Some (a, n, m)" "a \<noteq> NULL" "pd_cpu pd = current_cpu s" "unat (pd_prio pd) < 61"
  shows "\<exists>s' xs. create_thread_by_policy (kernel_policies hook vm) route sz args stack (ucast ACORAL_SCHED_POLICY_COMM) pd data hooks s =
      Some (Inr (res_word s' p), s') \<and> acoral_get_res_by_id (res_word s' p) s' = Some p \<and>
    created n a route args pd data (threads s' p) \<and> flag (t_state (threads s' p)) STATE_READY \<and> R Q = Some xs \<and>
    rdy_inv (insert p L) s' (R(FreePools ThreadCtrl \<mapsto> free_pools_took i ks fs, ThreadsQ \<mapsto> map GlobalL (gs @ [p]), Q \<mapsto> xs @ [Ready p])) \<and>
    ((\<forall>t \<in> ready_on s L (current_cpu s). pd_prio pd < t_prio (threads s t)) \<and>
       t_state (threads s (cur_thread s)) \<noteq> STATE_EXIT \<and> preempt_type (threads s (cur_thread s)) = PREEMPT_LOCAL \<longrightarrow> cur_thread s' = p)"
proof -
  let ?tab = "kernel_policies hook vm" and ?R = "R(FreePools ThreadCtrl \<mapsto> free_pools_took i ks fs)"
  obtain s1 where s1: "acoral_get_res ThreadCtrl s = Some (p, s1)" "acoral_get_res_by_id (res_word s1 p) s1 = Some p"
      "rings (heap s1) ?R" "qlock (heap s1) = qlock (heap s)" "res_frame s s1"
    using get_res_took [OF q(1) pool(1) rdy_invD(1) [OF inv] pool(2,3)] unfolding p_def by blast
  note fr = s1(5) [unfolded res_frame_def]
  define g :: "thread \<Rightarrow> thread" where "g = (\<lambda>t. t\<lparr>stack_size := sz AND NOT 3, stack_buttom := stack, t_policy := ACORAL_SCHED_POLICY_COMM,
                deal_hook := (case hooks of None \<Rightarrow> NULL | Some h \<Rightarrow> fst h),
                release_hook := (case hooks of None \<Rightarrow> NULL | Some h \<Rightarrow> snd h)\<rparr>)"
  define f :: "thread \<Rightarrow> thread" where "f = (\<lambda>t. (g t)\<lparr>stack_buttom := a, stack_size := n\<rparr>)"
  have ff: "stack_buttom (f t) = a" "stack_size (f t) = n" "t_policy (f t) = ACORAL_SCHED_POLICY_COMM" "t_prio (f t) = t_prio t"
    "t_cpu (f t) = t_cpu t" "t_state (f t) = t_state t" for t by (simp_all add: f_def g_def)
  let ?s2 = "upd_thr p f (s1\<lparr>mem := m\<rparr>)"
  have "with_stack p a n m (upd_thr p g s1) = ?s2" unfolding with_stack_def upd_thr_def f_def by simp
  then have st: "comm_policy_thread_init p route args pd data (upd_thr p g s1) = comm_policy_thread_init p route args pd data ?s2"
    using comm_init_stack [of "upd_thr p g s1" p a n m route args pd data] args(1,2) q fr
    by (simp add: quiet_def upd_thr_def) (simp add: g_def)
  have ql: "qlock (heap s1) = (\<lambda>_. False)" using s1(4) rdy_invD(2) [OF inv] by (simp add: fun_eq_iff)
  have "rdy_inv L (s\<lparr>heap := heap s1\<rparr>) ?R"
    by (rule rdy_inv_other [OF inv s1(3) ql]) (use pool(4) in \<open>auto simp: free_pools_took_def\<close>)
  then have inv1: "rdy_inv L (s1\<lparr>mem := m\<rparr>) ?R" by (subst rdy_inv_cong [of _ "s\<lparr>heap := heap s1\<rparr>"]) (use fr in simp_all)
  have inv2: "rdy_inv L ?s2 ?R" using inv1 p(1) by (simp add: rdy_inv_dead)
  have f2: "quiet ?s2" "can_sched ?s2" "cur_thread ?s2 = cur_thread s" "current_cpu ?s2 = current_cpu s" "heap ?s2 = heap s1"
    "threads ?s2 = (threads s)(p := f (threads s p))" "res_word ?s2 = res_word s1" "pools ?s2 = pools s1"
    using q fr by (simp_all add: quiet_def can_sched_def hal_get_intr_nesting_def cur_thread_def upd_thr_def)
  have fn: "nodes_free ?R p" by (rule nodes_free_upd [OF p(4) pool(2)]) (auto simp: free_pools_took_def)
  have rp: "ring (heap ?s2) PolicyQ (map PolicyL [0, 1, 2])" unfolding f2(5) using ringsD [OF s1(3), of PolicyQ] lists(1) by simp
  have pol: "acoral_get_policy_ctrl ?tab ACORAL_SCHED_POLICY_COMM (upd_thr p g s1) = Some (Some 0)"
    using get_policy_first [of "upd_thr p g s1" "[0, 1, 2]" ?tab] rp by (simp add: kernel_policies_def upd_thr_def)
  have pre: "p \<noteq> cur_thread ?s2" "?R ThreadsQ = Some (map GlobalL gs)" "stack_buttom (threads ?s2 p) = a"
    "stack_size (threads ?s2 p) = n" "t_policy (threads ?s2 p) = ACORAL_SCHED_POLICY_COMM" "pd_cpu pd = current_cpu ?s2"
    using p(2) lists(2) args(3) by (simp_all add: f2(3,4,6) ff)
  obtain s' xs where s': "comm_policy_thread_init p route args pd data ?s2 = Some (Inr (res_word s' p), s')" "?R Q = Some xs"
      "rdy_inv (insert p L) s' (?R(ThreadsQ \<mapsto> map GlobalL (gs @ [p]), Q \<mapsto> xs @ [Ready p]))"
      "acoral_get_res_by_id (res_word s' p) s' = acoral_get_res_by_id (res_word ?s2 p) ?s2"
      "flag (t_state (threads s' p)) STATE_READY" "created n a route args pd data (threads s' p)"
      "(\<forall>t \<in> ready_on ?s2 L (current_cpu s). pd_prio pd < t_prio (threads ?s2 t)) \<and>
       t_state (threads ?s2 (cur_thread s)) \<noteq> STATE_EXIT \<and> preempt_type (threads ?s2 (cur_thread s)) = PREEMPT_LOCAL \<longrightarrow> cur_thread s' = p"
    using comm_start [OF inv2 f2(1,2) p(1) pre(1) fn pre(2-4) args(2) pre(5,6) args(4), of route args data] unfolding f2(3,4) Q_def by blast
  have uc: "ucast (ucast ACORAL_SCHED_POLICY_COMM :: u32) = ACORAL_SCHED_POLICY_COMM" by (simp add: ACORAL_SCHED_POLICY_COMM_def)
  have "create_thread_by_policy ?tab route sz args stack (ucast ACORAL_SCHED_POLICY_COMM) pd data hooks s = Some (Inr (res_word s' p), s')"
    using s1(1) p(3) s'(1) [folded st] pol uc
    by (simp add: create_thread_by_policy_def acoral_alloc_thread_def acoral_policy_thread_init_def Let_def kernel_policies_def g_def)
  moreover have "acoral_get_res_by_id (res_word ?s2 p) ?s2 = Some p"
    using s1(2) unfolding acoral_get_res_by_id_def f2(7,8) .
  moreover have "R Q = Some xs" using s'(2) by (simp add: Q_def)
  moreover have "ready_on ?s2 L (current_cpu s) = ready_on s L (current_cpu s)" "\<And>t. t_prio (threads ?s2 t) = t_prio (threads s t)"
    using p(1) by (auto simp: ready_on_def f2(6) ff)
  ultimately show ?thesis using s'(3-7) p(2) by (intro exI [of _ s'] exI [of _ xs] conjI) (simp_all add: f2(6))
qed

text \<open>A heap of nine basic blocks at \<open>0x9000\<close>, from which the new thread gets its stack.\<close>

definition ex_memory :: buddy where
  "ex_memory = (case buddy_init (\<lambda>_. 0) 0x9000 0x9600 buddy0 of None \<Rightarrow> buddy0 | Some (_, b) \<Rightarrow> b)"

lemma ex_block: "map_option fst (block_for 0x80 ex_memory) = Some 0x9400"
  by code_simp

text \<open>The example kernel with the pool of control blocks and the three policies registered.\<close>

definition ex_create :: kstate where
  "ex_create = ex_pool\<lparr>heap := insert_after (PolicyL 2) (PolicyL 1) (insert_after (PolicyL 1) (PolicyL 0)
     (insert_after (PolicyL 0) PolicyQ (heap ex_pool))), mem := ex_memory\<rparr>"

definition ex_create_R :: "knode \<rightharpoonup> knode list" where
  "ex_create_R = ex_pool_R(PolicyQ \<mapsto> [PolicyL 0, PolicyL 1, PolicyL 2])"

lemma rdy_inv_new_queue:
  assumes "rdy_inv L s R" "R q = None" "free_node R q" "\<not> is_rdy q" "acoral_list_init q (heap s) = heap s"
  shows "rdy_inv L s (R(q \<mapsto> []))"
  using rdy_inv_other [OF assms(1), of "heap s" q "[]"] list_init_rings(1) [OF rdy_invD(1) [OF assms(1)] assms(2,3)]
    rdy_invD(2) [OF assms(1)] assms(4,5) by (auto simp: fun_eq_iff)

lemma rdy_inv_append:
  assumes "rdy_inv L s R" "R q = Some xs" "free_node R n" "\<not> is_rdy q" "\<not> is_rdy n" "\<forall>x \<in> set xs. \<not> is_rdy x"
  shows "rdy_inv L (s\<lparr>heap := insert_after n (last (q # xs)) (heap s)\<rparr>) (R(q \<mapsto> xs @ [n]))"
proof (rule rdy_inv_other [OF assms(1)])
  show "rings (insert_after n (last (q # xs)) (heap s)) (R(q \<mapsto> xs @ [n]))"
    using rings_insert [OF rdy_invD(1) [OF assms(1)], of q xs "[]" n] assms(2,3) by simp
  show "qlock (insert_after n (last (q # xs)) (heap s)) = (\<lambda>_. False)"
    using rdy_invD(2) [OF assms(1)] by (simp add: insert_after_def fun_eq_iff)
qed (use assms(4-6) in auto)

lemma ex_pool_free_node: "free_node ex_pool_R x" if "\<not> is_rdy x" "ex_pool_R x = None" "x \<noteq> FreeL 0"
  using that ex_free by (fastforce simp: free_node_def ex_pool_R_def split: if_splits)

lemma ex_create_inv: "rdy_inv ex_live ex_create ex_create_R"
proof -
  let ?R0 = "ex_pool_R(PolicyQ \<mapsto> [])" and ?h = "heap ex_pool"
  let ?h1 = "insert_after (PolicyL 0) PolicyQ ?h"
  let ?h2 = "insert_after (PolicyL 1) (PolicyL 0) ?h1"
  have fr: "free_node ex_pool_R PolicyQ" "free_node ex_pool_R (PolicyL i)" for i
    by (rule ex_pool_free_node; simp add: ex_pool_R_def ex_R_def)+
  have "acoral_list_init PolicyQ ?h = ?h"
    by (simp add: acoral_list_init_def heap_upd_defs ex_pool_def ex_heap_def insert_after_def fun_upd_idem_iff)
  then have i0: "rdy_inv ex_live ex_pool ?R0"
    using rdy_inv_new_queue [OF ex_pool_inv, of PolicyQ] fr(1) by (simp add: ex_pool_R_def ex_R_def)
  have f0: "free_node (ex_pool_R(PolicyQ \<mapsto> xs)) (PolicyL i)" if "PolicyL i \<notin> set xs" for i xs
    by (rule free_node_upd [OF fr(2)]) (use that in simp_all)
  have i1: "rdy_inv ex_live (ex_pool\<lparr>heap := ?h1\<rparr>) (ex_pool_R(PolicyQ \<mapsto> [PolicyL 0]))"
    using rdy_inv_append [OF i0, of PolicyQ "[]" "PolicyL 0"] f0 [of 0 "[]"] by simp
  have i2: "rdy_inv ex_live (ex_pool\<lparr>heap := ?h2\<rparr>) (ex_pool_R(PolicyQ \<mapsto> [PolicyL 0, PolicyL 1]))"
    using rdy_inv_append [OF i1, of PolicyQ "[PolicyL 0]" "PolicyL 1"] f0 [of 1 "[PolicyL 0]"] by simp
  have "rdy_inv ex_live (ex_pool\<lparr>heap := insert_after (PolicyL 2) (PolicyL 1) ?h2\<rparr>) ex_create_R"
    using rdy_inv_append [OF i2, of PolicyQ "[PolicyL 0, PolicyL 1]" "PolicyL 2"] f0 [of 2 "[PolicyL 0, PolicyL 1]"]
    by (simp add: ex_create_R_def)
  then show ?thesis
    by (subst rdy_inv_cong [of _ "ex_pool\<lparr>heap := insert_after (PolicyL 2) (PolicyL 1) ?h2\<rparr>"]) (simp_all add: ex_create_def)
qed

theorem create_thread_ready_witness:
  "\<exists>s'. create_thread_by_policy (kernel_policies (\<lambda>_ _. Some) 0x300) 0x5000 0x40 0 0 (ucast ACORAL_SCHED_POLICY_COMM)
      \<lparr>pd_cpu = 0, pd_prio = 3, pd_time = 0, pd_start_time = [], pd_section_num = 0, pd_frequency = 0, pd_section_route = 0,
        pd_section_args = 0\<rparr> 0 None ex_create = Some (Inr (res_word s' 0x1000), s') \<and>
     cur_thread s' = 0x1000 \<and> t_entry (threads s' 0x1000) = (0x5000, 0) \<and> t_stack (threads s' 0x1000) = 0x9440"
proof -
  let ?pd = "\<lparr>pd_cpu = 0, pd_prio = 3, pd_time = 0, pd_start_time = [], pd_section_num = 0, pd_frequency = 0, pd_section_route = 0,
        pd_section_args = 0\<rparr>"
  have f: "pools ex_create = pools ex_pool" "res_word ex_create = res_word ex_pool" "current_cpu ex_create = 0" "cur_thread ex_create = 0x100"
    "threads ex_create = ex_threads" "pools ex_create 0 = ex_pool0" "res_at ex_pool0 0 = 0x1000"
    by (simp_all add: ex_create_def ex_pool_def cur_thread_def res_at_def ex_pool0_def)
  have q: "quiet ex_create" "can_sched ex_create" "\<not> c_lock (ctrls ex_create ThreadCtrl)"
    by (simp_all add: quiet_def can_sched_def ex_create_def ex_pool_def hal_get_intr_nesting_def CFG_MAX_CPU_def) (simp_all add: ex_kernel_def)
  have pf: "pool_free ex_create 0 [0, 1]" using ex_pool_free by (simp add: pool_free_def f)
  have R: "ex_create_R (FreePools ThreadCtrl) = Some [FreeL 0]" "ex_create_R PolicyQ = Some (map PolicyL [0, 1, 2])"
    "ex_create_R ThreadsQ = Some (map GlobalL [])"
    by (simp_all add: ex_create_R_def ex_pool_R_def ex_R_def)
  have "free_node ex_create_R x" if "x = Ready 0x1000 \<or> x = Pending 0x1000 \<or> x = Delaying 0x1000 \<or> x = Timing 0x1000 \<or> x = GlobalL 0x1000" for x
    using that ex_free by (fastforce simp: free_node_def ex_create_R_def ex_pool_R_def ex_R_def split: if_splits)
  then have nf: "nodes_free ex_create_R 0x1000" by (simp add: nodes_free_def)
  have ro: "\<forall>t \<in> ready_on ex_create ex_live 0. 3 < t_prio (ex_threads t)"
    by (auto simp: ready_on_def f ex_live_def ex_threads_def thread0_def)
  have ct: "t_state (ex_threads 0x100) \<noteq> STATE_EXIT" "preempt_type (ex_threads 0x100) = PREEMPT_LOCAL"
    by (simp_all add: ex_threads_def thread0_def state_defs)
  have "(0x40 :: u32) AND NOT 3 = 0x40" "max 0x40 CFG_MIN_STACK_SIZE = 0x80" "mem ex_create = ex_memory"
    by (simp_all add: CFG_MIN_STACK_SIZE_def ex_create_def)
  then obtain m where m: "stack_for (0x40 AND NOT 3) NULL (mem ex_create) = Some (0x9400, 0x80, m)"
    using ex_block by (auto simp: stack_for_def)
  obtain s' where "create_thread_by_policy (kernel_policies (\<lambda>_ _. Some) 0x300) 0x5000 0x40 0 0 (ucast ACORAL_SCHED_POLICY_COMM) ?pd 0 None
      ex_create = Some (Inr (res_word s' 0x1000), s')" "created 0x80 0x9400 0x5000 0 ?pd 0 (threads s' 0x1000)" "cur_thread s' = 0x1000"
    using create_thread_ready [OF ex_create_inv q(1,2) q(3) R(1) pf _ R(2,3) _ _ _ _ m, of ?pd "\<lambda>_ _. Some" "0x300" "0x5000" 0 0 None]
      nf ro ct by (auto simp: f(3-7) ex_live_def)
  then show ?thesis by (intro exI [of _ s']) (simp add: created_def)
qed

end
