(* ===== verification/Boot.thy ===== *)
theory Boot
  imports Timed Pcp
begin

text \<open>
  The start of the kernel (\<^verbatim>\<open>kernel/src/smp.c\<close>, \<^verbatim>\<open>libcpu/arm/cortex_a/zynq7020/hal_cmp_c.c\<close>) and the table of interrupt handlers
  (\<^verbatim>\<open>kernel/src/int.c\<close>). What is fixed by the linked image is a record: addresses of functions and objects, sizes of structures and
  the bounds of the heap. The interrupt controller's library is the argument \<open>gic\<close>. The interrupt flag of the processor, which
  \<^verbatim>\<open>acoral_intr_disable\<close> sets and the first critical section clears, is not part of the state.

  The first CPU starts the second one and waits for its acknowledgement, so the start of the second CPU is a step of the first; it runs with
  \<open>current_cpu\<close> set to its own number. \<^verbatim>\<open>HAL_START_OS\<close> loads the context of the running thread and never returns: the result
  of the functions that end with it is the state in which that thread begins.
\<close>

section \<open>Interrupt handlers\<close>

text \<open>The handler and its argument, per CPU and interrupt number.\<close>

type_synonym vectors = "u32 \<Rightarrow> u32 \<Rightarrow> ptr \<times> ptr"

definition acoral_intr_callback_register :: "u32 \<Rightarrow> u32 \<Rightarrow> ptr \<Rightarrow> ptr \<Rightarrow> vectors \<Rightarrow> vectors option" where
  "acoral_intr_callback_register cpu intr_id callback callback_arg v =
     (if callback = NULL then None else Some (v(cpu := (v cpu)(intr_id := (callback, callback_arg)))))"

text \<open>\<open>max_intr\<close> is the number of interrupts of the controller, and \<open>run\<close> calls a function.\<close>

definition acoral_intr_handler :: "u32 \<Rightarrow> (ptr \<Rightarrow> ptr \<Rightarrow> kop) \<Rightarrow> vectors \<Rightarrow> u32 \<Rightarrow> kop" where
  "acoral_intr_handler max_intr run v iar s =
     (let intr_id = iar AND 0x3FF; (handler, arg) = v (current_cpu s) intr_id in
      if intr_id < max_intr then run handler arg s else Some s)"

definition acoral_intr_sys_init :: "kop \<Rightarrow> kop" where
  "acoral_intr_sys_init gic s = gic (hal_intr_nesting_init s)"

section \<open>The image\<close>

record image =
  heap_start :: u32
  heap_end :: u32
  level_bytes :: "nat \<Rightarrow> int"
  tcb_size :: u32
  ipc_size :: u32
  vol_mutex :: ptr
  orig_thread :: ptr
  idle :: ptr
  init :: ptr
  init_arg :: ptr
  daem :: ptr
  idle_follow :: ptr
  hooks_run :: "ptr \<Rightarrow> ptr \<Rightarrow> kop"

definition IDLE_STACK_SIZE :: u32 where "IDLE_STACK_SIZE = 128"
definition DAEM_STACK_SIZE :: u32 where "DAEM_STACK_SIZE = 256"
definition INIT_STACK_SIZE :: u32 where "INIT_STACK_SIZE = 2048"
definition INIT_PRIO :: u8 where "INIT_PRIO = 0"

definition ACORAL_IDLE_PRIO :: u8 where "ACORAL_IDLE_PRIO = of_nat (ACORAL_MAX_PRIO_NUM - 1)"
definition ACORAL_DAEMON_PRIO :: u8 where "ACORAL_DAEMON_PRIO = of_nat (ACORAL_MAX_PRIO_NUM - 1) - 2"

section \<open>Modules\<close>

definition acoral_mem_sys_init :: "image \<Rightarrow> kop" where
  "acoral_mem_sys_init im s =
     do {
       (_, b) \<leftarrow> buddy_init (level_bytes im) (heap_start im) (heap_end im) (mem s);
       vol_mem_init (vol_mutex im) (s\<lparr>mem := b\<rparr>)
     }"

definition acoral_module_init :: "image \<Rightarrow> kop \<Rightarrow> kop" where
  "acoral_module_init im gic s =
     do {
       s \<leftarrow> acoral_intr_sys_init gic s;
       s \<leftarrow> acoral_mem_sys_init im s;
       s \<leftarrow> acoral_thread_sys_init (tcb_size im) (acoral_res_pool_sys_init s);
       acoral_ipc_sys_init (ipc_size im) (acoral_time_sys_init s)
     }"

section \<open>The first threads\<close>

text \<open>The value of type \<^verbatim>\<open>acoral_id\<close> that the creation of a thread returns: an id or an error code.\<close>

fun id_word :: "kernel_error + u32 \<Rightarrow> u32" where
  "id_word (Inl e) = word_of_int (err_code e)"
| "id_word (Inr w) = w"

text \<open>Creation of an ordinary thread at start-up. After a result of \<open>-1\<close> the code loops for ever.\<close>

definition start_thread :: "image \<Rightarrow> ptr \<Rightarrow> u32 \<Rightarrow> ptr \<Rightarrow> u8 \<Rightarrow> u32 kret" where
  "start_thread im route sz args prio s =
     do {
       (r, s) \<leftarrow> create_thread_by_policy (kernel_policies (hooks_run im) (vol_mutex im)) route sz args NULL (ucast ACORAL_SCHED_POLICY_COMM)
         \<lparr>pd_cpu = current_cpu s, pd_prio = prio, pd_time = 0, pd_start_time = [], pd_section_num = 0, pd_frequency = 0,
           pd_section_route = NULL, pd_section_args = NULL\<rparr> NULL None s;
       if id_word r = - 1 then None else Some (id_word r, s)
     }"

definition acoral_start_os :: kop where
  "acoral_start_os s =
     do {
       s \<leftarrow> acoral_select_thread (acoral_sched_init s);
       Some (acoral_set_running_thread (ready_thread s (current_cpu s)) s)
     }"

definition acoral_core_cpu_start :: "image \<Rightarrow> kop" where
  "acoral_core_cpu_start im s =
     do {
       (_, s) \<leftarrow> start_thread im (idle im) IDLE_STACK_SIZE NULL ACORAL_IDLE_PRIO (s\<lparr>sched_enable := False\<rparr>);
       (_, s) \<leftarrow> start_thread im (init im) INIT_STACK_SIZE (init_arg im) INIT_PRIO s;
       let s = s\<lparr>heap := acoral_fifo_queue_init ReleaseQ (heap s)\<rparr>;
       (i, s) \<leftarrow> start_thread im (daem im) DAEM_STACK_SIZE NULL ACORAL_DAEMON_PRIO s;
       acoral_start_os (s\<lparr>daemon_id := i\<rparr>)
     }"

definition acoral_follow_cpu_start :: "image \<Rightarrow> kop" where
  "acoral_follow_cpu_start im s =
     do {
       (_, s) \<leftarrow> start_thread im (idle_follow im) 128 NULL ACORAL_IDLE_PRIO s;
       acoral_start_os s
     }"

section \<open>The second CPU\<close>

definition acoral_follow_cpu_init :: "kop \<Rightarrow> kop" where
  "acoral_follow_cpu_init gic s = do { s \<leftarrow> acoral_cpu_set_active (current_cpu s) s; gic s }"

definition acoral_start_follow :: "image \<Rightarrow> kop \<Rightarrow> kop" where
  "acoral_start_follow im gic s =
     do {
       s \<leftarrow> acoral_follow_cpu_init gic (acoral_run_orig_thread (orig_thread im) s);
       acoral_follow_cpu_start im s
     }"

text \<open>The lock \<^verbatim>\<open>cmp_lock\<close> is taken by \<^verbatim>\<open>hal_prepare_cpus\<close> and released by the thread \<^verbatim>\<open>idle_follow\<close> of the started CPU when it
  begins to run; \<^verbatim>\<open>hal_start_cpu\<close> waits for it.\<close>

definition hal_start_cpu :: "image \<Rightarrow> kop \<Rightarrow> u32 \<Rightarrow> bool \<times> kstate \<Rightarrow> (bool \<times> kstate) option" where
  "hal_start_cpu im gic cpu = (\<lambda>(lk, s).
     do {
       t \<leftarrow> acoral_start_follow im gic (s\<lparr>current_cpu := cpu\<rparr>);
       let lk = (lk \<and> fst (t_entry (threads t (cur_thread t))) \<noteq> idle_follow im);
       if lk then None else Some (True, t\<lparr>current_cpu := current_cpu s\<rparr>)
     })"

fun start_cpus :: "image \<Rightarrow> kop \<Rightarrow> u32 list \<Rightarrow> bool \<times> kstate \<Rightarrow> (bool \<times> kstate) option" where
  "start_cpus im gic [] b = Some b"
| "start_cpus im gic (i # is) b =
     do {
       a \<leftarrow> acoral_cpu_is_active i (snd b);
       b \<leftarrow> (if a = 0 then hal_start_cpu im gic i b else Some b);
       start_cpus im gic is b
     }"

definition acoral_smp_init :: "image \<Rightarrow> kop \<Rightarrow> kop" where
  "acoral_smp_init im gic s =
     do {
       (_, s) \<leftarrow> start_cpus im gic (map of_nat [0..<CFG_MAX_CPU]) (True, s);
       Some (acoral_ipi_cmd_init s)
     }"

section \<open>The entry\<close>

text \<open>\<^verbatim>\<open>acoral_start\<close> on the first CPU; on the second it is \<open>acoral_start_follow\<close>.\<close>

definition acoral_start :: "image \<Rightarrow> kop \<Rightarrow> kop" where
  "acoral_start im gic s =
     do {
       s \<leftarrow> acoral_cpu_set_active (current_cpu s) s;
       let s = upd_thr (orig_thread im) (console_id_update (\<lambda>_. 1)) s;
       s \<leftarrow> acoral_module_init im gic (acoral_run_orig_thread (orig_thread im) s);
       s \<leftarrow> acoral_smp_init im gic s;
       acoral_core_cpu_start im (acoral_dpcp_system_init (acoral_mpcp_system_init s))
     }"

end
