(* ===== verification/Boot_Props.thy ===== *)
theory Boot_Props
  imports Boot Create_Props
begin

text \<open>
  Properties of the start: the initialisation of the ready queues establishes the invariant that all other theorems of the
  scheduler assume, the first thread that runs is the one of highest priority, and failures to create the first threads go
  unnoticed.
\<close>

section \<open>The ready queues\<close>

text \<open>The rings with empty ready queues for the priorities of one CPU, and for both CPUs.\<close>

definition with_rdy :: "u32 \<Rightarrow> nat \<Rightarrow> (knode \<rightharpoonup> knode list) \<Rightarrow> (knode \<rightharpoonup> knode list)" where
  "with_rdy c n R q = (case q of RdyQ d pr \<Rightarrow> if d = c \<and> pr < n then Some [] else R q | _ \<Rightarrow> R q)"

definition no_rdy :: "(knode \<rightharpoonup> knode list) \<Rightarrow> bool" where
  "no_rdy R \<longleftrightarrow> (\<forall>c pr. R (RdyQ c pr) = None \<and> free_node R (RdyQ c pr))"

lemma fifo_init_rings:
  assumes "rings h R" "R q = None" "free_node R q" "qlock h = (\<lambda>_. False)"
  shows "rings (acoral_fifo_queue_init q h) (R(q \<mapsto> []))" "qlock (acoral_fifo_queue_init q h) = (\<lambda>_. False)"
proof -
  have "rings (acoral_list_init q h) (R(q \<mapsto> []))" by (rule list_init_rings(1) [OF assms(1-3)])
  then show "rings (acoral_fifo_queue_init q h) (R(q \<mapsto> []))" by (simp add: acoral_fifo_queue_init_def queue_unlock_def)
  show "qlock (acoral_fifo_queue_init q h) = (\<lambda>_. False)"
    using assms(4) by (auto simp: acoral_fifo_queue_init_def acoral_list_init_def heap_upd_defs fun_eq_iff)
qed

lemma with_rdy_Suc: "with_rdy c (Suc n) R = (with_rdy c n R)(RdyQ c n \<mapsto> [])"
  by (rule ext) (auto simp: with_rdy_def less_Suc_eq split: knode.splits)

lemma free_with_rdy:
  assumes "free_node R x" "\<And>pr. pr < n \<Longrightarrow> x \<noteq> RdyQ c pr"
  shows "free_node (with_rdy c n R) x"
  using assms by (auto simp: free_node_def with_rdy_def split: knode.splits if_splits)

lemma prio_init_rings:
  assumes "rings h R" "qlock h = (\<lambda>_. False)" "\<And>pr. R (RdyQ c pr) = None \<and> free_node R (RdyQ c pr)"
  shows "rings (fold (\<lambda>i. acoral_fifo_queue_init (RdyQ c i)) [0..<n] h) (with_rdy c n R)"
    "qlock (fold (\<lambda>i. acoral_fifo_queue_init (RdyQ c i)) [0..<n] h) = (\<lambda>_. False)"
proof (induction n)
  case 0
  have "with_rdy c 0 R = R" by (rule ext) (auto simp: with_rdy_def split: knode.splits)
  then show "rings (fold (\<lambda>i. acoral_fifo_queue_init (RdyQ c i)) [0..<0] h) (with_rdy c 0 R)"
    "qlock (fold (\<lambda>i. acoral_fifo_queue_init (RdyQ c i)) [0..<0] h) = (\<lambda>_. False)" using assms(1,2) by simp_all
next
  case (Suc n)
  have "with_rdy c n R (RdyQ c n) = None" "free_node (with_rdy c n R) (RdyQ c n)"
    using assms(3) by (auto simp: with_rdy_def intro!: free_with_rdy)
  from fifo_init_rings [OF Suc(1) this Suc(2)]
  show "rings (fold (\<lambda>i. acoral_fifo_queue_init (RdyQ c i)) [0..<Suc n] h) (with_rdy c (Suc n) R)"
    "qlock (fold (\<lambda>i. acoral_fifo_queue_init (RdyQ c i)) [0..<Suc n] h) = (\<lambda>_. False)" by (simp_all add: with_rdy_Suc)
qed

lemma rdyqueue_init_unlocked:
  assumes "rings (heap s) R" "qlock (heap s) = (\<lambda>_. False)" "no_rdy R"
  shows "rdy_inv {} (acoral_sched_rdyqueue_init s) (with_rdy 1 61 (with_rdy 0 61 R))"
proof -
  let ?R1 = "with_rdy 0 61 R" and ?R2 = "with_rdy 1 61 (with_rdy 0 61 R)"
  let ?f = "\<lambda>c. fold (\<lambda>i. acoral_fifo_queue_init (RdyQ c i)) [0..<61]"
  have r0: "R (RdyQ c pr) = None \<and> free_node R (RdyQ c pr)" for c pr using assms(3) by (simp add: no_rdy_def)
  note r1 = prio_init_rings [OF assms(1,2) r0, of 0 61]
  have "?R1 (RdyQ 1 pr) = None \<and> free_node ?R1 (RdyQ 1 pr)" for pr
    using r0 by (auto simp: with_rdy_def intro!: free_with_rdy)
  note r2 = prio_init_rings [OF r1 this, of 61]
  have s: "acoral_sched_rdyqueue_init s = acoral_thread_prio_queue_init 1 (acoral_thread_prio_queue_init 0 s)"
    by (simp add: acoral_sched_rdyqueue_init_def CFG_MAX_CPU_def upt_rec)
  have h: "heap (acoral_sched_rdyqueue_init s) = ?f 1 (?f 0 (heap s))" by (simp add: s acoral_thread_prio_queue_init_def)
  have c2: "c = 0 \<or> c = 1" if "unat c < 2" for c :: u32 using that by (auto simp: less_2_cases_iff word_unat_eq_iff)
  have "cpu_ok {} (acoral_sched_rdyqueue_init s) ?R2 c" if "unat c < 2" for c
  proof -
    have e: "?R2 (RdyQ c pr) = Some []" if "pr < 61" for pr using c2 [OF \<open>unat c < 2\<close>] that by (auto simp: with_rdy_def)
    have "rdy_count ?R2 c = 0" by (simp add: rdy_count_def e)
    moreover have "rdy_bitmap (acoral_sched_rdyqueue_init s) c = [0, 0]" "rdy_num (acoral_sched_rdyqueue_init s) c = 0"
      using c2 [OF that] by (auto simp: s acoral_thread_prio_queue_init_def numeral_2_eq_2)
    ultimately show ?thesis using ex_bits(2) by (auto simp: cpu_ok_def e)
  qed
  then show ?thesis using r2 by (simp add: rdy_inv_def h CFG_MAX_CPU_def)
qed

text \<open>The spin locks of the ready queues of both CPUs are released by the initialisation: what they held before does not matter.\<close>

definition rdy_nodes :: "knode set" where
  "rdy_nodes = {RdyQ c pr | c pr. unat c < CFG_MAX_CPU \<and> pr < ACORAL_MAX_PRIO_NUM}"

definition unlock_nodes :: "knode set \<Rightarrow> knode lheap \<Rightarrow> knode lheap" where
  "unlock_nodes S h = h\<lparr>llock := (\<lambda>x. x \<notin> S \<and> llock h x), qlock := (\<lambda>x. x \<notin> S \<and> qlock h x)\<rparr>"

lemma unlock_nodes_empty [simp]: "unlock_nodes {} h = h"
  by (simp add: unlock_nodes_def)

lemma fifo_init_unlocks: "acoral_fifo_queue_init q (unlock_nodes S h) = unlock_nodes (S - {q}) (acoral_fifo_queue_init q h)"
  by (rule lheap.equality) (auto simp: unlock_nodes_def acoral_fifo_queue_init_def acoral_list_init_def heap_upd_defs fun_eq_iff)

lemma fifo_inits_unlock:
  "fold (\<lambda>i. acoral_fifo_queue_init (q i)) is (unlock_nodes S h) = unlock_nodes (S - q ` set is) (fold (\<lambda>i. acoral_fifo_queue_init (q i)) is h)"
proof (induction "is" arbitrary: S h)
  case (Cons i "is")
  have "S - {q i} - q ` set is = S - q ` set (i # is)" by auto
  then show ?case by (simp only: fold_simps fifo_init_unlocks Cons.IH)
qed simp

lemma prio_init_unlocks:
  "acoral_thread_prio_queue_init c (s\<lparr>heap := unlock_nodes S (heap s)\<rparr>) =
    (acoral_thread_prio_queue_init c s)\<lparr>heap := unlock_nodes (S - RdyQ c ` {..<ACORAL_MAX_PRIO_NUM}) (heap (acoral_thread_prio_queue_init c s))\<rparr>"
  by (simp add: acoral_thread_prio_queue_init_def fifo_inits_unlock lessThan_atLeast0)

lemma rdyqueue_init_unlocks: "acoral_sched_rdyqueue_init (s\<lparr>heap := unlock_nodes rdy_nodes (heap s)\<rparr>) = acoral_sched_rdyqueue_init s"
proof -
  have e: "rdy_nodes - RdyQ 0 ` {..<61} - RdyQ 1 ` {..<61} = {}"
    by (auto simp: rdy_nodes_def CFG_MAX_CPU_def less_2_cases_iff word_unat_eq_iff image_iff)
  have "acoral_sched_rdyqueue_init t = acoral_thread_prio_queue_init 1 (acoral_thread_prio_queue_init 0 t)" for t
    by (simp add: acoral_sched_rdyqueue_init_def CFG_MAX_CPU_def upt_rec)
  then show ?thesis by (simp add: prio_init_unlocks e del: Diff_eq_empty_iff)
qed

text \<open>C24. Initialising the ready queues makes the state well formed, whatever the ready queues, their locks, their bitmaps and their
  counters held before: with the lists in use linked properly and no lock held outside the ready queues, the invariant of the scheduler
  holds afterwards with no live thread, all ready queues of both CPUs empty and unlocked, and the other lists are as before.\<close>

theorem rdyqueue_init_wellformed:
  assumes "rings (unlock_nodes rdy_nodes (heap s)) R" "\<forall>x. x \<notin> rdy_nodes \<longrightarrow> \<not> qlock (heap s) x" "no_rdy R"
  shows "rdy_inv {} (acoral_sched_rdyqueue_init s) (with_rdy 1 61 (with_rdy 0 61 R))"
proof -
  have "qlock (unlock_nodes rdy_nodes (heap s)) = (\<lambda>_. False)" using assms(2) by (auto simp: unlock_nodes_def)
  then show ?thesis
    using rdyqueue_init_unlocked [of "s\<lparr>heap := unlock_nodes rdy_nodes (heap s)\<rparr>" R] assms(1,3) by (simp add: rdyqueue_init_unlocks)
qed

text \<open>A kernel before its initialisation: the nodes of the ready queues hold arbitrary links and taken locks, and one list is in use.\<close>

definition ex_raw :: kstate where
  "ex_raw = ex_kernel\<lparr>heap := \<lparr>lnext = (\<lambda>x. case x of RdyQ c pr \<Rightarrow> DelayQ | _ \<Rightarrow> x), lprev = (\<lambda>x. case x of RdyQ c pr \<Rightarrow> PeriodQ | _ \<Rightarrow> x),
     lvalue = (\<lambda>_. 0), llock = (\<lambda>x. x \<in> rdy_nodes), qlock = (\<lambda>x. x \<in> rdy_nodes)\<rparr>\<rparr>"

theorem rdyqueue_init_wellformed_witness:
  "rdy_inv {} (acoral_sched_rdyqueue_init ex_raw) (with_rdy 1 61 (with_rdy 0 61 [DelayQ \<mapsto> []]))"
proof -
  have "rings (unlock_nodes rdy_nodes (heap ex_raw)) [DelayQ \<mapsto> []]"
    by (auto simp: rings_def ring_def ex_raw_def unlock_nodes_def split: if_splits)
  moreover have "no_rdy [DelayQ \<mapsto> []]" by (auto simp: no_rdy_def free_node_def split: if_splits)
  ultimately show ?thesis using rdyqueue_init_wellformed [of ex_raw "[DelayQ \<mapsto> []]"] by (simp add: ex_raw_def)
qed

section \<open>The first thread\<close>

text \<open>\<open>acoral_start_os\<close> gives the CPU to the highest-priority ready thread, outside any critical section and with nothing to be
  scheduled.\<close>

theorem start_os_runs_highest:
  assumes inv: "rdy_inv L s R" and cpu: "unat (current_cpu s) < CFG_MAX_CPU" and ne: "ready_on s L (current_cpu s) \<noteq> {}"
  shows "\<exists>s'. acoral_start_os s = Some s' \<and> rdy_inv L s' R \<and> cur_thread s' \<in> ready_on s L (current_cpu s) \<and>
    (\<forall>t \<in> ready_on s L (current_cpu s). t_prio (threads s (cur_thread s')) \<le> t_prio (threads s t)) \<and>
    flag (t_state (threads s' (cur_thread s'))) STATE_RUNNING \<and> critical_nesting s' (current_cpu s) = 0 \<and>
    \<not> need_sched s' (current_cpu s) \<and> \<not> sched_lock s' (current_cpu s)"
proof -
  let ?s = "acoral_sched_init s"
  have f: "heap ?s = heap s" "threads ?s = threads s" "rdy_bitmap ?s = rdy_bitmap s" "rdy_num ?s = rdy_num s" "current_cpu ?s = current_cpu s"
    by (simp_all add: acoral_sched_init_def)
  have c: "current_cpu s < 2" using cpu by (simp add: CFG_MAX_CPU_def word_less_nat_alt)
  have inv': "rdy_inv L ?s R" using inv by (subst rdy_inv_cong [of _ s]) (simp_all add: f)
  have ro: "ready_on ?s L (current_cpu s) = ready_on s L (current_cpu s)" by (simp add: ready_on_def f)
  obtain p where p: "acoral_select_thread ?s = Some (?s\<lparr>ready_thread := (ready_thread ?s)(current_cpu s := p)\<rparr>)" "chosen ?s R p"
      "p \<in> ready_on s L (current_cpu s)"
    using select_thread_chosen [OF inv'] cpu ne unfolding f(5) ro by blast
  let ?t = "acoral_set_running_thread p (?s\<lparr>ready_thread := (ready_thread ?s)(current_cpu s := p)\<rparr>)"
  have "acoral_start_os s = Some ?t" by (simp add: acoral_start_os_def p(1) f(5))
  moreover have ct: "cur_thread ?t = p" "current_cpu ?t = current_cpu s"
    by (simp_all add: acoral_set_running_thread_def cur_thread_def upd_thr_def Let_def f(5))
  moreover have "rdy_inv L ?t R"
    using inv by (subst rdy_inv_cong [of _ s]) (simp_all add: acoral_set_running_thread_def upd_thr_def Let_def f)
  moreover have "flag (t_state (threads ?t p)) STATE_RUNNING"
    by (simp add: acoral_set_running_thread_def upd_thr_def Let_def flag_bits state_const_bits bit_or_iff)
  moreover have "t_prio (threads s p) \<le> t_prio (threads s t)" if "t \<in> ready_on s L (current_cpu s)" for t
    using chosen_highest [OF inv' _ p(2)] cpu that by (simp add: f ro)
  moreover have "critical_nesting ?t (current_cpu s) = 0" "\<not> need_sched ?t (current_cpu s)" "\<not> sched_lock ?t (current_cpu s)"
    using c by (simp_all add: acoral_set_running_thread_def upd_thr_def Let_def) (simp_all add: acoral_sched_init_def)
  ultimately show ?thesis using p(3) by (intro exI [of _ ?t]) simp
qed

section \<open>Failures\<close>

text \<open>No error of the creation of a thread is recognised at start-up: the code compares the result with \<open>-1\<close>, and the error codes
  are from \<open>-255\<close> to \<open>-235\<close>.\<close>

lemma error_id: "e \<noteq> KR_OK \<Longrightarrow> id_word (Inl e) \<noteq> - 1"
  by (cases e) simp_all

theorem start_ignores_errors:
  assumes "create_thread_by_policy (kernel_policies (hooks_run im) (vol_mutex im)) route sz args NULL (ucast ACORAL_SCHED_POLICY_COMM)
      \<lparr>pd_cpu = current_cpu s, pd_prio = prio, pd_time = 0, pd_start_time = [], pd_section_num = 0, pd_frequency = 0,
        pd_section_route = NULL, pd_section_args = NULL\<rparr> NULL None s = Some (Inl e, s')" "e \<noteq> KR_OK"
  shows "start_thread im route sz args prio s = Some (word_of_int (err_code e), s')"
  using assms error_id [OF assms(2)] by (simp add: start_thread_def)

end
