(* ===== verification/Dag.thy ===== *)
theory Dag
  imports Timed
begin

text \<open>
  The parallel programming framework (\<^verbatim>\<open>components/tmp/lib/src/dag.c\<close>): an application describes tasks and their predecessors;
  the framework builds nodes and edges from the description, and a periodic thread per node that waits for the semaphores of its
  predecessors before it runs its routine.

  The objects are in one store per type, by address, and their list nodes in a heap of lists of their own. Sizes of structures, the
  addresses of functions and the address of the mutex of the variable-size heap are fixed by the linked image, a record.
  Memory obtained from an allocator holds what the store has at its address. An allocation that fails is not noticed by the code,
  which then writes through a null pointer: \<open>None\<close>.
\<close>

section \<open>Data\<close>

datatype dnode =
    DagQ | UserQ
  | UserL ptr | UNodeQ ptr | UNodeL ptr
  | DagL ptr | NodeQ ptr | NodeL ptr | EdgeQ ptr | EdgeL ptr

fun user_entry :: "dnode \<Rightarrow> ptr option" where
  "user_entry (UserL p) = Some p"
| "user_entry _ = None"

fun unode_entry :: "dnode \<Rightarrow> ptr option" where
  "unode_entry (UNodeL p) = Some p"
| "unode_entry _ = None"

fun dag_entry :: "dnode \<Rightarrow> ptr option" where
  "dag_entry (DagL p) = Some p"
| "dag_entry _ = None"

fun node_entry :: "dnode \<Rightarrow> ptr option" where
  "node_entry (NodeL p) = Some p"
| "node_entry _ = None"

fun edge_entry :: "dnode \<Rightarrow> ptr option" where
  "edge_entry (EdgeL p) = Some p"
| "edge_entry _ = None"

text \<open>\<^verbatim>\<open>acoral_dag_user_node\<close>; the array of the predecessors' routines is a list.\<close>

record user_node =
  prev_route :: "ptr list"
  prev_count :: u32
  u_route :: ptr
  u_args :: ptr
  u_processor :: u32
  u_prio :: u8

record dag_node =
  n_route :: ptr
  n_args :: ptr
  in_degree :: u16
  n_sem :: ptr
  n_processor :: u32
  n_prio :: u8

record dag_edge =
  prev_node :: ptr
  next_node :: ptr

text \<open>\<^verbatim>\<open>dag_task_data_t\<close>; \<open>pend_ipc\<close> is the address of an array of semaphores.\<close>

record dag_task =
  pend_ipc :: ptr
  pend_ipc_cnt :: u32
  post_ipc :: ptr
  dag_route :: ptr
  dag_args :: ptr

record dag_image =
  node_size :: u32
  edge_size :: u32
  dag_size :: u32
  heap_mutex :: ptr
  task_route :: ptr
  deal_hook_adr :: ptr
  release_hook_adr :: ptr
  run_hook :: "ptr \<Rightarrow> ptr \<Rightarrow> kop"

record dags =
  dk :: kstate
  dheap :: "dnode lheap"
  user_nodes :: "ptr \<Rightarrow> user_node"
  user_period :: "ptr \<Rightarrow> u32"
  dag_nodes :: "ptr \<Rightarrow> dag_node"
  dag_edges :: "ptr \<Rightarrow> dag_edge"
  dag_period :: "ptr \<Rightarrow> u32"
  tasks :: "ptr \<Rightarrow> dag_task"
  ipc_arrays :: "ptr \<Rightarrow> nat \<Rightarrow> ptr"

type_synonym dop = "dags \<Rightarrow> dags option"

definition on_k :: "'r kret \<Rightarrow> dags \<Rightarrow> ('r \<times> dags) option" where
  "on_k f d = do { (r, k) \<leftarrow> f (dk d); Some (r, d\<lparr>dk := k\<rparr>) }"

text \<open>Allocation of a structure that is written at once.\<close>

definition dag_malloc :: "u32 \<Rightarrow> dags \<Rightarrow> (ptr \<times> dags) option" where
  "dag_malloc sz d = do { (a, d) \<leftarrow> on_k (buddy_malloc sz) d; if a = NULL then None else Some (a, d) }"

definition upd_node :: "ptr \<Rightarrow> (dag_node \<Rightarrow> dag_node) \<Rightarrow> dags \<Rightarrow> dags" where
  "upd_node n f d = d\<lparr>dag_nodes := (dag_nodes d)(n := f (dag_nodes d n))\<rparr>"

definition upd_edge :: "ptr \<Rightarrow> (dag_edge \<Rightarrow> dag_edge) \<Rightarrow> dags \<Rightarrow> dags" where
  "upd_edge e f d = d\<lparr>dag_edges := (dag_edges d)(e := f (dag_edges d e))\<rparr>"

definition lifo_in :: "dnode \<Rightarrow> dnode \<Rightarrow> dop" where
  "lifo_in q n d = do { h \<leftarrow> acoral_lifo_queue_add q n (acoral_list_init n (dheap d)); Some (d\<lparr>dheap := h\<rparr>) }"

section \<open>The description\<close>

definition dag_add_user_node :: "ptr \<Rightarrow> ptr \<Rightarrow> dop" where
  "dag_add_user_node dag_user user_node d = lifo_in (UNodeQ dag_user) (UNodeL user_node) d"

definition dag_add_user :: "ptr \<Rightarrow> dop" where
  "dag_add_user dag_user d =
     (let h = acoral_lifo_queue_init (UNodeQ dag_user) (acoral_list_init (UserL dag_user) (dheap d)) in
      do { h \<leftarrow> acoral_lifo_queue_add UserQ (UserL dag_user) h; Some (d\<lparr>dheap := h\<rparr>) })"

section \<open>Nodes\<close>

text \<open>The arguments of the routine are not copied: \<open>n_args\<close> keeps what the memory held.\<close>

definition dag_node_init :: "dag_image \<Rightarrow> ptr \<Rightarrow> ptr \<Rightarrow> dop" where
  "dag_node_init im dag user_node d =
     do {
       (node, d) \<leftarrow> dag_malloc (node_size im) d;
       let u = user_nodes d user_node;
       let d = upd_node node (\<lambda>n. n\<lparr>in_degree := ucast (prev_count u), n_route := u_route u\<rparr>) d;
       (sem, d) \<leftarrow> on_k (acoral_sem_create 0) d;
       let d = upd_node node (\<lambda>n. n\<lparr>n_sem := sem, n_processor := u_processor u, n_prio := u_prio u\<rparr>) d;
       lifo_in (NodeQ dag) (NodeL node) d
     }"

partial_function (option) node_create_loop :: "dag_image \<Rightarrow> ptr \<Rightarrow> ptr \<Rightarrow> dnode \<Rightarrow> dags \<Rightarrow> dags option" where
  "node_create_loop im dag dag_user tmp d =
     (if tmp = UNodeQ dag_user then Some d
      else do {
        u \<leftarrow> unode_entry tmp;
        d \<leftarrow> dag_node_init im dag u d;
        node_create_loop im dag dag_user (lnext (dheap d) tmp) d
      })"

definition dag_node_create :: "dag_image \<Rightarrow> ptr \<Rightarrow> ptr \<Rightarrow> dop" where
  "dag_node_create im dag dag_user d = node_create_loop im dag dag_user (lnext (dheap d) (UNodeQ dag_user)) d"

section \<open>Edges\<close>

text \<open>The node of a user node: the first one with its routine, otherwise the last one of the list. \<open>cur\<close> is the variable
  \<^verbatim>\<open>next_node\<close>, at first not initialised (\<open>None\<close>).\<close>

partial_function (option) next_search :: "dags \<Rightarrow> ptr \<Rightarrow> ptr \<Rightarrow> ptr option \<Rightarrow> dnode \<Rightarrow> ptr option option" where
  "next_search d dag route cur tmp =
     (if tmp = NodeQ dag then Some cur
      else do {
        n \<leftarrow> node_entry tmp;
        if n_route (dag_nodes d n) = route then Some (Some n) else next_search d dag route (Some n) (lnext (dheap d) tmp)
      })"

text \<open>The node of a predecessor; a node with the routine of the user node itself is passed over.\<close>

partial_function (option) prev_search :: "dags \<Rightarrow> ptr \<Rightarrow> ptr \<Rightarrow> ptr \<Rightarrow> dnode \<Rightarrow> ptr option option" where
  "prev_search d dag route prev tmp =
     (if tmp = NodeQ dag then Some None
      else do {
        n \<leftarrow> node_entry tmp;
        if n_route (dag_nodes d n) = route then prev_search d dag route prev (lnext (dheap d) tmp)
        else if n_route (dag_nodes d n) = prev then Some (Some n)
        else prev_search d dag route prev (lnext (dheap d) tmp)
      })"

text \<open>One edge. Without a node for the predecessor \<open>prev_node\<close> keeps what the memory held.\<close>

definition edge_add :: "dag_image \<Rightarrow> ptr \<Rightarrow> ptr \<Rightarrow> ptr \<Rightarrow> nat \<Rightarrow> dop" where
  "edge_add im dag user_node nn i d =
     do {
       (edge, d) \<leftarrow> dag_malloc (edge_size im) d;
       let d = upd_edge edge (next_node_update (\<lambda>_. nn)) d;
       let u = user_nodes d user_node;
       if i \<ge> length (prev_route u) then None
       else do {
         let prev = prev_route u ! i;
         d \<leftarrow> (if prev = NULL then Some (upd_edge edge (prev_node_update (\<lambda>_. NULL)) d)
              else do {
                r \<leftarrow> prev_search d dag (u_route u) prev (lnext (dheap d) (NodeQ dag));
                Some (case r of None \<Rightarrow> d | Some p \<Rightarrow> upd_edge edge (prev_node_update (\<lambda>_. p)) d)
              });
         lifo_in (EdgeQ dag) (EdgeL edge) d
       }
     }"

fun edge_adds :: "dag_image \<Rightarrow> ptr \<Rightarrow> ptr \<Rightarrow> ptr \<Rightarrow> nat list \<Rightarrow> dop" where
  "edge_adds im dag user_node nn [] d = Some d"
| "edge_adds im dag user_node nn (i # is) d = do { d \<leftarrow> edge_add im dag user_node nn i d; edge_adds im dag user_node nn is d }"

definition dag_edge_init :: "dag_image \<Rightarrow> ptr \<Rightarrow> ptr \<Rightarrow> dop" where
  "dag_edge_init im dag user_node d =
     do {
       r \<leftarrow> next_search d dag (u_route (user_nodes d user_node)) None (lnext (dheap d) (NodeQ dag));
       nn \<leftarrow> r;
       edge_adds im dag user_node nn [0..<unat (in_degree (dag_nodes d nn))] d
     }"

partial_function (option) edge_create_loop :: "dag_image \<Rightarrow> ptr \<Rightarrow> ptr \<Rightarrow> dnode \<Rightarrow> dags \<Rightarrow> dags option" where
  "edge_create_loop im dag dag_user tmp d =
     (if tmp = UNodeQ dag_user then Some d
      else do {
        u \<leftarrow> unode_entry tmp;
        d \<leftarrow> dag_edge_init im dag u d;
        edge_create_loop im dag dag_user (lnext (dheap d) tmp) d
      })"

definition dag_edge_create :: "dag_image \<Rightarrow> ptr \<Rightarrow> ptr \<Rightarrow> dop" where
  "dag_edge_create im dag dag_user d = edge_create_loop im dag dag_user (lnext (dheap d) (UNodeQ dag_user)) d"

section \<open>Graphs\<close>

definition acoral_dag_init :: "dag_image \<Rightarrow> ptr \<Rightarrow> dop" where
  "acoral_dag_init im dag_user d =
     do {
       (dag, d) \<leftarrow> dag_malloc (dag_size im) d;
       let d = d\<lparr>dheap := acoral_lifo_queue_init (EdgeQ dag) (acoral_lifo_queue_init (NodeQ dag) (dheap d)),
                 dag_period := (dag_period d)(dag := user_period d dag_user)\<rparr>;
       d \<leftarrow> dag_node_create im dag dag_user d;
       d \<leftarrow> dag_edge_create im dag dag_user d;
       lifo_in DagQ (DagL dag) d
     }"

partial_function (option) dag_create_loop :: "dag_image \<Rightarrow> dnode \<Rightarrow> dags \<Rightarrow> dags option" where
  "dag_create_loop im tmp d =
     (if tmp = UserQ then Some d
      else do { u \<leftarrow> user_entry tmp; d \<leftarrow> acoral_dag_init im u d; dag_create_loop im (lnext (dheap d) tmp) d })"

definition acoral_dag_create :: "dag_image \<Rightarrow> dop" where
  "acoral_dag_create im d = dag_create_loop im (lnext (dheap d) UserQ) d"

section \<open>Threads\<close>

text \<open>The semaphores of the predecessors of node \<open>n\<close>, entered in the array from index \<open>cnt\<close>, an 8-bit counter. An edge without
  predecessor is read through a null pointer, and so is the array written when it could not be allocated.\<close>

partial_function (option) pend_loop :: "ptr \<Rightarrow> ptr \<Rightarrow> ptr \<Rightarrow> dnode \<Rightarrow> u8 \<Rightarrow> dags \<Rightarrow> dags option" where
  "pend_loop dag n arr tmp cnt d =
     (if tmp = EdgeQ dag then Some d
      else do {
        e \<leftarrow> edge_entry tmp;
        if next_node (dag_edges d e) = n then
          if prev_node (dag_edges d e) = NULL \<or> arr = NULL then None
          else
            let d = d\<lparr>ipc_arrays := (ipc_arrays d)(arr := (ipc_arrays d arr)(unat cnt := n_sem (dag_nodes d (prev_node (dag_edges d e)))))\<rparr>;
                cnt = cnt + 1
            in if ucast cnt \<ge> in_degree (dag_nodes d n) then Some d else pend_loop dag n arr (lnext (dheap d) tmp) cnt d
        else pend_loop dag n arr (lnext (dheap d) tmp) cnt d
      })"

definition dag_vol_malloc :: "dag_image \<Rightarrow> u32 \<Rightarrow> dags \<Rightarrow> (ptr \<times> dags) option" where
  "dag_vol_malloc im sz d = do { (a, d) \<leftarrow> on_k (vol_malloc_now (heap_mutex im) sz) d; if a = NULL then None else Some (a, d) }"

definition node_to_thread :: "dag_image \<Rightarrow> ptr \<Rightarrow> ptr \<Rightarrow> dop" where
  "node_to_thread im dag n d =
     do {
       (t, d) \<leftarrow> dag_vol_malloc im 20 d;
       let nd = dag_nodes d n;
       (arr, d) \<leftarrow> on_k (vol_malloc_now (heap_mutex im) (ucast (in_degree nd) * 4)) d;
       let d = d\<lparr>tasks := (tasks d)(t := \<lparr>pend_ipc = arr, pend_ipc_cnt = ucast (in_degree nd), post_ipc = n_sem nd,
                    dag_route = n_route nd, dag_args = n_args nd\<rparr>)\<rparr>;
       d \<leftarrow> (if in_degree nd > 0 then pend_loop dag n arr (lnext (dheap d) (EdgeQ dag)) 0 d else Some d);
       (pd, d) \<leftarrow> dag_vol_malloc im 12 d;
       (_, d) \<leftarrow> on_k (create_thread_by_policy (kernel_policies (run_hook im) (heap_mutex im)) (task_route im) 1024 NULL NULL
           (ucast ACORAL_SCHED_POLICY_PERIOD)
           \<lparr>pd_cpu = n_processor nd, pd_prio = n_prio nd, pd_time = dag_period d dag, pd_start_time = [], pd_section_num = 0,
             pd_frequency = 0, pd_section_route = NULL, pd_section_args = NULL\<rparr>
           t (Some (deal_hook_adr im, release_hook_adr im))) d;
       k \<leftarrow> vol_free_now (heap_mutex im) pd (dk d);
       Some (d\<lparr>dk := k\<rparr>)
     }"

partial_function (option) node_thread_loop :: "dag_image \<Rightarrow> ptr \<Rightarrow> dnode \<Rightarrow> dags \<Rightarrow> dags option" where
  "node_thread_loop im dag tmp d =
     (if tmp = NodeQ dag then Some d
      else do { n \<leftarrow> node_entry tmp; d \<leftarrow> node_to_thread im dag n d; node_thread_loop im dag (lnext (dheap d) tmp) d })"

partial_function (option) dag_thread_loop :: "dag_image \<Rightarrow> dnode \<Rightarrow> dags \<Rightarrow> dags option" where
  "dag_thread_loop im tmp d =
     (if tmp = DagQ then Some d
      else do {
        dag \<leftarrow> dag_entry tmp;
        d \<leftarrow> node_thread_loop im dag (lnext (dheap d) (NodeQ dag)) d;
        dag_thread_loop im (lnext (dheap d) tmp) d
      })"

definition acoral_dag_to_thread :: "dag_image \<Rightarrow> dop" where
  "acoral_dag_to_thread im d = dag_thread_loop im (lnext (dheap d) DagQ) d"

text \<open>\<^verbatim>\<open>dag_user_init\<close> is the application's.\<close>

definition dag_decode :: "dag_image \<Rightarrow> dop \<Rightarrow> dop" where
  "dag_decode im dag_user_init d =
     do {
       d \<leftarrow> dag_user_init (d\<lparr>dheap := acoral_lifo_queue_init UserQ (acoral_lifo_queue_init DagQ (dheap d))\<rparr>);
       d \<leftarrow> acoral_dag_create im d;
       acoral_dag_to_thread im d
     }"

section \<open>The task\<close>

text \<open>The body of a thread from the wait for semaphore \<open>i\<close> on. \<open>Some j\<close>: the thread waits for semaphore \<open>j\<close>; when it runs again it
  goes on with \<open>dag_task_resume\<close>. \<open>run\<close> calls a function of the application. The cases without task data only print.\<close>

fun dag_pends :: "(nat \<Rightarrow> ptr) \<Rightarrow> nat list \<Rightarrow> nat option kret" where
  "dag_pends arr [] k = Some (None, k)"
| "dag_pends arr (i # is) k =
     do { (r, k) \<leftarrow> acoral_sem_pends (arr i) k; if r = Blocked then Some (Some i, k) else dag_pends arr is k }"

definition dag_task_from :: "(ptr \<Rightarrow> ptr \<Rightarrow> kop) \<Rightarrow> dag_task \<Rightarrow> (nat \<Rightarrow> ptr) \<Rightarrow> nat \<Rightarrow> nat option kret" where
  "dag_task_from run t arr i k =
     do {
       (r, k) \<leftarrow> dag_pends arr [i..<unat (pend_ipc_cnt t)] k;
       if r \<noteq> None then Some (r, k)
       else do {
         k \<leftarrow> run (dag_route t) (dag_args t) k;
         (_, k) \<leftarrow> acoral_sem_posts (post_ipc t) k;
         Some (None, k)
       }
     }"

definition acoral_dag_task :: "(ptr \<Rightarrow> ptr \<Rightarrow> kop) \<Rightarrow> dags \<Rightarrow> (nat option \<times> dags) option" where
  "acoral_dag_task run d =
     (let a = t_data (threads (dk d) (cur_thread (dk d))); t = tasks d a in
      if a = NULL then Some (None, d) else on_k (dag_task_from run t (ipc_arrays d (pend_ipc t)) 0) d)"

definition dag_task_resume :: "(ptr \<Rightarrow> ptr \<Rightarrow> kop) \<Rightarrow> ptr \<Rightarrow> nat \<Rightarrow> dags \<Rightarrow> (nat option \<times> dags) option" where
  "dag_task_resume run cur j d =
     (let t = tasks d (t_data (threads (dk d) cur)); arr = ipc_arrays d (pend_ipc t) in
      do {
        (_, d) \<leftarrow> on_k (acoral_sem_pend_resume (arr j) cur) d;
        on_k (dag_task_from run t arr (Suc j)) d
      })"

text \<open>The hooks of the threads, called with the thread at the start of a period and when the thread is released.\<close>

definition dag_deal_hook :: "ptr \<Rightarrow> dop" where
  "dag_deal_hook p d = do { (_, d) \<leftarrow> on_k (acoral_sem_init (post_ipc (tasks d (t_data (threads (dk d) p)))) 0) d; Some d }"

definition dag_release_hook :: "dag_image \<Rightarrow> ptr \<Rightarrow> dop" where
  "dag_release_hook im p d =
     do {
       let a = t_data (threads (dk d) p);
       let d = d\<lparr>tasks := (tasks d)(a := (tasks d a)\<lparr>dag_route := NULL, dag_args := NULL\<rparr>)\<rparr>;
       k \<leftarrow> vol_free_now (heap_mutex im) (pend_ipc (tasks d a)) (dk d);
       let d = d\<lparr>dk := k, tasks := (tasks d)(a := (tasks d a)\<lparr>pend_ipc := NULL, post_ipc := NULL\<rparr>)\<rparr>;
       k \<leftarrow> vol_free_now (heap_mutex im) a (dk d);
       Some (d\<lparr>dk := upd_thr p (t_data_update (\<lambda>_. NULL)) k\<rparr>)
     }"

end
