(* ===== verification/Dag_Props.thy ===== *)
theory Dag_Props
  imports Dag Ticklist Ringwalk Mem_Props Pool_Props
begin

text \<open>
  Properties of the parallel programming framework: the edges that are built from the description of a node, and the semaphores its
  thread waits for.
\<close>

section \<open>Searches\<close>

lemma prev_search_step:
  "prev_search d dag route prev x = (if x = NodeQ dag then Some None else
     (case do { n \<leftarrow> node_entry x; Some (if n_route (dag_nodes d n) \<noteq> route \<and> n_route (dag_nodes d n) = prev then Some n else None) } of
        None \<Rightarrow> None | Some None \<Rightarrow> prev_search d dag route prev (lnext (dheap d) x) | Some (Some y) \<Rightarrow> Some (Some y)))"
  by (subst prev_search.simps) (auto split: Option.bind_splits)

interpretation prevs: ring_search "NodeQ dag" "\<lambda>(d, route, prev). prev_search d dag route prev" "\<lambda>(d, route, prev). dheap d"
    "\<lambda>(d, route, prev) x. do { n \<leftarrow> node_entry x; Some (if n_route (dag_nodes d n) \<noteq> route \<and> n_route (dag_nodes d n) = prev then Some n else None) }"
  for dag
  by unfold_locales (simp only: split_paired_all prod.case, rule prev_search_step)

lemma prev_search_first:
  "ring (dheap d) (NodeQ dag) (map NodeL ns) \<Longrightarrow> prev \<noteq> route \<Longrightarrow>
   prev_search d dag route prev (lnext (dheap d) (NodeQ dag)) = Some (find (\<lambda>n. n_route (dag_nodes d n) = prev) ns)"
  using prevs.ring_find [of "(d, route, prev)" dag NodeL ns "\<lambda>n. n_route (dag_nodes d n) = prev"] by fastforce

lemma next_search_links:
  assumes "links (dheap d) x (map NodeL ns) (NodeQ dag)" "find (\<lambda>n. n_route (dag_nodes d n) = route) ns = Some nn"
  shows "next_search d dag route cur (lnext (dheap d) x) = Some (Some nn)"
  using assms
proof (induction ns arbitrary: x cur)
  case (Cons n ns)
  then show ?case by (subst next_search.simps) (auto split: if_splits)
qed simp

section \<open>Edges\<close>

text \<open>The edges that \<open>as\<close>, the results of successive allocations, become.\<close>

fun mallocs :: "u32 \<Rightarrow> ptr list \<Rightarrow> kstate \<Rightarrow> kstate \<Rightarrow> bool" where
  "mallocs sz [] k k' \<longleftrightarrow> k' = k"
| "mallocs sz (a # as) k k' \<longleftrightarrow> (\<exists>k1. buddy_malloc sz k = Some (a, k1) \<and> mallocs sz as k1 k')"

text \<open>The \<open>i\<close>-th predecessor of user node \<open>u\<close> is the node \<open>p\<close> of the graph.\<close>

definition pred_node :: "dags \<Rightarrow> ptr list \<Rightarrow> ptr \<Rightarrow> nat \<Rightarrow> ptr \<Rightarrow> bool" where
  "pred_node d ns u i p \<longleftrightarrow> i < length (prev_route (user_nodes d u)) \<and> prev_route (user_nodes d u) ! i \<noteq> NULL \<and>
     prev_route (user_nodes d u) ! i \<noteq> u_route (user_nodes d u) \<and>
     find (\<lambda>n. n_route (dag_nodes d n) = prev_route (user_nodes d u) ! i) ns = Some p"

definition dag_frame :: "dags \<Rightarrow> dags \<Rightarrow> bool" where
  "dag_frame d d' \<longleftrightarrow> dag_nodes d' = dag_nodes d \<and> user_nodes d' = user_nodes d \<and> tasks d' = tasks d \<and> ipc_arrays d' = ipc_arrays d"

lemma edge_add_ok:
  assumes R: "rings (dheap d) R" "qlock (dheap d) = (\<lambda>_. False)" "R (NodeQ dag) = Some (map NodeL ns)" "R (EdgeQ dag) = Some xs"
    and m: "buddy_malloc (edge_size im) (dk d) = Some (e, k)" "e \<noteq> NULL" "free_node R (EdgeL e)" and p: "pred_node d ns u i p"
  shows "\<exists>h. edge_add im dag u nn i d = Some (d\<lparr>dk := k, dag_edges := (dag_edges d)(e := \<lparr>prev_node = p, next_node = nn\<rparr>), dheap := h\<rparr>) \<and>
    rings h (R(EdgeQ dag \<mapsto> EdgeL e # xs)) \<and> qlock h = (\<lambda>_. False)"
proof -
  let ?h = "acoral_list_init (EdgeL e) (dheap d)"
  have r: "rings ?h R" "\<not> qlock ?h (EdgeQ dag)" and ql: "qlock ?h = (\<lambda>_. False)"
    using list_init_free [OF R(1) m(3)] R(2) by (simp_all add: acoral_list_init_def heap_upd_defs)
  obtain h where h: "acoral_lifo_queue_add (EdgeQ dag) (EdgeL e) ?h = Some h" "rings h (R(EdgeQ dag \<mapsto> EdgeL e # xs))" "qlock h = qlock ?h"
    using lifo_add_rings [OF r(1) R(4) r(2) m(3)] by blast
  let ?d = "upd_edge e (next_node_update (\<lambda>_. nn)) (d\<lparr>dk := k\<rparr>)"
  have pr: "prev_search ?d dag (u_route (user_nodes d u)) (prev_route (user_nodes d u) ! i) (lnext (dheap ?d) (NodeQ dag)) = Some (Some p)"
    using prev_search_first [of ?d dag ns "prev_route (user_nodes d u) ! i"] ringsD [OF R(1,3)] p
    by (simp add: upd_edge_def pred_node_def)
  have "edge_add im dag u nn i d = Some (d\<lparr>dk := k, dag_edges := (dag_edges d)(e := \<lparr>prev_node = p, next_node = nn\<rparr>), dheap := h\<rparr>)"
    using m(1,2) p pr h(1)
    by (cases "dag_edges d e") (simp add: edge_add_def dag_malloc_def on_k_def upd_edge_def pred_node_def lifo_in_def Let_def not_le)
  then show ?thesis using h(2,3) ql by auto
qed

lemma edge_adds_ok:
  assumes "rings (dheap d) R" "qlock (dheap d) = (\<lambda>_. False)" "R (NodeQ dag) = Some (map NodeL ns)" "R (EdgeQ dag) = Some xs"
    "mallocs (edge_size im) es (dk d) k" "length es = length is" "distinct es" "\<forall>e \<in> set es. e \<noteq> NULL \<and> free_node R (EdgeL e)"
    "\<forall>i \<in> set is. pred_node d ns u i (p i)"
  shows "\<exists>d'. edge_adds im dag u nn is d = Some d' \<and> dk d' = k \<and> dag_frame d d' \<and>
    rings (dheap d') (R(EdgeQ dag \<mapsto> map EdgeL (rev es) @ xs)) \<and> qlock (dheap d') = (\<lambda>_. False) \<and>
    (\<forall>j < length es. dag_edges d' (es ! j) = \<lparr>prev_node = p (is ! j), next_node = nn\<rparr>) \<and>
    (\<forall>e. e \<notin> set es \<longrightarrow> dag_edges d' e = dag_edges d e)"
  using assms
proof (induction es arbitrary: "is" d R xs)
  case Nil
  then show ?case by (simp add: dag_frame_def fun_upd_idem)
next
  case (Cons e es)
  obtain i is' where i: "is = i # is'" using Cons.prems(6) by (cases "is") auto
  obtain k1 where k1: "buddy_malloc (edge_size im) (dk d) = Some (e, k1)" "mallocs (edge_size im) es k1 k" using Cons.prems(5) by auto
  have e: "e \<noteq> NULL" "free_node R (EdgeL e)" "pred_node d ns u i (p i)" using Cons.prems(8,9) by (simp_all add: i)
  obtain h where h: "edge_add im dag u nn i d = Some (d\<lparr>dk := k1, dag_edges := (dag_edges d)(e := \<lparr>prev_node = p i, next_node = nn\<rparr>), dheap := h\<rparr>)"
      "rings h (R(EdgeQ dag \<mapsto> EdgeL e # xs))" "qlock h = (\<lambda>_. False)"
    using edge_add_ok [OF Cons.prems(1-4) k1(1) e] by blast
  let ?d = "d\<lparr>dk := k1, dag_edges := (dag_edges d)(e := \<lparr>prev_node = p i, next_node = nn\<rparr>), dheap := h\<rparr>"
  let ?R = "R(EdgeQ dag \<mapsto> EdgeL e # xs)"
  have fr: "\<forall>a \<in> set es. a \<noteq> NULL \<and> free_node ?R (EdgeL a)"
  proof
    fix a assume a: "a \<in> set es"
    then have "free_node R (EdgeL a)" "a \<noteq> NULL" "a \<noteq> e" using Cons.prems(7,8) by auto
    then show "a \<noteq> NULL \<and> free_node ?R (EdgeL a)"
      using free_nodeD [of R "EdgeL a", OF _ Cons.prems(4)] by (auto intro!: free_node_upd)
  qed
  have pr: "\<forall>j \<in> set is'. pred_node ?d ns u j (p j)" using Cons.prems(9) by (simp add: i pred_node_def)
  have st: "?R (NodeQ dag) = Some (map NodeL ns)" "?R (EdgeQ dag) = Some (EdgeL e # xs)" "length es = length is'" "distinct es"
    using Cons.prems(3,6,7) by (simp_all add: i)
  have "\<exists>d'. edge_adds im dag u nn is' ?d = Some d' \<and> dk d' = k \<and> dag_frame ?d d' \<and>
    rings (dheap d') (?R(EdgeQ dag \<mapsto> map EdgeL (rev es) @ EdgeL e # xs)) \<and> qlock (dheap d') = (\<lambda>_. False) \<and>
    (\<forall>j < length es. dag_edges d' (es ! j) = \<lparr>prev_node = p (is' ! j), next_node = nn\<rparr>) \<and>
    (\<forall>a. a \<notin> set es \<longrightarrow> dag_edges d' a = dag_edges ?d a)"
    using Cons.IH [of ?d ?R "EdgeL e # xs" is'] st h(2,3) k1(2) fr pr by (simp del: fun_upd_apply)
  then obtain d' where d': "edge_adds im dag u nn is' ?d = Some d'" "dk d' = k" "dag_frame ?d d'"
      "rings (dheap d') (?R(EdgeQ dag \<mapsto> map EdgeL (rev es) @ EdgeL e # xs))" "qlock (dheap d') = (\<lambda>_. False)"
      "\<forall>j < length es. dag_edges d' (es ! j) = \<lparr>prev_node = p (is' ! j), next_node = nn\<rparr>"
      "\<forall>a. a \<notin> set es \<longrightarrow> dag_edges d' a = dag_edges ?d a" by blast
  have "rings (dheap d') (R(EdgeQ dag \<mapsto> map EdgeL (rev (e # es)) @ xs))" using d'(4) by (simp del: fun_upd_apply)
  moreover have "\<forall>j < length (e # es). dag_edges d' ((e # es) ! j) = \<lparr>prev_node = p (is ! j), next_node = nn\<rparr>"
    using d'(6,7) Cons.prems(7) by (auto simp: i nth_Cons split: nat.splits)
  moreover have "dag_frame d d'" "\<forall>a. a \<notin> set (e # es) \<longrightarrow> dag_edges d' a = dag_edges d a"
    using d'(3,7) by (simp_all add: dag_frame_def)
  moreover have "edge_adds im dag u nn is d = Some d'" using h(1) d'(1) by (simp add: i)
  ultimately show ?case using d'(2,5) by blast
qed

section \<open>Semaphores to wait for\<close>

text \<open>The array with the values \<open>vs\<close> entered from index \<open>i\<close>.\<close>

definition arr_put :: "(nat \<Rightarrow> ptr) \<Rightarrow> nat \<Rightarrow> ptr list \<Rightarrow> nat \<Rightarrow> ptr" where
  "arr_put f i vs j = (if i \<le> j \<and> j < i + length vs then vs ! (j - i) else f j)"

lemma arr_put_Nil [simp]: "arr_put f i [] = f"
  by (rule ext) (auto simp: arr_put_def)

lemma arr_put_Cons: "arr_put f i (v # vs) = arr_put (f(i := v)) (Suc i) vs"
proof (rule ext)
  fix j
  show "arr_put f i (v # vs) j = arr_put (f(i := v)) (Suc i) vs j"
    by (cases "j \<le> i") (auto simp: arr_put_def Suc_diff_Suc)
qed

text \<open>The semaphores of the predecessors of \<open>n\<close>, in the order of the edges.\<close>

definition pred_sems :: "dags \<Rightarrow> ptr list \<Rightarrow> ptr \<Rightarrow> ptr list" where
  "pred_sems d es n = map (\<lambda>e. n_sem (dag_nodes d (prev_node (dag_edges d e)))) (filter (\<lambda>e. next_node (dag_edges d e) = n) es)"

lemma pend_loop_ok:
  assumes "links (dheap d) x (map EdgeL es) (EdgeQ dag)" "unat cnt + length (pred_sems d es n) = unat (in_degree (dag_nodes d n))"
    "unat (in_degree (dag_nodes d n)) < 256" "\<forall>e \<in> set es. next_node (dag_edges d e) = n \<longrightarrow> prev_node (dag_edges d e) \<noteq> NULL"
    "arr \<noteq> NULL"
  shows "pend_loop dag n arr (lnext (dheap d) x) cnt d =
    Some (d\<lparr>ipc_arrays := (ipc_arrays d)(arr := arr_put (ipc_arrays d arr) (unat cnt) (pred_sems d es n))\<rparr>)"
  using assms
proof (induction es arbitrary: x cnt d)
  case Nil
  then show ?case by (subst pend_loop.simps) (simp add: pred_sems_def)
next
  case (Cons e es)
  have l: "lnext (dheap d) x = EdgeL e" "links (dheap d) (EdgeL e) (map EdgeL es) (EdgeQ dag)" using Cons.prems(1) by simp_all
  show ?case
  proof (cases "next_node (dag_edges d e) = n")
    case False
    then have "pred_sems d (e # es) n = pred_sems d es n" by (simp add: pred_sems_def)
    then show ?thesis using Cons.IH [OF l(2), of cnt] Cons.prems(2-5) False by (subst pend_loop.simps) (simp add: l(1) fun_upd_def)
  next
    case True
    let ?v = "n_sem (dag_nodes d (prev_node (dag_edges d e)))"
    let ?d = "d\<lparr>ipc_arrays := (ipc_arrays d)(arr := (ipc_arrays d arr)(unat cnt := ?v))\<rparr>"
    have ps: "pred_sems d (e # es) n = ?v # pred_sems d es n" "pred_sems ?d es n = pred_sems d es n" using True by (simp_all add: pred_sems_def)
    have "unat cnt < 255" using Cons.prems(2,3) by (simp add: ps)
    then have "unat (of_nat (Suc (unat cnt)) :: u8) = Suc (unat cnt)" by (simp only: unat_of_nat) (simp add: take_bit_nat_eq_self)
    then have uc: "unat (cnt + 1) = Suc (unat cnt)" by (simp add: add.commute)
    have ge: "in_degree (dag_nodes d n) \<le> ucast (cnt + 1) \<longleftrightarrow> pred_sems d es n = []"
    proof -
      have "unat (ucast (cnt + 1) :: u16) = unat (cnt + 1)" by (simp add: unsigned_ucast_eq take_bit_nat_eq_self_iff unsigned_less [THEN order.strict_trans])
      then show ?thesis using Cons.prems(2) uc by (cases "pred_sems d es n") (auto simp: word_le_nat_alt ps)
    qed
    have IH: "pend_loop dag n arr (lnext (dheap ?d) (EdgeL e)) (cnt + 1) ?d =
        Some (?d\<lparr>ipc_arrays := (ipc_arrays ?d)(arr := arr_put (ipc_arrays ?d arr) (unat (cnt + 1)) (pred_sems ?d es n))\<rparr>)"
      by (rule Cons.IH) (use l(2) Cons.prems(2-5) uc ps in \<open>simp_all add: True\<close>)
    have "pend_loop dag n arr (EdgeL e) cnt d = (if in_degree (dag_nodes d n) \<le> ucast (cnt + 1) then Some ?d
        else pend_loop dag n arr (lnext (dheap ?d) (EdgeL e)) (cnt + 1) ?d)"
      using True Cons.prems(4,5) by (subst pend_loop.simps) (simp add: Let_def)
    also have "\<dots> = Some (d\<lparr>ipc_arrays := (ipc_arrays d)(arr := arr_put (ipc_arrays d arr) (unat cnt) (pred_sems d (e # es) n))\<rparr>)"
      unfolding ge IH ps arr_put_Cons uc by (simp del: fun_upd_apply add: fun_upd_same)
    finally show ?thesis unfolding l(1) .
  qed
qed

section \<open>From the description to the thread\<close>

lemma pred_sems_new:
  assumes "\<forall>e \<in> set old. next_node (dag_edges d e) \<noteq> nn"
    "\<forall>j < length es. dag_edges d (es ! j) = \<lparr>prev_node = p j, next_node = nn\<rparr>"
  shows "pred_sems d (rev es @ old) nn = rev (map (\<lambda>j. n_sem (dag_nodes d (p j))) [0..<length es])"
proof -
  have "filter (\<lambda>e. next_node (dag_edges d e) = nn) old = []" using assms(1) by (simp add: filter_empty_conv)
  moreover have "filter (\<lambda>e. next_node (dag_edges d e) = nn) (rev es) = rev es"
    using assms(2) by (intro filter_True) (auto simp: in_set_conv_nth)
  moreover have "map (\<lambda>e. n_sem (dag_nodes d (prev_node (dag_edges d e)))) es = map (\<lambda>j. n_sem (dag_nodes d (p j))) [0..<length es]"
    using assms(2) by (auto intro!: nth_equalityI)
  ultimately show ?thesis by (simp add: pred_sems_def rev_map [symmetric])
qed

text \<open>C23. The thread of a node waits for exactly the predecessors the application declared. For a user node with 1 to 255
  predecessors that are other nodes of the graph, the framework makes one edge per predecessor, before the edges of other nodes
  and with memory from the allocator, and changes nothing else; from the edges the array of the thread's semaphores is
  filled with those of the predecessors, the last declared first, and no other array changes.\<close>

theorem dag_waits_for_predecessors:
  assumes R: "rings (dheap d) R" "qlock (dheap d) = (\<lambda>_. False)" "R (NodeQ dag) = Some (map NodeL ns)" "R (EdgeQ dag) = Some (map EdgeL old)"
    and nn: "find (\<lambda>n. n_route (dag_nodes d n) = u_route (user_nodes d u)) ns = Some nn" "unat (in_degree (dag_nodes d nn)) = n" "0 < n" "n < 256"
    and m: "mallocs (edge_size im) es (dk d) k" "length es = n" "distinct es" "\<forall>e \<in> set es. e \<noteq> NULL \<and> free_node R (EdgeL e)"
    and p: "\<forall>i < n. pred_node d ns u i (p i) \<and> p i \<noteq> NULL" and old: "\<forall>e \<in> set old. next_node (dag_edges d e) \<noteq> nn"
    and arr: "arr \<noteq> NULL"
  shows "\<exists>d' d''. dag_edge_init im dag u d = Some d' \<and> dk d' = k \<and> dag_frame d d' \<and>
    rings (dheap d') (R(EdgeQ dag \<mapsto> map EdgeL (rev es @ old))) \<and>
    (\<forall>j < n. dag_edges d' (es ! j) = \<lparr>prev_node = p j, next_node = nn\<rparr>) \<and> (\<forall>e. e \<notin> set es \<longrightarrow> dag_edges d' e = dag_edges d e) \<and>
    pend_loop dag nn arr (lnext (dheap d') (EdgeQ dag)) 0 d' = Some d'' \<and>
    (\<forall>j < n. ipc_arrays d'' arr j = n_sem (dag_nodes d (p (n - 1 - j)))) \<and>
    (\<forall>a. a \<noteq> arr \<longrightarrow> ipc_arrays d'' a = ipc_arrays d a)"
proof -
  have "next_search d dag (u_route (user_nodes d u)) None (lnext (dheap d) (NodeQ dag)) = Some (Some nn)"
    by (rule next_search_links [OF _ nn(1)]) (use ringsD [OF R(1,3)] in \<open>simp add: ring_def\<close>)
  then have e0: "dag_edge_init im dag u d = edge_adds im dag u nn [0..<n] d" by (simp add: dag_edge_init_def nn(2))
  obtain d' where d': "edge_adds im dag u nn [0..<n] d = Some d'" "dk d' = k" "dag_frame d d'"
      "rings (dheap d') (R(EdgeQ dag \<mapsto> map EdgeL (rev es) @ map EdgeL old))"
      "\<forall>j < length es. dag_edges d' (es ! j) = \<lparr>prev_node = p ([0..<n] ! j), next_node = nn\<rparr>"
      "\<forall>e. e \<notin> set es \<longrightarrow> dag_edges d' e = dag_edges d e"
    using edge_adds_ok [OF R m(1) _ m(3,4), of "[0..<n]" u p nn] m(2) p by auto
  have dn: "dag_nodes d' = dag_nodes d" "ipc_arrays d' = ipc_arrays d" using d'(3) by (simp_all add: dag_frame_def)
  have ed: "\<forall>j < length es. dag_edges d' (es ! j) = \<lparr>prev_node = p j, next_node = nn\<rparr>" using d'(5) m(2) by simp
  have "e \<notin> set es" if "e \<in> set old" for e using free_nodeD [of R "EdgeL e", OF _ R(4)] m(4) that by auto
  then have old': "\<forall>e \<in> set old. next_node (dag_edges d' e) \<noteq> nn" using old d'(6) by simp
  note ps = pred_sems_new [OF old' ed, unfolded m(2)]
  have "ring (dheap d') (EdgeQ dag) (map EdgeL (rev es @ old))" using ringsD [OF d'(4), of "EdgeQ dag"] by simp
  then have "links (dheap d') (EdgeQ dag) (map EdgeL (rev es @ old)) (EdgeQ dag)" by (simp add: ring_def)
  moreover have "prev_node (dag_edges d' e) \<noteq> NULL" if "e \<in> set (rev es @ old)" "next_node (dag_edges d' e) = nn" for e
  proof -
    have "e \<in> set es" using that old' by auto
    then obtain j where "j < n" "e = es ! j" using m(2) by (auto simp: in_set_conv_nth)
    then show ?thesis using ed p m(2) by simp
  qed
  ultimately have pl: "pend_loop dag nn arr (lnext (dheap d') (EdgeQ dag)) 0 d' =
      Some (d'\<lparr>ipc_arrays := (ipc_arrays d')(arr := arr_put (ipc_arrays d' arr) 0 (pred_sems d' (rev es @ old) nn))\<rparr>)"
    using pend_loop_ok [of d' "EdgeQ dag" "rev es @ old" dag 0 nn arr] nn(2,4) arr by (simp add: ps dn(1) del: map_append)
  show ?thesis
    unfolding e0
    by (intro exI conjI, rule d'(1), rule d'(2), rule d'(3), use d'(4) in simp, use ed m(2) in simp, rule d'(6), rule pl)
      (simp_all add: arr_put_def ps dn rev_nth)
qed

text \<open>A request for at most one basic block.\<close>

lemma malloc_block:
  assumes "quiet k" "\<not> mem_lock (mem k)" "mem_ok (mem k)" "sz \<le> 128" "1 \<le> free_num (mem k)" "0 < level (mem k)"
    "buddy_take 0 ((mem k)\<lparr>mem_lock := True\<rparr>) = Some (n, b)"
  shows "buddy_malloc sz k = Some (start_adr b + of_int (n * 128), k\<lparr>mem := b\<lparr>mem_lock := False\<rparr>\<rparr>)"
proof (rule buddy_malloc_quiet [OF assms(1)])
  have "level_loop sz 1 0 BLOCK_SIZE = Some (1, 0)" using assms(4) by (subst level_loop.simps) (auto simp: block_size_pow)
  then show "block_for sz (mem k) = Some (start_adr b + of_int (n * 128), b\<lparr>mem_lock := False\<rparr>)"
    using assms(2,3,5-7) by (auto simp: block_for_def BLOCK_SHIFT_def)
qed

text \<open>Three nodes on a kernel whose heap has nine basic blocks; the third node has the other two as predecessors.\<close>

definition ex_takes :: "(buddy \<times> int \<times> buddy \<times> int \<times> buddy) option" where
  "ex_takes = do { (_, b) \<leftarrow> small_heap; (n, b1) \<leftarrow> buddy_take 0 (b\<lparr>mem_lock := True\<rparr>); (m, b2) \<leftarrow> buddy_take 0 b1; Some (b, n, b1, m, b2) }"

definition ex_buddy :: buddy where
  "ex_buddy = (case small_heap of None \<Rightarrow> buddy0 | Some (_, b) \<Rightarrow> b)"

lemma ex_takes_run:
  "map_option (\<lambda>(b, n, b1, m, b2). (mem_ok b \<and> \<not> mem_lock b \<and> 1 \<le> free_num b \<and> 0 < level b, n,
       mem_ok b1 \<and> mem_lock b1 \<and> 1 \<le> free_num b1 \<and> 0 < level b1 \<and> start_adr b1 = 0x1000, m, start_adr b2 = 0x1000)) ex_takes =
   Some (True, 8, True, 0, True)"
  by code_simp

definition ex_dags :: dags where
  "ex_dags = \<lparr>dk = ex_kernel\<lparr>mem := ex_buddy\<rparr>,
     dheap = \<lparr>lnext = (\<lambda>x. x)(NodeQ 0x500 := NodeL 0x680, NodeL 0x680 := NodeL 0x640, NodeL 0x640 := NodeL 0x600, NodeL 0x600 := NodeQ 0x500),
       lprev = (\<lambda>x. x)(NodeQ 0x500 := NodeL 0x600, NodeL 0x680 := NodeQ 0x500, NodeL 0x640 := NodeL 0x680, NodeL 0x600 := NodeL 0x640),
       lvalue = (\<lambda>_. 0), llock = (\<lambda>_. False), qlock = (\<lambda>_. False)\<rparr>,
     user_nodes = (\<lambda>_. \<lparr>prev_route = [1, 2], prev_count = 2, u_route = 3, u_args = 0, u_processor = 0, u_prio = 0\<rparr>),
     user_period = (\<lambda>_. 0),
     dag_nodes = (\<lambda>n. \<lparr>n_route = (if n = 0x600 then 1 else if n = 0x640 then 2 else 3), n_args = 0,
       in_degree = (if n = 0x680 then 2 else 0), n_sem = n + 0x1000, n_processor = 0, n_prio = 0\<rparr>),
     dag_edges = (\<lambda>_. \<lparr>prev_node = 0, next_node = 0\<rparr>), dag_period = (\<lambda>_. 0),
     tasks = (\<lambda>_. \<lparr>pend_ipc = 0, pend_ipc_cnt = 0, post_ipc = 0, dag_route = 0, dag_args = 0\<rparr>), ipc_arrays = (\<lambda>_ _. 0)\<rparr>"

definition ex_dag_R :: "dnode \<rightharpoonup> dnode list" where
  "ex_dag_R = [NodeQ 0x500 \<mapsto> [NodeL 0x680, NodeL 0x640, NodeL 0x600], EdgeQ 0x500 \<mapsto> []]"

definition ex_image :: dag_image where
  "ex_image = \<lparr>node_size = 40, edge_size = 16, dag_size = 40, heap_mutex = 0, task_route = 0, deal_hook_adr = 0, release_hook_adr = 0,
     run_hook = (\<lambda>_ _ s. Some s)\<rparr>"

lemma ex_mallocs: "\<exists>k. mallocs (edge_size ex_image) [0x1400, 0x1000] (dk ex_dags) k"
proof -
  obtain b n b1 m b2 where "ex_takes = Some (b, n, b1, m, b2)"
    and t: "mem_ok b \<and> \<not> mem_lock b \<and> 1 \<le> free_num b \<and> 0 < level b" "n = 8"
      "mem_ok b1 \<and> mem_lock b1 \<and> 1 \<le> free_num b1 \<and> 0 < level b1 \<and> start_adr b1 = 0x1000" "m = 0" "start_adr b2 = 0x1000"
    using ex_takes_run by (auto simp: map_option_case split: option.splits)
  then obtain r where r: "small_heap = Some (r, b)" and x: "buddy_take 0 (b\<lparr>mem_lock := True\<rparr>) = Some (8, b1)" "buddy_take 0 b1 = Some (0, b2)"
    by (auto simp: ex_takes_def bind_Some_iff)
  have b: "ex_buddy = b" unfolding ex_buddy_def r by simp
  have l: "b1\<lparr>mem_lock := True\<rparr> = b1" using t(3) by (cases b1) simp
  let ?k = "ex_kernel\<lparr>mem := b\<rparr>" let ?k1 = "ex_kernel\<lparr>mem := b1\<lparr>mem_lock := False\<rparr>\<rparr>"
  have q: "quiet ?k" "quiet ?k1" by (simp_all add: quiet_def ex_kernel_def)
  have "buddy_malloc 16 ?k = Some (0x1400, ?k1)" using malloc_block [OF q(1), of 16 8 b1] t x(1) by simp
  moreover have "buddy_malloc 16 ?k1 = Some (0x1000, ex_kernel\<lparr>mem := b2\<lparr>mem_lock := False\<rparr>\<rparr>)"
    using malloc_block [OF q(2), of 16 0 b2] t x(2) by (simp add: l)
  ultimately show ?thesis by (auto simp: ex_dags_def ex_image_def b)
qed

lemma ex_dag_rings: "rings (dheap ex_dags) ex_dag_R"
  by (auto simp: rings_def ex_dags_def ex_dag_R_def ring_def split: if_splits)

theorem dag_waits_for_predecessors_witness:
  "\<exists>d d'. dag_edge_init ex_image 0x500 0x700 ex_dags = Some d \<and>
     pend_loop 0x500 0x680 0x900 (lnext (dheap d) (EdgeQ 0x500)) 0 d = Some d' \<and>
     ipc_arrays d' 0x900 0 = 0x1640 \<and> ipc_arrays d' 0x900 1 = 0x1600"
proof -
  let ?p = "\<lambda>i. if i = (0 :: nat) then 0x600 else (0x640 :: ptr)"
  obtain k where k: "mallocs (edge_size ex_image) [0x1400, 0x1000] (dk ex_dags) k" using ex_mallocs by blast
  have a: "qlock (dheap ex_dags) = (\<lambda>_. False)" "ex_dag_R (NodeQ 0x500) = Some (map NodeL [0x680, 0x640, 0x600])"
    "ex_dag_R (EdgeQ 0x500) = Some (map EdgeL [])"
    "find (\<lambda>n. n_route (dag_nodes ex_dags n) = u_route (user_nodes ex_dags 0x700)) [0x680, 0x640, 0x600] = Some 0x680"
    "unat (in_degree (dag_nodes ex_dags 0x680)) = 2"
    by (simp_all add: ex_dags_def ex_dag_R_def)
  have f: "\<forall>e \<in> set [0x1400, 0x1000]. e \<noteq> NULL \<and> free_node ex_dag_R (EdgeL e)"
    by (auto simp: free_node_def ex_dag_R_def split: if_splits)
  have pn: "\<forall>i < 2. pred_node ex_dags [0x680, 0x640, 0x600] 0x700 i (?p i) \<and> ?p i \<noteq> NULL"
    by (auto simp: pred_node_def ex_dags_def less_2_cases_iff)
  obtain d d' where "dag_edge_init ex_image 0x500 0x700 ex_dags = Some d"
      "pend_loop 0x500 0x680 0x900 (lnext (dheap d) (EdgeQ 0x500)) 0 d = Some d'"
      and s: "\<forall>j < 2. ipc_arrays d' 0x900 j = n_sem (dag_nodes ex_dags (?p (2 - 1 - j)))"
    using dag_waits_for_predecessors [where arr = "0x900", OF ex_dag_rings a _ _ k _ _ f pn] by auto
  moreover have "ipc_arrays d' 0x900 0 = 0x1640" "ipc_arrays d' 0x900 1 = 0x1600"
    using spec [OF s, of 0] spec [OF s, of 1] by (simp_all add: ex_dags_def)
  ultimately show ?thesis by blast
qed

end
