(* ===== verification/Floats.thy ===== *)
theory Floats
  imports Prelude Complex_Main "HOL-Library.Log_Nat"
begin

text \<open>
  Floating-point numbers as the admission control uses them. A number is a rational; every operation rounds its exact result to the
  precision of its type (24 bits for \<^verbatim>\<open>float\<close>, 53 for \<^verbatim>\<open>double\<close>), to nearest with ties to even. The quotients and sums that occur
  stay far from the largest and the smallest numbers of the types, so exponents are not bounded; infinities do not occur because a
  division by zero has no result here.
\<close>

section \<open>Rounding\<close>

definition rne :: "rat \<Rightarrow> int" where
  "rne y = (let f = \<lfloor>y\<rfloor>; d = y - of_int f in if d < 1 / 2 \<or> d = 1 / 2 \<and> even f then f else f + 1)"

definition expo :: "rat \<Rightarrow> int" where
  "expo x = (let (n, d) = quotient_of x; e = int (floorlog 2 (nat n)) - int (floorlog 2 (nat d)) in if 2 powi e \<le> x then e else e - 1)"

definition ulp :: "nat \<Rightarrow> rat \<Rightarrow> rat" where
  "ulp p x = 2 powi (expo x - int p + 1)"

definition rnd :: "nat \<Rightarrow> rat \<Rightarrow> rat" where
  "rnd p x = (if x = 0 then 0 else sgn x * (of_int (rne (\<bar>x\<bar> / ulp p \<bar>x\<bar>)) * ulp p \<bar>x\<bar>))"

section \<open>Operations\<close>

definition ru :: "u32 \<Rightarrow> rat" where
  "ru w = of_nat (unat w)"

text \<open>The quotient of two numbers converted to \<^verbatim>\<open>float\<close>.\<close>

definition fdiv :: "u32 \<Rightarrow> u32 \<Rightarrow> rat option" where
  "fdiv a b = (if b = 0 then None else Some (rnd 24 (rnd 24 (ru a) / rnd 24 (ru b))))"

text \<open>Conversion to \<^verbatim>\<open>unsigned int\<close>; outside its range it is undefined.\<close>

definition to_u32 :: "rat \<Rightarrow> u32 option" where
  "to_u32 x = (if - 1 < x \<and> x < 2 ^ 32 then Some (if x < 0 then 0 else of_int \<lfloor>x\<rfloor>) else None)"

text \<open>\<^verbatim>\<open>ret += ceil(q) * c\<close>, computed in \<^verbatim>\<open>double\<close>.\<close>

definition add_ceil :: "u32 \<Rightarrow> rat \<Rightarrow> u32 \<Rightarrow> u32 option" where
  "add_ceil ret q c = to_u32 (rnd 53 (ru ret + rnd 53 (of_int \<lceil>q\<rceil> * ru c)))"

section \<open>Rounding to an integer\<close>

lemma rne_mono: "x \<le> y \<Longrightarrow> rne x \<le> rne y"
proof -
  assume le: "x \<le> y"
  then have "\<lfloor>x\<rfloor> \<le> \<lfloor>y\<rfloor>" by (rule floor_mono)
  then consider "\<lfloor>x\<rfloor> = \<lfloor>y\<rfloor>" | "\<lfloor>x\<rfloor> + 1 \<le> \<lfloor>y\<rfloor>" by linarith
  then show ?thesis
  proof cases
    case 1
    then show ?thesis using le by (auto simp: rne_def Let_def)
  next
    case 2
    then show ?thesis by (auto simp: rne_def Let_def)
  qed
qed

lemma rne_int [simp]: "rne (of_int n) = n"
  by (simp add: rne_def)

lemma rne_error: "\<bar>of_int (rne y) - y\<bar> \<le> 1 / 2"
proof -
  have "of_int \<lfloor>y\<rfloor> \<le> y" "y < of_int \<lfloor>y\<rfloor> + 1" by linarith+
  then show ?thesis by (auto simp: rne_def Let_def abs_le_iff not_less)
qed

section \<open>Binades\<close>

lemma floorlog_rat:
  assumes "0 < n"
  shows "2 powi (int (floorlog 2 n) - 1) \<le> (of_nat n :: rat)" "(of_nat n :: rat) < 2 powi int (floorlog 2 n)"
proof -
  have b: "2 ^ (floorlog 2 n - 1) \<le> n" "n < 2 ^ floorlog 2 n" and pos: "0 < floorlog 2 n"
    using floorlog_bounds [of n 2] assms floorlog_eq_zero_iff [of 2 n] by auto
  have "(of_nat (2 ^ (floorlog 2 n - 1)) :: rat) \<le> of_nat n" using b(1) by (simp only: of_nat_le_iff)
  moreover have "int (floorlog 2 n) - 1 = int (floorlog 2 n - 1)" using pos by simp
  ultimately show "2 powi (int (floorlog 2 n) - 1) \<le> (of_nat n :: rat)" by (simp add: power_int_of_nat del: of_nat_diff)
  have "(of_nat n :: rat) < of_nat (2 ^ floorlog 2 n)" using b(2) by (simp only: of_nat_less_iff)
  then show "(of_nat n :: rat) < 2 powi int (floorlog 2 n)" by (simp add: power_int_of_nat)
qed

lemma expo_bounds:
  assumes "0 < x"
  shows "2 powi expo x \<le> x" "x < 2 powi (expo x + 1)"
proof -
  obtain n d where q: "quotient_of x = (n, d)" by (cases "quotient_of x") auto
  have d: "0 < d" and x: "x = of_int n / of_int d" using quotient_of_denom_pos [OF q] quotient_of_div [OF q] .
  then have n: "0 < n" using assms by (simp add: zero_less_divide_iff)
  let ?k = "int (floorlog 2 (nat n))" let ?l = "int (floorlog 2 (nat d))"
  have nb: "2 powi (?k - 1) \<le> (of_int n :: rat)" "(of_int n :: rat) < 2 powi ?k" using floorlog_rat [of "nat n"] n by simp_all
  have db: "2 powi (?l - 1) \<le> (of_int d :: rat)" "(of_int d :: rat) < 2 powi ?l" using floorlog_rat [of "nat d"] d by simp_all
  have up: "x < 2 powi (?k - ?l + 1)"
  proof -
    have "x * 2 powi (?l - 1) \<le> x * of_int d" using db(1) assms by simp
    also have "\<dots> < 2 powi ?k" using nb(2) d by (simp add: x)
    also have "\<dots> = 2 powi (?k - ?l + 1) * 2 powi (?l - 1)" by (simp flip: power_int_add)
    finally show ?thesis by (simp add: mult_less_cancel_right)
  qed
  have lo: "2 powi (?k - ?l - 1) \<le> x"
  proof -
    have "2 powi (?k - ?l - 1) * of_int d \<le> (2 powi (?k - ?l - 1) * 2 powi ?l :: rat)"
      by (rule mult_left_mono) (use db(2) in simp_all)
    also have "\<dots> = 2 powi (?k - 1)" by (simp add: power_int_add [symmetric] del: power_int_of_nat)
    also have "\<dots> \<le> of_int n" by (rule nb(1))
    also have "\<dots> = x * of_int d" using d by (simp add: x)
    finally show ?thesis using d by simp
  qed
  show "2 powi expo x \<le> x" "x < 2 powi (expo x + 1)" using up lo by (auto simp: expo_def q Let_def not_le)
qed

lemma expo_le_iff:
  assumes "0 < x"
  shows "expo x < e \<longleftrightarrow> x < 2 powi e"
proof
  assume "expo x < e"
  then have "(2 :: rat) powi (expo x + 1) \<le> 2 powi e" by (intro power_int_increasing) auto
  then show "x < 2 powi e" using expo_bounds(2) [OF assms] by linarith
next
  assume "x < 2 powi e"
  then have "(2 :: rat) powi expo x < 2 powi e" using expo_bounds(1) [OF assms] by linarith
  then show "expo x < e" by (meson linorder_not_less one_le_numeral power_int_increasing)
qed

lemma expo_eq: "2 powi e \<le> x \<Longrightarrow> x < 2 powi (e + 1) \<Longrightarrow> expo x = e"
proof -
  assume a: "2 powi e \<le> x" "x < 2 powi (e + 1)"
  then have "0 < x" using zero_less_power_int [of "2 :: rat" e] by linarith
  then show ?thesis using expo_le_iff [of x e] expo_le_iff [of x "e + 1"] a by linarith
qed

section \<open>The rounded number\<close>

lemma rnd_pos: "0 < x \<Longrightarrow> rnd p x = of_int (rne (x / ulp p x)) * ulp p x"
  by (simp add: rnd_def)

lemma rnd_0 [simp]: "rnd p 0 = 0"
  by (simp add: rnd_def)

lemma ulp_pos [simp]: "0 < ulp p x"
  by (simp add: ulp_def)

lemma ulp_half: "0 < x \<Longrightarrow> ulp p x / 2 \<le> x / 2 ^ p"
proof -
  assume "0 < x"
  have "ulp p x = 2 powi expo x / 2 ^ p * 2"
    unfolding ulp_def by (simp add: power_int_add power_int_diff power_int_of_nat)
  then show ?thesis using expo_bounds(1) [OF \<open>0 < x\<close>] by (simp add: divide_right_mono)
qed

lemma rnd_error: "0 < x \<Longrightarrow> \<bar>rnd p x - x\<bar> \<le> x / 2 ^ p"
proof -
  assume x: "0 < x"
  let ?u = "ulp p x"
  have "\<bar>rnd p x - x\<bar> = \<bar>of_int (rne (x / ?u)) - x / ?u\<bar> * ?u"
  proof -
    have "rnd p x - x = (of_int (rne (x / ?u)) - x / ?u) * ?u"
      using ulp_pos [of p x] by (simp add: rnd_pos [OF x] left_diff_distrib del: ulp_pos)
    then show ?thesis using ulp_pos [of p x] by (simp only: abs_mult abs_of_pos)
  qed
  also have "\<dots> \<le> 1 / 2 * ?u" by (rule mult_right_mono [OF rne_error]) (simp add: less_imp_le)
  also have "\<dots> \<le> x / 2 ^ p" using ulp_half [OF x, of p] by simp
  finally show ?thesis .
qed

text \<open>Multiples of the last place, up to the next binade, are not changed.\<close>

lemma rnd_multiple:
  assumes "0 < x" "x / ulp p x = of_int m"
  shows "rnd p x = x"
proof -
  have "x = of_int m * ulp p x" using assms(2) less_imp_neq [OF ulp_pos [of p x]] by (metis nonzero_eq_divide_eq)
  then show ?thesis unfolding rnd_pos [OF assms(1)] assms(2) by simp
qed

lemma rnd_nat:
  assumes "n < 2 ^ p"
  shows "rnd p (of_nat n) = of_nat n"
proof (cases "n = 0")
  case False
  then have x: "0 < (of_nat n :: rat)" by simp
  have "(of_nat n :: rat) < of_nat (2 ^ p)" using assms by (simp only: of_nat_less_iff)
  then have "expo (of_nat n) < int p" by (simp add: expo_le_iff [OF x] power_int_of_nat)
  then obtain k where k: "int p - 1 - expo (of_nat n) = int k" by (metis zero_le_imp_eq_int diff_ge_0_iff_ge zle_diff1_eq diff_right_commute)
  have "(of_nat n :: rat) / ulp p (of_nat n) = of_nat n * 2 powi (int p - 1 - expo (of_nat n))"
    by (simp add: ulp_def divide_inverse algebra_simps flip: power_int_minus)
  also have "\<dots> = of_int (int (n * 2 ^ k))" by (simp add: k power_int_of_nat)
  finally show ?thesis by (rule rnd_multiple [OF x])
qed simp

lemma ulp_times: "2 powi (expo x + 1) = of_int (2 ^ p) * ulp p x" "0 < p \<Longrightarrow> 2 powi expo x = of_int (2 ^ (p - 1)) * ulp p x"
proof -
  have "(2 :: rat) powi (expo x + 1) = 2 powi int p * ulp p x" unfolding ulp_def by (simp add: power_int_add [symmetric] del: power_int_of_nat)
  then show "2 powi (expo x + 1) = of_int (2 ^ p) * ulp p x" by simp
  assume "0 < p"
  then have "(2 :: rat) powi expo x = 2 powi int (p - 1) * ulp p x" unfolding ulp_def by (simp add: power_int_add [symmetric] del: power_int_of_nat)
  then show "2 powi expo x = of_int (2 ^ (p - 1)) * ulp p x" by simp
qed

lemma ulp_pow: "2 powi (expo x + 1) / ulp p x = of_int (2 ^ p)" "0 < p \<Longrightarrow> 2 powi expo x / ulp p x = of_int (2 ^ (p - 1))"
  using ulp_times(1) [of x p] ulp_times(2) [of p x] less_imp_neq [OF ulp_pos [of p x]] by simp_all

lemma rnd_bounds:
  assumes "0 < x" "0 < p"
  shows "2 powi expo x \<le> rnd p x" "rnd p x \<le> 2 powi (expo x + 1)"
proof -
  let ?u = "ulp p x"
  have "of_int (2 ^ (p - 1)) \<le> x / ?u" "x / ?u \<le> of_int (2 ^ p)"
    using divide_right_mono [OF expo_bounds(1) [OF assms(1)], of ?u] divide_right_mono [OF less_imp_le [OF expo_bounds(2) [OF assms(1)]], of ?u]
    unfolding ulp_pow(1) ulp_pow(2) [OF assms(2)] by (simp_all add: less_imp_le)
  then have "2 ^ (p - 1) \<le> rne (x / ?u)" "rne (x / ?u) \<le> 2 ^ p" using rne_mono rne_int by metis+
  then have "of_int (2 ^ (p - 1)) * ?u \<le> of_int (rne (x / ?u)) * ?u" "of_int (rne (x / ?u)) * ?u \<le> of_int (2 ^ p) * ?u"
    by (intro mult_right_mono; simp only: of_int_le_iff less_imp_le ulp_pos)+
  then show "2 powi expo x \<le> rnd p x" "rnd p x \<le> 2 powi (expo x + 1)"
    unfolding rnd_pos [OF assms(1)] ulp_times(1) [of x p] ulp_times(2) [OF assms(2), of x] .
qed

lemma rnd_mono:
  assumes "0 \<le> x" "x \<le> y" "0 < p"
  shows "rnd p x \<le> rnd p y"
proof (cases "x = 0")
  case True
  then show ?thesis using assms rnd_bounds(1) [of y p] by (cases "y = 0") (auto intro: order_trans [OF _ rnd_bounds(1)])
next
  case False
  then have x: "0 < x" and y: "0 < y" using assms(1,2) by auto
  have "(2 :: rat) powi expo x < 2 powi (expo y + 1)" using expo_bounds [OF x] expo_bounds [OF y] assms(2) by linarith
  then have "expo x < expo y + 1" by (meson linorder_not_less one_le_numeral power_int_increasing)
  then consider "expo x = expo y" | "expo x + 1 \<le> expo y" by linarith
  then show ?thesis
  proof cases
    case 1
    then have u: "ulp p x = ulp p y" by (simp add: ulp_def)
    have "rne (x / ulp p y) \<le> rne (y / ulp p y)" by (intro rne_mono divide_right_mono assms(2)) (simp add: less_imp_le)
    then show ?thesis unfolding rnd_pos [OF x] rnd_pos [OF y] u by (intro mult_right_mono) (simp_all add: less_imp_le)
  next
    case 2
    then have "(2 :: rat) powi (expo x + 1) \<le> 2 powi expo y" by (intro power_int_increasing) auto
    then show ?thesis using rnd_bounds(2) [OF x assms(3)] rnd_bounds(1) [OF y assms(3)] by linarith
  qed
qed

lemma rnd_pow: "0 < p \<Longrightarrow> rnd p (2 ^ p) = 2 ^ p"
proof -
  assume p: "0 < p"
  have x: "0 < (2 ^ p :: rat)" by simp
  have "expo (2 ^ p) = int p"
    using expo_le_iff [OF x, of "int p"] expo_le_iff [OF x, of "int p + 1"] by (simp add: power_int_add)
  then have "(2 ^ p :: rat) / ulp p (2 ^ p) = of_int (2 ^ (p - 1))" using ulp_pow(2) [OF p, of "2 ^ p"] by simp
  then show ?thesis by (rule rnd_multiple [OF x])
qed

lemma rnd_nat_le: "n \<le> 2 ^ p \<Longrightarrow> 0 < p \<Longrightarrow> rnd p (of_nat n) = of_nat n"
  using rnd_nat [of n p] rnd_pow [of p] by (cases "n = 2 ^ p") auto

section \<open>Quotients\<close>

text \<open>The quotient of two numbers below \<open>2 ^ p\<close> is rounded, but never across an integer.\<close>

lemma quotient_error:
  assumes "a < 2 ^ p" "0 < b"
  shows "\<bar>rnd p (of_nat a / of_nat b) - of_nat a / of_nat b\<bar> < 1 / of_nat b"
proof (cases "a = 0")
  case False
  let ?q = "of_nat a / of_nat b :: rat"
  have q: "0 < ?q" using False assms(2) by simp
  have "(of_nat a :: rat) < of_nat (2 ^ p)" using assms(1) by (simp only: of_nat_less_iff)
  then have "?q / 2 ^ p < 1 / of_nat b" using assms(2) by (simp add: field_simps)
  then show ?thesis using rnd_error [OF q, of p] by linarith
qed (use assms in simp)

lemma rnd_ceiling:
  assumes "a < 2 ^ p" "0 < b" "0 < p"
  shows "\<lceil>rnd p (of_nat a / of_nat b)\<rceil> = \<lceil>of_nat a / of_nat b :: rat\<rceil>"
proof -
  let ?q = "of_nat a / of_nat b :: rat" let ?c = "\<lceil>?q\<rceil>"
  have "0 \<le> ?q" by simp
  then have c0: "0 \<le> ?c" by linarith
  have "?q \<le> of_nat a" using assms(2) by (simp add: divide_le_eq mult_le_cancel_left1)
  then have "?c \<le> int a" by (simp add: ceiling_le_iff)
  also have "\<dots> < 2 ^ p" using assms(1) by simp
  finally have "?c \<le> 2 ^ p" by simp
  then have "rnd p (of_nat (nat ?c)) = of_nat (nat ?c)" using assms(3) by (intro rnd_nat_le) (simp_all add: nat_le_iff)
  moreover have "?q \<le> of_nat (nat ?c)" using c0 by simp
  ultimately have up: "rnd p ?q \<le> of_int ?c" using rnd_mono [of ?q "of_nat (nat ?c)" p] assms(3) c0 by simp
  have "of_int ?c - 1 < ?q" by linarith
  then have "of_int ((?c - 1) * int b) < (of_int (int a) :: rat)" using assms(2) by (simp add: pos_less_divide_eq)
  then have "(?c - 1) * int b + 1 \<le> int a" by (simp only: of_int_less_iff)
  then have "of_int ((?c - 1) * int b + 1) \<le> (of_int (int a) :: rat)" by (simp only: of_int_le_iff)
  then have "(of_int ?c - 1) * of_nat b + 1 \<le> (of_nat a :: rat)" by simp
  then have "((of_int ?c - 1) * of_nat b + 1) / of_nat b \<le> ?q" by (rule divide_right_mono) simp
  then have "of_int ?c - 1 + 1 / of_nat b \<le> ?q" using assms(2) by (simp add: add_divide_distrib)
  then have "of_int ?c - 1 < rnd p ?q" using quotient_error [OF assms(1,2)] by linarith
  then show ?thesis using up by (intro ceiling_unique) simp_all
qed

lemma rnd_floor:
  assumes "a < 2 ^ p" "0 < b" "0 < p"
  shows "\<lfloor>rnd p (of_nat a / of_nat b)\<rfloor> = \<lfloor>of_nat a / of_nat b :: rat\<rfloor>"
proof -
  let ?q = "of_nat a / of_nat b :: rat" let ?f = "\<lfloor>?q\<rfloor>"
  have f0: "0 \<le> ?f" by simp
  have "?q \<le> of_nat a" using assms(2) by (simp add: divide_le_eq mult_le_cancel_left1)
  then have "?f \<le> int a" by (simp add: floor_le_iff)
  also have "\<dots> < 2 ^ p" using assms(1) by simp
  finally have "?f \<le> 2 ^ p" by simp
  then have "rnd p (of_nat (nat ?f)) = of_nat (nat ?f)" using assms(3) by (intro rnd_nat_le) (simp_all add: nat_le_iff)
  moreover have "of_nat (nat ?f) \<le> ?q" using f0 by simp
  ultimately have lo: "of_int ?f \<le> rnd p ?q" using rnd_mono [of "of_nat (nat ?f)" ?q p] assms(3) f0 by simp
  have "?q < of_int ?f + 1" by linarith
  then have "(of_int (int a) :: rat) < of_int ((?f + 1) * int b)" using assms(2) by (simp add: pos_divide_less_eq)
  then have "int a + 1 \<le> (?f + 1) * int b" by (simp only: of_int_less_iff)
  then have "(of_int (int a + 1) :: rat) \<le> of_int ((?f + 1) * int b)" by (simp only: of_int_le_iff)
  then have "(of_nat a + 1 :: rat) \<le> (of_int ?f + 1) * of_nat b" by simp
  then have "(of_nat a + 1 :: rat) / of_nat b \<le> (of_int ?f + 1) * of_nat b / of_nat b" by (rule divide_right_mono) simp
  then have "?q + 1 / of_nat b \<le> of_int ?f + 1" using assms(2) by (simp add: add_divide_distrib)
  then have "rnd p ?q < of_int ?f + 1" using quotient_error [OF assms(1,2)] by linarith
  then show ?thesis using lo by (intro floor_unique) simp_all
qed

section \<open>Exact results\<close>

definition cdiv :: "nat \<Rightarrow> nat \<Rightarrow> nat" where
  "cdiv a b = nat \<lceil>of_nat a / of_nat b :: rat\<rceil>"

lemma cdiv_mono: "a \<le> a' \<Longrightarrow> cdiv a b \<le> cdiv a' b"
  unfolding cdiv_def by (intro nat_mono ceiling_mono divide_right_mono) simp_all

lemma rnd_u32: "rnd 53 (ru w) = ru w"
proof -
  have "unat w < 2 ^ 53" using unsigned_less [of w, where ?'a = nat] by (simp add: less_trans)
  then show ?thesis unfolding ru_def by (rule rnd_nat)
qed

lemma to_u32_nat: "n < 2 ^ 32 \<Longrightarrow> to_u32 (of_nat n) = Some (of_nat n)"
proof -
  assume "n < 2 ^ 32"
  then have "(of_nat n :: rat) < of_nat (2 ^ 32)" by (simp only: of_nat_less_iff)
  then show ?thesis by (simp add: to_u32_def order_less_le_trans [OF _ of_nat_0_le_iff])
qed

lemma fdiv_small:
  assumes "unat a < 2 ^ 24" "unat b < 2 ^ 24" "b \<noteq> 0"
  shows "\<exists>q. fdiv a b = Some q \<and> \<lceil>q\<rceil> = int (cdiv (unat a) (unat b)) \<and> \<lfloor>q\<rfloor> = int (unat a div unat b)"
proof -
  let ?q = "of_nat (unat a) / of_nat (unat b) :: rat"
  have b: "0 < unat b" using assms(3) by (simp add: unat_gt_0)
  have "fdiv a b = Some (rnd 24 ?q)" unfolding fdiv_def ru_def rnd_nat [OF assms(1)] rnd_nat [OF assms(2)] using assms(3) by simp
  moreover have "\<lceil>rnd 24 ?q\<rceil> = int (cdiv (unat a) (unat b))"
  proof -
    have "0 \<le> ?q" by (intro divide_nonneg_nonneg of_nat_0_le_iff)
    then have "0 \<le> \<lceil>?q\<rceil>" by linarith
    then show ?thesis unfolding cdiv_def rnd_ceiling [OF assms(1) b zero_less_numeral] by simp
  qed
  moreover have "\<lfloor>rnd 24 ?q\<rfloor> = int (unat a div unat b)"
    unfolding rnd_floor [OF assms(1) b zero_less_numeral] by (rule floor_divide_of_nat_eq)
  ultimately show ?thesis by blast
qed

lemma add_ceil_exact:
  assumes "\<lceil>q\<rceil> = int n" "unat ret + n * unat c < 2 ^ 32"
  shows "add_ceil ret q c = Some (of_nat (unat ret + n * unat c))"
proof -
  have le: "n * unat c \<le> unat ret + n * unat c" "(2 :: nat) ^ 32 < 2 ^ 53" by simp_all
  have lt: "n * unat c < 2 ^ 53" "unat ret + n * unat c < 2 ^ 53" using le assms(2) by linarith+
  have "of_int \<lceil>q\<rceil> * ru c = of_nat (n * unat c)" unfolding assms(1) ru_def by simp
  then have "add_ceil ret q c = to_u32 (rnd 53 (ru ret + of_nat (n * unat c)))" by (simp only: add_ceil_def rnd_nat [OF lt(1)])
  also have "ru ret + of_nat (n * unat c) = of_nat (unat ret + n * unat c)" unfolding ru_def by simp
  finally show ?thesis unfolding rnd_nat [OF lt(2)] to_u32_nat [OF assms(2)] .
qed

end
