(* ===== verification/Admis.thy ===== *)
theory Admis
  imports Timed Pcp Floats
begin

text \<open>
  The admission control (\<^verbatim>\<open>components/tmp/lib/src/admis_ctl.c\<close>): a task that decides, from worst-case execution times, periods and the use
  of resources under the distributed ceiling protocol, whether new periodic threads can be added. This theory holds the data and the
  analysis of response times; theory \<open>Admis_Task\<close> has the operations that change threads and resources.

  The analysis only reads. A loop over a list is a recursion over the entries read from the ring of the list, in the order of the
  loop; a \<^verbatim>\<open>break\<close> ends the recursion. \<open>None\<close> stands for a division by zero, a conversion outside the range of its type, a null
  pointer that is followed and an index outside an array.
\<close>

section \<open>Data\<close>

datatype anode = CtlQ | CtlL ptr | ResQ ptr | ResL ptr | TimeQ u32 | StartQ | TimeL ptr

fun ctl_entry :: "anode \<Rightarrow> ptr option" where
  "ctl_entry (CtlL p) = Some p"
| "ctl_entry _ = None"

fun res_entry :: "anode \<Rightarrow> ptr option" where
  "res_entry (ResL p) = Some p"
| "res_entry _ = None"

fun dlist_entry :: "knode \<Rightarrow> ptr option" where
  "dlist_entry (DList p) = Some p"
| "dlist_entry _ = None"

text \<open>\<^verbatim>\<open>acoral_admis_ctl_data\<close>, \<^verbatim>\<open>acoral_admis_res_data\<close> and \<^verbatim>\<open>admis_res_cache\<close>. \<open>r_dpcp\<close> is the address of a variable that holds the
  address of a resource.\<close>

record ctl_data =
  ct_cpu :: u32
  dl_time :: u32
  wcet :: u32
  wcrt :: u32
  period_time :: u32
  ct_route :: ptr
  ct_args :: ptr
  ct_stack_size :: u32
  ct_stack :: ptr
  ct_prio :: u8
  prio_origin :: u8
  is_new :: u8
  task_id :: u32

record res_data =
  critical_cnt :: u8
  length_max :: u32
  r_dpcp :: ptr

record res_cache =
  cpu_is_bind :: u8
  ceiling_cache :: u8
  type_cache :: u8
  bind_cnt :: u8

record admis =
  ak :: kstate
  aheap :: "anode lheap"
  ctls :: "ptr \<Rightarrow> ctl_data"
  ress :: "ptr \<Rightarrow> res_data"
  caches :: "ptr \<Rightarrow> res_cache"
  dpcp_vars :: "ptr \<Rightarrow> ptr"
  load_last :: "u32 \<Rightarrow> rat"
  load_this :: "u32 \<Rightarrow> rat"
  load_list :: "u8 list"
  task_cnt :: u8
  timed_time_sum :: "u32 \<Rightarrow> u32"
  timed_h_period :: "u32 \<Rightarrow> u32"
  have_new_thread :: u8
  first_thread :: u8
  this_is_first :: u8
  admis_task :: u32

section \<open>Reading lists\<close>

partial_function (option) walk :: "('a \<Rightarrow> 'a) \<Rightarrow> 'a \<Rightarrow> 'a \<Rightarrow> 'a list option" where
  "walk n q x = (if x = q then Some [] else do { xs \<leftarrow> walk n q (n x); Some (x # xs) })"

declare walk.simps [code]

lemma walk_end [simp]: "walk n q q = Some []"
  by (subst walk.simps) simp

definition entries :: "('a \<Rightarrow> 'b option) \<Rightarrow> ('a \<Rightarrow> 'a) \<Rightarrow> 'a \<Rightarrow> 'b list option" where
  "entries f n q = do { xs \<leftarrow> walk n q (n q); those (map f xs) }"

definition ctl_list :: "admis \<Rightarrow> ptr list option" where
  "ctl_list s = entries ctl_entry (lnext (aheap s)) CtlQ"

definition ctl_list_back :: "admis \<Rightarrow> ptr list option" where
  "ctl_list_back s = entries ctl_entry (lprev (aheap s)) CtlQ"

definition res_list :: "admis \<Rightarrow> ptr \<Rightarrow> ptr list option" where
  "res_list s c = entries res_entry (lnext (aheap s)) (ResQ c)"

definition dpcp_list :: "admis \<Rightarrow> u32 \<Rightarrow> ptr list option" where
  "dpcp_list s cpu =
     (if dpcp_index ACORAL_DPCP_GLOBAL cpu then entries dlist_entry (lnext (heap (ak s))) (DpcpQ ACORAL_DPCP_GLOBAL cpu) else None)"

text \<open>The times of the threads with fixed start times: start and length in turn.\<close>

definition time_list :: "admis \<Rightarrow> u32 \<Rightarrow> u32 list option" where
  "time_list s cpu =
     (if unat cpu < CFG_MAX_CPU
      then map_option (map (\<lambda>n. word_of_int (lvalue (aheap s) n))) (walk (lnext (aheap s)) (TimeQ cpu) (lnext (aheap s) (TimeQ cpu)))
      else None)"

text \<open>The resource that an entry of a task's list names, and its cache.\<close>

definition res_dpcp :: "admis \<Rightarrow> ptr \<Rightarrow> ptr" where
  "res_dpcp s r = dpcp_vars s (r_dpcp (ress s r))"

definition cache_adr :: "admis \<Rightarrow> ptr \<Rightarrow> ptr option" where
  "cache_adr s r = (let d = res_dpcp s r; a = d_data (dpcps (ak s) d) in if d = NULL \<or> a = NULL then None else Some a)"

definition cache :: "admis \<Rightarrow> ptr \<Rightarrow> res_cache option" where
  "cache s r = map_option (caches s) (cache_adr s r)"

definition NL :: "admis \<Rightarrow> ptr \<Rightarrow> u32" where
  "NL s r = ucast (critical_cnt (ress s r)) * length_max (ress s r)"

section \<open>Utilisation of a resource\<close>

fun u_res :: "admis \<Rightarrow> ptr \<Rightarrow> u32 \<Rightarrow> ptr list \<Rightarrow> rat \<Rightarrow> rat option" where
  "u_res s dpcp period [] ret = Some ret"
| "u_res s dpcp period (r # rs) ret =
     (if dpcp = r_dpcp (ress s r) then do { q \<leftarrow> fdiv (NL s r) period; Some (rnd 24 (ret + q)) } else u_res s dpcp period rs ret)"

fun u_loop :: "admis \<Rightarrow> ptr \<Rightarrow> ptr list \<Rightarrow> rat \<Rightarrow> rat option" where
  "u_loop s dpcp [] ret = Some ret"
| "u_loop s dpcp (c # cs) ret =
     do { rs \<leftarrow> res_list s c; ret \<leftarrow> u_res s dpcp (period_time (ctls s c)) rs ret; u_loop s dpcp cs ret }"

definition u_g_time :: "ptr \<Rightarrow> admis \<Rightarrow> rat option" where
  "u_g_time dpcp s = do { cs \<leftarrow> ctl_list_back s; u_loop s dpcp cs 0 }"

section \<open>Latencies\<close>

subsection \<open>Local resources\<close>

fun global_count :: "admis \<Rightarrow> ptr list \<Rightarrow> u8 \<Rightarrow> u8 option" where
  "global_count s [] n = Some n"
| "global_count s (r # rs) n =
     do { k \<leftarrow> cache s r; global_count s rs (if type_cache k = ACORAL_DPCP_GLOBAL then n + critical_cnt (ress s r) else n) }"

fun local_max :: "admis \<Rightarrow> u8 \<Rightarrow> ptr list \<Rightarrow> u32 \<Rightarrow> u32 option" where
  "local_max s prio [] m = Some m"
| "local_max s prio (r # rs) m =
     do {
       k \<leftarrow> cache s r;
       local_max s prio rs (if type_cache k = ACORAL_DPCP_LOCAL \<and> ceiling_cache k < prio \<and> length_max (ress s r) > m
                            then length_max (ress s r) else m)
     }"

fun b_loop :: "admis \<Rightarrow> ptr \<Rightarrow> ptr list \<Rightarrow> u32 \<Rightarrow> u32 option" where
  "b_loop s p [] m = Some m"
| "b_loop s p (c # cs) m =
     (if ct_cpu (ctls s c) = ct_cpu (ctls s p) \<and> ct_prio (ctls s c) > ct_prio (ctls s p) then
        do { rs \<leftarrow> res_list s c; m \<leftarrow> local_max s (ct_prio (ctls s p)) rs m; b_loop s p cs m }
      else if ct_prio (ctls s c) \<le> ct_prio (ctls s p) then Some m
      else b_loop s p cs m)"

definition latency_b_time :: "ptr \<Rightarrow> admis \<Rightarrow> u32 option" where
  "latency_b_time p s =
     do {
       rs \<leftarrow> res_list s p;
       global_n \<leftarrow> global_count s rs 0;
       cs \<leftarrow> ctl_list_back s;
       local_l_max \<leftarrow> b_loop s p cs 0;
       Some ((ucast global_n + 1) * local_l_max)
     }"

subsection \<open>Threads of higher priority\<close>

text \<open>\<^verbatim>\<open>ret += ceil((acoral_fl)(t + wcrt - n) / (acoral_fl)period_time) * n\<close>, which occurs four times in the code.\<close>

definition interference :: "u32 \<Rightarrow> ctl_data \<Rightarrow> u32 \<Rightarrow> u32 \<Rightarrow> u32 option" where
  "interference t c n ret = do { q \<leftarrow> fdiv (t + wcrt c - n) (period_time c); add_ceil ret q n }"

fun c_ng_loop :: "admis \<Rightarrow> ptr list \<Rightarrow> u32 \<Rightarrow> u32 option" where
  "c_ng_loop s [] c_ng = Some c_ng"
| "c_ng_loop s (r # rs) c_ng =
     do { k \<leftarrow> cache s r; c_ng_loop s rs (if type_cache k = ACORAL_DPCP_GLOBAL then c_ng - NL s r else c_ng) }"

fun ng_loop :: "admis \<Rightarrow> u32 \<Rightarrow> ptr \<Rightarrow> ptr list \<Rightarrow> u32 \<Rightarrow> u32 option" where
  "ng_loop s t p [] ret = Some ret"
| "ng_loop s t p (c # cs) ret =
     (if ct_cpu (ctls s c) = ct_cpu (ctls s p) \<and> ct_prio (ctls s c) < ct_prio (ctls s p) then
        do {
          rs \<leftarrow> res_list s c;
          c_ng \<leftarrow> c_ng_loop s rs (wcet (ctls s c));
          ret \<leftarrow> interference t (ctls s c) c_ng ret;
          ng_loop s t p cs ret
        }
      else if ct_prio (ctls s c) \<ge> ct_prio (ctls s p) then Some ret
      else ng_loop s t p cs ret)"

definition latency_ng_time :: "u32 \<Rightarrow> ptr \<Rightarrow> admis \<Rightarrow> u32 option" where
  "latency_ng_time t p s = do { cs \<leftarrow> ctl_list s; ng_loop s t p cs 0 }"

subsection \<open>Threads with fixed start times\<close>

text \<open>A list of odd length leads the code past the head of the list: \<open>None\<close>.\<close>

fun eps_loop :: "u32 \<Rightarrow> u32 list \<Rightarrow> u32 \<Rightarrow> u32 option" where
  "eps_loop t [] ret = Some ret"
| "eps_loop t [a] ret = (if a < t then None else Some ret)"
| "eps_loop t (a # b # vs) ret = (if a < t then eps_loop t vs (ret + b) else Some ret)"

definition epsilon :: "u32 \<Rightarrow> u32 \<Rightarrow> admis \<Rightarrow> u32 option" where
  "epsilon t cpu s = do { vs \<leftarrow> time_list s cpu; eps_loop t vs 0 }"

fun t_loop :: "admis \<Rightarrow> u32 \<Rightarrow> u32 \<Rightarrow> u32 list \<Rightarrow> u32 \<Rightarrow> u32 option" where
  "t_loop s t cpu [] m = Some m"
| "t_loop s t cpu [a] m = None"
| "t_loop s t cpu (a # _ # vs) m =
     do {
       q \<leftarrow> fdiv (a + t) (timed_h_period s cpu);
       e1 \<leftarrow> epsilon ((a + t) mod timed_h_period s cpu) cpu s;
       e2 \<leftarrow> epsilon a cpu s;
       l \<leftarrow> to_u32 (rnd 53 (rnd 53 (rnd 53 (ru (timed_time_sum s cpu) * of_int \<lfloor>q\<rfloor>) + ru e1) - ru e2));
       t_loop s t cpu vs (if l > m then l else m)
     }"

definition latency_t_time :: "u32 \<Rightarrow> u32 \<Rightarrow> admis \<Rightarrow> u32 option" where
  "latency_t_time t cpu s = do { vs \<leftarrow> time_list s cpu; t_loop s t cpu vs 0 }"

subsection \<open>Global resources\<close>

text \<open>The interference of task \<open>c\<close> through its critical sections for resource \<open>d\<close>, added to \<open>ret\<close>.\<close>

fun res_interf :: "admis \<Rightarrow> u32 \<Rightarrow> ptr \<Rightarrow> ptr \<Rightarrow> ptr list \<Rightarrow> u32 \<Rightarrow> u32 option" where
  "res_interf s t d c [] ret = Some ret"
| "res_interf s t d c (r # rs) ret =
     do { ret \<leftarrow> (if res_dpcp s r = d then interference t (ctls s c) (NL s r) ret else Some ret); res_interf s t d c rs ret }"

fun hg_ctl :: "admis \<Rightarrow> u32 \<Rightarrow> ptr \<Rightarrow> ptr \<Rightarrow> ptr list \<Rightarrow> u32 \<Rightarrow> u32 option" where
  "hg_ctl s h d p [] temp = Some temp"
| "hg_ctl s h d p (c # cs) temp =
     (if ct_prio (ctls s c) < ct_prio (ctls s p)
      then do { rs \<leftarrow> res_list s c; temp \<leftarrow> res_interf s h d c rs temp; hg_ctl s h d p cs temp }
      else Some temp)"

fun hg_dpcp :: "admis \<Rightarrow> u32 \<Rightarrow> ptr \<Rightarrow> ptr list \<Rightarrow> ptr list \<Rightarrow> u32 \<Rightarrow> u32 option" where
  "hg_dpcp s h p cs [] temp = Some temp"
| "hg_dpcp s h p cs (d # ds) temp = do { temp \<leftarrow> hg_ctl s h d p cs temp; hg_dpcp s h p cs ds temp }"

definition hg_step :: "u32 \<Rightarrow> u32 \<Rightarrow> ptr \<Rightarrow> admis \<Rightarrow> u32 \<Rightarrow> u32 option" where
  "hg_step start cpu p s h_g =
     do {
       cs \<leftarrow> ctl_list s;
       ds \<leftarrow> dpcp_list s cpu;
       temp \<leftarrow> hg_dpcp s h_g p cs ds start;
       l \<leftarrow> latency_t_time h_g cpu s;
       Some (temp + l)
     }"

partial_function (option) hg_loop :: "u32 \<Rightarrow> u32 \<Rightarrow> ptr \<Rightarrow> admis \<Rightarrow> u32 \<Rightarrow> u32 option" where
  "hg_loop start cpu p s h_g =
     (if h_g \<le> dl_time (ctls s p) then
        do { temp \<leftarrow> hg_step start cpu p s h_g; if h_g = temp then Some h_g else hg_loop start cpu p s temp }
      else Some (dl_time (ctls s p) + 100))"

declare hg_loop.simps [code]

definition h_g_time :: "u32 \<Rightarrow> u32 \<Rightarrow> ptr \<Rightarrow> admis \<Rightarrow> u32 option" where
  "h_g_time start cpu p s = hg_loop start cpu p s start"

text \<open>The variables of \<^verbatim>\<open>latency_g_time\<close>, which keep their values from one CPU to the next.\<close>

record g_vars =
  g_flag :: bool
  N_this :: u32
  L_this :: u32
  PD_g :: u32
  DD_g :: u32
  global_l_max :: u32
  g_ret :: u32

fun own_ctl :: "admis \<Rightarrow> u32 \<Rightarrow> ptr \<Rightarrow> ptr \<Rightarrow> ptr list \<Rightarrow> u32 \<Rightarrow> u32 option" where
  "own_ctl s t d p [] ret = Some ret"
| "own_ctl s t d p (c # cs) ret =
     do {
       ret \<leftarrow> (if c \<noteq> p then do { rs \<leftarrow> res_list s c; res_interf s t d c rs ret } else Some ret);
       own_ctl s t d p cs ret
     }"

fun own_dpcp :: "admis \<Rightarrow> u32 \<Rightarrow> ptr \<Rightarrow> ptr list \<Rightarrow> ptr list \<Rightarrow> u32 \<Rightarrow> u32 option" where
  "own_dpcp s t p cs [] ret = Some ret"
| "own_dpcp s t p cs (d # ds) ret = do { ret \<leftarrow> own_ctl s t d p cs ret; own_dpcp s t p cs ds ret }"

fun pd_ctl :: "admis \<Rightarrow> u32 \<Rightarrow> ptr \<Rightarrow> ptr \<Rightarrow> ptr list \<Rightarrow> u32 \<Rightarrow> u32 option" where
  "pd_ctl s t d p [] pd = Some pd"
| "pd_ctl s t d p (c # cs) pd =
     do {
       rs \<leftarrow> res_list s c;
       pd \<leftarrow> (if c = p then Some (fold (\<lambda>r pd. if res_dpcp s r = d then pd + NL s r else pd) rs pd) else res_interf s t d c rs pd);
       pd_ctl s t d p cs pd
     }"

fun pd_dpcp :: "admis \<Rightarrow> u32 \<Rightarrow> ptr \<Rightarrow> ptr list \<Rightarrow> ptr list \<Rightarrow> u32 \<Rightarrow> u32 option" where
  "pd_dpcp s t p cs [] pd = Some pd"
| "pd_dpcp s t p cs (d # ds) pd = do { pd \<leftarrow> pd_ctl s t d p cs pd; pd_dpcp s t p cs ds pd }"

text \<open>The longest critical section of a task of lower priority for resource \<open>d\<close> whose ceiling is above the priority.\<close>

fun lmax_res :: "admis \<Rightarrow> ptr \<Rightarrow> u8 \<Rightarrow> ptr list \<Rightarrow> u32 \<Rightarrow> u32 option" where
  "lmax_res s d prio [] m = Some m"
| "lmax_res s d prio (r # rs) m =
     (if res_dpcp s r = NULL then None
      else if res_dpcp s r = d then
        do {
          k \<leftarrow> cache s r;
          lmax_res s d prio rs (if ceiling_cache k < prio \<and> length_max (ress s r) > m then length_max (ress s r) else m)
        }
      else lmax_res s d prio rs m)"

fun lmax_ctl :: "admis \<Rightarrow> ptr \<Rightarrow> ptr \<Rightarrow> ptr list \<Rightarrow> u32 \<Rightarrow> u32 option" where
  "lmax_ctl s d p [] m = Some m"
| "lmax_ctl s d p (c # cs) m =
     do {
       m \<leftarrow> (if ct_prio (ctls s c) > ct_prio (ctls s p)
            then do { rs \<leftarrow> res_list s c; lmax_res s d (ct_prio (ctls s p)) rs m } else Some m);
       lmax_ctl s d p cs m
     }"

fun lmax_dpcp :: "admis \<Rightarrow> ptr \<Rightarrow> ptr \<Rightarrow> ptr list \<Rightarrow> ptr list \<Rightarrow> u32 \<Rightarrow> u32 option" where
  "lmax_dpcp s d p cs [] m = Some m"
| "lmax_dpcp s d p cs (d1 # ds) m =
     do {
       m \<leftarrow> (if d_cpu (dpcps (ak s) d1) = d_cpu (dpcps (ak s) d) then lmax_ctl s d1 p cs m else Some m);
       lmax_dpcp s d p cs ds m
     }"

text \<open>The direct delay over the resources \<open>ds'\<close> of CPU \<open>i\<close>; \<open>Inl\<close> is the early return.\<close>

fun dd_loop :: "admis \<Rightarrow> u32 \<Rightarrow> ptr \<Rightarrow> ptr list \<Rightarrow> ptr list \<Rightarrow> ptr list \<Rightarrow> ptr list \<Rightarrow> g_vars \<Rightarrow> (u32 + g_vars) option" where
  "dd_loop s i p rs cs ds [] g = Some (Inr g)"
| "dd_loop s i p rs cs ds (d # ds') g =
     do {
       let g = fold (\<lambda>r g. if res_dpcp s r = d then g\<lparr>N_this := ucast (critical_cnt (ress s r)), L_this := length_max (ress s r)\<rparr> else g) rs g;
       m \<leftarrow> lmax_dpcp s d p cs ds (global_l_max g);
       h \<leftarrow> h_g_time (L_this g + m) i p s;
       if h \<le> dl_time (ctls s p) then dd_loop s i p rs cs ds ds' (g\<lparr>global_l_max := m, DD_g := DD_g g + N_this g * h\<rparr>)
       else Some (Inl (dl_time (ctls s p) + 100))
     }"

definition g_cpu :: "admis \<Rightarrow> u32 \<Rightarrow> ptr \<Rightarrow> u32 \<Rightarrow> g_vars \<Rightarrow> (u32 + g_vars) option" where
  "g_cpu s t p i g =
     do {
       cs \<leftarrow> ctl_list s;
       ds \<leftarrow> dpcp_list s i;
       if ct_cpu (ctls s p) = i then do { ret \<leftarrow> own_dpcp s t p cs ds (g_ret g); Some (Inr (g\<lparr>g_ret := ret\<rparr>)) }
       else do {
         rs \<leftarrow> res_list s p;
         let g = g\<lparr>g_flag := g_flag g \<or> (\<exists>d \<in> set ds. \<exists>r \<in> set rs. res_dpcp s r = d)\<rparr>;
         if \<not> g_flag g then Some (Inr g)
         else do {
           pd \<leftarrow> pd_dpcp s t p cs ds (PD_g g);
           l \<leftarrow> latency_t_time t i s;
           r \<leftarrow> dd_loop s i p rs cs ds ds (g\<lparr>PD_g := pd + l\<rparr>);
           case r of
             Inl e \<Rightarrow> Some (Inl e)
           | Inr g \<Rightarrow> Some (Inr (g\<lparr>g_ret := g_ret g + (if PD_g g < DD_g g then PD_g g else DD_g g)\<rparr>))
         }
       }
     }"

fun g_loop :: "admis \<Rightarrow> u32 \<Rightarrow> ptr \<Rightarrow> u32 list \<Rightarrow> g_vars \<Rightarrow> u32 option" where
  "g_loop s t p [] g = Some (g_ret g)"
| "g_loop s t p (i # is) g = do { r \<leftarrow> g_cpu s t p i g; case r of Inl e \<Rightarrow> Some e | Inr g \<Rightarrow> g_loop s t p is g }"

definition latency_g_time :: "u32 \<Rightarrow> ptr \<Rightarrow> admis \<Rightarrow> u32 option" where
  "latency_g_time t p s =
     g_loop s t p (map of_nat [0..<CFG_MAX_CPU]) \<lparr>g_flag = False, N_this = 0, L_this = 0, PD_g = 0, DD_g = 0, global_l_max = 0, g_ret = 0\<rparr>"

section \<open>Response times\<close>

partial_function (option) response_loop :: "ptr \<Rightarrow> admis \<Rightarrow> u32 \<Rightarrow> u32 option" where
  "response_loop p s response =
     (let c = ctls s p; test_end = dl_time c in
      if response \<le> test_end then
        do {
          ng \<leftarrow> latency_ng_time response p s;
          if ng > test_end then Some (test_end + 100)
          else do {
            lt \<leftarrow> latency_t_time response (ct_cpu c) s;
            if lt > test_end then Some (test_end + 100)
            else do {
              lg \<leftarrow> latency_g_time response p s;
              if lg > test_end then Some (test_end + 100)
              else if response = wcet c + ng + lt + lg then
                do { lb \<leftarrow> latency_b_time p s; if lb > test_end then Some (test_end + 100) else Some (response + lb) }
              else response_loop p s (wcet c + ng + lt + lg)
            }
          }
        }
      else Some (test_end + 100))"

declare response_loop.simps [code]

definition response_time :: "ptr \<Rightarrow> admis \<Rightarrow> u32 option" where
  "response_time p s = response_loop p s (wcet (ctls s p))"

definition upd_ctl :: "ptr \<Rightarrow> (ctl_data \<Rightarrow> ctl_data) \<Rightarrow> admis \<Rightarrow> admis" where
  "upd_ctl c f s = s\<lparr>ctls := (ctls s)(c := f (ctls s c))\<rparr>"

fun ansys_loop :: "ptr list \<Rightarrow> admis \<Rightarrow> (bool \<times> admis) option" where
  "ansys_loop [] s = Some (True, s)"
| "ansys_loop (c # cs) s =
     (if is_new (ctls s c) \<noteq> 1 then
        do {
          b \<leftarrow> response_time c s;
          if b \<le> dl_time (ctls s c) then ansys_loop cs (upd_ctl c (wcrt_update (\<lambda>_. b)) s) else Some (False, s)
        }
      else ansys_loop cs s)"

definition schedule_ansys :: "admis \<Rightarrow> (bool \<times> admis) option" where
  "schedule_ansys s = do { cs \<leftarrow> ctl_list s; ansys_loop cs s }"

end
