(* ===== verification/Admis_Task.thy ===== *)
theory Admis_Task
  imports Admis Boot
begin

text \<open>
  The operations of the admission control (\<^verbatim>\<open>components/tmp/lib/src/admis_ctl.c\<close>): the description of tasks and their resources, the task
  that admits or rejects new ones, and the initialisation. The image fixes sizes of structures and addresses. A call of an allocator
  that fails leads to a write through a null pointer, and the mutex of the variable-size heap is free: \<open>None\<close> otherwise.
\<close>

record admis_image = image +
  list_size :: u32
  dpcp_size :: u32
  timed_route :: ptr

type_synonym aop = "admis \<Rightarrow> admis option"

definition on_ak :: "kop \<Rightarrow> aop" where
  "on_ak f s = do { k \<leftarrow> f (ak s); Some (s\<lparr>ak := k\<rparr>) }"

definition on_aheap :: "(anode lheap \<Rightarrow> anode lheap option) \<Rightarrow> aop" where
  "on_aheap f s = do { h \<leftarrow> f (aheap s); Some (s\<lparr>aheap := h\<rparr>) }"

definition upd_cache :: "ptr \<Rightarrow> (res_cache \<Rightarrow> res_cache) \<Rightarrow> admis \<Rightarrow> admis" where
  "upd_cache a f s = s\<lparr>caches := (caches s)(a := f (caches s a))\<rparr>"

definition add_load :: "u32 \<Rightarrow> rat \<Rightarrow> aop" where
  "add_load cpu q s =
     (if unat cpu < CFG_MAX_CPU then Some (s\<lparr>load_this := (load_this s)(cpu := rnd 24 (load_this s cpu + q))\<rparr>) else None)"

text \<open>The queues of resources, by type and CPU.\<close>

definition dpcp_out :: "u8 \<Rightarrow> u32 \<Rightarrow> ptr \<Rightarrow> aop" where
  "dpcp_out ty cpu d s = (if dpcp_index ty cpu then on_ak (on_heap (acoral_lifo_queue_del (DpcpQ ty cpu) (DList d))) s else None)"

definition dpcp_in :: "u8 \<Rightarrow> u32 \<Rightarrow> ptr \<Rightarrow> aop" where
  "dpcp_in ty cpu d s = (if dpcp_index ty cpu then on_ak (on_heap (acoral_lifo_queue_add (DpcpQ ty cpu) (DList d))) s else None)"

definition set_dpcp_cpu :: "ptr \<Rightarrow> u32 \<Rightarrow> admis \<Rightarrow> admis" where
  "set_dpcp_cpu d cpu s = s\<lparr>ak := upd_dpcp d (d_cpu_update (\<lambda>_. cpu)) (ak s)\<rparr>"

section \<open>Changes of threads and resources\<close>

definition acoral_admis_ctl_change_prio :: "ptr \<Rightarrow> aop" where
  "acoral_admis_ctl_change_prio c s = on_ak (acoral_thread_change_prio_by_id (task_id (ctls s c)) (ucast (ct_prio (ctls s c)))) s"

definition acoral_admis_ctl_change_res :: "ptr \<Rightarrow> aop" where
  "acoral_admis_ctl_change_res r s =
     do { k \<leftarrow> cache s r; on_ak (acoral_dpcp_set (res_dpcp s r) (type_cache k) (ceiling_cache k)) s }"

section \<open>Loads\<close>

text \<open>The CPUs, sorted by load.\<close>

definition load_swap :: "nat \<Rightarrow> nat \<Rightarrow> rat list \<times> u8 list \<Rightarrow> rat list \<times> u8 list" where
  "load_swap i j = (\<lambda>(l, c). if l ! i > l ! (i + j) then (l[i := l ! (i + j), i + j := l ! i], c[i := c ! (i + j), i + j := c ! i]) else (l, c))"

definition cpu_load_list_update :: "admis \<Rightarrow> admis" where
  "cpu_load_list_update s =
     s\<lparr>load_list := snd (fold (\<lambda>i. fold (load_swap i) [1..<CFG_MAX_CPU - i]) [0..<CFG_MAX_CPU]
         (map (\<lambda>i. load_this s (of_nat i)) [0..<CFG_MAX_CPU], map of_nat [0..<CFG_MAX_CPU]))\<rparr>"

definition load_to :: "(admis \<Rightarrow> u32 \<Rightarrow> rat) \<Rightarrow> (u32 \<Rightarrow> rat) \<Rightarrow> admis \<Rightarrow> u32 \<Rightarrow> rat" where
  "load_to from old s i = (if unat i < CFG_MAX_CPU then from s i else old i)"

section \<open>Accepting a task\<close>

fun create_res :: "ptr \<Rightarrow> ptr list \<Rightarrow> aop" where
  "create_res c [] s = Some s"
| "create_res c (r # rs) s =
     do {
       a \<leftarrow> cache_adr s r;
       let s = (if cpu_is_bind (caches s a) = 0 then upd_cache a (cpu_is_bind_update (\<lambda>_. 1)) s else s);
       let d = dpcps (ak s) (res_dpcp s r);
       s \<leftarrow> (if ceiling_cache (caches s a) \<noteq> d_prio_ceiling d \<or> type_cache (caches s a) \<noteq> d_type d then
               if d_cpu d = current_cpu (ak s) then acoral_admis_ctl_change_res r s
               else on_ak (acoral_ipi_cmd_send (d_cpu d) IPI_ADMIS_CHG_RES (task_id (ctls s c)) r) s
             else Some s);
       create_res c rs s
     }"

definition create_ctl :: "admis_image \<Rightarrow> ptr \<Rightarrow> aop" where
  "create_ctl im c s =
     (if ct_prio (ctls s c) = prio_origin (ctls s c) then Some s
      else do {
        let s = upd_ctl c (\<lambda>t. t\<lparr>prio_origin := ct_prio t\<rparr>) s;
        let t = ctls s c;
        s \<leftarrow> (if is_new t \<noteq> 0 then
                do {
                  (r, k) \<leftarrow> create_thread_by_policy (kernel_policies (hooks_run im) (vol_mutex im)) (ct_route t) (ct_stack_size t) (ct_args t)
                    (ct_stack t) (ucast ACORAL_SCHED_POLICY_PERIOD)
                    \<lparr>pd_cpu = ct_cpu t, pd_prio = ct_prio t, pd_time = period_time t, pd_start_time = [], pd_section_num = 0, pd_frequency = 0,
                      pd_section_route = NULL, pd_section_args = NULL\<rparr> NULL None (ak s);
                  Some (upd_ctl c (\<lambda>t. t\<lparr>task_id := id_word r, is_new := 0\<rparr>) (s\<lparr>ak := k\<rparr>))
                }
              else if ct_cpu t = current_cpu (ak s) then acoral_admis_ctl_change_prio c s
              else on_ak (acoral_ipi_cmd_send (ct_cpu t) IPI_ADMIS_CHG_PRIO (task_id t) c) s);
        rs \<leftarrow> res_list s c;
        create_res c rs s
      })"

fun create_loop :: "admis_image \<Rightarrow> ptr list \<Rightarrow> aop" where
  "create_loop im [] s = Some s"
| "create_loop im (c # cs) s = do { s \<leftarrow> create_ctl im c s; create_loop im cs s }"

definition admis_ctl_create :: "admis_image \<Rightarrow> aop" where
  "admis_ctl_create im s =
     do { cs \<leftarrow> ctl_list_back s; s \<leftarrow> create_loop im cs s; Some (s\<lparr>load_last := load_to load_this (load_last s) s\<rparr>) }"

section \<open>Taking a trial back\<close>

fun restore_res :: "ptr list \<Rightarrow> aop" where
  "restore_res [] s = Some s"
| "restore_res (r # rs) s =
     do {
       a \<leftarrow> cache_adr s r;
       let p = res_dpcp s r;
       s \<leftarrow> (if cpu_is_bind (caches s a) = 0
            then do { s \<leftarrow> dpcp_out ACORAL_DPCP_LOCAL (d_cpu (dpcps (ak s) p)) p s; Some (set_dpcp_cpu p UNBIND_CPU s) } else Some s);
       let d = dpcps (ak s) p;
       s \<leftarrow> (if bind_cnt (caches s a) > 0 then
               let s = (if ceiling_cache (caches s a) \<noteq> d_prio_ceiling d then upd_cache a (ceiling_cache_update (\<lambda>_. d_prio_ceiling d)) s else s) in
               if type_cache (caches s a) \<noteq> d_type d then
                 do {
                   s \<leftarrow> dpcp_out (type_cache (caches s a)) (d_cpu d) p s;
                   let s = upd_cache a (type_cache_update (\<lambda>_. d_type d)) s;
                   dpcp_in (d_type d) (d_cpu d) p s
                 }
               else Some s
             else Some s);
       restore_res rs s
     }"

fun restore_loop :: "ptr list \<Rightarrow> aop" where
  "restore_loop [] s = Some s"
| "restore_loop (c # cs) s =
     do {
       s \<leftarrow> (if ct_prio (ctls s c) = prio_origin (ctls s c) then Some s
            else do { rs \<leftarrow> res_list s c; restore_res rs (upd_ctl c (\<lambda>t. t\<lparr>ct_prio := prio_origin t\<rparr>) s) });
       restore_loop cs s
     }"

definition admis_ctl_restore :: aop where
  "admis_ctl_restore s =
     do { cs \<leftarrow> ctl_list_back s; s \<leftarrow> restore_loop cs s; Some (s\<lparr>load_this := load_to load_last (load_this s) s\<rparr>) }"

section \<open>The task\<close>

definition FIRST_PRIO :: u8 where "FIRST_PRIO = of_nat ((ACORAL_MAX_PRIO_NUM - 1 + 1 + 1) div 2)"
definition ACORAL_MINI_PRIO :: u8 where "ACORAL_MINI_PRIO = of_nat (ACORAL_MAX_PRIO_NUM - 1)"

text \<open>The mean of the priorities of the neighbours in the queue. Without a neighbour in front the code takes 2, without one
  behind the lowest priority.\<close>

definition between_prio :: "ptr \<Rightarrow> admis \<Rightarrow> u8 option" where
  "between_prio c s =
     (let prev = lprev (aheap s) (CtlL c); next = lnext (aheap s) (CtlL c);
          mean = (\<lambda>a b. of_nat ((unat (a :: u8) + unat (b :: u8)) div 2))
      in if prev = CtlQ then do { n \<leftarrow> ctl_entry next; Some (mean 2 (ct_prio (ctls s n))) }
         else if next = CtlQ then do { p \<leftarrow> ctl_entry prev; Some (mean (ct_prio (ctls s p)) ACORAL_MINI_PRIO) }
         else do { p \<leftarrow> ctl_entry prev; n \<leftarrow> ctl_entry next; Some (mean (ct_prio (ctls s p)) (ct_prio (ctls s n))) })"

fun place_res :: "ptr \<Rightarrow> ptr list \<Rightarrow> aop" where
  "place_res c [] s = Some s"
| "place_res c (r # rs) s =
     do {
       a \<leftarrow> cache_adr s r;
       let p = res_dpcp s r;
       let t = ctls s c;
       let dc = d_cpu (dpcps (ak s) p);
       s \<leftarrow> (if dc = UNBIND_CPU then dpcp_in ACORAL_DPCP_LOCAL (ct_cpu t) p (set_dpcp_cpu p (ct_cpu t) s)
            else if ct_cpu t \<noteq> dc then
              do {
                let s = upd_cache a (type_cache_update (\<lambda>_. ACORAL_DPCP_GLOBAL)) s;
                u \<leftarrow> u_g_time (r_dpcp (ress s r)) s;
                s \<leftarrow> add_load dc u s;
                s \<leftarrow> dpcp_out ACORAL_DPCP_LOCAL dc p s;
                dpcp_in ACORAL_DPCP_GLOBAL dc p s
              }
            else Some s);
       let s = (if ct_prio t < ceiling_cache (caches s a) then upd_cache a (ceiling_cache_update (\<lambda>_. ct_prio t)) s else s);
       s \<leftarrow> (if type_cache (caches s a) = ACORAL_DPCP_GLOBAL
            then do { q \<leftarrow> fdiv (NL s r) (period_time t); add_load (ct_cpu t) (- q) s } else Some s);
       place_res c rs s
     }"

text \<open>Trial of task \<open>c\<close> on the \<open>i\<close>-th CPU of the list.\<close>

definition place :: "ptr \<Rightarrow> nat \<Rightarrow> aop" where
  "place c i s =
     do {
       let s = upd_ctl c (ct_cpu_update (\<lambda>_. ucast (load_list s ! i))) s;
       q \<leftarrow> fdiv (wcet (ctls s c)) (period_time (ctls s c));
       s \<leftarrow> add_load (ct_cpu (ctls s c)) q s;
       s \<leftarrow> (if first_thread s \<noteq> 0 then Some (upd_ctl c (ct_prio_update (\<lambda>_. FIRST_PRIO)) (s\<lparr>this_is_first := 1, first_thread := 0\<rparr>))
            else do { pr \<leftarrow> between_prio c s; Some (upd_ctl c (ct_prio_update (\<lambda>_. pr)) s) });
       rs \<leftarrow> res_list s c;
       place_res c rs s
     }"

fun try_cpus :: "admis_image \<Rightarrow> ptr \<Rightarrow> nat list \<Rightarrow> aop" where
  "try_cpus im c [] s = Some s"
| "try_cpus im c (i # is) s =
     do {
       s \<leftarrow> place c i s;
       (ok, s) \<leftarrow> schedule_ansys (upd_ctl c (is_new_update (\<lambda>_. 0)) s);
       let s = upd_ctl c (is_new_update (\<lambda>_. 1)) s;
       if ok then admis_ctl_create im (s\<lparr>this_is_first := 0\<rparr>)
       else do {
         s \<leftarrow> admis_ctl_restore (if this_is_first s \<noteq> 0 then s\<lparr>this_is_first := 0, first_thread := 1\<rparr> else s);
         try_cpus im c is s
       }
     }"

definition dpcp_del_now :: "ptr \<Rightarrow> ptr \<Rightarrow> kop" where
  "dpcp_del_now vm d k = do { (r, k) \<leftarrow> acoral_dpcp_del vm d k; case r of Return _ \<Rightarrow> Some k | Waiting \<Rightarrow> None }"

text \<open>A rejected task is removed with its resources.\<close>

fun drop_res :: "admis_image \<Rightarrow> ptr \<Rightarrow> ptr list \<Rightarrow> aop" where
  "drop_res im c [] s = Some s"
| "drop_res im c (r # rs) s =
     do {
       a \<leftarrow> cache_adr s r;
       let p = res_dpcp s r;
       let s = (if bind_cnt (caches s a) > 0 then upd_cache a (bind_cnt_update (\<lambda>n. n - 1)) s else s);
       s \<leftarrow> (if bind_cnt (caches s a) = 0 then
               do {
                 s \<leftarrow> (if cpu_is_bind (caches s a) = 1
                      then do { s \<leftarrow> dpcp_out ACORAL_DPCP_LOCAL (d_cpu (dpcps (ak s) p)) p s; Some (set_dpcp_cpu p UNBIND_CPU s) } else Some s);
                 s \<leftarrow> on_ak (dpcp_del_now (vol_mutex im) p) s;
                 Some (s\<lparr>dpcp_vars := (dpcp_vars s)(r_dpcp (ress s r) := NULL)\<rparr>)
               }
             else Some s);
       s \<leftarrow> on_aheap (acoral_lifo_queue_del (ResQ c) (ResL r)) s;
       s \<leftarrow> on_ak (buddy_free r) s;
       drop_res im c rs s
     }"

definition drop_ctl :: "admis_image \<Rightarrow> ptr \<Rightarrow> aop" where
  "drop_ctl im c s =
     do {
       rs \<leftarrow> res_list s c;
       s \<leftarrow> drop_res im c rs (s\<lparr>task_cnt := task_cnt s - 1\<rparr>);
       s \<leftarrow> on_aheap (acoral_prio_queue_del CtlQ (CtlL c)) s;
       on_ak (buddy_free c) s
     }"

partial_function (option) task_loop :: "admis_image \<Rightarrow> anode \<Rightarrow> admis \<Rightarrow> admis option" where
  "task_loop im tmp s =
     (if tmp = CtlQ then Some s
      else do {
        c \<leftarrow> ctl_entry tmp;
        if is_new (ctls s c) = 0 then task_loop im (lprev (aheap s) tmp) s
        else do {
          s \<leftarrow> try_cpus im c [0..<CFG_MAX_CPU] (cpu_load_list_update (s\<lparr>task_cnt := task_cnt s + 1\<rparr>));
          if is_new (ctls s c) = 0 then task_loop im (lprev (aheap s) tmp) s
          else do {
            let tmp1 = lnext (aheap s) tmp;
            s \<leftarrow> drop_ctl im c s;
            task_loop im (lprev (aheap s) tmp1) s
          }
        }
      })"

definition acoral_admis_ctl_task :: "admis_image \<Rightarrow> aop" where
  "acoral_admis_ctl_task im s =
     (if have_new_thread s = 0 then Some s
      else do { s \<leftarrow> task_loop im (lprev (aheap s) CtlQ) s; Some (s\<lparr>have_new_thread := 0\<rparr>) })"

section \<open>The description of tasks\<close>

definition acoral_admis_ctl_data_init :: "ptr \<Rightarrow> u32 \<Rightarrow> u32 \<Rightarrow> u32 \<Rightarrow> ptr \<Rightarrow> u32 \<Rightarrow> ptr \<Rightarrow> ptr \<Rightarrow> aop" where
  "acoral_admis_ctl_data_init c dl we period route sz args stack s =
     do {
       let s = upd_ctl c (\<lambda>t. t\<lparr>dl_time := dl, is_new := 1, period_time := period, wcet := we, wcrt := dl, ct_prio := ACORAL_MINI_PRIO,
                  prio_origin := ACORAL_MINI_PRIO, ct_route := route, ct_stack_size := sz, ct_args := args, ct_stack := stack\<rparr>) s;
       let h = acoral_lifo_queue_init (ResQ c) (acoral_vlist_init (CtlL c) (uint dl) (aheap s));
       on_aheap (acoral_prio_queue_add CtlQ (CtlL c)) (s\<lparr>aheap := h\<rparr>)
     }"

definition vol_malloc_a :: "admis_image \<Rightarrow> u32 \<Rightarrow> admis \<Rightarrow> (ptr \<times> admis) option" where
  "vol_malloc_a im sz s = do { (a, k) \<leftarrow> vol_malloc_now (vol_mutex im) sz (ak s); if a = NULL then None else Some (a, s\<lparr>ak := k\<rparr>) }"

definition new_dpcp :: "admis_image \<Rightarrow> ptr \<Rightarrow> aop" where
  "new_dpcp im v s =
     do {
       (d, k) \<leftarrow> acoral_dpcp_create (dpcp_size im) (ak s);
       (a, s) \<leftarrow> vol_malloc_a im 4 (s\<lparr>ak := k, dpcp_vars := (dpcp_vars s)(v := d)\<rparr>);
       let t = dpcps (ak s) d;
       let s = s\<lparr>caches := (caches s)(a := \<lparr>cpu_is_bind = 0, ceiling_cache = d_prio_ceiling t, type_cache = d_type t, bind_cnt = 0\<rparr>)\<rparr>;
       Some (s\<lparr>ak := upd_dpcp d (d_data_update (\<lambda>_. a)) (ak s)\<rparr>)
     }"

definition acoral_admis_res_data_init :: "admis_image \<Rightarrow> ptr \<Rightarrow> ptr \<Rightarrow> ptr \<Rightarrow> u8 \<Rightarrow> u32 \<Rightarrow> aop" where
  "acoral_admis_res_data_init im c r v cnt len s =
     do {
       s \<leftarrow> (if dpcp_vars s v = NULL then new_dpcp im v s else Some s);
       let s = s\<lparr>ress := (ress s)(r := \<lparr>critical_cnt = cnt, length_max = len, r_dpcp = v\<rparr>)\<rparr>;
       a \<leftarrow> cache_adr s r;
       let s = upd_cache a (bind_cnt_update (\<lambda>n. n + 1)) s;
       on_aheap (acoral_lifo_queue_add (ResQ c) (ResL r)) (s\<lparr>aheap := acoral_list_init (ResL r) (aheap s)\<rparr>)
     }"

section \<open>Initialisation\<close>

definition CA :: int where "CA = 50"
definition ADMIS_CTL_STACK_SIZE :: u32 where "ADMIS_CTL_STACK_SIZE = 256 * 20"

text \<open>A new list node with a value, queued by the value.\<close>

definition new_time :: "admis_image \<Rightarrow> anode \<Rightarrow> int \<Rightarrow> aop" where
  "new_time im q v s =
     do {
       (a, s) \<leftarrow> vol_malloc_a im (list_size im) s;
       on_aheap (acoral_prio_queue_add q (TimeL a)) (s\<lparr>aheap := acoral_vlist_init (TimeL a) v (aheap s)\<rparr>)
     }"

text \<open>A start of the task at \<open>v\<close>: in the queue of its starts and, as a new section, in the times of the CPU.\<close>

definition new_section :: "admis_image \<Rightarrow> u32 \<Rightarrow> int \<Rightarrow> aop" where
  "new_section im cpu v s =
     do { s \<leftarrow> new_time im StartQ v s; s \<leftarrow> new_time im (TimeQ cpu) v s; new_time im (TimeQ cpu) (v + CA) s }"

abbreviation val :: "admis \<Rightarrow> anode \<Rightarrow> int" where
  "val s n \<equiv> lvalue (aheap s) n"

abbreviation nxt :: "admis \<Rightarrow> anode \<Rightarrow> anode" where
  "nxt s n \<equiv> lnext (aheap s) n"

definition set_val :: "anode \<Rightarrow> int \<Rightarrow> admis \<Rightarrow> admis" where
  "set_val n v s = s\<lparr>aheap := set_value n (s32 v) (aheap s)\<rparr>"

text \<open>Starts behind the existing sections, which are extended, and in front of them where there is room. \<open>cnt\<close> counts the starts in
  16 bits.\<close>

partial_function (option) behind_loop :: "admis_image \<Rightarrow> u32 \<Rightarrow> anode \<Rightarrow> u16 \<Rightarrow> admis \<Rightarrow> (u16 \<times> admis) option" where
  "behind_loop im cpu tmp cnt s =
     (if tmp = nxt s (TimeQ cpu) then Some (cnt, s)
      else do {
        s \<leftarrow> new_time im StartQ (val s tmp) s;
        let s = set_val tmp (val s tmp + CA) s;
        behind_loop im cpu (nxt s (nxt s tmp)) (cnt + 1) s
      })"

partial_function (option) front_loop :: "admis_image \<Rightarrow> u32 \<Rightarrow> anode \<Rightarrow> u16 \<Rightarrow> admis \<Rightarrow> (u16 \<times> admis) option" where
  "front_loop im cpu tmp cnt s =
     (if tmp = TimeQ cpu then Some (cnt, s)
      else if s32 (val s tmp - val s (lprev (aheap s) tmp)) \<ge> CA then
        do {
          (a, s) \<leftarrow> vol_malloc_a im (list_size im) s;
          let s = set_val tmp (val s tmp - CA) s;
          s \<leftarrow> on_aheap (acoral_prio_queue_add StartQ (TimeL a)) (s\<lparr>aheap := acoral_vlist_init (TimeL a) (val s tmp) (aheap s)\<rparr>);
          front_loop im cpu (nxt s (nxt s tmp)) (cnt + 1) s
        }
      else front_loop im cpu (nxt s (nxt s tmp)) cnt s)"

text \<open>Starts more than \<open>interval\<close> apart get others between them.\<close>

partial_function (option) gap_loop :: "admis_image \<Rightarrow> u32 \<Rightarrow> u32 \<Rightarrow> anode \<Rightarrow> bool \<Rightarrow> u16 \<Rightarrow> admis \<Rightarrow> (bool \<times> u16 \<times> admis) option" where
  "gap_loop im cpu interval tmp again cnt s =
     (if tmp = StartQ then Some (again, cnt, s)
      else if (word_of_int (s32 (val s tmp - val s (lprev (aheap s) tmp))) :: u32) > interval then
        do {
          let v = uint (word_of_int (val s (lprev (aheap s) tmp)) + interval);
          s \<leftarrow> new_time im StartQ v s;
          let w = uint (word_of_int (val s (lprev (aheap s) tmp)) + interval);
          s \<leftarrow> new_time im (TimeQ cpu) w s;
          s \<leftarrow> new_time im (TimeQ cpu) (uint (word_of_int w + word_of_int CA :: u32)) s;
          gap_loop im cpu interval (nxt s tmp) True (cnt + 1) s
        }
      else gap_loop im cpu interval (nxt s tmp) again cnt s)"

partial_function (option) gaps :: "admis_image \<Rightarrow> u32 \<Rightarrow> u32 \<Rightarrow> u16 \<Rightarrow> admis \<Rightarrow> (u16 \<times> admis) option" where
  "gaps im cpu interval cnt s =
     do {
       (again, cnt, s) \<leftarrow> gap_loop im cpu interval (nxt s (nxt s StartQ)) False cnt s;
       if again then gaps im cpu interval cnt s else Some (cnt, s)
     }"

definition plan_starts :: "admis_image \<Rightarrow> u32 \<Rightarrow> u32 \<Rightarrow> admis \<Rightarrow> (u16 \<times> admis) option" where
  "plan_starts im cpu interval s =
     (if acoral_list_empty (TimeQ cpu) (aheap s) then
        do { s \<leftarrow> new_section im cpu 0 (s\<lparr>timed_h_period := (timed_h_period s)(cpu := word_of_int (CA * 5))\<rparr>); Some (1, s) }
      else do {
        (cnt, s) \<leftarrow> behind_loop im cpu (nxt s (nxt s (TimeQ cpu))) 0 s;
        (cnt, s) \<leftarrow> front_loop im cpu (nxt s (TimeQ cpu)) cnt s;
        (cnt, s) \<leftarrow> (if val s (nxt s (TimeQ cpu)) \<ge> CA then do { s \<leftarrow> new_section im cpu 0 s; Some (cnt + 1, s) } else Some (cnt, s));
        (cnt, s) \<leftarrow> (let h = timed_h_period s cpu in
             if h - word_of_int (val s (lprev (aheap s) (TimeQ cpu))) \<ge> word_of_int CA
             then do { s \<leftarrow> new_section im cpu (uint (h - word_of_int CA)) s; Some (cnt + 1, s) } else Some (cnt, s));
        gaps im cpu interval cnt s
      })"

text \<open>Adjacent sections are joined by removing the end of the one and the start of the next. The second removal reads the
  successor of a node that was just removed.\<close>

partial_function (option) join_loop :: "u32 \<Rightarrow> u32 \<Rightarrow> anode \<Rightarrow> admis \<Rightarrow> admis option" where
  "join_loop cpu i tmp s =
     (let tmp1 = nxt s (nxt s tmp) in
      if nxt s tmp = TimeQ i then Some s
      else if val s tmp = val s (nxt s tmp) then
        do {
          s \<leftarrow> on_aheap (acoral_prio_queue_del (TimeQ cpu) tmp) s;
          s \<leftarrow> on_aheap (acoral_prio_queue_del (TimeQ cpu) (nxt s tmp)) s;
          join_loop cpu i tmp1 s
        }
      else join_loop cpu i tmp1 s)"

text \<open>Ends become lengths, which are summed up.\<close>

partial_function (option) length_loop :: "u32 \<Rightarrow> anode \<Rightarrow> admis \<Rightarrow> admis option" where
  "length_loop i tmp s =
     (if tmp = nxt s (TimeQ i) then Some s
      else
        let v = s32 (val s tmp - val s (lprev (aheap s) tmp));
            s = set_val tmp v s;
            s = s\<lparr>timed_time_sum := (timed_time_sum s)(i := timed_time_sum s i + word_of_int v)\<rparr>
        in length_loop i (nxt s (nxt s tmp)) s)"

fun join_all :: "u32 \<Rightarrow> u32 list \<Rightarrow> aop" where
  "join_all cpu [] s = Some s"
| "join_all cpu (i # is) s = do { s \<leftarrow> join_loop cpu i (nxt s (nxt s (TimeQ i))) s; join_all cpu is s }"

fun load_all :: "u32 list \<Rightarrow> aop" where
  "load_all [] s = Some s"
| "load_all (i # is) s =
     do {
       s \<leftarrow> length_loop i (nxt s (nxt s (TimeQ i))) s;
       q \<leftarrow> fdiv (timed_time_sum s i) (timed_h_period s i);
       let l = rnd 24 (load_last s i + q);
       load_all is (s\<lparr>load_last := (load_last s)(i := l), load_this := (load_this s)(i := l)\<rparr>)
     }"

text \<open>Start and end of each run, in the order of the queue; the last end is the end of the hyper period.\<close>

definition start_times :: "u32 \<Rightarrow> admis \<Rightarrow> u32 list option" where
  "start_times h s =
     do {
       ns \<leftarrow> walk (lnext (aheap s)) StartQ (nxt s StartQ);
       let ts = concat (map (\<lambda>n. [word_of_int (val s n), word_of_int (val s n + CA)]) ns);
       if ts = [] then None else Some (ts[length ts - 1 := h])
     }"

definition acoral_admis_ctl_init :: "admis_image \<Rightarrow> u32 \<Rightarrow> u32 \<Rightarrow> aop" where
  "acoral_admis_ctl_init im cpu max_time_min s =
     (if unat cpu \<ge> CFG_MAX_CPU then None
      else do {
        let s = s\<lparr>aheap := acoral_prio_queue_init StartQ (acoral_prio_queue_init CtlQ (aheap s))\<rparr>;
        (_, s) \<leftarrow> vol_malloc_a im 4 s;
        (route, s) \<leftarrow> vol_malloc_a im 4 s;
        (args, s) \<leftarrow> vol_malloc_a im 4 s;
        (cnt, s) \<leftarrow> plan_starts im cpu (2 * max_time_min + 3 * word_of_int CA) s;
        (_, s) \<leftarrow> vol_malloc_a im (4 * ucast cnt * 2) s;
        ts \<leftarrow> start_times (timed_h_period s cpu) s;
        (r, k) \<leftarrow> create_thread_by_policy (kernel_policies (hooks_run im) (vol_mutex im)) (timed_route im) ADMIS_CTL_STACK_SIZE NULL NULL
          (ucast ACORAL_SCHED_POLICY_TIMED)
          \<lparr>pd_cpu = cpu, pd_prio = 0, pd_time = 0, pd_start_time = ts, pd_section_num = 1, pd_frequency = ucast cnt,
            pd_section_route = route, pd_section_args = args\<rparr> NULL None (ak s);
        s \<leftarrow> join_all cpu (map of_nat [0..<CFG_MAX_CPU]) (s\<lparr>ak := k, admis_task := id_word r\<rparr>);
        load_all (map of_nat [0..<CFG_MAX_CPU]) s
      })"

declare task_loop.simps [code] and behind_loop.simps [code] and front_loop.simps [code] and gap_loop.simps [code] and gaps.simps [code]
  and join_loop.simps [code] and length_loop.simps [code]

end
