(* ===== verification/Admis_Props.thy ===== *)
theory Admis_Props
  imports Admis Example
begin

text \<open>
  Properties of the analysis of response times: its iteration ends and finds the least solution of the recurrence, the
  floating-point terms are the exact ones for small numbers, and where the analysis is not safe.
\<close>

section \<open>Iteration to a fixed point\<close>

text \<open>A loop that iterates a function \<open>f\<close> which is monotone up to a limit. \<open>x\<close> stands for what the loop does not change.\<close>

locale bounded_iteration =
  fixes good :: "'x \<Rightarrow> bool" and f :: "'x \<Rightarrow> u32 \<Rightarrow> u32" and limit :: "'x \<Rightarrow> u32"
    and loop :: "'x \<Rightarrow> u32 \<Rightarrow> 'b option" and fin :: "'x \<Rightarrow> u32 \<Rightarrow> 'b option" and fail :: "'x \<Rightarrow> 'b option"
  assumes mono: "good x \<Longrightarrow> t \<le> t' \<Longrightarrow> t' \<le> limit x \<Longrightarrow> f x t \<le> f x t'"
    and step: "good x \<Longrightarrow> t \<le> limit x \<Longrightarrow> loop x t = (if f x t > limit x then fail x else if f x t = t then fin x t else loop x (f x t))"
begin

lemma iterate:
  assumes "good x" "t \<le> limit x" "t \<le> f x t" "\<forall>y. y \<le> limit x \<and> start \<le> y \<and> f x y = y \<longrightarrow> t \<le> y" "start \<le> t"
  shows "loop x t = (if \<exists>y. y \<le> limit x \<and> start \<le> y \<and> f x y = y then fin x (LEAST y. y \<le> limit x \<and> start \<le> y \<and> f x y = y) else fail x)"
  using assms(2-5)
proof (induction "unat (limit x - t)" arbitrary: t rule: less_induct)
  case less
  let ?fix = "\<lambda>y. y \<le> limit x \<and> start \<le> y \<and> f x y = y"
  consider "f x t = t" | "f x t > limit x" | "t < f x t" "f x t \<le> limit x" using less.prems(2) by fastforce
  then show ?case
  proof cases
    case 1
    then have "?fix t" using less.prems(1,4) by simp
    moreover have "(LEAST y. ?fix y) = t" by (rule Least_equality) (use \<open>?fix t\<close> less.prems(3) in auto)
    ultimately show ?thesis using 1 step [OF assms(1) less.prems(1)] less.prems(1) by auto
  next
    case 2
    have "\<not> ?fix y" for y
    proof
      assume y: "?fix y"
      then have "f x t \<le> f x y" using mono [OF assms(1), of t y] less.prems(3) by blast
      then show False using y 2 by auto
    qed
    then show ?thesis using 2 step [OF assms(1) less.prems(1)] by auto
  next
    case 3
    have "f x t \<le> f x (f x t)" using mono [OF assms(1) less.prems(2) 3(2)] .
    moreover have "\<forall>y. ?fix y \<longrightarrow> f x t \<le> y"
    proof safe
      fix y assume y: "y \<le> limit x" "start \<le> y" "f x y = y"
      then have "t \<le> y" using less.prems(3) by blast
      then show "f x t \<le> y" using mono [OF assms(1), of t y] y by simp
    qed
    moreover have "unat (limit x - f x t) < unat (limit x - t)"
      using 3 less.prems(1) by (simp add: unat_sub word_less_nat_alt word_le_nat_alt)
    ultimately have "loop x (f x t) = (if \<exists>y. ?fix y then fin x (LEAST y. ?fix y) else fail x)"
      using less.hyps [of "f x t"] 3 less.prems(4) by simp
    moreover have "loop x t = loop x (f x t)" using 3 step [OF assms(1) less.prems(1)] by auto
    ultimately show ?thesis by simp
  qed
qed

text \<open>From \<open>start\<close> on, the loop returns: with the least fixed point up to the limit, or with a failure when there is none.\<close>

lemma least_fixed_point:
  assumes "good x" "start \<le> limit x" "start \<le> f x start"
  shows "loop x start = (if \<exists>y. y \<le> limit x \<and> start \<le> y \<and> f x y = y then fin x (LEAST y. y \<le> limit x \<and> start \<le> y \<and> f x y = y) else fail x)"
  by (rule iterate [OF assms]) simp_all

end

section \<open>Interference grows with time\<close>

lemma to_u32_mono: "0 \<le> x \<Longrightarrow> x \<le> y \<Longrightarrow> to_u32 y = Some b \<Longrightarrow> \<exists>a. to_u32 x = Some a \<and> a \<le> b"
proof -
  assume a: "0 \<le> x" "x \<le> y" "to_u32 y = Some b"
  have y: "y < 2 ^ 32" and b: "b = of_int \<lfloor>y\<rfloor>" using a by (auto simp: to_u32_def split: if_splits)
  have fl: "0 \<le> \<lfloor>x\<rfloor>" "\<lfloor>x\<rfloor> \<le> \<lfloor>y\<rfloor>" "\<lfloor>y\<rfloor> < 2 ^ 32" using a(1,2) y by (simp_all add: floor_mono floor_less_iff)
  have "uint (word_of_int z :: u32) = z" if "0 \<le> z" "z \<le> \<lfloor>y\<rfloor>" for z
  proof -
    have "z < 2 ^ 32" using that(2) fl(3) by linarith
    then show ?thesis using that(1) by (simp add: uint_word_of_int_eq take_bit_int_eq_self)
  qed
  then have "uint (word_of_int \<lfloor>x\<rfloor> :: u32) = \<lfloor>x\<rfloor>" "uint (word_of_int \<lfloor>y\<rfloor> :: u32) = \<lfloor>y\<rfloor>"
    using fl(1,2) order_trans [OF fl(1,2)] by blast+
  then have "(word_of_int \<lfloor>x\<rfloor> :: u32) \<le> word_of_int \<lfloor>y\<rfloor>" using fl(2) by (simp only: word_le_def)
  then show ?thesis using a(1,2) y by (simp add: to_u32_def b)
qed

lemma ru_mono: "a \<le> b \<Longrightarrow> ru a \<le> ru b"
  unfolding ru_def of_nat_le_iff by (simp add: word_le_nat_alt)

lemma ru_nonneg [simp]: "0 \<le> ru a"
  unfolding ru_def by (rule of_nat_0_le_iff)

lemma rnd_nonneg [simp]: "0 \<le> x \<Longrightarrow> 0 < p \<Longrightarrow> 0 \<le> rnd p x"
  using rnd_mono [of 0 x p] by simp

lemma fdiv_mono:
  assumes "a \<le> a'" "fdiv a' b = Some q'"
  shows "\<exists>q. fdiv a b = Some q \<and> q \<le> q' \<and> 0 \<le> q"
proof -
  have b: "b \<noteq> 0" "q' = rnd 24 (rnd 24 (ru a') / rnd 24 (ru b))" using assms(2) by (simp_all add: fdiv_def split: if_splits)
  have "rnd 24 (rnd 24 (ru a) / rnd 24 (ru b)) \<le> q'"
    unfolding b(2) by (intro rnd_mono divide_right_mono ru_mono assms(1) divide_nonneg_nonneg) simp_all
  then show ?thesis using b(1) by (simp add: fdiv_def)
qed

lemma add_ceil_mono:
  assumes "ret \<le> ret'" "q \<le> q'" "0 \<le> q" "add_ceil ret' q' c = Some r'"
  shows "\<exists>r. add_ceil ret q c = Some r \<and> r \<le> r'"
proof -
  have cq: "0 \<le> \<lceil>q\<rceil>" "\<lceil>q\<rceil> \<le> \<lceil>q'\<rceil>" using assms(2,3) by (linarith, simp add: ceiling_mono)
  have m: "rnd 53 (of_int \<lceil>q\<rceil> * ru c) \<le> rnd 53 (of_int \<lceil>q'\<rceil> * ru c)" "0 \<le> rnd 53 (of_int \<lceil>q\<rceil> * ru c)"
    using cq by (intro rnd_mono mult_right_mono mult_nonneg_nonneg rnd_nonneg; simp)+
  have "rnd 53 (ru ret + rnd 53 (of_int \<lceil>q\<rceil> * ru c)) \<le> rnd 53 (ru ret' + rnd 53 (of_int \<lceil>q'\<rceil> * ru c))"
    by (rule rnd_mono) (use m ru_mono [OF assms(1)] in \<open>auto intro: add_mono add_nonneg_nonneg\<close>)
  then show ?thesis using to_u32_mono assms(4) m(2) by (simp add: add_ceil_def)
qed

lemma interference_mono:
  assumes "t \<le> t'" "ret \<le> ret'" "n \<le> wcrt c" "unat t' + unat (wcrt c) < 2 ^ 32" "interference t' c n ret' = Some r'"
  shows "\<exists>r. interference t c n ret = Some r \<and> r \<le> r'"
proof -
  have "t + wcrt c - n \<le> t' + wcrt c - n"
  proof -
    have u: "unat (t + wcrt c) = unat t + unat (wcrt c)" "unat (t' + wcrt c) = unat t' + unat (wcrt c)"
      using assms(1,4) by (simp_all add: unat_word_ariths word_le_nat_alt)
    then have "n \<le> t + wcrt c" "n \<le> t' + wcrt c" using assms(3) by (simp_all add: word_le_nat_alt)
    then show ?thesis using u assms(1) by (simp add: word_le_nat_alt unat_sub)
  qed
  moreover obtain q' where q': "fdiv (t' + wcrt c - n) (period_time c) = Some q'" "add_ceil ret' q' n = Some r'"
    using assms(5) by (auto simp: interference_def bind_Some_iff)
  ultimately obtain q where q: "fdiv (t + wcrt c - n) (period_time c) = Some q" "q \<le> q'" "0 \<le> q" using fdiv_mono by blast
  show ?thesis using add_ceil_mono [OF assms(2) q(2,3) q'(2)] q(1) by (auto simp: interference_def)
qed

section \<open>Tasks of higher priority\<close>

text \<open>The tasks in front of \<open>p\<close> in the queue that can preempt it, and the execution time of a task outside global critical sections.\<close>

definition hp :: "admis \<Rightarrow> ptr \<Rightarrow> ptr list \<Rightarrow> ptr list" where
  "hp s p cs = filter (\<lambda>c. ct_cpu (ctls s c) = ct_cpu (ctls s p)) (takeWhile (\<lambda>c. ct_prio (ctls s c) < ct_prio (ctls s p)) cs)"

lemma hp_Cons:
  "hp s p (c # cs) = (if ct_prio (ctls s c) < ct_prio (ctls s p)
     then (if ct_cpu (ctls s c) = ct_cpu (ctls s p) then c # hp s p cs else hp s p cs) else [])"
  by (simp add: hp_def)

definition c_ng :: "admis \<Rightarrow> ptr \<Rightarrow> u32 option" where
  "c_ng s c = do { rs \<leftarrow> res_list s c; c_ng_loop s rs (wcet (ctls s c)) }"

lemma ng_loop_Cons:
  "ng_loop s t p (c # cs) ret =
     (if ct_prio (ctls s c) < ct_prio (ctls s p) then
        if ct_cpu (ctls s c) = ct_cpu (ctls s p)
        then do { n \<leftarrow> c_ng s c; ret \<leftarrow> interference t (ctls s c) n ret; ng_loop s t p cs ret }
        else ng_loop s t p cs ret
      else Some ret)"
  by (auto simp: c_ng_def not_less)

text \<open>The sums of times do not wrap around.\<close>

definition no_wrap :: "admis \<Rightarrow> ptr \<Rightarrow> ptr \<Rightarrow> bool" where
  "no_wrap s p c \<longleftrightarrow> (\<exists>n. c_ng s c = Some n \<and> n \<le> wcrt (ctls s c)) \<and> unat (dl_time (ctls s p)) + unat (wcrt (ctls s c)) < 2 ^ 32"

lemma ng_loop_mono:
  assumes "\<forall>c \<in> set (hp s p cs). no_wrap s p c" "t \<le> t'" "t' \<le> dl_time (ctls s p)" "ret \<le> ret'" "ng_loop s t' p cs ret' = Some r'"
  shows "\<exists>r. ng_loop s t p cs ret = Some r \<and> r \<le> r'"
  using assms(1,4,5)
proof (induction cs arbitrary: ret ret')
  case (Cons c cs)
  show ?case
  proof (cases "ct_prio (ctls s c) < ct_prio (ctls s p) \<and> ct_cpu (ctls s c) = ct_cpu (ctls s p)")
    case True
    then have nw: "no_wrap s p c" "\<forall>c \<in> set (hp s p cs). no_wrap s p c" using Cons.prems(1) by (simp_all add: hp_Cons)
    then obtain n where n: "c_ng s c = Some n" "n \<le> wcrt (ctls s c)" "unat t' + unat (wcrt (ctls s c)) < 2 ^ 32"
      using assms(3) by (auto simp: no_wrap_def word_le_nat_alt)
    then obtain x' where x': "interference t' (ctls s c) n ret' = Some x'" "ng_loop s t' p cs x' = Some r'"
      using Cons.prems(3) True unfolding ng_loop_Cons by (auto simp: bind_Some_iff)
    obtain x where x: "interference t (ctls s c) n ret = Some x" "x \<le> x'"
      using interference_mono [OF assms(2) Cons.prems(2) n(2,3) x'(1)] by blast
    show ?thesis using Cons.IH [OF nw(2) x(2) x'(2)] True unfolding ng_loop_Cons by (simp add: n(1) x(1))
  next
    case False
    then show ?thesis using Cons.IH [OF _ Cons.prems(2)] Cons.prems unfolding ng_loop_Cons hp_Cons by (auto split: if_splits)
  qed
qed simp

section \<open>The least response time\<close>

text \<open>No resource is global, and task \<open>p\<close> shares its CPU with no thread of fixed start times; \<open>cs\<close> is the queue of tasks and \<open>b\<close> the
  blocking by local resources.\<close>

definition local_cpu :: "admis \<Rightarrow> ptr \<Rightarrow> ptr list \<Rightarrow> bool" where
  "local_cpu s p cs \<longleftrightarrow> ctl_list s = Some cs \<and> res_list s p \<noteq> None \<and> time_list s (ct_cpu (ctls s p)) = Some [] \<and>
     dpcp_list s 0 = Some [] \<and> dpcp_list s 1 = Some []"

definition local_task :: "admis \<Rightarrow> ptr \<Rightarrow> ptr list \<Rightarrow> u32 \<Rightarrow> bool" where
  "local_task s p cs b \<longleftrightarrow> local_cpu s p cs \<and> latency_b_time p s = Some b"

definition analysable :: "admis \<Rightarrow> ptr \<Rightarrow> ptr list \<Rightarrow> u32 \<Rightarrow> bool" where
  "analysable s p cs b \<longleftrightarrow> local_task s p cs b \<and> (\<forall>c \<in> set (hp s p cs). no_wrap s p c) \<and>
     (\<exists>L. latency_ng_time (dl_time (ctls s p)) p s = Some L \<and> unat (wcet (ctls s p)) + unat L < 2 ^ 32)"

lemma local_latencies:
  assumes "local_cpu s p cs"
  shows "latency_t_time t (ct_cpu (ctls s p)) s = Some 0" "latency_g_time t p s = Some 0"
proof -
  show "latency_t_time t (ct_cpu (ctls s p)) s = Some 0" using assms by (simp add: local_cpu_def latency_t_time_def)
  have "map of_nat [0..<CFG_MAX_CPU] = [0, 1 :: u32]" by (simp add: CFG_MAX_CPU_def upt_rec numeral_2_eq_2)
  then show "latency_g_time t p s = Some 0" using assms by (auto simp: latency_g_time_def local_cpu_def g_cpu_def)
qed

lemma ng_defined:
  assumes "analysable s p cs b" "t \<le> t'" "t' \<le> dl_time (ctls s p)"
  shows "\<exists>n n'. latency_ng_time t p s = Some n \<and> latency_ng_time t' p s = Some n' \<and> n \<le> n' \<and> unat (wcet (ctls s p)) + unat n' < 2 ^ 32"
proof -
  obtain L where L: "ng_loop s (dl_time (ctls s p)) p cs 0 = Some L" "unat (wcet (ctls s p)) + unat L < 2 ^ 32" and cs: "ctl_list s = Some cs"
    and nw: "\<forall>c \<in> set (hp s p cs). no_wrap s p c"
    using assms(1) by (auto simp: analysable_def local_task_def local_cpu_def latency_ng_time_def)
  obtain n' where n': "ng_loop s t' p cs 0 = Some n'" "n' \<le> L" using ng_loop_mono [OF nw assms(3) order_refl order_refl L(1)] by blast
  obtain n where n: "ng_loop s t p cs 0 = Some n" "n \<le> n'" using ng_loop_mono [OF nw assms(2,3) order_refl n'(1)] by blast
  have "unat n' \<le> unat L" using n'(2) by (simp add: word_le_nat_alt)
  then show ?thesis using n n' L(2) cs by (auto simp: latency_ng_time_def)
qed

text \<open>The right-hand side of the recurrence.\<close>

definition recurrence :: "admis \<Rightarrow> ptr \<Rightarrow> u32 \<Rightarrow> u32" where
  "recurrence s p t = wcet (ctls s p) + the (latency_ng_time t p s)"

definition response_end :: "admis \<Rightarrow> ptr \<Rightarrow> u32 \<Rightarrow> u32 \<Rightarrow> u32 option" where
  "response_end s p b t = Some (if b > dl_time (ctls s p) then dl_time (ctls s p) + 100 else t + b)"

interpretation response: bounded_iteration "\<lambda>(s, p, cs, b). analysable s p cs b" "\<lambda>(s, p, cs, b). recurrence s p"
    "\<lambda>(s, p, cs, b). dl_time (ctls s p)" "\<lambda>(s, p, cs, b). response_loop p s" "\<lambda>(s, p, cs, b). response_end s p b"
    "\<lambda>(s, p, cs, b). Some (dl_time (ctls s p) + 100)"
proof (unfold_locales, goal_cases)
  case (1 x t t')
  obtain s p cs b where x: "x = (s, p, cs, b)" by (cases x) auto
  then obtain n n' where n: "latency_ng_time t p s = Some n" "latency_ng_time t' p s = Some n'" "n \<le> n'" "unat (wcet (ctls s p)) + unat n' < 2 ^ 32"
    using ng_defined [of s p cs b t t'] 1 by auto
  then show ?case by (simp add: x recurrence_def word_le_nat_alt unat_word_ariths)
next
  case (2 x t)
  obtain s p cs b where x: "x = (s, p, cs, b)" by (cases x) auto
  let ?dl = "dl_time (ctls s p)" let ?f = "recurrence s p t"
  have g: "analysable s p cs b" "local_task s p cs b" "local_cpu s p cs" and t: "t \<le> ?dl" using 2 by (simp_all add: x analysable_def local_task_def)
  obtain n where n: "latency_ng_time t p s = Some n" "unat (wcet (ctls s p)) + unat n < 2 ^ 32"
    using ng_defined [OF g(1) order_refl t] by auto
  have f: "?f = wcet (ctls s p) + n" and fn: "n \<le> ?f" using n by (simp_all add: recurrence_def word_le_nat_alt unat_word_ariths)
  have b: "latency_b_time p s = Some b" using g(2) by (simp add: local_task_def local_cpu_def)
  have step: "response_loop p s t = (if n > ?dl then Some (?dl + 100) else if t = ?f then response_end s p b t else response_loop p s ?f)"
    using t by (subst response_loop.simps) (auto simp: Let_def n(1) local_latencies [OF g(3)] f b response_end_def)
  have out: "response_loop p s u = Some (?dl + 100)" if "?dl < u" for u using leD [of u ?dl] that by (subst response_loop.simps) (auto simp: Let_def)
  show ?case
  proof (cases "?f > ?dl")
    case True
    then show ?thesis using t step out by (auto simp: x)
  next
    case False
    then have "\<not> n > ?dl" using fn by auto
    then show ?thesis using False step by (auto simp: x)
  qed
qed

section \<open>Exact interference\<close>

text \<open>The demand of the tasks of higher priority in a window of length \<open>R\<close>, with exact integer arithmetic.\<close>

definition cost :: "admis \<Rightarrow> ptr \<Rightarrow> nat" where
  "cost s c = (case c_ng s c of None \<Rightarrow> 0 | Some n \<Rightarrow> unat n)"

definition demand :: "admis \<Rightarrow> ptr list \<Rightarrow> nat \<Rightarrow> nat" where
  "demand s hs R = (\<Sum>c \<leftarrow> hs. cdiv (R + unat (wcrt (ctls s c)) - cost s c) (unat (period_time (ctls s c))) * cost s c)"

text \<open>All times fit into the 24 bits of a \<^verbatim>\<open>float\<close>.\<close>

definition small_times :: "admis \<Rightarrow> ptr \<Rightarrow> ptr \<Rightarrow> bool" where
  "small_times s p c \<longleftrightarrow> (\<exists>n. c_ng s c = Some n \<and> n \<le> wcrt (ctls s c)) \<and>
     unat (dl_time (ctls s p)) + unat (wcrt (ctls s c)) < 2 ^ 24 \<and> 0 < period_time (ctls s c) \<and> unat (period_time (ctls s c)) < 2 ^ 24"

lemma small_no_wrap: "small_times s p c \<Longrightarrow> no_wrap s p c"
  by (auto simp: small_times_def no_wrap_def)

lemma interference_exact:
  assumes "small_times s p c" "c_ng s c = Some n" "t \<le> dl_time (ctls s p)"
    "unat ret + cdiv (unat t + unat (wcrt (ctls s c)) - unat n) (unat (period_time (ctls s c))) * unat n < 2 ^ 32"
  shows "interference t (ctls s c) n ret =
    Some (of_nat (unat ret + cdiv (unat t + unat (wcrt (ctls s c)) - unat n) (unat (period_time (ctls s c))) * unat n))"
proof -
  let ?c = "ctls s c"
  have b: "n \<le> wcrt ?c" "unat t + unat (wcrt ?c) < 2 ^ 24" "period_time ?c \<noteq> 0" "unat (period_time ?c) < 2 ^ 24"
    using assms(1-3) by (auto simp: small_times_def word_le_nat_alt)
  have u: "unat (t + wcrt ?c) = unat t + unat (wcrt ?c)" using b(2) by (simp add: unat_word_ariths)
  then have d: "unat (t + wcrt ?c - n) = unat t + unat (wcrt ?c) - unat n" using b(1) by (subst unat_sub) (simp_all add: word_le_nat_alt)
  have lt: "unat (t + wcrt ?c - n) < 2 ^ 24" using b(2) unfolding d by linarith
  obtain q where q: "fdiv (t + wcrt ?c - n) (period_time ?c) = Some q"
      "\<lceil>q\<rceil> = int (cdiv (unat t + unat (wcrt ?c) - unat n) (unat (period_time ?c)))"
    using fdiv_small [OF lt b(4,3)] unfolding d by blast
  show ?thesis unfolding interference_def q(1) by (simp add: add_ceil_exact [OF q(2) assms(4)])
qed

lemma ng_loop_exact:
  assumes "\<forall>c \<in> set (hp s p cs). small_times s p c" "t \<le> dl_time (ctls s p)" "unat ret + demand s (hp s p cs) (unat t) < 2 ^ 32"
  shows "ng_loop s t p cs ret = Some (of_nat (unat ret + demand s (hp s p cs) (unat t)))"
  using assms(1,3)
proof (induction cs arbitrary: ret)
  case Nil
  then show ?case by (simp add: hp_def demand_def)
next
  case (Cons c cs)
  show ?case
  proof (cases "ct_prio (ctls s c) < ct_prio (ctls s p) \<and> ct_cpu (ctls s c) = ct_cpu (ctls s p)")
    case True
    then have st: "small_times s p c" "\<forall>c \<in> set (hp s p cs). small_times s p c" using Cons.prems(1) by (simp_all add: hp_Cons)
    then obtain n where n: "c_ng s c = Some n" by (auto simp: small_times_def)
    let ?x = "cdiv (unat t + unat (wcrt (ctls s c)) - unat n) (unat (period_time (ctls s c))) * unat n"
    have dm: "demand s (hp s p (c # cs)) (unat t) = ?x + demand s (hp s p cs) (unat t)"
      using True by (simp add: demand_def hp_Cons cost_def n)
    have lt: "unat ret + ?x < 2 ^ 32" using Cons.prems(2) unfolding dm by linarith
    have u: "unat (of_nat (unat ret + ?x) :: u32) = unat ret + ?x" by (simp only: unat_of_nat) (use lt in \<open>simp add: take_bit_nat_eq_self\<close>)
    have "ng_loop s t p (c # cs) ret = ng_loop s t p cs (of_nat (unat ret + ?x))"
      using True interference_exact [OF st(1) n assms(2) lt] unfolding ng_loop_Cons by (simp add: n)
    also have "\<dots> = Some (of_nat (unat ret + ?x + demand s (hp s p cs) (unat t)))"
      using Cons.IH [OF st(2), of "of_nat (unat ret + ?x)"] Cons.prems(2) unfolding u dm by (simp only: add.assoc)
    finally show ?thesis unfolding dm by (simp only: add.assoc)
  next
    case False
    then show ?thesis using Cons.IH Cons.prems unfolding ng_loop_Cons by (auto simp: hp_Cons demand_def split: if_splits)
  qed
qed

lemma demand_mono: "R \<le> R' \<Longrightarrow> demand s hs R \<le> demand s hs R'"
  unfolding demand_def by (intro sum_list_mono mult_right_mono cdiv_mono) simp_all

text \<open>The classical recurrence for response times.\<close>

definition solution :: "admis \<Rightarrow> ptr \<Rightarrow> ptr list \<Rightarrow> nat \<Rightarrow> bool" where
  "solution s p hs R \<longleftrightarrow> R = unat (wcet (ctls s p)) + demand s hs R"

lemma recurrence_exact:
  assumes "local_task s p cs b" "\<forall>c \<in> set (hp s p cs). small_times s p c" "t \<le> dl_time (ctls s p)"
    "unat (wcet (ctls s p)) + demand s (hp s p cs) (unat (dl_time (ctls s p))) < 2 ^ 32"
  shows "latency_ng_time t p s = Some (of_nat (demand s (hp s p cs) (unat t)))"
    "unat (recurrence s p t) = unat (wcet (ctls s p)) + demand s (hp s p cs) (unat t)"
proof -
  have "demand s (hp s p cs) (unat t) \<le> demand s (hp s p cs) (unat (dl_time (ctls s p)))"
    using assms(3) by (intro demand_mono) (simp add: word_le_nat_alt)
  then have lt: "unat (wcet (ctls s p)) + demand s (hp s p cs) (unat t) < 2 ^ 32" using assms(4) by linarith
  show ng: "latency_ng_time t p s = Some (of_nat (demand s (hp s p cs) (unat t)))"
    using ng_loop_exact [OF assms(2,3), of 0] assms(1) lt by (simp add: latency_ng_time_def local_task_def local_cpu_def)
  have "unat (of_nat (demand s (hp s p cs) (unat t)) :: u32) = demand s (hp s p cs) (unat t)"
    using lt by (simp add: unat_of_nat take_bit_nat_eq_self)
  then show "unat (recurrence s p t) = unat (wcet (ctls s p)) + demand s (hp s p cs) (unat t)"
    using lt unfolding recurrence_def ng option.sel by (simp add: unat_word_ariths)
qed

lemma local_analysable:
  assumes "local_task s p cs b" "\<forall>c \<in> set (hp s p cs). small_times s p c"
    "unat (wcet (ctls s p)) + demand s (hp s p cs) (unat (dl_time (ctls s p))) < 2 ^ 32"
  shows "analysable s p cs b"
proof -
  let ?D = "demand s (hp s p cs) (unat (dl_time (ctls s p)))"
  have "unat (of_nat ?D :: u32) \<le> ?D" by (simp add: unat_of_nat)
  then have "unat (wcet (ctls s p)) + unat (of_nat ?D :: u32) < 2 ^ 32" using assms(3) by linarith
  then show ?thesis
    using recurrence_exact(1) [OF assms(1,2) order_refl assms(3)] assms(1,2) small_no_wrap unfolding analysable_def by blast
qed

text \<open>The least word below a bound and the least natural number with a property agree.\<close>

lemma below_word: "R \<le> unat (d::u32) \<Longrightarrow> unat (of_nat R :: u32) = R"
  using unsigned_less [of d, where ?'a = nat] by (simp add: unat_of_nat take_bit_nat_eq_self)

lemma Least_unat:
  fixes d :: u32
  assumes "R \<le> unat d" "P R"
  shows "(LEAST y. y \<le> d \<and> P (unat y)) \<le> d" "unat (LEAST y. y \<le> d \<and> P (unat y)) = (LEAST R. P R)"
proof -
  let ?y = "LEAST y. y \<le> d \<and> P (unat y)"
  have ex: "(of_nat R' :: u32) \<le> d \<and> P (unat (of_nat R' :: u32))" if "R' \<le> unat d" "P R'" for R'
    using that below_word [OF that(1)] by (simp add: word_le_nat_alt)
  have y: "?y \<le> d \<and> P (unat ?y)" by (rule LeastI [of "\<lambda>y. y \<le> d \<and> P (unat y)", OF ex [OF assms]])
  then show "?y \<le> d" by simp
  have le: "unat ?y \<le> R'" if "P R'" for R'
  proof (cases "R' \<le> unat d")
    case True
    have "?y \<le> of_nat R'" by (rule Least_le) (rule ex [OF True that])
    then show ?thesis using below_word [OF True] by (simp add: word_le_nat_alt)
  qed (use y in \<open>simp add: word_le_nat_alt\<close>)
  show "unat ?y = (LEAST R. P R)" by (rule Least_equality [symmetric]) (use y le in blast)+
qed


section \<open>The delay of one request for a global resource\<close>

lemma add_ceil_ge: "0 \<le> q \<Longrightarrow> add_ceil ret q c = Some r \<Longrightarrow> ret \<le> r"
proof -
  assume a: "0 \<le> q" "add_ceil ret q c = Some r"
  have "rnd 53 (ru ret + 0) \<le> rnd 53 (ru ret + rnd 53 (of_int \<lceil>q\<rceil> * ru c))"
    using a(1) by (intro rnd_mono add_left_mono rnd_nonneg mult_nonneg_nonneg) simp_all
  moreover have "to_u32 (ru ret) = Some ret"
    unfolding ru_def by (subst to_u32_nat) (use unsigned_less [of ret, where ?'a = nat] in simp_all)
  ultimately show ?thesis using to_u32_mono [of "ru ret"] a(2) by (fastforce simp: add_ceil_def rnd_u32)
qed

lemma interference_ge: "interference t c n ret = Some r \<Longrightarrow> ret \<le> r"
  using add_ceil_ge fdiv_mono by (fastforce simp: interference_def bind_Some_iff)

lemma res_interf_mono:
  assumes "\<forall>r \<in> set rs. NL s r \<le> wcrt (ctls s c)" "t \<le> t'" "unat t' + unat (wcrt (ctls s c)) < 2 ^ 32" "ret \<le> ret'"
    "res_interf s t' d c rs ret' = Some r'"
  shows "\<exists>r. res_interf s t d c rs ret = Some r \<and> r \<le> r' \<and> ret \<le> r"
  using assms(1,4,5)
proof (induction rs arbitrary: ret ret')
  case (Cons x rs)
  show ?case
  proof (cases "res_dpcp s x = d")
    case True
    then obtain y' where y': "interference t' (ctls s c) (NL s x) ret' = Some y'" "res_interf s t' d c rs y' = Some r'"
      using Cons.prems(3) by (auto simp: bind_Some_iff)
    obtain y where y: "interference t (ctls s c) (NL s x) ret = Some y" "y \<le> y'"
      using interference_mono [OF assms(2) Cons.prems(2) _ assms(3) y'(1)] Cons.prems(1) by auto
    show ?thesis using Cons.IH [OF _ y(2) y'(2)] Cons.prems(1) True y(1) interference_ge [OF y(1)] by fastforce
  next
    case False
    then show ?thesis using Cons.IH [OF _ Cons.prems(2)] Cons.prems(1,3) by simp
  qed
qed simp

text \<open>The tasks in front of \<open>p\<close> with higher priority, on any CPU: their critical sections are no longer than their response times, and
  sums of times do not wrap around.\<close>

definition hg_fits :: "admis \<Rightarrow> ptr \<Rightarrow> ptr list \<Rightarrow> bool" where
  "hg_fits s p cs \<longleftrightarrow> (\<forall>c \<in> set (takeWhile (\<lambda>c. ct_prio (ctls s c) < ct_prio (ctls s p)) cs).
     unat (dl_time (ctls s p)) + unat (wcrt (ctls s c)) < 2 ^ 32 \<and> (\<exists>rs. res_list s c = Some rs \<and> (\<forall>r \<in> set rs. NL s r \<le> wcrt (ctls s c))))"

lemma hg_ctl_mono:
  assumes "hg_fits s p cs" "t \<le> t'" "t' \<le> dl_time (ctls s p)" "ret \<le> ret'" "hg_ctl s t' d p cs ret' = Some r'"
  shows "\<exists>r. hg_ctl s t d p cs ret = Some r \<and> r \<le> r' \<and> ret \<le> r"
  using assms(1,4,5)
proof (induction cs arbitrary: ret ret')
  case (Cons c cs)
  show ?case
  proof (cases "ct_prio (ctls s c) < ct_prio (ctls s p)")
    case True
    then obtain rs where rs: "res_list s c = Some rs" "\<forall>r \<in> set rs. NL s r \<le> wcrt (ctls s c)" "unat t' + unat (wcrt (ctls s c)) < 2 ^ 32"
        and fits: "hg_fits s p cs"
      using Cons.prems(1) assms(3) by (auto simp: hg_fits_def word_le_nat_alt)
    obtain y' where y': "res_interf s t' d c rs ret' = Some y'" "hg_ctl s t' d p cs y' = Some r'"
      using Cons.prems(3) True rs(1) by (auto simp: bind_Some_iff)
    obtain y where y: "res_interf s t d c rs ret = Some y" "y \<le> y'" "ret \<le> y"
      using res_interf_mono [OF rs(2) assms(2) rs(3) Cons.prems(2) y'(1)] by blast
    show ?thesis using Cons.IH [OF fits y(2) y'(2)] True rs(1) y(1,3) by fastforce
  qed (use Cons.prems in simp)
qed simp

lemma hg_dpcp_mono:
  assumes "hg_fits s p cs" "t \<le> t'" "t' \<le> dl_time (ctls s p)" "ret \<le> ret'" "hg_dpcp s t' p cs ds ret' = Some r'"
  shows "\<exists>r. hg_dpcp s t p cs ds ret = Some r \<and> r \<le> r' \<and> ret \<le> r"
  using assms(4,5)
proof (induction ds arbitrary: ret ret')
  case (Cons d ds)
  obtain y' where y': "hg_ctl s t' d p cs ret' = Some y'" "hg_dpcp s t' p cs ds y' = Some r'"
    using Cons.prems(2) by (auto simp: bind_Some_iff)
  obtain y where y: "hg_ctl s t d p cs ret = Some y" "y \<le> y'" "ret \<le> y" using hg_ctl_mono [OF assms(1-3) Cons.prems(1) y'(1)] by blast
  show ?case using Cons.IH [OF y(2) y'(2)] y(1,3) by fastforce
qed simp

text \<open>On a CPU without threads of fixed start times, the delay can be computed for the whole deadline.\<close>

definition hg_ready :: "u32 \<Rightarrow> u32 \<Rightarrow> ptr \<Rightarrow> admis \<Rightarrow> bool" where
  "hg_ready start cpu p s \<longleftrightarrow> (\<exists>cs ds. ctl_list s = Some cs \<and> dpcp_list s cpu = Some ds \<and> time_list s cpu = Some [] \<and> hg_fits s p cs) \<and>
     hg_step start cpu p s (dl_time (ctls s p)) \<noteq> None"

lemma hg_step_mono:
  assumes "hg_ready start cpu p s" "t \<le> t'" "t' \<le> dl_time (ctls s p)"
  shows "\<exists>r r'. hg_step start cpu p s t = Some r \<and> hg_step start cpu p s t' = Some r' \<and> r \<le> r' \<and> start \<le> r"
proof -
  obtain cs ds where l: "ctl_list s = Some cs" "dpcp_list s cpu = Some ds" "time_list s cpu = Some []" "hg_fits s p cs"
    using assms(1) by (auto simp: hg_ready_def)
  have st: "hg_step start cpu p s u = hg_dpcp s u p cs ds start" for u by (cases "hg_dpcp s u p cs ds start") (simp_all add: hg_step_def l latency_t_time_def)
  obtain L where L: "hg_dpcp s (dl_time (ctls s p)) p cs ds start = Some L" using assms(1) unfolding hg_ready_def st by auto
  obtain r' where r': "hg_dpcp s t' p cs ds start = Some r'" using hg_dpcp_mono [OF l(4) assms(3) order_refl order_refl L] by blast
  show ?thesis using hg_dpcp_mono [OF l(4) assms(2,3) order_refl r'] unfolding st by (auto simp: r')
qed

interpretation global_delay: bounded_iteration "\<lambda>(start, cpu, p, s). hg_ready start cpu p s" "\<lambda>(start, cpu, p, s) h. the (hg_step start cpu p s h)"
    "\<lambda>(start, cpu, p, s). dl_time (ctls s p)" "\<lambda>(start, cpu, p, s). hg_loop start cpu p s" "\<lambda>_. Some"
    "\<lambda>(start, cpu, p, s). Some (dl_time (ctls s p) + 100)"
proof (unfold_locales, goal_cases)
  case (1 x t t')
  then show ?case using hg_step_mono by (cases x) fastforce
next
  case (2 x t)
  obtain start cpu p s where x: "x = (start, cpu, p, s)" by (cases x) auto
  obtain r where r: "hg_step start cpu p s t = Some r" using hg_step_mono [of start cpu p s t t] 2 by (auto simp: x)
  have "hg_loop start cpu p s t = (if t = r then Some t else hg_loop start cpu p s r)" using 2 by (subst hg_loop.simps) (simp add: x r)
  moreover have "hg_loop start cpu p s u = Some (dl_time (ctls s p) + 100)" if "dl_time (ctls s p) < u" for u
    using leD [of u "dl_time (ctls s p)"] that by (subst hg_loop.simps) auto
  ultimately show ?case using 2 by (auto simp: x r)
qed

text \<open>The delay of a request is the least fixed point of its recurrence from \<open>start\<close> on, or the deadline plus 100 when there is none
  up to the deadline.\<close>

lemma h_g_time_least:
  assumes "hg_ready start cpu p s" "start \<le> dl_time (ctls s p)"
  shows "h_g_time start cpu p s =
    Some (if \<exists>h. h \<le> dl_time (ctls s p) \<and> start \<le> h \<and> hg_step start cpu p s h = Some h
          then LEAST h. h \<le> dl_time (ctls s p) \<and> start \<le> h \<and> hg_step start cpu p s h = Some h else dl_time (ctls s p) + 100)"
proof -
  have eq: "h \<le> dl_time (ctls s p) \<and> start \<le> h \<and> the (hg_step start cpu p s h) = h \<longleftrightarrow>
      h \<le> dl_time (ctls s p) \<and> start \<le> h \<and> hg_step start cpu p s h = Some h" for h
    using hg_step_mono [OF assms(1) order_refl, of h] by auto
  have "start \<le> the (hg_step start cpu p s start)" using hg_step_mono [OF assms(1) order_refl assms(2)] by auto
  then show ?thesis
    using global_delay.least_fixed_point [of "(start, cpu, p, s)" start, unfolded prod.case, OF assms] unfolding h_g_time_def eq by auto
qed

section \<open>An example\<close>

text \<open>Two tasks on CPU 0: the one at \<open>0x10\<close> runs 2 of 5 time units, the one at \<open>0x20\<close>, of lower priority, needs 3 within 10.\<close>

definition ex_task :: ctl_data where
  "ex_task = \<lparr>ct_cpu = 0, dl_time = 10, wcet = 3, wcrt = 10, period_time = 10, ct_route = 0, ct_args = 0, ct_stack_size = 0, ct_stack = 0,
     ct_prio = 20, prio_origin = 20, is_new = 0, task_id = 0\<rparr>"

definition ex_admis :: admis where
  "ex_admis = \<lparr>ak = ex_kernel,
     aheap = \<lparr>lnext = (\<lambda>x. x)(CtlQ := CtlL 0x10, CtlL 0x10 := CtlL 0x20, CtlL 0x20 := CtlQ),
       lprev = (\<lambda>x. x)(CtlQ := CtlL 0x20, CtlL 0x10 := CtlQ, CtlL 0x20 := CtlL 0x10), lvalue = (\<lambda>_. 0), llock = (\<lambda>_. False), qlock = (\<lambda>_. False)\<rparr>,
     ctls = (\<lambda>_. ex_task)(0x10 := ex_task\<lparr>dl_time := 5, wcet := 2, wcrt := 2, period_time := 5, ct_prio := 10\<rparr>),
     ress = (\<lambda>_. \<lparr>critical_cnt = 0, length_max = 0, r_dpcp = 0\<rparr>), caches = (\<lambda>_. \<lparr>cpu_is_bind = 0, ceiling_cache = 0, type_cache = 0, bind_cnt = 0\<rparr>),
     dpcp_vars = (\<lambda>_. 0), load_last = (\<lambda>_. 0), load_this = (\<lambda>_. 0), load_list = [0, 1], task_cnt = 2,
     timed_time_sum = (\<lambda>_. 0), timed_h_period = (\<lambda>_. 0), have_new_thread = 0, first_thread = 0, this_is_first = 0, admis_task = 0\<rparr>"

lemma ex_admis_lists:
  "ctl_list ex_admis = Some [0x10, 0x20]" "ctl_list_back ex_admis = Some [0x20, 0x10]" "res_list ex_admis c = Some []"
  "time_list ex_admis 0 = Some []" "dpcp_list ex_admis 0 = Some []" "dpcp_list ex_admis 1 = Some []"
  by (simp_all add: ctl_list_def ctl_list_back_def res_list_def time_list_def dpcp_list_def entries_def walk.simps [of _ CtlQ]
      ex_admis_def ex_heap_def dpcp_index_def ACORAL_DPCP_GLOBAL_def CFG_MAX_CPU_def)

lemma ex_ctls:
  "ctls ex_admis 0x10 = ex_task\<lparr>dl_time := 5, wcet := 2, wcrt := 2, period_time := 5, ct_prio := 10\<rparr>" "ctls ex_admis 0x20 = ex_task"
  by (simp_all add: ex_admis_def)

lemma ex_local_task: "local_task ex_admis 0x20 [0x10, 0x20] 0"
  by (simp add: local_task_def local_cpu_def ex_admis_lists latency_b_time_def ex_ctls) (simp add: ex_task_def ex_admis_lists)


lemma lists_cong:
  assumes "aheap s = aheap s'" "ak s = ak s'"
  shows "ctl_list s = ctl_list s'" "ctl_list_back s = ctl_list_back s'" "res_list s c = res_list s' c" "time_list s i = time_list s' i"
    "dpcp_list s i = dpcp_list s' i"
  using assms by (simp_all add: ctl_list_def ctl_list_back_def res_list_def time_list_def dpcp_list_def)

section \<open>Where the analysis is not safe\<close>

text \<open>Tasks of equal priority are not counted: two tasks on one CPU that both need all of it pass the analysis. New tasks get
  the mean of the priorities of their neighbours in the queue, so equal priorities arise as soon as there is no room between them.\<close>

definition ex_equal :: admis where
  "ex_equal = ex_admis\<lparr>ctls := (\<lambda>_. ex_task\<lparr>wcet := 10\<rparr>)\<rparr>"

theorem equal_priorities_pass: "map_option fst (schedule_ansys ex_equal) = Some True"
proof -
  have l: "ctl_list s = Some [0x10, 0x20]" "ctl_list_back s = Some [0x20, 0x10]" "res_list s c = Some []"
      "time_list s 0 = Some []" "dpcp_list s 0 = Some []" "dpcp_list s 1 = Some []"
    if "aheap s = aheap ex_admis" "ak s = ak ex_admis" for s c
    unfolding lists_cong [OF that] by (simp_all add: ex_admis_lists)
  have r: "response_time p s = Some 10"
    if "aheap s = aheap ex_admis" "ak s = ak ex_admis" "\<And>c. ctls s c = ex_task\<lparr>wcet := 10, wcrt := wcrt (ctls s c)\<rparr>" for p s
  proof -
    have c: "ct_cpu (ctls s c) = 0" "ct_prio (ctls s c) = 20" "wcet (ctls s c) = 10" "dl_time (ctls s c) = 10" for c
      by (subst that(3), simp add: ex_task_def)+
    have lt: "local_task s p [0x10, 0x20] 0" "local_cpu s p [0x10, 0x20]" by (simp_all add: local_task_def local_cpu_def l [OF that(1,2)] latency_b_time_def c)
    have "latency_ng_time 10 p s = Some 0" by (simp add: latency_ng_time_def l [OF that(1,2)] c)
    then show ?thesis
      using local_latencies [OF lt(2)] lt(1) unfolding response_time_def by (subst response_loop.simps) (simp add: c Let_def local_task_def local_cpu_def)
  qed
  show ?thesis
    by (simp add: schedule_ansys_def l ex_equal_def r upd_ctl_def ex_task_def)
qed

text \<open>From \<open>2 ^ 24\<close> on a \<^verbatim>\<open>float\<close> does not hold every integer: a window just longer than the period counts as one period.\<close>

theorem interference_rounds_down:
  "interference 16777217 (ex_task\<lparr>wcrt := 5, period_time := 16777216\<rparr>) 5 0 = Some 5" "cdiv 16777217 16777216 = 2"
proof -
  have e: "expo 16777217 = 24" "expo 16777216 = 24" "expo 1 = 0" "expo 5 = 2" by (rule expo_eq; simp)+
  have fl: "\<lfloor>16777217 / 2 :: rat\<rfloor> = 8388608" by (rule floor_unique) simp_all
  have r: "rnd 24 16777217 = 16777216" "rnd 24 16777216 = 16777216" "rnd 24 1 = 1" "rnd 53 5 = 5"
    by (simp_all add: rnd_pos ulp_def e rne_def Let_def fl)
  have "fdiv 16777217 16777216 = Some 1" by (simp add: fdiv_def ru_def r)
  moreover have "add_ceil 0 1 5 = Some 5" by (simp add: add_ceil_def ru_def r to_u32_def)
  ultimately show "interference 16777217 (ex_task\<lparr>wcrt := 5, period_time := 16777216\<rparr>) 5 0 = Some 5" by (simp add: interference_def)
  show "cdiv 16777217 16777216 = 2" by (simp add: cdiv_def nat_eq_iff ceiling_eq_iff)
qed

end
