(* ===== verification/Admis_Task_Props.thy ===== *)
theory Admis_Task_Props
  imports Admis_Task Admis_Props
begin

text \<open>
  Properties of the admission control as a whole: response times that pass the analysis are consistent, a trial leaves nothing
  tentative behind in the priorities and loads and, when it is rejected, in the resources, and the initialisation hangs on adjacent sections.
\<close>

section \<open>Changes of response times\<close>

abbreviation with_wcrt :: "(ptr \<Rightarrow> u32) \<Rightarrow> admis \<Rightarrow> admis" where
  "with_wcrt w s \<equiv> s\<lparr>ctls := (\<lambda>c. (ctls s c)\<lparr>wcrt := w c\<rparr>)\<rparr>"

lemma with_wcrt_reads [simp]:
  "ctl_list (with_wcrt w s) = ctl_list s" "ctl_list_back (with_wcrt w s) = ctl_list_back s" "res_list (with_wcrt w s) c = res_list s c"
  "time_list (with_wcrt w s) i = time_list s i" "dpcp_list (with_wcrt w s) i = dpcp_list s i"
  "cache (with_wcrt w s) r = cache s r" "NL (with_wcrt w s) r = NL s r"
  by (simp_all add: ctl_list_def ctl_list_back_def res_list_def time_list_def dpcp_list_def cache_def cache_adr_def res_dpcp_def NL_def)

lemma c_ng_wcrt [simp]: "c_ng_loop (with_wcrt w s) rs n = c_ng_loop s rs n" "c_ng (with_wcrt w s) c = c_ng s c"
proof -
  show l: "c_ng_loop (with_wcrt w s) rs n = c_ng_loop s rs n" for rs n by (induction rs arbitrary: n) (simp_all cong: if_cong)
  show "c_ng (with_wcrt w s) c = c_ng s c" by (simp add: c_ng_def l)
qed

lemma latency_b_wcrt [simp]: "latency_b_time p (with_wcrt w s) = latency_b_time p s"
proof -
  have "global_count (with_wcrt w s) rs n = global_count s rs n" for rs n by (induction rs arbitrary: n) (simp_all cong: if_cong)
  moreover have m: "local_max (with_wcrt w s) pr rs n = local_max s pr rs n" for pr rs n by (induction rs arbitrary: n) (simp_all cong: if_cong)
  moreover have "b_loop (with_wcrt w s) p cs = b_loop s p cs" for cs by (induction cs) (rule ext, simp add: m cong: if_cong)+
  ultimately show ?thesis by (simp add: latency_b_time_def)
qed

lemma hp_wcrt [simp]: "hp (with_wcrt w s) p cs = hp s p cs"
  by (simp add: hp_def)

lemma ng_loop_wcrt:
  assumes "\<forall>c \<in> set (hp s p cs). w c = wcrt (ctls s c)"
  shows "ng_loop (with_wcrt w s) t p cs ret = ng_loop s t p cs ret"
  using assms
proof (induction cs arbitrary: ret)
  case (Cons c cs)
  show ?case
  proof (cases "ct_prio (ctls s c) < ct_prio (ctls s p)")
    case True
    then have IH: "ng_loop (with_wcrt w s) t p cs = ng_loop s t p cs"
      using Cons by (intro ext Cons.IH) (auto simp: hp_Cons split: if_splits)
    have "ct_cpu (ctls s c) = ct_cpu (ctls s p) \<Longrightarrow> (ctls s c)\<lparr>wcrt := w c\<rparr> = ctls s c" using Cons.prems True by (simp add: hp_Cons)
    then show ?thesis using True unfolding ng_loop_Cons by (simp add: IH cong: if_cong)
  qed (simp add: ng_loop_Cons del: ng_loop.simps)
qed simp

lemma response_loop_cong:
  assumes "\<And>t. latency_ng_time t p s' = latency_ng_time t p s" "\<And>t. latency_t_time t (ct_cpu (ctls s p)) s' = latency_t_time t (ct_cpu (ctls s p)) s"
    "\<And>t. latency_g_time t p s' = latency_g_time t p s" "latency_b_time p s' = latency_b_time p s"
    "ct_cpu (ctls s' p) = ct_cpu (ctls s p)" "dl_time (ctls s' p) = dl_time (ctls s p)" "wcet (ctls s' p) = wcet (ctls s p)"
    "response_loop p s t = Some r"
  shows "response_loop p s' t = Some r"
proof -
  let ?P = "\<lambda>p0 s0 t0 r0. p0 = p \<longrightarrow> s0 = s \<longrightarrow> response_loop p0 s' t0 = Some r0"
  have "?P p s t r"
  proof (rule response_loop.raw_induct [where P = ?P, OF _ assms(8)], intro impI)
    fix rl p0 s0 t0 r0
    assume IH: "\<And>p s t r. rl p s t = Some r \<Longrightarrow> ?P p s t r" and eq: "p0 = p" "s0 = s" and
      body: "(let c = ctls s0 p0; test_end = dl_time c in
        if t0 \<le> test_end then
          do {
            ng \<leftarrow> latency_ng_time t0 p0 s0;
            if ng > test_end then Some (test_end + 100)
            else do {
              lt \<leftarrow> latency_t_time t0 (ct_cpu c) s0;
              if lt > test_end then Some (test_end + 100)
              else do {
                lg \<leftarrow> latency_g_time t0 p0 s0;
                if lg > test_end then Some (test_end + 100)
                else if t0 = wcet c + ng + lt + lg then
                  do { lb \<leftarrow> latency_b_time p0 s0; if lb > test_end then Some (test_end + 100) else Some (t0 + lb) }
                else rl p0 s0 (wcet c + ng + lt + lg)
              }
            }
          }
        else Some (test_end + 100)) = Some r0"
    have rl: "rl p s u = Some y \<Longrightarrow> response_loop p s' u = Some y" for u y using IH by blast
    show "response_loop p0 s' t0 = Some r0"
      using body unfolding eq Let_def
      by (subst response_loop.simps, simp only: assms(1-7) Let_def,
          cases "latency_ng_time t0 p s"; cases "latency_t_time t0 (ct_cpu (ctls s p)) s"; cases "latency_g_time t0 p s")
        (simp_all add: rl split: if_split_asm, auto)
  qed
  then show ?thesis by blast
qed

text \<open>A response time depends only on the response times of the tasks that can preempt the task.\<close>

lemma response_time_wcrt:
  assumes "local_cpu s p cs" "\<forall>c \<in> set (hp s p cs). w c = wcrt (ctls s c)" "response_time p s = Some r"
  shows "response_time p (with_wcrt w s) = Some r"
proof -
  have l: "local_cpu (with_wcrt w s) p cs" and cs: "ctl_list s = Some cs" using assms(1) by (simp_all add: local_cpu_def)
  have "latency_ng_time t p (with_wcrt w s) = latency_ng_time t p s" for t
    by (simp add: latency_ng_time_def cs ng_loop_wcrt [OF assms(2)])
  moreover have "latency_t_time t (ct_cpu (ctls s p)) (with_wcrt w s) = latency_t_time t (ct_cpu (ctls s p)) s" for t
    using local_latencies(1) [OF l] local_latencies(1) [OF assms(1)] by simp
  moreover have "latency_g_time t p (with_wcrt w s) = latency_g_time t p s" for t
    using local_latencies(2) [OF l] local_latencies(2) [OF assms(1)] by simp
  ultimately show ?thesis
    using assms(3) unfolding response_time_def by (intro response_loop_cong [of p "with_wcrt w s" s]) simp_all
qed

section \<open>The analysis\<close>

lemma ansys_loop_frame:
  "ansys_loop cs s = Some (ok, s') \<Longrightarrow> \<exists>w. s' = with_wcrt w s \<and> (\<forall>c. c \<notin> set cs \<longrightarrow> w c = wcrt (ctls s c))"
proof (induction cs arbitrary: s)
  case Nil
  then show ?case by (auto intro!: exI [of _ "\<lambda>c. wcrt (ctls s c)"])
next
  case (Cons c cs)
  let ?s = "\<lambda>b. upd_ctl c (wcrt_update (\<lambda>_. b)) s"
  have id: "\<exists>w. s = with_wcrt w s \<and> (\<forall>d. d \<notin> set (c # cs) \<longrightarrow> w d = wcrt (ctls s d))" by (rule exI [of _ "\<lambda>c. wcrt (ctls s c)"]) simp
  show ?case
  proof (cases "is_new (ctls s c) = 1")
    case False
    then obtain b where b: "response_time c s = Some b" "if b \<le> dl_time (ctls s c) then ansys_loop cs (?s b) = Some (ok, s') else (False, s) = (ok, s')"
      using Cons.prems by (auto simp: bind_Some_iff split: if_splits)
    then show ?thesis
    proof (cases "b \<le> dl_time (ctls s c)")
      case True
      then obtain w where "s' = with_wcrt w (?s b)" "\<forall>d. d \<notin> set cs \<longrightarrow> w d = wcrt (ctls (?s b) d)" using Cons.IH b(2) by fastforce
      then have "s' = with_wcrt w s" "\<forall>d. d \<notin> set (c # cs) \<longrightarrow> w d = wcrt (ctls s d)" by (simp_all add: upd_ctl_def fun_eq_iff)
      then show ?thesis by blast
    qed (use b id in auto)
  next
    case True
    then show ?thesis using Cons.IH [of s] Cons.prems by fastforce
  qed
qed

lemma hp_before: "set (hp s c (pre @ c # cs)) \<subseteq> set pre"
proof -
  have "set (takeWhile (\<lambda>d. ct_prio (ctls s d) < ct_prio (ctls s c)) (pre @ c # cs)) \<subseteq> set pre" by (induction pre) auto
  then show ?thesis unfolding hp_def set_filter by blast
qed

lemma ansys_loop_consistent:
  assumes "ansys_loop cs s = Some (True, s')" "ctl_list s = Some (pre @ cs)" "distinct (pre @ cs)" "\<forall>c \<in> set cs. local_cpu s c (pre @ cs)"
    "c \<in> set cs" "is_new (ctls s c) \<noteq> 1"
  shows "response_time c s' = Some (wcrt (ctls s' c)) \<and> wcrt (ctls s' c) \<le> dl_time (ctls s c)"
  using assms
proof (induction cs arbitrary: s pre)
  case (Cons d cs)
  show ?case
  proof (cases "is_new (ctls s d) = 1")
    case True
    then have "c \<in> set cs" using Cons.prems(5,6) by auto
    then show ?thesis using Cons.IH [of s "pre @ [d]"] Cons.prems True by simp
  next
    case False
    then obtain b where b: "response_time d s = Some b" "b \<le> dl_time (ctls s d)"
        and run: "ansys_loop cs (upd_ctl d (wcrt_update (\<lambda>_. b)) s) = Some (True, s')"
      using Cons.prems(1) by (auto simp: bind_Some_iff split: if_splits)
    let ?w = "(\<lambda>c. wcrt (ctls s c))(d := b)"
    have s1: "upd_ctl d (wcrt_update (\<lambda>_. b)) s = with_wcrt ?w s" by (simp add: upd_ctl_def fun_eq_iff)
    show ?thesis
    proof (cases "c = d")
      case True
      obtain w where w: "s' = with_wcrt w s" "\<forall>c. c \<notin> set cs \<longrightarrow> w c = ?w c" using ansys_loop_frame [OF run] unfolding s1 by auto
      have "\<forall>e \<in> set (hp s d (pre @ d # cs)). w e = wcrt (ctls s e)"
      proof
        fix e assume "e \<in> set (hp s d (pre @ d # cs))"
        then have "e \<in> set pre" using hp_before [of s d pre cs] by blast
        then have "e \<notin> set cs" "e \<noteq> d" using Cons.prems(3) by auto
        then show "w e = wcrt (ctls s e)" using w(2) by simp
      qed
      then have "response_time d s' = Some b" using response_time_wcrt [of s d "pre @ d # cs" w b] b(1) Cons.prems(4) unfolding w(1) by simp
      moreover have "wcrt (ctls s' d) = b" using w Cons.prems(3) by simp
      ultimately show ?thesis using True b(2) by simp
    next
      case False
      have "\<forall>e \<in> set cs. local_cpu (with_wcrt ?w s) e ((pre @ [d]) @ cs)" using Cons.prems(4) by (simp add: local_cpu_def)
      then show ?thesis
        using Cons.IH [of "with_wcrt ?w s" "pre @ [d]"] run False Cons.prems(2,3,5,6) unfolding s1 by simp
    qed
  qed
qed simp

text \<open>C18. When the analysis passes, the recorded worst-case response times are consistent: for every task that is not waiting for
  its own trial, the recorded time is the response time that the analysis computes from the recorded times, and it is within the
  deadline. Nothing but these times has changed. (No resource is global and no thread has fixed start times.)\<close>

theorem analysis_consistent:
  assumes "schedule_ansys s = Some (True, s')" "ctl_list s = Some cs" "distinct cs" "\<forall>c \<in> set cs. local_cpu s c cs"
  shows "(\<exists>w. s' = s\<lparr>ctls := (\<lambda>c. (ctls s c)\<lparr>wcrt := w c\<rparr>)\<rparr>) \<and>
    (\<forall>c \<in> set cs. is_new (ctls s c) \<noteq> 1 \<longrightarrow> response_time c s' = Some (wcrt (ctls s' c)) \<and> wcrt (ctls s' c) \<le> dl_time (ctls s c))"
proof -
  have run: "ansys_loop cs s = Some (True, s')" using assms(1,2) by (simp add: schedule_ansys_def)
  show ?thesis using ansys_loop_frame [OF run] ansys_loop_consistent [OF run, of "[]"] assms(2-4) by auto
qed

lemma ex_response:
  "response_time 0x10 ex_admis = Some 2" "response_time 0x20 ex_admis = Some 5"
proof -
  have l: "local_task ex_admis p [0x10, 0x20] 0" "local_cpu ex_admis p [0x10, 0x20]" if "p = 0x10 \<or> p = 0x20" for p
    using that by (auto simp: local_task_def local_cpu_def ex_admis_lists latency_b_time_def ex_ctls ex_task_def)
  have n: "c_ng ex_admis 0x10 = Some 2" by (simp add: c_ng_def ex_admis_lists ex_ctls)
  have h: "hp ex_admis 0x10 [0x10, 0x20] = []" "hp ex_admis 0x20 [0x10, 0x20] = [0x10]" by (simp_all add: hp_def ex_ctls ex_task_def)
  have d: "demand ex_admis [] R = 0" "demand ex_admis [0x10] R = cdiv R 5 * 2" for R by (simp_all add: demand_def cost_def n ex_ctls)
  have c: "cdiv 3 5 = 1" "cdiv 5 5 = 1" "cdiv 10 5 = 2" by (simp_all add: cdiv_def nat_eq_iff ceiling_eq_iff)
  have w: "wcet (ctls ex_admis 0x20) = 3" "dl_time (ctls ex_admis 0x20) = 10" "wcet (ctls ex_admis 0x10) = 2" "dl_time (ctls ex_admis 0x10) = 5"
    by (simp_all add: ex_ctls ex_task_def)
  have st: "\<forall>c \<in> set (hp ex_admis p [0x10, 0x20]). small_times ex_admis p c" if "p = 0x10 \<or> p = 0x20" for p
    using that by (auto simp: h small_times_def n ex_ctls ex_task_def)
  have ng1: "latency_ng_time 2 0x10 ex_admis = Some 0" using recurrence_exact(1) [OF l(1) st, of "0x10" 2] by (simp add: h d w)
  have ng2: "latency_ng_time 3 0x20 ex_admis = Some 2" "latency_ng_time 5 0x20 ex_admis = Some 2"
    using recurrence_exact(1) [OF l(1) st, of "0x20" 3] recurrence_exact(1) [OF l(1) st, of "0x20" 5] by (simp_all add: h d w c)
  have b: "latency_b_time p ex_admis = Some 0" if "p = 0x10 \<or> p = 0x20" for p using l(1) [OF that] by (simp add: local_task_def)
  have z: "latency_t_time t (ct_cpu (ctls ex_admis p)) ex_admis = Some 0" "latency_g_time t p ex_admis = Some 0" if "p = 0x10 \<or> p = 0x20" for p t
    using local_latencies [OF l(2) [OF that]] by blast+
  show "response_time 0x10 ex_admis = Some 2"
    unfolding response_time_def w by (subst response_loop.simps) (simp add: Let_def w ng1 b z)
  have "response_loop 0x20 ex_admis 5 = Some 5"
    by (subst response_loop.simps) (simp add: Let_def w ng2 b z)
  then show "response_time 0x20 ex_admis = Some 5"
    unfolding response_time_def w by (subst response_loop.simps) (simp add: Let_def w ng2 b z)
qed

theorem analysis_consistent_witness:
  "\<exists>s. schedule_ansys ex_admis = Some (True, s) \<and> response_time 0x20 s = Some (wcrt (ctls s 0x20)) \<and> wcrt (ctls s 0x20) \<le> 10"
proof -
  have "upd_ctl 0x10 (wcrt_update (\<lambda>_. 2)) ex_admis = ex_admis"
    by (rule admis.equality) (simp_all add: upd_ctl_def ex_ctls fun_eq_iff)
  then obtain s where s: "schedule_ansys ex_admis = Some (True, s)"
    using ex_response by (auto simp: schedule_ansys_def ex_admis_lists ex_ctls ex_task_def)
  have "\<forall>c \<in> set [0x10, 0x20]. local_cpu ex_admis c [0x10, 0x20]" by (simp add: local_cpu_def ex_admis_lists ex_ctls ex_task_def)
  then have "is_new (ctls ex_admis 0x20) \<noteq> 1 \<longrightarrow> response_time 0x20 s = Some (wcrt (ctls s 0x20)) \<and> wcrt (ctls s 0x20) \<le> dl_time (ctls ex_admis 0x20)"
    using analysis_consistent [OF s ex_admis_lists(1)] by simp
  then show ?thesis using s by (simp add: ex_ctls ex_task_def)
qed

section \<open>Trials\<close>

text \<open>Nothing is tentative: the tasks \<open>cs\<close> have the priorities they run with, and the loads are those of the accepted tasks.\<close>

definition settled :: "ptr list \<Rightarrow> admis \<Rightarrow> bool" where
  "settled cs s \<longleftrightarrow> (\<forall>c \<in> set cs. ct_prio (ctls s c) = prio_origin (ctls s c)) \<and> (\<forall>i. unat i < CFG_MAX_CPU \<longrightarrow> load_this s i = load_last s i)"

definition same_tasks :: "admis \<Rightarrow> admis \<Rightarrow> bool" where
  "same_tasks s s' \<longleftrightarrow> aheap s' = aheap s \<and> ctls s' = ctls s \<and> load_last s' = load_last s"

lemma same_tasks_trans [trans]: "same_tasks s t \<Longrightarrow> same_tasks t u \<Longrightarrow> same_tasks s u"
  by (simp add: same_tasks_def)

lemma same_tasks_refl [simp]: "same_tasks s s"
  by (simp add: same_tasks_def)

lemma same_tasks_steps:
  "on_ak f s = Some s' \<Longrightarrow> same_tasks s s'" "dpcp_out ty cpu d s = Some s' \<Longrightarrow> same_tasks s s'" "dpcp_in ty cpu d s = Some s' \<Longrightarrow> same_tasks s s'"
  "add_load cpu q s = Some s' \<Longrightarrow> same_tasks s s'" "acoral_admis_ctl_change_prio c s = Some s' \<Longrightarrow> same_tasks s s'"
  "acoral_admis_ctl_change_res r s = Some s' \<Longrightarrow> same_tasks s s'"
  by (auto simp: on_ak_def dpcp_out_def dpcp_in_def add_load_def acoral_admis_ctl_change_prio_def acoral_admis_ctl_change_res_def
      same_tasks_def bind_Some_iff split: if_splits)

lemma same_tasks_upd [simp]:
  "same_tasks s (upd_cache a f t) = same_tasks s t" "same_tasks s (set_dpcp_cpu p i t) = same_tasks s t"
  by (simp_all add: same_tasks_def upd_cache_def set_dpcp_cpu_def)

text \<open>Every result of \<open>m\<close> satisfies \<open>P\<close>; the rules follow the structure of the operations.\<close>

definition post :: "('s \<Rightarrow> bool) \<Rightarrow> 's option \<Rightarrow> bool" where
  "post P m \<longleftrightarrow> (\<forall>s'. m = Some s' \<longrightarrow> P s')"

lemma postD: "post P m \<Longrightarrow> m = Some s' \<Longrightarrow> P s'"
  by (simp add: post_def)

lemma post_Some: "P t \<Longrightarrow> post P (Some t)"
  by (simp add: post_def)

lemma post_mono: "post P m \<Longrightarrow> (\<And>t. P t \<Longrightarrow> Q t) \<Longrightarrow> post Q m"
  by (simp add: post_def)

lemma post_bind: "post P m \<Longrightarrow> (\<And>t. P t \<Longrightarrow> post P (f t)) \<Longrightarrow> post P (Option.bind m f)"
  by (auto simp: post_def bind_Some_iff)

lemma post_bind_val: "(\<And>x. post P (f x)) \<Longrightarrow> post P (Option.bind m f)"
  by (auto simp: post_def bind_Some_iff)

lemma post_if: "post P a \<Longrightarrow> post P b \<Longrightarrow> post P (if c then a else b)"
  by simp

lemma post_Let: "(\<And>y. y = x \<Longrightarrow> post P (f y)) \<Longrightarrow> post P (Let x f)"
  by simp

lemmas post_rules = post_Some post_bind [where ?'a = admis] post_bind_val [where ?'a = ptr] post_bind_val [where ?'a = rat]
  post_bind_val [where ?'a = "ptr list"] post_bind_val [where ?'a = u8] post_if post_Let

lemma tasks_post:
  assumes "same_tasks s t"
  shows "post (same_tasks s) (on_ak f t)" "post (same_tasks s) (dpcp_out ty cpu d t)" "post (same_tasks s) (dpcp_in ty cpu d t)"
    "post (same_tasks s) (add_load cpu q t)" "post (same_tasks s) (acoral_admis_ctl_change_prio c t)"
    "post (same_tasks s) (acoral_admis_ctl_change_res r t)"
  unfolding post_def by (blast intro: same_tasks_trans [OF assms] same_tasks_steps)+

lemma place_res_tasks: "same_tasks s t \<Longrightarrow> post (same_tasks s) (place_res c rs t)"
  by (induction rs arbitrary: t) (auto intro!: post_rules tasks_post)

lemma create_res_tasks: "same_tasks s t \<Longrightarrow> post (same_tasks s) (create_res c rs t)"
  by (induction rs arbitrary: t) (auto intro!: post_rules tasks_post)

lemma restore_res_tasks: "same_tasks s t \<Longrightarrow> post (same_tasks s) (restore_res rs t)"
  by (induction rs arbitrary: t) (auto intro!: post_rules tasks_post)

lemma ctls_upd_ctl [simp]: "ctls (upd_ctl c f s) d = (if d = c then f (ctls s c) else ctls s d)" "aheap (upd_ctl c f s) = aheap s"
  by (simp_all add: upd_ctl_def)

text \<open>The tasks other than \<open>c\<close> keep their priorities.\<close>

definition others :: "ptr \<Rightarrow> admis \<Rightarrow> admis \<Rightarrow> bool" where
  "others c s s' \<longleftrightarrow> aheap s' = aheap s \<and>
     (\<forall>d. d \<noteq> c \<longrightarrow> ct_prio (ctls s' d) = ct_prio (ctls s d) \<and> prio_origin (ctls s' d) = prio_origin (ctls s d))"

abbreviation own :: "ptr \<Rightarrow> admis \<Rightarrow> bool" where
  "own c s \<equiv> ct_prio (ctls s c) = prio_origin (ctls s c)"

lemma others_refl [simp]: "others c s s"
  by (simp add: others_def)

lemma others_trans [trans]: "others c s t \<Longrightarrow> others c t u \<Longrightarrow> others c s u"
  by (simp add: others_def)

lemma others_same: "others c s t \<Longrightarrow> same_tasks t u \<Longrightarrow> others c s u"
  by (simp add: others_def same_tasks_def)

lemma others_upd: "others c s t \<Longrightarrow> others c s (upd_ctl c f t)"
  by (simp add: others_def)

lemma others_post: "others c s t \<Longrightarrow> post (same_tasks t) m \<Longrightarrow> post (others c s) m"
  by (erule post_mono) (rule others_same)

lemma place_others: "post (others c s) (place c i s)"
proof -
  note steps = others_post [OF _ tasks_post(4) [OF same_tasks_refl]] others_post [OF _ place_res_tasks [OF same_tasks_refl]]
  have first: "others c s t \<Longrightarrow> others c s (t\<lparr>this_is_first := 1, first_thread := 0\<rparr>)" for t
    by (simp add: others_def)
  show ?thesis unfolding place_def by (auto intro!: post_rules others_upd steps first)
qed

text \<open>Moreover \<open>c\<close> has the priority it runs with.\<close>

definition settles :: "ptr \<Rightarrow> admis \<Rightarrow> admis \<Rightarrow> bool" where
  "settles c s t \<longleftrightarrow> others c s t \<and> own c t"

lemma settles_post: "settles c s t \<Longrightarrow> post (same_tasks t) m \<Longrightarrow> post (settles c s) m"
  by (erule post_mono) (auto simp: settles_def others_def same_tasks_def)

lemmas settles_steps =
  settles_post [OF _ tasks_post(1) [OF same_tasks_refl]] settles_post [OF _ tasks_post(5) [OF same_tasks_refl]]
  settles_post [OF _ create_res_tasks [OF same_tasks_refl]] settles_post [OF _ restore_res_tasks [OF same_tasks_refl]]

lemma settles_new: "settles c s t \<Longrightarrow> settles c s (upd_ctl c (\<lambda>t. t\<lparr>task_id := i, is_new := 0\<rparr>) (t\<lparr>ak := k\<rparr>))"
  by (simp add: settles_def others_def)

lemma settles_upd: "settles c s (upd_ctl c (\<lambda>t. t\<lparr>prio_origin := ct_prio t\<rparr>) s)" "settles c s (upd_ctl c (\<lambda>t. t\<lparr>ct_prio := prio_origin t\<rparr>) s)"
  by (simp_all add: settles_def others_def)

lemma create_ctl_settles: "post (settles c s) (create_ctl im c s)"
proof (cases "own c s")
  case False
  then show ?thesis
    unfolding create_ctl_def Let_def if_not_P [OF False]
    by (auto intro!: post_rules post_bind_val [where ?'a = "(kernel_error + u32) \<times> kstate"] settles_steps settles_new settles_upd)
qed (simp add: create_ctl_def post_def settles_def)

definition restore_ctl :: "ptr \<Rightarrow> aop" where
  "restore_ctl c s =
     (if own c s then Some s else do { rs \<leftarrow> res_list s c; restore_res rs (upd_ctl c (\<lambda>t. t\<lparr>ct_prio := prio_origin t\<rparr>) s) })"

lemma restore_ctl_settles: "post (settles c s) (restore_ctl c s)"
proof (cases "own c s")
  case False
  then show ?thesis
    unfolding restore_ctl_def if_not_P [OF False] by (auto intro!: post_rules settles_steps settles_upd)
qed (simp add: restore_ctl_def post_def settles_def)

text \<open>A pass over tasks of which at most \<open>c\<close> is not settled, by a step that settles a task and skips settled ones.\<close>

locale settling_pass =
  fixes step :: "ptr \<Rightarrow> aop" and pass :: "ptr list \<Rightarrow> aop"
  assumes pass_Nil: "pass [] s = Some s"
    and pass_Cons: "pass (d # ds) s = do { s \<leftarrow> step d s; pass ds s }"
    and step_settled: "own d s \<Longrightarrow> step d s = Some s"
    and step_settles: "post (settles d s) (step d s)"
begin

lemma pass_settled: "\<forall>d \<in> set ds. own d s \<Longrightarrow> pass ds s = Some s"
  by (induction ds) (simp_all add: pass_Nil pass_Cons step_settled)

lemma pass_settles:
  assumes "\<forall>d \<in> set ds. d \<noteq> c \<longrightarrow> own d s" "pass ds s = Some t"
  shows "others c s t \<and> (\<forall>d \<in> set ds. own d t)"
  using assms
proof (induction ds arbitrary: s)
  case (Cons d ds)
  obtain u where u: "step d s = Some u" "pass ds u = Some t" using Cons.prems(2) by (auto simp: pass_Cons bind_Some_iff)
  show ?case
  proof (cases "d = c")
    case True
    have su: "settles c s u" using postD [OF step_settles u(1)] True by simp
    then have own: "\<forall>e \<in> set (d # ds). own e u" using Cons.prems(1) True unfolding settles_def others_def by (metis set_ConsD)
    then have "t = u" using pass_settled [of ds u] u(2) by simp
    then show ?thesis using own su by (simp add: settles_def)
  next
    case False
    then have "u = s" using u(1) Cons.prems(1) by (simp add: step_settled)
    with Cons.IH [of s] Cons.prems(1) u(2) have "others c s t \<and> (\<forall>d \<in> set ds. own d t)" by simp
    then show ?thesis using False Cons.prems(1) by (simp add: others_def)
  qed
qed (simp add: pass_Nil)

lemma pass_single:
  assumes "\<forall>d \<in> set ds. d \<noteq> c \<longrightarrow> own d s" "c \<in> set ds"
  shows "pass ds s = step c s"
  using assms
proof (induction ds)
  case (Cons d ds)
  show ?case
  proof (cases "d = c")
    case True
    show ?thesis
    proof (cases "step c s")
      case (Some u)
      then have "settles c s u" by (rule postD [OF step_settles])
      then have "\<forall>e \<in> set ds. own e u" using Cons.prems(1) unfolding settles_def others_def by (metis list.set_intros(2))
      then show ?thesis using Some True by (simp add: pass_Cons pass_settled)
    qed (simp add: pass_Cons True)
  next
    case False
    then show ?thesis using Cons by (simp add: pass_Cons step_settled)
  qed
qed simp

end

interpretation accept: settling_pass "create_ctl im" "create_loop im" for im
  by unfold_locales (simp_all add: create_ctl_settles, simp add: create_ctl_def)

interpretation take_back: settling_pass restore_ctl restore_loop
  by unfold_locales (simp_all add: restore_ctl_settles, simp_all add: restore_ctl_def)

lemma ctl_list_back_aheap: "aheap t = aheap s \<Longrightarrow> ctl_list_back t = ctl_list_back s"
  by (simp add: ctl_list_back_def)

text \<open>Both ends of a trial bring the tasks and the loads in agreement.\<close>

lemma create_settled:
  assumes "ctl_list_back s = Some cs" "\<forall>d \<in> set cs. d \<noteq> c \<longrightarrow> own d s" "admis_ctl_create im s = Some t"
  shows "others c s t \<and> settled cs t"
proof -
  obtain u where u: "create_loop im cs s = Some u" "t = u\<lparr>load_last := load_to load_this (load_last u) u\<rparr>"
    using assms by (auto simp: admis_ctl_create_def bind_Some_iff)
  then show ?thesis using accept.pass_settles [OF assms(2) u(1)] by (simp add: others_def settled_def load_to_def)
qed

lemma restore_settled:
  assumes "ctl_list_back s = Some cs" "\<forall>d \<in> set cs. d \<noteq> c \<longrightarrow> own d s" "admis_ctl_restore s = Some t"
  shows "others c s t \<and> settled cs t"
proof -
  obtain u where u: "restore_loop cs s = Some u" "t = u\<lparr>load_this := load_to load_last (load_this u) u\<rparr>"
    using assms by (auto simp: admis_ctl_restore_def bind_Some_iff)
  then show ?thesis using take_back.pass_settles [OF assms(2) u(1)] by (simp add: others_def settled_def load_to_def)
qed

lemma ansys_others:
  assumes "schedule_ansys s = Some (ok, t)"
  shows "others c s t"
  using assms by (auto simp: schedule_ansys_def bind_Some_iff others_def dest!: ansys_loop_frame)

lemma others_own: "others c s t \<Longrightarrow> d \<noteq> c \<Longrightarrow> own d s \<Longrightarrow> own d t"
  by (simp add: others_def)

section \<open>Resources of a trial\<close>

text \<open>The resources \<open>rs\<close> of a task as they are between trials: a resource has a CPU when a task is bound to it, and the cached ceiling
  and type are those of the resource.\<close>

definition res_ready :: "admis \<Rightarrow> ptr \<Rightarrow> bool" where
  "res_ready s r \<longleftrightarrow> (case cache_adr s r of None \<Rightarrow> True | Some a \<Rightarrow>
     let k = caches s a; d = dpcps (ak s) (res_dpcp s r) in
     (cpu_is_bind k = 0 \<longleftrightarrow> d_cpu d = UNBIND_CPU) \<and> 0 < bind_cnt k \<and> ceiling_cache k = d_prio_ceiling d \<and> type_cache k = d_type d)"

text \<open>What a trial may have changed: cached ceilings and types, and the CPUs of resources without one.\<close>

definition tentative :: "ptr list \<Rightarrow> admis \<Rightarrow> admis \<Rightarrow> bool" where
  "tentative rs s t \<longleftrightarrow> ress t = ress s \<and> dpcp_vars t = dpcp_vars s \<and>
     (\<forall>a. cpu_is_bind (caches t a) = cpu_is_bind (caches s a) \<and> bind_cnt (caches t a) = bind_cnt (caches s a) \<and>
        ((\<forall>r \<in> set rs. cache_adr s r \<noteq> Some a) \<longrightarrow> caches t a = caches s a)) \<and>
     (\<forall>p. (dpcps (ak t) p)\<lparr>d_cpu := d_cpu (dpcps (ak s) p)\<rparr> = dpcps (ak s) p \<and>
        (p \<notin> res_dpcp s ` set rs \<or> d_cpu (dpcps (ak s) p) \<noteq> UNBIND_CPU \<longrightarrow> dpcps (ak t) p = dpcps (ak s) p))"

definition same_res :: "admis \<Rightarrow> admis \<Rightarrow> bool" where
  "same_res t u \<longleftrightarrow> ress u = ress t \<and> dpcp_vars u = dpcp_vars t \<and> caches u = caches t \<and> dpcps (ak u) = dpcps (ak t)"

lemma tentative_refl: "tentative rs s s"
  by (simp add: tentative_def)

lemma tentative_same: "tentative rs s t \<Longrightarrow> same_res t u \<Longrightarrow> tentative rs s u"
  by (simp add: tentative_def same_res_def)

lemma same_res_trans [trans]: "same_res s t \<Longrightarrow> same_res t u \<Longrightarrow> same_res s u"
  by (simp add: same_res_def)

lemma same_res_steps:
  "dpcp_out ty cpu d s = Some t \<Longrightarrow> same_res s t" "dpcp_in ty cpu d s = Some t \<Longrightarrow> same_res s t" "add_load cpu q s = Some t \<Longrightarrow> same_res s t"
  "same_res s (upd_ctl c f s)" "same_res s s"
  by (auto simp: dpcp_out_def dpcp_in_def on_ak_def on_heap_def add_load_def upd_ctl_def same_res_def bind_Some_iff split: if_splits option.splits)

lemma tentative_reads:
  assumes "tentative rs s t"
  shows "res_dpcp t r = res_dpcp s r" "d_data (dpcps (ak t) p) = d_data (dpcps (ak s) p)" "d_type (dpcps (ak t) p) = d_type (dpcps (ak s) p)"
    "d_prio_ceiling (dpcps (ak t) p) = d_prio_ceiling (dpcps (ak s) p)" "cache_adr t r = cache_adr s r"
proof -
  have e: "(dpcps (ak t) p)\<lparr>d_cpu := d_cpu (dpcps (ak s) p)\<rparr> = dpcps (ak s) p" for p using assms by (simp add: tentative_def)
  show "d_data (dpcps (ak t) p) = d_data (dpcps (ak s) p)" "d_type (dpcps (ak t) p) = d_type (dpcps (ak s) p)"
    "d_prio_ceiling (dpcps (ak t) p) = d_prio_ceiling (dpcps (ak s) p)" for p
    using arg_cong [OF e [of p], of d_data] arg_cong [OF e [of p], of d_type] arg_cong [OF e [of p], of d_prio_ceiling] by simp_all
  note d = this
  show r: "res_dpcp t r = res_dpcp s r" using assms by (simp add: tentative_def res_dpcp_def)
  show "cache_adr t r = cache_adr s r" by (simp add: cache_adr_def r d)
qed

lemma tentative_cache:
  assumes "tentative rs s t" "r \<in> set rs" "cache_adr s r = Some a" "\<And>k. cpu_is_bind (f k) = cpu_is_bind k" "\<And>k. bind_cnt (f k) = bind_cnt k"
  shows "tentative rs s (upd_cache a f t)"
  using assms by (auto simp: tentative_def upd_cache_def)

lemma tentative_cpu:
  assumes "tentative rs s t" "r \<in> set rs" "d_cpu (dpcps (ak s) (res_dpcp s r)) = UNBIND_CPU"
  shows "tentative rs s (set_dpcp_cpu (res_dpcp s r) v t)"
proof -
  have "(dpcps (ak t) (res_dpcp s r))\<lparr>d_cpu := UNBIND_CPU\<rparr> = dpcps (ak s) (res_dpcp s r)"
    using assms(1) unfolding tentative_def by (metis assms(3))
  then show ?thesis using assms by (auto simp: tentative_def set_dpcp_cpu_def upd_dpcp_def)
qed

text \<open>A resource without a CPU in a trial had none before.\<close>

lemma tentative_unbound: "tentative rs s t \<Longrightarrow> d_cpu (dpcps (ak t) p) = UNBIND_CPU \<Longrightarrow> d_cpu (dpcps (ak s) p) = UNBIND_CPU"
  unfolding tentative_def by metis

lemma post_split: "(c \<Longrightarrow> post P a) \<Longrightarrow> (\<not> c \<Longrightarrow> post P b) \<Longrightarrow> post P (if c then a else b)"
  by simp

lemma tentative_split: "(c \<Longrightarrow> tentative rs s a) \<Longrightarrow> (\<not> c \<Longrightarrow> tentative rs s b) \<Longrightarrow> tentative rs s (if c then a else b)"
  by simp

lemma tentative_post:
  assumes "tentative rs s t"
  shows "post (tentative rs s) (dpcp_out ty cpu d t)" "post (tentative rs s) (dpcp_in ty cpu d t)" "post (tentative rs s) (add_load cpu q t)"
  unfolding post_def by (blast intro: tentative_same [OF assms] same_res_steps)+

lemma place_res_tentative: "tentative rs s t \<Longrightarrow> set rs' \<subseteq> set rs \<Longrightarrow> post (tentative rs s) (place_res c rs' t)"
proof (induction rs' arbitrary: t)
  case (Cons r rs')
  show ?case
  proof (cases "cache_adr t r")
    case (Some a)
    note rd = tentative_reads [OF Cons.prems(1)]
    have r: "r \<in> set rs" "cache_adr s r = Some a" using Cons.prems(2) Some rd(5) by auto
    note cache = tentative_cache [OF _ r]
    have free: "d_cpu (dpcps (ak t) (res_dpcp s r)) = UNBIND_CPU \<Longrightarrow> tentative rs s (set_dpcp_cpu (res_dpcp s r) v t)" for v
      using tentative_cpu [OF Cons.prems(1) r(1)] tentative_unbound [OF Cons.prems(1)] by blast
    have "set rs' \<subseteq> set rs" using Cons.prems(2) by simp
    then show ?thesis
      unfolding place_res.simps Some bind.bind_lunit Let_def rd(1)
      by (intro post_bind [where ?'a = admis] post_bind_val [where ?'a = rat] post_split Cons.IH post_Some tentative_post tentative_split)
        (simp_all add: Cons.prems(1) cache free)
  qed (simp add: post_def)
qed (simp add: post_def)

lemma tentative_upd: "tentative rs s (upd_ctl c f t) = tentative rs s t" "tentative rs s (t\<lparr>this_is_first := x, first_thread := y\<rparr>) = tentative rs s t"
  "tentative rs s (t\<lparr>this_is_first := x\<rparr>) = tentative rs s t" "tentative rs s (t\<lparr>load_this := l\<rparr>) = tentative rs s t"
  "tentative rs s (with_wcrt w t) = tentative rs s t"
  by (simp_all add: tentative_def upd_ctl_def)

lemma res_list_aheap: "aheap t = aheap s \<Longrightarrow> res_list t c = res_list s c"
  by (simp add: res_list_def)

lemma place_tentative:
  assumes "place c i s = Some t" "res_list s c = Some rs"
  shows "tentative rs s t \<and> prio_origin (ctls t c) = prio_origin (ctls s c) \<and>
    (ct_prio (ctls t c) = FIRST_PRIO \<or> between_prio c s = Some (ct_prio (ctls t c)))"
proof -
  let ?s = "upd_ctl c (ct_cpu_update (\<lambda>_. ucast (load_list s ! i))) s"
  obtain q s1 s2 rs' where s1: "add_load (ct_cpu (ctls ?s c)) q ?s = Some s1"
    and s2: "(if first_thread s1 \<noteq> 0 then Some (upd_ctl c (ct_prio_update (\<lambda>_. FIRST_PRIO)) (s1\<lparr>this_is_first := 1, first_thread := 0\<rparr>))
            else do { pr \<leftarrow> between_prio c s1; Some (upd_ctl c (ct_prio_update (\<lambda>_. pr)) s1) }) = Some s2"
    and rs': "res_list s2 c = Some rs'" and t: "place_res c rs' s2 = Some t"
    using assms(1) by (auto simp: place_def Let_def bind_Some_iff)
  have 1: "aheap s1 = aheap s" "ctls s1 = ctls ?s" "tentative rs s s1"
    using same_tasks_steps(4) [OF s1] tentative_same [OF _ same_res_steps(3) [OF s1], of rs s]
    by (simp_all add: same_tasks_def tentative_upd tentative_refl)
  have pr: "ct_prio (ctls s1 d) = ct_prio (ctls s d)" for d using 1(2) by simp
  have b: "between_prio c s1 = between_prio c s" by (simp only: between_prio_def 1(1) pr)
  have 2: "aheap s2 = aheap s" "tentative rs s s2" "prio_origin (ctls s2 c) = prio_origin (ctls s c)"
      "ct_prio (ctls s2 c) = FIRST_PRIO \<or> between_prio c s = Some (ct_prio (ctls s2 c))"
    using s2 1 b by (auto simp: bind_Some_iff tentative_upd split: if_splits)
  have "rs' = rs" using rs' assms(2) res_list_aheap [OF 2(1)] by simp
  then have "tentative rs s t" using postD [OF place_res_tentative [OF 2(2)] t] by simp
  moreover have "ctls t = ctls s2" using postD [OF place_res_tasks [OF same_tasks_refl] t] by (simp add: same_tasks_def)
  ultimately show ?thesis using 2 by simp
qed

text \<open>Taking a trial back makes the resources and their caches what they were before it.\<close>

definition exact :: "admis \<Rightarrow> admis \<Rightarrow> ptr \<Rightarrow> bool" where
  "exact s t r \<longleftrightarrow> dpcps (ak t) (res_dpcp s r) = dpcps (ak s) (res_dpcp s r) \<and> (\<forall>a. cache_adr s r = Some a \<longrightarrow> caches t a = caches s a)"

definition restore_one :: "ptr \<Rightarrow> aop" where
  "restore_one r s =
     do {
       a \<leftarrow> cache_adr s r;
       let p = res_dpcp s r;
       s \<leftarrow> (if cpu_is_bind (caches s a) = 0
            then do { s \<leftarrow> dpcp_out ACORAL_DPCP_LOCAL (d_cpu (dpcps (ak s) p)) p s; Some (set_dpcp_cpu p UNBIND_CPU s) } else Some s);
       let d = dpcps (ak s) p;
       if bind_cnt (caches s a) > 0 then
         let s = (if ceiling_cache (caches s a) \<noteq> d_prio_ceiling d then upd_cache a (ceiling_cache_update (\<lambda>_. d_prio_ceiling d)) s else s) in
         if type_cache (caches s a) \<noteq> d_type d then
           do {
             s \<leftarrow> dpcp_out (type_cache (caches s a)) (d_cpu d) p s;
             let s = upd_cache a (type_cache_update (\<lambda>_. d_type d)) s;
             dpcp_in (d_type d) (d_cpu d) p s
           }
         else Some s
       else Some s
     }"

lemma restore_res_Cons: "restore_res (r # rs) s = do { s \<leftarrow> restore_one r s; restore_res rs s }"
  by (simp add: restore_one_def Let_def)

text \<open>Only this resource and its cache change.\<close>

definition at_most :: "ptr \<Rightarrow> ptr \<Rightarrow> admis \<Rightarrow> admis \<Rightarrow> bool" where
  "at_most p a s t \<longleftrightarrow> ress t = ress s \<and> dpcp_vars t = dpcp_vars s \<and> (\<forall>b. b \<noteq> a \<longrightarrow> caches t b = caches s b) \<and> (\<forall>q. q \<noteq> p \<longrightarrow> dpcps (ak t) q = dpcps (ak s) q)"

definition restore_cache :: "ptr \<Rightarrow> ptr \<Rightarrow> aop" where
  "restore_cache a p s =
     (let d = dpcps (ak s) p;
          s = (if ceiling_cache (caches s a) \<noteq> d_prio_ceiling d then upd_cache a (ceiling_cache_update (\<lambda>_. d_prio_ceiling d)) s else s) in
      if type_cache (caches s a) \<noteq> d_type d then
        do {
          s \<leftarrow> dpcp_out (type_cache (caches s a)) (d_cpu d) p s;
          let s = upd_cache a (type_cache_update (\<lambda>_. d_type d)) s;
          dpcp_in (d_type d) (d_cpu d) p s
        }
      else Some s)"

lemma restore_cache_fields:
  assumes "restore_cache a p t = Some u"
  shows "same_res (upd_cache a (\<lambda>k. k\<lparr>ceiling_cache := d_prio_ceiling (dpcps (ak t) p), type_cache := d_type (dpcps (ak t) p)\<rparr>) t) u"
proof -
  let ?d = "dpcps (ak t) p"
  define v where "v = (if ceiling_cache (caches t a) \<noteq> d_prio_ceiling ?d then upd_cache a (ceiling_cache_update (\<lambda>_. d_prio_ceiling ?d)) t else t)"
  have v: "same_res (upd_cache a (\<lambda>k. k\<lparr>ceiling_cache := d_prio_ceiling ?d\<rparr>) t) v"
    by (simp add: v_def same_res_def upd_cache_def fun_eq_iff)
  show ?thesis
  proof (cases "type_cache (caches v a) \<noteq> d_type ?d")
    case True
    then obtain x y where x: "dpcp_out (type_cache (caches v a)) (d_cpu ?d) p v = Some x"
        "dpcp_in (d_type ?d) (d_cpu ?d) p (upd_cache a (type_cache_update (\<lambda>_. d_type ?d)) x) = Some u"
      using assms by (auto simp: restore_cache_def Let_def v_def bind_Some_iff)
    show ?thesis using v same_res_steps(1) [OF x(1)] same_res_steps(2) [OF x(2)] by (simp add: same_res_def upd_cache_def)
  next
    case False
    then have "u = v" using assms by (simp add: restore_cache_def Let_def v_def)
    then show ?thesis using v False by (auto simp: same_res_def upd_cache_def fun_eq_iff intro!: res_cache.equality)
  qed
qed

lemma restore_one_exact:
  assumes "restore_one r t = Some u" "tentative rs s t" "r \<in> set rs" "res_ready s r"
  shows "exact s u r \<and> tentative rs s u \<and> (\<forall>a. cache_adr s r = Some a \<longrightarrow> at_most (res_dpcp s r) a t u)"
proof -
  note rd = tentative_reads [OF assms(2)]
  obtain a where a: "cache_adr t r = Some a" using assms(1) by (auto simp: restore_one_def bind_Some_iff)
  note sa = a [unfolded rd(5)]
  let ?p = "res_dpcp s r"
  have rdy: "cpu_is_bind (caches s a) = 0 \<longleftrightarrow> d_cpu (dpcps (ak s) ?p) = UNBIND_CPU" "0 < bind_cnt (caches s a)"
      "ceiling_cache (caches s a) = d_prio_ceiling (dpcps (ak s) ?p)" "type_cache (caches s a) = d_type (dpcps (ak s) ?p)"
    using assms(4) sa by (simp_all add: res_ready_def Let_def)
  have k: "cpu_is_bind (caches t a) = cpu_is_bind (caches s a)" "bind_cnt (caches t a) = bind_cnt (caches s a)"
    using assms(2) by (simp_all add: tentative_def)
  obtain t1 where t1: "(if cpu_is_bind (caches t a) = 0
      then do { s \<leftarrow> dpcp_out ACORAL_DPCP_LOCAL (d_cpu (dpcps (ak t) ?p)) ?p t; Some (set_dpcp_cpu ?p UNBIND_CPU s) } else Some t) = Some t1"
    and run: "(if bind_cnt (caches t1 a) > 0 then restore_cache a ?p t1 else Some t1) = Some u"
    using assms(1) a unfolding restore_one_def restore_cache_def Let_def rd(1) by (auto simp: bind_Some_iff split del: if_split)
  have 1: "same_res (t\<lparr>ak := upd_dpcp ?p (\<lambda>_. dpcps (ak s) ?p) (ak t)\<rparr>) t1"
  proof (cases "cpu_is_bind (caches t a) = 0")
    case True
    then obtain v where v: "dpcp_out ACORAL_DPCP_LOCAL (d_cpu (dpcps (ak t) ?p)) ?p t = Some v" "t1 = set_dpcp_cpu ?p UNBIND_CPU v"
      using t1 by (auto simp: bind_Some_iff)
    moreover note same_res_steps(1) [OF v(1)]
    moreover have "(dpcps (ak t) ?p)\<lparr>d_cpu := UNBIND_CPU\<rparr> = dpcps (ak s) ?p"
      using assms(2) True k(1) rdy(1) unfolding tentative_def by metis
    ultimately show ?thesis by (simp add: same_res_def set_dpcp_cpu_def upd_dpcp_def)
  next
    case False
    then have "dpcps (ak t) ?p = dpcps (ak s) ?p" using assms(2) k(1) rdy(1) unfolding tentative_def by metis
    then show ?thesis using t1 False by (simp add: same_res_def upd_dpcp_def fun_upd_idem)
  qed
  then have d: "dpcps (ak t1) ?p = dpcps (ak s) ?p" and c: "caches t1 = caches t" by (simp_all add: same_res_def upd_dpcp_def)
  have "same_res (upd_cache a (\<lambda>k. k\<lparr>ceiling_cache := d_prio_ceiling (dpcps (ak s) ?p), type_cache := d_type (dpcps (ak s) ?p)\<rparr>) t1) u"
    using restore_cache_fields [of a ?p t1 u] run rdy(2) k(2) c d by simp
  moreover have "(caches t a)\<lparr>ceiling_cache := d_prio_ceiling (dpcps (ak s) ?p), type_cache := d_type (dpcps (ak s) ?p)\<rparr> = caches s a"
    by (rule res_cache.equality) (simp_all add: k rdy)
  ultimately have u: "ress u = ress t" "dpcp_vars u = dpcp_vars t" "caches u = (caches t)(a := caches s a)" "dpcps (ak u) = (dpcps (ak t))(?p := dpcps (ak s) ?p)"
    using 1 c by (simp_all add: same_res_def upd_cache_def upd_dpcp_def)
  then show ?thesis using assms(2) sa by (simp add: exact_def at_most_def tentative_def)
qed

lemma exact_at_most:
  assumes "exact s t r" "exact s u r'" "tentative rs s t" "\<And>a. cache_adr s r' = Some a \<Longrightarrow> at_most (res_dpcp s r') a t u" "cache_adr s r' \<noteq> None"
  shows "exact s u r"
proof -
  obtain a' where a': "cache_adr s r' = Some a'" using assms(5) by blast
  have "dpcps (ak u) (res_dpcp s r) = dpcps (ak s) (res_dpcp s r)"
    using assms(1,2) assms(4) [OF a'] by (cases "res_dpcp s r = res_dpcp s r'") (auto simp: exact_def at_most_def)
  moreover have "caches u a = caches s a" if "cache_adr s r = Some a" for a
    using assms(1,2) assms(4) [OF a'] that a' by (cases "a = a'") (auto simp: exact_def at_most_def)
  ultimately show ?thesis by (simp add: exact_def)
qed

lemma restore_res_exact:
  assumes "restore_res rs' t = Some u" "tentative rs s t" "set rs' \<subseteq> set rs" "\<forall>r \<in> set rs. res_ready s r"
  shows "tentative rs s u \<and> (\<forall>r \<in> set rs'. exact s u r) \<and> (\<forall>r \<in> set rs. exact s t r \<longrightarrow> exact s u r)"
  using assms(1-3)
proof (induction rs' arbitrary: t)
  case (Cons r rs')
  obtain v where v: "restore_one r t = Some v" "restore_res rs' v = Some u" using Cons.prems(1) unfolding restore_res_Cons by (auto simp: bind_Some_iff)
  have r: "r \<in> set rs" "set rs' \<subseteq> set rs" using Cons.prems(3) by simp_all
  note one = restore_one_exact [OF v(1) Cons.prems(2) r(1) assms(4) [rule_format, OF r(1)]]
  have a: "cache_adr s r \<noteq> None" using v(1) tentative_reads(5) [OF Cons.prems(2), of r] by (auto simp: restore_one_def bind_Some_iff)
  have keep: "exact s t e \<Longrightarrow> exact s v e" for e using exact_at_most [OF _ _ Cons.prems(2) _ a] one by blast
  show ?case using Cons.IH [OF v(2) _ r(2)] one keep r(1) by auto
qed simp

lemma exact_all:
  assumes "tentative rs s t" "\<forall>r \<in> set rs. exact s t r"
  shows "same_res s t"
proof -
  have "caches t a = caches s a" for a using assms by (cases "\<exists>r \<in> set rs. cache_adr s r = Some a") (auto simp: exact_def tentative_def)
  moreover have "dpcps (ak t) p = dpcps (ak s) p" for p
    using assms by (cases "p \<in> res_dpcp s ` set rs") (auto simp: exact_def tentative_def)
  ultimately show ?thesis using assms(1) by (simp add: same_res_def tentative_def fun_eq_iff)
qed

lemma ready_same: "same_res s t \<Longrightarrow> res_ready t r = res_ready s r"
proof -
  assume t: "same_res s t"
  then have "res_dpcp t r = res_dpcp s r" "cache_adr t r = cache_adr s r" by (simp_all add: same_res_def cache_adr_def res_dpcp_def)
  then show ?thesis using t by (simp add: same_res_def res_ready_def split: option.split)
qed

text \<open>Priorities of the trial differ from the one the task runs with.\<close>

definition new_prio :: "ptr \<Rightarrow> admis \<Rightarrow> bool" where
  "new_prio c s \<longleftrightarrow> FIRST_PRIO \<noteq> prio_origin (ctls s c) \<and> between_prio c s \<noteq> Some (prio_origin (ctls s c))"

lemma ansys_tentative:
  assumes "schedule_ansys t = Some (ok, u)" "tentative rs s t"
  shows "tentative rs s u \<and> ct_prio (ctls u c) = ct_prio (ctls t c) \<and> prio_origin (ctls u c) = prio_origin (ctls t c)"
  using assms by (auto simp: schedule_ansys_def bind_Some_iff tentative_upd dest!: ansys_loop_frame)

lemma restore_same_res:
  assumes "ctl_list_back t = Some cs" "\<forall>d \<in> set cs. d \<noteq> c \<longrightarrow> own d t" "c \<in> set cs" "\<not> own c t" "admis_ctl_restore t = Some u"
    "tentative rs s t" "res_list t c = Some rs" "\<forall>r \<in> set rs. res_ready s r"
  shows "same_res s u \<and> prio_origin (ctls u c) = prio_origin (ctls t c)"
proof -
  obtain v where v: "restore_loop cs t = Some v" "u = v\<lparr>load_this := load_to load_last (load_this v) v\<rparr>"
    using assms(1,5) by (auto simp: admis_ctl_restore_def bind_Some_iff)
  have "restore_ctl c t = Some v" using take_back.pass_single [OF assms(2,3)] v(1) by simp
  then have r: "restore_res rs (upd_ctl c (\<lambda>t. t\<lparr>ct_prio := prio_origin t\<rparr>) t) = Some v" using assms(4,7) by (simp add: restore_ctl_def)
  have "tentative rs s v \<and> (\<forall>r \<in> set rs. exact s v r)" using restore_res_exact [OF r _ _ assms(8)] assms(6) by (simp add: tentative_upd)
  then have "same_res s v" using exact_all by blast
  moreover have "ctls v = ctls (upd_ctl c (\<lambda>t. t\<lparr>ct_prio := prio_origin t\<rparr>) t)"
    using postD [OF restore_res_tasks [OF same_tasks_refl] r] by (simp add: same_tasks_def)
  ultimately show ?thesis using v(2) by (simp add: same_res_def)
qed

lemma create_not_new:
  assumes "ctl_list_back t = Some cs" "\<forall>d \<in> set cs. d \<noteq> c \<longrightarrow> own d t" "c \<in> set cs" "\<not> own c t" "admis_ctl_create im t = Some u"
  shows "is_new (ctls u c) = 0"
proof -
  obtain v where v: "create_loop im cs t = Some v" "u = v\<lparr>load_last := load_to load_this (load_last v) v\<rparr>"
    using assms(1,5) by (auto simp: admis_ctl_create_def bind_Some_iff)
  have "create_ctl im c t = Some v" using accept.pass_single [OF assms(2,3)] v(1) by simp
  then obtain w rs where w: "create_res c rs w = Some v" "is_new (ctls w c) = 0"
    using assms(4) by (auto simp: create_ctl_def Let_def bind_Some_iff split: if_splits dest!: same_tasks_steps(1) same_tasks_steps(5) simp: same_tasks_def)
  have "ctls v = ctls w" using postD [OF create_res_tasks [OF same_tasks_refl] w(1)] by (simp add: same_tasks_def)
  then show ?thesis using v(2) w(2) by simp
qed

text \<open>One trial of \<open>try_cpus\<close>, up to the point where it is accepted or taken back.\<close>

lemma trial_analysed:
  assumes "place c i s = Some u" "schedule_ansys (upd_ctl c (is_new_update (\<lambda>_. 0)) u) = Some (ok, v)" "res_list s c = Some rs" "new_prio c s"
  shows "tentative rs s v \<and> \<not> own c v \<and> prio_origin (ctls v c) = prio_origin (ctls s c)"
proof -
  note pl = place_tentative [OF assms(1,3)]
  then have "ct_prio (ctls u c) \<noteq> prio_origin (ctls u c)" using assms(4) by (auto simp: new_prio_def)
  then show ?thesis using ansys_tentative [OF assms(2), of rs s c] pl by (simp add: tentative_upd)
qed

lemma next_trial:
  assumes "others c s x" "own c s" "own c x" "prio_origin (ctls x c) = prio_origin (ctls s c)" "new_prio c s"
  shows "new_prio c x"
proof -
  have "ct_prio (ctls x d) = ct_prio (ctls s d)" for d using assms(1-4) by (cases "d = c") (simp_all add: others_def)
  then have "between_prio c x = between_prio c s" using assms(1) by (simp only: between_prio_def others_def)
  then show ?thesis using assms(4,5) by (simp add: new_prio_def)
qed

text \<open>C17. A trial of a task on some CPUs leaves nothing tentative behind in the priorities and the loads: every task in the queue has
  the priority it runs with, the loads of this trial are those of the accepted tasks, the list of tasks and their lists of resources
  are as before, and no other task has changed its priority. When the task is rejected, its resources are what they were before the
  trial, too: their CPU, type and ceiling, and the cached type and ceiling. For this the resources are used by a task and have a CPU
  exactly when one is bound to them, their caches agree with them, and the priorities that are tried are not the one that the task
  has. The response times of the other tasks and the CPU of a rejected task are not taken back, and the order of the kernel's queues
  of resources is not stated.\<close>

theorem trial_settles:
  assumes "ctl_list_back s = Some cs" "settled cs s" "try_cpus im c is s = Some t"
  shows "settled cs t \<and> aheap t = aheap s \<and> (\<forall>d. d \<noteq> c \<longrightarrow> ct_prio (ctls t d) = ct_prio (ctls s d)) \<and>
    (c \<in> set cs \<and> is_new (ctls t c) \<noteq> 0 \<and> res_list s c = Some rs \<and> (\<forall>r \<in> set rs. res_ready s r) \<and> new_prio c s \<longrightarrow>
       caches t = caches s \<and> dpcps (ak t) = dpcps (ak s))"
proof -
  let ?R = "\<lambda>s t. c \<in> set cs \<and> is_new (ctls t c) \<noteq> 0 \<and> res_list s c = Some rs \<and> (\<forall>r \<in> set rs. res_ready s r) \<and> new_prio c s"
  have "settled cs t \<and> others c s t \<and> (?R s t \<longrightarrow> same_res s t)" using assms
  proof (induction "is" arbitrary: s)
    case (Cons i "is")
    obtain u ok v where uv: "place c i s = Some u" "schedule_ansys (upd_ctl c (is_new_update (\<lambda>_. 0)) u) = Some (ok, v)"
      using Cons.prems(3) by (auto simp: bind_Some_iff split: prod.splits)
    define v' where "v' = upd_ctl c (is_new_update (\<lambda>_. 1)) v"
    have sv: "others c s v'"
      using postD [OF place_others uv(1)] ansys_others [OF uv(2), of c] unfolding v'_def by (simp add: others_def)
    define w where "w = (if ok then v'\<lparr>this_is_first := 0\<rparr> else if this_is_first v' \<noteq> 0 then v'\<lparr>this_is_first := 0, first_thread := 1\<rparr> else v')"
    have sw: "others c s w" using sv unfolding w_def by (simp add: others_def)
    have w: "ctl_list_back w = Some cs" using Cons.prems(1) sw ctl_list_back_aheap [of w s] unfolding others_def by simp
    have o: "\<forall>d \<in> set cs. d \<noteq> c \<longrightarrow> own d w" using Cons.prems(2) sw unfolding settled_def others_def by metis
    have rw: "tentative rs s w \<and> \<not> own c w \<and> prio_origin (ctls w c) = prio_origin (ctls s c) \<and> res_list w c = Some rs" if "?R s t"
      using trial_analysed [OF uv] that res_list_aheap [of w s] sw unfolding w_def v'_def others_def by (auto simp: tentative_upd)
    show ?case
    proof (cases ok)
      case True
      then have run: "admis_ctl_create im w = Some t" using Cons.prems(3) uv by (simp add: w_def v'_def)
      moreover have "\<not> ?R s t" using create_not_new [OF w o _ _ run] rw by blast
      ultimately show ?thesis using create_settled [OF w o] others_trans [OF sw] by blast
    next
      case False
      then have "admis_ctl_restore w \<bind> try_cpus im c is = Some t" using Cons.prems(3) uv by (simp add: w_def v'_def Let_def split: if_splits)
      then obtain x where x: "admis_ctl_restore w = Some x" "try_cpus im c is x = Some t" by (auto simp: bind_Some_iff)
      have wx: "others c w x" "settled cs x" using restore_settled [OF w o x(1)] by auto
      note sx = others_trans [OF sw wx(1)]
      have IH: "settled cs t \<and> others c x t \<and> (?R x t \<longrightarrow> same_res x t)"
        using Cons.IH [OF _ wx(2) x(2)] w ctl_list_back_aheap [of x w] wx(1) unfolding others_def by simp
      moreover have "same_res s t" if R: "?R s t"
      proof -
        have r: "same_res s x" "prio_origin (ctls x c) = prio_origin (ctls s c)"
          using restore_same_res [OF w o _ _ x(1), of rs s] rw [OF R] R by auto
        have own: "own c s" "own c x" using Cons.prems(2) wx(2) R by (simp_all add: settled_def)
        have "?R x t"
          using R ready_same [OF r(1)] next_trial [OF sx own r(2)] res_list_aheap [of x s] sx by (simp add: others_def)
        then show ?thesis using IH same_res_trans [OF r(1)] by blast
      qed
      ultimately show ?thesis using others_trans [OF sx] by blast
    qed
  qed (simp add: same_res_def)
  then show ?thesis by (simp add: others_def same_res_def)
qed

text \<open>A task that needs 6 time units within 5 and uses a resource that no task is bound to is tried on CPU 0 and rejected.\<close>

definition ex_trial :: admis where
  "ex_trial = ex_admis\<lparr>ctls := (\<lambda>_. ex_task)(0x10 := ex_task\<lparr>dl_time := 5, wcet := 6, is_new := 1\<rparr>),
     aheap := aheap ex_admis\<lparr>lnext := (lnext (aheap ex_admis))(ResQ 0x10 := ResL 0x300, ResL 0x300 := ResQ 0x10),
       lprev := (lprev (aheap ex_admis))(ResQ 0x10 := ResL 0x300, ResL 0x300 := ResQ 0x10)\<rparr>,
     ress := (\<lambda>_. \<lparr>critical_cnt = 1, length_max = 1, r_dpcp = 0x400\<rparr>), dpcp_vars := (\<lambda>_. 0x500),
     caches := (\<lambda>_. \<lparr>cpu_is_bind = 0, ceiling_cache = 20, type_cache = ACORAL_DPCP_LOCAL, bind_cnt = 1\<rparr>),
     ak := ex_kernel\<lparr>dpcps := (\<lambda>_. \<lparr>d_sem = 0, d_cpu = UNBIND_CPU, d_type = ACORAL_DPCP_LOCAL, d_prio_ceiling = 20, d_prio_switch = 0, d_data = 0x600\<rparr>)\<rparr>\<rparr>"

lemma ex_trial_lists:
  assumes "aheap s = aheap ex_trial"
  shows "ctl_list s = Some [0x10, 0x20]" "ctl_list_back s = Some [0x20, 0x10]" "res_list s 0x10 = Some [0x300]"
  by (simp_all add: ctl_list_def ctl_list_back_def res_list_def entries_def walk.simps [of _ CtlQ] walk.simps [of _ "ResQ 0x10"] assms
      ex_trial_def ex_admis_def)

text \<open>The resource enters the queue of local resources of CPU 0 and leaves it.\<close>

lemma ex_trial_queue:
  obtains h h' where "acoral_lifo_queue_add (DpcpQ ACORAL_DPCP_LOCAL 0) (DList 0x500) ex_heap = Some h"
    "acoral_lifo_queue_del (DpcpQ ACORAL_DPCP_LOCAL 0) (DList 0x500) h = Some h'"
proof -
  have "\<exists>h h'. acoral_lifo_queue_add (DpcpQ ACORAL_DPCP_LOCAL 0) (DList 0x500) ex_heap = Some h \<and>
    acoral_lifo_queue_del (DpcpQ ACORAL_DPCP_LOCAL 0) (DList 0x500) h = Some h'"
    by (simp add: acoral_lifo_queue_add_def acoral_lifo_queue_del_def acoral_list_add_def acoral_list_del_def heap_upd_defs
        queue_lock_def queue_unlock_def node_lock_def node_unlock_def ex_heap_def Let_def ACORAL_DPCP_LOCAL_def)
  then show thesis using that by blast
qed

lemma ex_trial_runs:
  "\<exists>t. try_cpus im 0x10 [0] ex_trial = Some t \<and> is_new (ctls t 0x10) = 1"
proof -
  obtain h h' where h: "acoral_lifo_queue_add (DpcpQ ACORAL_DPCP_LOCAL 0) (DList 0x500) ex_heap = Some h"
    "acoral_lifo_queue_del (DpcpQ ACORAL_DPCP_LOCAL 0) (DList 0x500) h = Some h'" by (rule ex_trial_queue)
  obtain q where q: "fdiv 6 10 = Some q" by (simp add: fdiv_def)
  let ?c = "ex_task\<lparr>dl_time := 5, wcet := 6, is_new := 1\<rparr>"
  have f: "lprev (aheap ex_trial) (CtlL 0x10) = CtlQ" "lnext (aheap ex_trial) (CtlL 0x10) = CtlL 0x20" "load_list ex_trial = [0, 1]" "first_thread ex_trial = 0"
    "ctls ex_trial = (\<lambda>_. ex_task)(0x10 := ?c)" "heap (ak ex_trial) = ex_heap" "this_is_first ex_trial = 0"
    "dpcp_vars ex_trial = (\<lambda>_. 0x500)" "ress ex_trial = (\<lambda>_. \<lparr>critical_cnt = 1, length_max = 1, r_dpcp = 0x400\<rparr>)"
    "caches ex_trial = (\<lambda>_. \<lparr>cpu_is_bind = 0, ceiling_cache = 20, type_cache = ACORAL_DPCP_LOCAL, bind_cnt = 1\<rparr>)"
    "dpcps (ak ex_trial) = (\<lambda>_. \<lparr>d_sem = 0, d_cpu = UNBIND_CPU, d_type = ACORAL_DPCP_LOCAL, d_prio_ceiling = 20, d_prio_switch = 0, d_data = 0x600\<rparr>)"
    by (simp_all add: ex_trial_def ex_admis_def)
  have "\<exists>u. place 0x10 0 ex_trial = Some u \<and> aheap u = aheap ex_trial \<and> ctls u = (\<lambda>_. ex_task)(0x10 := ?c\<lparr>ct_prio := 11\<rparr>) \<and>
    heap (ak u) = h \<and> dpcps (ak u) = (dpcps (ak ex_trial))(0x500 := dpcps (ak ex_trial) 0x500\<lparr>d_cpu := 0\<rparr>) \<and> ress u = ress ex_trial \<and>
    dpcp_vars u = dpcp_vars ex_trial \<and> caches u = (caches ex_trial)(0x600 := caches ex_trial 0x600\<lparr>ceiling_cache := 11\<rparr>) \<and> this_is_first u = 0"
    by (simp add: place_def q Let_def upd_ctl_def ex_task_def add_load_def CFG_MAX_CPU_def between_prio_def ex_trial_lists f cache_adr_def res_dpcp_def
        dpcp_in_def dpcp_index_def on_ak_def on_heap_def set_dpcp_cpu_def upd_dpcp_def h [unfolded ACORAL_DPCP_LOCAL_def] upd_cache_def ACORAL_DPCP_LOCAL_def ACORAL_DPCP_GLOBAL_def)
  then obtain u where u: "place 0x10 0 ex_trial = Some u" "aheap u = aheap ex_trial" "ctls u = (\<lambda>_. ex_task)(0x10 := ?c\<lparr>ct_prio := 11\<rparr>)"
    "heap (ak u) = h" "dpcps (ak u) = (dpcps (ak ex_trial))(0x500 := dpcps (ak ex_trial) 0x500\<lparr>d_cpu := 0\<rparr>)" "ress u = ress ex_trial"
    "dpcp_vars u = dpcp_vars ex_trial" "caches u = (caches ex_trial)(0x600 := caches ex_trial 0x600\<lparr>ceiling_cache := 11\<rparr>)" "this_is_first u = 0" by blast
  show ?thesis
    by (simp add: CFG_MAX_CPU_def u(1) Let_def upd_ctl_def ex_task_def u f ex_trial_lists schedule_ansys_def
        response_time_def response_loop.simps admis_ctl_restore_def cache_adr_def res_dpcp_def
        dpcp_out_def dpcp_index_def on_ak_def on_heap_def set_dpcp_cpu_def upd_dpcp_def h [unfolded ACORAL_DPCP_LOCAL_def] upd_cache_def ACORAL_DPCP_LOCAL_def ACORAL_DPCP_GLOBAL_def)
qed

theorem trial_settles_witness:
  "\<forall>im. \<exists>t. try_cpus im 0x10 [0] ex_trial = Some t \<and> ct_prio (ctls t 0x10) = prio_origin (ctls t 0x10) \<and>
     load_this t 0 = load_last t 0 \<and> ct_prio (ctls t 0x20) = 20 \<and> ceiling_cache (caches t 0x600) = 20 \<and> d_cpu (dpcps (ak t) 0x500) = UNBIND_CPU"
proof
  fix im
  obtain t where t: "try_cpus im 0x10 [0] ex_trial = Some t" "is_new (ctls t 0x10) = 1" using ex_trial_runs by blast
  have s: "settled [0x20, 0x10] ex_trial" by (simp add: settled_def ex_trial_def ex_task_def ex_admis_def)
  have r: "\<forall>r \<in> set [0x300]. res_ready ex_trial r" by (simp add: res_ready_def cache_adr_def res_dpcp_def ex_trial_def)
  have "between_prio 0x10 ex_trial = Some 11" by (simp add: between_prio_def ex_trial_def ex_admis_def ex_task_def)
  then have n: "new_prio 0x10 ex_trial" by (simp add: new_prio_def FIRST_PRIO_def ACORAL_MAX_PRIO_NUM_def ex_trial_def ex_task_def)
  note l = ex_trial_lists [OF refl]
  have "settled [0x20, 0x10] t \<and> (\<forall>d. d \<noteq> 0x10 \<longrightarrow> ct_prio (ctls t d) = ct_prio (ctls ex_trial d)) \<and>
      caches t = caches ex_trial \<and> dpcps (ak t) = dpcps (ak ex_trial)"
    using trial_settles [OF l(2) s t(1), of "[0x300]"] t(2) l(3) r n by simp
  then show "\<exists>t. try_cpus im 0x10 [0] ex_trial = Some t \<and> ct_prio (ctls t 0x10) = prio_origin (ctls t 0x10) \<and>
     load_this t 0 = load_last t 0 \<and> ct_prio (ctls t 0x20) = 20 \<and> ceiling_cache (caches t 0x600) = 20 \<and> d_cpu (dpcps (ak t) 0x500) = UNBIND_CPU"
    using t by (auto simp: settled_def CFG_MAX_CPU_def ex_trial_def ex_task_def)
qed

section \<open>The loads of the CPUs\<close>

text \<open>The list of CPUs is ordered by load.\<close>

lemma cpu_load_list_sorted:
  "sorted (map (\<lambda>i. load_this s (ucast i)) (load_list (cpu_load_list_update s))) \<and>
   distinct (load_list (cpu_load_list_update s)) \<and> set (load_list (cpu_load_list_update s)) = set (map of_nat [0..<CFG_MAX_CPU])"
  by (auto simp: cpu_load_list_update_def CFG_MAX_CPU_def upt_rec numeral_2_eq_2 load_swap_def)

section \<open>Where the initialisation does not end\<close>

text \<open>Where a section ends at the time at which the next starts, the code that joins them removes the end of the first from the queue
  and follows its successor, which by then is the removed node itself: the second removal waits for a lock that it holds.\<close>

lemma list_del_unlinks: "acoral_list_del e h = Some h' \<Longrightarrow> unlinked e h'"
  by (auto simp: acoral_list_del_def unlinked_def bind_Some_iff Let_def heap_upd_defs)

lemma prio_queue_del_twice: "acoral_prio_queue_del q e h = Some h' \<Longrightarrow> lnext h' e = e \<and> acoral_prio_queue_del q' e h' = None"
  by (auto simp: acoral_prio_queue_del_def bind_Some_iff bind_eq_None_conv queue_lock_def queue_unlock_def unlinked_def
      intro!: list_del_unlinked dest!: list_del_unlinks split: if_splits)

theorem join_adjacent_hangs:
  assumes "nxt s tmp \<noteq> TimeQ i" "val s tmp = val s (nxt s tmp)"
  shows "join_loop cpu i tmp s = None"
proof -
  have "on_aheap (acoral_prio_queue_del (TimeQ cpu) (nxt u tmp)) u = None" if "on_aheap (acoral_prio_queue_del (TimeQ cpu) tmp) s = Some u" for u
    using that by (auto simp: on_aheap_def bind_Some_iff bind_eq_None_conv prio_queue_del_twice dest: prio_queue_del_twice [THEN conjunct1])
  then show ?thesis using assms by (subst join_loop.simps) (auto simp: Let_def bind_eq_None_conv)
qed

end
