(* ===== verification/Bytes.thy ===== *)
theory Bytes
  imports Prelude
begin

text \<open>Words in memory: four bytes, the lowest first; buffers that are overwritten in part.\<close>

definition le_bytes :: "u32 \<Rightarrow> u8 list" where
  "le_bytes w = map (\<lambda>i. ucast (drop_bit (8 * i) w)) [0..<4]"

definition word_of :: "u8 list \<Rightarrow> u32" where
  "word_of bs = foldr (\<lambda>b w. push_bit 8 w OR ucast b) bs 0"

definition word_at :: "nat \<Rightarrow> u8 list \<Rightarrow> u32" where
  "word_at i bs = word_of (take 4 (drop (4 * i) bs))"

text \<open>The bytes \<open>bs\<close> written at offset \<open>i\<close>; outside the buffer there is no result.\<close>

definition write_at :: "nat \<Rightarrow> u8 list \<Rightarrow> u8 list \<Rightarrow> u8 list option" where
  "write_at i bs buf = (if i + length bs \<le> length buf then Some (take i buf @ bs @ drop (i + length bs) buf) else None)"

lemma unat_lt: "unat (w :: u32) < 2 ^ 32"
  using unsigned_less [of w] by simp

lemma length_le_bytes [simp]: "length (le_bytes w) = 4"
  by (simp add: le_bytes_def)

lemma word_of_le_bytes [simp]: "word_of (le_bytes w) = w"
proof -
  have "le_bytes w = [ucast w, ucast (drop_bit 8 w), ucast (drop_bit 16 w), ucast (drop_bit 24 w)]"
    by (simp add: le_bytes_def upt_rec)
  then have b: "bit (word_of (le_bytes w)) n = (n < 32 \<and> (n < 8 \<and> bit w n \<or>
      8 \<le> n \<and> (n - 8 < 8 \<and> bit w (8 + (n - 8)) \<or> 16 \<le> n \<and> (n - 16 < 8 \<and> bit w (16 + (n - 16)) \<or> 24 \<le> n \<and> bit w (24 + (n - 24))))))" for n
    by (auto simp: word_of_def bit_simps)
  show ?thesis
  proof (rule bit_word_eqI)
    fix n assume "n < LENGTH(32)"
    then have n: "n < 32" by simp
    then have "n < 8 \<or> (\<exists>k. n = 8 + k \<and> k < 8) \<or> (\<exists>k. n = 16 + k \<and> k < 8) \<or> (\<exists>k. n = 24 + k \<and> k < 8)" by presburger
    then show "bit (word_of (le_bytes w)) n = bit w n" using n unfolding b by (elim disjE exE conjE) simp_all
  qed
qed

lemma word_at_bytes [simp]:
  "word_at 0 (le_bytes w @ bs) = w" "word_at (Suc i) (le_bytes w @ bs) = word_at i bs" "word_at 0 (le_bytes w) = w"
  by (simp_all add: word_at_def)

lemma word_at_numeral [simp]: "word_at (numeral n) (le_bytes w @ bs) = word_at (pred_numeral n) bs" "word_at 1 (le_bytes w @ bs) = word_at 0 bs"
  by (simp_all add: word_at_def numeral_eq_Suc)

end
