(* ===== verification/Monitor.thy ===== *)
theory Monitor
  imports Boot Bytes
begin

text \<open>
  The monitor (\<^verbatim>\<open>kernel/src/monitor.c\<close>), for the configuration that traces threads: logs of created threads and of switches, and
  the thread that sends them as bytes to a tool. The calls of the monitor in \<^verbatim>\<open>policy.c\<close> and \<^verbatim>\<open>sched.c\<close> belong to it. Both logs are
  arrays that are filled in a circle. Switches inside the allocator and inside the creation of a thread are not recorded here.
\<close>

section \<open>Logs\<close>

record thread_info =
  ti_policy :: u32
  ti_prio :: u32
  ti_tcb :: ptr
  ti_period :: u32
  ti_supercycle :: u32
  ti_cpu :: u32
  ti_create_tick :: u32
  ti_name :: "u8 list"

record switch_info =
  sw_cpu :: u32
  sw_tick :: u32
  from_tcb :: ptr
  to_tcb :: ptr

text \<open>\<^verbatim>\<open>thread_info_set\<close>; \<^verbatim>\<open>thread_switch_info_set\<close> has a threshold besides.\<close>

record 'a info_set =
  total_size :: u32
  st_idx :: u32
  ed_idx :: u32
  info_type :: u32
  info_size :: u32
  item_bsize :: u32
  overflow :: u32
  infos :: "'a list"

record 'a switch_set = "'a info_set" +
  threshold :: u32

definition MONITOR_CMD_CREATE :: u32 where "MONITOR_CMD_CREATE = 0x01"
definition MONITOR_CMD_SWITCH :: u32 where "MONITOR_CMD_SWITCH = push_bit 1 MONITOR_CMD_CREATE"

text \<open>The monitor: \<open>names\<close> are the names of threads, \<open>sent\<close> the bytes that have left.\<close>

record monitor =
  mk :: kstate
  names :: "ptr \<Rightarrow> u8 list"
  tinfos :: "thread_info info_set"
  tswinfos :: "switch_info switch_set"
  header_type :: u32
  header_length :: u32
  send_lock :: bool
  symbel :: u32
  sent :: "u8 list"

type_synonym mop = "monitor \<Rightarrow> monitor option"

definition no_thread :: thread_info where
  "no_thread = \<lparr>ti_policy = 0, ti_prio = 0, ti_tcb = 0, ti_period = 0, ti_supercycle = 0, ti_cpu = 0, ti_create_tick = 0, ti_name = replicate 32 0\<rparr>"

definition no_switch :: switch_info where
  "no_switch = \<lparr>sw_cpu = 0, sw_tick = 0, from_tcb = 0, to_tcb = 0\<rparr>"

definition tinfos_real :: "thread_info info_set" where
  "tinfos_real = \<lparr>total_size = of_nat CFG_MAX_THREAD, st_idx = 0, ed_idx = 0, info_type = MONITOR_CMD_CREATE, info_size = 0, item_bsize = 60,
     overflow = 0, infos = replicate CFG_MAX_THREAD no_thread\<rparr>"

definition tswinfos_real :: "switch_info switch_set" where
  "tswinfos_real = \<lparr>total_size = of_nat CFG_MAX_THREAD, st_idx = 0, ed_idx = 0, info_type = MONITOR_CMD_SWITCH, info_size = 0, item_bsize = 60,
     overflow = 0, infos = replicate CFG_MAX_THREAD no_switch, threshold = of_nat (CFG_MAX_THREAD div 2)\<rparr>"

section \<open>Recording\<close>

definition put_info :: "'a \<Rightarrow> ('a, 'b) info_set_scheme \<Rightarrow> ('a, 'b) info_set_scheme option" where
  "put_info x s = (if unat (ed_idx s) < length (infos s) then Some (s\<lparr>infos := (infos s)[unat (ed_idx s) := x]\<rparr>) else None)"

text \<open>The log of threads stops counting when it is full and wraps around, the log of switches does not.\<close>

definition next_thread_slot :: "('a, 'b) info_set_scheme \<Rightarrow> ('a, 'b) info_set_scheme" where
  "next_thread_slot s =
     (if ed_idx s < total_size s - 1 then s\<lparr>ed_idx := ed_idx s + 1, info_size := info_size s + 1\<rparr>
      else s\<lparr>ed_idx := 0, overflow := overflow s + 1, info_size := (if info_size s < total_size s then info_size s + 1 else info_size s)\<rparr>)"

definition next_switch_slot :: "('a, 'b) info_set_scheme \<Rightarrow> ('a, 'b) info_set_scheme" where
  "next_switch_slot s =
     (if ed_idx s < total_size s - 1 then s\<lparr>ed_idx := ed_idx s + 1, info_size := info_size s + 1\<rparr>
      else s\<lparr>ed_idx := 0, overflow := overflow s + 1, info_size := info_size s + 1\<rparr>)"

text \<open>The name is copied with its terminating zero; what was behind stays. A longer name runs over the field.\<close>

definition copy_name :: "u8 list \<Rightarrow> u8 list \<Rightarrow> u8 list option" where
  "copy_name old name = (if length name < length old then Some (name @ 0 # drop (length name + 1) old) else None)"

text \<open>The case of periodic threads goes on into that of timed threads, which overwrites the period.\<close>

definition thread_periods :: "u8 \<Rightarrow> thread_info \<Rightarrow> u32 \<times> u32" where
  "thread_periods policy old =
     (if policy = ACORAL_SCHED_POLICY_COMM then (0, 0)
      else if policy = ACORAL_SCHED_POLICY_PERIOD \<or> policy = ACORAL_SCHED_POLICY_TIMED then (40000, 40000)
      else (ti_period old, ti_supercycle old))"

definition acoral_tinfos_add :: "ptr \<Rightarrow> mop" where
  "acoral_tinfos_add p m =
     do {
       let s = tinfos m;
       let t = threads (mk m) p;
       let old = (if unat (ed_idx s) < length (infos s) then infos s ! unat (ed_idx s) else no_thread);
       name \<leftarrow> copy_name (ti_name old) (names m p);
       let (period, supercycle) = thread_periods (t_policy t) old;
       s \<leftarrow> put_info \<lparr>ti_policy = ucast (t_policy t), ti_prio = ucast (t_prio t), ti_tcb = p, ti_period = period, ti_supercycle = supercycle,
              ti_cpu = t_cpu t, ti_create_tick = ticks (mk m), ti_name = name\<rparr> s;
       Some (m\<lparr>tinfos := next_thread_slot s\<rparr>)
     }"

definition acoral_tswinfos_add :: "ptr \<Rightarrow> ptr \<Rightarrow> mop" where
  "acoral_tswinfos_add from to m =
     do {
       s \<leftarrow> put_info \<lparr>sw_cpu = current_cpu (mk m), sw_tick = ticks (mk m), from_tcb = from, to_tcb = to\<rparr> (tswinfos m);
       Some (m\<lparr>tswinfos := next_switch_slot s\<rparr>)
     }"

section \<open>Traced operations of the kernel\<close>

text \<open>Does the switch from \<open>prev\<close> to \<open>next\<close> take place?\<close>

definition switches :: "ptr \<Rightarrow> ptr \<Rightarrow> kstate \<Rightarrow> bool" where
  "switches prev next k \<longleftrightarrow> (prev \<noteq> next \<or> flag (t_state (threads k prev)) STATE_RELOAD) \<and>
     (t_state (threads k prev) = STATE_EXIT \<or> can_preempt (threads k prev) (threads k next))"

definition switch_context_traced :: mop where
  "switch_context_traced m =
     do {
       let k = acoral_set_need_sched False (mk m);
       let prev = cur_thread k;
       k \<leftarrow> acoral_select_thread k;
       let next = ready_thread k (current_cpu k);
       m' \<leftarrow> (if switches prev next k then acoral_tswinfos_add prev next (m\<lparr>mk := k\<rparr>) else Some m);
       k \<leftarrow> acoral_switch_context (mk m);
       Some (m'\<lparr>mk := k\<rparr>)
     }"

definition sched_traced :: mop where
  "sched_traced m = (if sched_due (mk m) then switch_context_traced m else Some m)"

definition exit_critical_traced :: mop where
  "exit_critical_traced m =
     (let k = mk m; cpu = current_cpu k;
          k = (if critical_nesting k cpu > 0 then k\<lparr>critical_nesting := (critical_nesting k)(cpu := critical_nesting k cpu - 1)\<rparr> else k)
      in if critical_nesting k cpu = 0 then
           let k = hal_intr_restore k in sched_traced (m\<lparr>mk := k\<lparr>sched_lock := (sched_lock k)(current_cpu k := False)\<rparr>\<rparr>)
         else Some (m\<lparr>mk := k\<rparr>))"

definition create_thread_traced ::
  "policy_table \<Rightarrow> ptr \<Rightarrow> u32 \<Rightarrow> ptr \<Rightarrow> u8 list \<Rightarrow> ptr \<Rightarrow> u32 \<Rightarrow> policy_data \<Rightarrow> ptr \<Rightarrow> (ptr \<times> ptr) option \<Rightarrow> monitor \<Rightarrow> ((kernel_error + u32) \<times> monitor) option" where
  "create_thread_traced tab route sz args name stack policy_type pd data hooks m =
     do {
       (p, k) \<leftarrow> acoral_alloc_thread (mk m);
       if p = NULL then Some (Inl KR_POLICY_ERR_THREAD, m\<lparr>mk := k\<rparr>)
       else do {
         let k = upd_thr p (\<lambda>t. t\<lparr>stack_size := sz AND NOT 3, stack_buttom := stack, t_policy := ucast policy_type,
                deal_hook := (case hooks of None \<Rightarrow> NULL | Some h \<Rightarrow> fst h),
                release_hook := (case hooks of None \<Rightarrow> NULL | Some h \<Rightarrow> snd h)\<rparr>) k;
         (r, k) \<leftarrow> acoral_policy_thread_init tab policy_type p route args pd data k;
         m \<leftarrow> acoral_tinfos_add p (m\<lparr>mk := k, names := (names m)(p := name)\<rparr>);
         Some (r, m)
       }
     }"

section \<open>Sending\<close>

text \<open>Bytes of the structures and of the header.\<close>

definition thread_bytes :: "thread_info \<Rightarrow> u8 list" where
  "thread_bytes t = concat (map le_bytes [ti_policy t, ti_prio t, ti_tcb t, ti_period t, ti_supercycle t, ti_cpu t, ti_create_tick t]) @ ti_name t"

definition switch_bytes :: "switch_info \<Rightarrow> u8 list" where
  "switch_bytes w = concat (map le_bytes [sw_cpu w, sw_tick w, from_tcb w, to_tcb w])"

definition core_bytes :: "u32 \<Rightarrow> u8 list \<Rightarrow> u8 list" where
  "core_bytes i name = le_bytes i @ le_bytes 666000000 @ name"

definition header_bytes :: "u32 \<Rightarrow> u32 \<Rightarrow> u8 list" where
  "header_bytes ty len = replicate 4 (of_char (CHR ''+'')) @ le_bytes ty @ le_bytes len"

definition acoral_bytes_send :: "u8 list \<Rightarrow> mop" where
  "acoral_bytes_send bs m =
     (let m = m\<lparr>mk := acoral_enter_critical (mk m)\<rparr> in
      if send_lock m then None
      else exit_critical_traced (m\<lparr>sent := sent m @ header_bytes (header_type m) (header_length m) @ bs\<rparr>))"

fun send_all :: "('a \<Rightarrow> u8 list) \<Rightarrow> 'a list \<Rightarrow> mop" where
  "send_all f [] m = Some m"
| "send_all f (x # xs) m = do { m \<leftarrow> acoral_bytes_send (f x) m; send_all f xs m }"

definition vol_malloc_m :: "image \<Rightarrow> u32 \<Rightarrow> monitor \<Rightarrow> (ptr \<times> monitor) option" where
  "vol_malloc_m im sz m = do { (a, k) \<leftarrow> vol_malloc_now (vol_mutex im) sz (mk m); if a = NULL then None else Some (a, m\<lparr>mk := k\<rparr>) }"

definition vol_free_m :: "image \<Rightarrow> ptr \<Rightarrow> mop" where
  "vol_free_m im p m = do { k \<leftarrow> vol_free_now (vol_mutex im) p (mk m); Some (m\<lparr>mk := k\<rparr>) }"

text \<open>The entries that are sent. A log that ever wrapped around is always sent in full: \<^verbatim>\<open>overflow\<close> is never reset.\<close>

definition print_num :: "('a, 'b) info_set_scheme \<Rightarrow> nat" where
  "print_num s = unat (if overflow s > 0 then total_size s else info_size s)"

definition sent_infos :: "('a, 'b) info_set_scheme \<Rightarrow> 'a list option" where
  "sent_infos s = (if info_size s = 0 then Some [] else if print_num s \<le> length (infos s) then Some (take (print_num s) (infos s)) else None)"

definition reset_infos :: "('a, 'b) info_set_scheme \<Rightarrow> ('a, 'b) info_set_scheme" where
  "reset_infos s = s\<lparr>info_size := 0, st_idx := 0, ed_idx := 0\<rparr>"

definition set_header :: "u32 \<Rightarrow> u32 \<Rightarrow> monitor \<Rightarrow> monitor" where
  "set_header ty len m = m\<lparr>header_type := ty, header_length := len\<rparr>"

text \<open>\<open>junk\<close> is what the memory of the name field held.\<close>

definition send_cores :: "image \<Rightarrow> u8 list \<Rightarrow> mop" where
  "send_cores im junk m =
     do {
       (a, m) \<leftarrow> vol_malloc_m im 40 (set_header 1 40 (m\<lparr>symbel := 1\<rparr>));
       name0 \<leftarrow> copy_name junk (map of_char ''CPU 0'');
       m \<leftarrow> acoral_bytes_send (core_bytes 0 name0) m;
       name1 \<leftarrow> copy_name name0 (map of_char ''CPU 1'');
       m \<leftarrow> acoral_bytes_send (core_bytes 1 name1) m;
       vol_free_m im a m
     }"

definition acoral_infos_send :: "image \<Rightarrow> u8 list \<Rightarrow> mop" where
  "acoral_infos_send im junk m =
     do {
       (a, m) \<leftarrow> vol_malloc_m im (28 + 60 * of_nat CFG_MAX_THREAD) m;
       (b, m) \<leftarrow> vol_malloc_m im (32 + 16 * of_nat CFG_MAX_THREAD) m;
       let tinfos_tmp = tinfos m;
       let tswinfos_tmp = tswinfos m;
       m \<leftarrow> exit_critical_traced (m\<lparr>mk := acoral_enter_critical (mk m), tinfos := reset_infos tinfos_tmp, tswinfos := reset_infos tswinfos_tmp\<rparr>);
       m \<leftarrow> (if symbel m = 0 then send_cores im junk m else Some m);
       ts \<leftarrow> sent_infos tinfos_tmp;
       m \<leftarrow> send_all thread_bytes ts (if info_size tinfos_tmp > 0 then set_header 2 60 m else m);
       ws \<leftarrow> sent_infos tswinfos_tmp;
       m \<leftarrow> send_all switch_bytes ws (if info_size tswinfos_tmp > 0 then set_header 3 16 m else m);
       m \<leftarrow> vol_free_m im a m;
       vol_free_m im b m
     }"

definition acoral_monitor_init :: "image \<Rightarrow> ptr \<Rightarrow> mop" where
  "acoral_monitor_init im route m =
     do {
       (a, m) \<leftarrow> vol_malloc_m im 12 (m\<lparr>header_type := 0, header_length := 0, send_lock := False\<rparr>);
       (_, m) \<leftarrow> create_thread_traced (kernel_policies (hooks_run im) (vol_mutex im)) route 1024 NULL (map of_char ''acoral_infos_send'') NULL
         (ucast ACORAL_SCHED_POLICY_PERIOD)
         \<lparr>pd_cpu = 0, pd_prio = 8, pd_time = 10000, pd_start_time = [], pd_section_num = 0, pd_frequency = 0,
           pd_section_route = NULL, pd_section_args = NULL\<rparr> NULL None m;
       vol_free_m im a m
     }"

end
