(* ===== verification/Monitor_Props.thy ===== *)
theory Monitor_Props
  imports Monitor Volmem_Props
begin

text \<open>
  Properties of the monitor: a log that is filled in a circle sends its newest entries, a receiver can take the stream of bytes
  apart again, and a switch is recorded exactly when it takes place.
\<close>

section \<open>Circular logs\<close>

lemma rotate_update:
  assumes "i < length l"
  shows "rotate (Suc i) (l[i := x]) = tl (rotate i l) @ [x]"
proof -
  have "rotate (Suc i) (l[i := x]) = drop (Suc i) l @ take (Suc i) (l[i := x])"
  proof (cases "Suc i = length l")
    case True
    then show ?thesis using rotate_length01 by (simp add: rotate_conv_mod [of "Suc i"])
  next
    case False
    then show ?thesis using assms by (simp add: rotate_drop_take drop_update_cancel)
  qed
  moreover have "take (Suc i) (l[i := x]) = take i l @ [x]" using assms by (simp add: take_Suc_conv_app_nth)
  moreover have "rotate i l = l ! i # drop (Suc i) l @ take i l" using assms by (simp add: rotate_drop_take Cons_nth_drop_Suc)
  ultimately show ?thesis by simp
qed

definition log_ok :: "('a, 'b) info_set_scheme \<Rightarrow> bool" where
  "log_ok s \<longleftrightarrow> 0 < total_size s \<and> length (infos s) = unat (total_size s) \<and> ed_idx s < total_size s"

text \<open>Empty, and never wrapped around.\<close>

definition fresh :: "('a, 'b) info_set_scheme \<Rightarrow> bool" where
  "fresh s \<longleftrightarrow> log_ok s \<and> ed_idx s = 0 \<and> info_size s = 0 \<and> overflow s = 0"

text \<open>What a log of \<open>n\<close> entries holds after the entries \<open>xs\<close>: all of them, or the last \<open>n\<close>, the oldest at the place of the next entry.\<close>

definition holds_last :: "nat \<Rightarrow> 'a list \<Rightarrow> 'a list \<Rightarrow> bool" where
  "holds_last n xs ys \<longleftrightarrow> (if length xs \<le> n then ys = xs else length ys = n \<and> rotate (length xs mod n) ys = drop (length xs - n) xs)"

locale circular_log =
  fixes add :: "'a \<Rightarrow> ('a, 'b) info_set_scheme \<Rightarrow> ('a, 'b) info_set_scheme"
  assumes add_infos: "infos (add x s) = (infos s)[unat (ed_idx s) := x]"
    and add_total: "total_size (add x s) = total_size s"
    and add_ed: "ed_idx (add x s) = (if ed_idx s < total_size s - 1 then ed_idx s + 1 else 0)"
    and add_overflow: "overflow (add x s) = (if ed_idx s < total_size s - 1 then overflow s else overflow s + 1)"
    and add_size: "ed_idx s < total_size s - 1 \<or> info_size s < total_size s \<Longrightarrow> info_size (add x s) = info_size s + 1"
      "info_size (add x s) \<in> {info_size s, info_size s + 1}"
begin

lemma add_step:
  assumes "log_ok s" "unat (ed_idx s) = n mod unat (total_size s)" "unat (overflow s) = n div unat (total_size s)" "Suc n < 2 ^ 32"
  shows "log_ok (add x s)" "unat (ed_idx (add x s)) = Suc n mod unat (total_size s)" "unat (overflow (add x s)) = Suc n div unat (total_size s)"
proof -
  let ?T = "unat (total_size s)"
  have nz: "total_size s \<noteq> 0" using assms(1) by (auto simp: log_ok_def)
  have T: "0 < ?T" "length (infos s) = ?T" using assms(1) by (auto simp: log_ok_def unat_gt_0)
  have iff: "ed_idx s < total_size s - 1 \<longleftrightarrow> Suc (n mod ?T) < ?T"
    using T(1) by (simp add: word_less_nat_alt unat_minus_one [OF nz] assms(2) less_diff_conv)
  have div: "Suc n div ?T = (if Suc (n mod ?T) = ?T then Suc (n div ?T) else n div ?T)"
    by (auto simp: div_Suc mod_Suc)
  have dn: "n div ?T \<le> n" by simp
  show ed: "unat (ed_idx (add x s)) = Suc n mod ?T"
  proof (cases "Suc (n mod ?T) < ?T")
    case True
    then have "unat (ed_idx s + 1) = Suc (n mod ?T)" using unat_lt [of "total_size s"] assms(2) by (simp add: unat_word_ariths)
    then show ?thesis using True by (simp add: add_ed iff mod_Suc)
  next
    case False
    then have "Suc (n mod ?T) = ?T" using mod_less_divisor [OF T(1), of n] by simp
    then show ?thesis by (simp add: add_ed iff mod_Suc)
  qed
  show "unat (overflow (add x s)) = Suc n div ?T"
  proof -
    have "unat (overflow s + 1) = Suc (n div ?T)" using assms(3,4) le_less_trans [OF dn, of "2 ^ 32 - 1"] by (simp add: unat_word_ariths)
    then show ?thesis using assms(3) mod_less_divisor [OF T(1), of n] by (auto simp: add_overflow iff div)
  qed
  show "log_ok (add x s)"
    using T ed by (simp add: log_ok_def add_total add_infos word_less_nat_alt)
qed

lemma adds_state:
  assumes "fresh s" "length xs < 2 ^ 32"
  shows "log_ok (fold add xs s) \<and> total_size (fold add xs s) = total_size s \<and> unat (ed_idx (fold add xs s)) = length xs mod unat (total_size s) \<and>
    unat (overflow (fold add xs s)) = length xs div unat (total_size s)"
  using assms(2)
proof (induction xs rule: rev_induct)
  case Nil
  then show ?case using assms(1) by (simp add: fresh_def)
next
  case (snoc x xs)
  then have "length xs < 2 ^ 32" by simp
  with snoc.IH have IH: "log_ok (fold add xs s)" "total_size (fold add xs s) = total_size s"
      "unat (ed_idx (fold add xs s)) = length xs mod unat (total_size s)" "unat (overflow (fold add xs s)) = length xs div unat (total_size s)" by auto
  show ?case using add_step [OF IH(1), of "length xs" x] IH snoc.prems by (simp add: add_total)
qed

lemma adds_size:
  assumes "fresh s" "length xs < 2 ^ 32"
  shows "unat (info_size (fold add xs s)) \<le> length xs \<and> min (length xs) (unat (total_size s)) \<le> unat (info_size (fold add xs s))"
  using assms(2)
proof (induction xs rule: rev_induct)
  case Nil
  then show ?case using assms(1) by (simp add: fresh_def)
next
  case (snoc x xs)
  let ?s = "fold add xs s"
  have l: "length xs < 2 ^ 32" using snoc.prems by simp
  have tot: "total_size ?s = total_size s" using adds_state [OF assms(1) l] by simp
  have suc: "unat (info_size ?s + 1) = Suc (unat (info_size ?s))" using snoc.IH [OF l] snoc.prems by (simp add: unat_word_ariths)
  show ?case
  proof (cases "info_size ?s < total_size s")
    case True
    then show ?thesis using snoc.IH [OF l] suc add_size(1) [of ?s x] by (auto simp: tot min_le_iff_disj)
  next
    case False
    then show ?thesis using snoc.IH [OF l] suc add_size(2) [of x ?s] by (auto simp: word_less_nat_alt)
  qed
qed

lemma adds_infos:
  assumes "fresh s" "length xs < 2 ^ 32"
  shows "(length xs \<le> unat (total_size s) \<longrightarrow> take (length xs) (infos (fold add xs s)) = xs) \<and>
    (unat (total_size s) \<le> length xs \<longrightarrow>
      rotate (length xs mod unat (total_size s)) (infos (fold add xs s)) = drop (length xs - unat (total_size s)) xs)"
  using assms(2)
proof (induction xs rule: rev_induct)
  case Nil
  then show ?case using assms(1) by (auto simp: fresh_def log_ok_def)
next
  case (snoc x xs)
  define T n l where "T = unat (total_size s)" and "n = length xs" and "l = infos (fold add xs s)"
  have n: "length xs < 2 ^ 32" using snoc.prems by simp
  have st: "length l = T" "unat (ed_idx (fold add xs s)) = n mod T" "0 < T"
    using adds_state [OF assms(1) n] assms(1) by (auto simp: log_ok_def fresh_def T_def n_def l_def unat_gt_0)
  have l': "infos (fold add (xs @ [x]) s) = l[n mod T := x]" using st by (simp add: add_infos l_def)
  have IH: "n \<le> T \<Longrightarrow> take n l = xs" "T \<le> n \<Longrightarrow> rotate (n mod T) l = drop (n - T) xs"
    using snoc.IH [OF n] by (simp_all add: T_def n_def l_def)
  have below: "take (Suc n) (l[n mod T := x]) = xs @ [x]" if "n < T"
    using that IH(1) st(1) by (simp add: take_Suc_conv_app_nth)
  have "rotate (Suc n mod T) (l[n mod T := x]) = drop (Suc n - T) (xs @ [x])" if "T \<le> Suc n"
  proof (cases "T \<le> n")
    case True
    have "rotate (Suc n mod T) (l[n mod T := x]) = rotate (Suc (n mod T)) (l[n mod T := x])"
      using st(1) rotate_conv_mod [of "Suc (n mod T)" "l[n mod T := x]"] by (simp add: mod_Suc_eq)
    also have "\<dots> = tl (drop (n - T) xs) @ [x]" using True st IH(2) by (simp add: rotate_update del: rotate_Suc)
    finally show ?thesis using True st(3) by (simp add: n_def tl_drop Suc_diff_le flip: drop_Suc)
  next
    case False
    then have "T = Suc n" using that by simp
    then show ?thesis using below st(1) by simp
  qed
  then show ?case using below unfolding l' by (simp add: T_def n_def)
qed

text \<open>The entries that are sent are the newest ones.\<close>

lemma adds_sent:
  assumes "fresh s" "length xs < 2 ^ 32"
  shows "\<exists>ys. sent_infos (fold add xs s) = Some ys \<and> holds_last (unat (total_size s)) xs ys"
proof -
  define T t where "T = unat (total_size s)" and "t = fold add xs s"
  have st: "length (infos t) = T" "total_size t = total_size s" "unat (overflow t) = length xs div T" "0 < T"
    using adds_state [OF assms] assms(1) by (auto simp: log_ok_def fresh_def T_def t_def unat_gt_0)
  have sz: "unat (info_size t) \<le> length xs" "min (length xs) T \<le> unat (info_size t)" using adds_size [OF assms] by (auto simp: T_def t_def)
  have ov: "overflow t > 0 \<longleftrightarrow> T \<le> length xs" using st(3,4) by (simp add: word_less_nat_alt div_greater_zero_iff)
  have num: "print_num t = min (length xs) T"
    using ov sz by (auto simp: print_num_def st(2) T_def [symmetric] min_def)
  have nz: "info_size t = 0 \<longleftrightarrow> xs = []" using sz st(4) by (auto simp: min_def unat_eq_zero split: if_splits)
  have "sent_infos t = Some (take (min (length xs) T) (infos t))"
    using num st(1) by (auto simp: sent_infos_def nz)
  moreover have "holds_last T xs (take (min (length xs) T) (infos t))"
    using adds_infos [OF assms] st(1) unfolding holds_last_def T_def [symmetric] t_def [symmetric] by (auto simp: min_def)
  ultimately show ?thesis unfolding T_def t_def by blast
qed

end

interpretation thread_log: circular_log "\<lambda>x s. next_thread_slot (s\<lparr>infos := (infos s)[unat (ed_idx s) := x]\<rparr>)"
  by unfold_locales (auto simp: next_thread_slot_def)

interpretation switch_log: circular_log "\<lambda>x s. next_switch_slot (s\<lparr>infos := (infos s)[unat (ed_idx s) := x]\<rparr>)"
  by unfold_locales (auto simp: next_switch_slot_def)

text \<open>A sequence of recorded switches, each in its own state of the kernel.\<close>

fun record_switches :: "(kstate \<times> ptr \<times> ptr) list \<Rightarrow> mop" where
  "record_switches [] m = Some m"
| "record_switches ((k, from, to) # es) m = do { m \<leftarrow> acoral_tswinfos_add from to (m\<lparr>mk := k\<rparr>); record_switches es m }"

definition switch_of :: "kstate \<times> ptr \<times> ptr \<Rightarrow> switch_info" where
  "switch_of = (\<lambda>(k, from, to). \<lparr>sw_cpu = current_cpu k, sw_tick = ticks k, from_tcb = from, to_tcb = to\<rparr>)"

abbreviation add_switch :: "switch_info \<Rightarrow> switch_info switch_set \<Rightarrow> switch_info switch_set" where
  "add_switch x s \<equiv> next_switch_slot (s\<lparr>infos := (infos s)[unat (ed_idx s) := x]\<rparr>)"

lemma log_ok_add_switch: "log_ok s \<Longrightarrow> log_ok (add_switch x s)"
proof -
  assume "log_ok s"
  moreover have "unat (ed_idx s + 1) = Suc (unat (ed_idx s))" if "ed_idx s < total_size s - 1"
    using that unat_lt [of "total_size s - 1"] by (simp add: unat_word_ariths word_less_nat_alt)
  ultimately show ?thesis
    by (auto simp: log_ok_def next_switch_slot_def word_less_nat_alt unat_gt_0 unat_minus_one less_diff_conv simp del: unat_1)
qed

lemma tswinfos_add_log:
  assumes "log_ok (tswinfos m)"
  shows "acoral_tswinfos_add from to m = Some (m\<lparr>tswinfos := add_switch (switch_of (mk m, from, to)) (tswinfos m)\<rparr>)"
  using assms by (simp add: acoral_tswinfos_add_def put_info_def log_ok_def switch_of_def word_less_nat_alt)

lemma record_switches_log:
  assumes "log_ok (tswinfos m)"
  shows "\<exists>m'. record_switches es m = Some m' \<and> tswinfos m' = fold add_switch (map switch_of es) (tswinfos m)"
  using assms
proof (induction es arbitrary: m)
  case (Cons e es)
  obtain k p q where e: "e = (k, p, q)" by (cases e)
  show ?case using Cons.IH [of "m\<lparr>mk := k, tswinfos := add_switch (switch_of e) (tswinfos m)\<rparr>"] Cons.prems
    by (simp add: e tswinfos_add_log log_ok_add_switch)
qed simp

text \<open>C19. The log of switches keeps the newest entries: after recording a sequence of switches in an empty log of \<open>n\<close> entries, exactly
  these switches are sent, in order, when there are at most \<open>n\<close>; otherwise the last \<open>n\<close>, with the oldest at the place that the next
  entry would take.\<close>

theorem switch_log_keeps_newest:
  assumes "fresh (tswinfos m)" "length es < 2 ^ 32"
  shows "\<exists>m' ys. record_switches es m = Some m' \<and> sent_infos (tswinfos m') = Some ys \<and>
    holds_last (unat (total_size (tswinfos m))) (map switch_of es) ys"
proof -
  have "log_ok (tswinfos m)" using assms(1) by (simp add: fresh_def)
  then obtain m' where m': "record_switches es m = Some m'" "tswinfos m' = fold add_switch (map switch_of es) (tswinfos m)"
    using record_switches_log by blast
  obtain ys where "sent_infos (fold add_switch (map switch_of es) (tswinfos m)) = Some ys"
      "holds_last (unat (total_size (tswinfos m))) (map switch_of es) ys"
    using switch_log.adds_sent [OF assms(1), of "map switch_of es"] assms(2) by auto
  then show ?thesis using m' by (intro exI [of _ m'] exI [of _ ys]) simp
qed

section \<open>Stale entries\<close>

text \<open>Once a log has wrapped around, it is sent in full every time, with entries that have been sent before.\<close>

theorem wrapped_log_sends_stale:
  assumes "log_ok s" "0 < overflow s" "1 < total_size s"
  shows "sent_infos (add_switch x (reset_infos s)) = Some ((infos s)[0 := x])"
proof -
  have "0 < total_size s - 1" using assms(3) by (simp add: word_less_nat_alt unat_minus_one unat_gt_0 flip: unat_gt_0)
  then show ?thesis using assms by (simp add: sent_infos_def print_num_def next_switch_slot_def reset_infos_def log_ok_def)
qed

section \<open>Traced switches\<close>

text \<open>Tracing does not change what a switch does, and a switch is recorded with the thread that runs afterwards.\<close>

theorem traced_switch_records:
  assumes "log_ok (tswinfos m)" "acoral_switch_context (mk m) = Some k"
  shows "\<exists>m'. switch_context_traced m = Some m' \<and> mk m' = k \<and>
    (tswinfos m' = tswinfos m \<and> cur_thread k = cur_thread (mk m) \<or>
     tswinfos m' = add_switch (switch_of (mk m, cur_thread (mk m), cur_thread k)) (tswinfos m))"
proof -
  let ?k = "acoral_set_need_sched False (mk m)"
  obtain u where u: "acoral_select_thread ?k = Some u" using assms(2) by (auto simp: acoral_switch_context_def Let_def bind_Some_iff)
  have f: "current_cpu u = current_cpu (mk m)" "ticks u = ticks (mk m)" "cur_thread u = cur_thread (mk m)" "cur_thread ?k = cur_thread (mk m)"
    using u by (auto simp: acoral_select_thread_def Let_def bind_Some_iff acoral_set_need_sched_def cur_thread_def split: if_splits)
  have run: "cur_thread k = (if switches (cur_thread (mk m)) (ready_thread u (current_cpu u)) u then ready_thread u (current_cpu u) else cur_thread (mk m))"
    using assms(2) u f
    by (auto simp: acoral_switch_context_def Let_def switches_def acoral_set_running_thread_def move_lock_free_def cur_thread_def split: if_splits)
  show ?thesis
    using u f run assms by (auto simp: switch_context_traced_def Let_def tswinfos_add_log switch_of_def)
qed

section \<open>The stream of bytes\<close>

text \<open>A receiver: what a tool at the other end does with the stream.\<close>

datatype event = Core u32 u32 "u8 list" | Created thread_info | Switched switch_info

definition parse_event :: "u32 \<Rightarrow> u8 list \<Rightarrow> event option" where
  "parse_event ty bs =
     (if ty = 1 \<and> length bs = 40 then Some (Core (word_at 0 bs) (word_at 1 bs) (drop 8 bs))
      else if ty = 2 \<and> length bs = 60 then
        Some (Created \<lparr>ti_policy = word_at 0 bs, ti_prio = word_at 1 bs, ti_tcb = word_at 2 bs, ti_period = word_at 3 bs,
          ti_supercycle = word_at 4 bs, ti_cpu = word_at 5 bs, ti_create_tick = word_at 6 bs, ti_name = drop 28 bs\<rparr>)
      else if ty = 3 \<and> length bs = 16 then
        Some (Switched \<lparr>sw_cpu = word_at 0 bs, sw_tick = word_at 1 bs, from_tcb = word_at 2 bs, to_tcb = word_at 3 bs\<rparr>)
      else None)"

function receive :: "u8 list \<Rightarrow> event list option" where
  "receive bs =
     (if bs = [] then Some []
      else if length bs < 12 \<or> take 4 bs \<noteq> replicate 4 (of_char (CHR ''+'')) then None
      else
        let len = unat (word_at 2 bs) in
        if length bs < 12 + len then None
        else do { e \<leftarrow> parse_event (word_at 1 bs) (take len (drop 12 bs)); es \<leftarrow> receive (drop (12 + len) bs); Some (e # es) })"
  by pat_completeness auto
termination by (relation "measure length") auto

declare receive.simps [simp del]

lemma word_at_header [simp]:
  "word_at (Suc 0) (header_bytes ty len @ bs) = ty" "word_at 2 (header_bytes ty len @ bs) = len" "length (header_bytes ty len) = 12"
  "take 4 (header_bytes ty len) = replicate 4 (of_char (CHR ''+''))" "header_bytes ty len \<noteq> []"
  by (simp_all add: header_bytes_def word_at_def)

lemma receive_frame:
  assumes "parse_event ty bs = Some e" "unat len = length bs"
  shows "receive (header_bytes ty len @ bs @ cs) = map_option ((#) e) (receive cs)"
  using assms by (subst receive.simps) (simp add: map_option_case bind_eq_None_conv split: option.splits)

lemma parse_thread: "length (ti_name t) = 32 \<Longrightarrow> parse_event 2 (thread_bytes t) = Some (Created t)"
  by (simp add: parse_event_def thread_bytes_def)

lemma parse_switch: "parse_event 3 (switch_bytes w) = Some (Switched w)"
  by (simp add: parse_event_def switch_bytes_def)

lemma parse_core: "length name = 32 \<Longrightarrow> parse_event 1 (core_bytes i name) = Some (Core i 666000000 name)"
  by (simp add: parse_event_def core_bytes_def)

text \<open>What the operations of the kernel leave alone.\<close>

definition same_stream :: "monitor \<Rightarrow> monitor \<Rightarrow> bool" where
  "same_stream m m' \<longleftrightarrow> tinfos m' = tinfos m \<and> header_type m' = header_type m \<and> header_length m' = header_length m \<and> symbel m' = symbel m \<and>
     sent m' = sent m"

lemma same_stream_calls:
  "vol_malloc_m im sz m = Some (a, m') \<Longrightarrow> same_stream m m' \<and> tswinfos m' = tswinfos m" "vol_free_m im p m = Some m' \<Longrightarrow> same_stream m m'"
  by (auto simp: vol_malloc_m_def vol_free_m_def same_stream_def bind_Some_iff split: if_splits)

lemma exit_traced_stream: "exit_critical_traced m = Some m' \<Longrightarrow> same_stream m m'"
  by (auto simp: exit_critical_traced_def sched_traced_def switch_context_traced_def acoral_tswinfos_add_def same_stream_def Let_def
      bind_Some_iff split: if_splits)

lemma bytes_send_stream:
  assumes "acoral_bytes_send bs m = Some m'"
  shows "same_stream (m\<lparr>sent := sent m @ header_bytes (header_type m) (header_length m) @ bs\<rparr>) m'"
proof -
  have "exit_critical_traced (m\<lparr>mk := acoral_enter_critical (mk m), sent := sent m @ header_bytes (header_type m) (header_length m) @ bs\<rparr>) = Some m'"
    using assms by (simp add: acoral_bytes_send_def Let_def split: if_splits)
  from exit_traced_stream [OF this] show ?thesis by (simp add: same_stream_def)
qed

lemma send_all_stream:
  assumes "send_all f xs m = Some m'" "\<And>x. x \<in> set xs \<Longrightarrow> parse_event (header_type m) (f x) = Some (g x) \<and> unat (header_length m) = length (f x)"
  shows "\<exists>bs. same_stream (m\<lparr>sent := sent m @ bs\<rparr>) m' \<and> (\<forall>cs es. receive cs = Some es \<longrightarrow> receive (bs @ cs) = Some (map g xs @ es))"
  using assms
proof (induction xs arbitrary: m)
  case Nil
  then show ?case by (intro exI [of _ "[]"]) (simp add: same_stream_def)
next
  case (Cons x xs)
  obtain u where u: "acoral_bytes_send (f x) m = Some u" "send_all f xs u = Some m'" using Cons.prems(1) by (auto simp: bind_Some_iff)
  have su: "same_stream (m\<lparr>sent := sent m @ header_bytes (header_type m) (header_length m) @ f x\<rparr>) u" by (rule bytes_send_stream [OF u(1)])
  have h: "header_type u = header_type m" "header_length u = header_length m" "sent u = sent m @ header_bytes (header_type m) (header_length m) @ f x"
    using su by (auto simp: same_stream_def)
  obtain bs where bs: "same_stream (u\<lparr>sent := sent u @ bs\<rparr>) m'" "\<And>cs es. receive cs = Some es \<Longrightarrow> receive (bs @ cs) = Some (map g xs @ es)"
    using Cons.IH [OF u(2)] Cons.prems(2) h by auto
  have "receive ((header_bytes (header_type m) (header_length m) @ f x @ bs) @ cs) = Some (map g (x # xs) @ es)" if "receive cs = Some es" for cs es
    using receive_frame [of "header_type m" "f x" "g x" "header_length m"] Cons.prems(2) [of x] bs(2) [OF that] by simp
  then show ?case using bs(1) su
    by (intro exI [of _ "header_bytes (header_type m) (header_length m) @ f x @ bs"]) (simp add: same_stream_def)
qed

text \<open>The part of the stream that sends one log.\<close>

lemma send_log_stream:
  assumes "sent_infos l = Some xs" "send_all f xs (if info_size l > 0 then set_header ty len m else m) = Some m'"
    "\<And>x. x \<in> set xs \<Longrightarrow> parse_event ty (f x) = Some (g x) \<and> unat len = length (f x)"
  shows "\<exists>bs. sent m' = sent m @ bs \<and> symbel m' = symbel m \<and> tinfos m' = tinfos m \<and>
    (\<forall>cs es. receive cs = Some es \<longrightarrow> receive (bs @ cs) = Some (map g xs @ es))"
proof (cases "info_size l > 0")
  case True
  then show ?thesis using send_all_stream [of f xs "set_header ty len m" m' g] assms(2,3) by (auto simp: set_header_def same_stream_def)
next
  case False
  then have "info_size l = 0" by (simp add: word_gt_0)
  then show ?thesis using assms(1,2) by (intro exI [of _ "[]"]) (auto simp: sent_infos_def)
qed

lemma send_cores_stream:
  assumes "send_cores im junk m = Some m'" "length junk = 32"
  shows "\<exists>bs n0 n1. sent m' = sent m @ bs \<and> tinfos m' = tinfos m \<and>
    (\<forall>cs es. receive cs = Some es \<longrightarrow> receive (bs @ cs) = Some (Core 0 666000000 n0 # Core 1 666000000 n1 # es))"
proof -
  obtain a m1 n0 m2 n1 m3 where run: "vol_malloc_m im 40 (set_header 1 40 (m\<lparr>symbel := 1\<rparr>)) = Some (a, m1)" "copy_name junk (map of_char ''CPU 0'') = Some n0"
      "acoral_bytes_send (core_bytes 0 n0) m1 = Some m2" "copy_name n0 (map of_char ''CPU 1'') = Some n1"
      "acoral_bytes_send (core_bytes 1 n1) m2 = Some m3" "vol_free_m im a m3 = Some m'"
    using assms(1) by (auto simp: send_cores_def bind_Some_iff)
  have len: "length n0 = 32" "length n1 = 32" using run(2,4) assms(2) by (auto simp: copy_name_def split: if_splits)
  note p = receive_frame [OF parse_core [OF len(1)], of 40 0] receive_frame [OF parse_core [OF len(2)], of 40 1]
  let ?bs = "header_bytes 1 40 @ core_bytes 0 n0 @ header_bytes 1 40 @ core_bytes 1 n1"
  have "sent m' = sent m @ ?bs \<and> tinfos m' = tinfos m"
    using same_stream_calls(1) [OF run(1)] bytes_send_stream [OF run(3)] bytes_send_stream [OF run(5)] same_stream_calls(2) [OF run(6)]
    by (simp add: same_stream_def set_header_def)
  moreover have "receive (?bs @ cs) = Some (Core 0 666000000 n0 # Core 1 666000000 n1 # es)" if "receive cs = Some es" for cs es
    using p len that by (simp add: core_bytes_def)
  ultimately show ?thesis by blast
qed

text \<open>C20. The stream of the monitor can be taken apart again: what one run of the sending thread adds to the stream is read back, by a
  receiver that knows the formats only, as the description of the CPUs (the first time), the entries of the log of threads and those of
  the log of switches, in order. The logs are read before they are reset.\<close>

theorem monitor_stream_decodes:
  assumes "acoral_infos_send im junk m = Some m'" "length junk = 32" "sent_infos (tinfos m) = Some ts" "\<forall>t \<in> set ts. length (ti_name t) = 32"
    "sent_infos (tswinfos m) = Some ws"
  shows "\<exists>bs cores. sent m' = sent m @ bs \<and> receive bs = Some (cores @ map Created ts @ map Switched ws) \<and>
    (if symbel m = 0 then \<exists>n0 n1. cores = [Core 0 666000000 n0, Core 1 666000000 n1] else cores = [])"
proof -
  obtain a m1 b m2 where ab: "vol_malloc_m im (28 + 60 * of_nat CFG_MAX_THREAD) m = Some (a, m1)"
      "vol_malloc_m im (32 + 16 * of_nat CFG_MAX_THREAD) m1 = Some (b, m2)"
    using assms(1) by (auto simp: acoral_infos_send_def bind_Some_iff)
  have m2: "tinfos m2 = tinfos m" "tswinfos m2 = tswinfos m" "sent m2 = sent m" "symbel m2 = symbel m"
    using same_stream_calls(1) [OF ab(1)] same_stream_calls(1) [OF ab(2)] by (auto simp: same_stream_def)
  obtain m3 m4 m5 m6 m7 where run:
      "exit_critical_traced (m2\<lparr>mk := acoral_enter_critical (mk m2), tinfos := reset_infos (tinfos m), tswinfos := reset_infos (tswinfos m)\<rparr>) = Some m3"
      "(if symbel m3 = 0 then send_cores im junk m3 else Some m3) = Some m4"
      "send_all thread_bytes ts (if info_size (tinfos m) > 0 then set_header 2 60 m4 else m4) = Some m5"
      "send_all switch_bytes ws (if info_size (tswinfos m) > 0 then set_header 3 16 m5 else m5) = Some m6"
      "vol_free_m im a m6 = Some m7" "vol_free_m im b m7 = Some m'"
    using assms(1,3,5) by (auto simp: acoral_infos_send_def ab m2 Let_def bind_Some_iff)
  have m3: "sent m3 = sent m" "symbel m3 = symbel m" using exit_traced_stream [OF run(1)] m2 by (auto simp: same_stream_def)
  obtain c cores where c: "sent m4 = sent m @ c" "\<And>cs es. receive cs = Some es \<Longrightarrow> receive (c @ cs) = Some (cores @ es)"
      "if symbel m = 0 then \<exists>n0 n1. cores = [Core 0 666000000 n0, Core 1 666000000 n1] else cores = []"
  proof (cases "symbel m = 0")
    case True
    then show ?thesis using that send_cores_stream [OF _ assms(2), of im m3 m4] run(2) m3 by fastforce
  next
    case False
    then show ?thesis using that [of "[]" "[]"] run(2) m3 by simp
  qed
  obtain t where t: "sent m5 = sent m4 @ t" "\<And>cs es. receive cs = Some es \<Longrightarrow> receive (t @ cs) = Some (map Created ts @ es)"
    using send_log_stream [OF assms(3) run(3), of Created] assms(4) parse_thread by (auto simp: thread_bytes_def)
  obtain w where w: "sent m6 = sent m5 @ w" "\<And>cs es. receive cs = Some es \<Longrightarrow> receive (w @ cs) = Some (map Switched ws @ es)"
    using send_log_stream [OF assms(5) run(4), of Switched] parse_switch by (auto simp: switch_bytes_def)
  have "receive [] = Some []" by (subst receive.simps) simp
  then have "receive (c @ t @ w) = Some (cores @ map Created ts @ map Switched ws)" using c(2) t(2) w(2) [of "[]"] by simp
  moreover have "sent m' = sent m @ c @ t @ w"
    using same_stream_calls(2) [OF run(5)] same_stream_calls(2) [OF run(6)] c(1) t(1) w(1) by (simp add: same_stream_def)
  ultimately show ?thesis using c(3) by blast
qed

section \<open>An example\<close>

text \<open>A heap of one free block, and one switch to report.\<close>

definition ex_im :: image where
  "ex_im = \<lparr>heap_start = 0, heap_end = 0, level_bytes = (\<lambda>_. 0), tcb_size = 0, ipc_size = 0, vol_mutex = 0x300, orig_thread = 0, idle = 0,
     init = 0, init_arg = 0, daem = 0, idle_follow = 0, hooks_run = (\<lambda>_ _ s. Some s)\<rparr>"

definition ex_monitor :: monitor where
  "ex_monitor = \<lparr>mk = ex_kernel\<lparr>vol := \<lparr>top_p = 0x9000, down_p = 0x1000, freep_p = 0x1000, mem_state = True,
        words = (\<lambda>_. 0)(0x1000 := header False 0x8000)\<rparr>\<rparr>, names = (\<lambda>_. []), tinfos = tinfos_real, tswinfos = tswinfos_real,
     header_type = 0, header_length = 0, send_lock = False, symbel = 1, sent = []\<rparr>"

definition ex_switch :: "kstate \<times> ptr \<times> ptr" where
  "ex_switch = (ex_kernel, 0x100, 0x180)"

lemma ex_fresh: "fresh (tswinfos ex_monitor)"
  by (simp add: fresh_def log_ok_def ex_monitor_def tswinfos_real_def CFG_MAX_THREAD_def)

theorem switch_log_keeps_newest_witness:
  "\<exists>m'. record_switches [ex_switch] ex_monitor = Some m' \<and> sent_infos (tswinfos m') = Some [switch_of ex_switch]"
proof -
  have "unat (total_size (tswinfos ex_monitor)) = 60" by (simp add: ex_monitor_def tswinfos_real_def CFG_MAX_THREAD_def)
  then show ?thesis using switch_log_keeps_newest [OF ex_fresh, of "[ex_switch]"] by (auto simp: holds_last_def)
qed

definition ex_logged :: monitor where
  "ex_logged = ex_monitor\<lparr>tswinfos := add_switch (switch_of ex_switch) tswinfos_real\<rparr>"

lemma ex_sent: "map_option sent (acoral_infos_send ex_im (replicate 32 0) ex_logged) = Some (header_bytes 3 16 @ switch_bytes (switch_of ex_switch))"
  by code_simp

theorem monitor_stream_decodes_witness:
  "\<exists>m'. acoral_infos_send ex_im (replicate 32 0) ex_logged = Some m' \<and> receive (sent m') = Some [Switched (switch_of ex_switch)]"
proof -
  obtain m' where m': "acoral_infos_send ex_im (replicate 32 0) ex_logged = Some m'" using ex_sent by auto
  have "sent_infos (tinfos ex_logged) = Some []" "sent ex_logged = []" "symbel ex_logged \<noteq> 0"
    by (simp_all add: sent_infos_def ex_logged_def ex_monitor_def tinfos_real_def)
  moreover have "sent_infos (tswinfos ex_logged) = Some [switch_of ex_switch]"
    by code_simp
  ultimately show ?thesis using monitor_stream_decodes [OF m', of "[]" "[switch_of ex_switch]"] m' by auto
qed

end
