(* ===== verification/Timed_Table.thy ===== *)
theory Timed_Table
  imports Admis_Task Bytes
begin

text \<open>
  The decoders of the tables of timed threads (\<^verbatim>\<open>components/tmp/lib/src/timed.c\<close>), from a file and from structures in memory. The file
  system (FatFs) is a parameter: opening a file, reading at most a number of bytes at its position, and setting the position. What
  fresh memory holds is a parameter as well; an access outside an array has no result. The arrays of section functions are known
  by their addresses only.
\<close>

record 'f fatfs =
  f_open :: "u8 list \<Rightarrow> 'f option"
  f_read :: "nat \<Rightarrow> 'f \<Rightarrow> u8 list \<times> 'f"
  f_lseek :: "nat \<Rightarrow> 'f \<Rightarrow> 'f"

definition read_into :: "'f fatfs \<Rightarrow> nat \<Rightarrow> nat \<Rightarrow> u8 list \<Rightarrow> 'f \<Rightarrow> (u8 list \<times> 'f) option" where
  "read_into fs i n buf fp = (let (bs, fp) = f_read fs n fp in do { buf \<leftarrow> write_at i bs buf; Some (buf, fp) })"

type_synonym junk = "ptr \<Rightarrow> nat \<Rightarrow> u8"

definition fresh_mem :: "junk \<Rightarrow> ptr \<Rightarrow> nat \<Rightarrow> u8 list" where
  "fresh_mem junk a n = map (junk a) [0..<n]"

definition word_get :: "nat \<Rightarrow> u8 list \<Rightarrow> u32 option" where
  "word_get i buf = (if 4 * i + 4 \<le> length buf then Some (word_at i buf) else None)"

definition word_put :: "nat \<Rightarrow> u32 \<Rightarrow> u8 list \<Rightarrow> u8 list option" where
  "word_put i w buf = write_at (4 * i) (le_bytes w) buf"

section \<open>Tables\<close>

record exec_section =
  exe_time :: u32
  sec_start :: u32
  sec_func :: ptr

text \<open>Of the sections of a thread only the first is ever read.\<close>

record thread_config =
  tc_period :: u32
  tc_section_num :: u8
  tc_frequency :: u8
  tc_cpu :: u8
  tc_sections :: exec_section

record global_config =
  magic_number :: "u8 list"
  hyper_period :: "u32 list"
  timed_thread_number :: u8

definition timed_test :: "u8 list \<Rightarrow> bool" where
  "timed_test test \<longleftrightarrow> test ! 0 = 0x3e \<or> test ! 1 = 0x13 \<or> test ! 2 = 0xff \<or> test ! 3 = 0xff"

definition TIMED_STACK_SIZE :: u32 where "TIMED_STACK_SIZE = 256"

section \<open>Common steps\<close>

definition timed_time_init :: "admis \<Rightarrow> admis" where
  "timed_time_init s = fold (\<lambda>i s. s\<lparr>aheap := acoral_prio_queue_init (TimeQ (of_nat i)) (aheap s)\<rparr>) [0..<CFG_MAX_CPU] s"

text \<open>Start and end of a section enter the queue of the CPU.\<close>

definition queue_section :: "admis_image \<Rightarrow> u32 \<Rightarrow> u32 \<Rightarrow> u32 \<Rightarrow> aop" where
  "queue_section im cpu start exe s =
     (if unat cpu < CFG_MAX_CPU
      then do { s \<leftarrow> new_time im (TimeQ cpu) (uint start) s; new_time im (TimeQ cpu) (uint (start + exe)) s } else None)"

fun queue_row :: "admis_image \<Rightarrow> u32 \<Rightarrow> nat \<Rightarrow> u8 list \<Rightarrow> u8 list \<Rightarrow> nat list \<Rightarrow> aop" where
  "queue_row im cpu base st ex [] s = Some s"
| "queue_row im cpu base st ex (j # js) s =
     do {
       start \<leftarrow> word_get (base + j) st;
       exe \<leftarrow> word_get j ex;
       s \<leftarrow> queue_section im cpu start exe s;
       queue_row im cpu base st ex js s
     }"

fun max_exe :: "u32 \<Rightarrow> u8 list \<Rightarrow> nat list \<Rightarrow> (u32 \<Rightarrow> u32) \<Rightarrow> (u32 \<Rightarrow> u32) option" where
  "max_exe cpu ex [] mx = Some mx"
| "max_exe cpu ex (j # js) mx =
     do {
       exe \<leftarrow> word_get j ex;
       if unat cpu < CFG_MAX_CPU then max_exe cpu ex js (if mx cpu < exe then mx(cpu := exe) else mx) else None
     }"

definition table_words :: "u8 list \<Rightarrow> u32 list" where
  "table_words buf = map (\<lambda>i. word_at i buf) [0..<length buf div 4]"

definition create_timed :: "admis_image \<Rightarrow> u32 \<Rightarrow> u8 \<Rightarrow> u8 \<Rightarrow> u8 list \<Rightarrow> ptr \<Rightarrow> ptr \<Rightarrow> admis \<Rightarrow> (u32 \<times> admis) option" where
  "create_timed im cpu sn fr st route args s =
     do {
       (r, k) \<leftarrow> create_thread_by_policy (kernel_policies (hooks_run im) (vol_mutex im)) (timed_route im) (TIMED_STACK_SIZE * (ucast sn + 1)) NULL NULL
         (ucast ACORAL_SCHED_POLICY_TIMED)
         \<lparr>pd_cpu = cpu, pd_prio = 0, pd_time = 0, pd_start_time = table_words st, pd_section_num = sn, pd_frequency = fr,
           pd_section_route = route, pd_section_args = args\<rparr> NULL None (ak s);
       Some (id_word r, s\<lparr>ak := k\<rparr>)
     }"

definition admis_start :: "admis_image \<Rightarrow> bool \<Rightarrow> (u32 \<Rightarrow> u32) \<Rightarrow> aop" where
  "admis_start im enabled mx s =
     (if \<not> enabled then Some s else if mx 0 \<le> mx 1 then acoral_admis_ctl_init im 0 (mx 0) s else acoral_admis_ctl_init im 1 (mx 1) s)"

section \<open>Tables in memory\<close>

text \<open>The inner loop has a variable of the same name: it fills every \<open>section_num + 1\<close>-th entry with the start of the first section.\<close>

fun fill_starts :: "nat \<Rightarrow> u32 \<Rightarrow> nat list \<Rightarrow> u8 list \<Rightarrow> u8 list option" where
  "fill_starts sn start [] st = Some st"
| "fill_starts sn start (j # js) st = do { st \<leftarrow> word_put ((sn + 1) * j) start st; fill_starts sn start js st }"

fun memory_rows :: "admis_image \<Rightarrow> thread_config \<Rightarrow> u8 list \<Rightarrow> nat list \<Rightarrow> u8 list \<Rightarrow> admis \<Rightarrow> (u8 list \<times> admis) option" where
  "memory_rows im t ex [] st s = Some (st, s)"
| "memory_rows im t ex (j # js) st s =
     do {
       let sn = unat (tc_section_num t);
       st \<leftarrow> fill_starts sn (sec_start (tc_sections t)) [0..<sn] st;
       st \<leftarrow> word_put ((sn + 1) * (j + 1) - 1) (of_nat (j + 1) * tc_period t) st;
       s \<leftarrow> queue_row im (ucast (tc_cpu t)) ((sn + 1) * j) st ex [0..<sn] s;
       memory_rows im t ex js st s
     }"

text \<open>The number of entries of the table of start times is kept in 8 bits.\<close>

definition start_time_cnt :: "u8 \<Rightarrow> u8 \<Rightarrow> u8" where
  "start_time_cnt fr sn = fr * (sn + 1)"

definition memory_thread :: "admis_image \<Rightarrow> junk \<Rightarrow> thread_config \<Rightarrow> (u32 \<Rightarrow> u32) \<Rightarrow> admis \<Rightarrow> (u32 \<times> (u32 \<Rightarrow> u32) \<times> admis) option" where
  "memory_thread im junk t mx s =
     do {
       let sn = tc_section_num t;
       let fr = tc_frequency t;
       let cnt = start_time_cnt fr sn;
       (sta, s) \<leftarrow> vol_malloc_a im (4 * ucast cnt) s;
       (_, s) \<leftarrow> vol_malloc_a im (4 * ucast sn) s;
       (route, s) \<leftarrow> vol_malloc_a im (ucast sn * 4) s;
       (args, s) \<leftarrow> vol_malloc_a im (ucast sn * 4) s;
       let ex = concat (replicate (unat sn) (le_bytes (exe_time (tc_sections t))));
       (st, s) \<leftarrow> memory_rows im t ex [0..<unat fr] (fresh_mem junk sta (4 * unat cnt)) s;
       mx \<leftarrow> max_exe (ucast (tc_cpu t)) ex [0..<unat sn] mx;
       (tid, s) \<leftarrow> create_timed im (ucast (tc_cpu t)) sn fr st route args s;
       Some (tid, mx, s)
     }"

fun memory_threads :: "admis_image \<Rightarrow> junk \<Rightarrow> thread_config list \<Rightarrow> (u32 \<Rightarrow> u32) \<Rightarrow> admis \<Rightarrow> (u32 list \<times> (u32 \<Rightarrow> u32) \<times> admis) option" where
  "memory_threads im junk [] mx s = Some ([], mx, s)"
| "memory_threads im junk (t # ts) mx s =
     do {
       (tid, mx, s) \<leftarrow> memory_thread im junk t mx s;
       (ids, mx, s) \<leftarrow> memory_threads im junk ts mx s;
       Some (tid # ids, mx, s)
     }"

text \<open>The ids of the threads (\<^verbatim>\<open>timed_task_id\<close>) are returned. \<open>enabled\<close>: the admission control is configured.\<close>

definition timed_decode_without_fs ::
  "admis_image \<Rightarrow> junk \<Rightarrow> bool \<Rightarrow> global_config option \<Rightarrow> thread_config list option \<Rightarrow> admis \<Rightarrow> (u32 list \<times> admis) option" where
  "timed_decode_without_fs im junk enabled g_cfg t_cfg_list s =
     (case (g_cfg, t_cfg_list) of
        (Some g, Some ts) \<Rightarrow>
          (let s = timed_time_init s in
           if \<not> timed_test (magic_number g) then Some ([], s)
           else if length (hyper_period g) < CFG_MAX_CPU \<or> length ts < unat (timed_thread_number g) then None
           else do {
             let s = s\<lparr>timed_h_period := (\<lambda>i. if unat i < CFG_MAX_CPU then hyper_period g ! unat i else timed_h_period s i)\<rparr>;
             (_, s) \<leftarrow> vol_malloc_a im (ucast (timed_thread_number g) * 4) s;
             (ids, mx, s) \<leftarrow> memory_threads im junk (take (unat (timed_thread_number g)) ts) (\<lambda>_. 0) s;
             s \<leftarrow> admis_start im enabled mx s;
             Some (ids, s)
           })
      | _ \<Rightarrow> Some ([], s))"

section \<open>Tables in a file\<close>

text \<open>One row of start times per run: read from the file, closed by the end of the period.\<close>

fun file_rows :: "'f fatfs \<Rightarrow> admis_image \<Rightarrow> u32 \<Rightarrow> nat \<Rightarrow> u32 \<Rightarrow> u8 list \<Rightarrow> nat list \<Rightarrow> u8 list \<Rightarrow> 'f \<Rightarrow> admis \<Rightarrow> (u8 list \<times> 'f \<times> admis) option" where
  "file_rows fs im cpu sn period ex [] st fp s = Some (st, fp, s)"
| "file_rows fs im cpu sn period ex (k # ks) st fp s =
     do {
       (st, fp) \<leftarrow> read_into fs (4 * ((sn + 1) * k)) (4 * sn) st fp;
       st \<leftarrow> word_put ((sn + 1) * (k + 1) - 1) (of_nat (k + 1) * period) st;
       s \<leftarrow> queue_row im cpu ((sn + 1) * k) st ex [0..<sn] s;
       file_rows fs im cpu sn period ex ks st fp s
     }"

text \<open>\<open>td\<close> is the structure \<^verbatim>\<open>timed_data\<close>: period, number of sections, frequency, offset of the times, CPU and an unused pointer.\<close>

definition file_thread ::
  "'f fatfs \<Rightarrow> admis_image \<Rightarrow> junk \<Rightarrow> u8 \<Rightarrow> u8 list \<Rightarrow> 'f \<Rightarrow> (u32 \<Rightarrow> u32) \<Rightarrow> admis \<Rightarrow> (u32 \<times> u8 list \<times> 'f \<times> (u32 \<Rightarrow> u32) \<times> admis) option" where
  "file_thread fs im junk off td fp mx s =
     do {
       (td, fp) \<leftarrow> read_into fs 0 12 td (f_lseek fs (unat off) fp);
       let period = word_at 0 td;
       let sn = td ! 4;
       let fr = td ! 5;
       let time_offset = td ! 6;
       let cpu = ucast (td ! 7);
       let cnt = start_time_cnt fr sn;
       (sta, s) \<leftarrow> vol_malloc_a im (4 * ucast cnt) s;
       (exa, s) \<leftarrow> vol_malloc_a im (4 * ucast sn) s;
       (route, s) \<leftarrow> vol_malloc_a im (ucast sn * 4) s;
       (args, s) \<leftarrow> vol_malloc_a im (ucast sn * 4) s;
       (ex, fp) \<leftarrow> read_into fs 0 (4 * unat sn) (fresh_mem junk exa (4 * unat sn)) (f_lseek fs (unat time_offset) fp);
       (st, fp, s) \<leftarrow> file_rows fs im cpu (unat sn) period ex [0..<unat fr] (fresh_mem junk sta (4 * unat cnt)) fp s;
       mx \<leftarrow> max_exe cpu ex [0..<unat sn] mx;
       (tid, s) \<leftarrow> create_timed im cpu sn fr st route args s;
       Some (tid, td, fp, mx, s)
     }"

fun file_threads ::
  "'f fatfs \<Rightarrow> admis_image \<Rightarrow> junk \<Rightarrow> u8 list \<Rightarrow> u8 list \<Rightarrow> 'f \<Rightarrow> (u32 \<Rightarrow> u32) \<Rightarrow> admis \<Rightarrow> (u32 list \<times> (u32 \<Rightarrow> u32) \<times> admis) option" where
  "file_threads fs im junk [] td fp mx s = Some ([], mx, s)"
| "file_threads fs im junk (off # offs) td fp mx s =
     do {
       (tid, td, fp, mx, s) \<leftarrow> file_thread fs im junk off td fp mx s;
       (ids, mx, s) \<leftarrow> file_threads fs im junk offs td fp mx s;
       Some (tid # ids, mx, s)
     }"

text \<open>\<open>td\<close> is what the structure holds before it is read.\<close>

definition timed_decode ::
  "'f fatfs \<Rightarrow> admis_image \<Rightarrow> junk \<Rightarrow> bool \<Rightarrow> u8 list \<Rightarrow> u8 list \<Rightarrow> admis \<Rightarrow> (u32 list \<times> admis) option" where
  "timed_decode fs im junk enabled td filename s =
     (let s = timed_time_init s in
      case f_open fs filename of None \<Rightarrow> Some ([], s)
      | Some fp \<Rightarrow>
        do {
          (buff, fp) \<leftarrow> read_into fs 0 4 (replicate 4 0) fp;
          if \<not> timed_test buff then Some ([], s)
          else do {
            (hp, fp) \<leftarrow> read_into fs 0 (4 * CFG_MAX_CPU) (concat (map (\<lambda>i. le_bytes (timed_h_period s (of_nat i))) [0..<CFG_MAX_CPU])) fp;
            let s = s\<lparr>timed_h_period := (\<lambda>i. if unat i < CFG_MAX_CPU then word_at (unat i) hp else timed_h_period s i)\<rparr>;
            (buff, fp) \<leftarrow> read_into fs 0 1 buff fp;
            let n = unat (buff ! 0);
            (oa, s) \<leftarrow> vol_malloc_a im (of_nat n) s;
            (_, s) \<leftarrow> vol_malloc_a im (of_nat n * 4) s;
            (offs, fp) \<leftarrow> read_into fs 0 n (fresh_mem junk oa n) (f_lseek fs 16 fp);
            (ids, mx, s) \<leftarrow> file_threads fs im junk offs td fp (\<lambda>_. 0) s;
            s \<leftarrow> admis_start im enabled mx s;
            Some (ids, s)
          }
        })"

end
