(* ===== verification/Timed_Table_Props.thy ===== *)
theory Timed_Table_Props
  imports Timed_Table Admis_Props Volmem_Props
begin

text \<open>
  Properties of the decoders of timed threads: what the file holds is what the table of start times and the queue of sections get;
  the decoder of tables in memory writes outside its table for threads with more sections than runs.
\<close>

section \<open>Words in a buffer\<close>

definition enc :: "u32 list \<Rightarrow> u8 list" where
  "enc ws = concat (map le_bytes ws)"

lemma enc_simps [simp]: "enc [] = []" "enc (w # ws) = le_bytes w @ enc ws" "enc (ws @ vs) = enc ws @ enc vs" "length (enc ws) = 4 * length ws"
  by (induction ws) (simp_all add: enc_def)

lemma word_at_enc [simp]: "i < length ws \<Longrightarrow> word_at i (enc ws @ bs) = ws ! i"
  by (induction ws arbitrary: i) (auto simp: less_Suc_eq_0_disj)

lemma word_get_enc: "i < length ws \<Longrightarrow> word_get i (enc ws @ bs) = Some (ws ! i)"
  by (simp add: word_get_def)

lemma write_at_enc:
  assumes "length bs \<le> length cs"
  shows "write_at (4 * length ws) bs (enc ws @ cs) = Some (enc ws @ bs @ drop (length bs) cs)"
  using assms by (simp add: write_at_def)

lemma table_words_enc [simp]: "table_words (enc ws) = ws"
  using word_at_enc [of _ ws "[]"] by (intro nth_equalityI) (simp_all add: table_words_def)

section \<open>Files\<close>

text \<open>What the decoder relies on: a read returns the bytes at the position, as many as asked for unless the file ends, and advances.\<close>

definition reads_file :: "nat fatfs \<Rightarrow> u8 list \<Rightarrow> bool" where
  "reads_file fs c \<longleftrightarrow> (\<forall>n p. p \<le> length c \<longrightarrow> f_read fs n p = (take n (drop p c), min (p + n) (length c)))"

text \<open>The sections of a list, queued in order.\<close>

fun queue_list :: "admis_image \<Rightarrow> u32 \<Rightarrow> (u32 \<times> u32) list \<Rightarrow> aop" where
  "queue_list im cpu [] s = Some s"
| "queue_list im cpu ((start, exe) # xs) s = do { s \<leftarrow> queue_section im cpu start exe s; queue_list im cpu xs s }"

lemma queue_list_append: "queue_list im cpu (xs @ ys) s = do { s \<leftarrow> queue_list im cpu xs s; queue_list im cpu ys s }"
  by (induction xs arbitrary: s) (auto simp: bind_assoc cong: Option.bind_cong)

lemma queue_row_list:
  assumes "set js \<subseteq> {..<length row}" "length exes = length row"
  shows "queue_row im cpu (length ws) (enc (ws @ row) @ bs) (enc exes) js s = queue_list im cpu (map (\<lambda>j. (row ! j, exes ! j)) js) s"
  using assms(1)
proof (induction js arbitrary: s)
  case (Cons j js)
  have "word_get (length ws + j) (enc (ws @ row) @ bs) = Some (row ! j)"
    using word_get_enc [of "length ws + j" "ws @ row" bs] Cons.prems by (simp add: nth_append)
  moreover have "word_get j (enc exes) = Some (exes ! j)" using word_get_enc [of j exes "[]"] Cons.prems assms(2) by simp
  ultimately show ?case using Cons by (simp del: enc_simps(3) cong: Option.bind_cong)
qed simp

text \<open>The table: each row of start times is closed by the end of its period.\<close>

fun start_table :: "u32 \<Rightarrow> nat \<Rightarrow> u32 list list \<Rightarrow> u32 list" where
  "start_table period k [] = []"
| "start_table period k (row # rows) = row @ (of_nat (k + 1) * period) # start_table period (k + 1) rows"

lemma file_rows_spec:
  assumes "reads_file fs c" "p \<le> length c" "drop p c = enc (concat rows) @ cs" "\<forall>row \<in> set rows. length row = sn" "length exes = sn"
    "length ws = (sn + 1) * k" "length bs = 4 * ((sn + 1) * length rows)"
  shows "file_rows fs im cpu sn period (enc exes) [k..<k + length rows] (enc ws @ bs) p s =
    map_option (\<lambda>s. (enc (ws @ start_table period k rows), p + 4 * sn * length rows, s)) (queue_list im cpu (concat (map (\<lambda>row. zip row exes) rows)) s)"
  using assms(2-4,6,7)
proof (induction rows arbitrary: k ws bs p s)
  case (Cons row rows)
  have row: "length row = sn" using Cons.prems(3) by simp
  have len: "p + 4 * sn \<le> length c" using arg_cong [OF Cons.prems(2), of length] Cons.prems(1) row by simp
  have read: "f_read fs (4 * sn) p = (enc row, p + 4 * sn)"
    using assms(1) Cons.prems(1,2) row len by (simp add: reads_file_def)
  have drop': "drop (p + 4 * sn) c = enc (concat rows) @ cs"
    using arg_cong [OF Cons.prems(2), of "drop (4 * sn)"] row by (simp add: add.commute)
  let ?w = "of_nat (k + 1) * period :: u32"
  have st1: "read_into fs (4 * ((sn + 1) * k)) (4 * sn) (enc ws @ bs) p = Some (enc (ws @ row) @ drop (4 * sn) bs, p + 4 * sn)"
    using write_at_enc [of "enc row" bs ws] Cons.prems(4,5) row by (simp add: read_into_def read)
  have st2: "word_put ((sn + 1) * (k + 1) - 1) ?w (enc (ws @ row) @ drop (4 * sn) bs) = Some (enc (ws @ row @ [?w]) @ drop (4 * (sn + 1)) bs)"
    using write_at_enc [of "le_bytes ?w" "drop (4 * sn) bs" "ws @ row"] Cons.prems(4,5) row by (simp add: word_put_def ac_simps)
  have q: "queue_row im cpu ((sn + 1) * k) (enc (ws @ row @ [?w]) @ drop (4 * (sn + 1)) bs) (enc exes) [0..<sn] s = queue_list im cpu (zip row exes) s" for s
  proof -
    have "map (\<lambda>j. (row ! j, exes ! j)) [0..<sn] = zip row exes" using row assms(5) by (intro nth_equalityI) simp_all
    then show ?thesis
      using queue_row_list [of "[0..<sn]" row exes im cpu ws "le_bytes ?w @ drop (4 * (sn + 1)) bs" s] Cons.prems(4) row assms(5) by (simp add: atLeast0LessThan)
  qed
  have IH: "file_rows fs im cpu sn period (enc exes) [Suc k..<Suc k + length rows] (enc (ws @ row @ [?w]) @ drop (4 * (sn + 1)) bs) (p + 4 * sn) s =
      map_option (\<lambda>s. (enc ((ws @ row @ [?w]) @ start_table period (Suc k) rows), p + 4 * sn + 4 * sn * length rows, s))
        (queue_list im cpu (concat (map (\<lambda>row. zip row exes) rows)) s)" for s
    by (rule Cons.IH [OF _ drop']) (use Cons.prems row len in simp_all)
  have "[k..<k + length (row # rows)] = k # [Suc k..<Suc k + length rows]" by (simp add: upt_rec)
  then have "file_rows fs im cpu sn period (enc exes) [k..<k + length (row # rows)] (enc ws @ bs) p s =
      do { s \<leftarrow> queue_list im cpu (zip row exes) s;
           map_option (\<lambda>s. (enc ((ws @ row @ [?w]) @ start_table period (Suc k) rows), p + 4 * sn + 4 * sn * length rows, s))
             (queue_list im cpu (concat (map (\<lambda>row. zip row exes) rows)) s) }"
    by (simp only: file_rows.simps st1 st2 q IH [abs_def] bind.bind_lunit prod.case)
  then show ?case by (simp add: queue_list_append map_option_bind comp_def algebra_simps del: upt.simps)
qed simp

text \<open>C21. The loop over the runs of a timed thread decodes its rows of start times: for a file that holds the rows behind the position,
  the table gets the rows, each closed by the end of its period, and the sections of all rows enter the queue of the CPU in order, each with
  its execution time. Nothing else can keep the loop from returning.\<close>

theorem timed_rows_decoded:
  assumes "reads_file fs c" "p \<le> length c" "drop p c = enc (concat rows) @ cs" "\<forall>row \<in> set rows. length row = sn" "length exes = sn"
    "length st = 4 * ((sn + 1) * length rows)"
  shows "map_option (\<lambda>(st, fp, s). (table_words st, s)) (file_rows fs im cpu sn period (enc exes) [0..<length rows] st p s) =
    map_option (\<lambda>s. (start_table period 0 rows, s)) (queue_list im cpu (concat (map (\<lambda>row. zip row exes) rows)) s)"
  using file_rows_spec [OF assms(1-5), of "[]" 0 st] assms(6) by (simp add: option.map_comp comp_def)

text \<open>A file that is a list of bytes, and a thread with one section that starts at 5 and takes 2 of a period of 10.\<close>

definition byte_file :: "u8 list \<Rightarrow> nat fatfs" where
  "byte_file c = \<lparr>f_open = (\<lambda>_. Some 0), f_read = (\<lambda>n p. (take n (drop p c), min (p + n) (length c))), f_lseek = (\<lambda>n _. n)\<rparr>"

definition ex_table :: admis where
  "ex_table = ex_admis\<lparr>ak := ex_kernel\<lparr>vol := \<lparr>top_p = 0x9000, down_p = 0x1000, freep_p = 0x1000, mem_state = True,
     words = (\<lambda>_. 0)(0x1000 := header False 0x8000)\<rparr>\<rparr>\<rparr>"

definition ex_table_im :: admis_image where
  "ex_table_im = \<lparr>heap_start = 0, heap_end = 0, level_bytes = (\<lambda>_. 0), tcb_size = 0, ipc_size = 0, vol_mutex = 0x300, orig_thread = 0, idle = 0,
     init = 0, init_arg = 0, daem = 0, idle_follow = 0, hooks_run = (\<lambda>_ _ s. Some s), list_size = 20, dpcp_size = 40, timed_route = 0\<rparr>"

lemma ex_queue: "map_option (\<lambda>s. map (\<lambda>n. lvalue (aheap s) n) (the (walk (lnext (aheap s)) (TimeQ 0) (lnext (aheap s) (TimeQ 0)))))
    (queue_list ex_table_im 0 [(5, 2)] ex_table) = Some [5, 7]"
  by code_simp

theorem timed_rows_decoded_witness:
  "map_option (\<lambda>(st, fp, s). table_words st)
     (file_rows (byte_file (enc [5])) ex_table_im 0 1 10 (enc [2]) [0] (replicate 8 0) 0 ex_table) = Some [5, 10]"
proof -
  have "reads_file (byte_file (enc [5])) (enc [5])" by (simp add: reads_file_def byte_file_def)
  from timed_rows_decoded [OF this, of 0 "[[5]]" "[]" 1 "[2]" "replicate 8 0" ex_table_im 0 10 ex_table]
  have "map_option (\<lambda>(st, fp, s). (table_words st, s)) (file_rows (byte_file (enc [5])) ex_table_im 0 1 10 (enc [2]) [0] (replicate 8 0) 0 ex_table) =
      map_option (\<lambda>s. ([5, 10], s)) (queue_list ex_table_im 0 [(5, 2)] ex_table)" by simp
  from arg_cong [OF this, of "map_option fst"] ex_queue show ?thesis
    by (auto simp: option.map_comp comp_def case_prod_beta)
qed

section \<open>Where the tables go wrong\<close>

text \<open>The test of the first bytes accepts a file of which a single byte is right.\<close>

theorem timed_test_one_byte: "timed_test [0x3e, b, c, d]"
  by (simp add: timed_test_def)

text \<open>A table in memory with one run and at least two sections: the loop over the sections writes outside the table of start times.\<close>

theorem memory_rows_overrun:
  assumes "2 \<le> unat (tc_section_num t)" "length st = 4 * (unat (tc_section_num t) + 1)"
  shows "memory_rows im t ex [0] st s = None"
proof -
  let ?n = "unat (tc_section_num t)"
  have "fill_starts ?n start [0..<?n] st = None" for start
  proof -
    have u: "[0..<?n] = 0 # 1 # [2..<?n]" using assms(1) by (simp add: upt_conv_Cons numeral_2_eq_2)
    have "word_put ((?n + 1) * 1) start st' = None" if "length st' = length st" for st'
      using that assms(2) by (simp add: word_put_def write_at_def)
    moreover have "length st' = length st" if "word_put 0 start st = Some st'" for st'
      using that by (auto simp: word_put_def write_at_def split: if_splits)
    ultimately show ?thesis unfolding u by (cases "word_put 0 start st") simp_all
  qed
  then show ?thesis by (simp add: Let_def)
qed

text \<open>The number of start times wraps around at 256: the table of a thread with 86 runs of two sections has two entries.\<close>

theorem start_time_cnt_wraps: "start_time_cnt 86 2 = 2"
  by (simp add: start_time_cnt_def)

end
