(* ===== verification/Str.thy ===== *)
theory Str
  imports Prelude "HOL-Library.Sublist"
begin

text \<open>
  The string library (\<^verbatim>\<open>components/tmp/lib/src/str.c\<close>) on a byte memory: a partial map from addresses to bytes. Addresses are
  integers, as the comparison of pointers in the code wants; reading or writing an unmapped address, reading an uninitialised
  variable and a walk along a string that never ends have the value \<open>None\<close>. Plain \<^verbatim>\<open>char\<close> is unsigned on the target. Loops with a
  32-bit counter recurse on that counter.
\<close>

type_synonym bytes = "int \<rightharpoonup> u8"

definition store :: "bytes \<Rightarrow> int \<Rightarrow> u8 \<Rightarrow> bytes option" where
  "store m a v = (if m a = None then None else Some (m(a \<mapsto> v)))"

section \<open>Letters\<close>

definition IS_LOWER :: "u8 \<Rightarrow> bool" where "IS_LOWER c \<longleftrightarrow> 97 \<le> c \<and> c \<le> 122"
definition IS_UPPER :: "u8 \<Rightarrow> bool" where "IS_UPPER c \<longleftrightarrow> 65 \<le> c \<and> c \<le> 90"

definition acoral_tolower :: "u8 \<Rightarrow> u8" where
  "acoral_tolower c = (if IS_LOWER c then c else if IS_UPPER c then c + 32 else 0)"

definition acoral_toupper :: "u8 \<Rightarrow> u8" where
  "acoral_toupper c = (if IS_LOWER c then c - 32 else if IS_UPPER c then c else 0)"

partial_function (option) upr_loop :: "bytes \<Rightarrow> int \<Rightarrow> u32 \<Rightarrow> bytes option" where
  "upr_loop m s i =
     do {
       c \<leftarrow> m (s + uint i);
       if c = 0 then Some m
       else do {
         m \<leftarrow> (if IS_LOWER c then store m (s + uint i) (c - 32) else Some m);
         upr_loop m s (i + 1)
       }
     }"

definition acoral_str_upr :: "bytes \<Rightarrow> int \<Rightarrow> bytes option" where
  "acoral_str_upr m s = upr_loop m s 0"

partial_function (option) lwr_loop :: "bytes \<Rightarrow> int \<Rightarrow> u32 \<Rightarrow> bytes option" where
  "lwr_loop m s i =
     do {
       c \<leftarrow> m (s + uint i);
       if c = 0 then Some m
       else do {
         m \<leftarrow> (if IS_UPPER c then store m (s + uint i) (c + 32) else Some m);
         lwr_loop m s (i + 1)
       }
     }"

definition acoral_str_lwr :: "bytes \<Rightarrow> int \<Rightarrow> bytes option" where
  "acoral_str_lwr m s = lwr_loop m s 0"

section \<open>Lengths and copies\<close>

partial_function (option) len_loop :: "bytes \<Rightarrow> int \<Rightarrow> u32 \<Rightarrow> u32 option" where
  "len_loop m p i = do { c \<leftarrow> m p; if c = 0 then Some i else len_loop m (p + 1) (i + 1) }"

definition acoral_str_len :: "bytes \<Rightarrow> int \<Rightarrow> u32 option" where
  "acoral_str_len m s = len_loop m s 0"

fun nlen_loop :: "bytes \<Rightarrow> int \<Rightarrow> nat \<Rightarrow> int option" where
  "nlen_loop m sc 0 = Some sc"
| "nlen_loop m sc (Suc n) = do { c \<leftarrow> m sc; if c = 0 then Some sc else nlen_loop m (sc + 1) n }"

definition acoral_str_nlen :: "bytes \<Rightarrow> int \<Rightarrow> u32 \<Rightarrow> u32 option" where
  "acoral_str_nlen m s count = do { sc \<leftarrow> nlen_loop m s (unat count); Some (word_of_int (sc - s)) }"

text \<open>The copying operations return the destination; only the memory is modelled.\<close>

partial_function (option) acoral_str_cpy :: "bytes \<Rightarrow> int \<Rightarrow> int \<Rightarrow> bytes option" where
  "acoral_str_cpy m to from =
     do {
       c \<leftarrow> m from;
       m \<leftarrow> store m to c;
       if c = 0 then Some m else acoral_str_cpy m (to + 1) (from + 1)
     }"

fun ncpy_loop :: "bytes \<Rightarrow> int \<Rightarrow> int \<Rightarrow> nat \<Rightarrow> bytes option" where
  "ncpy_loop m tmp src 0 = store m tmp 0"
| "ncpy_loop m tmp src (Suc n) =
     do { c \<leftarrow> m src; m \<leftarrow> store m tmp c; if c = 0 then Some m else ncpy_loop m (tmp + 1) (src + 1) n }"

definition acoral_str_ncpy :: "bytes \<Rightarrow> int \<Rightarrow> int \<Rightarrow> u32 \<Rightarrow> bytes option" where
  "acoral_str_ncpy m dest src count = ncpy_loop m dest src (unat count)"

fun memcpy_loop :: "bytes \<Rightarrow> int \<Rightarrow> int \<Rightarrow> nat \<Rightarrow> bytes option" where
  "memcpy_loop m tmp s 0 = Some m"
| "memcpy_loop m tmp s (Suc n) = do { c \<leftarrow> m s; m \<leftarrow> store m tmp c; memcpy_loop m (tmp + 1) (s + 1) n }"

definition acoral_memcpy :: "bytes \<Rightarrow> int \<Rightarrow> int \<Rightarrow> u32 \<Rightarrow> bytes option" where
  "acoral_memcpy m dest src count = memcpy_loop m dest src (unat count)"

fun back_loop :: "bytes \<Rightarrow> int \<Rightarrow> int \<Rightarrow> nat \<Rightarrow> bytes option" where
  "back_loop m tmp s 0 = Some m"
| "back_loop m tmp s (Suc n) = do { c \<leftarrow> m (s - 1); m \<leftarrow> store m (tmp - 1) c; back_loop m (tmp - 1) (s - 1) n }"

definition acoral_memmove :: "bytes \<Rightarrow> int \<Rightarrow> int \<Rightarrow> u32 \<Rightarrow> bytes option" where
  "acoral_memmove m dest src count =
     (if dest \<le> src then memcpy_loop m dest src (unat count)
      else back_loop m (dest + uint count) (src + uint count) (unat count))"

fun memset_loop :: "bytes \<Rightarrow> int \<Rightarrow> u8 \<Rightarrow> nat \<Rightarrow> bytes option" where
  "memset_loop m xs c 0 = Some m"
| "memset_loop m xs c (Suc n) = do { m \<leftarrow> store m xs c; memset_loop m (xs + 1) c n }"

definition acoral_memset :: "bytes \<Rightarrow> int \<Rightarrow> int \<Rightarrow> u32 \<Rightarrow> bytes option" where
  "acoral_memset m s c count = memset_loop m s (word_of_int c) (unat count)"

definition acoral_str_lcpy :: "bytes \<Rightarrow> int \<Rightarrow> int \<Rightarrow> u32 \<Rightarrow> (u32 \<times> bytes) option" where
  "acoral_str_lcpy m dest src sz =
     do {
       ret \<leftarrow> acoral_str_len m src;
       if sz = 0 then Some (ret, m)
       else do {
         let len = (if ret \<ge> sz then sz - 1 else ret);
         m \<leftarrow> acoral_memcpy m dest src len;
         m \<leftarrow> store m (dest + uint len) 0;
         Some (ret, m)
       }
     }"

section \<open>Concatenation\<close>

partial_function (option) str_end :: "bytes \<Rightarrow> int \<Rightarrow> int option" where
  "str_end m dest = do { c \<leftarrow> m dest; if c = 0 then Some dest else str_end m (dest + 1) }"

definition acoral_str_cat :: "bytes \<Rightarrow> int \<Rightarrow> int \<Rightarrow> bytes option" where
  "acoral_str_cat m dest src = do { e \<leftarrow> str_end m dest; acoral_str_cpy m e src }"

text \<open>The number is what is left of \<^verbatim>\<open>count\<close> after the next decrement.\<close>

fun ncat_loop :: "bytes \<Rightarrow> int \<Rightarrow> int \<Rightarrow> nat \<Rightarrow> bytes option" where
  "ncat_loop m dest src 0 =
     do { c \<leftarrow> m src; m \<leftarrow> store m dest c; if c = 0 then Some m else store m (dest + 1) 0 }"
| "ncat_loop m dest src (Suc n) =
     do { c \<leftarrow> m src; m \<leftarrow> store m dest c; if c = 0 then Some m else ncat_loop m (dest + 1) (src + 1) n }"

definition acoral_str_ncat :: "bytes \<Rightarrow> int \<Rightarrow> int \<Rightarrow> u32 \<Rightarrow> bytes option" where
  "acoral_str_ncat m dest src count =
     (if count = 0 then Some m else do { e \<leftarrow> str_end m dest; ncat_loop m e src (unat count - 1) })"

definition acoral_str_lcat :: "bytes \<Rightarrow> int \<Rightarrow> int \<Rightarrow> u32 \<Rightarrow> (u32 \<times> bytes) option" where
  "acoral_str_lcat m dest src count =
     do {
       dsize \<leftarrow> acoral_str_len m dest;
       len \<leftarrow> acoral_str_len m src;
       let res = dsize + len;
       let dest = dest + uint dsize;
       let count = count - dsize;
       let len = (if len \<ge> count then count - 1 else len);
       m \<leftarrow> acoral_memcpy m dest src len;
       m \<leftarrow> store m (dest + uint len) 0;
       Some (res, m)
     }"

section \<open>Comparison\<close>

text \<open>For two empty strings the code returns a variable it never assigned: \<open>None\<close>.\<close>

partial_function (option) cmp_loop :: "bytes \<Rightarrow> int \<Rightarrow> int \<Rightarrow> u32 option \<Rightarrow> u32 option" where
  "cmp_loop m des src c =
     do {
       d \<leftarrow> m des;
       if d = 0 then c
       else do {
         x \<leftarrow> m src;
         let c = (ucast d - ucast x :: u32);
         if c \<noteq> 0 then Some c else cmp_loop m (des + 1) (src + 1) (Some c)
       }
     }"

definition acoral_str_cmp :: "bytes \<Rightarrow> int \<Rightarrow> int \<Rightarrow> u32 option" where
  "acoral_str_cmp m des src =
     (if des = 0 \<or> src = 0 then Some (- 1)
      else do {
        len1 \<leftarrow> acoral_str_len m des;
        len2 \<leftarrow> acoral_str_len m src;
        if len1 \<noteq> len2 then Some (len1 - len2) else cmp_loop m des src None
      })"

fun nicmp_loop :: "bytes \<Rightarrow> int \<Rightarrow> int \<Rightarrow> nat \<Rightarrow> u8 \<Rightarrow> u8 \<Rightarrow> (u8 \<times> u8) option" where
  "nicmp_loop m s1 s2 0 c1 c2 = Some (c1, c2)"
| "nicmp_loop m s1 s2 (Suc n) _ _ =
     do {
       c1 \<leftarrow> m s1;
       c2 \<leftarrow> m s2;
       if c1 = 0 \<or> c2 = 0 then Some (c1, c2)
       else if c1 = c2 then nicmp_loop m (s1 + 1) (s2 + 1) n c1 c2
       else if acoral_tolower c1 \<noteq> acoral_tolower c2 then Some (acoral_tolower c1, acoral_tolower c2)
       else nicmp_loop m (s1 + 1) (s2 + 1) n (acoral_tolower c1) (acoral_tolower c2)
     }"

definition acoral_str_nicmp :: "bytes \<Rightarrow> int \<Rightarrow> int \<Rightarrow> u32 \<Rightarrow> int option" where
  "acoral_str_nicmp m s1 s2 len = do { (c1, c2) \<leftarrow> nicmp_loop m s1 s2 (unat len) 0 0; Some (uint c1 - uint c2) }"

fun ncmp_loop :: "bytes \<Rightarrow> int \<Rightarrow> int \<Rightarrow> nat \<Rightarrow> int \<Rightarrow> int option" where
  "ncmp_loop m cs ct 0 res = Some res"
| "ncmp_loop m cs ct (Suc n) _ =
     do {
       a \<leftarrow> m cs;
       b \<leftarrow> m ct;
       let res = s8 (uint a - uint b);
       if res \<noteq> 0 \<or> a = 0 then Some res else ncmp_loop m (cs + 1) (ct + 1) n res
     }"

definition acoral_str_ncmp :: "bytes \<Rightarrow> int \<Rightarrow> int \<Rightarrow> u32 \<Rightarrow> int option" where
  "acoral_str_ncmp m cs ct count = ncmp_loop m cs ct (unat count) 0"

fun memcmp_loop :: "bytes \<Rightarrow> int \<Rightarrow> int \<Rightarrow> nat \<Rightarrow> int option" where
  "memcmp_loop m su1 su2 0 = Some 0"
| "memcmp_loop m su1 su2 (Suc n) =
     do {
       a \<leftarrow> m su1;
       b \<leftarrow> m su2;
       let res = uint a - uint b;
       if res \<noteq> 0 then Some res else memcmp_loop m (su1 + 1) (su2 + 1) n
     }"

definition acoral_memcmp :: "bytes \<Rightarrow> int \<Rightarrow> int \<Rightarrow> u32 \<Rightarrow> int option" where
  "acoral_memcmp m cs ct count = memcmp_loop m cs ct (unat count)"

declare upr_loop.simps [code] and lwr_loop.simps [code] and len_loop.simps [code] and acoral_str_cpy.simps [code] and str_end.simps [code] and cmp_loop.simps [code]

end
