(* ===== verification/Strfind.thy ===== *)
theory Strfind
  imports Str
begin

text \<open>
  The searching operations of the string library (\<^verbatim>\<open>components/tmp/lib/src/str.c\<close>). Positions that the code counts from 1
  (0 for nothing found) are kept so; pointers are addresses with \<open>0\<close> for \<^verbatim>\<open>NULL\<close>. An argument of type \<^verbatim>\<open>acoral_32\<close> is an integer, cast to a
  byte where the code does.
\<close>

section \<open>Characters\<close>

partial_function (option) chr_loop :: "bytes \<Rightarrow> int \<Rightarrow> u8 \<Rightarrow> u32 \<Rightarrow> u32 option" where
  "chr_loop m s c pos =
     do {
       x \<leftarrow> m s;
       if x = c then Some pos else if x = 0 then Some 0 else chr_loop m (s + 1) c (pos + 1)
     }"

definition acoral_str_chr :: "bytes \<Rightarrow> int \<Rightarrow> int \<Rightarrow> int option" where
  "acoral_str_chr m s c = map_option sint (chr_loop m s (word_of_int c) 1)"

partial_function (option) rchr_loop :: "bytes \<Rightarrow> int \<Rightarrow> int \<Rightarrow> u8 \<Rightarrow> u32 \<Rightarrow> u32 option" where
  "rchr_loop m s p c pos =
     do {
       x \<leftarrow> m p;
       if x = c then Some pos
       else if p - 1 \<ge> s then rchr_loop m s (p - 1) c (pos - 1)
       else Some 0
     }"

text \<open>For an empty string the code first reads the byte in front of the string.\<close>

definition acoral_str_rchr :: "bytes \<Rightarrow> int \<Rightarrow> int \<Rightarrow> int option" where
  "acoral_str_rchr m s c =
     do {
       pos \<leftarrow> acoral_str_len m s;
       r \<leftarrow> rchr_loop m s (s + uint pos - 1) (word_of_int c) pos;
       Some (sint r)
     }"

fun nchr_loop :: "bytes \<Rightarrow> int \<Rightarrow> nat \<Rightarrow> u8 \<Rightarrow> u32 \<Rightarrow> u32 option" where
  "nchr_loop m s 0 c pos = Some 0"
| "nchr_loop m s (Suc n) c pos =
     do {
       x \<leftarrow> m s;
       if x = 0 then Some 0 else if x = c then Some pos else nchr_loop m (s + 1) n c (pos + 1)
     }"

definition acoral_str_nchr :: "bytes \<Rightarrow> int \<Rightarrow> u32 \<Rightarrow> int \<Rightarrow> int option" where
  "acoral_str_nchr m s count c = map_option sint (nchr_loop m s (unat count) (word_of_int c) 1)"

fun memscan_loop :: "bytes \<Rightarrow> int \<Rightarrow> int \<Rightarrow> nat \<Rightarrow> int option" where
  "memscan_loop m p c 0 = Some p"
| "memscan_loop m p c (Suc n) = do { x \<leftarrow> m p; if uint x = c then Some p else memscan_loop m (p + 1) c n }"

definition acoral_memscan :: "bytes \<Rightarrow> int \<Rightarrow> int \<Rightarrow> u32 \<Rightarrow> int option" where
  "acoral_memscan m addr c sz = memscan_loop m addr c (unat sz)"

fun memchr_loop :: "bytes \<Rightarrow> int \<Rightarrow> u8 \<Rightarrow> nat \<Rightarrow> int option" where
  "memchr_loop m p c 0 = Some 0"
| "memchr_loop m p c (Suc n) = do { x \<leftarrow> m p; if c = x then Some p else memchr_loop m (p + 1) c n }"

definition acoral_memchr :: "bytes \<Rightarrow> int \<Rightarrow> int \<Rightarrow> u32 \<Rightarrow> int option" where
  "acoral_memchr m s c n = memchr_loop m s (word_of_int c) (unat n)"

section \<open>Sets of characters\<close>

text \<open>The inner loops of \<^verbatim>\<open>acoral_str_spn\<close>, \<^verbatim>\<open>acoral_str_cspn\<close> and \<^verbatim>\<open>acoral_str_pbrk\<close>: is the character in the string?\<close>

partial_function (option) char_in :: "bytes \<Rightarrow> u8 \<Rightarrow> int \<Rightarrow> bool option" where
  "char_in m x a = do { y \<leftarrow> m a; if y = 0 then Some False else if x = y then Some True else char_in m x (a + 1) }"

partial_function (option) spn_loop :: "bytes \<Rightarrow> int \<Rightarrow> int \<Rightarrow> u32 \<Rightarrow> u32 option" where
  "spn_loop m p accept count =
     do {
       x \<leftarrow> m p;
       if x = 0 then Some count
       else do { b \<leftarrow> char_in m x accept; if \<not> b then Some count else spn_loop m (p + 1) accept (count + 1) }
     }"

definition acoral_str_spn :: "bytes \<Rightarrow> int \<Rightarrow> int \<Rightarrow> u32 option" where
  "acoral_str_spn m s accept = spn_loop m s accept 0"

partial_function (option) cspn_loop :: "bytes \<Rightarrow> int \<Rightarrow> int \<Rightarrow> u32 \<Rightarrow> u32 option" where
  "cspn_loop m p reject count =
     do {
       x \<leftarrow> m p;
       if x = 0 then Some count
       else do { b \<leftarrow> char_in m x reject; if b then Some count else cspn_loop m (p + 1) reject (count + 1) }
     }"

definition acoral_str_cspn :: "bytes \<Rightarrow> int \<Rightarrow> int \<Rightarrow> u32 option" where
  "acoral_str_cspn m s reject = cspn_loop m s reject 0"

partial_function (option) acoral_str_pbrk :: "bytes \<Rightarrow> int \<Rightarrow> int \<Rightarrow> int option" where
  "acoral_str_pbrk m sc1 ct =
     do {
       x \<leftarrow> m sc1;
       if x = 0 then Some 0
       else do { b \<leftarrow> char_in m x ct; if b then Some sc1 else acoral_str_pbrk m (sc1 + 1) ct }
     }"

text \<open>The first component is the token, the second the new value of the pointer \<^verbatim>\<open>*s\<close>.\<close>

definition acoral_str_sep :: "bytes \<Rightarrow> int \<Rightarrow> int \<Rightarrow> (int \<times> int \<times> bytes) option" where
  "acoral_str_sep m sbegin ct =
     (if sbegin = 0 then Some (0, sbegin, m)
      else do {
        e \<leftarrow> acoral_str_pbrk m sbegin ct;
        if e \<noteq> 0 then do { m \<leftarrow> store m e 0; Some (sbegin, e + 1, m) }
        else Some (sbegin, 0, m)
      })"

section \<open>Substrings\<close>

function strstr_loop :: "bytes \<Rightarrow> int \<Rightarrow> int \<Rightarrow> int \<Rightarrow> int \<Rightarrow> int option" where
  "strstr_loop m s1 s2 l1 l2 =
     (if l1 \<ge> l2 then
        do {
          r \<leftarrow> acoral_memcmp m s1 s2 (word_of_int l2);
          if r = 0 then Some s1 else strstr_loop m (s1 + 1) s2 (l1 - 1) l2
        }
      else Some 0)"
  by pat_completeness auto
termination by (relation "measure (\<lambda>(m, s1, s2, l1, l2). nat (l1 - l2 + 1))") auto

declare strstr_loop.simps [simp del]

definition acoral_strstr :: "bytes \<Rightarrow> int \<Rightarrow> int \<Rightarrow> int option" where
  "acoral_strstr m s1 s2 =
     do {
       l2 \<leftarrow> acoral_str_len m s2;
       if l2 = 0 then Some s1
       else do {
         l1 \<leftarrow> acoral_str_len m s1;
         strstr_loop m s1 s2 (sint l1) (sint l2)
       }
     }"

declare chr_loop.simps [code] and rchr_loop.simps [code] and char_in.simps [code] and spn_loop.simps [code] and cspn_loop.simps [code] and acoral_str_pbrk.simps [code]

end
