(* ===== verification/Str_Props.thy ===== *)
theory Str_Props
  imports Strfind
begin

text \<open>
  Properties of the string library: copies of overlapping regions, the search for a substring, the splitting of a string, and the
  corner cases in which an operation differs from its description.
\<close>

section \<open>Regions and strings in memory\<close>

text \<open>All bytes from \<open>a\<close> on, \<open>n\<close> of them, can be accessed.\<close>

definition mapped :: "bytes \<Rightarrow> int \<Rightarrow> nat \<Rightarrow> bool" where
  "mapped m a n \<longleftrightarrow> (\<forall>i. a \<le> i \<and> i < a + int n \<longrightarrow> m i \<noteq> None)"

fun bytes_at :: "bytes \<Rightarrow> int \<Rightarrow> u8 list \<Rightarrow> bool" where
  "bytes_at m a [] = True"
| "bytes_at m a (x # xs) \<longleftrightarrow> m a = Some x \<and> bytes_at m (a + 1) xs"

fun str_at :: "bytes \<Rightarrow> int \<Rightarrow> u8 list \<Rightarrow> bool" where
  "str_at m a [] \<longleftrightarrow> m a = Some 0"
| "str_at m a (x # xs) \<longleftrightarrow> x \<noteq> 0 \<and> m a = Some x \<and> str_at m (a + 1) xs"

lemma mapped_Suc: "mapped m a (Suc n) \<longleftrightarrow> m a \<noteq> None \<and> mapped m (a + 1) n"
proof
  assume *: "m a \<noteq> None \<and> mapped m (a + 1) n"
  have "m i \<noteq> None" if "a \<le> i" "i < a + int (Suc n)" for i
    using * that unfolding mapped_def by (cases "i = a") simp_all
  then show "mapped m a (Suc n)" by (simp add: mapped_def)
qed (simp add: mapped_def)

lemma mapped_Suc_last: "mapped m a (Suc n) \<longleftrightarrow> m (a + int n) \<noteq> None \<and> mapped m a n"
proof
  assume *: "m (a + int n) \<noteq> None \<and> mapped m a n"
  have "m i \<noteq> None" if "a \<le> i" "i < a + int (Suc n)" for i
    using * that unfolding mapped_def by (cases "i = a + int n") simp_all
  then show "mapped m a (Suc n)" by (simp add: mapped_def)
qed (simp add: mapped_def)

lemma mapped_upd: "mapped m a n \<Longrightarrow> mapped (m(b \<mapsto> x)) a n"
  by (simp add: mapped_def)

lemma store_mapped: "m a \<noteq> None \<Longrightarrow> store m a v = Some (m(a \<mapsto> v))"
  by (simp add: store_def)

lemma bytes_at_append: "bytes_at m a (xs @ ys) \<longleftrightarrow> bytes_at m a xs \<and> bytes_at m (a + int (length xs)) ys"
  by (induction xs arbitrary: a) (auto simp: ac_simps)

lemma str_at_append: "str_at m a (xs @ ys) \<longleftrightarrow> 0 \<notin> set xs \<and> bytes_at m a xs \<and> str_at m (a + int (length xs)) ys"
  by (induction xs arbitrary: a) (auto simp: ac_simps)

lemma str_at_bytes: "str_at m a xs \<Longrightarrow> bytes_at m a xs"
  by (induction xs arbitrary: a) auto

lemma bytes_at_upd: "b < a \<or> a + int (length xs) \<le> b \<Longrightarrow> bytes_at (m(b \<mapsto> x)) a xs = bytes_at m a xs"
  by (induction xs arbitrary: a) auto

lemma str_at_upd: "b < a \<Longrightarrow> str_at (m(b \<mapsto> x)) a xs = str_at m a xs"
  by (induction xs arbitrary: a) auto

lemma len_loop_ok: "str_at m a xs \<Longrightarrow> len_loop m a i = Some (i + of_nat (length xs))"
proof (induction xs arbitrary: a i)
  case (Cons x xs)
  have "len_loop m a i = len_loop m (a + 1) (i + 1)" using Cons.prems by (subst len_loop.simps) simp
  then show ?case using Cons.IH [of "a + 1" "i + 1"] Cons.prems by simp
qed (subst len_loop.simps, simp)

lemma str_len_ok: "str_at m a xs \<Longrightarrow> acoral_str_len m a = Some (of_nat (length xs))"
  by (simp add: acoral_str_len_def len_loop_ok)

section \<open>Copies\<close>

lemma memcpy_loop_ok:
  "mapped m dest n \<Longrightarrow> mapped m src n \<Longrightarrow> dest \<le> src \<or> src + int n \<le> dest \<Longrightarrow>
   memcpy_loop m dest src n = Some (\<lambda>a. if dest \<le> a \<and> a < dest + int n then m (src + (a - dest)) else m a)"
proof (induction n arbitrary: m dest src)
  case (Suc n)
  obtain c where c: "m src = Some c" using Suc.prems(2) unfolding mapped_Suc by blast
  let ?m = "m(dest \<mapsto> c)"
  have d: "m dest \<noteq> None" using Suc.prems(1) unfolding mapped_Suc by blast
  have "memcpy_loop ?m (dest + 1) (src + 1) n =
      Some (\<lambda>a. if dest + 1 \<le> a \<and> a < dest + 1 + int n then ?m (src + 1 + (a - (dest + 1))) else ?m a)"
    using Suc.prems by (intro Suc.IH mapped_upd) (auto simp: mapped_Suc)
  also have "(\<lambda>a. if dest + 1 \<le> a \<and> a < dest + 1 + int n then ?m (src + 1 + (a - (dest + 1))) else ?m a) =
      (\<lambda>a. if dest \<le> a \<and> a < dest + int (Suc n) then m (src + (a - dest)) else m a)"
    using Suc.prems(3) c by (intro ext) auto
  finally show ?case by (simp add: c store_mapped [of m dest, OF d] fun_upd_def)
qed (simp, rule ext, auto)

lemma back_loop_ok:
  "mapped m dest n \<Longrightarrow> mapped m src n \<Longrightarrow> src < dest \<Longrightarrow>
   back_loop m (dest + int n) (src + int n) n = Some (\<lambda>a. if dest \<le> a \<and> a < dest + int n then m (src + (a - dest)) else m a)"
proof (induction n arbitrary: m)
  case (Suc n)
  obtain c where c: "m (src + int n) = Some c" using Suc.prems(2) unfolding mapped_Suc_last by blast
  let ?m = "m(dest + int n \<mapsto> c)"
  have d: "m (dest + int n) \<noteq> None" using Suc.prems(1) unfolding mapped_Suc_last by blast
  have "back_loop ?m (dest + int n) (src + int n) n =
      Some (\<lambda>a. if dest \<le> a \<and> a < dest + int n then ?m (src + (a - dest)) else ?m a)"
    using Suc.prems by (intro Suc.IH mapped_upd) (simp_all add: mapped_Suc_last)
  also have "(\<lambda>a. if dest \<le> a \<and> a < dest + int n then ?m (src + (a - dest)) else ?m a) =
      (\<lambda>a. if dest \<le> a \<and> a < dest + int (Suc n) then m (src + (a - dest)) else m a)"
    using Suc.prems(3) c by (intro ext) (auto simp: add.commute)
  finally show ?case by (simp add: c store_mapped [of m "dest + int n", OF d] fun_upd_def add.commute add.left_commute)
qed (simp, rule ext, auto)

lemma memmove_ok:
  assumes "mapped m dest (unat n)" "mapped m src (unat n)"
  shows "acoral_memmove m dest src n = Some (\<lambda>a. if dest \<le> a \<and> a < dest + uint n then m (src + (a - dest)) else m a)"
proof (cases "dest \<le> src")
  case True
  then show ?thesis using memcpy_loop_ok [OF assms] True by (simp add: acoral_memmove_def)
next
  case False
  then show ?thesis using back_loop_ok [OF assms] by (simp add: acoral_memmove_def)
qed

lemma memset_loop_ok:
  "mapped m a n \<Longrightarrow> memset_loop m a c n = Some (\<lambda>i. if a \<le> i \<and> i < a + int n then Some c else m i)"
proof (induction n arbitrary: m a)
  case (Suc n)
  have "memset_loop (m(a \<mapsto> c)) (a + 1) c n = Some (\<lambda>i. if a + 1 \<le> i \<and> i < a + 1 + int n then Some c else (m(a \<mapsto> c)) i)"
    using Suc.prems by (intro Suc.IH mapped_upd) (simp add: mapped_Suc)
  also have "(\<lambda>i. if a + 1 \<le> i \<and> i < a + 1 + int n then Some c else (m(a \<mapsto> c)) i) =
      (\<lambda>i. if a \<le> i \<and> i < a + int (Suc n) then Some c else m i)" by (intro ext) auto
  finally show ?case using Suc.prems by (simp add: mapped_Suc store_mapped fun_upd_def)
qed (simp, rule ext, auto)

text \<open>C39. \<open>acoral_memmove\<close> returns and moves the old contents of the source to the destination, whichever way the two regions
  overlap, and changes nothing else.\<close>

theorem memmove_moves:
  assumes "mapped m dest (unat n)" "mapped m src (unat n)"
  shows "acoral_memmove m dest src n = Some (\<lambda>a. if dest \<le> a \<and> a < dest + uint n then m (src + (a - dest)) else m a)"
  by (rule memmove_ok [OF assms])

definition ex_bytes :: bytes where
  "ex_bytes = [100 \<mapsto> 97, 101 \<mapsto> 98, 102 \<mapsto> 44, 103 \<mapsto> 98, 104 \<mapsto> 99, 105 \<mapsto> 0, 106 \<mapsto> 44, 107 \<mapsto> 0]"

lemma ex_mapped: "mapped ex_bytes 100 3" "mapped ex_bytes 101 3"
  by (simp_all add: mapped_Suc numeral_eq_Suc ex_bytes_def) (simp_all add: mapped_def)

theorem memmove_moves_witness:
  "acoral_memmove ex_bytes 101 100 3 = Some (\<lambda>a. if 101 \<le> a \<and> a < 101 + uint (3 :: u32) then ex_bytes (100 + (a - 101)) else ex_bytes a)"
  using ex_mapped by (intro memmove_moves) simp_all

section \<open>Substrings\<close>

lemma memcmp_loop_ok:
  "bytes_at m a xs \<Longrightarrow> bytes_at m b ys \<Longrightarrow> length xs = length ys \<Longrightarrow>
   \<exists>r. memcmp_loop m a b (length ys) = Some r \<and> (r = 0 \<longleftrightarrow> xs = ys)"
proof (induction xs arbitrary: a b ys)
  case (Cons x xs)
  then obtain y ys' where ys: "ys = y # ys'" by (cases ys) auto
  then show ?case using Cons.IH [of "a + 1" "b + 1" ys'] Cons.prems by (auto simp: word_uint_eq_iff)
qed simp

lemma memcmp_prefix:
  assumes "bytes_at m a xs" "bytes_at m b ys" "length ys \<le> length xs" "length ys < 2 ^ 31"
  shows "\<exists>r. acoral_memcmp m a b (word_of_int (int (length ys))) = Some r \<and> (r = 0 \<longleftrightarrow> prefix ys xs)"
proof -
  obtain us vs where xs: "xs = us @ vs" "length us = length ys" using assms(3) by (metis append_take_drop_id length_take min.absorb2)
  have n: "unat (word_of_int (int (length ys)) :: u32) = length ys"
    using assms(4) by (simp add: unsigned_of_nat take_bit_nat_eq_self)
  obtain r where "memcmp_loop m a b (length ys) = Some r" "r = 0 \<longleftrightarrow> us = ys"
    using memcmp_loop_ok [of m a us b ys] assms(1,2) xs by (auto simp: bytes_at_append)
  moreover have "us = ys \<longleftrightarrow> prefix ys xs" using xs by (auto simp: prefix_def append_eq_append_conv)
  ultimately show ?thesis using n by (simp add: acoral_memcmp_def)
qed

text \<open>The first occurrence of a list in another one.\<close>

fun find_sub :: "u8 list \<Rightarrow> u8 list \<Rightarrow> nat option" where
  "find_sub ys [] = (if ys = [] then Some 0 else None)"
| "find_sub ys (x # xs) = (if prefix ys (x # xs) then Some 0 else map_option Suc (find_sub ys xs))"

lemma find_sub_short: "length xs < length ys \<Longrightarrow> find_sub ys xs = None"
  by (induction xs) (auto dest: prefix_length_le)

lemma find_sub_None: "find_sub ys xs = None \<longleftrightarrow> \<not> sublist ys xs"
  by (induction xs) (auto simp: sublist_Cons_right)

lemma find_sub_Some: "find_sub ys xs = Some k \<Longrightarrow> prefix ys (drop k xs) \<and> (\<forall>j<k. \<not> prefix ys (drop j xs))"
proof (induction xs arbitrary: k)
  case (Cons x xs)
  show ?case
  proof (cases "prefix ys (x # xs)")
    case False
    then obtain k' where k': "find_sub ys xs = Some k'" "k = Suc k'" using Cons.prems by auto
    have "\<not> prefix ys (drop j (x # xs))" if "j < k" for j
      using False Cons.IH [OF k'(1)] that k'(2) by (cases j) auto
    then show ?thesis using Cons.IH [OF k'(1)] k'(2) by simp
  qed (use Cons.prems in simp)
qed (simp split: if_splits)

lemma strstr_loop_ok:
  assumes "bytes_at m b ys" "0 < length ys" "length ys < 2 ^ 31"
  shows "bytes_at m a xs \<Longrightarrow>
    strstr_loop m a b (int (length xs)) (int (length ys)) = Some (case find_sub ys xs of None \<Rightarrow> 0 | Some k \<Rightarrow> a + int k)"
proof (induction xs arbitrary: a)
  case Nil
  then show ?case using assms(2) by (subst strstr_loop.simps) auto
next
  case (Cons x xs)
  show ?case
  proof (cases "length ys \<le> length (x # xs)")
    case True
    obtain r where r: "acoral_memcmp m a b (word_of_int (int (length ys))) = Some r" "r = 0 \<longleftrightarrow> prefix ys (x # xs)"
      using memcmp_prefix [OF Cons.prems assms(1) True assms(3)] by blast
    have tl: "strstr_loop m (a + 1) b (int (length (x # xs)) - 1) (int (length ys)) =
        Some (case find_sub ys xs of None \<Rightarrow> 0 | Some k \<Rightarrow> (a + 1) + int k)"
      using Cons.IH [of "a + 1"] Cons.prems by simp
    show ?thesis
      using True r tl by (subst strstr_loop.simps) (auto split: option.splits)
  next
    case False
    then show ?thesis using find_sub_short [of "x # xs" ys] by (subst strstr_loop.simps) simp
  qed
qed

text \<open>\<open>acoral_strstr\<close> of two strings (shorter than \<open>2 ^ 31\<close> bytes) returns: \<open>NULL\<close> when the second is no substring of the
  first, and otherwise the address at which it occurs first.\<close>

theorem strstr_first_occurrence:
  assumes "str_at m a xs" "str_at m b ys" "length xs < 2 ^ 31" "length ys < 2 ^ 31" "0 < a"
  shows "\<exists>r. acoral_strstr m a b = Some r \<and> (r = 0 \<longleftrightarrow> \<not> sublist ys xs) \<and>
    (\<forall>k. r = a + int k \<longrightarrow> prefix ys (drop k xs) \<and> (\<forall>j<k. \<not> prefix ys (drop j xs)))"
proof (cases "ys = []")
  case True
  then have "acoral_strstr m a b = Some a" using str_len_ok [OF assms(2)] by (simp add: acoral_strstr_def)
  then show ?thesis using True assms(5) by simp
next
  case False
  have len: "sint (of_nat n :: u32) = int n" if "n < 2 ^ 31" for n
    using that by (simp add: signed_of_nat signed_take_bit_eq_if_positive bit_iff_odd take_bit_int_eq_self)
  have "(of_nat (length ys) :: u32) \<noteq> 0" using len [OF assms(4)] False by (metis length_0_conv of_nat_eq_0_iff signed_0)
  then have "acoral_strstr m a b = Some (case find_sub ys xs of None \<Rightarrow> 0 | Some k \<Rightarrow> a + int k)"
    using strstr_loop_ok [OF str_at_bytes [OF assms(2)] _ assms(4) str_at_bytes [OF assms(1)]] False len [OF assms(3)] len [OF assms(4)]
      str_len_ok [OF assms(1)] str_len_ok [OF assms(2)]
    by (simp add: acoral_strstr_def)
  then show ?thesis using find_sub_None [of ys xs] find_sub_Some [of ys xs] assms(5) by (auto split: option.splits)
qed

theorem strstr_first_occurrence_witness:
  "\<exists>r. acoral_strstr (ex_bytes(107 \<mapsto> 98, 108 \<mapsto> 0)) 100 107 = Some r \<and> (r = 0 \<longleftrightarrow> \<not> sublist [98] [97, 98, 44, 98, 99 :: u8]) \<and>
    (\<forall>k. r = 100 + int k \<longrightarrow> prefix [98] (drop k [97, 98, 44, 98, 99 :: u8]) \<and> (\<forall>j<k. \<not> prefix [98] (drop j [97, 98, 44, 98, 99 :: u8])))"
  by (rule strstr_first_occurrence) (simp_all add: ex_bytes_def)

section \<open>Tokens\<close>

lemma char_in_ok: "str_at m a ds \<Longrightarrow> char_in m x a = Some (x \<in> set ds)"
proof (induction ds arbitrary: a)
  case (Cons d ds)
  then show ?case by (subst char_in.simps) auto
qed (subst char_in.simps, simp)

lemma pbrk_ok:
  "str_at m ct ds \<Longrightarrow> str_at m a (xs @ ys) \<Longrightarrow> set xs \<inter> set ds = {} \<Longrightarrow> ys = [] \<or> hd ys \<in> set ds \<Longrightarrow>
   acoral_str_pbrk m a ct = Some (if ys = [] then 0 else a + int (length xs))"
proof (induction xs arbitrary: a)
  case Nil
  then show ?case by (subst acoral_str_pbrk.simps) (cases ys; simp add: char_in_ok)
next
  case (Cons x xs)
  then show ?case using Cons.IH [of "a + 1"] by (subst acoral_str_pbrk.simps) (simp add: char_in_ok)
qed

text \<open>\<open>acoral_str_sep\<close> cuts a string at its first delimiter: the token in front of it is a string of its own at the old
  pointer, and the pointer moves to the rest.\<close>

theorem str_sep_splits:
  assumes "str_at m ct ds" "str_at m s (xs @ d # ys)" "set xs \<inter> set ds = {}" "d \<in> set ds" "0 < s"
  shows "\<exists>m'. acoral_str_sep m s ct = Some (s, s + int (length xs) + 1, m') \<and> str_at m' s xs \<and>
    str_at m' (s + int (length xs) + 1) ys"
proof -
  let ?e = "s + int (length xs)"
  have at: "0 \<notin> set xs" "bytes_at m s xs" "m ?e = Some d" "str_at m (?e + 1) ys"
    using assms(2) unfolding str_at_append by simp_all
  have "acoral_str_pbrk m s ct = Some ?e" using pbrk_ok [OF assms(1-3)] assms(4) by simp
  then have "acoral_str_sep m s ct = Some (s, ?e + 1, m(?e \<mapsto> 0))"
    using assms(5) at(3) by (simp add: acoral_str_sep_def store_mapped)
  moreover have "str_at (m(?e \<mapsto> 0)) s (xs @ [])"
    unfolding str_at_append using at(1,2) by (simp add: bytes_at_upd)
  ultimately show ?thesis using at(4) by (simp add: str_at_upd)
qed

theorem str_sep_splits_witness:
  "\<exists>m'. acoral_str_sep ex_bytes 100 106 = Some (100, 100 + int (length [97, 98 :: u8]) + 1, m') \<and> str_at m' 100 [97, 98] \<and>
    str_at m' (100 + int (length [97, 98 :: u8]) + 1) [98, 99]"
  by (rule str_sep_splits [where ds = "[44]" and d = 44]) (simp_all add: ex_bytes_def)

section \<open>Corner cases\<close>

text \<open>\<open>acoral_tolower\<close> is 0 for what is no letter, so the comparison that ignores case takes different digits for equal.\<close>

lemma nicmp_digits: "acoral_str_nicmp [100 \<mapsto> 49, 101 \<mapsto> 0, 102 \<mapsto> 50, 103 \<mapsto> 0] 100 102 2 = Some 0"
  by code_simp

text \<open>The difference of two bytes is cut to a signed byte: a byte of 200 compares less than one of 1.\<close>

lemma ncmp_sign: "acoral_str_ncmp [100 \<mapsto> 200, 101 \<mapsto> 0, 102 \<mapsto> 1, 103 \<mapsto> 0] 100 102 1 = Some (- 57)"
  by code_simp

text \<open>A copy limited to one byte writes two.\<close>

lemma ncpy_one_more: "acoral_str_ncpy [100 \<mapsto> 97, 101 \<mapsto> 98, 102 \<mapsto> 0, 103 \<mapsto> 9] 103 100 1 = None"
  by code_simp

end
