(* ===== verification/Print.thy ===== *)
theory Print
  imports Str Sched
begin

text \<open>
  Formatted output (\<^verbatim>\<open>components/tmp/lib/src/print.c\<close>). What is written to the serial line is a list of bytes; the variable
  arguments are a list of words, and taking one more than there are is \<open>None\<close>. The 64-bit cases (\<^verbatim>\<open>__aarch64__\<close>) are not
  compiled for the target. Strings are in the byte memory of theory \<open>Str\<close>.
\<close>

record params =
  p_len :: int
  num1 :: int
  num2 :: int
  pad_character :: u8
  do_padding :: bool
  left_flag :: bool
  unsigned_flag :: bool

definition padding :: "bool \<Rightarrow> params \<Rightarrow> u8 list" where
  "padding l_flag par =
     (if do_padding par \<and> l_flag \<and> p_len par < num1 par then replicate (nat (num1 par - p_len par)) (pad_character par) else [])"

partial_function (option) outs_loop :: "bytes \<Rightarrow> int \<Rightarrow> int \<Rightarrow> u8 list option" where
  "outs_loop m p n =
     do {
       c \<leftarrow> m p;
       if c \<noteq> 0 \<and> n \<noteq> 0 then do { r \<leftarrow> outs_loop m (p + 1) (s32 (n - 1)); Some (c # r) } else Some []
     }"

definition outs :: "bytes \<Rightarrow> int \<Rightarrow> params \<Rightarrow> u8 list option" where
  "outs m lp par =
     do {
       len \<leftarrow> (if lp \<noteq> 0 then map_option sint (len_loop m lp 0) else Some (p_len par));
       let par = par\<lparr>p_len := len\<rparr>;
       r \<leftarrow> outs_loop m lp (num2 par);
       Some (padding (\<not> left_flag par) par @ r @ padding (left_flag par) par)
     }"

text \<open>The digits of a number, the last one first, in a buffer of 32 bytes.\<close>

definition digit_char :: "u32 \<Rightarrow> u8" where
  "digit_char d = (if d < 10 then 48 + ucast d else 55 + ucast d)"

partial_function (option) digit_loop :: "u32 \<Rightarrow> u8 list \<Rightarrow> u32 \<Rightarrow> u8 list option" where
  "digit_loop base buf num =
     (if length buf \<ge> 32 then None
      else
        let buf = buf @ [digit_char (num mod base)]; num = num div base
        in if num > 0 then digit_loop base buf num else Some buf)"

definition outnum :: "int \<Rightarrow> u32 \<Rightarrow> params \<Rightarrow> u8 list option" where
  "outnum n base par =
     (let negative = (\<not> unsigned_flag par \<and> base = 10 \<and> n < 0);
          num = (if negative then word_of_int (- n) else word_of_int n)
      in do {
        buf \<leftarrow> digit_loop base [] num;
        buf \<leftarrow> (if negative then if length buf \<ge> 32 then None else Some (buf @ [45]) else Some buf);
        if length buf \<ge> 32 then None
        else
          let par = par\<lparr>p_len := int (length buf)\<rparr>
          in Some (padding (\<not> left_flag par) par @ rev buf @ padding (left_flag par) par)
      })"

definition isdigit :: "u8 \<Rightarrow> bool" where "isdigit c \<longleftrightarrow> 48 \<le> c \<and> c \<le> 57"

partial_function (option) getnum :: "bytes \<Rightarrow> int \<Rightarrow> int \<Rightarrow> (int \<times> int) option" where
  "getnum m cptr n =
     do {
       c \<leftarrow> m cptr;
       if isdigit c then getnum m (cptr + 1) (s32 (n * 10 + (uint c - 48))) else Some (n, cptr)
     }"

definition params0 :: params where
  "params0 = \<lparr>p_len = 0, num1 = 0, num2 = 32767, pad_character = 32, do_padding = False, left_flag = False, unsigned_flag = False\<rparr>"

definition to_lower :: "u8 \<Rightarrow> u8" where
  "to_lower c = (if 65 \<le> c \<and> c \<le> 90 then c + 32 else c)"

definition escape :: "u8 \<Rightarrow> u8 list" where
  "escape c = (if c = 97 then [7] else if c = 104 then [8] else if c = 114 then [13] else if c = 110 then [13, 10] else [c])"

fun va_arg :: "u32 list \<Rightarrow> (u32 \<times> u32 list) option" where
  "va_arg [] = None"
| "va_arg (a # args) = Some (a, args)"

text \<open>One conversion, from the percent sign or the last character read: the output, the format after it and the arguments left.
  (\<^verbatim>\<open>goto try_next\<close> is the recursion.)\<close>

partial_function (option) conversion :: "bytes \<Rightarrow> int \<Rightarrow> u32 list \<Rightarrow> bool \<Rightarrow> params \<Rightarrow> (u8 list \<times> int \<times> u32 list) option" where
  "conversion m ctrl args dot par =
     do {
       let ctrl = ctrl + 1;
       ch \<leftarrow> m ctrl;
       if isdigit ch then do {
         (n, c) \<leftarrow> getnum m ctrl 0;
         conversion m (c - 1) args dot
           (if dot then par\<lparr>num2 := n\<rparr>
            else par\<lparr>pad_character := (if ch = 48 then 48 else pad_character par), num1 := n, do_padding := True\<rparr>)
       }
       else
         let k = to_lower ch in
         if k = 37 then Some ([37], ctrl + 1, args)
         else if k = 45 then conversion m ctrl args dot (par\<lparr>left_flag := True\<rparr>)
         else if k = 46 then conversion m ctrl args True par
         else if k = 108 then conversion m ctrl args dot par
         else if k = 117 \<or> k = 105 \<or> k = 100 then do {
           (a, args) \<leftarrow> va_arg args;
           r \<leftarrow> outnum (sint a) 10 (if k = 117 then par\<lparr>unsigned_flag := True\<rparr> else par);
           Some (r, ctrl + 1, args)
         }
         else if k = 112 \<or> k = 120 then do {
           (a, args) \<leftarrow> va_arg args;
           r \<leftarrow> outnum (sint a) 16 (par\<lparr>unsigned_flag := True\<rparr>);
           Some (r, ctrl + 1, args)
         }
         else if k = 115 then do {
           (a, args) \<leftarrow> va_arg args;
           r \<leftarrow> outs m (uint a) par;
           Some (r, ctrl + 1, args)
         }
         else if k = 99 then do { (a, args) \<leftarrow> va_arg args; Some ([ucast a], ctrl + 1, args) }
         else if k = 92 then do {
           (r, q) \<leftarrow> conversion m (ctrl + 1) args dot par;
           Some (escape ch @ r, q)
         }
         else Some ([], ctrl + 1, args)
     }"

partial_function (option) print_loop :: "bytes \<Rightarrow> int \<Rightarrow> u32 list \<Rightarrow> u8 list option" where
  "print_loop m ctrl args =
     (if ctrl = 0 then Some []
      else do {
        c \<leftarrow> m ctrl;
        if c = 0 then Some []
        else if c \<noteq> 37 then do { r \<leftarrow> print_loop m (ctrl + 1) args; Some (c # r) }
        else do {
          (r1, ctrl, args) \<leftarrow> conversion m ctrl args False params0;
          r \<leftarrow> print_loop m ctrl args;
          Some (r1 @ r)
        }
      })"

section \<open>Printing\<close>

text \<open>The static variables of the code and what has been written so far.\<close>

record console =
  print_init :: bool
  print_lock :: bool
  written :: "u8 list"

definition smp_print :: "bytes \<Rightarrow> int \<Rightarrow> u32 list \<Rightarrow> kstate \<Rightarrow> console \<Rightarrow> (kstate \<times> console) option" where
  "smp_print m ctrl args s con =
     do {
       let con = (if \<not> print_init con then con\<lparr>print_init := True, print_lock := False\<rparr> else con);
       let s = acoral_enter_critical s;
       con \<leftarrow> (if print_lock con then None else Some (con\<lparr>print_lock := True\<rparr>));
       r \<leftarrow> print_loop m ctrl args;
       let con = con\<lparr>written := written con @ r, print_lock := False\<rparr>;
       s \<leftarrow> acoral_exit_critical s;
       Some (s, con)
     }"

declare outs_loop.simps [code] and digit_loop.simps [code] and getnum.simps [code] and conversion.simps [code] and print_loop.simps [code]

end
