(* ===== verification/Print_Props.thy ===== *)
theory Print_Props
  imports Print Str_Props
begin

text \<open>
  Properties of formatted output: the digits of a number are read back by the format parser's own \<open>getnum\<close>; a percent sign at the end
  of a format runs past its end.
\<close>

section \<open>Numbers\<close>

text \<open>The value of a list of digit characters, the last one first.\<close>

definition digits_value :: "u8 list \<Rightarrow> int" where
  "digits_value ds = foldr (\<lambda>d v. v * 10 + (uint d - 48)) ds 0"

lemma digits_value_simps [simp]:
  "digits_value [] = 0" "digits_value (d # ds) = digits_value ds * 10 + (uint d - 48)"
  by (simp_all add: digits_value_def)

lemma digit_char_range: "isdigit (digit_char (num mod 10))" "uint (digit_char (num mod 10)) = 48 + uint num mod 10"
proof -
  have lt: "unat (num mod 10) < 10" by (simp add: unat_mod)
  then have "num mod 10 < 10" by (simp add: word_less_nat_alt)
  then have c: "digit_char (num mod 10) = 48 + ucast (num mod 10)" by (simp add: digit_char_def)
  have "unat (ucast (num mod 10) :: u8) = unat (num mod 10)"
    using lt by (simp only: unsigned_ucast_eq) (simp add: take_bit_nat_eq_self)
  then have u: "unat (digit_char (num mod 10)) = 48 + unat (num mod 10)"
    unfolding c using lt by (simp only: unat_word_ariths) simp
  then show "isdigit (digit_char (num mod 10))"
    using lt unfolding isdigit_def word_le_nat_alt by simp
  show "uint (digit_char (num mod 10)) = 48 + uint num mod 10"
    unfolding uint_nat u by (simp add: unat_mod zmod_int)
qed

lemma digit_loop_last: "num div 10 = 0 \<Longrightarrow> length buf < 32 \<Longrightarrow> digit_loop 10 buf num = Some (buf @ [digit_char (num mod 10)])"
  by (subst digit_loop.simps) (simp add: Let_def)

lemma digit_loop_more:
  "num div 10 \<noteq> 0 \<Longrightarrow> length buf < 32 \<Longrightarrow> digit_loop 10 buf num = digit_loop 10 (buf @ [digit_char (num mod 10)]) (num div 10)"
  by (subst digit_loop.simps) (simp add: Let_def word_neq_0_conv)

lemma div_10_zero: "num div 10 = (0::u32) \<longleftrightarrow> unat num < 10"
  by (simp add: word_unat_eq_iff unat_div div_eq_0_iff)

lemma last_digit: "unat num < 10 \<Longrightarrow> digits_value [digit_char (num mod 10)] = uint num"
proof -
  assume "unat num < 10"
  then have "int (unat num) < 10" by linarith
  then have "uint num < 10" by simp
  then have "uint num mod 10 = uint num" by (intro mod_pos_pos_trivial) simp_all
  then show ?thesis using digit_char_range(2) [of num] by simp
qed

lemma digit_loop_ok:
  "unat num < 10 ^ Suc k \<Longrightarrow> length buf + Suc k \<le> 32 \<Longrightarrow>
   \<exists>ds. digit_loop 10 buf num = Some (buf @ ds) \<and> 0 < length ds \<and> length ds \<le> Suc k \<and> (\<forall>d\<in>set ds. isdigit d) \<and>
     digits_value ds = uint num"
proof (induction k arbitrary: buf num)
  case (Suc k)
  let ?d = "digit_char (num mod 10)"
  show ?case
  proof (cases "num div 10 = 0")
    case False
    have "unat (num div 10) < 10 ^ Suc k" using Suc.prems(1) by (simp add: unat_div less_mult_imp_div_less)
    from Suc.IH [OF this, of "buf @ [?d]"] Suc.prems(2) obtain ds where ds: "digit_loop 10 (buf @ [?d]) (num div 10) = Some ((buf @ [?d]) @ ds)"
      "length ds \<le> Suc k" "\<forall>d\<in>set ds. isdigit d" "digits_value ds = uint (num div 10)" by auto
    have "digit_loop 10 buf num = Some (buf @ ?d # ds)" using False ds(1) Suc.prems(2) digit_loop_more by simp
    moreover have "digits_value (?d # ds) = uint num"
      using ds(4) digit_char_range(2) [of num] by (simp add: uint_div)
    ultimately show ?thesis using ds(2,3) digit_char_range(1) [of num] by (intro exI [of _ "?d # ds"]) simp
  next
    case True
    then have "digits_value [?d] = uint num" unfolding div_10_zero by (rule last_digit)
    then show ?thesis
      using True Suc.prems(2) digit_char_range(1) [of num] by (intro exI [of _ "[?d]"]) (simp add: digit_loop_last)
  qed
next
  case 0
  let ?d = "digit_char (num mod 10)"
  have "digits_value [?d] = uint num" by (rule last_digit) (use 0(1) in simp)
  moreover have "num div 10 = 0" using 0(1) unfolding div_10_zero by simp
  ultimately show ?case
    using 0(2) digit_char_range(1) [of num] by (intro exI [of _ "[?d]"]) (simp add: digit_loop_last)
qed

text \<open>What \<open>getnum\<close> reads, the first digit first.\<close>

definition read_value :: "int \<Rightarrow> u8 list \<Rightarrow> int" where
  "read_value n cs = foldl (\<lambda>v c. v * 10 + (uint c - 48)) n cs"

lemma read_value_simps [simp]:
  "read_value n [] = n" "read_value n (c # cs) = read_value (n * 10 + (uint c - 48)) cs"
  by (simp_all add: read_value_def)

lemma read_value_rev: "read_value 0 (rev ds) = digits_value ds"
  by (simp add: read_value_def digits_value_def foldl_conv_foldr)

lemma isdigit_uint: "isdigit c \<Longrightarrow> 48 \<le> uint c \<and> uint c \<le> 57"
  by (simp add: isdigit_def word_le_def)

lemma read_value_ge: "0 \<le> n \<Longrightarrow> \<forall>c\<in>set cs. isdigit c \<Longrightarrow> n \<le> read_value n cs"
proof (induction cs arbitrary: n)
  case (Cons c cs)
  have "n \<le> n * 10 + (uint c - 48)" using Cons.prems isdigit_uint [of c] by simp
  moreover have "n * 10 + (uint c - 48) \<le> read_value (n * 10 + (uint c - 48)) cs"
    using Cons.prems calculation by (intro Cons.IH) simp_all
  ultimately show ?case by simp
qed simp

lemma getnum_ok:
  "bytes_at m p cs \<Longrightarrow> m (p + int (length cs)) = Some z \<Longrightarrow> \<not> isdigit z \<Longrightarrow> \<forall>c\<in>set cs. isdigit c \<Longrightarrow> 0 \<le> n \<Longrightarrow>
   read_value n cs < 2 ^ 31 \<Longrightarrow> getnum m p n = Some (read_value n cs, p + int (length cs))"
proof (induction cs arbitrary: p n)
  case Nil
  then show ?case by (subst getnum.simps) simp
next
  case (Cons c cs)
  let ?n = "n * 10 + (uint c - 48)"
  have n: "0 \<le> ?n" using Cons.prems(4,5) isdigit_uint [of c] by simp
  moreover have "?n \<le> read_value ?n cs" using n Cons.prems(4) by (intro read_value_ge) simp_all
  ultimately have "s32 ?n = ?n" using Cons.prems(6) by (intro s32_id) simp_all
  moreover have "getnum m (p + 1) ?n = Some (read_value ?n cs, p + 1 + int (length cs))"
    using Cons.prems n by (intro Cons.IH) (simp_all add: ac_simps)
  ultimately show ?case using Cons.prems(1,4) by (subst getnum.simps) simp
qed

text \<open>C40. Printing and reading a number: without padding, \<open>outnum\<close> writes a number from 0 to \<open>2 ^ 31 - 1\<close> in decimal such that \<open>getnum\<close>
  reads the same number back from these digits, up to the byte behind them.\<close>

theorem print_number_reads_back:
  assumes "0 \<le> n" "n < 2 ^ 31" "\<not> do_padding par" "\<not> isdigit z"
  shows "\<exists>out. outnum n 10 par = Some out \<and> 0 < length out \<and> length out \<le> 10 \<and>
    (\<forall>m p. bytes_at m p out \<and> m (p + int (length out)) = Some z \<longrightarrow> getnum m p 0 = Some (n, p + int (length out)))"
proof -
  have n: "uint (word_of_int n :: u32) = n" using assms(1,2) by (simp add: uint_word_of_int)
  then have "int (unat (word_of_int n :: u32)) < 10 ^ Suc 9" using assms(2) by simp
  then have "unat (word_of_int n :: u32) < 10 ^ Suc 9" by (simp only: of_nat_less_numeral_power_cancel_iff)
  from digit_loop_ok [OF this, of "[]"] obtain ds where
    ds: "digit_loop 10 [] (word_of_int n) = Some ds" "0 < length ds" "length ds \<le> 10" "\<forall>d\<in>set ds. isdigit d" "digits_value ds = n"
    using n by auto
  have "outnum n 10 par = Some (rev ds)" using assms(1,3) ds(1,3) by (simp add: outnum_def padding_def)
  moreover have "getnum m p 0 = Some (n, p + int (length (rev ds)))"
    if "bytes_at m p (rev ds)" "m (p + int (length (rev ds))) = Some z" for m p
    using getnum_ok [OF that assms(4)] ds(4,5) assms(2) by (simp add: read_value_rev)
  ultimately show ?thesis using ds(2,3) by (intro exI [of _ "rev ds"]) simp
qed

theorem print_number_reads_back_witness:
  "\<exists>out. outnum 2025 10 params0 = Some out \<and> 0 < length out \<and> length out \<le> 10 \<and>
    (\<forall>m p. bytes_at m p out \<and> m (p + int (length out)) = Some 0 \<longrightarrow> getnum m p 0 = Some (2025, p + int (length out)))"
  by (rule print_number_reads_back) (simp_all add: params0_def isdigit_def)

section \<open>Formats\<close>

text \<open>A format that ends in a percent sign is read on behind its terminating zero byte.\<close>

lemma print_percent_end: "print_loop [100 \<mapsto> 37, 101 \<mapsto> 0, 102 \<mapsto> 33, 103 \<mapsto> 0] 100 [] = Some [33]"
  by code_simp

end
