(* ===== verification/Mmu.thy ===== *)
theory Mmu
  imports Prelude
begin

text \<open>
  The memory management unit (\<^verbatim>\<open>bsp/zynq7020/drivers/mmu/mmu.c\<close>, \<^verbatim>\<open>usr_vspace.c\<close>): translation tables in a memory of words, the control
  registers the code writes, and the allocation of second-level tables and user memory. The addresses the linker script provides are the
  record \<open>layout\<close>. Barriers, cache and TLB maintenance have no effect on this state. The endless loops after an
  error message are \<open>None\<close>. \<open>translate\<close> is the reference for the properties: the table walk of the ARMv7 short-descriptor format for sections and small
  pages.
\<close>

record layout =
  first_table :: u32
  second_tables :: u32
  usr_space_start :: u32
  usr_space_end :: u32
  L2tables_start :: u32
  L2tables_end :: u32

record mmu =
  wmem :: "u32 \<Rightarrow> u32"
  sctlr :: u32
  ttbr0 :: u32
  contextidr :: u32
  usr_space_alloc_index :: u32
  L2tables_alloc_index :: u32

section \<open>Control registers\<close>

definition SCTLR_M :: u32 where "SCTLR_M = push_bit 0 1"
definition SCTLR_C :: u32 where "SCTLR_C = push_bit 2 1"
definition SCTLR_I :: u32 where "SCTLR_I = push_bit 12 1"

definition mmu_enable :: "mmu \<Rightarrow> mmu" where "mmu_enable s = s\<lparr>sctlr := sctlr s OR SCTLR_M\<rparr>"
definition mmu_disable :: "mmu \<Rightarrow> mmu" where "mmu_disable s = s\<lparr>sctlr := sctlr s AND NOT SCTLR_M\<rparr>"
definition cache_enable :: "mmu \<Rightarrow> mmu" where "cache_enable s = s\<lparr>sctlr := sctlr s OR (SCTLR_C OR SCTLR_I)\<rparr>"
definition cache_disable :: "mmu \<Rightarrow> mmu" where "cache_disable s = s\<lparr>sctlr := sctlr s AND NOT (SCTLR_C OR SCTLR_I)\<rparr>"

definition mmu_set_L1_table_addr :: "u32 \<Rightarrow> mmu \<Rightarrow> mmu" where
  "mmu_set_L1_table_addr addr s = s\<lparr>ttbr0 := addr OR 0x5b\<rparr>"

definition mmu_set_CONTEXTIDR :: "u32 \<Rightarrow> u32 \<Rightarrow> mmu \<Rightarrow> int \<times> mmu" where
  "mmu_set_CONTEXTIDR procid asid s =
     (if procid AND NOT 0x00ffffff \<noteq> 0 \<or> asid AND NOT 0x000000ff \<noteq> 0 then (- 1, s)
      else (0, s\<lparr>contextidr := push_bit 8 procid OR push_bit 0 asid\<rparr>))"

section \<open>Tables\<close>

definition write_word :: "u32 \<Rightarrow> u32 \<Rightarrow> mmu \<Rightarrow> mmu" where
  "write_word a v s = s\<lparr>wmem := (wmem s)(a := v)\<rparr>"

fun l1_loop :: "nat \<Rightarrow> u32 \<Rightarrow> u32 \<Rightarrow> u32 \<Rightarrow> u32 \<Rightarrow> mmu \<Rightarrow> mmu" where
  "l1_loop 0 pTT attr sec i s = s"
| "l1_loop (Suc n) pTT attr sec i s =
     l1_loop n (pTT + 4) attr sec (i + 1) (write_word pTT (attr OR push_bit 20 (sec + i)) s)"

text \<open>The test of the code, \<^verbatim>\<open>(length)&0xfffff != 0\<close>, compares first: it only looks at the lowest bit of the length.\<close>

definition mmu_set_L1table :: "layout \<Rightarrow> u32 \<Rightarrow> u32 \<Rightarrow> u32 \<Rightarrow> u32 \<Rightarrow> mmu \<Rightarrow> mmu option" where
  "mmu_set_L1table lay vaddr_start vaddr_end paddr_start attr s =
     (if (vaddr_end - vaddr_start + 1) AND (if (0xfffff :: u32) \<noteq> 0 then 1 else 0) \<noteq> 0 then None
      else
        let pTT = first_table lay + 4 * drop_bit 20 vaddr_start;
            nSec = drop_bit 20 vaddr_end - drop_bit 20 vaddr_start
        in Some (l1_loop (nat (sint nSec + 1)) pTT attr (drop_bit 20 paddr_start) 0 s))"

text \<open>The 256 entries of a second-level table, from the \<open>j\<close>-th on.\<close>

fun l2_loop :: "nat \<Rightarrow> u32 \<Rightarrow> u32 \<Rightarrow> u32 \<Rightarrow> u32 \<Rightarrow> mmu \<Rightarrow> mmu option" where
  "l2_loop 0 pte attr pa j s = Some s"
| "l2_loop (Suc n) pte attr pa j s =
     (let target = pa + push_bit 12 j in
      if target AND (push_bit 12 1 - 1) \<noteq> 0 then None
      else l2_loop n (pte + 4) attr pa (j + 1) (write_word pte (target OR attr) s))"

fun l2_tables :: "nat \<Rightarrow> layout \<Rightarrow> u32 \<Rightarrow> u32 \<Rightarrow> u32 \<Rightarrow> u32 \<Rightarrow> mmu \<Rightarrow> mmu option" where
  "l2_tables 0 lay idx ptr_1st ps i s = Some s"
| "l2_tables (Suc n) lay idx ptr_1st ps i s =
     (let pte_2nd = second_tables lay + 1024 * (idx + i) in
      if pte_2nd AND 0x3ff \<noteq> 0 then None
      else do {
        s \<leftarrow> l2_loop 256 pte_2nd 0x576 (ps + push_bit 20 i) 0 (write_word ptr_1st (pte_2nd OR 0x1e1) s);
        l2_tables n lay idx (ptr_1st + 4) ps (i + 1) s
      })"

text \<open>The attributes are not used; the last megabyte is left out, as the number of tables is the difference of the indices.\<close>

definition mmu_set_L2table :: "layout \<Rightarrow> u32 \<Rightarrow> u32 \<Rightarrow> u32 \<Rightarrow> u32 \<Rightarrow> mmu \<Rightarrow> mmu option" where
  "mmu_set_L2table lay vaddr_start vaddr_end paddr_start attr s =
     (let idx = drop_bit 20 vaddr_start; num = drop_bit 20 vaddr_end - drop_bit 20 vaddr_start
      in l2_tables (unat num) lay idx (first_table lay + 4 * idx) paddr_start 0 s)"

definition mmu_set_attribute :: "layout \<Rightarrow> u32 \<Rightarrow> u32 \<Rightarrow> mmu \<Rightarrow> mmu" where
  "mmu_set_attribute lay addr attr s =
     (let ptr_1st = first_table lay + 4 * drop_bit 20 addr in
      if ptr_1st \<noteq> NULL then write_word ptr_1st ((addr AND 0xFFF00000) OR attr) s else s)"

definition mmu_pre_init :: "layout \<Rightarrow> mmu \<Rightarrow> mmu option" where
  "mmu_pre_init lay s =
     do {
       let s = mmu_disable (cache_disable s);
       s \<leftarrow> mmu_set_L1table lay 0 0xffffffff 0 0x15de6 s;
       Some (mmu_enable (mmu_set_L1_table_addr (first_table lay) s))
     }"

text \<open>The regions of \<open>mmu_init\<close>, mapped to themselves.\<close>

definition zynq_regions :: "(u32 \<times> u32 \<times> u32) list" where
  "zynq_regions =
     [(0x00000000, 0xffffffff, 0x15de6),
      (0x00000000, 0x000fffff, 0x14de6), (0x00100000, 0x3fffffff, 0x15de6), (0x40000000, 0x7fffffff, 0x00c02),
      (0x80000000, 0xbfffffff, 0x00c02), (0xc0000000, 0xdfffffff, 0x00000), (0xe0000000, 0xe02fffff, 0x00c06),
      (0xe0300000, 0xe0ffffff, 0x00000), (0xe1000000, 0xe1ffffff, 0x00c06), (0xe2000000, 0xe3ffffff, 0x00c06),
      (0xe4000000, 0xe5ffffff, 0x00c0e), (0xe6000000, 0xf7ffffff, 0x00000), (0xf8000000, 0xf8ffffff, 0x00c06),
      (0xf9000000, 0xfbffffff, 0x00000), (0xfc000000, 0xfdffffff, 0x00c0a), (0xfe000000, 0xffefffff, 0x00000),
      (0xfff00000, 0xffffffff, 0x04c0e)]"

fun set_regions :: "layout \<Rightarrow> (u32 \<times> u32 \<times> u32) list \<Rightarrow> mmu \<Rightarrow> mmu option" where
  "set_regions lay [] s = Some s"
| "set_regions lay ((a, b, attr) # rs) s = do { s \<leftarrow> mmu_set_L1table lay a b a attr s; set_regions lay rs s }"

definition mmu_init :: "layout \<Rightarrow> mmu \<Rightarrow> mmu option" where
  "mmu_init lay s =
     do {
       let s = mmu_disable (cache_disable s);
       s \<leftarrow> set_regions lay zynq_regions s;
       Some (mmu_enable (mmu_set_L1_table_addr (first_table lay) s))
     }"

section \<open>User spaces\<close>

record usr_vspace =
  asid :: u32
  vaddr_start :: u32
  uv_length :: u32
  L2table_addr :: u32

definition MMU_L2TBL_SIZE :: u32 where "MMU_L2TBL_SIZE = 256 * 4"

text \<open>The results: the code, the address of the table (when it is set) and the new state. The test compares the end address with an index.\<close>

definition mmu_alloc_L2_table :: "layout \<Rightarrow> mmu \<Rightarrow> int \<times> u32 option \<times> mmu" where
  "mmu_alloc_L2_table lay s =
     (if L2tables_end lay - L2tables_alloc_index s \<ge> MMU_L2TBL_SIZE
      then (0, Some (L2tables_start lay + L2tables_alloc_index s),
            s\<lparr>L2tables_alloc_index := L2tables_alloc_index s + MMU_L2TBL_SIZE\<rparr>)
      else (- 1, None, s))"

definition mmu_alloc_usr_space_aligned :: "layout \<Rightarrow> u32 \<Rightarrow> mmu \<Rightarrow> int \<times> (u32 \<times> u32) option \<times> mmu" where
  "mmu_alloc_usr_space_aligned lay len s =
     (if len AND 0x00000fff = 0 \<and> usr_space_end lay - usr_space_alloc_index s \<ge> len then
        case mmu_alloc_L2_table lay s of
          (ret, Some t, s) \<Rightarrow> (ret, Some (t, usr_space_start lay + usr_space_alloc_index s),
                              s\<lparr>usr_space_alloc_index := usr_space_alloc_index s + len\<rparr>)
        | (ret, None, s) \<Rightarrow> (ret, None, s)
      else (- 1, None, s))"

definition table_num :: "u32 \<Rightarrow> nat" where
  "table_num len = (let n = drop_bit 20 len in if n = 0 then 1 else unat n)"

fun map_loop :: "nat \<Rightarrow> u32 \<Rightarrow> u32 \<Rightarrow> u32 \<Rightarrow> mmu \<Rightarrow> mmu option" where
  "map_loop 0 pte pa i s = Some s"
| "map_loop (Suc n) pte pa i s =
     (if pte AND 0x3ff \<noteq> 0 then None
      else do { s \<leftarrow> l2_loop 256 pte 0xd76 (pa + push_bit 20 i) 0 s; map_loop n (pte + 1024) pa (i + 1) s })"

text \<open>Both operations return -1 whatever they did.\<close>

definition mmu_map_usr_space :: "u32 \<Rightarrow> u32 \<Rightarrow> u32 \<Rightarrow> u32 \<Rightarrow> usr_vspace \<Rightarrow> mmu \<Rightarrow> (int \<times> usr_vspace \<times> mmu) option" where
  "mmu_map_usr_space L2 vaddr paddr len uvs s =
     (let uvs = uvs\<lparr>vaddr_start := vaddr, L2table_addr := L2, uv_length := len\<rparr>
      in do { s \<leftarrow> map_loop (table_num len) L2 paddr 0 s; Some (- 1, uvs, s) })"

fun activate_loop :: "nat \<Rightarrow> u32 \<Rightarrow> u32 \<Rightarrow> mmu \<Rightarrow> mmu option" where
  "activate_loop 0 ptr_1st pte s = Some s"
| "activate_loop (Suc n) ptr_1st pte s =
     (if pte AND 0x3ff \<noteq> 0 then None
      else activate_loop n (ptr_1st + 4) (pte + 1024) (write_word ptr_1st (pte OR 0x1e1) s))"

definition mmu_activate_usr_space :: "layout \<Rightarrow> usr_vspace \<Rightarrow> mmu \<Rightarrow> (int \<times> mmu) option" where
  "mmu_activate_usr_space lay uvs s =
     do {
       s \<leftarrow> activate_loop (table_num (uv_length uvs)) (first_table lay + 4 * drop_bit 20 (vaddr_start uvs)) (L2table_addr uvs) s;
       Some (- 1, s)
     }"

section \<open>The table walk\<close>

definition translate :: "layout \<Rightarrow> mmu \<Rightarrow> u32 \<Rightarrow> u32 option" where
  "translate lay s va =
     (let e = wmem s (first_table lay + 4 * drop_bit 20 va) in
      if e AND 3 = 2 then Some ((e AND 0xfff00000) OR (va AND 0xfffff))
      else if e AND 3 = 1 then
        let e2 = wmem s ((e AND 0xfffffc00) + 4 * (drop_bit 12 va AND 0xff)) in
        if e2 AND 2 = 2 then Some ((e2 AND 0xfffff000) OR (va AND 0xfff)) else None
      else None)"

end
