(* ===== verification/Mmu_Props.thy ===== *)
theory Mmu_Props
  imports Mmu
begin

text \<open>
  Properties of the translation tables: a region set in the first-level table is translated as asked and no other entry changes; a user
  space that is mapped and activated is translated to its physical memory.
\<close>

section \<open>Words\<close>

lemma step_nonzero: "0 < m \<Longrightarrow> m < 2 ^ 30 \<Longrightarrow> (4 * of_nat m :: u32) \<noteq> 0"
proof
  assume m: "0 < m" "m < 2 ^ 30" and z: "(4 * of_nat m :: u32) = 0"
  have "(of_nat (4 * m) :: u32) = 0" using z by simp
  then have "2 ^ 32 dvd 4 * m" by (simp only: word_of_nat_eq_0_iff) simp
  then show False using m by (auto dest!: dvd_imp_le)
qed

lemma steps_distinct: "i < 2 ^ 30 \<Longrightarrow> j < 2 ^ 30 \<Longrightarrow> i \<noteq> j \<Longrightarrow> p + 4 * of_nat i \<noteq> (p + 4 * of_nat j :: u32)"
proof (induction i j rule: linorder_wlog)
  case (le i j)
  have "4 * of_nat j = 4 * of_nat i + (4 * of_nat (j - i) :: u32)" using le(1) by (simp add: of_nat_diff)
  moreover have "(4 * of_nat (j - i) :: u32) \<noteq> 0" using le by (intro step_nonzero) simp_all
  ultimately show ?case by simp
next
  case (sym i j)
  then show ?case by metis
qed

lemma or_low: "(x::u32) AND c = 0 \<Longrightarrow> x OR (y AND c) = x + (y AND c)"
proof -
  assume "x AND c = 0"
  then have "x AND (y AND c) = 0" by (metis and.left_commute bit.conj_zero_right)
  then show ?thesis by (simp add: disjunctive_add_eq_or)
qed

lemma clear_low: "(x::u32) AND mask k = 0 \<Longrightarrow> x AND NOT (mask k) = x"
proof -
  assume "x AND mask k = 0"
  moreover have "x = (x AND mask k) OR (x AND NOT (mask k))" by (simp flip: bit.conj_disj_distrib)
  ultimately show ?thesis by simp
qed

lemma push_low: "push_bit 20 (x::u32) AND mask k = push_bit 20 (take_bit (k - 20) x)"
  by (simp flip: take_bit_eq_mask add: take_bit_push_bit)

lemma high_masks: "(0xfff00000::u32) = NOT (mask 20)" "(0xfffff000::u32) = NOT (mask 12)" "(0xfffffc00::u32) = NOT (mask 10)"
    "(0xfffff::u32) = mask 20" "(0xfff::u32) = mask 12" "(0xff::u32) = mask 8" "(0x3ff::u32) = mask 10" "(3::u32) = mask 2"
  by (simp_all add: mask_eq_exp_minus_1)

lemma unat_index: "unat (drop_bit 20 (w::u32)) = unat w div 2 ^ 20" "unat w div 2 ^ 20 < 4096"
proof -
  show "unat (drop_bit 20 w) = unat w div 2 ^ 20" by (simp add: drop_bit_eq_div unat_div)
  have "unat w < 2 ^ 32" using unsigned_less [of w, where 'a = nat] by simp
  then show "unat w div 2 ^ 20 < 4096" by (simp add: less_mult_imp_div_less)
qed

section \<open>First-level table\<close>

lemma l1_loop_outside: "\<forall>k<n. a \<noteq> p + 4 * of_nat k \<Longrightarrow> wmem (l1_loop n p attr sec i s) a = wmem s a"
proof (induction n arbitrary: p i s)
  case (Suc n)
  have "\<forall>k<n. a \<noteq> (p + 4) + 4 * of_nat k"
  proof (intro allI impI)
    fix k assume "k < n"
    then show "a \<noteq> (p + 4) + 4 * of_nat k" using Suc.prems [rule_format, of "Suc k"] by (simp add: algebra_simps)
  qed
  then have "wmem (l1_loop n (p + 4) attr sec (i + 1) (write_word p (attr OR push_bit 20 (sec + i)) s)) a =
      wmem (write_word p (attr OR push_bit 20 (sec + i)) s) a" by (rule Suc.IH)
  then show ?case using Suc.prems [rule_format, of 0] by (simp add: write_word_def)
qed simp

lemma l1_loop_inside:
  "k < n \<Longrightarrow> n \<le> 2 ^ 29 \<Longrightarrow> wmem (l1_loop n p attr sec i s) (p + 4 * of_nat k) = attr OR push_bit 20 (sec + i + of_nat k)"
proof (induction n arbitrary: p i s k)
  case (Suc n)
  show ?case
  proof (cases k)
    case 0
    have "\<forall>k<n. p \<noteq> (p + 4) + 4 * of_nat k"
    proof (intro allI impI)
      fix k assume "k < n"
      then show "p \<noteq> (p + 4) + 4 * of_nat k" using step_nonzero [of "Suc k"] Suc.prems(2) by (simp add: algebra_simps)
    qed
    from l1_loop_outside [OF this] show ?thesis using 0 by (simp add: write_word_def)
  next
    case (Suc k')
    then show ?thesis
      using Suc.IH [of k' "p + 4" "i + 1" "write_word p (attr OR push_bit 20 (sec + i)) s"] Suc.prems by (simp add: algebra_simps)
  qed
qed simp

lemma section_entry:
  assumes "wmem s (first_table lay + 4 * drop_bit 20 va) = attr OR push_bit 20 x" "attr AND 3 = 2" "attr AND 0xfff00000 = 0"
  shows "translate lay s va = Some (push_bit 20 x OR (va AND 0xfffff))"
proof -
  have "(attr OR push_bit 20 x) AND 3 = 2"
    unfolding bit.conj_disj_distrib2 using assms(2) push_low [of x 2] unfolding high_masks(8) by simp
  moreover have "(attr OR push_bit 20 x) AND 0xfff00000 = push_bit 20 x"
    unfolding bit.conj_disj_distrib2 using assms(3) clear_low [of "push_bit 20 x" 20] push_low [of x 20] unfolding high_masks(1) by simp
  ultimately show ?thesis unfolding translate_def assms(1) by simp
qed

lemma out_of_range: "(k::nat) < Suc (e - v) \<Longrightarrow> \<not> (v \<le> a \<and> a \<le> e) \<Longrightarrow> v \<le> e \<Longrightarrow> a \<noteq> v + k"
  by auto

lemma index_nsec:
  assumes "vs \<le> ve"
  shows "nat (sint (drop_bit 20 ve - drop_bit 20 vs :: u32) + 1) = Suc (unat ve div 2 ^ 20 - unat vs div 2 ^ 20)"
proof -
  let ?d = "unat ve div 2 ^ 20 - unat vs div 2 ^ 20"
  have le: "unat vs div 2 ^ 20 \<le> unat ve div 2 ^ 20" using assms by (intro div_le_mono) (simp add: word_le_nat_alt)
  then have "drop_bit 20 vs \<le> drop_bit 20 ve" by (simp only: word_le_nat_alt unat_index)
  then have u: "unat (drop_bit 20 ve - drop_bit 20 vs) = ?d" by (simp only: unat_sub unat_index)
  have lt: "?d < 4096" using unat_index(2) [of ve] by linarith
  have "drop_bit 20 ve - drop_bit 20 vs = (of_nat ?d :: u32)" unfolding u [symmetric] by simp
  moreover have "sint (of_nat ?d :: u32) = int ?d"
    using lt by (simp only: signed_of_nat) (simp add: signed_take_bit_int_eq_self)
  moreover have "nat (int ?d + 1) = Suc ?d" by linarith
  ultimately show ?thesis by simp
qed

text \<open>Setting a region of the first-level table with a section attribute returns (for a region of even length), and then every
  address whose megabyte is in the region is translated to the corresponding address of the physical region; all other entries are
  unchanged.\<close>

theorem L1table_maps_region:
  assumes "vs \<le> ve" "(ve - vs + 1) AND 1 = 0" "attr AND 3 = 2" "attr AND 0xfff00000 = 0"
  shows "\<exists>s'. mmu_set_L1table lay vs ve ps attr s = Some s' \<and>
    (\<forall>va. if drop_bit 20 vs \<le> drop_bit 20 va \<and> drop_bit 20 va \<le> drop_bit 20 ve
      then translate lay s' va = Some (push_bit 20 (drop_bit 20 ps + (drop_bit 20 va - drop_bit 20 vs)) OR (va AND 0xfffff))
      else wmem s' (first_table lay + 4 * drop_bit 20 va) = wmem s (first_table lay + 4 * drop_bit 20 va))"
proof -
  let ?I = "\<lambda>w :: u32. unat w div 2 ^ 20" and ?p = "first_table lay + 4 * drop_bit 20 vs"
  let ?n = "Suc (?I ve - ?I vs)" and ?s = "l1_loop (Suc (?I ve - ?I vs)) (first_table lay + 4 * drop_bit 20 vs) attr (drop_bit 20 ps) 0 s"
  have ds: "drop_bit 20 w = of_nat (?I w)" for w :: u32 unfolding unat_index(1) [symmetric] by simp
  have r: "mmu_set_L1table lay vs ve ps attr s = Some ?s"
    using assms(2) index_nsec [OF assms(1)] by (simp add: mmu_set_L1table_def Let_def)
  have inside: "translate lay ?s va = Some (push_bit 20 (drop_bit 20 ps + (drop_bit 20 va - drop_bit 20 vs)) OR (va AND 0xfffff))"
    if "drop_bit 20 vs \<le> drop_bit 20 va" "drop_bit 20 va \<le> drop_bit 20 ve" for va
  proof (rule section_entry [OF _ assms(3,4)])
    have le: "?I vs \<le> ?I va" "?I va \<le> ?I ve" using that by (simp_all only: word_le_nat_alt unat_index)
    let ?k = "?I va - ?I vs"
    have k: "drop_bit 20 va = drop_bit 20 vs + of_nat ?k" unfolding ds using le(1) by (simp flip: of_nat_add)
    have "wmem ?s (?p + 4 * of_nat ?k) = attr OR push_bit 20 (drop_bit 20 ps + 0 + of_nat ?k)"
    proof (rule l1_loop_inside)
      show "?k < ?n" using diff_le_mono [OF le(2)] by (rule le_imp_less_Suc)
      have "?n \<le> 4096" using unat_index(2) [of ve] by linarith
      then show "?n \<le> 2 ^ 29" by (rule order_trans) simp
    qed
    then show "wmem ?s (first_table lay + 4 * drop_bit 20 va) = attr OR push_bit 20 (drop_bit 20 ps + (drop_bit 20 va - drop_bit 20 vs))"
      unfolding k by (simp add: algebra_simps)
  qed
  have outside: "wmem ?s (first_table lay + 4 * drop_bit 20 va) = wmem s (first_table lay + 4 * drop_bit 20 va)"
    if "\<not> (drop_bit 20 vs \<le> drop_bit 20 va \<and> drop_bit 20 va \<le> drop_bit 20 ve)" for va
  proof (rule l1_loop_outside, intro allI impI)
    fix k assume k: "k < ?n"
    have out: "\<not> (?I vs \<le> ?I va \<and> ?I va \<le> ?I ve)" using that unfolding word_le_nat_alt unat_index(1) .
    have le: "?I vs \<le> ?I ve" using assms(1) by (intro div_le_mono) (simp add: word_le_nat_alt)
    have b: "?I va < 4096" "?I ve < 4096" by (rule unat_index(2))+
    have "first_table lay + 4 * of_nat (?I va) \<noteq> first_table lay + 4 * of_nat (?I vs + k)"
    proof (rule steps_distinct)
      show "?I va < 2 ^ 30" using b(1) by (rule less_trans) simp
      have "?I vs + k < 8192" using k b(2) le by linarith
      then show "?I vs + k < 2 ^ 30" by (rule less_trans) simp
      show "?I va \<noteq> ?I vs + k" by (rule out_of_range [OF k out le])
    qed
    then show "first_table lay + 4 * drop_bit 20 va \<noteq> ?p + 4 * of_nat k" unfolding ds by (simp add: algebra_simps)
  qed
  show ?thesis using r inside outside by (intro exI [of _ ?s]) simp
qed

section \<open>User spaces\<close>

lemma l2_loop_outside:
  "l2_loop n pte attr pa j s = Some s' \<Longrightarrow> \<forall>k<n. a \<noteq> pte + 4 * of_nat k \<Longrightarrow> wmem s' a = wmem s a"
proof (induction n arbitrary: pte j s)
  case (Suc n)
  have "\<forall>k<n. a \<noteq> (pte + 4) + 4 * of_nat k"
  proof (intro allI impI)
    fix k assume "k < n"
    then show "a \<noteq> (pte + 4) + 4 * of_nat k" using Suc.prems(2) [rule_format, of "Suc k"] by (simp add: algebra_simps)
  qed
  moreover have "l2_loop n (pte + 4) attr pa (j + 1) (write_word pte ((pa + push_bit 12 j) OR attr) s) = Some s'"
    using Suc.prems(1) by (simp add: Let_def split: if_splits)
  ultimately show ?case using Suc.IH Suc.prems(2) [rule_format, of 0] by (fastforce simp: write_word_def)
qed simp

lemma push12_low: "push_bit 12 (j::u32) AND mask 12 = 0"
  by (simp flip: take_bit_eq_mask add: take_bit_push_bit)

lemma aligned_dvd: "(x::u32) AND mask k = 0 \<longleftrightarrow> 2 ^ k dvd unat x"
proof -
  have "x AND mask k = 0 \<longleftrightarrow> unat (take_bit k x) = 0" by (simp add: take_bit_eq_mask unsigned_eq_0_iff)
  also have "\<dots> \<longleftrightarrow> 2 ^ k dvd unat x" unfolding unsigned_take_bit_eq by (simp add: take_bit_eq_mod mod_eq_0_iff_dvd)
  finally show ?thesis .
qed

lemma aligned_add:
  assumes "(x::u32) AND mask k = 0" "y AND mask k = 0" "k \<le> 32"
  shows "(x + y) AND mask k = 0"
proof -
  have "2 ^ k dvd (2 ^ 32 :: nat)" using assms(3) by (rule le_imp_power_dvd)
  moreover have "2 ^ k dvd unat x + unat y" using assms(1,2) unfolding aligned_dvd by (rule dvd_add)
  ultimately have "2 ^ k dvd (unat x + unat y) mod 2 ^ 32" by (simp only: dvd_mod)
  then show ?thesis unfolding aligned_dvd unat_word_ariths by simp
qed

lemma times_1024: "1024 * (x::u32) AND mask 10 = 0"
proof -
  have "1024 * x = push_bit 10 x" by (simp add: push_bit_eq_mult)
  then show ?thesis by (simp only: flip: take_bit_eq_mask) (simp add: take_bit_push_bit)
qed

lemma page_aligned: "(pa::u32) AND mask 12 = 0 \<Longrightarrow> (pa + push_bit 12 j) AND mask 12 = 0"
  by (rule aligned_add [OF _ push12_low]) simp_all

lemma l2_loop_ok:
  "pa AND mask 12 = 0 \<Longrightarrow> n \<le> 2 ^ 29 \<Longrightarrow> \<exists>s'. l2_loop n pte attr pa j s = Some s' \<and>
     (\<forall>k<n. wmem s' (pte + 4 * of_nat k) = (pa + push_bit 12 (j + of_nat k)) OR attr)"
proof (induction n arbitrary: pte j s)
  case (Suc n)
  let ?w = "write_word pte ((pa + push_bit 12 j) OR attr) s"
  obtain s' where s': "l2_loop n (pte + 4) attr pa (j + 1) ?w = Some s'"
      "\<forall>k<n. wmem s' (pte + 4 + 4 * of_nat k) = (pa + push_bit 12 (j + 1 + of_nat k)) OR attr"
    using Suc.IH [OF Suc.prems(1) Suc_leD [OF Suc.prems(2)], of "pte + 4" "j + 1" ?w] by blast
  have m: "(push_bit 12 1 - 1 :: u32) = mask 12" by (simp add: mask_eq_exp_minus_1 push_bit_eq_mult)
  have r: "l2_loop (Suc n) pte attr pa j s = Some s'"
    using s'(1) page_aligned [OF Suc.prems(1), of j] by (simp only: l2_loop.simps m Let_def) simp
  have "\<forall>k<n. pte \<noteq> (pte + 4) + 4 * of_nat k"
  proof (intro allI impI)
    fix k assume "k < n"
    then show "pte \<noteq> (pte + 4) + 4 * of_nat k" using step_nonzero [of "Suc k"] Suc.prems(2) by (simp add: algebra_simps)
  qed
  from l2_loop_outside [OF s'(1) this] have z: "wmem s' pte = (pa + push_bit 12 j) OR attr" by (simp add: write_word_def)
  have "wmem s' (pte + 4 * of_nat k) = (pa + push_bit 12 (j + of_nat k)) OR attr" if "k < Suc n" for k
    using z s'(2) [rule_format, of "k - 1"] that by (cases k) (simp_all add: algebra_simps)
  then show ?case using r by blast
qed simp

lemma map_loop_outside:
  "map_loop n pte pa i s = Some s' \<Longrightarrow> \<forall>q<256 * n. a \<noteq> pte + 4 * of_nat q \<Longrightarrow> wmem s' a = wmem s a"
proof (induction n arbitrary: pte i s)
  case (Suc n)
  obtain s1 where s1: "l2_loop 256 pte 0xd76 (pa + push_bit 20 i) 0 s = Some s1" "map_loop n (pte + 1024) pa (i + 1) s1 = Some s'"
    using Suc.prems(1) by (auto split: if_splits bind_splits)
  have "\<forall>k<256. a \<noteq> pte + 4 * of_nat k" using Suc.prems(2) by simp
  from l2_loop_outside [OF s1(1) this] have a: "wmem s1 a = wmem s a" .
  have "\<forall>q<256 * n. a \<noteq> (pte + 1024) + 4 * of_nat q"
  proof (intro allI impI)
    fix q assume "q < 256 * n"
    then show "a \<noteq> (pte + 1024) + 4 * of_nat q" using Suc.prems(2) [rule_format, of "q + 256"] by (simp add: algebra_simps)
  qed
  from Suc.IH [OF s1(2) this] show ?case using a by simp
qed simp

text \<open>The word written for page \<open>j\<close> of the \<open>t\<close>-th table.\<close>

lemma map_loop_ok:
  "pa AND mask 12 = 0 \<Longrightarrow> pte AND mask 10 = 0 \<Longrightarrow> n \<le> 4096 \<Longrightarrow> \<exists>s'. map_loop n pte pa i s = Some s' \<and>
     (\<forall>t<n. \<forall>j<256. wmem s' (pte + 4 * of_nat (256 * t + j)) = (pa + push_bit 20 (i + of_nat t) + push_bit 12 (of_nat j)) OR 0xd76)"
proof (induction n arbitrary: pte i s)
  case (Suc n)
  have pa: "(pa + push_bit 20 i) AND mask 12 = 0"
    using Suc.prems(1) by (rule aligned_add) (simp_all add: push_low)
  obtain s1 where s1: "l2_loop 256 pte 0xd76 (pa + push_bit 20 i) 0 s = Some s1"
      "\<forall>k<256. wmem s1 (pte + 4 * of_nat k) = (pa + push_bit 20 i + push_bit 12 (0 + of_nat k)) OR 0xd76"
    using l2_loop_ok [OF pa, of 256 pte "0xd76" 0 s] by auto
  have pte: "(pte + 1024) AND mask 10 = 0"
    using Suc.prems(2) by (rule aligned_add) (simp_all add: mask_eq_exp_minus_1)
  obtain s' where s': "map_loop n (pte + 1024) pa (i + 1) s1 = Some s'"
      "\<forall>t<n. \<forall>j<256. wmem s' (pte + 1024 + 4 * of_nat (256 * t + j)) =
         (pa + push_bit 20 (i + 1 + of_nat t) + push_bit 12 (of_nat j)) OR 0xd76"
    using Suc.IH [OF Suc.prems(1) pte Suc_leD [OF Suc.prems(3)], of "i + 1" s1] by blast
  have r: "map_loop (Suc n) pte pa i s = Some s'"
    using s1(1) s'(1) Suc.prems(2) by (simp add: high_masks(7))
  have first: "wmem s' (pte + 4 * of_nat j) = (pa + push_bit 20 i + push_bit 12 (of_nat j)) OR 0xd76" if j: "j < 256" for j
  proof -
    have "\<forall>q<256 * n. pte + 4 * of_nat j \<noteq> (pte + 1024) + 4 * of_nat q"
    proof (intro allI impI)
      fix q assume "q < 256 * n"
      then have "pte + 4 * of_nat j \<noteq> pte + 4 * of_nat (256 + q)" using j Suc.prems(3) by (intro steps_distinct) simp_all
      then show "pte + 4 * of_nat j \<noteq> (pte + 1024) + 4 * of_nat q" by (simp add: algebra_simps)
    qed
    from map_loop_outside [OF s'(1) this] show ?thesis using s1(2) j by simp
  qed
  have "wmem s' (pte + 4 * of_nat (256 * t + j)) = (pa + push_bit 20 (i + of_nat t) + push_bit 12 (of_nat j)) OR 0xd76"
    if "t < Suc n" "j < 256" for t j
  proof (cases t)
    case 0
    then show ?thesis using first [OF that(2)] by simp
  next
    case (Suc t')
    then show ?thesis using s'(2) [rule_format, of t' j] that by (simp add: algebra_simps)
  qed
  then show ?case using r by blast
qed simp

lemma activate_loop_outside:
  "activate_loop n p pte s = Some s' \<Longrightarrow> \<forall>k<n. a \<noteq> p + 4 * of_nat k \<Longrightarrow> wmem s' a = wmem s a"
proof (induction n arbitrary: p pte s)
  case (Suc n)
  have "\<forall>k<n. a \<noteq> (p + 4) + 4 * of_nat k"
  proof (intro allI impI)
    fix k assume "k < n"
    then show "a \<noteq> (p + 4) + 4 * of_nat k" using Suc.prems(2) [rule_format, of "Suc k"] by (simp add: algebra_simps)
  qed
  moreover have "activate_loop n (p + 4) (pte + 1024) (write_word p (pte OR 0x1e1) s) = Some s'"
    using Suc.prems(1) by (simp split: if_splits)
  ultimately show ?case using Suc.IH Suc.prems(2) [rule_format, of 0] by (fastforce simp: write_word_def)
qed simp

lemma activate_loop_ok:
  "pte AND mask 10 = 0 \<Longrightarrow> n \<le> 4096 \<Longrightarrow> \<exists>s'. activate_loop n p pte s = Some s' \<and>
     (\<forall>k<n. wmem s' (p + 4 * of_nat k) = (pte + 1024 * of_nat k) OR 0x1e1)"
proof (induction n arbitrary: p pte s)
  case (Suc n)
  let ?w = "write_word p (pte OR 0x1e1) s"
  have pte: "(pte + 1024) AND mask 10 = 0"
    using Suc.prems(1) by (rule aligned_add) (simp_all add: mask_eq_exp_minus_1)
  obtain s' where s': "activate_loop n (p + 4) (pte + 1024) ?w = Some s'"
      "\<forall>k<n. wmem s' (p + 4 + 4 * of_nat k) = (pte + 1024 + 1024 * of_nat k) OR 0x1e1"
    using Suc.IH [OF pte Suc_leD [OF Suc.prems(2)], of "p + 4" ?w] by blast
  have "\<forall>k<n. p \<noteq> (p + 4) + 4 * of_nat k"
  proof (intro allI impI)
    fix k assume "k < n"
    then show "p \<noteq> (p + 4) + 4 * of_nat k" using step_nonzero [of "Suc k"] Suc.prems(2) by (simp add: algebra_simps)
  qed
  from activate_loop_outside [OF s'(1) this] have z: "wmem s' p = pte OR 0x1e1" by (simp add: write_word_def)
  have "wmem s' (p + 4 * of_nat k) = (pte + 1024 * of_nat k) OR 0x1e1" if "k < Suc n" for k
    using z s'(2) [rule_format, of "k - 1"] that by (cases k) (simp_all add: algebra_simps)
  then show ?case using s'(1) Suc.prems(1) by (simp add: high_masks(7))
qed simp

lemma aligned_less: "(x::u32) AND mask k = 0 \<Longrightarrow> m \<le> k \<Longrightarrow> x AND mask m = 0"
  unfolding aligned_dvd by (rule dvd_trans [OF le_imp_power_dvd])

lemma page_entry:
  assumes "wmem s (first_table lay + 4 * drop_bit 20 va) = base OR 0x1e1" "base AND mask 10 = 0"
    "wmem s (base + 4 * (drop_bit 12 va AND 0xff)) = x OR 0xd76" "x AND mask 12 = 0"
  shows "translate lay s va = Some (x + (va AND 0xfff))"
proof -
  have "base AND mask 2 = 0" using assms(2) by (rule aligned_less) simp
  then have e1: "(base OR 0x1e1) AND 3 = 1" unfolding bit.conj_disj_distrib2 high_masks(8) [symmetric] by simp
  have e2: "(base OR 0x1e1) AND 0xfffffc00 = base"
    unfolding bit.conj_disj_distrib2 high_masks(3) clear_low [OF assms(2)] by (simp flip: high_masks(3))
  have "x AND mask 2 = 0" using assms(4) by (rule aligned_less) simp
  then have "x AND 3 = 0" unfolding high_masks(8) .
  moreover have "x AND 2 = (x AND 3) AND 2" by (simp add: and.assoc)
  ultimately have "x AND 2 = 0" by simp
  then have e3: "(x OR 0xd76) AND 2 = 2" unfolding bit.conj_disj_distrib2 by simp
  have e4: "(x OR 0xd76) AND 0xfffff000 = x"
    unfolding bit.conj_disj_distrib2 high_masks(2) clear_low [OF assms(4)] by (simp flip: high_masks(2))
  have e5: "x OR (va AND 0xfff) = x + (va AND 0xfff)" by (rule or_low) (use assms(4) in \<open>simp add: high_masks(5)\<close>)
  show ?thesis unfolding translate_def Let_def assms(1) e1 e2 assms(3) e3 e4 e5 by simp
qed

lemma offset_parts:
  assumes "(vaddr::u32) AND mask 20 = 0" "unat vaddr + off < 2 ^ 32"
  shows "drop_bit 20 (vaddr + of_nat off) = drop_bit 20 vaddr + of_nat (off div 2 ^ 20)"
    "drop_bit 12 (vaddr + of_nat off) AND 0xff = of_nat (off div 2 ^ 12 mod 256)"
    "(vaddr + of_nat off) AND 0xfff = of_nat (off mod 2 ^ 12)"
    "unat (drop_bit 20 vaddr) = unat vaddr div 2 ^ 20"
proof -
  obtain v where v: "unat vaddr = 2 ^ 20 * v" using assms(1) unfolding aligned_dvd by (rule dvdE)
  have o: "unat (of_nat off :: u32) = off" using assms(2) by (simp only: unsigned_of_nat) (simp add: take_bit_nat_eq_self)
  have u: "unat (vaddr + of_nat off) = 2 ^ 20 * v + off"
    using assms(2) unfolding unat_word_ariths o v by simp
  have w: "w = of_nat (unat w)" for w :: u32 by simp
  have "unat (drop_bit 20 (vaddr + of_nat off)) = v + off div 2 ^ 20" unfolding unat_index(1) u by simp
  moreover have "unat (drop_bit 20 vaddr) = v" unfolding unat_index(1) v by simp
  ultimately show "drop_bit 20 (vaddr + of_nat off) = drop_bit 20 vaddr + of_nat (off div 2 ^ 20)"
    by (metis of_nat_add w)
  show "unat (drop_bit 20 vaddr) = unat vaddr div 2 ^ 20" by (rule unat_index(1))
  have "unat (take_bit 8 (drop_bit 12 (vaddr + of_nat off))) = (2 ^ 20 * v + off) div 2 ^ 12 mod 2 ^ 8"
    unfolding unsigned_take_bit_eq by (simp add: take_bit_eq_mod drop_bit_eq_div unat_div u)
  also have "(2 ^ 20 * v + off) div 2 ^ 12 mod 2 ^ 8 = off div 2 ^ 12 mod 256"
  proof -
    have "2 ^ 20 * v + off = off + (256 * v) * 2 ^ 12" by simp
    then have "(2 ^ 20 * v + off) div 2 ^ 12 = off div 2 ^ 12 + 256 * v" by simp
    then show ?thesis by simp
  qed
  finally show "drop_bit 12 (vaddr + of_nat off) AND 0xff = of_nat (off div 2 ^ 12 mod 256)"
    unfolding high_masks(6) take_bit_eq_mask [symmetric] using w by metis
  have "unat (take_bit 12 (vaddr + of_nat off)) = (2 ^ 20 * v + off) mod 2 ^ 12"
    unfolding unsigned_take_bit_eq u by (simp add: take_bit_eq_mod)
  also have "\<dots> = off mod 2 ^ 12"
  proof -
    have "2 ^ 20 * v + off = off + (256 * v) * 2 ^ 12" by simp
    then show ?thesis by (simp only: mod_mult_self1)
  qed
  finally show "(vaddr + of_nat off) AND 0xfff = of_nat (off mod 2 ^ 12)"
    unfolding high_masks(5) take_bit_eq_mask [symmetric] using w by metis
qed

lemma table_num_le: "table_num len \<le> 4096"
  using unat_index [of len] by (simp add: table_num_def Let_def)

lemma offset_sum: "off = off div 2 ^ 20 * 2 ^ 20 + off div 2 ^ 12 mod 256 * 2 ^ 12 + off mod 2 ^ (12::nat)" for off :: nat
proof -
  have gen: "off = a * 4096 + r \<Longrightarrow> a = d * 256 + j \<Longrightarrow> off = d * 1048576 + j * 4096 + r" for off a r d j :: nat by simp
  have "off = off div 4096 * 4096 + off mod 4096" by (rule div_mult_mod_eq [symmetric])
  moreover have "off div 4096 = off div 4096 div 256 * 256 + off div 4096 mod 256" by (rule div_mult_mod_eq [symmetric])
  ultimately have "off = off div 4096 div 256 * 1048576 + off div 4096 mod 256 * 4096 + off mod 4096" by (rule gen)
  moreover have "off div 4096 div 256 = off div 1048576" by (simp flip: div_mult2_eq)
  ultimately show ?thesis by simp
qed

text \<open>The two steps of making a user space current: the second-level tables are filled when it is mapped, and entered in the first-level
  table when it is activated. The tables must not overlap.\<close>

definition tables_apart :: "layout \<Rightarrow> u32 \<Rightarrow> nat \<Rightarrow> bool" where
  "tables_apart lay L2 n \<longleftrightarrow> (\<forall>k<4096. \<forall>q<256 * n. first_table lay + 4 * of_nat k \<noteq> L2 + 4 * of_nat q)"

text \<open>Activating a space leaves its second-level tables alone.\<close>

lemma activate_keeps_tables:
  assumes al: "vaddr AND mask 20 = 0" and fit: "unat vaddr + n * 2 ^ 20 \<le> 2 ^ 32" and apart: "tables_apart lay L2 n"
    and act: "activate_loop n (first_table lay + 4 * drop_bit 20 vaddr) L2 s1 = Some s2" and q: "q < 256 * n"
  shows "wmem s2 (L2 + 4 * of_nat q) = wmem s1 (L2 + 4 * of_nat q)"
proof (rule activate_loop_outside [OF act], intro allI impI)
  fix k assume k: "k < n"
  have "unat vaddr + 0 < 2 ^ 32" using unsigned_less [of vaddr, where ?'a = nat] by simp
  note idx = offset_parts(4) [OF al this]
  have a: "drop_bit 20 vaddr = of_nat (unat vaddr div 2 ^ 20)" unfolding idx [symmetric] by simp
  have "unat vaddr div 2 ^ 20 + n \<le> 4096" using fit by (simp add: div_le_mono)
  then have "unat vaddr div 2 ^ 20 + k < 4096" using k by linarith
  then have "first_table lay + 4 * of_nat (unat vaddr div 2 ^ 20 + k) \<noteq> L2 + 4 * of_nat q"
    using apart q unfolding tables_apart_def by blast
  then show "L2 + 4 * of_nat q \<noteq> first_table lay + 4 * drop_bit 20 vaddr + 4 * of_nat k" unfolding a by (simp add: algebra_simps)
qed

text \<open>The translation of one address from the entries that the two loops have written.\<close>

lemma usr_address_translates:
  assumes al: "L2 AND mask 10 = 0" "vaddr AND mask 20 = 0" "paddr AND mask 12 = 0"
    and fit: "unat vaddr + n * 2 ^ 20 \<le> 2 ^ 32" and off: "off < n * 2 ^ 20"
    and first: "\<forall>k<n. wmem s (first_table lay + 4 * drop_bit 20 vaddr + 4 * of_nat k) = (L2 + 1024 * of_nat k) OR 0x1e1"
    and second: "\<forall>t<n. \<forall>j<256. wmem s (L2 + 4 * of_nat (256 * t + j)) = (paddr + push_bit 20 (of_nat t) + push_bit 12 (of_nat j)) OR 0xd76"
  shows "translate lay s (vaddr + of_nat off) = Some (paddr + of_nat off)"
proof -
  let ?t = "off div 2 ^ 20" and ?j = "off div 2 ^ 12 mod 256" and ?r = "off mod 2 ^ 12"
  let ?base = "L2 + 1024 * of_nat ?t" and ?x = "paddr + push_bit 20 (of_nat ?t) + push_bit 12 (of_nat ?j)"
  have t: "?t < n" using off by (simp add: less_mult_imp_div_less)
  have j: "?j < 256" by simp
  have lt: "unat vaddr + off < 2 ^ 32" using off fit by linarith
  note parts = offset_parts [OF al(2) lt]
  have base: "?base AND mask 10 = 0" using al(1) times_1024 by (rule aligned_add) simp
  have x: "?x AND mask 12 = 0" using al(3) by (intro page_aligned aligned_add) (simp_all add: push_low)
  have e2: "wmem s (?base + 4 * of_nat ?j) = ?x OR 0xd76" using second [rule_format, OF t j] by (simp add: algebra_simps)
  have e1: "wmem s (first_table lay + 4 * drop_bit 20 (vaddr + of_nat off)) = ?base OR 0x1e1"
    using first [rule_format, OF t] unfolding parts(1) by (simp add: algebra_simps)
  have "wmem s (?base + 4 * (drop_bit 12 (vaddr + of_nat off) AND 0xff)) = ?x OR 0xd76" unfolding parts(2) by (rule e2)
  from page_entry [OF e1 base this x]
  have "translate lay s (vaddr + of_nat off) = Some (?x + ((vaddr + of_nat off) AND 0xfff))" .
  also have "?x + ((vaddr + of_nat off) AND 0xfff) = paddr + of_nat (?t * 2 ^ 20 + ?j * 2 ^ 12 + ?r)"
    unfolding parts(3) by (simp add: push_bit_eq_mult)
  finally show ?thesis unfolding offset_sum [of off, symmetric] .
qed

text \<open>Nothing else in the first-level table changes.\<close>

lemma activate_keeps_first:
  assumes v: "v = unat (drop_bit 20 vaddr)" "v + n \<le> 4096" and apart: "tables_apart lay L2 n"
    and map: "map_loop n L2 paddr 0 s = Some s1" and act: "activate_loop n (first_table lay + 4 * drop_bit 20 vaddr) L2 s1 = Some s2"
    and k: "k < 4096" "k < v \<or> v + n \<le> k"
  shows "wmem s2 (first_table lay + 4 * of_nat k) = wmem s (first_table lay + 4 * of_nat k)"
proof -
  have "first_table lay + 4 * of_nat k \<noteq> first_table lay + 4 * drop_bit 20 vaddr + 4 * of_nat j" if "j < n" for j
  proof -
    have "first_table lay + 4 * of_nat k \<noteq> first_table lay + 4 * of_nat (v + j)"
      by (rule steps_distinct) (use that v(2) k in auto)
    then show ?thesis by (simp add: v(1) algebra_simps)
  qed
  then have "wmem s2 (first_table lay + 4 * of_nat k) = wmem s1 (first_table lay + 4 * of_nat k)"
    using activate_loop_outside [OF act] by blast
  also have "\<dots> = wmem s (first_table lay + 4 * of_nat k)"
    using map_loop_outside [OF map] apart k(1) unfolding tables_apart_def by blast
  finally show ?thesis .
qed

text \<open>C38. Mapping a user space and activating it end, and then the first \<open>max 1 (length / 2 ^ 20)\<close> megabytes of the space are translated to
  the physical memory they were mapped to, at the same offset; the entries of the first-level table for all other addresses are as before.
  So the length is rounded down to megabytes, where the comment promises rounding up (\<open>usr_space_rounds_down\<close>), and both calls answer
  -1, which the comment gives as failure.\<close>

theorem usr_space_translates:
  assumes "L2 AND mask 10 = 0" "vaddr AND mask 20 = 0" "paddr AND mask 12 = 0"
    "unat vaddr + table_num len * 2 ^ 20 \<le> 2 ^ 32" "tables_apart lay L2 (table_num len)"
  shows "\<exists>uvs' s1 s2. mmu_map_usr_space L2 vaddr paddr len uvs s = Some (- 1, uvs', s1) \<and>
    mmu_activate_usr_space lay uvs' s1 = Some (- 1, s2) \<and>
    (\<forall>off < max 1 (unat len div 2 ^ 20) * 2 ^ 20. translate lay s2 (vaddr + of_nat off) = Some (paddr + of_nat off)) \<and>
    (\<forall>k < 4096. k < unat vaddr div 2 ^ 20 \<or> unat vaddr div 2 ^ 20 + max 1 (unat len div 2 ^ 20) \<le> k \<longrightarrow>
      wmem s2 (first_table lay + 4 * of_nat k) = wmem s (first_table lay + 4 * of_nat k))"
proof -
  let ?n = "table_num len" and ?p = "first_table lay + 4 * drop_bit 20 vaddr"
  let ?uvs = "uvs\<lparr>vaddr_start := vaddr, L2table_addr := L2, uv_length := len\<rparr>"
  obtain s1 where s1: "map_loop ?n L2 paddr 0 s = Some s1"
      "\<forall>t<?n. \<forall>j<256. wmem s1 (L2 + 4 * of_nat (256 * t + j)) = (paddr + push_bit 20 (0 + of_nat t) + push_bit 12 (of_nat j)) OR 0xd76"
    using map_loop_ok [OF assms(3,1) table_num_le, of len 0 s] by blast
  obtain s2 where s2: "activate_loop ?n ?p L2 s1 = Some s2"
      "\<forall>k<?n. wmem s2 (?p + 4 * of_nat k) = (L2 + 1024 * of_nat k) OR 0x1e1"
    using activate_loop_ok [OF assms(1) table_num_le, of len ?p s1] by blast
  have "256 * t + j < 256 * ?n" if "t < ?n" "j < 256" for t j :: nat using that by linarith
  then have second: "\<forall>t<?n. \<forall>j<256. wmem s2 (L2 + 4 * of_nat (256 * t + j)) = (paddr + push_bit 20 (of_nat t) + push_bit 12 (of_nat j)) OR 0xd76"
    using s1(2) activate_keeps_tables [OF assms(2,4,5) s2(1)] by (simp del: of_nat_add of_nat_mult)
  note map = usr_address_translates [OF assms(1-4) _ s2(2) this]
  have n: "?n = max 1 (unat len div 2 ^ 20)" unfolding unat_index(1) [symmetric] by (auto simp: table_num_def Let_def max_def Suc_le_eq unat_gt_0)
  have "unat vaddr div 2 ^ 20 + ?n \<le> 4096" using assms(4) by (simp add: div_le_mono)
  note keep = activate_keeps_first [OF _ _ assms(5) s1(1) s2(1), of "unat vaddr div 2 ^ 20", unfolded unat_index(1), OF refl this]
  show ?thesis using s1(1) s2(1) map keep unfolding n [symmetric]
    by (intro exI [of _ ?uvs] exI [of _ s1] exI [of _ s2]) (simp add: mmu_map_usr_space_def mmu_activate_usr_space_def)
qed

lemma usr_space_rounds_down: "table_num 0x180000 = 1"
  by (simp add: table_num_def)

definition ex_layout :: layout where
  "ex_layout = \<lparr>first_table = 0x4000, second_tables = 0x8000000, usr_space_start = 0x30000000, usr_space_end = 0x30200000,
     L2tables_start = 0x100000, L2tables_end = 0x110000\<rparr>"

definition ex_mmu :: mmu where
  "ex_mmu = \<lparr>wmem = (\<lambda>_. 0), sctlr = 0, ttbr0 = 0, contextidr = 0, usr_space_alloc_index = 0, L2tables_alloc_index = 0\<rparr>"

lemma ex_tables_apart: "tables_apart ex_layout 0x100000 1"
proof -
  have "0x4000 + 4 * of_nat k \<noteq> (0x100000 + 4 * of_nat q :: u32)" if "k < 4096" "q < 256" for k q :: nat
  proof -
    have "(0x4000::u32) + 4 * of_nat k \<noteq> 0x4000 + 4 * of_nat (0x3f000 + q)"
      using that by (intro steps_distinct) simp_all
    then show ?thesis by simp
  qed
  then show ?thesis by (simp add: tables_apart_def ex_layout_def)
qed

theorem usr_space_translates_witness:
  "\<exists>uvs' s1 s2. mmu_map_usr_space 0x100000 0xc0000000 0x30000000 0x180000 \<lparr>asid = 0, vaddr_start = 0, uv_length = 0, L2table_addr = 0\<rparr> ex_mmu
     = Some (- 1, uvs', s1) \<and> mmu_activate_usr_space ex_layout uvs' s1 = Some (- 1, s2) \<and>
    translate ex_layout s2 0xc00fffff = Some 0x300fffff \<and> translate ex_layout s2 0xc0100000 = None"
proof -
  have "table_num 0x180000 = 1" by (simp add: table_num_def)
  then have "tables_apart ex_layout 0x100000 (table_num 0x180000)" "unat (0xc0000000 :: u32) + table_num 0x180000 * 2 ^ 20 \<le> 2 ^ 32"
    using ex_tables_apart by simp_all
  from usr_space_translates [where paddr = "0x30000000" and uvs = "\<lparr>asid = 0, vaddr_start = 0, uv_length = 0, L2table_addr = 0\<rparr>" and s = ex_mmu,
      OF _ _ _ this(2,1)]
  obtain uvs' s1 s2 where u: "mmu_map_usr_space 0x100000 0xc0000000 0x30000000 0x180000 \<lparr>asid = 0, vaddr_start = 0, uv_length = 0, L2table_addr = 0\<rparr> ex_mmu
     = Some (- 1, uvs', s1)" "mmu_activate_usr_space ex_layout uvs' s1 = Some (- 1, s2)"
    and t: "\<forall>off < 2 ^ 20. translate ex_layout s2 (0xc0000000 + of_nat off) = Some (0x30000000 + of_nat off)"
    and k: "\<forall>k < 4096. k < 3072 \<or> 3073 \<le> k \<longrightarrow> wmem s2 (0x4000 + 4 * of_nat k) = 0"
    by (auto simp: mask_eq_exp_minus_1 ex_layout_def ex_mmu_def)
  have "translate ex_layout s2 0xc00fffff = Some 0x300fffff" using t [rule_format, of "0xfffff"] by simp
  moreover have "wmem s2 0x7004 = 0" using k [rule_format, of "3073"] by simp
  then have "translate ex_layout s2 0xc0100000 = None" by (simp add: translate_def ex_layout_def)
  ultimately show ?thesis using u by blast
qed

theorem L1table_maps_region_witness:
  "\<exists>s'. mmu_set_L1table ex_layout 0x40000000 0x7fffffff 0x100000 0xc02 ex_mmu = Some s' \<and>
    translate ex_layout s' 0x40012345 = Some 0x112345"
proof -
  obtain s' where "mmu_set_L1table ex_layout 0x40000000 0x7fffffff 0x100000 0xc02 ex_mmu = Some s'"
    "\<forall>va. if drop_bit 20 0x40000000 \<le> drop_bit 20 va \<and> drop_bit 20 va \<le> (drop_bit 20 0x7fffffff :: u32)
      then translate ex_layout s' va = Some (push_bit 20 (drop_bit 20 0x100000 + (drop_bit 20 va - drop_bit 20 0x40000000)) OR (va AND 0xfffff))
      else wmem s' (first_table ex_layout + 4 * drop_bit 20 va) = wmem ex_mmu (first_table ex_layout + 4 * drop_bit 20 va)"
    using L1table_maps_region [of "0x40000000" "0x7fffffff" "0xc02" ex_layout "0x100000" ex_mmu] by auto
  then show ?thesis using spec [where x = "0x40012345"] by fastforce
qed

section \<open>Corner cases\<close>

text \<open>A region that is not a multiple of a megabyte passes the test of its length; the second-level mapping leaves out its last
  megabyte.\<close>

lemma L1table_unaligned: "mmu_set_L1table ex_layout 0x100 0x101 0 2 ex_mmu \<noteq> None"
  by (simp add: mmu_set_L1table_def Let_def)

lemma L2table_one_megabyte: "mmu_set_L2table ex_layout 0x40000000 0x400fffff 0x100000 0 ex_mmu = Some ex_mmu"
  by (simp add: mmu_set_L2table_def Let_def)

end
