(* ===== verification/Cmd.thy ===== *)
theory Cmd
  imports Print Queue
begin

text \<open>
  The command interpreter of the shell (\<^verbatim>\<open>components/ash/src/cmd.c\<close>): the splitting of a line into arguments, the queue of
  commands and the execution of a line. Lines are in the byte memory of theory \<open>Str\<close>; the array of arguments is a list of
  optional addresses, and an access outside its eight entries has the value \<open>None\<close>. What a command does is an argument of the definitions. What is printed is the list of bytes written; the lock around printing is in theory \<open>Print\<close>.
\<close>

section \<open>Splitting a line\<close>

definition MAX_ARGS_NUM :: nat where "MAX_ARGS_NUM = 8"

datatype parse_state = PS_WHITESPACE | PS_TOKEN | PS_STRING | PS_ESCAPE

type_synonym args = "int option list"

definition set_arg :: "args \<Rightarrow> nat \<Rightarrow> int option \<Rightarrow> args option" where
  "set_arg argv i a = (if i < length argv then Some (argv[i := a]) else None)"

text \<open>The variables of the scan.\<close>

record scan =
  smem :: bytes
  argstr :: int
  s_argc :: nat
  s_argv :: args
  lastState :: parse_state
  stacked_state :: parse_state

definition put_zero :: "scan \<Rightarrow> scan option" where
  "put_zero k = do { m \<leftarrow> store (smem k) (argstr k) 0; Some (k\<lparr>smem := m\<rparr>) }"

definition put_arg :: "int \<Rightarrow> scan \<Rightarrow> scan option" where
  "put_arg a k = do { v \<leftarrow> set_arg (s_argv k) (s_argc k) (Some a); Some (k\<lparr>s_argv := v, s_argc := s_argc k + 1\<rparr>) }"

definition to_state :: "parse_state \<Rightarrow> scan \<Rightarrow> scan" where
  "to_state st k = k\<lparr>lastState := st, argstr := argstr k + 1\<rparr>"

definition stops :: "u8 \<Rightarrow> scan \<Rightarrow> bool" where
  "stops c k \<longleftrightarrow> c = 0 \<or> s_argc k \<ge> MAX_ARGS_NUM \<or> (c = 59 \<and> lastState k \<noteq> PS_STRING \<and> lastState k \<noteq> PS_ESCAPE)"

text \<open>One character. Behind an opening quote the position advances twice.\<close>

definition parse_step :: "u8 \<Rightarrow> scan \<Rightarrow> scan option" where
  "parse_step c k =
     (if lastState k = PS_ESCAPE then Some (to_state (stacked_state k) k)
      else if lastState k = PS_STRING then
        (if c = 34 then map_option (to_state PS_WHITESPACE) (put_zero k) else Some (to_state PS_STRING k))
      else if c = 32 \<or> c = 9 then map_option (to_state PS_WHITESPACE) (put_zero k)
      else if c = 34 then do {
        k \<leftarrow> put_zero k;
        let k = k\<lparr>argstr := argstr k + 1\<rparr>;
        k \<leftarrow> put_arg (argstr k) k;
        Some (to_state PS_STRING k)
      }
      else if c = 92 then Some (to_state PS_ESCAPE (k\<lparr>stacked_state := lastState k\<rparr>))
      else do {
        k \<leftarrow> (if lastState k = PS_WHITESPACE then put_arg (argstr k) k else Some k);
        Some (to_state PS_TOKEN k)
      })"

partial_function (option) parse_loop :: "scan \<Rightarrow> scan option" where
  "parse_loop k =
     do {
       c \<leftarrow> smem k (argstr k);
       if stops c k then Some k else do { k \<leftarrow> parse_step c k; parse_loop k }
     }"

text \<open>The result: the memory, the number of arguments, the arguments, the rest of the line and the state kept.\<close>

definition parse_args :: "bytes \<Rightarrow> int \<Rightarrow> args \<Rightarrow> parse_state \<Rightarrow> (bytes \<times> nat \<times> args \<times> int \<times> parse_state) option" where
  "parse_args m p argv stacked =
     do {
       k \<leftarrow> parse_loop \<lparr>smem = m, argstr = p, s_argc = 0, s_argv = argv, lastState = PS_WHITESPACE, stacked_state = stacked\<rparr>;
       argv \<leftarrow> set_arg (s_argv k) (s_argc k) None;
       c \<leftarrow> smem k (argstr k);
       if c = 59 then do { m \<leftarrow> store (smem k) (argstr k) 0; Some (m, s_argc k, argv, argstr k + 1, stacked_state k) }
       else Some (smem k, s_argc k, argv, argstr k, stacked_state k)
     }"

section \<open>Commands\<close>

datatype cmd_node = CmdQ | CmdL nat

record ash_cmd =
  cmd_name :: int
  cmd_comment :: int

text \<open>The state of the interpreter: the byte memory, the queue of commands, the commands and the output.\<close>

record ash =
  amem :: bytes
  cmd_heap :: "cmd_node lheap"
  cmds :: "nat \<Rightarrow> ash_cmd"
  printed :: "u8 list"

type_synonym 'a cmd_exe = "nat \<Rightarrow> nat \<Rightarrow> args \<Rightarrow> 'a ash_scheme \<Rightarrow> 'a ash_scheme option"

text \<open>A string literal is at an address of its own, which no pointer of the program has: below zero.\<close>

definition literal :: "string \<Rightarrow> u8 list" where
  "literal cs = map (\<lambda>c. of_nat (of_char c)) cs @ [0]"

definition with_literal :: "bytes \<Rightarrow> string \<Rightarrow> bytes" where
  "with_literal m cs = (\<lambda>a. if - 256 \<le> a \<and> a < - 256 + int (length (literal cs)) then Some (literal cs ! nat (a + 256)) else m a)"

definition acoral_prints :: "string \<Rightarrow> u32 list \<Rightarrow> 'a ash_scheme \<Rightarrow> 'a ash_scheme option" where
  "acoral_prints fmt args w = do { r \<leftarrow> print_loop (with_literal (amem w) fmt) (- 256) args; Some (w\<lparr>printed := printed w @ r\<rparr>) }"

definition ash_cmd_register :: "nat \<Rightarrow> 'a ash_scheme \<Rightarrow> 'a ash_scheme option" where
  "ash_cmd_register i w = do { h \<leftarrow> acoral_fifo_queue_add CmdQ (CmdL i) (cmd_heap w); Some (w\<lparr>cmd_heap := h\<rparr>) }"

fun cmd_entry :: "cmd_node \<Rightarrow> nat option" where
  "cmd_entry (CmdL i) = Some i"
| "cmd_entry CmdQ = None"

text \<open>\<open>Some None\<close> is \<^verbatim>\<open>NULL\<close>.\<close>

partial_function (option) find_loop :: "'a ash_scheme \<Rightarrow> cmd_node \<Rightarrow> int \<Rightarrow> nat option option" where
  "find_loop w tmp cmdname =
     (if tmp = CmdQ then Some None
      else do {
        i \<leftarrow> cmd_entry tmp;
        r \<leftarrow> acoral_str_cmp (amem w) (cmd_name (cmds w i)) cmdname;
        if r = 0 then Some (Some i) else find_loop w (lnext (cmd_heap w) tmp) cmdname
      })"

definition find_cmd :: "int \<Rightarrow> 'a ash_scheme \<Rightarrow> nat option option" where
  "find_cmd cmdname w =
     (if acoral_list_empty CmdQ (cmd_heap w) then Some None else find_loop w (lnext (cmd_heap w) CmdQ) cmdname)"

text \<open>The command name \<^verbatim>\<open>argv[0]\<close>; a null pointer is address 0.\<close>

definition real_cmd_exec :: "'a cmd_exe \<Rightarrow> nat \<Rightarrow> args \<Rightarrow> 'a ash_scheme \<Rightarrow> 'a ash_scheme option" where
  "real_cmd_exec exe argc argv w =
     (let name = (case argv ! 0 of None \<Rightarrow> 0 | Some a \<Rightarrow> a) in
      do {
        r \<leftarrow> find_cmd name w;
        case r of
          None \<Rightarrow> do {
            w \<leftarrow> acoral_prints (''Could not found '' @ [CHR 0x27] @ ''%s'' @ [CHR 0x27] @ '' command'' @ [CHR 0x0D, CHR 0x0A]) [word_of_int name] w;
            acoral_prints (''you can type '' @ [CHR 0x27] @ ''help'' @ [CHR 0x27, CHR 0x0D, CHR 0x0A]) [] w
          }
        | Some i \<Rightarrow> exe i argc argv w
      })"

partial_function (option) exe_loop :: "'a cmd_exe \<Rightarrow> int \<Rightarrow> parse_state \<Rightarrow> 'a ash_scheme \<Rightarrow> 'a ash_scheme option" where
  "exe_loop exe buf stacked w =
     do {
       c \<leftarrow> amem w buf;
       if c = 0 then Some w
       else do {
         (m, argc, argv, resid, stacked) \<leftarrow> parse_args (amem w) buf (replicate MAX_ARGS_NUM None) stacked;
         let w = w\<lparr>amem := m\<rparr>;
         w \<leftarrow> (if argc > 0 then real_cmd_exec exe argc argv w else Some w);
         exe_loop exe resid stacked w
       }
     }"

text \<open>The state kept for an escape is not initialised; it is read only after it has been set, and is an argument here.\<close>

definition acoral_ash_cmd_exe :: "'a cmd_exe \<Rightarrow> parse_state \<Rightarrow> int \<Rightarrow> 'a ash_scheme \<Rightarrow> 'a ash_scheme option" where
  "acoral_ash_cmd_exe exe junk buf w = exe_loop exe buf junk w"

partial_function (option) help_loop :: "cmd_node \<Rightarrow> 'a ash_scheme \<Rightarrow> 'a ash_scheme option" where
  "help_loop tmp w =
     (if tmp = CmdQ then Some w
      else do {
        i \<leftarrow> cmd_entry tmp;
        w \<leftarrow> acoral_prints (''%s  '' @ [CHR 0x09] @ ''%s'' @ [CHR 0x0D, CHR 0x0A])
               [word_of_int (cmd_name (cmds w i)), word_of_int (cmd_comment (cmds w i))] w;
        help_loop (lnext (cmd_heap w) tmp) w
      })"

definition cmd_help :: "nat \<Rightarrow> args \<Rightarrow> 'a ash_scheme \<Rightarrow> 'a ash_scheme option" where
  "cmd_help argc argv w = (if acoral_list_empty CmdQ (cmd_heap w) then Some w else help_loop (lnext (cmd_heap w) CmdQ) w)"

text \<open>The commands: 0 is \<^verbatim>\<open>ls_cmd\<close>, 1 is \<^verbatim>\<open>cd_cmd\<close> and 2 is \<^verbatim>\<open>help_cmd\<close>.\<close>

definition ash_cmd_init :: "'a ash_scheme \<Rightarrow> 'a ash_scheme option" where
  "ash_cmd_init w =
     do {
       let w = w\<lparr>cmd_heap := acoral_fifo_queue_init CmdQ (cmd_heap w)\<rparr>;
       w \<leftarrow> ash_cmd_register 0 w;
       w \<leftarrow> ash_cmd_register 1 w;
       ash_cmd_register 2 w
     }"

declare parse_loop.simps [code] and find_loop.simps [code] and exe_loop.simps [code] and help_loop.simps [code]

end
