(* ===== verification/Shell.thy ===== *)
theory Shell
  imports Cmd
begin

text \<open>
  The shell (\<^verbatim>\<open>components/ash/src/shell.c\<close>): the line editor with its escape sequences, the history of commands and the buffer of
  received characters. The arrays of the structure are in the byte memory, at the addresses the state gives; an access outside them is
  an access to an unmapped address. The serial line is the list of the characters that have arrived; its set-up and the interrupt
  handler, which posts the semaphore, program the device and are not modelled.
\<close>

definition ASH_HISTORY_LINES :: nat where "ASH_HISTORY_LINES = 5"
definition ASH_CMD_SIZE :: nat where "ASH_CMD_SIZE = 80"
definition ASH_PROMPT_SIZE :: nat where "ASH_PROMPT_SIZE = 81"

datatype input_stat = WAIT_NORMAL | WAIT_SPEC_KEY | WAIT_FUNC_KEY

record ash_shell = ash +
  stat :: input_stat
  echo_mode :: bool
  current_history :: u16
  history_count :: u16
  cmd_history :: int
  cur_dir :: int
  dir_change :: bool
  line :: int
  line_position :: u16
  line_curpos :: u16
  ash_prompt :: int
  shell_input :: "u8 list"
  get_pos :: nat
  input_pos :: nat

type_synonym 'a sh = "'a ash_shell_scheme"

definition in_mem :: "(bytes \<Rightarrow> bytes option) \<Rightarrow> 'a sh \<Rightarrow> 'a sh option" where
  "in_mem f w = do { m \<leftarrow> f (amem w); Some (w\<lparr>amem := m\<rparr>) }"

section \<open>Prompt\<close>

text \<open>Appending a literal.\<close>

definition cat_literal :: "int \<Rightarrow> string \<Rightarrow> bytes \<Rightarrow> bytes option" where
  "cat_literal dest cs m = do { m' \<leftarrow> acoral_str_cat (with_literal m cs) dest (- 256); Some (\<lambda>a. if a < 0 then m a else m' a) }"

definition ash_get_prompt :: "'a sh \<Rightarrow> (int \<times> 'a sh) option" where
  "ash_get_prompt w =
     (if dir_change w then
        do {
          w \<leftarrow> in_mem (\<lambda>m. acoral_memset m (ash_prompt w) 0 (of_nat ASH_PROMPT_SIZE)) w;
          w \<leftarrow> in_mem (cat_literal (ash_prompt w) ''aCoral:'') w;
          w \<leftarrow> in_mem (\<lambda>m. acoral_str_cat m (ash_prompt w) (cur_dir w)) w;
          w \<leftarrow> in_mem (cat_literal (ash_prompt w) ''$'') w;
          Some (ash_prompt w, w\<lparr>dir_change := False\<rparr>)
        }
      else Some (ash_prompt w, w))"

text \<open>The start of the loop of \<^verbatim>\<open>ash_shell_thread\<close>: the prompt is the format.\<close>

definition print_prompt :: "'a sh \<Rightarrow> 'a sh option" where
  "print_prompt w = do { (a, w) \<leftarrow> ash_get_prompt w; r \<leftarrow> print_loop (amem w) a []; Some (w\<lparr>printed := printed w @ r\<rparr>) }"

section \<open>History\<close>

definition shell_handle_history :: "'a sh \<Rightarrow> 'a sh option" where
  "shell_handle_history w =
     do {
       w \<leftarrow> acoral_prints ([CHR 0x1B] @ ''[2K'' @ [CHR 0x0D]) [] w;
       (a, w) \<leftarrow> ash_get_prompt w;
       acoral_prints ''%s%s'' [word_of_int a, word_of_int (line w)] w
     }"

definition hist_adr :: "int \<Rightarrow> 'a sh \<Rightarrow> int" where
  "hist_adr i w = cmd_history w + i * int ASH_CMD_SIZE"

definition set_entry :: "int \<Rightarrow> 'a sh \<Rightarrow> 'a sh option" where
  "set_entry i w =
     do {
       w \<leftarrow> in_mem (\<lambda>m. acoral_memset m (hist_adr i w) 0 (of_nat ASH_CMD_SIZE)) w;
       in_mem (\<lambda>m. acoral_memcpy m (hist_adr i w) (line w) (ucast (line_position w))) w
     }"

fun shift_history :: "nat \<Rightarrow> nat \<Rightarrow> 'a sh \<Rightarrow> 'a sh option" where
  "shift_history i 0 w = Some w"
| "shift_history i (Suc n) w =
     do { w \<leftarrow> in_mem (\<lambda>m. acoral_memcpy m (hist_adr (int i) w) (hist_adr (int i + 1) w) (of_nat ASH_CMD_SIZE)) w; shift_history (Suc i) n w }"

definition shell_push_history :: "'a sh \<Rightarrow> 'a sh option" where
  "shell_push_history w =
     do {
       w \<leftarrow> (if line_position w \<noteq> 0 then
               if unat (history_count w) \<ge> ASH_HISTORY_LINES then do {
                 r \<leftarrow> acoral_memcmp (amem w) (hist_adr (int ASH_HISTORY_LINES - 1) w) (line w) (of_nat ASH_CMD_SIZE);
                 if r \<noteq> 0 then do {
                   w \<leftarrow> shift_history 0 (ASH_HISTORY_LINES - 1) w;
                   w \<leftarrow> set_entry (int ASH_HISTORY_LINES - 1) w;
                   Some (w\<lparr>history_count := of_nat ASH_HISTORY_LINES\<rparr>)
                 } else Some w
               }
               else do {
                 r \<leftarrow> (if history_count w = 0 then Some 1
                      else acoral_memcmp (amem w) (hist_adr (uint (history_count w) - 1) w) (line w) (of_nat ASH_CMD_SIZE));
                 if r \<noteq> 0 then do {
                   let w = w\<lparr>current_history := history_count w\<rparr>;
                   w \<leftarrow> set_entry (uint (history_count w)) w;
                   Some (w\<lparr>history_count := history_count w + 1\<rparr>)
                 } else Some w
               }
             else Some w);
       Some (w\<lparr>current_history := history_count w\<rparr>)
     }"

text \<open>The entry of the current history becomes the line.\<close>

definition recall_history :: "'a sh \<Rightarrow> 'a sh option" where
  "recall_history w =
     do {
       w \<leftarrow> in_mem (\<lambda>m. acoral_memcpy m (line w) (hist_adr (uint (current_history w)) w) (of_nat ASH_CMD_SIZE)) w;
       n \<leftarrow> acoral_str_len (amem w) (line w);
       shell_handle_history (w\<lparr>line_position := ucast n, line_curpos := ucast n\<rparr>)
     }"

section \<open>Keys\<close>

definition key_up :: "'a sh \<Rightarrow> 'a sh option" where
  "key_up w =
     (if current_history w > 0 then recall_history (w\<lparr>current_history := current_history w - 1\<rparr>)
      else Some (w\<lparr>current_history := 0\<rparr>))"

definition key_down :: "'a sh \<Rightarrow> 'a sh option" where
  "key_down w =
     (if uint (current_history w) < uint (history_count w) - 1 then recall_history (w\<lparr>current_history := current_history w + 1\<rparr>)
      else if history_count w \<noteq> 0 then recall_history (w\<lparr>current_history := history_count w - 1\<rparr>)
      else Some w)"

definition key_left :: "'a sh \<Rightarrow> 'a sh option" where
  "key_left w =
     (if line_curpos w \<noteq> 0 then do { w \<leftarrow> acoral_prints [CHR 0x08] [] w; Some (w\<lparr>line_curpos := line_curpos w - 1\<rparr>) } else Some w)"

definition key_right :: "'a sh \<Rightarrow> 'a sh option" where
  "key_right w =
     (if line_curpos w < line_position w then do {
        c \<leftarrow> amem w (line w + uint (line_curpos w));
        w \<leftarrow> acoral_prints ''%c'' [ucast c] w;
        Some (w\<lparr>line_curpos := line_curpos w + 1\<rparr>)
      } else Some w)"

fun move_cursor :: "nat \<Rightarrow> 'a sh \<Rightarrow> 'a sh option" where
  "move_cursor 0 w = Some w"
| "move_cursor (Suc n) w = do { w \<leftarrow> acoral_prints [CHR 0x08] [] w; move_cursor n w }"

definition key_backspace :: "'a sh \<Rightarrow> 'a sh option" where
  "key_backspace w =
     (if line_curpos w \<noteq> 0 then
        let w = w\<lparr>line_position := line_position w - 1, line_curpos := line_curpos w - 1\<rparr>; at = line w + uint (line_curpos w)
        in if line_position w > line_curpos w then do {
             w \<leftarrow> in_mem (\<lambda>m. acoral_memmove m at (at + 1) (ucast (line_position w) - ucast (line_curpos w))) w;
             w \<leftarrow> in_mem (\<lambda>m. store m (line w + uint (line_position w)) 0) w;
             w \<leftarrow> acoral_prints ([CHR 0x08] @ ''%s  '' @ [CHR 0x08]) [word_of_int at] w;
             move_cursor (unat (line_position w) + 1 - unat (line_curpos w)) w
           }
           else do {
             w \<leftarrow> acoral_prints [CHR 0x08, CHR 0x20, CHR 0x08] [] w;
             in_mem (\<lambda>m. store m (line w + uint (line_position w)) 0) w
           }
      else Some w)"

text \<open>A character of the line; the result says whether the line was given up.\<close>

definition key_char :: "u8 \<Rightarrow> 'a sh \<Rightarrow> (bool \<times> 'a sh) option" where
  "key_char ch w =
     (if unat (line_position w) < ASH_CMD_SIZE then
        let at = line w + uint (line_curpos w) in
        do {
          w \<leftarrow> (if line_curpos w < line_position w then do {
                   w \<leftarrow> in_mem (\<lambda>m. acoral_memmove m (at + 1) at (ucast (line_position w) - ucast (line_curpos w))) w;
                   w \<leftarrow> in_mem (\<lambda>m. store m at ch) w;
                   w \<leftarrow> in_mem (\<lambda>m. store m (line w + uint (line_position w) + 1) 0) w;
                   w \<leftarrow> acoral_prints ''%s'' [word_of_int at] w;
                   move_cursor (unat (line_position w) - unat (line_curpos w)) w
                 }
                 else do {
                   w \<leftarrow> in_mem (\<lambda>m. store m at ch) w;
                   Some (if echo_mode w then w\<lparr>printed := printed w @ [ch]\<rparr> else w)
                 });
          Some (False, w\<lparr>line_position := line_position w + 1, line_curpos := line_curpos w + 1\<rparr>)
        }
      else do {
        w \<leftarrow> acoral_prints ([CHR 0x0D, CHR 0x0A] @ ''beyond cmd size, please try again'' @ [CHR 0x0D, CHR 0x0A]) [] w;
        Some (True, w\<lparr>line_position := 0, line_curpos := 0\<rparr>)
      })"

definition key_enter :: "'a ash_shell_ext cmd_exe \<Rightarrow> parse_state \<Rightarrow> 'a sh \<Rightarrow> 'a sh option" where
  "key_enter exe junk w =
     do {
       w \<leftarrow> shell_push_history w;
       w \<leftarrow> acoral_prints [CHR 0x0D, CHR 0x0A] [] w;
       w \<leftarrow> acoral_ash_cmd_exe exe junk (line w) w;
       w \<leftarrow> in_mem (\<lambda>m. acoral_memset m (line w) 0 (of_nat ASH_CMD_SIZE)) w;
       Some (w\<lparr>line_curpos := 0, line_position := 0\<rparr>)
     }"

definition key_normal :: "'a ash_shell_ext cmd_exe \<Rightarrow> parse_state \<Rightarrow> u8 \<Rightarrow> 'a sh \<Rightarrow> (bool \<times> 'a sh) option" where
  "key_normal exe junk ch w =
     (if ch = 0x08 \<or> ch = 0x7F then map_option (Pair False) (key_backspace w)
      else if ch = 13 \<or> ch = 10 then map_option (Pair True) (key_enter exe junk w)
      else key_char ch w)"

text \<open>One received character; the result says whether \<^verbatim>\<open>ash_cmd_process\<close> returns.\<close>

definition shell_key :: "'a ash_shell_ext cmd_exe \<Rightarrow> parse_state \<Rightarrow> u8 \<Rightarrow> 'a sh \<Rightarrow> (bool \<times> 'a sh) option" where
  "shell_key exe junk ch w =
     (if ch = 0x1b then Some (False, w\<lparr>stat := WAIT_SPEC_KEY\<rparr>)
      else if stat w = WAIT_SPEC_KEY then
        if ch = 0x5b then Some (False, w\<lparr>stat := WAIT_FUNC_KEY\<rparr>) else key_normal exe junk ch (w\<lparr>stat := WAIT_NORMAL\<rparr>)
      else if stat w = WAIT_FUNC_KEY then
        let w = w\<lparr>stat := WAIT_NORMAL\<rparr>
        in if ch = 0x41 then map_option (Pair False) (key_up w)
           else if ch = 0x42 then map_option (Pair False) (key_down w)
           else if ch = 0x44 then map_option (Pair False) (key_left w)
           else if ch = 0x43 then map_option (Pair False) (key_right w)
           else key_normal exe junk ch w
      else key_normal exe junk ch w)"

section \<open>Received characters\<close>

definition next_pos :: "nat \<Rightarrow> nat" where
  "next_pos i = (if i + 1 = ASH_CMD_SIZE then 0 else i + 1)"

fun recv_loop :: "u8 list \<Rightarrow> 'a sh \<Rightarrow> (u8 list \<times> 'a sh)" where
  "recv_loop [] w = ([], w)"
| "recv_loop (b # fifo) w =
     (if shell_input w ! input_pos w = 0
      then recv_loop fifo (w\<lparr>shell_input := (shell_input w)[input_pos w := b], input_pos := next_pos (input_pos w)\<rparr>)
      else (b # fifo, w))"

partial_function (option) key_loop :: "'a ash_shell_ext cmd_exe \<Rightarrow> parse_state \<Rightarrow> 'a sh \<Rightarrow> (bool \<times> 'a sh) option" where
  "key_loop exe junk w =
     (let ch = shell_input w ! get_pos w in
      if ch = 0 then Some (False, w)
      else do {
        (returns, w) \<leftarrow> shell_key exe junk ch (w\<lparr>shell_input := (shell_input w)[get_pos w := 0], get_pos := next_pos (get_pos w)\<rparr>);
        if returns then Some (True, w) else key_loop exe junk w
      })"

text \<open>One round of the loop of \<^verbatim>\<open>ash_cmd_process\<close>, after the semaphore was taken.\<close>

definition ash_cmd_process :: "'a ash_shell_ext cmd_exe \<Rightarrow> parse_state \<Rightarrow> u8 list \<Rightarrow> 'a sh \<Rightarrow> (u8 list \<times> bool \<times> 'a sh) option" where
  "ash_cmd_process exe junk fifo w =
     (let (fifo, w) = recv_loop fifo w in do { (returns, w) \<leftarrow> key_loop exe junk w; Some (fifo, returns, w) })"

text \<open>The initialisation of the structure; \<open>root\<close> is the address of the literal \<^verbatim>\<open>"/"\<close>.\<close>

definition acoral_ash_shell_init :: "int \<Rightarrow> 'a sh \<Rightarrow> 'a sh option" where
  "acoral_ash_shell_init root w =
     do {
       w \<leftarrow> ash_cmd_init w;
       let w = w\<lparr>echo_mode := True, current_history := 0, history_count := 0, line_curpos := 0, line_position := 0, cur_dir := root,
                 dir_change := True\<rparr>;
       w \<leftarrow> in_mem (\<lambda>m. acoral_memset m (cmd_history w) 0 (of_nat (ASH_HISTORY_LINES * ASH_CMD_SIZE))) w;
       in_mem (\<lambda>m. acoral_memset m (line w) 0 (of_nat ASH_CMD_SIZE)) w
     }"

declare key_loop.simps [code]

end
