(* ===== verification/Dircmd.thy ===== *)
theory Dircmd
  imports Shell Strfind
begin

text \<open>
  The commands \<^verbatim>\<open>ls\<close> and \<^verbatim>\<open>cd\<close> (\<^verbatim>\<open>components/ash/src/cmd.c\<close>). The file system (FatFs) is a parameter: whether a directory opens
  and the names it lists. The addresses of the local array \<^verbatim>\<open>path\<close>, of the static \<^verbatim>\<open>fno.fname\<close> and of the memory that
  \<^verbatim>\<open>acoral_vol_malloc\<close> returns for a size are parameters too; the heap behind the latter is in theory \<open>Volmem\<close>. Paths are
  strings in the byte memory of theory \<open>Str\<close>.
\<close>

record dir_env =
  opendir :: "u8 list \<Rightarrow> u8 list list option"
  path_adr :: int
  fname_adr :: int
  tmp_adr :: "nat \<Rightarrow> int"

section \<open>Strings\<close>

text \<open>The string at an address, without its terminating zero, as the file system reads it.\<close>

partial_function (option) read_str :: "bytes \<Rightarrow> int \<Rightarrow> u8 list option" where
  "read_str m a = do { c \<leftarrow> m a; if c = 0 then Some [] else do { cs \<leftarrow> read_str m (a + 1); Some (c # cs) } }"

declare read_str.simps [code]

abbreviation slash :: u8 where "slash \<equiv> 47"

text \<open>Comparison with and copy of a literal.\<close>

definition cmp_literal :: "bytes \<Rightarrow> int \<Rightarrow> string \<Rightarrow> u32 option" where
  "cmp_literal m a cs = acoral_str_cmp (with_literal m cs) a (- 256)"

definition cpy_literal :: "int \<Rightarrow> string \<Rightarrow> bytes \<Rightarrow> bytes option" where
  "cpy_literal dest cs m = do { m' \<leftarrow> acoral_str_cpy (with_literal m cs) dest (- 256); Some (\<lambda>a. if a < 0 then m a else m' a) }"

text \<open>A slash at the end of an argument is removed; for the empty argument the byte in front of it is read.\<close>

definition trim_slash :: "int \<Rightarrow> bytes \<Rightarrow> bytes option" where
  "trim_slash a m =
     do {
       n \<leftarrow> acoral_str_chr m a 0;
       let pos_last = n - 2;
       c \<leftarrow> m (a + pos_last);
       if c = slash then store m (a + pos_last) 0 else Some m
     }"

text \<open>The last component of a path is removed.\<close>

definition up_dir :: "int \<Rightarrow> bytes \<Rightarrow> bytes option" where
  "up_dir path m =
     do {
       r \<leftarrow> acoral_str_rchr m path (uint slash);
       n \<leftarrow> acoral_str_chr m path 0;
       let pos_2 = r - 1;
       let pos_last = n - 2;
       if pos_2 \<ge> 0 then memset_loop m (path + pos_2) 0 (nat (pos_last - pos_2 + 1)) else Some m
     }"

definition clear_path :: "dir_env \<Rightarrow> 'a sh \<Rightarrow> 'a sh option" where
  "clear_path env w = in_mem (\<lambda>m. acoral_memset m (path_adr env) 0 (of_nat ASH_CMD_SIZE)) w"

text \<open>A component is appended to the path.\<close>

definition down_dir :: "int \<Rightarrow> int \<Rightarrow> bytes \<Rightarrow> bytes option" where
  "down_dir path name m = do { m \<leftarrow> cat_literal path ''/'' m; acoral_str_cat m path name }"

section \<open>Listing a directory\<close>

fun write_str :: "bytes \<Rightarrow> int \<Rightarrow> u8 list \<Rightarrow> bytes option" where
  "write_str m a [] = store m a 0"
| "write_str m a (c # cs) = do { m \<leftarrow> store m a c; write_str m (a + 1) cs }"

fun ls_names :: "dir_env \<Rightarrow> u8 list list \<Rightarrow> 'a sh \<Rightarrow> 'a sh option" where
  "ls_names env [] w = acoral_prints [CHR 0x0D, CHR 0x0A] [] w"
| "ls_names env (n # ns) w =
     do {
       w \<leftarrow> in_mem (\<lambda>m. write_str m (fname_adr env) n) w;
       if n = [] then acoral_prints [CHR 0x0D, CHR 0x0A] [] w
       else do { w \<leftarrow> acoral_prints ''%s   '' [word_of_int (fname_adr env)] w; ls_names env ns w }
     }"

definition ls_dir :: "dir_env \<Rightarrow> nat \<Rightarrow> args \<Rightarrow> 'a sh \<Rightarrow> 'a sh option" where
  "ls_dir env argc argv w =
     do {
       w \<leftarrow> clear_path env w;
       w \<leftarrow> in_mem (\<lambda>m. acoral_str_cpy m (path_adr env) (cur_dir w)) w;
       w \<leftarrow> (if argc = 2 then do {
               a \<leftarrow> argv ! 1;
               w \<leftarrow> in_mem (trim_slash a) w;
               in_mem (\<lambda>m. acoral_str_cat m (path_adr env) a) w
             } else Some w);
       d \<leftarrow> read_str (amem w) (path_adr env);
       case opendir env d of None \<Rightarrow> Some w | Some ns \<Rightarrow> ls_names env ns w
     }"

section \<open>Changing the directory\<close>

text \<open>\<^verbatim>\<open>acoral_shell.cur_dir\<close> becomes the path when it is another one.\<close>

definition set_cur_dir :: "dir_env \<Rightarrow> 'a sh \<Rightarrow> 'a sh option" where
  "set_cur_dir env w =
     do { w \<leftarrow> in_mem (\<lambda>m. acoral_str_cpy m (cur_dir w) (path_adr env)) w; Some (w\<lparr>dir_change := True\<rparr>) }"

definition wrong_directory :: "'a sh \<Rightarrow> 'a sh option" where
  "wrong_directory w = acoral_prints (''Wrong directory!'' @ [CHR 0x0D, CHR 0x0A]) [] w"

text \<open>A component in front of a slash: it is copied out, followed, and removed from the argument when the path opens.\<close>

definition cd_component :: "dir_env \<Rightarrow> int \<Rightarrow> int \<Rightarrow> 'a sh \<Rightarrow> 'a sh option" where
  "cd_component env a pos_1 w =
     (let path = path_adr env; tmp = tmp_adr env (nat pos_1) in
      if tmp = 0 then None
      else do {
        w \<leftarrow> in_mem (\<lambda>m. acoral_str_ncpy m tmp a (word_of_int pos_1)) w;
        up \<leftarrow> cmp_literal (amem w) tmp ''..'';
        w \<leftarrow> (if up = 0 then in_mem (up_dir path) w
             else do { here \<leftarrow> cmp_literal (amem w) tmp ''.''; if here \<noteq> 0 then in_mem (down_dir path tmp) w else Some w });
        d \<leftarrow> read_str (amem w) path;
        case opendir env d of
          Some _ \<Rightarrow> do {
            w \<leftarrow> in_mem (\<lambda>m. acoral_str_cpy m a (a + pos_1)) w;
            in_mem (\<lambda>m. acoral_memset m tmp 0 (word_of_int pos_1)) w
          }
        | None \<Rightarrow> wrong_directory w
      })"

definition root_if_empty :: "int \<Rightarrow> bytes \<Rightarrow> bytes option" where
  "root_if_empty path m = do { c \<leftarrow> m path; if c = 0 then store m path slash else Some m }"

definition cd_target :: "dir_env \<Rightarrow> int \<Rightarrow> 'a sh \<Rightarrow> 'a sh option" where
  "cd_target env a w =
     (let path = path_adr env in
      do {
        up \<leftarrow> cmp_literal (amem w) a ''..'';
        if up = 0 then do { w \<leftarrow> in_mem (up_dir path) w; in_mem (root_if_empty path) w }
        else do { here \<leftarrow> cmp_literal (amem w) a ''.''; if here = 0 then in_mem (root_if_empty path) w else in_mem (down_dir path a) w }
      })"

definition cd_open :: "dir_env \<Rightarrow> 'a sh \<Rightarrow> 'a sh option" where
  "cd_open env w =
     do {
       d \<leftarrow> read_str (amem w) (path_adr env);
       case opendir env d of
         Some _ \<Rightarrow> do { r \<leftarrow> acoral_str_cmp (amem w) (cur_dir w) (path_adr env); if r \<noteq> 0 then set_cur_dir env w else Some w }
       | None \<Rightarrow> wrong_directory w
     }"

definition strip_slash :: "int \<Rightarrow> 'a sh \<Rightarrow> 'a sh option" where
  "strip_slash a w = do { c \<leftarrow> amem w a; if c = slash then in_mem (\<lambda>m. acoral_str_cpy m a (a + 1)) w else Some w }"

text \<open>The loop goes on after a wrong directory.\<close>

partial_function (option) cd_loop :: "dir_env \<Rightarrow> int \<Rightarrow> 'a sh \<Rightarrow> 'a sh option" where
  "cd_loop env a w =
     do {
       w \<leftarrow> strip_slash a w;
       n \<leftarrow> acoral_str_chr (amem w) a (uint slash);
       if n - 1 \<ge> 0 then do { w \<leftarrow> cd_component env a (n - 1) w; cd_loop env a w }
       else do { w \<leftarrow> cd_target env a w; cd_open env w }
     }"

declare cd_loop.simps [code]

definition cd_dir :: "dir_env \<Rightarrow> nat \<Rightarrow> args \<Rightarrow> 'a sh \<Rightarrow> 'a sh option" where
  "cd_dir env argc argv w =
     do {
       w \<leftarrow> clear_path env w;
       if argc = 2 then do {
         a \<leftarrow> argv ! 1;
         root \<leftarrow> cmp_literal (amem w) (cur_dir w) ''/'';
         w \<leftarrow> (if root \<noteq> 0 then in_mem (\<lambda>m. acoral_str_cpy m (path_adr env) (cur_dir w)) w else Some w);
         w \<leftarrow> in_mem (trim_slash a) w;
         cd_loop env a w
       }
       else if argc = 1 then do {
         w \<leftarrow> in_mem (cpy_literal (path_adr env) ''/'') w;
         r \<leftarrow> acoral_str_cmp (amem w) (path_adr env) (cur_dir w);
         if r \<noteq> 0 then set_cur_dir env w else Some w
       }
       else Some w
     }"

text \<open>The commands in the order of their registration.\<close>

definition ash_commands :: "dir_env \<Rightarrow> nat \<Rightarrow> nat \<Rightarrow> args \<Rightarrow> 'a sh \<Rightarrow> 'a sh option" where
  "ash_commands env i argc argv w =
     (if i = 0 then ls_dir env argc argv w else if i = 1 then cd_dir env argc argv w else cmd_help argc argv w)"

end
