(* ===== verification/Cmd_Props.thy ===== *)
theory Cmd_Props
  imports Cmd Str_Props Ringwalk
begin

text \<open>
  Properties of the command interpreter: a line of words is split into exactly these words, a command is found by its name, and
  the lines on which the splitting goes wrong.
\<close>

section \<open>Lines of words\<close>

text \<open>A word has no character that the splitting looks for; blanks are spaces and tabs.\<close>

definition plain :: "u8 \<Rightarrow> bool" where
  "plain c \<longleftrightarrow> c \<noteq> 0 \<and> c \<noteq> 32 \<and> c \<noteq> 9 \<and> c \<noteq> 59 \<and> c \<noteq> 34 \<and> c \<noteq> 92"

definition is_word :: "u8 list \<Rightarrow> bool" where
  "is_word cs \<longleftrightarrow> cs \<noteq> [] \<and> (\<forall>c \<in> set cs. plain c)"

definition blanks :: "u8 list \<Rightarrow> bool" where
  "blanks cs \<longleftrightarrow> (\<forall>c \<in> set cs. c = 32 \<or> c = 9)"

text \<open>The text of a line of words, each with the blanks in front of it; and the addresses of the words.\<close>

fun line_text :: "(u8 list \<times> u8 list) list \<Rightarrow> u8 list" where
  "line_text [] = []"
| "line_text ((b, x) # r) = b @ x @ line_text r"

fun word_starts :: "int \<Rightarrow> (u8 list \<times> u8 list) list \<Rightarrow> int list" where
  "word_starts p [] = []"
| "word_starts p ((b, x) # r) = (p + int (length b)) # word_starts (p + int (length b) + int (length x)) r"

text \<open>Words, with blanks between them.\<close>

definition word_line :: "(u8 list \<times> u8 list) list \<Rightarrow> bool" where
  "word_line r \<longleftrightarrow> (\<forall>(b, x) \<in> set r. blanks b \<and> is_word x) \<and> (\<forall>(b, x) \<in> set (tl r). b \<noteq> [])"

definition zero_fill :: "bytes \<Rightarrow> int \<Rightarrow> nat \<Rightarrow> bytes" where
  "zero_fill m p n = (\<lambda>a. if p \<le> a \<and> a < p + int n then Some 0 else m a)"

lemma zero_fill_Suc: "zero_fill (zero_fill m p (Suc 0)) (1 + p) n = zero_fill m p (Suc n)"
  "m(p \<mapsto> 0) = zero_fill m p (Suc 0)"
  by (auto simp: zero_fill_def fun_eq_iff)

lemma zero_fill_0 [simp]: "zero_fill m p 0 = m"
  by (auto simp: zero_fill_def fun_eq_iff)

lemma bytes_at_zero_fill: "a + int (length xs) \<le> p \<or> p + int n \<le> a \<Longrightarrow> bytes_at (zero_fill m p n) a xs = bytes_at m a xs"
  by (induction xs arbitrary: a) (auto simp: zero_fill_def)

text \<open>Runs of blanks and the rest of a word.\<close>

lemma parse_blanks:
  assumes "blanks bs" "bytes_at (smem k) (argstr k) bs" "s_argc k < 8" "lastState k = PS_WHITESPACE \<or> lastState k = PS_TOKEN"
  shows "parse_loop k = parse_loop (if bs = [] then k else
    k\<lparr>smem := zero_fill (smem k) (argstr k) (length bs), argstr := argstr k + int (length bs), lastState := PS_WHITESPACE\<rparr>)"
  using assms
proof (induction bs arbitrary: k)
  case (Cons b bs)
  let ?k = "k\<lparr>smem := (smem k)(argstr k \<mapsto> 0), argstr := argstr k + 1, lastState := PS_WHITESPACE\<rparr>"
  have c: "smem k (argstr k) = Some b" "b = 32 \<or> b = 9" using Cons.prems by (auto simp: blanks_def)
  have "parse_step b k = Some ?k"
    using c Cons.prems(4) by (auto simp: parse_step_def put_zero_def store_def to_state_def)
  then have "parse_loop k = parse_loop ?k"
    using c Cons.prems(3,4) by (subst parse_loop.simps) (auto simp: stops_def MAX_ARGS_NUM_def)
  also have "\<dots> = parse_loop (if bs = [] then ?k else
      ?k\<lparr>smem := zero_fill (smem ?k) (argstr ?k) (length bs), argstr := argstr ?k + int (length bs), lastState := PS_WHITESPACE\<rparr>)"
  proof (rule Cons.IH)
    show "bytes_at (smem ?k) (argstr ?k) bs" using Cons.prems(2) bytes_at_upd [of "argstr k" "argstr k + 1" bs] by simp
  qed (use Cons.prems in \<open>simp_all add: blanks_def\<close>)
  finally show ?case by (auto simp: zero_fill_Suc ac_simps)
qed simp

lemma parse_token:
  assumes "\<forall>c \<in> set xs. plain c" "bytes_at (smem k) (argstr k) xs" "s_argc k < 8" "lastState k = PS_TOKEN"
  shows "parse_loop k = parse_loop (k\<lparr>argstr := argstr k + int (length xs)\<rparr>)"
  using assms
proof (induction xs arbitrary: k)
  case (Cons c xs)
  let ?k = "k\<lparr>argstr := argstr k + 1\<rparr>"
  have c: "smem k (argstr k) = Some c" "plain c" using Cons.prems by auto
  have "parse_step c k = Some ?k"
    using c Cons.prems(4) by (simp add: parse_step_def plain_def to_state_def)
  then have "parse_loop k = parse_loop ?k"
    using c Cons.prems(3,4) by (subst parse_loop.simps) (auto simp: stops_def MAX_ARGS_NUM_def plain_def)
  also have "\<dots> = parse_loop (?k\<lparr>argstr := argstr ?k + int (length xs)\<rparr>)"
    using Cons.prems by (intro Cons.IH) auto
  finally show ?case by (simp add: ac_simps)
qed simp

lemma parse_word:
  assumes "is_word xs" "bytes_at (smem k) (argstr k) xs" "s_argc k < 7" "lastState k = PS_WHITESPACE" "length (s_argv k) = 8"
  shows "parse_loop k = parse_loop (k\<lparr>argstr := argstr k + int (length xs), s_argc := s_argc k + 1,
    s_argv := (s_argv k)[s_argc k := Some (argstr k)], lastState := PS_TOKEN\<rparr>)"
proof -
  obtain c cs where xs: "xs = c # cs" using assms(1) by (cases xs) (auto simp: is_word_def)
  let ?k = "k\<lparr>argstr := argstr k + 1, s_argc := s_argc k + 1, s_argv := (s_argv k)[s_argc k := Some (argstr k)], lastState := PS_TOKEN\<rparr>"
  have c: "smem k (argstr k) = Some c" "plain c" "\<forall>c \<in> set cs. plain c" using assms(1,2) by (auto simp: xs is_word_def)
  have "parse_step c k = Some ?k"
    using c assms(3-5) by (simp add: parse_step_def plain_def to_state_def put_arg_def set_arg_def)
  then have "parse_loop k = parse_loop ?k"
    using c assms(3,4) by (subst parse_loop.simps) (auto simp: stops_def MAX_ARGS_NUM_def plain_def)
  also have "\<dots> = parse_loop (?k\<lparr>argstr := argstr ?k + int (length cs)\<rparr>)"
    using c(3) assms(2,3) by (intro parse_token) (auto simp: xs)
  finally show ?thesis by (cases k) (simp add: xs ac_simps)
qed

text \<open>The memory after the scan of a line: its blanks are zero.\<close>

fun zero_blanks :: "bytes \<Rightarrow> int \<Rightarrow> (u8 list \<times> u8 list) list \<Rightarrow> bytes" where
  "zero_blanks m p [] = m"
| "zero_blanks m p ((b, x) # r) = zero_blanks (zero_fill m p (length b)) (p + int (length b) + int (length x)) r"

fun put_args :: "args \<Rightarrow> nat \<Rightarrow> int list \<Rightarrow> args" where
  "put_args v i [] = v"
| "put_args v i (a # as) = put_args (v[i := Some a]) (i + 1) as"

lemma word_line_Cons: "word_line ((b, x) # r) \<Longrightarrow> blanks b \<and> is_word x \<and> word_line r \<and> (\<forall>(b, x) \<in> set r. b \<noteq> [])"
  by (cases r) (auto simp: word_line_def)

lemma parse_line:
  assumes "word_line r" "bytes_at (smem k) (argstr k) (line_text r)" "s_argc k + length r < 8" "length (s_argv k) = 8"
    "lastState k = PS_WHITESPACE \<or> (lastState k = PS_TOKEN \<and> (\<forall>(b, x) \<in> set r. b \<noteq> []))"
  shows "parse_loop k = parse_loop (if r = [] then k else
    k\<lparr>smem := zero_blanks (smem k) (argstr k) r, argstr := argstr k + int (length (line_text r)), s_argc := s_argc k + length r,
      s_argv := put_args (s_argv k) (s_argc k) (word_starts (argstr k) r), lastState := PS_TOKEN\<rparr>)"
  using assms
proof (induction r arbitrary: k)
  case (Cons bx r)
  obtain b x where bx: "bx = (b, x)" by (cases bx) auto
  have w: "blanks b" "is_word x" "word_line r" "\<forall>(b, x) \<in> set r. b \<noteq> []"
    using word_line_Cons Cons.prems(1) by (auto simp: bx)
  let ?p = "argstr k + int (length b)"
  let ?k1 = "k\<lparr>smem := zero_fill (smem k) (argstr k) (length b), argstr := ?p, lastState := PS_WHITESPACE\<rparr>"
  have t: "bytes_at (smem k) (argstr k) b" "bytes_at (smem k) ?p x" "bytes_at (smem k) (?p + int (length x)) (line_text r)"
    using Cons.prems(2) by (auto simp: bx bytes_at_append ac_simps)
  have "parse_loop k = parse_loop (if b = [] then k else ?k1)"
    using parse_blanks [OF w(1) t(1)] Cons.prems(3,5) by auto
  also have "(if b = [] then k else ?k1) = ?k1" using Cons.prems(5) by (cases k) (auto simp: bx)
  also have "parse_loop ?k1 = parse_loop (?k1\<lparr>argstr := ?p + int (length x), s_argc := s_argc k + 1,
      s_argv := (s_argv k)[s_argc k := Some ?p], lastState := PS_TOKEN\<rparr>)"
    using parse_word [OF w(2), of ?k1] t(2) Cons.prems(3,4) by (simp add: bytes_at_zero_fill bx)
  also have "\<dots> = parse_loop (if r = [] then ?k1\<lparr>argstr := ?p + int (length x), s_argc := s_argc k + 1,
      s_argv := (s_argv k)[s_argc k := Some ?p], lastState := PS_TOKEN\<rparr> else
      k\<lparr>smem := zero_blanks (zero_fill (smem k) (argstr k) (length b)) (?p + int (length x)) r,
        argstr := ?p + int (length x) + int (length (line_text r)), s_argc := s_argc k + 1 + length r,
        s_argv := put_args ((s_argv k)[s_argc k := Some ?p]) (s_argc k + 1) (word_starts (?p + int (length x)) r), lastState := PS_TOKEN\<rparr>)"
    by (subst Cons.IH) (use w t(3) Cons.prems(3,4) in \<open>(cases k; simp add: bytes_at_zero_fill bx)+\<close>)
  finally show ?case by (cases k) (simp add: bx ac_simps)
qed simp

lemma length_put_args [simp]: "length (put_args v i as) = length v"
  by (induction as arbitrary: v i) auto

lemma put_args_eq: "i + length as \<le> length v \<Longrightarrow> put_args v i as = take i v @ map Some as @ drop (i + length as) v"
proof (induction as arbitrary: v i)
  case (Cons a as)
  then have "put_args v i (a # as) = take (Suc i) (v[i := Some a]) @ map Some as @ drop (Suc i + length as) (v[i := Some a])"
    using Cons.IH [of "Suc i" "v[i := Some a]"] by simp
  then show ?case using Cons.prems by (simp add: take_Suc_conv_app_nth)
qed simp

lemma length_word_starts [simp]: "length (word_starts p r) = length r"
  by (induction r arbitrary: p) auto

lemma word_starts_bounds:
  "i < length r \<Longrightarrow> p \<le> word_starts p r ! i \<and> word_starts p r ! i + int (length (snd (r ! i))) \<le> p + int (length (line_text r)) \<and>
     (Suc i = length r \<longrightarrow> word_starts p r ! i + int (length (snd (r ! i))) = p + int (length (line_text r)))"
proof (induction r arbitrary: p i)
  case (Cons bx r)
  obtain b x where bx: "bx = (b, x)" by (cases bx) auto
  show ?case
  proof (cases i)
    case 0
    then show ?thesis by (simp add: bx)
  next
    case (Suc j)
    let ?q = "p + int (length b) + int (length x)"
    have *: "word_starts p (bx # r) ! i = word_starts ?q r ! j" "(bx # r) ! i = r ! j" by (simp_all add: Suc bx)
    show ?thesis unfolding * using Cons.IH [of j ?q] Cons.prems Suc by (simp add: bx add.assoc)
  qed
qed simp

lemma zero_blanks_out: "a < p \<or> p + int (length (line_text r)) \<le> a \<Longrightarrow> zero_blanks m p r a = m a"
  by (induction r arbitrary: m p) (auto simp: zero_fill_def)

lemma bytes_at_cong: "(\<And>i. a \<le> i \<Longrightarrow> i < a + int (length xs) \<Longrightarrow> m i = m' i) \<Longrightarrow> bytes_at m a xs = bytes_at m' a xs"
  by (induction xs arbitrary: a) auto

text \<open>In that memory every word is where it was, and the byte behind every word but the last is zero.\<close>

lemma zero_blanks_words:
  assumes "word_line r" "bytes_at m p (line_text r)" "i < length r"
  shows "bytes_at (zero_blanks m p r) (word_starts p r ! i) (snd (r ! i)) \<and>
    (Suc i < length r \<longrightarrow> zero_blanks m p r (word_starts p r ! i + int (length (snd (r ! i)))) = Some 0)"
  using assms
proof (induction r arbitrary: m p i)
  case (Cons bx r)
  obtain b x where bx: "bx = (b, x)" by (cases bx) auto
  let ?q = "p + int (length b) + int (length x)"
  let ?m = "zero_fill m p (length b)"
  have w: "word_line r" "\<forall>(b, x) \<in> set r. b \<noteq> []" using word_line_Cons Cons.prems(1) by (auto simp: bx)
  have t: "bytes_at ?m (p + int (length b)) x" "bytes_at ?m ?q (line_text r)"
    using Cons.prems(2) by (auto simp: bx bytes_at_append bytes_at_zero_fill ac_simps)
  show ?case
  proof (cases i)
    case 0
    have "bytes_at (zero_blanks ?m ?q r) (p + int (length b)) x = bytes_at ?m (p + int (length b)) x"
      by (rule bytes_at_cong) (simp add: zero_blanks_out)
    moreover have "zero_blanks ?m ?q r ?q = Some 0" if ne: "r \<noteq> []"
    proof -
      obtain b' x' r' where r: "r = (b', x') # r'" using ne by (cases r) auto
      then obtain c b'' where "b' = c # b''" using w(2) by (cases b') auto
      then show ?thesis by (simp add: r zero_blanks_out zero_fill_def)
    qed
    ultimately show ?thesis using 0 t(1) by (simp add: bx)
  next
    case (Suc j)
    then show ?thesis using Cons.IH [OF w(1) t(2), of j] Cons.prems(3) by (simp add: bx)
  qed
qed simp

text \<open>The memory when the scan stops: zeros in place of the blanks before the words and of the trailing ones.\<close>

abbreviation split_mem :: "bytes \<Rightarrow> int \<Rightarrow> (u8 list \<times> u8 list) list \<Rightarrow> u8 list \<Rightarrow> bytes" where
  "split_mem m p r bs \<equiv> zero_fill (zero_blanks m p r) (p + int (length (line_text r))) (length bs)"

lemma parse_loop_words:
  assumes r: "word_line r" "length r < 8" and e: "blanks bs" "e = 0 \<or> e = 59"
    and m: "bytes_at m p (line_text r @ bs @ [e])"
  defines "fin \<equiv> p + int (length (line_text r)) + int (length bs)"
  shows "\<exists>k. parse_loop \<lparr>smem = m, argstr = p, s_argc = 0, s_argv = replicate 8 None, lastState = PS_WHITESPACE, stacked_state = st\<rparr> = Some k \<and>
    smem k = split_mem m p r bs \<and> argstr k = fin \<and> s_argc k = length r \<and>
    s_argv k = map Some (word_starts p r) @ replicate (8 - length r) None \<and> stacked_state k = st"
proof -
  let ?q = "p + int (length (line_text r))" and ?v = "map Some (word_starts p r) @ replicate (8 - length r) None"
  define v0 :: args where "v0 = replicate 8 None"
  let ?k0 = "\<lparr>smem = m, argstr = p, s_argc = 0, s_argv = v0, lastState = PS_WHITESPACE, stacked_state = st\<rparr>"
  define m1 where "m1 = zero_blanks m p r"
  define m2 where "m2 = zero_fill m1 ?q (length bs)"
  have t: "bytes_at m p (line_text r)" "bytes_at m ?q bs" "m fin = Some e"
    using m by (simp_all add: bytes_at_append fin_def ac_simps)
  have l0: "length v0 = 8" by (simp add: v0_def)
  have "put_args v0 0 (word_starts p r) = map Some (word_starts p r) @ drop (length r) v0" using r(2) by (simp add: put_args_eq l0)
  then have v: "put_args v0 0 (word_starts p r) = ?v" by (simp add: v0_def drop_replicate)
  let ?l = "if r = [] then PS_WHITESPACE else PS_TOKEN"
  let ?k1 = "\<lparr>smem = m1, argstr = ?q, s_argc = length r, s_argv = ?v, lastState = ?l, stacked_state = st\<rparr>"
  have "parse_loop ?k0 = parse_loop (if r = [] then ?k0 else ?k0\<lparr>smem := m1, argstr := ?q, s_argc := length r, s_argv := ?v, lastState := PS_TOKEN\<rparr>)"
    unfolding v [symmetric] by (rule trans [OF parse_line [OF r(1)]]) (use t(1) r(2) in \<open>simp_all add: m1_def l0\<close>)
  also have "(if r = [] then ?k0 else ?k0\<lparr>smem := m1, argstr := ?q, s_argc := length r, s_argv := ?v, lastState := PS_TOKEN\<rparr>) = ?k1"
    by (cases "r = []") (simp_all add: m1_def v0_def)
  finally have start: "parse_loop ?k0 = parse_loop ?k1" .
  have "bytes_at m1 ?q bs = bytes_at m ?q bs" unfolding m1_def by (rule bytes_at_cong) (simp add: zero_blanks_out)
  then have b1: "bytes_at m1 ?q bs" using t(2) by simp
  note start
  also have "parse_loop ?k1 = parse_loop (if bs = [] then ?k1 else ?k1\<lparr>smem := m2, argstr := fin, lastState := PS_WHITESPACE\<rparr>)"
    by (rule trans [OF parse_blanks [OF e(1)]]) (use b1 r(2) in \<open>simp_all add: m2_def fin_def\<close>)
  also have "\<dots> = Some (if bs = [] then ?k1 else ?k1\<lparr>smem := m2, argstr := fin, lastState := PS_WHITESPACE\<rparr>)"
  proof -
    have "m2 fin = Some e" using t(3) by (simp add: m2_def m1_def zero_fill_def fin_def zero_blanks_out)
    then show ?thesis using e(2) by (subst parse_loop.simps) (auto simp: stops_def m2_def fin_def)
  qed
  finally show ?thesis by (cases "bs = []") (simp_all add: m2_def m1_def v0_def fin_def)
qed

lemma split_mem_words:
  assumes r: "word_line r" and t: "bytes_at m p (line_text r)" and i: "i < length r"
  shows "str_at ((split_mem m p r bs)(p + int (length (line_text r)) + int (length bs) \<mapsto> 0)) (word_starts p r ! i) (snd (r ! i))"
proof -
  let ?q = "p + int (length (line_text r))" and ?m = "(split_mem m p r bs)(p + int (length (line_text r)) + int (length bs) \<mapsto> 0)"
  let ?a = "word_starts p r ! i" and ?x = "snd (r ! i)"
  have bd: "p \<le> ?a" "?a + int (length ?x) \<le> ?q" using word_starts_bounds [OF i, of p] by simp_all
  have "bytes_at ?m ?a ?x = bytes_at (zero_blanks m p r) ?a ?x"
    by (rule bytes_at_cong) (use bd in \<open>auto simp: zero_fill_def\<close>)
  moreover have "?m (?a + int (length ?x)) = Some 0"
  proof (cases "Suc i < length r")
    case True
    then have "zero_blanks m p r (?a + int (length ?x)) = Some 0" using zero_blanks_words [OF r t i] by simp
    then show ?thesis by (simp add: zero_fill_def)
  next
    case False
    then have "?a + int (length ?x) = ?q" using word_starts_bounds [OF i, of p] i by simp
    then show ?thesis by (simp add: zero_fill_def)
  qed
  moreover have "(fst (r ! i), ?x) \<in> set r" using nth_mem [OF i] by simp
  then have "is_word ?x" using r by (auto simp: word_line_def)
  then have "0 \<notin> set ?x" by (auto simp: is_word_def plain_def)
  ultimately show ?thesis using zero_blanks_words [OF r t i] str_at_append [of ?m ?a ?x "[]"] by simp
qed

text \<open>A line of at most seven words separated by blanks, which ends in a zero byte or a semicolon, is split into exactly these words: every
  argument is the address of a string that is the word, the next one is a null pointer, the scan goes on behind the semicolon,
  and no byte outside the line changes.\<close>

lemma parse_args_words:
  assumes r: "word_line r" "length r < 8" and e: "blanks bs" "e = 0 \<or> e = 59"
    and m: "bytes_at m p (line_text r @ bs @ [e])"
  defines "fin \<equiv> p + int (length (line_text r)) + int (length bs)"
  shows "\<exists>m'. parse_args m p (replicate 8 None) st =
      Some (m', length r, map Some (word_starts p r) @ replicate (8 - length r) None, (if e = 59 then fin + 1 else fin), st) \<and>
    (\<forall>i < length r. str_at m' (word_starts p r ! i) (snd (r ! i))) \<and> m' fin = Some 0 \<and> (\<forall>a. a < p \<or> fin < a \<longrightarrow> m' a = m a)"
proof -
  let ?v = "map Some (word_starts p r) @ replicate (8 - length r) None" and ?m = "split_mem m p r bs"
  let ?m' = "?m(fin \<mapsto> 0)"
  note loop = parse_loop_words [OF r e m, of st, folded fin_def]
  have t: "bytes_at m p (line_text r)" "m fin = Some e" using m by (simp_all add: bytes_at_append fin_def ac_simps)
  have out: "?m a = m a" if "a < p \<or> fin \<le> a" for a using that by (auto simp: zero_fill_def fin_def zero_blanks_out)
  have m2: "?m fin = Some e" using out t(2) by simp
  have m'0: "e = 0 \<Longrightarrow> ?m = ?m'" using m2 by auto
  have "?v[length r := None] = ?v" using r(2) by (simp add: list_update_append nth_append list_update_same_conv)
  then have res: "parse_args m p (replicate 8 None) st = Some (?m', length r, ?v, (if e = 59 then fin + 1 else fin), st)"
    using loop e(2) m2 m'0 r(2) by (auto simp: parse_args_def set_arg_def store_def simp del: replicate.simps)
  have "\<forall>i < length r. str_at ?m' (word_starts p r ! i) (snd (r ! i))"
    using split_mem_words [OF r(1) t(1)] by (simp add: fin_def)
  moreover have "p \<le> fin" by (simp add: fin_def)
  then have "\<forall>a. a < p \<or> fin < a \<longrightarrow> ?m' a = m a" using out by auto
  ultimately show ?thesis using res by (intro exI [of _ ?m'] conjI) simp_all
qed

section \<open>Commands\<close>

lemma ucast_u8_inj: "(ucast x :: u32) = ucast y \<longleftrightarrow> x = (y :: u8)"
proof
  assume "(ucast x :: u32) = ucast y"
  then have "unat (ucast x :: u32) = unat (ucast y :: u32)" by simp
  moreover have "unat (ucast z :: u32) = unat z" for z :: u8
    using unsigned_less [of z, where 'a = nat] unfolding unsigned_ucast_eq by (simp add: take_bit_nat_eq_self)
  ultimately show "x = y" by (metis word_unat_eq_iff)
qed simp

lemma cmp_loop_ok:
  assumes "str_at m a xs" "str_at m b ys" "length xs = length ys" "c = Some 0 \<or> (c = None \<and> xs \<noteq> [])"
  shows "\<exists>r. cmp_loop m a b c = Some r \<and> (r = 0 \<longleftrightarrow> xs = ys)"
  using assms
proof (induction xs ys arbitrary: a b c rule: list_induct2')
  case 1
  then show ?case by (subst cmp_loop.simps) simp
next
  case (4 x xs y ys)
  have u: "(ucast x - ucast y :: u32) = 0 \<longleftrightarrow> x = y"
    using ucast_u8_inj by simp
  have "\<exists>r. cmp_loop m (a + 1) (b + 1) (Some 0) = Some r \<and> (r = 0 \<longleftrightarrow> xs = ys)"
    using 4(1) [of "a + 1" "b + 1" "Some 0"] 4(2-4) by simp
  then show ?case using 4(2,3) u by (subst cmp_loop.simps) (auto simp: Let_def)
qed simp_all

text \<open>Comparing two strings that are not empty.\<close>

lemma str_cmp_ok:
  assumes "str_at m a xs" "str_at m b ys" "a \<noteq> 0" "b \<noteq> 0" "xs \<noteq> []" "length xs < 2 ^ 32" "length ys < 2 ^ 32"
  shows "\<exists>r. acoral_str_cmp m a b = Some r \<and> (r = 0 \<longleftrightarrow> xs = ys)"
proof -
  have l: "(of_nat (length xs) :: u32) = of_nat (length ys) \<longleftrightarrow> length xs = length ys"
  proof
    assume "(of_nat (length xs) :: u32) = of_nat (length ys)"
    then have "unat (of_nat (length xs) :: u32) = unat (of_nat (length ys) :: u32)" by simp
    then show "length xs = length ys" unfolding unsigned_of_nat using assms(6,7) by (simp add: take_bit_nat_eq_self)
  qed simp
  show ?thesis
  proof (cases "length xs = length ys")
    case True
    then show ?thesis
      using cmp_loop_ok [OF assms(1,2) True, of None] assms(3-5) by (simp add: acoral_str_cmp_def str_len_ok [OF assms(1)] str_len_ok [OF assms(2)])
  next
    case False
    then show ?thesis
      using l assms(3,4) by (auto simp: acoral_str_cmp_def str_len_ok [OF assms(1)] str_len_ok [OF assms(2)])
  qed
qed

text \<open>A command whose name is the string \<open>x\<close>.\<close>

definition named :: "'a ash_scheme \<Rightarrow> nat \<Rightarrow> u8 list \<Rightarrow> bool" where
  "named w i x \<longleftrightarrow> cmd_name (cmds w i) \<noteq> 0 \<and> str_at (amem w) (cmd_name (cmds w i)) x \<and> x \<noteq> [] \<and> length x < 2 ^ 32"

lemma find_loop_step:
  "find_loop w x name = (if x = CmdQ then Some None else
     (case do { i \<leftarrow> cmd_entry x; r \<leftarrow> acoral_str_cmp (amem w) (cmd_name (cmds w i)) name; Some (if r = 0 then Some i else None) } of
        None \<Rightarrow> None | Some None \<Rightarrow> find_loop w (lnext (cmd_heap w) x) name | Some (Some y) \<Rightarrow> Some (Some y)))"
  by (subst find_loop.simps) (auto split: Option.bind_splits)

interpretation commands: ring_search CmdQ "\<lambda>(w, name) x. find_loop w x name" "\<lambda>(w, name). cmd_heap w"
    "\<lambda>(w, name) x. do { i \<leftarrow> cmd_entry x; r \<leftarrow> acoral_str_cmp (amem w) (cmd_name (cmds w i)) name; Some (if r = 0 then Some i else None) }"
  by unfold_locales (simp only: split_paired_all prod.case, rule find_loop_step)

lemma find_cmd_first:
  assumes "ring (cmd_heap w) CmdQ (map CmdL is)" "\<forall>i \<in> set is. named w i (nm i)" "str_at (amem w) a x" "a \<noteq> 0" "length x < 2 ^ 32"
  shows "find_cmd a w = Some (find (\<lambda>i. nm i = x) is)"
proof -
  have "\<exists>r. acoral_str_cmp (amem w) (cmd_name (cmds w i)) a = Some r \<and> (r = 0 \<longleftrightarrow> nm i = x)" if "i \<in> set is" for i
    using str_cmp_ok [of "amem w" "cmd_name (cmds w i)" "nm i" a x] assms(2-5) that by (auto simp: named_def)
  then have "find_loop w (lnext (cmd_heap w) CmdQ) a = Some (find (\<lambda>i. nm i = x) is)"
    using commands.ring_find [of "(w, a)" CmdL "is" "\<lambda>i. nm i = x"] assms(1) by fastforce
  then show ?thesis using ring_empty_iff [OF assms(1)] by (cases "is") (simp_all add: find_cmd_def)
qed

lemma str_at_cong: "(\<And>i. a \<le> i \<Longrightarrow> i \<le> a + int (length xs) \<Longrightarrow> m i = m' i) \<Longrightarrow> str_at m a xs = str_at m' a xs"
  by (induction xs arbitrary: a) auto

text \<open>C13. Executing a line of one to seven words separated by blanks, whose first word is the name of a registered command, calls the first command
  registered under that name, once, with the number of words and, as arguments, addresses of strings that are exactly the words; no
  byte outside the line has changed then. When the command leaves the end of the line alone, that is all.\<close>

theorem command_line_runs:
  assumes r: "word_line r" "r \<noteq> []" "length r < 8" "length (line_text r) < 2 ^ 32" and p: "0 < p" and e: "blanks bs"
    and m: "bytes_at (amem w) p (line_text r @ bs @ [0])"
    and fin: "fin = p + int (length (line_text r)) + int (length bs)"
    and cmds: "ring (cmd_heap w) CmdQ (map CmdL cs)" "\<forall>i \<in> set cs. named w i (nm i)"
      "\<forall>i \<in> set cs. cmd_name (cmds w i) + int (length (nm i)) < p \<or> fin < cmd_name (cmds w i)"
    and f: "find (\<lambda>i. nm i = snd (hd r)) cs = Some c"
  shows "\<exists>m' argv. length argv = 8 \<and> (\<forall>i < length r. \<exists>a. argv ! i = Some a \<and> str_at m' a (snd (r ! i))) \<and>
    (\<forall>i. length r \<le> i \<and> i < 8 \<longrightarrow> argv ! i = None) \<and> m' fin = Some 0 \<and> (\<forall>a. a < p \<or> fin < a \<longrightarrow> m' a = amem w a) \<and>
    (\<forall>w'. exe c (length r) argv (w\<lparr>amem := m'\<rparr>) = Some w' \<and> amem w' fin = Some 0 \<longrightarrow> acoral_ash_cmd_exe exe st p w = Some w')"
proof -
  let ?v = "map Some (word_starts p r) @ replicate (8 - length r) None"
  obtain m' where m': "parse_args (amem w) p (replicate 8 None) st = Some (m', length r, ?v, fin, st)"
      "\<forall>i < length r. str_at m' (word_starts p r ! i) (snd (r ! i))" "m' fin = Some 0" "\<forall>a. a < p \<or> fin < a \<longrightarrow> m' a = amem w a"
    using parse_args_words [OF r(1,3) e, of 0 "amem w" p st] m by (auto simp: fin)
  let ?w = "w\<lparr>amem := m'\<rparr>" and ?a = "word_starts p r ! 0"
  have l0: "0 < length r" using r(2) by simp
  have bd: "p \<le> ?a" "?a + int (length (snd (r ! 0))) \<le> p + int (length (line_text r))" using word_starts_bounds [OF l0, of p] by simp_all
  have h: "snd (hd r) = snd (r ! 0)" using r(2) by (simp add: hd_conv_nth)
  have nmd: "\<forall>i \<in> set cs. named ?w i (nm i)"
  proof
    fix i assume i: "i \<in> set cs"
    then have "named w i (nm i)" "cmd_name (cmds w i) + int (length (nm i)) < p \<or> fin < cmd_name (cmds w i)" using cmds(2,3) by simp_all
    moreover from this have "str_at (amem w) (cmd_name (cmds w i)) (nm i) = str_at m' (cmd_name (cmds w i)) (nm i)"
      using m'(4) by (intro str_at_cong) auto
    ultimately show "named ?w i (nm i)" by (simp add: named_def)
  qed
  have ln: "length (snd (r ! 0)) < 2 ^ 32" using bd r(4) by linarith
  have fd: "find_cmd ?a ?w = Some (Some c)"
    using find_cmd_first [of ?w cs nm ?a "snd (r ! 0)"] cmds(1) nmd m'(2) l0 bd(1) p ln f by (simp add: h)
  have v0: "?v ! 0 = Some ?a" using l0 by (simp add: nth_append)
  obtain b x r' where rr: "r = (b, x) # r'" using r(2) by (cases r) auto
  then obtain ch where ch: "amem w p = Some ch" "ch \<noteq> 0"
    using word_line_Cons [of b x r'] r(1) m by (cases b; cases x) (auto simp: blanks_def is_word_def plain_def)
  have run: "acoral_ash_cmd_exe exe st p w = Some w'" if w': "exe c (length r) ?v ?w = Some w'" "amem w' fin = Some 0" for w'
  proof -
    have "exe_loop exe fin st w' = Some w'" using w'(2) by (subst exe_loop.simps) simp
    moreover have "real_cmd_exec exe (length r) ?v ?w = Some w'" using w'(1) fd by (simp add: real_cmd_exec_def v0)
    ultimately show ?thesis
      using ch m'(1) r(2) unfolding acoral_ash_cmd_exe_def by (subst exe_loop.simps) (simp add: MAX_ARGS_NUM_def)
  qed
  show ?thesis
  proof (intro exI [of _ m'] exI [of _ ?v] conjI)
    show "\<forall>i < length r. \<exists>a. ?v ! i = Some a \<and> str_at m' a (snd (r ! i))" using m'(2) by (simp add: nth_append)
    show "\<forall>i. length r \<le> i \<and> i < 8 \<longrightarrow> ?v ! i = None" by (auto simp: nth_append)
  qed (use r(3) m'(3,4) run in auto)
qed

text \<open>One command \<^verbatim>\<open>cd\<close>, and the line \<^verbatim>\<open>cd  a\<close> in memory.\<close>

definition ex_ash :: ash where
  "ex_ash = \<lparr>amem = [0x100 \<mapsto> 99, 0x101 \<mapsto> 100, 0x102 \<mapsto> 32, 0x103 \<mapsto> 32, 0x104 \<mapsto> 97, 0x105 \<mapsto> 0, 0x200 \<mapsto> 99, 0x201 \<mapsto> 100, 0x202 \<mapsto> 0],
     cmd_heap = \<lparr>lnext = (\<lambda>x. x)(CmdQ := CmdL 1, CmdL 1 := CmdQ), lprev = (\<lambda>x. x)(CmdQ := CmdL 1, CmdL 1 := CmdQ), lvalue = (\<lambda>_. 0),
       llock = (\<lambda>_. False), qlock = (\<lambda>_. False)\<rparr>,
     cmds = (\<lambda>_. \<lparr>cmd_name = 0x200, cmd_comment = 0\<rparr>), printed = []\<rparr>"

theorem command_line_runs_witness:
  "\<exists>w'. acoral_ash_cmd_exe (\<lambda>i argc argv w. Some (w\<lparr>printed := [of_nat i, of_nat argc]\<rparr>)) PS_TOKEN 0x100 ex_ash = Some w' \<and> printed w' = [1, 2]"
proof -
  define exe :: "unit cmd_exe" where "exe = (\<lambda>i argc argv w. Some (w\<lparr>printed := [of_nat i, of_nat argc]\<rparr>))"
  define r :: "(u8 list \<times> u8 list) list" where "r = [([], [99, 100]), ([32, 32], [97 :: u8])]"
  have r: "word_line r" "r \<noteq> []" "length r < 8" "length (line_text r) < 2 ^ 32" "length r = 2"
    by (simp_all add: r_def word_line_def blanks_def is_word_def plain_def)
  have m: "bytes_at (amem ex_ash) 0x100 (line_text r @ [] @ [0])" by (simp add: ex_ash_def r_def)
  have fin: "0x105 = 0x100 + int (length (line_text r)) + int (length ([] :: u8 list))" by (simp add: r_def)
  have c: "ring (cmd_heap ex_ash) CmdQ (map CmdL [1])" "\<forall>i \<in> set [1]. named ex_ash i [99, 100]"
    "\<forall>i \<in> set [1]. cmd_name (cmds ex_ash i) + int (length [99, 100 :: u8]) < 0x100 \<or> 0x105 < cmd_name (cmds ex_ash i)"
    by (simp_all add: ex_ash_def ring_def named_def)
  have f: "find (\<lambda>i. [99, 100] = snd (hd r)) [1] = Some 1" by (simp add: r_def)
  have z: "(0 :: int) < 0x100" "blanks []" by (simp_all add: blanks_def)
  from command_line_runs [OF r(1-4) z m fin c f, of exe PS_TOKEN] obtain m' argv where "m' 0x105 = Some 0"
      "\<forall>w'. exe 1 2 argv (ex_ash\<lparr>amem := m'\<rparr>) = Some w' \<and> amem w' 0x105 = Some 0 \<longrightarrow> acoral_ash_cmd_exe exe PS_TOKEN 0x100 ex_ash = Some w'"
    unfolding r(5) by blast
  then show ?thesis unfolding exe_def by simp
qed

section \<open>Lines that go wrong\<close>

text \<open>Strings in memory for the examples.\<close>

definition line_at :: "int \<Rightarrow> u8 list \<Rightarrow> bytes" where
  "line_at p cs = (\<lambda>a. if p \<le> a \<and> a < p + int (length cs) then Some (cs ! nat (a - p)) else None)"

lemma no_args: "replicate 8 None = [None, None, None, None, None, None, None, None]" "replicate 7 None = [None, None, None, None, None, None, None]"
  "replicate 6 None = [None, None, None, None, None, None]"
  by (simp_all add: numeral_eq_Suc)

text \<open>Behind an opening quote the scan takes two steps. A quote at the end of a line makes it read on behind the end; an empty string in
  quotes is the argument that consists of one quote.\<close>

lemma last_quote_overrun: "parse_args (line_at 0x100 [97, 32, 34, 0]) 0x100 (replicate 8 None) st = None"
  by (simp add: parse_args_def line_at_def parse_loop.simps stops_def MAX_ARGS_NUM_def parse_step_def to_state_def put_zero_def put_arg_def set_arg_def store_def no_args)

lemma empty_string_quote: "\<exists>m. parse_args (line_at 0x100 [97, 32, 34, 34, 0]) 0x100 (replicate 8 None) st =
    Some (m, 2, Some 0x100 # Some 0x103 # replicate 6 None, 0x104, st) \<and> str_at m 0x103 [34]"
  by (simp add: parse_args_def line_at_def parse_loop.simps stops_def MAX_ARGS_NUM_def parse_step_def to_state_def put_zero_def put_arg_def set_arg_def store_def no_args)

text \<open>The eighth argument: the terminating null pointer is written behind the array.\<close>

lemma eight_args_overflow: "parse_args (line_at 0x100 [97, 32, 97, 32, 97, 32, 97, 32, 97, 32, 97, 32, 97, 32, 97, 0]) 0x100 (replicate 8 None) st = None"
  by (simp add: parse_args_def line_at_def parse_loop.simps stops_def MAX_ARGS_NUM_def parse_step_def to_state_def put_zero_def put_arg_def set_arg_def store_def no_args)

text \<open>A word that begins with an escaped character begins behind it.\<close>

lemma escaped_start: "\<exists>m. parse_args (line_at 0x100 [92, 97, 98, 0]) 0x100 (replicate 8 None) st =
    Some (m, 1, Some 0x102 # replicate 7 None, 0x103, PS_WHITESPACE)"
  by (simp add: parse_args_def line_at_def parse_loop.simps stops_def MAX_ARGS_NUM_def parse_step_def to_state_def put_zero_def put_arg_def set_arg_def store_def no_args)

end
