(* ===== verification/Shell_Props.thy ===== *)
theory Shell_Props
  imports Shell Cmd_Props
begin

text \<open>
  The line editor of the shell refines an editor on lists: the bytes of the line are the characters before and behind the cursor, the
  history is a list of lines. Every key has the effect of the abstract editor, as long as the line has at most 79 characters.
\<close>

section \<open>Printing succeeds\<close>

lemma outs_loop_some: "str_at m p xs \<Longrightarrow> \<exists>r. outs_loop m p n = Some r"
proof (induction xs arbitrary: p n)
  case Nil
  then show ?case by (subst outs_loop.simps) simp
next
  case (Cons x xs)
  then obtain r where "outs_loop m (p + 1) (s32 (n - 1)) = Some r" by (metis str_at.simps(2))
  then show ?case using Cons.prems by (subst outs_loop.simps) simp
qed

text \<open>Formats with strings and characters only, with their arguments.\<close>

fun format_ok :: "bytes \<Rightarrow> u8 list \<Rightarrow> u32 list \<Rightarrow> bool" where
  "format_ok m [] args = True"
| "format_ok m (c # cs) args =
     (if c = 37 then
        (case (cs, args) of
           (k # cs', a # args') \<Rightarrow> (k = 99 \<or> (k = 115 \<and> a \<noteq> 0 \<and> (\<exists>xs. str_at m (uint a) xs))) \<and> format_ok m cs' args'
         | _ \<Rightarrow> False)
      else c \<noteq> 0 \<and> format_ok m cs args)"

lemma conversion_s:
  assumes "m (p + 1) = Some 115" "str_at m (uint a) xs" "a \<noteq> 0"
  shows "\<exists>r. conversion m p (a # args) False params0 = Some (r, p + 2, args)"
proof -
  obtain r where "outs_loop m (uint a) (num2 (params0\<lparr>p_len := sint (of_nat (length xs) :: u32)\<rparr>)) = Some r"
    using outs_loop_some [OF assms(2)] by blast
  then have "\<exists>r. outs m (uint a) params0 = Some r"
    using assms(2,3) len_loop_ok [OF assms(2), of 0] by (auto simp: outs_def Let_def)
  then show ?thesis using assms(1) by (subst conversion.simps) (auto simp: Let_def isdigit_def to_lower_def word_le_def)
qed

lemma conversion_c:
  assumes "m (p + 1) = Some 99"
  shows "conversion m p (a # args) False params0 = Some ([ucast a], p + 2, args)"
  using assms by (subst conversion.simps) (auto simp: Let_def isdigit_def to_lower_def word_le_def)

lemma print_loop_some:
  "bytes_at m p (cs @ [0]) \<Longrightarrow> format_ok m cs args \<Longrightarrow> p + int (length cs) < 0 \<Longrightarrow> \<exists>r. print_loop m p args = Some r"
proof (induction "length cs" arbitrary: cs p args rule: less_induct)
  case less
  show ?case
  proof (cases cs)
    case Nil
    then show ?thesis using less.prems by (subst print_loop.simps) simp
  next
    case (Cons c ds)
    show ?thesis
    proof (cases "c = 37")
      case False
      have "\<exists>r. print_loop m (p + 1) args = Some r"
        using less.prems False by (intro less.hyps [of ds]) (simp_all add: Cons)
      then show ?thesis using less.prems False by (subst print_loop.simps) (auto simp: Cons)
    next
      case True
      then obtain k es a args' where e: "ds = k # es" "args = a # args'"
          "k = 99 \<or> (k = 115 \<and> a \<noteq> 0 \<and> (\<exists>xs. str_at m (uint a) xs))" "format_ok m es args'"
        using less.prems(2) by (auto simp: Cons split: list.splits)
      have m: "m p = Some 37" "m (p + 1) = Some k" "bytes_at m (p + 2) (es @ [0])" using less.prems(1) True by (simp_all add: Cons e add.commute)
      obtain r where r: "conversion m p (a # args') False params0 = Some (r, p + 2, args')"
        using e(3) conversion_s conversion_c m(2) by blast
      have "\<exists>r. print_loop m (p + 2) args' = Some r"
        using less.prems(3) m(3) e(4) by (intro less.hyps [of es]) (simp_all add: Cons e)
      then show ?thesis using less.prems(3) m(1) r by (subst print_loop.simps) (auto simp: Cons e)
    qed
  qed
qed

lemma bytes_at_nth: "bytes_at m a xs \<longleftrightarrow> (\<forall>i < length xs. m (a + int i) = Some (xs ! i))"
proof (induction xs arbitrary: a)
  case (Cons x xs)
  have "(\<forall>i < length (x # xs). m (a + int i) = Some ((x # xs) ! i)) \<longleftrightarrow>
      m a = Some x \<and> (\<forall>i < length xs. m (a + 1 + int i) = Some (xs ! i))"
    by (auto simp: less_Suc_eq_0_disj all_conj_distrib add.assoc)
  then show ?case using Cons.IH by simp
qed simp

lemma with_literal_str:
  assumes "0 \<le> a" "length cs < 256"
  shows "str_at (with_literal m cs) a xs = str_at m a xs"
  by (rule str_at_cong) (use assms in \<open>simp add: with_literal_def literal_def\<close>)

text \<open>Printing changes the output only.\<close>

lemma prints_some:
  assumes "format_ok (with_literal (amem w) cs) (map (\<lambda>c. of_nat (of_char c)) cs) args" "length cs < 255"
  shows "\<exists>r. acoral_prints cs args w = Some (w\<lparr>printed := printed w @ r\<rparr>)"
proof -
  have "bytes_at (with_literal (amem w) cs) (- 256) (literal cs)"
    by (simp add: bytes_at_nth with_literal_def)
  then have "\<exists>r. print_loop (with_literal (amem w) cs) (- 256) args = Some r"
    using assms by (intro print_loop_some [of _ _ "map (\<lambda>c. of_nat (of_char c)) cs"]) (simp_all add: literal_def)
  then show ?thesis by (auto simp: acoral_prints_def)
qed

section \<open>The bytes of a line\<close>

definition pad :: "u8 list \<Rightarrow> nat \<Rightarrow> u8" where
  "pad xs i = (if i < length xs then xs ! i else 0)"

definition line_holds :: "bytes \<Rightarrow> int \<Rightarrow> u8 list \<Rightarrow> bool" where
  "line_holds m l xs \<longleftrightarrow> length xs \<le> 79 \<and> 0 \<notin> set xs \<and> (\<forall>i < 80. m (l + int i) = Some (pad xs i))"

lemma line_holdsD:
  assumes "line_holds m l xs"
  shows "length xs \<le> 79" "0 \<notin> set xs" "i < 80 \<Longrightarrow> m (l + int i) = Some (pad xs i)"
  using assms by (simp_all add: line_holds_def)

lemma line_mapped: "line_holds m l xs \<Longrightarrow> i + n \<le> 80 \<Longrightarrow> mapped m (l + int i) n"
  unfolding mapped_def
proof (intro allI impI)
  fix j assume l: "line_holds m l xs" and n: "i + n \<le> 80" and j: "l + int i \<le> j \<and> j < l + int i + int n"
  then have "j = l + int (nat (j - l))" "nat (j - l) < 80" by auto
  then show "m j \<noteq> None" using line_holdsD(3) [OF l, of "nat (j - l)"] by simp
qed

lemma line_str:
  assumes "line_holds m l xs" "i \<le> length xs"
  shows "str_at m (l + int i) (drop i xs)"
proof -
  have "bytes_at m (l + int i) (drop i xs)"
    using assms line_holdsD(1) [OF assms(1)] by (auto simp: bytes_at_nth pad_def line_holds_def add.assoc simp flip: of_nat_add)
  moreover have "m (l + int (length xs)) = Some 0" using line_holdsD(1,3) [OF assms(1)] by (simp add: pad_def)
  moreover have "0 \<notin> set (drop i xs)" using line_holdsD(2) [OF assms(1)] by (meson in_set_dropD)
  ultimately show ?thesis using str_at_append [of m "l + int i" "drop i xs" "[]"] assms(2) by (simp add: of_nat_diff)
qed

text \<open>Two memories that agree outside a line.\<close>

definition same_but :: "int \<Rightarrow> bytes \<Rightarrow> bytes \<Rightarrow> bool" where
  "same_but l m m' \<longleftrightarrow> (\<forall>a. a < l \<or> l + 80 \<le> a \<longrightarrow> m' a = m a)"

lemma line_set:
  assumes l: "line_holds m l xs" and i: "i < 80"
    and ys: "length ys \<le> 79" "0 \<notin> set ys" "\<And>j. j < 80 \<Longrightarrow> pad ys j = (if j = i then c else pad xs j)"
  shows "store m (l + int i) c = Some (m(l + int i \<mapsto> c))" "line_holds (m(l + int i \<mapsto> c)) l ys" "same_but l m (m(l + int i \<mapsto> c))"
  using line_holdsD(3) [OF l] i ys by (auto simp: store_def line_holds_def same_but_def)

lemma line_insert_last:
  assumes "line_holds m l b" "length b < 79" "c \<noteq> 0"
  shows "\<exists>m'. store m (l + int (length b)) c = Some m' \<and> line_holds m' l (b @ [c]) \<and> same_but l m m'"
  using line_set [OF assms(1), of "length b" "b @ [c]" c] assms line_holdsD(1,2) [OF assms(1)]
  by (auto simp: pad_def nth_append)

lemma line_delete_last:
  assumes "line_holds m l (b @ [x])"
  shows "\<exists>m'. store m (l + int (length b)) 0 = Some m' \<and> line_holds m' l b \<and> same_but l m m'"
  using line_set [OF assms(1), of "length b" b 0] line_holdsD(1,2) [OF assms(1)]
  by (auto simp: pad_def nth_append)

lemma memmove_line:
  assumes "line_holds m l xs" "d + n \<le> 80" "s + n \<le> 80"
  shows "\<exists>m'. acoral_memmove m (l + int d) (l + int s) (word_of_int (int n)) = Some m' \<and> same_but l m m' \<and>
    (\<forall>j < 80. m' (l + int j) = Some (if d \<le> j \<and> j < d + n then pad xs (s + (j - d)) else pad xs j))"
proof -
  have n: "unat (word_of_int (int n) :: u32) = n" "uint (word_of_int (int n) :: u32) = int n"
    using assms(2) by (simp_all add: unsigned_of_nat take_bit_nat_eq_self)
  let ?m = "\<lambda>a. if l + int d \<le> a \<and> a < l + int d + int n then m (l + int s + (a - (l + int d))) else m a"
  have "?m (l + int j) = Some (if d \<le> j \<and> j < d + n then pad xs (s + (j - d)) else pad xs j)" if j: "j < 80" for j
  proof (cases "d \<le> j \<and> j < d + n")
    case True
    define k where "k = s + (j - d)"
    have k: "int k = int s + (int j - int d)" "k < 80" using True assms(3) by (auto simp: k_def of_nat_diff)
    have "?m (l + int j) = m (l + int k)" using True by (simp add: k(1) algebra_simps)
    also have "\<dots> = Some (pad xs k)" using line_holdsD(3) [OF assms(1) k(2)] .
    finally show ?thesis using True by (simp add: k_def)
  qed (use line_holdsD(3) [OF assms(1) j] in auto)
  moreover have "same_but l m ?m" using assms(2) by (auto simp: same_but_def)
  moreover have "acoral_memmove m (l + int d) (l + int s) (word_of_int (int n)) = Some ?m"
    using memmove_ok [of m "l + int d" "word_of_int (int n)" "l + int s"] unfolding n
    using line_mapped [OF assms(1,2)] line_mapped [OF assms(1,3)] by blast
  ultimately show ?thesis by blast
qed

lemma line_delete:
  assumes "line_holds m l (b @ x # a)"
  shows "\<exists>m1 m2. acoral_memmove m (l + int (length b)) (l + int (length b) + 1) (word_of_int (int (length a))) = Some m1 \<and>
    store m1 (l + int (length (b @ a))) 0 = Some m2 \<and> line_holds m2 l (b @ a) \<and> same_but l m m2"
proof -
  have ln: "length b + length a < 79" and z: "0 \<notin> set (b @ a)" using line_holdsD(1,2) [OF assms] by auto
  obtain m1 where m1: "acoral_memmove m (l + int (length b)) (l + int (length b) + 1) (word_of_int (int (length a))) = Some m1" "same_but l m m1"
      "\<forall>j < 80. m1 (l + int j) = Some (if length b \<le> j \<and> j < length b + length a then pad (b @ x # a) (Suc (length b) + (j - length b)) else pad (b @ x # a) j)"
    using memmove_line [OF assms, of "length b" "length a" "Suc (length b)"] ln by (auto simp: ac_simps)
  let ?m2 = "m1(l + int (length (b @ a)) \<mapsto> 0)"
  have "?m2 (l + int j) = Some (pad (b @ a) j)" if "j < 80" for j
    using m1(3) that by (auto simp: pad_def nth_append nth_Cons' Suc_diff_le)
  then have "line_holds ?m2 l (b @ a)" using ln z by (simp add: line_holds_def)
  moreover have "store m1 (l + int (length (b @ a))) 0 = Some ?m2" using m1(3) ln by (simp add: store_def del: of_nat_add)
  moreover have "same_but l m ?m2" using m1(2) ln by (simp add: same_but_def)
  ultimately show ?thesis using m1(1) by blast
qed

lemma line_insert:
  assumes "line_holds m l (b @ a)" "length (b @ a) < 79" "c \<noteq> 0"
  shows "\<exists>m1 m2 m3. acoral_memmove m (l + int (length b) + 1) (l + int (length b)) (word_of_int (int (length a))) = Some m1 \<and>
    store m1 (l + int (length b)) c = Some m2 \<and> store m2 (l + int (length (b @ a)) + 1) 0 = Some m3 \<and>
    line_holds m3 l (b @ c # a) \<and> same_but l m m3"
proof -
  have ln: "length b + length a < 79" and z: "0 \<notin> set (b @ a)" using assms(2) line_holdsD(2) [OF assms(1)] by auto
  obtain m1 where m1: "acoral_memmove m (l + int (length b) + 1) (l + int (length b)) (word_of_int (int (length a))) = Some m1" "same_but l m m1"
      "\<forall>j < 80. m1 (l + int j) = Some (if Suc (length b) \<le> j \<and> j < Suc (length b) + length a then pad (b @ a) (length b + (j - Suc (length b))) else pad (b @ a) j)"
    using memmove_line [OF assms(1), of "Suc (length b)" "length a" "length b"] ln by (auto simp: ac_simps)
  let ?m2 = "m1(l + int (length b) \<mapsto> c)"
  let ?m3 = "?m2(l + int (length (b @ a)) + 1 \<mapsto> 0)"
  have "?m3 (l + int j) = Some (pad (b @ c # a) j)" if "j < 80" for j
    using m1(3) that by (auto simp: pad_def nth_append nth_Cons')
  then have "line_holds ?m3 l (b @ c # a)" using ln z assms(3) by (simp add: line_holds_def)
  moreover have "store m1 (l + int (length b)) c = Some ?m2" using m1(3) ln by (simp add: store_def)
  moreover have "m1 (l + int (Suc (length (b @ a)))) \<noteq> None" using m1(3) ln by (simp del: of_nat_Suc)
  then have "store ?m2 (l + int (length (b @ a)) + 1) 0 = Some ?m3" by (simp add: store_def ac_simps)
  moreover have "same_but l m ?m3" using m1(2) ln by (simp add: same_but_def)
  ultimately show ?thesis using m1(1) by blast
qed

section \<open>Counters\<close>

lemma u16_of_nat:
  assumes "p < 2 ^ 16"
  shows "unat (of_nat p :: u16) = p" "uint (of_nat p :: u16) = int p" "(ucast (of_nat p :: u16) :: u32) = of_nat p"
proof -
  show u: "unat (of_nat p :: u16) = p" using assms unfolding unsigned_of_nat by (simp add: take_bit_nat_eq_self)
  then show "uint (of_nat p :: u16) = int p" by (metis uint_nat)
  have "unat (ucast (of_nat p :: u16) :: u32) = p"
    using assms unfolding unsigned_ucast_eq u by (simp add: take_bit_nat_eq_self)
  moreover have "unat (of_nat p :: u32) = p" using assms unfolding unsigned_of_nat by (simp add: take_bit_nat_eq_self)
  ultimately show "(ucast (of_nat p :: u16) :: u32) = of_nat p" by (simp only: word_unat_eq_iff)
qed

lemma u16_compare:
  assumes "p < 2 ^ 16" "q < 2 ^ 16"
  shows "(of_nat p :: u16) < of_nat q \<longleftrightarrow> p < q" "(of_nat p :: u16) = of_nat q \<longleftrightarrow> p = q"
  unfolding word_less_nat_alt word_unat_eq_iff u16_of_nat(1) [OF assms(1)] u16_of_nat(1) [OF assms(2)] by (rule refl)+

lemma u16_zero: "p < 2 ^ 16 \<Longrightarrow> (of_nat p :: u16) = 0 \<longleftrightarrow> p = 0"
  using u16_compare(2) [of p 0] by simp

lemma u16_diff: "q \<le> p \<Longrightarrow> p < 2 ^ 16 \<Longrightarrow> (ucast (of_nat p :: u16) - ucast (of_nat q :: u16) :: u32) = word_of_int (int (p - q))"
  by (simp add: u16_of_nat(3) of_nat_diff)

section \<open>The abstract editor\<close>

text \<open>The line before and behind the cursor, the history and the position in it.\<close>

record editor =
  before :: "u8 list"
  after :: "u8 list"
  hist :: "u8 list list"
  cur :: nat

datatype ekey = Char u8 | Backspace | Lft | Rgt | Up | Down

fun key_bytes :: "ekey \<Rightarrow> u8 list" where
  "key_bytes (Char c) = [c]"
| "key_bytes Backspace = [0x7F]"
| "key_bytes Lft = [0x1b, 0x5b, 0x44]"
| "key_bytes Rgt = [0x1b, 0x5b, 0x43]"
| "key_bytes Up = [0x1b, 0x5b, 0x41]"
| "key_bytes Down = [0x1b, 0x5b, 0x42]"

definition recall :: "nat \<Rightarrow> editor \<Rightarrow> editor" where
  "recall i e = e\<lparr>before := hist e ! i, after := [], cur := i\<rparr>"

fun ed_step :: "ekey \<Rightarrow> editor \<Rightarrow> editor" where
  "ed_step (Char c) e = e\<lparr>before := before e @ [c]\<rparr>"
| "ed_step Backspace e = e\<lparr>before := butlast (before e)\<rparr>"
| "ed_step Lft e = (if before e = [] then e else e\<lparr>before := butlast (before e), after := last (before e) # after e\<rparr>)"
| "ed_step Rgt e = (if after e = [] then e else e\<lparr>before := before e @ [hd (after e)], after := tl (after e)\<rparr>)"
| "ed_step Up e = (if cur e = 0 then e else recall (cur e - 1) e)"
| "ed_step Down e = (if cur e + 1 < length (hist e) then recall (cur e + 1) e else if hist e \<noteq> [] then recall (length (hist e) - 1) e else e)"

text \<open>A printing character, or any other character without a meaning of its own, when there is room for it.\<close>

definition key_ok :: "ekey \<Rightarrow> editor \<Rightarrow> bool" where
  "key_ok k e \<longleftrightarrow> (case k of Char c \<Rightarrow> c \<notin> {0, 8, 10, 13, 0x1b, 0x7F} \<and> length (before e @ after e) < 79 | _ \<Rightarrow> True)"

definition hist_ok :: "bytes \<Rightarrow> int \<Rightarrow> u8 list list \<Rightarrow> bool" where
  "hist_ok m a hs \<longleftrightarrow> length hs \<le> 5 \<and> mapped m a 400 \<and> (\<forall>j < length hs. line_holds m (a + 80 * int j) (hs ! j))"

definition prompt_ok :: "bytes \<Rightarrow> int \<Rightarrow> int \<Rightarrow> int \<Rightarrow> bool" where
  "prompt_ok m a l h \<longleftrightarrow> 0 < a \<and> a < 2 ^ 32 \<and>
     (\<exists>xs. str_at m a xs \<and> (a + int (length xs) < l \<or> l + 80 \<le> a) \<and> (a + int (length xs) < h \<or> h + 400 \<le> a))"

definition refines :: "'a sh \<Rightarrow> editor \<Rightarrow> bool" where
  "refines w e \<longleftrightarrow> stat w = WAIT_NORMAL \<and> \<not> dir_change w \<and> 0 < line w \<and> line w + 80 < 2 ^ 32 \<and>
     (line w + 80 \<le> cmd_history w \<or> cmd_history w + 400 \<le> line w) \<and> prompt_ok (amem w) (ash_prompt w) (line w) (cmd_history w) \<and>
     line_holds (amem w) (line w) (before e @ after e) \<and> line_position w = of_nat (length (before e @ after e)) \<and>
     line_curpos w = of_nat (length (before e)) \<and> hist_ok (amem w) (cmd_history w) (hist e) \<and>
     history_count w = of_nat (length (hist e)) \<and> current_history w = of_nat (cur e) \<and> cur e \<le> length (hist e)"

lemma hist_frame:
  assumes "hist_ok m a hs" "same_but l m m'" "l + 80 \<le> a \<or> a + 400 \<le> l"
  shows "hist_ok m' a hs"
proof -
  have s: "m' i = m i" if "a \<le> i" "i < a + 400" for i using assms(2,3) that by (auto simp: same_but_def)
  have "line_holds m' (a + 80 * int j) (hs ! j)" if j: "j < length hs" for j
  proof -
    have "m' (a + 80 * int j + int i) = m (a + 80 * int j + int i)" if "i < 80" for i
      using j that assms(1) by (intro s) (auto simp: hist_ok_def)
    then show ?thesis using assms(1) j by (simp add: hist_ok_def line_holds_def)
  qed
  moreover have "mapped m' a 400" using assms(1) s by (simp add: hist_ok_def mapped_def)
  ultimately show ?thesis using assms(1) by (simp add: hist_ok_def)
qed

lemma prompt_frame:
  assumes "prompt_ok m a l h" "\<And>i. i < l \<or> l + 80 \<le> i \<Longrightarrow> i < h \<or> h + 400 \<le> i \<Longrightarrow> m' i = m i"
  shows "prompt_ok m' a l h"
proof -
  obtain xs where x: "str_at m a xs" "a + int (length xs) < l \<or> l + 80 \<le> a" "a + int (length xs) < h \<or> h + 400 \<le> a" "0 < a" "a < 2 ^ 32"
    using assms(1) by (auto simp: prompt_ok_def)
  have "str_at m' a xs = str_at m a xs" by (rule str_at_cong) (use x(2,3) in \<open>auto intro!: assms(2)\<close>)
  then show ?thesis using x by (auto simp: prompt_ok_def)
qed

text \<open>A new line in the same place.\<close>

lemma refines_line:
  assumes "refines w e" "same_but (line w) (amem w) m'" "line_holds m' (line w) (b @ a)"
  shows "refines (w\<lparr>amem := m', line_position := of_nat (length (b @ a)), line_curpos := of_nat (length b)\<rparr>)
    (e\<lparr>before := b, after := a\<rparr>)"
proof -
  have "prompt_ok m' (ash_prompt w) (line w) (cmd_history w)"
    by (rule prompt_frame [of "amem w"]) (use assms(1,2) in \<open>auto simp: refines_def same_but_def\<close>)
  then show ?thesis using assms hist_frame [OF _ assms(2)] by (simp add: refines_def)
qed

lemma refines_order [simp]:
  "refines (w\<lparr>line_position := p, line_curpos := c, printed := r, amem := m\<rparr>) e = refines (w\<lparr>amem := m, line_position := p, line_curpos := c\<rparr>) e"
  "refines (w\<lparr>line_position := p, line_curpos := c, amem := m\<rparr>) e = refines (w\<lparr>amem := m, line_position := p, line_curpos := c\<rparr>) e"
  "refines (w\<lparr>amem := m, printed := r, line_position := p, line_curpos := c\<rparr>) e = refines (w\<lparr>amem := m, line_position := p, line_curpos := c\<rparr>) e"
  "refines (w\<lparr>printed := r\<rparr>) e = refines w e"
  by (simp_all add: refines_def)

lemma refines_small:
  assumes "refines w e"
  shows "length (before e) \<le> 79" "length (before e @ after e) \<le> 79" "length (before e @ after e) < 2 ^ 16" "length (before e) < 2 ^ 16"
    "uint (line_curpos w) = int (length (before e))" "uint (line_position w) = int (length (before e @ after e))"
proof -
  show l: "length (before e @ after e) \<le> 79" using line_holdsD(1) [of "amem w" "line w" "before e @ after e"] assms by (simp add: refines_def)
  then show "length (before e) \<le> 79" by simp
  show "length (before e @ after e) < 2 ^ 16" "length (before e) < 2 ^ 16" using l by simp_all
  then show "uint (line_curpos w) = int (length (before e))" "uint (line_position w) = int (length (before e @ after e))"
    using u16_of_nat(2) assms by (simp_all only: refines_def)
qed

lemma move_cursor_some: "\<exists>r. move_cursor n w = Some (w\<lparr>printed := printed w @ r\<rparr>)"
proof (induction n arbitrary: w)
  case (Suc n)
  obtain r where "acoral_prints [CHR 0x08] [] w = Some (w\<lparr>printed := printed w @ r\<rparr>)"
    using prints_some [of w "[CHR 0x08]" "[]"] by auto
  moreover obtain r' where "move_cursor n (w\<lparr>printed := printed w @ r\<rparr>) = Some (w\<lparr>printed := printed w @ r @ r'\<rparr>)"
    using Suc.IH [of "w\<lparr>printed := printed w @ r\<rparr>"] by auto
  ultimately show ?case by auto
qed (auto intro: exI [of _ "[]"])

section \<open>The keys\<close>

text \<open>Printing the line from the cursor on, or a string elsewhere.\<close>

lemma line_arg:
  assumes "refines w e" "k \<le> 80"
  shows "uint (word_of_int (line w + int k) :: u32) = line w + int k" "(word_of_int (line w + int k) :: u32) \<noteq> 0"
proof -
  have b: "0 < line w + int k" "line w + int k < 2 ^ 32" using assms by (simp_all add: refines_def)
  then show u: "uint (word_of_int (line w + int k) :: u32) = line w + int k" unfolding uint_word_of_int using b by simp
  show "(word_of_int (line w + int k) :: u32) \<noteq> 0" using u b(1) by (metis less_irrefl unsigned_0)
qed

lemma prints_plain: "\<forall>c \<in> set (map (\<lambda>c. of_nat (of_char c) :: u8) cs). c \<noteq> 37 \<and> c \<noteq> 0 \<Longrightarrow> length cs < 255 \<Longrightarrow>
    \<exists>r. acoral_prints cs [] w = Some (w\<lparr>printed := printed w @ r\<rparr>)"
proof (rule prints_some)
  have "\<forall>c \<in> set xs. c \<noteq> 37 \<and> c \<noteq> 0 \<Longrightarrow> format_ok m xs []" for m and xs :: "u8 list" by (induction xs) auto
  then show "\<forall>c \<in> set (map (\<lambda>c. of_nat (of_char c) :: u8) cs). c \<noteq> 37 \<and> c \<noteq> 0 \<Longrightarrow> format_ok (with_literal (amem w) cs) (map (\<lambda>c. of_nat (of_char c)) cs) []"
    by blast
qed

lemma key_left_ok:
  assumes "refines w e"
  shows "\<exists>w'. key_left w = Some w' \<and> refines w' (ed_step Lft e)"
proof (cases "before e" rule: rev_cases)
  case Nil
  then show ?thesis using assms by (simp add: key_left_def refines_def)
next
  case (snoc bs x)
  have z: "line_curpos w \<noteq> 0" using u16_zero [OF refines_small(4) [OF assms]] assms by (simp add: refines_def snoc)
  obtain r where "acoral_prints [CHR 0x08] [] w = Some (w\<lparr>printed := printed w @ r\<rparr>)" using prints_plain [of "[CHR 0x08]" w] by auto
  moreover have "refines (w\<lparr>printed := printed w @ r, line_curpos := line_curpos w - 1\<rparr>) (ed_step Lft e)"
    using assms by (simp add: refines_def snoc)
  ultimately show ?thesis using z by (simp add: key_left_def)
qed

lemma key_right_ok:
  assumes "refines w e"
  shows "\<exists>w'. key_right w = Some w' \<and> refines w' (ed_step Rgt e)"
proof (cases "after e")
  case Nil
  then show ?thesis using assms by (simp add: key_right_def refines_def)
next
  case (Cons x a)
  have lt: "line_curpos w < line_position w"
    using assms u16_compare(1) [OF refines_small(4,3) [OF assms]] by (simp add: refines_def Cons)
  have "line_holds (amem w) (line w) (before e @ after e)" using assms by (simp add: refines_def)
  then have "amem w (line w + int (length (before e))) = Some x"
    using line_holdsD(3) refines_small(1) [OF assms] by (fastforce simp: pad_def Cons)
  moreover obtain r where "acoral_prints ''%c'' [ucast x] w = Some (w\<lparr>printed := printed w @ r\<rparr>)"
    using prints_some [of w "''%c''" "[ucast x]"] by auto
  moreover have "refines (w\<lparr>printed := printed w @ r, line_curpos := line_curpos w + 1\<rparr>) (ed_step Rgt e)"
    using assms by (simp add: refines_def Cons)
  ultimately show ?thesis using lt by (simp add: key_right_def refines_small(5) [OF assms])
qed

text \<open>Printing the line from position \<open>k\<close> on.\<close>

lemma prints_line:
  assumes "refines w e" "line_holds m (line w) xs" "k \<le> length xs" "amem w' = m"
    and f: "\<And>m' a. a \<noteq> 0 \<Longrightarrow> (\<exists>ys. str_at m' (uint a) ys) \<Longrightarrow> format_ok m' (map (\<lambda>c. of_nat (of_char c)) cs) [a]" "length cs < 255"
  shows "\<exists>r. acoral_prints cs [word_of_int (line w + int k)] w' = Some (w'\<lparr>printed := printed w' @ r\<rparr>)"
proof (rule prints_some [OF _ f(2)])
  have k: "k \<le> 80" using assms(3) line_holdsD(1) [OF assms(2)] by simp
  have "0 \<le> line w + int k" using assms(1) by (simp add: refines_def)
  then have "str_at (with_literal (amem w') cs) (line w + int k) (drop k xs)"
    using line_str [OF assms(2,3)] f(2) by (simp add: with_literal_str assms(4))
  then show "format_ok (with_literal (amem w') cs) (map (\<lambda>c. of_nat (of_char c)) cs) [word_of_int (line w + int k)]"
    using line_arg [OF assms(1) k] by (intro f(1)) auto
qed

lemma key_backspace_ok:
  assumes "refines w e"
  shows "\<exists>w'. key_backspace w = Some w' \<and> refines w' (ed_step Backspace e)"
proof (cases "before e" rule: rev_cases)
  case Nil
  then show ?thesis using assms by (simp add: key_backspace_def refines_def)
next
  case (snoc b x)
  let ?a = "after e"
  have z: "line_curpos w \<noteq> 0" using u16_zero [OF refines_small(4) [OF assms]] assms by (simp add: refines_def snoc)
  have lh: "line_holds (amem w) (line w) (b @ x # ?a)" using assms by (simp add: refines_def snoc)
  have ln: "length b + length ?a < 79" using line_holdsD(1) [OF lh] by simp
  define p :: u16 where "p = of_nat (length (b @ ?a))"
  define c :: u16 where "c = of_nat (length b)"
  define at where "at = line w + int (length b)"
  have pc: "line_position w - 1 = p" "line_curpos w - 1 = c" using assms by (simp_all add: refines_def snoc p_def c_def)
  have u: "uint p = int (length (b @ ?a))" "line w + uint c = at" unfolding p_def c_def at_def by (subst u16_of_nat(2); use ln in simp)+
  let ?w0 = "w\<lparr>line_position := p, line_curpos := c\<rparr>"
  have fin: "refines (w\<lparr>amem := m', line_position := p, line_curpos := c\<rparr>) (ed_step Backspace e)"
    if "line_holds m' (line w) (b @ ?a)" "same_but (line w) (amem w) m'" for m'
    using refines_line [OF assms that(2,1)] snoc by (simp add: p_def c_def)
  show ?thesis
  proof (cases "?a = []")
    case True
    obtain m' where m': "store (amem w) at 0 = Some m'" "line_holds m' (line w) (b @ ?a)" "same_but (line w) (amem w) m'"
      using line_delete_last [of "amem w" "line w" b x] lh True by (auto simp: at_def)
    obtain r where r: "acoral_prints [CHR 0x08, CHR 0x20, CHR 0x08] [] ?w0 = Some (?w0\<lparr>printed := printed w @ r\<rparr>)"
      using prints_plain [of "[CHR 0x08, CHR 0x20, CHR 0x08]" ?w0] by auto
    have "p = c" using True by (simp add: p_def c_def)
    then have "key_backspace w = Some (?w0\<lparr>printed := printed w @ r, amem := m'\<rparr>)"
      using z r m'(1) u by (simp add: key_backspace_def pc in_mem_def)
    then show ?thesis using fin [OF m'(2,3)] by simp
  next
    case False
    then have lt: "c < p" unfolding p_def c_def using ln by (subst u16_compare) simp_all
    obtain m1 m2 where m: "acoral_memmove (amem w) at (at + 1) (word_of_int (int (length ?a))) = Some m1"
        "store m1 (line w + uint p) 0 = Some m2" "line_holds m2 (line w) (b @ ?a)" "same_but (line w) (amem w) m2"
      using line_delete [OF lh] unfolding at_def u(1) by blast
    have cnt: "(ucast p - ucast c :: u32) = word_of_int (int (length ?a))"
      unfolding p_def c_def using u16_diff [of "length b" "length (b @ ?a)"] ln by simp
    let ?w = "?w0\<lparr>amem := m2\<rparr>" and ?f = "[CHR 0x08] @ ''%s  '' @ [CHR 0x08]"
    obtain r where r: "acoral_prints ?f [word_of_int at] ?w = Some (?w\<lparr>printed := printed w @ r\<rparr>)"
      using prints_line [OF assms m(3), of "length b" ?w ?f] by (auto simp: at_def)
    obtain r' where r': "move_cursor (unat p + 1 - unat c) (?w\<lparr>printed := printed w @ r\<rparr>) = Some (?w\<lparr>printed := printed w @ r @ r'\<rparr>)"
      using move_cursor_some [of "unat p + 1 - unat c" "?w\<lparr>printed := printed w @ r\<rparr>"] by auto
    have "key_backspace w = Some (?w\<lparr>printed := printed w @ r @ r'\<rparr>)"
      using z lt m(1,2) r r' cnt u(2) by (simp add: key_backspace_def Let_def pc in_mem_def)
    then show ?thesis using fin [OF m(3,4)] by simp
  qed
qed

lemma key_char_ok:
  assumes "refines w e" "c \<noteq> 0" "length (before e @ after e) < 79"
  shows "\<exists>w'. key_char c w = Some (False, w') \<and> refines w' (ed_step (Char c) e)"
proof -
  let ?b = "before e" and ?a = "after e"
  define p where "p = line_position w"
  define q where "q = line_curpos w"
  define at where "at = line w + int (length ?b)"
  have u: "uint p = int (length (?b @ ?a))" "uint q = int (length ?b)" using refines_small(5,6) [OF assms(1)] by (simp_all add: p_def q_def)
  then have at: "line w + uint q = at" by (simp add: at_def)
  have room: "unat p < ASH_CMD_SIZE" using u(1) assms(3) by (simp add: ASH_CMD_SIZE_def unat_eq_nat_uint)
  have lh: "line_holds (amem w) (line w) (?b @ ?a)" using assms(1) by (simp add: refines_def)
  have pq: "p + 1 = of_nat (length ((?b @ [c]) @ ?a))" "q + 1 = of_nat (length (?b @ [c]))"
    using assms(1) by (simp_all add: refines_def p_def q_def)
  have fin: "refines (w\<lparr>amem := m', line_position := p + 1, line_curpos := q + 1\<rparr>) (ed_step (Char c) e)"
    if "line_holds m' (line w) (?b @ c # ?a)" "same_but (line w) (amem w) m'" for m'
    using refines_line [OF assms(1) that(2), of "?b @ [c]" ?a] that(1) unfolding pq by (cases e) simp
  show ?thesis
  proof (cases "?a = []")
    case True
    then have "p = q" using assms(1) by (simp add: p_def q_def refines_def)
    obtain m' where m': "store (amem w) at c = Some m'" "line_holds m' (line w) (?b @ c # ?a)" "same_but (line w) (amem w) m'"
      using line_insert_last [of "amem w" "line w" ?b c] lh True assms(2,3) by (auto simp: at_def)
    have "key_char c w = Some (False, (if echo_mode w then w\<lparr>amem := m', printed := printed w @ [c]\<rparr> else w\<lparr>amem := m'\<rparr>)
        \<lparr>line_position := p + 1, line_curpos := q + 1\<rparr>)"
      using room m'(1) at \<open>p = q\<close> by (simp add: key_char_def Let_def in_mem_def flip: p_def q_def)
    then show ?thesis using fin [OF m'(2,3)] by auto
  next
    case False
    then have lt: "q < p" using assms(1) u16_compare(1) [OF refines_small(4,3) [OF assms(1)]] by (simp add: refines_def p_def q_def)
    obtain m1 m2 m3 where m: "acoral_memmove (amem w) (at + 1) at (word_of_int (int (length ?a))) = Some m1" "store m1 at c = Some m2"
        "store m2 (line w + uint p + 1) 0 = Some m3" "line_holds m3 (line w) (?b @ c # ?a)" "same_but (line w) (amem w) m3"
      using line_insert [OF lh assms(3,2)] unfolding at_def u(1) by blast
    have cnt: "(ucast p - ucast q :: u32) = word_of_int (int (length ?a))"
      using u16_diff [of "length ?b" "length (?b @ ?a)"] refines_small(3) [OF assms(1)] assms(1) by (simp add: refines_def p_def q_def)
    let ?w = "w\<lparr>amem := m3\<rparr>"
    obtain r where r: "acoral_prints ''%s'' [word_of_int at] ?w = Some (?w\<lparr>printed := printed w @ r\<rparr>)"
      using prints_line [OF assms(1) m(4), of "length ?b" ?w "''%s''"] by (auto simp: at_def)
    obtain r' where r': "move_cursor (unat p - unat q) (?w\<lparr>printed := printed w @ r\<rparr>) = Some (?w\<lparr>printed := printed w @ r @ r'\<rparr>)"
      using move_cursor_some [of "unat p - unat q" "?w\<lparr>printed := printed w @ r\<rparr>"] by auto
    have "key_char c w = Some (False, ?w\<lparr>printed := printed w @ r @ r', line_position := p + 1, line_curpos := q + 1\<rparr>)"
      using room lt m(1-3) r r' cnt at by (simp add: key_char_def Let_def in_mem_def flip: p_def q_def)
    then show ?thesis using fin [OF m(4,5)] by simp
  qed
qed

text \<open>The prompt and the line are printed again.\<close>

lemma handle_history_ok:
  assumes "refines w e"
  shows "\<exists>r. shell_handle_history w = Some (w\<lparr>printed := r\<rparr>)"
proof -
  obtain r where r: "acoral_prints ([CHR 0x1B] @ ''[2K'' @ [CHR 0x0D]) [] w = Some (w\<lparr>printed := printed w @ r\<rparr>)"
    using prints_plain [of "[CHR 0x1B] @ ''[2K'' @ [CHR 0x0D]" w] by auto
  let ?w = "w\<lparr>printed := printed w @ r\<rparr>"
  have d: "\<not> dir_change w" using assms by (simp add: refines_def)
  obtain xs where p: "0 < ash_prompt w" "ash_prompt w < 2 ^ 32" "str_at (amem w) (ash_prompt w) xs"
    using assms by (auto simp: refines_def prompt_ok_def)
  have pu: "uint (word_of_int (ash_prompt w) :: u32) = ash_prompt w" unfolding uint_word_of_int using p(1,2) by simp
  then have pz: "(word_of_int (ash_prompt w) :: u32) \<noteq> 0" using p(1) by (metis less_irrefl unsigned_0)
  have lu: "uint (word_of_int (line w) :: u32) = line w" "(word_of_int (line w) :: u32) \<noteq> 0" using line_arg [OF assms, of 0] by simp_all
  have lh: "line_holds (amem w) (line w) (before e @ after e)" using assms by (simp add: refines_def)
  have "str_at (with_literal (amem w) ''%s%s'') (ash_prompt w) xs" "str_at (with_literal (amem w) ''%s%s'') (line w) (before e @ after e)"
    using p(1,3) line_str [OF lh, of 0] assms by (simp_all add: with_literal_str refines_def)
  then have f: "format_ok (with_literal (amem ?w) ''%s%s'') (map (\<lambda>c. of_nat (of_char c)) ''%s%s'') [word_of_int (ash_prompt w), word_of_int (line w)]"
    using pz lu(2) by (auto simp: pu lu(1))
  obtain r' where "acoral_prints ''%s%s'' [word_of_int (ash_prompt w), word_of_int (line w)] ?w = Some (?w\<lparr>printed := printed ?w @ r'\<rparr>)"
    using prints_some [OF f] by auto
  then show ?thesis using r d by (auto simp: shell_handle_history_def ash_get_prompt_def)
qed

lemma hist_entry:
  assumes "refines w e" "i < length (hist e)"
  shows "line_holds (amem w) (cmd_history w + 80 * int i) (hist e ! i)"
    "line w + 80 \<le> cmd_history w + 80 * int i \<or> cmd_history w + 80 * int i + 80 \<le> line w" "i < 5"
proof -
  have h: "hist_ok (amem w) (cmd_history w) (hist e)" and d: "line w + 80 \<le> cmd_history w \<or> cmd_history w + 400 \<le> line w"
    using assms(1) by (simp_all add: refines_def)
  show "line_holds (amem w) (cmd_history w + 80 * int i) (hist e ! i)" "i < 5" using h assms(2) by (simp_all add: hist_ok_def)
  then show "line w + 80 \<le> cmd_history w + 80 * int i \<or> cmd_history w + 80 * int i + 80 \<le> line w" using d by auto
qed

text \<open>Copying a whole line.\<close>

lemma line_copy:
  assumes "line_holds m a xs" "mapped m l 80" "l + 80 \<le> a \<or> a + 80 \<le> l"
  shows "\<exists>m'. acoral_memcpy m l a (of_nat ASH_CMD_SIZE) = Some m' \<and> line_holds m' l xs \<and> same_but l m m'"
proof -
  let ?m = "\<lambda>i. if l \<le> i \<and> i < l + int 80 then m (a + (i - l)) else m i"
  have "mapped m a 80" using line_mapped [OF assms(1), of 0 80] by simp
  then have "memcpy_loop m l a 80 = Some ?m" using memcpy_loop_ok [OF assms(2)] assms(3) by auto
  moreover have "line_holds ?m l xs" using assms(1) by (simp add: line_holds_def)
  moreover have "same_but l m ?m" by (simp add: same_but_def)
  ultimately show ?thesis by (auto simp: acoral_memcpy_def ASH_CMD_SIZE_def)
qed

lemma recall_ok:
  assumes "refines w e" "i < length (hist e)"
  shows "\<exists>w'. recall_history (w\<lparr>current_history := of_nat i\<rparr>) = Some w' \<and> refines w' (recall i e)"
proof -
  let ?h = "hist e ! i" and ?w = "w\<lparr>current_history := of_nat i\<rparr>"
  note he = hist_entry [OF assms]
  have u: "uint (of_nat i :: u16) = int i" by (rule u16_of_nat(2)) (use he(3) in simp)
  have "line_holds (amem w) (line w) (before e @ after e)" using assms(1) by (simp add: refines_def)
  then have "mapped (amem w) (line w) 80" using line_mapped [of _ _ _ 0 80] by fastforce
  then obtain m' where m': "acoral_memcpy (amem w) (line w) (cmd_history w + 80 * int i) (of_nat ASH_CMD_SIZE) = Some m'"
      "line_holds m' (line w) ?h" "same_but (line w) (amem w) m'"
    using line_copy [OF he(1) _ he(2)] by blast
  have len: "acoral_str_len m' (line w) = Some (of_nat (length ?h))" using str_len_ok line_str [OF m'(2), of 0] by simp
  have l: "length ?h \<le> 79" by (rule line_holdsD(1) [OF m'(2)])
  have "unat (of_nat (length ?h) :: u32) = length ?h" unfolding unsigned_of_nat using l by (simp add: take_bit_nat_eq_self)
  then have n: "(ucast (of_nat (length ?h) :: u32) :: u16) = of_nat (length ?h)" by (metis of_nat_unat)
  let ?w1 = "?w\<lparr>amem := m', line_position := of_nat (length ?h), line_curpos := of_nat (length ?h)\<rparr>"
  have "refines (w\<lparr>amem := m', line_position := of_nat (length ?h), line_curpos := of_nat (length ?h)\<rparr>) (e\<lparr>before := ?h, after := []\<rparr>)"
    using refines_line [OF assms(1) m'(3), of ?h "[]"] m'(2) by simp
  then have r: "refines ?w1 (recall i e)" using assms(2) by (simp add: refines_def recall_def)
  moreover obtain p where "shell_handle_history ?w1 = Some (?w1\<lparr>printed := p\<rparr>)" using handle_history_ok [OF r] by blast
  moreover have "hist_adr (int i) ?w = cmd_history w + 80 * int i" by (simp add: hist_adr_def ASH_CMD_SIZE_def)
  ultimately show ?thesis
    using m'(1) len by (simp add: recall_history_def in_mem_def u n)
qed

lemma key_up_ok:
  assumes "refines w e"
  shows "\<exists>w'. key_up w = Some w' \<and> refines w' (ed_step Up e)"
proof (cases "cur e")
  case 0
  then show ?thesis using assms by (simp add: key_up_def refines_def)
next
  case (Suc i)
  have c: "current_history w = of_nat (Suc i)" "i < length (hist e)" using assms Suc by (simp_all add: refines_def)
  have "i < 5" by (rule hist_entry(3) [OF assms c(2)])
  then have "current_history w > 0" using c(1) u16_zero [of "Suc i"] by (simp add: word_gt_0)
  then show ?thesis using recall_ok [OF assms c(2)] Suc by (simp add: key_up_def c(1))
qed

lemma key_down_ok:
  assumes "refines w e"
  shows "\<exists>w'. key_down w = Some w' \<and> refines w' (ed_step Down e)"
proof -
  have f: "history_count w = of_nat (length (hist e))" "current_history w = of_nat (cur e)" "cur e \<le> length (hist e)" "length (hist e) \<le> 5"
    using assms by (simp_all add: refines_def hist_ok_def)
  have "uint (history_count w) = int (length (hist e))" "uint (current_history w) = int (cur e)"
    unfolding f(1,2) by (rule u16_of_nat(2), use f(3,4) in simp)+
  then have c: "uint (current_history w) < uint (history_count w) - 1 \<longleftrightarrow> cur e + 1 < length (hist e)" by auto
  have z: "history_count w \<noteq> 0 \<longleftrightarrow> hist e \<noteq> []" using u16_zero [of "length (hist e)"] f(1,4) by simp
  show ?thesis
  proof (cases "cur e + 1 < length (hist e)")
    case True
    then show ?thesis using recall_ok [OF assms True] c by (simp add: key_down_def f(2) add.commute)
  next
    case False
    show ?thesis
    proof (cases "hist e = []")
      case True
      then show ?thesis using assms False c z by (simp add: key_down_def)
    next
      case ne: False
      then have "history_count w - 1 = of_nat (length (hist e) - 1)" by (simp add: f(1) of_nat_diff Suc_leI)
      then show ?thesis using recall_ok [OF assms, of "length (hist e) - 1"] False ne c z by (simp add: key_down_def)
    qed
  qed
qed

text \<open>One key, and a sequence of keys, as the characters that arrive.\<close>

fun feed :: "'a ash_shell_ext cmd_exe \<Rightarrow> parse_state \<Rightarrow> u8 list \<Rightarrow> 'a sh \<Rightarrow> (bool \<times> 'a sh) option" where
  "feed exe junk [] w = Some (False, w)"
| "feed exe junk (c # cs) w = do { (returns, w) \<leftarrow> shell_key exe junk c w; if returns then Some (True, w) else feed exe junk cs w }"

lemma feed_append: "feed exe junk cs w = Some (False, w') \<Longrightarrow> feed exe junk (cs @ ds) w = feed exe junk ds w'"
  by (induction cs arbitrary: w) (auto split: if_splits simp: bind_eq_Some_conv)

lemma stat_same: "refines w e \<Longrightarrow> w\<lparr>stat := WAIT_NORMAL\<rparr> = w"
  by (cases w) (simp add: refines_def)

lemma feed_key:
  assumes "refines w e" "key_ok k e"
  shows "\<exists>w'. feed exe junk (key_bytes k) w = Some (False, w') \<and> refines w' (ed_step k e)"
proof -
  have n: "stat w = WAIT_NORMAL" using assms(1) by (simp add: refines_def)
  note st = stat_same [OF assms(1)]
  show ?thesis
  proof (cases k)
    case (Char c)
    then show ?thesis using key_char_ok [OF assms(1), of c] assms(2) n by (auto simp: key_ok_def shell_key_def key_normal_def)
  next
    case Backspace
    then show ?thesis using key_backspace_ok [OF assms(1)] n by (auto simp: shell_key_def key_normal_def)
  next
    case Lft
    then show ?thesis using key_left_ok [OF assms(1)] n by (auto simp: shell_key_def st)
  next
    case Rgt
    then show ?thesis using key_right_ok [OF assms(1)] n by (auto simp: shell_key_def st)
  next
    case Up
    then show ?thesis using key_up_ok [OF assms(1)] n by (auto simp: shell_key_def st)
  next
    case Down
    then show ?thesis using key_down_ok [OF assms(1)] n by (auto simp: shell_key_def st)
  qed
qed

fun keys_ok :: "ekey list \<Rightarrow> editor \<Rightarrow> bool" where
  "keys_ok [] e = True"
| "keys_ok (k # ks) e \<longleftrightarrow> key_ok k e \<and> keys_ok ks (ed_step k e)"

lemma feed_keys:
  assumes "refines w e" "keys_ok ks e"
  shows "\<exists>w'. feed exe junk (concat (map key_bytes ks)) w = Some (False, w') \<and> refines w' (fold ed_step ks e)"
  using assms
proof (induction ks arbitrary: w e)
  case (Cons k ks)
  obtain w1 where w1: "feed exe junk (key_bytes k) w = Some (False, w1)" "refines w1 (ed_step k e)"
    using feed_key [OF Cons.prems(1)] Cons.prems(2) by (meson keys_ok.simps(2))
  then show ?case using Cons.IH [OF w1(2)] Cons.prems(2) feed_append [OF w1(1)] by simp
qed simp

section \<open>The history\<close>

text \<open>A line enters the history unless it is empty or repeats the last entry; the oldest of five lines is dropped.\<close>

definition push_line :: "u8 list \<Rightarrow> u8 list list \<Rightarrow> u8 list list" where
  "push_line l hs = (if l = [] \<or> (hs \<noteq> [] \<and> last hs = l) then hs else if length hs < 5 then hs @ [l] else tl hs @ [l])"

lemma pad_inject:
  assumes "length xs \<le> 79" "0 \<notin> set xs" "length ys \<le> 79" "0 \<notin> set ys" "\<forall>i < 80. pad xs i = pad ys i"
  shows "xs = ys"
proof (rule nth_equalityI)
  have le: "length us \<le> length vs" if "\<forall>i < 80. pad us i = pad vs i" "length us \<le> 79" "0 \<notin> set us" for us vs :: "u8 list"
  proof (rule ccontr)
    assume "\<not> length us \<le> length vs"
    then have "us ! length vs = 0" using that(1,2) by (auto simp: pad_def dest: spec [of _ "length vs"])
    then show False using that(3) \<open>\<not> length us \<le> length vs\<close> by (metis nth_mem not_le)
  qed
  show l: "length xs = length ys" using le [of xs ys] le [of ys xs] assms by simp
  show "xs ! i = ys ! i" if "i < length xs" for i using assms(5) that l assms(1) by (auto simp: pad_def dest: spec [of _ i])
qed

lemma compare_lines:
  assumes "line_holds m a xs" "line_holds m b ys"
  shows "\<exists>r. acoral_memcmp m a b (of_nat ASH_CMD_SIZE) = Some r \<and> (r = 0 \<longleftrightarrow> xs = ys)"
proof -
  let ?f = "\<lambda>xs. map (pad xs) [0..<80]"
  have b: "bytes_at m a (?f xs)" "bytes_at m b (?f ys)" using assms by (simp_all add: bytes_at_nth line_holds_def)
  have "?f xs = ?f ys \<longleftrightarrow> (\<forall>i < 80. pad xs i = pad ys i)" by (simp add: list_eq_iff_nth_eq)
  then have "?f xs = ?f ys \<longleftrightarrow> xs = ys" using pad_inject line_holdsD(1,2) [OF assms(1)] line_holdsD(1,2) [OF assms(2)] by blast
  moreover have "length (?f xs) = length (?f ys)" "length (?f ys) = 80" by simp_all
  ultimately show ?thesis
    using memcmp_loop_ok [OF b] by (simp only: acoral_memcmp_def ASH_CMD_SIZE_def) simp
qed

lemma hist_set:
  assumes "hist_ok m a hs" "same_but (a + 80 * int i) m m'" "line_holds m' (a + 80 * int i) x" "i < 5"
  shows "i < length hs \<Longrightarrow> hist_ok m' a (hs[i := x])" "i = length hs \<Longrightarrow> hist_ok m' a (hs @ [x])"
proof -
  have o: "line_holds m' (a + 80 * int j) (hs ! j)" if "j < length hs" "j \<noteq> i" for j
  proof -
    have "m' (a + 80 * int j + int k) = m (a + 80 * int j + int k)" if "k < 80" for k
    proof -
      have "j < i \<or> i < j" using \<open>j \<noteq> i\<close> by auto
      then have "a + 80 * int j + int k < a + 80 * int i \<or> a + 80 * int i + 80 \<le> a + 80 * int j + int k" using that by auto
      then show ?thesis using assms(2) unfolding same_but_def by blast
    qed
    then show ?thesis using assms(1) that(1) by (simp add: hist_ok_def line_holds_def)
  qed
  have "m' k \<noteq> None" if "a \<le> k" "k < a + 400" for k
  proof (cases "a + 80 * int i \<le> k \<and> k < a + 80 * int i + 80")
    case True
    then show ?thesis using line_mapped [OF assms(3), of 0 80] by (auto simp: mapped_def)
  next
    case False
    then have "m' k = m k" using assms(2) by (auto simp: same_but_def)
    then show ?thesis using assms(1) that by (simp add: hist_ok_def mapped_def)
  qed
  then have mp: "mapped m' a 400" by (simp add: mapped_def)
  show "i < length hs \<Longrightarrow> hist_ok m' a (hs[i := x])"
    using assms(1,3) mp o by (auto simp: hist_ok_def nth_list_update)
  show "i = length hs \<Longrightarrow> hist_ok m' a (hs @ [x])"
    using assms(1,3,4) mp o by (auto simp: hist_ok_def nth_append less_Suc_eq)
qed

definition same_outside :: "int \<Rightarrow> bytes \<Rightarrow> bytes \<Rightarrow> bool" where
  "same_outside a m m' \<longleftrightarrow> (\<forall>k. k < a \<or> a + 400 \<le> k \<longrightarrow> m' k = m k)"

lemma same_but_outside: "same_but (a + 80 * int i) m m' \<Longrightarrow> i < 5 \<Longrightarrow> same_outside a m m'"
  by (auto simp: same_but_def same_outside_def)

lemma same_outside_trans: "same_outside a m m' \<Longrightarrow> same_outside a m' m'' \<Longrightarrow> same_outside a m m''"
  by (simp add: same_outside_def)

text \<open>Shifting the entries from \<open>i\<close> on.\<close>

lemma shift_ok:
  assumes "hist_ok (amem w) (cmd_history w) hs" "i + n + 1 = length hs"
  shows "\<exists>m' hs'. shift_history i n w = Some (w\<lparr>amem := m'\<rparr>) \<and> hist_ok m' (cmd_history w) hs' \<and> same_outside (cmd_history w) (amem w) m' \<and>
    hs' = take i hs @ drop (i + 1) hs @ [last hs]"
  using assms
proof (induction n arbitrary: i w hs)
  case 0
  then have "hs = take i hs @ drop (i + 1) hs @ [last hs]" by (cases hs rule: rev_cases) auto
  then show ?case using 0 by (intro exI [of _ "amem w"] exI [of _ hs]) (simp add: same_outside_def)
next
  case (Suc n)
  let ?a = "cmd_history w"
  have i: "i + 1 < length hs" "length hs \<le> 5" using Suc.prems by (simp_all add: hist_ok_def)
  have l: "line_holds (amem w) (?a + 80 * int (Suc i)) (hs ! Suc i)" "line_holds (amem w) (?a + 80 * int i) (hs ! i)"
    using Suc.prems(1) i by (auto simp only: hist_ok_def)
  have "mapped (amem w) (?a + 80 * int i) 80" using line_mapped [OF l(2), of 0 80] by simp
  then obtain m1 where m1: "acoral_memcpy (amem w) (?a + 80 * int i) (?a + 80 * int (Suc i)) (of_nat ASH_CMD_SIZE) = Some m1"
      "line_holds m1 (?a + 80 * int i) (hs ! Suc i)" "same_but (?a + 80 * int i) (amem w) m1"
    using line_copy [OF l(1), of "?a + 80 * int i"] by auto
  let ?hs = "hs[i := hs ! Suc i]"
  have h1: "hist_ok m1 ?a ?hs" using hist_set(1) [OF Suc.prems(1) m1(3,2)] i by simp
  have adr: "hist_adr (int i) w = ?a + 80 * int i" "hist_adr (int i + 1) w = ?a + 80 * int (Suc i)" by (simp_all add: hist_adr_def ASH_CMD_SIZE_def)
  have "Suc i + n + 1 = length ?hs" using Suc.prems(2) by simp
  then obtain m' where m': "shift_history (Suc i) n (w\<lparr>amem := m1\<rparr>) = Some (w\<lparr>amem := m'\<rparr>)"
      "hist_ok m' ?a (take (Suc i) ?hs @ drop (Suc i + 1) ?hs @ [last ?hs])" "same_outside ?a m1 m'"
    using Suc.IH [of "w\<lparr>amem := m1\<rparr>" ?hs "Suc i"] h1 by auto
  have "take (Suc i) ?hs @ drop (Suc i + 1) ?hs @ [last ?hs] = take i hs @ drop (i + 1) hs @ [last hs]"
  proof -
    have "last ?hs = last hs" using i by (cases hs rule: rev_cases) (auto simp: list_update_append nth_append)
    moreover have "take (Suc i) ?hs = take i hs @ [hs ! Suc i]" using i by (simp add: take_Suc_conv_app_nth)
    moreover have "drop (i + 1) hs = hs ! Suc i # drop (Suc i + 1) hs" using i by (simp add: Cons_nth_drop_Suc)
    ultimately show ?thesis by simp
  qed
  moreover have "same_outside ?a (amem w) m'"
    using same_outside_trans [OF same_but_outside [OF m1(3)] m'(3)] i by simp
  moreover have "shift_history i (Suc n) w = Some (w\<lparr>amem := m'\<rparr>)" using m'(1) m1(1) by (simp add: adr in_mem_def)
  ultimately show ?case using m'(2) by (intro exI [of _ m'] exI conjI) (assumption | simp only: refl)+
qed

text \<open>Entering a line.\<close>

lemma set_entry_ok:
  assumes "mapped (amem w) a 80" "line_holds (amem w) (line w) xs" "line w + 80 \<le> a \<or> a + 80 \<le> line w" "line_position w = of_nat (length xs)"
    "hist_adr i w = a"
  shows "\<exists>m'. set_entry i w = Some (w\<lparr>amem := m'\<rparr>) \<and> line_holds m' a xs \<and> same_but a (amem w) m'"
proof -
  let ?n = "length xs"
  have n: "?n \<le> 79" by (rule line_holdsD(1) [OF assms(2)])
  let ?m1 = "\<lambda>k. if a \<le> k \<and> k < a + 80 then Some 0 else amem w k"
  let ?m2 = "\<lambda>k. if a \<le> k \<and> k < a + int ?n then ?m1 (line w + (k - a)) else ?m1 k"
  have un: "unat (of_nat ?n :: u32) = ?n" "(ucast (of_nat ?n :: u16) :: u32) = of_nat ?n"
    using n u16_of_nat(3) [of ?n] unfolding unsigned_of_nat by (simp_all add: take_bit_nat_eq_self)
  have s1: "acoral_memset (amem w) a 0 (of_nat ASH_CMD_SIZE) = Some ?m1"
    using memset_loop_ok [OF assms(1), of 0] by (simp add: acoral_memset_def ASH_CMD_SIZE_def)
  have mp: "mapped ?m1 a ?n" "mapped ?m1 (line w) ?n"
    using n line_mapped [OF assms(2), of 0 ?n] by (auto simp: mapped_def)
  have "memcpy_loop ?m1 a (line w) ?n = Some ?m2" by (rule memcpy_loop_ok [OF mp]) (use assms(3) n in linarith)
  then have s2: "acoral_memcpy ?m1 a (line w) (of_nat ?n) = Some ?m2" by (simp add: acoral_memcpy_def un(1))
  have "?m2 (a + int k) = Some (pad xs k)" if "k < 80" for k
    using that assms(3) n line_holdsD(3) [OF assms(2) that] by (auto simp: pad_def)
  then have "line_holds ?m2 a xs" using line_holdsD(1,2) [OF assms(2)] by (simp add: line_holds_def)
  moreover have "same_but a (amem w) ?m2" using n by (simp add: same_but_def)
  moreover have "hist_adr i (w\<lparr>amem := ?m1\<rparr>) = a" using assms(5) by (simp add: hist_adr_def)
  ultimately have "set_entry i w = Some (w\<lparr>amem := ?m2\<rparr>)" "line_holds ?m2 a xs" "same_but a (amem w) ?m2"
    using s1 s2 by (simp_all add: set_entry_def in_mem_def assms(4,5) un(2))
  then show ?thesis by blast
qed

lemma refines_history:
  assumes "refines w e" "hist_ok m' (cmd_history w) hs" "same_outside (cmd_history w) (amem w) m'"
  shows "refines (w\<lparr>amem := m', history_count := of_nat (length hs), current_history := of_nat (length hs)\<rparr>) (e\<lparr>hist := hs, cur := length hs\<rparr>)"
proof -
  have d: "line w + 80 \<le> cmd_history w \<or> cmd_history w + 400 \<le> line w" "line_holds (amem w) (line w) (before e @ after e)"
    using assms(1) by (simp_all add: refines_def)
  have "prompt_ok m' (ash_prompt w) (line w) (cmd_history w)"
    by (rule prompt_frame [of "amem w"]) (use assms(1,3) in \<open>auto simp: refines_def same_outside_def\<close>)
  moreover have "m' (line w + int i) = amem w (line w + int i)" if "i < 80" for i
    using assms(3) d(1) that by (auto simp: same_outside_def)
  then have "line_holds m' (line w) (before e @ after e)" using d(2) by (simp add: line_holds_def)
  ultimately show ?thesis using assms by (simp add: refines_def)
qed

lemma hist_entry_mapped:
  assumes "hist_ok m a hs" "i < 5"
  shows "mapped m (a + 80 * int i) 80"
  using assms by (auto simp: hist_ok_def mapped_def)

lemma history_facts:
  assumes "refines w e"
  shows "unat (history_count w) = length (hist e)" "uint (history_count w) = int (length (hist e))" "length (hist e) \<le> 5"
    "line_position w = 0 \<longleftrightarrow> before e @ after e = []" "hist_ok (amem w) (cmd_history w) (hist e)"
    "line_holds (amem w) (line w) (before e @ after e)" "history_count w = of_nat (length (hist e))"
proof -
  show h: "hist_ok (amem w) (cmd_history w) (hist e)" "line_holds (amem w) (line w) (before e @ after e)"
    and f: "history_count w = of_nat (length (hist e))" using assms by (simp_all add: refines_def)
  show n: "length (hist e) \<le> 5" using h(1) by (simp add: hist_ok_def)
  show "unat (history_count w) = length (hist e)" "uint (history_count w) = int (length (hist e))"
    unfolding f by (rule u16_of_nat, use n in simp)+
  have "line_position w = of_nat (length (before e @ after e))" using assms by (simp add: refines_def)
  then show "line_position w = 0 \<longleftrightarrow> before e @ after e = []" using u16_zero [OF refines_small(3) [OF assms]] by simp
qed

lemma hist_adr_nat: "hist_adr (int i) v = cmd_history v + 80 * int i"
  by (simp add: hist_adr_def ASH_CMD_SIZE_def)

lemma push_entry:
  assumes "refines w e" "i < 5" "hist_ok (amem v) (cmd_history w) us" "same_outside (cmd_history w) (amem w) (amem v)"
    "cmd_history v = cmd_history w" "line v = line w" "line_position v = line_position w"
  shows "\<exists>m'. set_entry (int i) v = Some (v\<lparr>amem := m'\<rparr>) \<and> line_holds m' (cmd_history w + 80 * int i) (before e @ after e) \<and>
    same_but (cmd_history w + 80 * int i) (amem v) m'"
proof (rule set_entry_ok)
  have d: "line w + 80 \<le> cmd_history w \<or> cmd_history w + 400 \<le> line w" using assms(1) by (simp add: refines_def)
  show "mapped (amem v) (cmd_history w + 80 * int i) 80" by (rule hist_entry_mapped [OF assms(3,2)])
  have "amem v (line w + int k) = amem w (line w + int k)" if "k < 80" for k
    using assms(4) d that by (auto simp: same_outside_def)
  then show "line_holds (amem v) (line v) (before e @ after e)" using history_facts(6) [OF assms(1)] assms(6) by (simp add: line_holds_def)
  show "line v + 80 \<le> cmd_history w + 80 * int i \<or> cmd_history w + 80 * int i + 80 \<le> line v" using d assms(2,6) by auto
qed (use assms in \<open>simp_all add: hist_adr_nat refines_def\<close>)

lemma push_compare:
  assumes "refines w e" "i < length (hist e)"
  shows "\<exists>r. acoral_memcmp (amem w) (hist_adr (int i) w) (line w) (of_nat ASH_CMD_SIZE) = Some r \<and> (r = 0 \<longleftrightarrow> hist e ! i = before e @ after e)"
  using compare_lines [OF _ history_facts(6) [OF assms(1)]] history_facts(5) [OF assms(1)] assms(2) by (simp add: hist_ok_def hist_adr_nat)

text \<open>The three cases: nothing to enter, a free entry, five entries.\<close>

lemma push_nothing:
  assumes "refines w e" "before e @ after e = [] \<or> (hist e \<noteq> [] \<and> last (hist e) = before e @ after e)"
  shows "shell_push_history w = Some (w\<lparr>current_history := history_count w\<rparr>)"
proof (cases "before e @ after e = []")
  case l: False
  note c = history_facts [OF assms(1)]
  have h: "hist e \<noteq> []" "hist e ! (length (hist e) - 1) = before e @ after e" using assms(2) l by (auto simp: last_conv_nth)
  have "acoral_memcmp (amem w) (hist_adr (int (length (hist e) - 1)) w) (line w) (of_nat ASH_CMD_SIZE) = Some 0"
    using push_compare [OF assms(1), of "length (hist e) - 1"] h by auto
  moreover have "history_count w \<noteq> 0" using c(1) h(1) by auto
  ultimately show ?thesis
    using l c(1-4) h(1) by (cases "length (hist e) = 5") (simp_all add: shell_push_history_def ASH_HISTORY_LINES_def of_nat_diff Suc_leI)
qed (use history_facts(4) [OF assms(1)] in \<open>simp add: shell_push_history_def\<close>)

lemma push_free:
  assumes "refines w e" "before e @ after e \<noteq> []" "hist e = [] \<or> last (hist e) \<noteq> before e @ after e" "length (hist e) < 5"
  shows "\<exists>m'. shell_push_history w = Some (w\<lparr>amem := m', history_count := history_count w + 1, current_history := history_count w + 1\<rparr>) \<and>
    hist_ok m' (cmd_history w) (hist e @ [before e @ after e]) \<and> same_outside (cmd_history w) (amem w) m'"
proof -
  let ?hs = "hist e" and ?v = "w\<lparr>current_history := history_count w\<rparr>"
  note c = history_facts [OF assms(1)]
  obtain m' where m': "set_entry (int (length ?hs)) ?v = Some (?v\<lparr>amem := m'\<rparr>)"
      "line_holds m' (cmd_history w + 80 * int (length ?hs)) (before e @ after e)" "same_but (cmd_history w + 80 * int (length ?hs)) (amem w) m'"
    using push_entry [OF assms(1,4), of ?v ?hs] c(5) by (auto simp: same_outside_def)
  have "\<exists>r. (if history_count w = 0 then Some 1
      else acoral_memcmp (amem w) (hist_adr (uint (history_count w) - 1) w) (line w) (of_nat ASH_CMD_SIZE)) = Some r \<and> r \<noteq> 0"
  proof (cases "?hs = []")
    case False
    then have "uint (history_count w) - 1 = int (length ?hs - 1)" by (simp add: c(2) of_nat_diff Suc_leI)
    moreover have "?hs ! (length ?hs - 1) \<noteq> before e @ after e" using assms(3) False by (simp add: last_conv_nth)
    moreover have "history_count w \<noteq> 0" using c(1) False by auto
    ultimately show ?thesis using push_compare [OF assms(1), of "length ?hs - 1"] False by auto
  qed (simp add: c(7))
  then have "shell_push_history w = Some (w\<lparr>amem := m', history_count := history_count w + 1, current_history := history_count w + 1\<rparr>)"
    using assms(2,4) m'(1) c(1,4) by (auto simp: shell_push_history_def ASH_HISTORY_LINES_def c(2))
  then show ?thesis using hist_set(2) [OF c(5) m'(3,2) assms(4)] same_but_outside [OF m'(3) assms(4)] by blast
qed

lemma push_full:
  assumes "refines w e" "before e @ after e \<noteq> []" "last (hist e) \<noteq> before e @ after e" "length (hist e) = 5"
  shows "\<exists>m'. shell_push_history w = Some (w\<lparr>amem := m', history_count := 5, current_history := 5\<rparr>) \<and>
    hist_ok m' (cmd_history w) (tl (hist e) @ [before e @ after e]) \<and> same_outside (cmd_history w) (amem w) m'"
proof -
  let ?a = "cmd_history w" and ?l = "before e @ after e"
  note c = history_facts [OF assms(1)]
  obtain x ys where xy: "hist e = x # ys" "length ys = 4" using assms(4) by (cases "hist e") auto
  have last: "last (hist e) = last ys" "last ys = ys ! 3" using xy last_conv_nth [of ys] by (cases ys; auto)+
  obtain r where r: "acoral_memcmp (amem w) (hist_adr 4 w) (line w) (of_nat ASH_CMD_SIZE) = Some r" "r \<noteq> 0"
    using push_compare [OF assms(1), of 4] assms(3,4) xy last by auto
  obtain m1 where m1: "shift_history 0 4 w = Some (w\<lparr>amem := m1\<rparr>)" "hist_ok m1 ?a (ys @ [last ys])" "same_outside ?a (amem w) m1"
    using shift_ok [OF c(5), of 0 4] assms(4) last by (auto simp: xy)
  obtain m2 where m2: "set_entry 4 (w\<lparr>amem := m1\<rparr>) = Some (w\<lparr>amem := m2\<rparr>)" "line_holds m2 (?a + 80 * int 4) ?l" "same_but (?a + 80 * int 4) m1 m2"
    using push_entry [OF assms(1), of 4 "w\<lparr>amem := m1\<rparr>" "ys @ [last ys]"] m1(2,3) by auto
  have "(ys @ [last ys])[4 := ?l] = tl (hist e) @ [?l]" using xy by (simp add: list_update_append)
  then have "hist_ok m2 ?a (tl (hist e) @ [?l])" using hist_set(1) [OF m1(2) m2(3,2)] xy(2) by simp
  moreover have "same_outside ?a (amem w) m2" using same_outside_trans [OF m1(3) same_but_outside [OF m2(3)]] by simp
  moreover have "shell_push_history w = Some (w\<lparr>amem := m2, history_count := 5, current_history := 5\<rparr>)"
    using assms(2,4) c(1,4) r m1(1) m2(1) by (simp add: shell_push_history_def ASH_HISTORY_LINES_def)
  ultimately show ?thesis by blast
qed

lemma push_history_ok:
  assumes "refines w e"
  defines "hs \<equiv> push_line (before e @ after e) (hist e)"
  shows "\<exists>m'. shell_push_history w = Some (w\<lparr>amem := m', history_count := of_nat (length hs), current_history := of_nat (length hs)\<rparr>) \<and>
    hist_ok m' (cmd_history w) hs \<and> same_outside (cmd_history w) (amem w) m'"
proof -
  note c = history_facts [OF assms(1)]
  consider (same) "before e @ after e = [] \<or> (hist e \<noteq> [] \<and> last (hist e) = before e @ after e)"
    | (free) "before e @ after e \<noteq> []" "hist e = [] \<or> last (hist e) \<noteq> before e @ after e" "length (hist e) < 5"
    | (full) "before e @ after e \<noteq> []" "last (hist e) \<noteq> before e @ after e" "length (hist e) = 5"
    using c(3) by fastforce
  then show ?thesis
  proof cases
    case same
    then have "hs = hist e" by (auto simp: hs_def push_line_def)
    moreover have "w\<lparr>current_history := history_count w\<rparr> =
        w\<lparr>amem := amem w, history_count := of_nat (length (hist e)), current_history := of_nat (length (hist e))\<rparr>"
      using c(7) by (cases w) simp
    moreover have "same_outside (cmd_history w) (amem w) (amem w)" by (simp add: same_outside_def)
    ultimately show ?thesis using push_nothing [OF assms(1) same] c(5) by (intro exI [of _ "amem w"] conjI) (simp_all only:)
  next
    case free
    then have hs: "hs = hist e @ [before e @ after e]" by (auto simp: hs_def push_line_def)
    then have "history_count w + 1 = of_nat (length hs)" by (simp add: c(7))
    then show ?thesis using push_free [OF assms(1) free] unfolding hs by (simp only:)
  next
    case full
    then have hs: "hs = tl (hist e) @ [before e @ after e]" by (auto simp: hs_def push_line_def)
    then have "length hs = 5" using full(3) by simp
    then show ?thesis using push_full [OF assms(1) full] hs by simp
  qed
qed

section \<open>The return key\<close>

lemma clear_line:
  assumes "mapped m (line w) 80"
  shows "\<exists>m'. acoral_memset m (line w) 0 (of_nat ASH_CMD_SIZE) = Some m' \<and> line_holds m' (line w) [] \<and> same_but (line w) m m'"
  using memset_loop_ok [OF assms, of 0]
  by (auto simp: acoral_memset_def ASH_CMD_SIZE_def line_holds_def pad_def same_but_def)

lemma enter_ok:
  assumes "refines w e"
  defines "hs \<equiv> push_line (before e @ after e) (hist e)"
  shows "\<exists>w1. refines w1 (e\<lparr>hist := hs, cur := length hs\<rparr>) \<and> cmd_heap w1 = cmd_heap w \<and> cmds w1 = cmds w \<and>
    (\<forall>m r. acoral_ash_cmd_exe exe junk (line w) w1 = Some (w1\<lparr>amem := m, printed := r\<rparr>) \<and> same_but (line w) (amem w1) m \<and> mapped m (line w) 80 \<longrightarrow>
      (\<exists>w'. key_enter exe junk w = Some w' \<and> refines w' (e\<lparr>before := [], after := [], hist := hs, cur := length hs\<rparr>)))"
proof -
  obtain m1 where m1: "shell_push_history w = Some (w\<lparr>amem := m1, history_count := of_nat (length hs), current_history := of_nat (length hs)\<rparr>)"
      "hist_ok m1 (cmd_history w) hs" "same_outside (cmd_history w) (amem w) m1"
    using push_history_ok [OF assms(1)] unfolding hs_def by blast
  let ?w = "w\<lparr>amem := m1, history_count := of_nat (length hs), current_history := of_nat (length hs)\<rparr>"
  have r: "refines ?w (e\<lparr>hist := hs, cur := length hs\<rparr>)" by (rule refines_history [OF assms(1) m1(2,3)])
  obtain p where p: "acoral_prints [CHR 0x0D, CHR 0x0A] [] ?w = Some (?w\<lparr>printed := printed ?w @ p\<rparr>)"
    using prints_plain [of "[CHR 0x0D, CHR 0x0A]" ?w] by auto
  let ?w1 = "?w\<lparr>printed := printed ?w @ p\<rparr>"
  have "\<exists>w'. key_enter exe junk w = Some w' \<and> refines w' (e\<lparr>before := [], after := [], hist := hs, cur := length hs\<rparr>)"
    if x: "acoral_ash_cmd_exe exe junk (line w) ?w1 = Some (?w1\<lparr>amem := m, printed := q\<rparr>)" "same_but (line w) m1 m" "mapped m (line w) 80" for m q
  proof -
    obtain m' where m': "acoral_memset m (line w) 0 (of_nat ASH_CMD_SIZE) = Some m'" "line_holds m' (line w) []" "same_but (line w) m m'"
      using clear_line [OF x(3)] by blast
    have sb: "same_but (line ?w) (amem ?w) m'" using m'(3) x(2) by (simp add: same_but_def)
    have "refines (?w\<lparr>amem := m', line_position := 0, line_curpos := 0\<rparr>) (e\<lparr>before := [], after := [], hist := hs, cur := length hs\<rparr>)"
      using refines_line [OF r sb, of "[]" "[]"] m'(2) by (cases e) simp
    moreover have "key_enter exe junk w = Some (?w1\<lparr>amem := m', printed := q, line_curpos := 0, line_position := 0\<rparr>)"
      using m1(1) p x(1) m'(1) by (simp add: key_enter_def in_mem_def)
    ultimately show ?thesis by (simp add: refines_def)
  qed
  moreover have "refines ?w1 (e\<lparr>hist := hs, cur := length hs\<rparr>)" using r by simp
  ultimately show ?thesis by (intro exI [of _ ?w1] conjI) simp_all
qed

section \<open>Properties\<close>

text \<open>A shell with the line \<^verbatim>\<open>cd\<close>, an empty history and an empty prompt.\<close>

definition ex_shell :: ash_shell where
  "ex_shell = \<lparr>amem = (\<lambda>a. if a = 0x1000 then Some 99 else if a = 0x1001 then Some 100
       else if 0x1000 \<le> a \<and> a < 0x1050 \<or> 0x2000 \<le> a \<and> a < 0x2190 \<or> a = 0x3000 then Some 0 else None),
     cmd_heap = \<lparr>lnext = id, lprev = id, lvalue = (\<lambda>_. 0), llock = (\<lambda>_. False), qlock = (\<lambda>_. False)\<rparr>,
     cmds = (\<lambda>_. \<lparr>cmd_name = 0, cmd_comment = 0\<rparr>), printed = [], stat = WAIT_NORMAL, echo_mode = True, current_history = 0,
     history_count = 0, cmd_history = 0x2000, cur_dir = 0, dir_change = False, line = 0x1000, line_position = 2, line_curpos = 2,
     ash_prompt = 0x3000, shell_input = replicate 80 0, get_pos = 0, input_pos = 0\<rparr>"

definition ex_editor :: editor where
  "ex_editor = \<lparr>before = [99, 100], after = [], hist = [], cur = 0\<rparr>"

lemma ex_refines: "refines ex_shell ex_editor"
proof -
  have "hist_ok (amem ex_shell) 0x2000 []" by (auto simp: hist_ok_def mapped_def ex_shell_def)
  moreover have "line_holds (amem ex_shell) 0x1000 [99, 100]"
    by (auto simp: line_holds_def pad_def ex_shell_def nth_Cons')
  moreover have "prompt_ok (amem ex_shell) 0x3000 0x1000 0x2000"
    by (auto simp: prompt_ok_def ex_shell_def intro!: exI [of _ "[]"])
  moreover have "stat ex_shell = WAIT_NORMAL" "\<not> dir_change ex_shell" "line ex_shell = 0x1000" "cmd_history ex_shell = 0x2000"
    "ash_prompt ex_shell = 0x3000" "line_position ex_shell = 2" "line_curpos ex_shell = 2" "history_count ex_shell = 0" "current_history ex_shell = 0"
    by (simp_all add: ex_shell_def)
  ultimately show ?thesis by (simp add: refines_def ex_editor_def)
qed

text \<open>C12. The line editor refines the editor on lists: whatever characters, backspaces and arrow keys arrive, as long as the line stays below
  80 characters, every access is inside the arrays, and the line, the cursor and the recalled history lines are those of the
  abstract editor.\<close>

theorem shell_keys_edit:
  assumes "refines w e" "keys_ok ks e"
  shows "\<exists>w'. feed exe junk (concat (map key_bytes ks)) w = Some (False, w') \<and> refines w' (fold ed_step ks e)"
  by (rule feed_keys [OF assms])

theorem shell_keys_edit_witness:
  "\<exists>w'. feed (\<lambda>_ _ _. Some) PS_TOKEN [0x1b, 0x5b, 0x44, 120, 0x1b, 0x5b, 0x43, 0x7F] ex_shell = Some (False, w') \<and>
     refines w' \<lparr>before = [99, 120], after = [], hist = [], cur = 0\<rparr>"
  using shell_keys_edit [OF ex_refines, of "[Lft, Char 120, Rgt, Backspace]" "\<lambda>_ _ _. Some" PS_TOKEN]
  by (simp add: ex_editor_def key_ok_def)

text \<open>The return key enters the line into the history (unless it is empty or repeats the last entry; the oldest of five is dropped),
  executes the line, and empties it, with the cursor at its start. For a command that changes no memory but the line and the output, the
  editor goes on with the empty line and the new history.\<close>

theorem shell_return_key:
  assumes "refines w e"
  shows "\<exists>w1. refines w1 (e\<lparr>hist := push_line (before e @ after e) (hist e), cur := length (push_line (before e @ after e) (hist e))\<rparr>) \<and>
    cmd_heap w1 = cmd_heap w \<and> cmds w1 = cmds w \<and>
    (\<forall>m r. acoral_ash_cmd_exe exe junk (line w) w1 = Some (w1\<lparr>amem := m, printed := r\<rparr>) \<and> same_but (line w) (amem w1) m \<and> mapped m (line w) 80 \<longrightarrow>
      (\<exists>w'. key_enter exe junk w = Some w' \<and>
         refines w' (e\<lparr>before := [], after := [], hist := push_line (before e @ after e) (hist e),
                       cur := length (push_line (before e @ after e) (hist e))\<rparr>)))"
  by (rule enter_ok [OF assms])

theorem shell_return_key_witness:
  "\<exists>w1 :: ash_shell. refines w1 \<lparr>before = [99, 100], after = [], hist = [[99, 100]], cur = 1\<rparr> \<and> cmds w1 = cmds ex_shell"
  using shell_return_key [OF ex_refines, of "\<lambda>_ _ _. Some" PS_TOKEN] by (auto simp: ex_editor_def push_line_def)

section \<open>Where the editor goes wrong\<close>

text \<open>A character typed in the middle of a line of 79 characters puts a zero byte behind the array.\<close>

lemma insert_overruns:
  assumes "refines w e" "length (before e @ after e) = 79" "after e \<noteq> []" "amem w (line w + 80) = None"
  shows "key_char c w = None"
proof -
  have lh: "line_holds (amem w) (line w) (before e @ after e)" using assms(1) by (simp add: refines_def)
  obtain m1 where m1: "acoral_memmove (amem w) (line w + int (Suc (length (before e)))) (line w + int (length (before e)))
      (word_of_int (int (length (after e)))) = Some m1" "same_but (line w) (amem w) m1"
    using memmove_line [OF lh, of "Suc (length (before e))" "length (after e)" "length (before e)"] assms(2) by auto
  have u: "uint (line_position w) = 79" "uint (line_curpos w) = int (length (before e))" using refines_small(5,6) [OF assms(1)] assms(2) by simp_all
  then have room: "unat (line_position w) < ASH_CMD_SIZE" by (simp add: ASH_CMD_SIZE_def unat_eq_nat_uint)
  have lt: "line_curpos w < line_position w" using u assms(2,3) by (cases "after e") (auto simp: word_less_def)
  have cnt: "(ucast (line_position w) - ucast (line_curpos w) :: u32) = word_of_int (int (length (after e)))"
    using u16_diff [of "length (before e)" "length (before e @ after e)"] refines_small(3) [OF assms(1)] assms(1) by (simp add: refines_def)
  have "line w + 80 \<noteq> line w + int (length (before e))" using assms(2) by simp
  moreover have "m1 (line w + 80) = None" using m1(2) assms(4) by (simp add: same_but_def)
  ultimately have "store m2 (line w + 79 + 1) 0 = None" if "store m1 (line w + int (length (before e))) c = Some m2" for m2
    using that by (auto simp: store_def add.commute split: if_splits)
  then show ?thesis
    using room lt m1(1) cnt u by (cases "store m1 (line w + int (length (before e))) c") (simp_all add: key_char_def Let_def in_mem_def ac_simps)
qed

text \<open>When a line is given up for its length, its 80 characters stay in the array: the next line is not followed by a zero byte.\<close>

lemma given_up_line_stays:
  assumes "80 \<le> unat (line_position w)"
  shows "\<exists>r. key_char c w = Some (True, w\<lparr>printed := r, line_position := 0, line_curpos := 0\<rparr>)"
proof -
  let ?f = "[CHR 0x0D, CHR 0x0A] @ ''beyond cmd size, please try again'' @ [CHR 0x0D, CHR 0x0A]"
  obtain r where "acoral_prints ?f [] w = Some (w\<lparr>printed := printed w @ r\<rparr>)" using prints_plain [of ?f w] by auto
  then show ?thesis using assms by (intro exI [of _ "printed w @ r"]) (simp add: key_char_def ASH_CMD_SIZE_def)
qed

text \<open>A zero byte that arrives is a stop for the characters behind it, which stay in the buffer.\<close>

lemma zero_byte_blocks:
  assumes "shell_input w ! get_pos w = 0"
  shows "key_loop exe junk w = Some (False, w)"
  using assms by (subst key_loop.simps) simp

end
