(* ===== verification/Dircmd_Props.thy ===== *)
theory Dircmd_Props
  imports Dircmd Shell_Props
begin

text \<open>
  Properties of \<^verbatim>\<open>cd\<close>: the current directory changes only to a path that the file system has opened, or to the root.
\<close>

section \<open>Strings in memory\<close>

lemma read_str_at: "read_str m a = Some d \<Longrightarrow> str_at m a d"
proof (induction d arbitrary: a)
  case Nil
  then show ?case by (subst (asm) read_str.simps) (auto simp: bind_Some_iff split: if_splits)
next
  case (Cons c d)
  then show ?case by (subst (asm) read_str.simps) (auto simp: bind_Some_iff split: if_splits)
qed

lemma bind_SomeE:
  assumes "Option.bind m f = Some y"
  obtains x where "m = Some x" "f x = Some y"
  using assms by (auto simp: bind_Some_iff)

lemma str_at_outside: "b < a \<or> a + int (length xs) < b \<Longrightarrow> str_at (m(b \<mapsto> x)) a xs = str_at m a xs"
  by (induction xs arbitrary: a) auto

lemma str_cpy_copies:
  assumes "str_at m from d" "acoral_str_cpy m to from = Some m'" "int (length d) < \<bar>to - from\<bar>"
  shows "str_at m' to d \<and> (\<forall>x. x < to \<or> to + int (length d) < x \<longrightarrow> m' x = m x)"
  using assms
proof (induction d arbitrary: m "from" to)
  case Nil
  then show ?case by (subst (asm) acoral_str_cpy.simps) (auto simp: store_def split: if_splits)
next
  case (Cons c d)
  have c: "m from = Some c" "c \<noteq> 0" "str_at m (from + 1) d" using Cons.prems(1) by simp_all
  have st: "store m to c = Some (m(to \<mapsto> c))" "acoral_str_cpy (m(to \<mapsto> c)) (to + 1) (from + 1) = Some m'"
    using Cons.prems(2) c(1,2) by (subst (asm) acoral_str_cpy.simps, auto simp: store_def split: if_splits)+
  have "str_at (m(to \<mapsto> c)) (from + 1) d"
    using c(3) Cons.prems(3) by (subst str_at_outside) auto
  moreover have "int (length d) < \<bar>to + 1 - (from + 1)\<bar>" using Cons.prems(3) by simp
  ultimately have r: "str_at m' (to + 1) d" "\<forall>x. x < to + 1 \<or> to + 1 + int (length d) < x \<longrightarrow> m' x = (m(to \<mapsto> c)) x"
    using Cons.IH [OF _ st(2)] by blast+
  have "m' to = Some c" "x < to \<or> to + int (length (c # d)) < x \<Longrightarrow> m' x = m x" for x using r(2) by auto
  then show ?case using r(1) c(2) by simp
qed

section \<open>An area that no operation reaches\<close>

text \<open>An area of the memory between two unmapped addresses. All mapped addresses are between 0 and \<open>2 ^ 31\<close>.\<close>

definition fenced :: "int \<Rightarrow> int \<Rightarrow> bytes \<Rightarrow> bool" where
  "fenced lo hi m \<longleftrightarrow> m lo = None \<and> m hi = None \<and> lo < hi \<and> (\<forall>x. m x \<noteq> None \<longrightarrow> 0 < x \<and> x < 2 ^ 31)"

definition outside :: "int \<Rightarrow> int \<Rightarrow> int \<Rightarrow> bool" where
  "outside lo hi a \<longleftrightarrow> a \<le> lo \<or> hi \<le> a"

text \<open>The area is as before, and the same addresses are mapped.\<close>

definition kept :: "int \<Rightarrow> int \<Rightarrow> bytes \<Rightarrow> bytes \<Rightarrow> bool" where
  "kept lo hi m m' \<longleftrightarrow> dom m' = dom m \<and> (\<forall>x. lo \<le> x \<longrightarrow> x \<le> hi \<longrightarrow> m' x = m x)"

lemma kept_refl [simp]: "kept lo hi m m"
  by (simp add: kept_def)

lemma kept_trans [trans]: "kept lo hi m m' \<Longrightarrow> kept lo hi m' m'' \<Longrightarrow> kept lo hi m m''"
  by (simp add: kept_def)

lemma kept_fenced: "kept lo hi m m' \<Longrightarrow> fenced lo hi m \<Longrightarrow> fenced lo hi m'"
  unfolding kept_def fenced_def by (auto simp: dom_def set_eq_iff)

text \<open>An operation that goes up from a mapped address outside the area stays outside.\<close>

abbreviation gap :: "int \<Rightarrow> int \<Rightarrow> bytes \<Rightarrow> bool" where
  "gap lo hi m \<equiv> m lo = None \<and> m hi = None"

lemma outside_next: "gap lo hi m \<Longrightarrow> outside lo hi a \<Longrightarrow> m a \<noteq> None \<Longrightarrow> outside lo hi (a + 1) \<and> outside lo hi (a - 1) \<and> (a < lo \<or> hi < a)"
  by (cases "a = lo"; cases "a = hi") (auto simp: outside_def)

lemma mapped_outside:
  assumes "gap lo hi m" "outside lo hi a" "mapped m a (Suc k)" "j \<le> k"
  shows "outside lo hi (a + int j)"
  using assms(4)
proof (induction j)
  case (Suc j)
  then have "m (a + int j) \<noteq> None" using assms(3) by (simp add: mapped_def)
  then show ?case using Suc outside_next [OF assms(1)] by (simp add: ac_simps) (metis add.assoc add.commute)
qed (use assms(2) in simp)

lemma store_kept:
  assumes "store m a v = Some m'" "gap lo hi m" "outside lo hi a"
  shows "kept lo hi m m' \<and> outside lo hi (a + 1) \<and> gap lo hi m'"
proof -
  have "m a \<noteq> None" "m' = m(a \<mapsto> v)" using assms(1) by (auto simp: store_def split: if_splits)
  then show ?thesis using outside_next [OF assms(2,3)] assms(2) by (auto simp: kept_def)
qed

lemma str_cpy_kept:
  assumes "acoral_str_cpy m to from = Some m'"
  shows "gap lo hi m \<longrightarrow> outside lo hi to \<longrightarrow> kept lo hi m m'"
proof (rule acoral_str_cpy.raw_induct [where P = "\<lambda>m to from m'. gap lo hi m \<longrightarrow> outside lo hi to \<longrightarrow> kept lo hi m m'", OF _ assms], intro impI)
  fix cpy m to "from" m'
  assume IH: "\<And>m to from m'. cpy m to from = Some m' \<Longrightarrow> gap lo hi m \<longrightarrow> outside lo hi to \<longrightarrow> kept lo hi m m'"
    and run: "do { c \<leftarrow> m from; m \<leftarrow> store m to c; if c = 0 then Some m else cpy m (to + 1) (from + 1) } = Some m'"
    and g: "gap lo hi m" "outside lo hi to"
  obtain c u where u: "store m to c = Some u" "(if c = 0 then Some u else cpy u (to + 1) (from + 1)) = Some m'"
    using run by (auto elim!: bind_SomeE)
  note k = store_kept [OF u(1) g]
  show "kept lo hi m m'" using u(2) k IH kept_trans by (auto split: if_splits)
qed

lemma ncpy_kept: "ncpy_loop m to from n = Some m' \<Longrightarrow> gap lo hi m \<Longrightarrow> outside lo hi to \<Longrightarrow> kept lo hi m m'"
proof (induction n arbitrary: m to "from")
  case (Suc n)
  obtain c u where u: "store m to c = Some u" "(if c = 0 then Some u else ncpy_loop u (to + 1) (from + 1) n) = Some m'"
    using Suc.prems(1) by (auto elim!: bind_SomeE)
  note k = store_kept [OF u(1) Suc.prems(2,3)]
  show ?case using u(2) k Suc.IH kept_trans by (auto split: if_splits)
qed (simp add: store_kept)

lemma memset_kept: "memset_loop m a c n = Some m' \<Longrightarrow> gap lo hi m \<Longrightarrow> outside lo hi a \<Longrightarrow> kept lo hi m m'"
proof (induction n arbitrary: m a)
  case (Suc n)
  obtain u where u: "store m a c = Some u" "memset_loop u (a + 1) c n = Some m'" using Suc.prems(1) by (auto elim!: bind_SomeE)
  note k = store_kept [OF u(1) Suc.prems(2,3)]
  show ?case using Suc.IH [OF u(2)] k kept_trans by blast
qed simp

lemma str_end_outside:
  assumes "str_end m a = Some e"
  shows "gap lo hi m \<longrightarrow> outside lo hi a \<longrightarrow> outside lo hi e"
proof (rule str_end.raw_induct [where P = "\<lambda>m a e. gap lo hi m \<longrightarrow> outside lo hi a \<longrightarrow> outside lo hi e", OF _ assms], intro impI)
  fix f m a e
  assume IH: "\<And>m a e. f m a = Some e \<Longrightarrow> gap lo hi m \<longrightarrow> outside lo hi a \<longrightarrow> outside lo hi e"
    and run: "do { c \<leftarrow> m a; if c = 0 then Some a else f m (a + 1) } = Some e" and g: "gap lo hi m" "outside lo hi a"
  obtain c where c: "m a = Some c" "(if c = 0 then Some a else f m (a + 1)) = Some e" using run by (auto elim!: bind_SomeE)
  have "outside lo hi (a + 1)" using outside_next [OF g] c(1) by simp
  then show "outside lo hi e" using c(2) g IH by (auto split: if_splits)
qed

lemma str_cat_kept: "acoral_str_cat m a b = Some m' \<Longrightarrow> gap lo hi m \<Longrightarrow> outside lo hi a \<Longrightarrow> kept lo hi m m'"
  using str_cpy_kept str_end_outside by (auto simp: acoral_str_cat_def bind_Some_iff)

text \<open>Copies of literals, which are at addresses below zero.\<close>

lemma with_literal_kept:
  assumes "kept lo hi (with_literal m cs) m'" "fenced lo hi m" "0 \<le> lo" "length cs < 256"
  shows "kept lo hi m (\<lambda>a. if a < 0 then m a else m' a)"
proof -
  have w: "with_literal m cs a = m a" if "0 \<le> a" for a using that assms(4) by (simp add: with_literal_def literal_def)
  have "a \<in> dom m' \<longleftrightarrow> a \<in> dom m" if "0 \<le> a" for a using assms(1) w [OF that] by (auto simp: kept_def dom_def set_eq_iff)
  then have "dom (\<lambda>a. if a < 0 then m a else m' a) = dom m" by (auto simp: dom_def set_eq_iff)
  then show ?thesis using assms(1,3) w by (simp add: kept_def)
qed

lemma with_literal_gap: "fenced lo hi m \<Longrightarrow> 0 \<le> lo \<Longrightarrow> length cs < 256 \<Longrightarrow> gap lo hi (with_literal m cs)"
  by (simp add: fenced_def with_literal_def literal_def)

lemma cpy_literal_kept:
  assumes "cpy_literal a cs m = Some m'" "fenced lo hi m" "0 \<le> lo" "outside lo hi a" "length cs < 256"
  shows "kept lo hi m m'"
proof -
  obtain u where u: "acoral_str_cpy (with_literal m cs) a (- 256) = Some u" "m' = (\<lambda>a. if a < 0 then m a else u a)"
    using assms(1) by (auto simp: cpy_literal_def bind_Some_iff)
  show ?thesis unfolding u(2)
    by (rule with_literal_kept [OF _ assms(2,3,5)]) (use str_cpy_kept [OF u(1)] with_literal_gap [OF assms(2,3,5)] assms(4) in blast)
qed

lemma cat_literal_kept:
  assumes "cat_literal a cs m = Some m'" "fenced lo hi m" "0 \<le> lo" "outside lo hi a" "length cs < 256"
  shows "kept lo hi m m'"
proof -
  obtain u where u: "acoral_str_cat (with_literal m cs) a (- 256) = Some u" "m' = (\<lambda>a. if a < 0 then m a else u a)"
    using assms(1) by (auto simp: cat_literal_def bind_Some_iff)
  show ?thesis unfolding u(2)
    by (rule with_literal_kept [OF _ assms(2,3,5)]) (use str_cat_kept [OF u(1)] with_literal_gap [OF assms(2,3,5)] assms(4) in blast)
qed

text \<open>Positions that the scans find: the bytes up to them are mapped.\<close>

lemma chr_end:
  assumes "chr_loop m a 0 p = Some q"
  shows "\<exists>k. q = p + of_nat k \<and> mapped m a (Suc k)"
proof (rule chr_loop.raw_induct [where P = "\<lambda>m a c p q. c = 0 \<longrightarrow> (\<exists>k. q = p + of_nat k \<and> mapped m a (Suc k))", THEN mp, OF _ assms refl], intro impI)
  fix f :: "bytes \<Rightarrow> int \<Rightarrow> u8 \<Rightarrow> u32 \<Rightarrow> u32 option" and m a c p q
  assume IH: "\<And>m a c p q. f m a c p = Some q \<Longrightarrow> c = 0 \<longrightarrow> (\<exists>k. q = p + of_nat k \<and> mapped m a (Suc k))"
    and run: "do { x \<leftarrow> m a; if x = c then Some p else if x = 0 then Some 0 else f m (a + 1) c (p + 1) } = Some q" and c: "c = (0 :: u8)"
  obtain x where "m a = Some x" "(if x = c then Some p else if x = 0 then Some 0 else f m (a + 1) c (p + 1)) = Some q" using run by (rule bind_SomeE)
  then have x: "m a = Some x" "(if x = 0 then Some p else f m (a + 1) 0 (p + 1)) = Some q" using c by (auto split: if_splits)
  show "\<exists>k. q = p + of_nat k \<and> mapped m a (Suc k)"
  proof (cases "x = 0")
    case True
    then show ?thesis using x by (intro exI [of _ 0]) (auto simp: mapped_def)
  next
    case False
    then have "f m (a + 1) 0 (p + 1) = Some q" using x(2) by simp
    then obtain k where "q = p + 1 + of_nat k" "mapped m (a + 1) (Suc k)" using IH by blast
    then show ?thesis using x(1) by (intro exI [of _ "Suc k"]) (simp add: mapped_Suc [of m a] ac_simps)
  qed
qed

lemma len_end:
  assumes "len_loop m a p = Some q"
  shows "\<exists>k. q = p + of_nat k \<and> mapped m a (Suc k)"
proof (rule len_loop.raw_induct [where P = "\<lambda>m a p q. \<exists>k. q = p + of_nat k \<and> mapped m a (Suc k)", OF _ assms])
  fix f :: "bytes \<Rightarrow> int \<Rightarrow> u32 \<Rightarrow> u32 option" and m a p q
  assume IH: "\<And>m a p q. f m a p = Some q \<Longrightarrow> \<exists>k. q = p + of_nat k \<and> mapped m a (Suc k)"
    and run: "do { x \<leftarrow> m a; if x = 0 then Some p else f m (a + 1) (p + 1) } = Some q"
  obtain x where x: "m a = Some x" "(if x = 0 then Some p else f m (a + 1) (p + 1)) = Some q" using run by (auto elim!: bind_SomeE)
  show "\<exists>k. q = p + of_nat k \<and> mapped m a (Suc k)"
  proof (cases "x = 0")
    case True
    then show ?thesis using x by (intro exI [of _ 0]) (auto simp: mapped_def)
  next
    case False
    then have "f m (a + 1) (p + 1) = Some q" using x(2) by simp
    then obtain k where "q = p + 1 + of_nat k" "mapped m (a + 1) (Suc k)" using IH by blast
    then show ?thesis using x(1) by (intro exI [of _ "Suc k"]) (simp add: mapped_Suc [of m a] ac_simps)
  qed
qed

lemma rchr_position:
  assumes "rchr_loop m a p c pos = Some q"
  shows "\<forall>k. pos = of_nat k \<and> p = a + int k - 1 \<longrightarrow> (\<exists>j \<le> k. q = of_nat j)"
proof (rule rchr_loop.raw_induct [where P = "\<lambda>m a p c pos q. \<forall>k. pos = of_nat k \<and> p = a + int k - 1 \<longrightarrow> (\<exists>j \<le> k. q = of_nat j)", OF _ assms],
    intro allI impI)
  fix f :: "bytes \<Rightarrow> int \<Rightarrow> int \<Rightarrow> u8 \<Rightarrow> u32 \<Rightarrow> u32 option" and m a p c pos q k
  assume IH: "\<And>m a p c pos q. f m a p c pos = Some q \<Longrightarrow> \<forall>k. pos = of_nat k \<and> p = a + int k - 1 \<longrightarrow> (\<exists>j \<le> k. q = of_nat j)"
    and run: "do { x \<leftarrow> m p; if x = c then Some pos else if p - 1 \<ge> a then f m a (p - 1) c (pos - 1) else Some 0 } = Some q"
    and k: "pos = of_nat k \<and> p = a + int k - 1"
  obtain x where x: "(if x = c then Some pos else if p - 1 \<ge> a then f m a (p - 1) c (pos - 1) else Some 0) = Some q"
    using run by (auto elim!: bind_SomeE)
  consider "q = pos" | "q = 0" | "p - 1 \<ge> a" "f m a (p - 1) c (pos - 1) = Some q" using x by (auto split: if_splits)
  then show "\<exists>j \<le> k. q = of_nat j"
  proof cases
    case 3
    then obtain k' where k': "k = Suc k'" using k by (cases k) auto
    have "pos = 1 + of_nat k'" "p = a + int k'" using k by (simp_all add: k')
    then have "pos - 1 = of_nat k'" "p - 1 = a + int k' - 1" by (simp_all add: algebra_simps)
    then show ?thesis using IH [OF 3(2)] k' by (meson le_SucI)
  qed (use k in \<open>auto intro: exI [of _ 0]\<close>)
qed

lemma fenced_small: "fenced lo hi m \<Longrightarrow> mapped m a (Suc k) \<Longrightarrow> 0 < a \<and> k < 2 ^ 31 - 1"
proof -
  assume f: "fenced lo hi m" and m: "mapped m a (Suc k)"
  have "m a \<noteq> None" "m (a + int k) \<noteq> None" using m by (simp_all add: mapped_def)
  then have "0 < a" "a + int k < 2 ^ 31" using f unfolding fenced_def by blast+
  then show ?thesis by simp
qed

lemma sint_small: "k < 2 ^ 31 - 1 \<Longrightarrow> sint (of_nat k :: u32) = int k \<and> sint (1 + of_nat k :: u32) = int k + 1"
proof -
  assume k: "k < 2 ^ 31 - 1"
  have "sint (word_of_int i :: u32) = i" if "0 \<le> i" "i < 2 ^ 31" for i using that by (simp add: sint_sbintrunc' signed_take_bit_int_eq_self)
  from this [of "int k"] this [of "int k + 1"] show ?thesis using k by (simp add: add.commute)
qed

lemma trim_slash_kept:
  assumes "trim_slash a m = Some m'" "fenced lo hi m" "outside lo hi a"
  shows "kept lo hi m m'"
proof -
  have g: "gap lo hi m" using assms(2) by (simp add: fenced_def)
  obtain n c where n: "acoral_str_chr m a 0 = Some n" and m': "(if c = slash then store m (a + (n - 2)) 0 else Some m) = Some m'"
    using assms(1) unfolding trim_slash_def Let_def by (auto elim!: bind_SomeE split del: if_split)
  obtain q where "chr_loop m a 0 1 = Some q" "n = sint q" using n by (auto simp: acoral_str_chr_def)
  then obtain k where k: "n = sint (1 + of_nat k :: u32)" "mapped m a (Suc k)" using chr_end by blast
  have n1: "n = int k + 1" using sint_small fenced_small [OF assms(2) k(2)] k(1) by simp
  have "outside lo hi (a + int k)" "m (a + int k) \<noteq> None" using mapped_outside [OF g assms(3) k(2)] k(2) by (simp_all add: mapped_def)
  then have "outside lo hi (a + (n - 2))" using outside_next [OF g] by (simp add: n1 algebra_simps)
  then show ?thesis using m' store_kept g by (auto split: if_splits)
qed

lemma up_dir_kept:
  assumes "up_dir a m = Some m'" "fenced lo hi m" "outside lo hi a"
  shows "kept lo hi m m'"
proof -
  have g: "gap lo hi m" using assms(2) by (simp add: fenced_def)
  obtain r l where r: "acoral_str_rchr m a (uint slash) = Some r"
      and m': "(if r - 1 \<ge> 0 then memset_loop m (a + (r - 1)) 0 l else Some m) = Some m'"
    using assms(1) by (auto simp: up_dir_def Let_def elim!: bind_SomeE)
  obtain pos q where q: "len_loop m a 0 = Some pos" "rchr_loop m a (a + uint pos - 1) (word_of_int (uint slash)) pos = Some q" "r = sint q"
    using r by (auto simp: acoral_str_rchr_def acoral_str_len_def elim!: bind_SomeE)
  obtain k where k: "pos = of_nat k" "mapped m a (Suc k)" using len_end [OF q(1)] by auto
  have small: "k < 2 ^ 31 - 1" using fenced_small [OF assms(2) k(2)] by simp
  have "uint pos = int k" using small unfolding k(1) by (simp add: unsigned_of_nat take_bit_nat_eq_self)
  then obtain j where j: "j \<le> k" "q = of_nat j" using rchr_position [OF q(2)] k(1) by auto
  then have rj: "r = int j" using sint_small [of j] small q(3) by simp
  show ?thesis
  proof (cases "r - 1 \<ge> 0")
    case True
    then have "a + (r - 1) = a + int (j - 1)" using rj by simp
    then have "outside lo hi (a + (r - 1))" using mapped_outside [OF g assms(3) k(2), of "j - 1"] j(1) by simp
    then show ?thesis using m' True memset_kept g by auto
  qed (use m' in simp)
qed

section \<open>Changing the directory\<close>

text \<open>The array of the current directory lies in the area between \<open>lo\<close> and \<open>hi\<close>; the path and the memory for components do not.\<close>

definition area :: "dir_env \<Rightarrow> int \<Rightarrow> int \<Rightarrow> 'a sh \<Rightarrow> bool" where
  "area env lo hi w \<longleftrightarrow> fenced lo hi (amem w) \<and> 0 \<le> lo \<and> lo < cur_dir w \<and> cur_dir w < hi \<and> outside lo hi (path_adr env) \<and>
     (\<forall>n. outside lo hi (tmp_adr env n))"

text \<open>Steps that leave the area alone.\<close>

definition away :: "int \<Rightarrow> int \<Rightarrow> 'a sh \<Rightarrow> 'a sh \<Rightarrow> bool" where
  "away lo hi w w' \<longleftrightarrow> cur_dir w' = cur_dir w \<and> dir_change w' = dir_change w \<and> kept lo hi (amem w) (amem w')"

lemma away_refl [simp]: "away lo hi w w"
  by (simp add: away_def)

lemma away_trans [trans]: "away lo hi w u \<Longrightarrow> away lo hi u v \<Longrightarrow> away lo hi w v"
  using kept_trans by (auto simp: away_def)

lemma away_area: "away lo hi w u \<Longrightarrow> area env lo hi w \<Longrightarrow> area env lo hi u"
  using kept_fenced by (auto simp: away_def area_def)

lemma in_mem_away:
  assumes "in_mem f w = Some u" "\<And>m. f (amem w) = Some m \<Longrightarrow> kept lo hi (amem w) m"
  shows "away lo hi w u"
  using assms by (auto simp: in_mem_def away_def bind_Some_iff)

lemma print_away: "acoral_prints cs as w = Some u \<Longrightarrow> away lo hi w u" "wrong_directory w = Some u \<Longrightarrow> away lo hi w u"
  by (auto simp: acoral_prints_def wrong_directory_def away_def bind_Some_iff)

lemma area_gap: "area env lo hi w \<Longrightarrow> gap lo hi (amem w)"
  by (simp add: area_def fenced_def)

lemma area_steps:
  assumes "area env lo hi w" "outside lo hi a"
  shows "in_mem (\<lambda>m. acoral_str_cpy m a b) w = Some u \<Longrightarrow> away lo hi w u"
    "in_mem (\<lambda>m. acoral_str_ncpy m a b n) w = Some u \<Longrightarrow> away lo hi w u"
    "in_mem (\<lambda>m. acoral_memset m a v n) w = Some u \<Longrightarrow> away lo hi w u"
    "in_mem (trim_slash a) w = Some u \<Longrightarrow> away lo hi w u"
    "in_mem (up_dir a) w = Some u \<Longrightarrow> away lo hi w u"
    "in_mem (root_if_empty a) w = Some u \<Longrightarrow> away lo hi w u"
    "in_mem (down_dir a b) w = Some u \<Longrightarrow> away lo hi w u"
    "in_mem (cpy_literal a ''/'') w = Some u \<Longrightarrow> away lo hi w u"
proof -
  have f: "fenced lo hi (amem w)" "0 \<le> lo" using assms(1) by (simp_all add: area_def)
  note g = area_gap [OF assms(1)]
  show "in_mem (\<lambda>m. acoral_str_cpy m a b) w = Some u \<Longrightarrow> away lo hi w u"
    by (rule in_mem_away) (use str_cpy_kept g assms(2) in \<open>auto simp: acoral_str_ncpy_def acoral_memset_def\<close>)
  show "in_mem (\<lambda>m. acoral_str_ncpy m a b n) w = Some u \<Longrightarrow> away lo hi w u"
    by (rule in_mem_away) (use ncpy_kept g assms(2) in \<open>auto simp: acoral_str_ncpy_def\<close>)
  show "in_mem (\<lambda>m. acoral_memset m a v n) w = Some u \<Longrightarrow> away lo hi w u"
    by (rule in_mem_away) (use memset_kept g assms(2) in \<open>auto simp: acoral_memset_def\<close>)
  show "in_mem (trim_slash a) w = Some u \<Longrightarrow> away lo hi w u" by (rule in_mem_away) (use trim_slash_kept f assms(2) in auto)
  show "in_mem (up_dir a) w = Some u \<Longrightarrow> away lo hi w u" by (rule in_mem_away) (use up_dir_kept f assms(2) in auto)
  show "in_mem (root_if_empty a) w = Some u \<Longrightarrow> away lo hi w u"
  proof (rule in_mem_away)
    fix m assume "root_if_empty a (amem w) = Some m"
    then obtain c where "(if c = (0 :: u8) then store (amem w) a slash else Some (amem w)) = Some m" unfolding root_if_empty_def by (rule bind_SomeE)
    then show "kept lo hi (amem w) m" using store_kept [OF _ g assms(2)] by (auto split: if_splits)
  qed
  show "in_mem (down_dir a b) w = Some u \<Longrightarrow> away lo hi w u"
  proof (rule in_mem_away)
    fix m assume "down_dir a b (amem w) = Some m"
    then obtain m1 where m1: "cat_literal a ''/'' (amem w) = Some m1" "acoral_str_cat m1 a b = Some m" by (auto simp: down_dir_def elim!: bind_SomeE)
    have k: "kept lo hi (amem w) m1" by (rule cat_literal_kept [OF m1(1) f assms(2)]) simp
    have "gap lo hi m1" using kept_fenced [OF k f(1)] by (simp add: fenced_def)
    then show "kept lo hi (amem w) m" using kept_trans [OF k] str_cat_kept [OF m1(2) _ assms(2)] by blast
  qed
  show "in_mem (cpy_literal a ''/'') w = Some u \<Longrightarrow> away lo hi w u"
    by (rule in_mem_away) (use cpy_literal_kept f assms(2) in auto)
qed

lemma area_path: "area env lo hi w \<Longrightarrow> outside lo hi (path_adr env)" "area env lo hi w \<Longrightarrow> outside lo hi (tmp_adr env n)"
  by (simp_all add: area_def)

lemma component_away:
  assumes "cd_component env a n w = Some u" "area env lo hi w" "outside lo hi a"
  shows "away lo hi w u"
proof -
  let ?tmp = "tmp_adr env (nat n)" and ?path = "path_adr env"
  obtain w1 up w2 d where w1: "in_mem (\<lambda>m. acoral_str_ncpy m ?tmp a (word_of_int n)) w = Some w1"
    and w2: "(if up = (0 :: u32) then in_mem (up_dir ?path) w1
      else do { here \<leftarrow> cmp_literal (amem w1) ?tmp ''.''; if here \<noteq> 0 then in_mem (down_dir ?path ?tmp) w1 else Some w1 }) = Some w2"
    and u: "(case opendir env d of Some _ \<Rightarrow> do {
            w \<leftarrow> in_mem (\<lambda>m. acoral_str_cpy m a (a + n)) w2;
            in_mem (\<lambda>m. acoral_memset m ?tmp 0 (word_of_int n)) w
          } | None \<Rightarrow> wrong_directory w2) = Some u"
  proof -
    note run = assms(1) [unfolded cd_component_def Let_def]
    have "?tmp \<noteq> 0" using run by auto
    note run = run [unfolded if_not_P [OF this]]
    from run show thesis by (elim bind_SomeE) (rule that, assumption+)
  qed
  have a1: "away lo hi w w1" by (rule area_steps(2) [OF assms(2) area_path(2) [OF assms(2)] w1])
  note r1 = away_area [OF a1 assms(2)]
  have a2: "away lo hi w1 w2"
    using w2 area_steps(5,7) [OF r1 area_path(1) [OF r1]] by (auto simp: bind_Some_iff split: if_splits)
  note r2 = away_area [OF a2 r1]
  have "away lo hi w2 u"
  proof (cases "opendir env d")
    case (Some ns)
    then obtain w3 where w3: "in_mem (\<lambda>m. acoral_str_cpy m a (a + n)) w2 = Some w3" "in_mem (\<lambda>m. acoral_memset m ?tmp 0 (word_of_int n)) w3 = Some u"
      using u by (auto elim!: bind_SomeE)
    have a3: "away lo hi w2 w3" by (rule area_steps(1) [OF r2 assms(3) w3(1)])
    note r3 = away_area [OF a3 r2]
    show ?thesis by (rule away_trans [OF a3 area_steps(3) [OF r3 area_path(2) [OF r3] w3(2)]])
  qed (use u print_away in auto)
  then show ?thesis using a1 a2 away_trans by blast
qed

lemma target_away:
  assumes "cd_target env a w = Some u" "area env lo hi w"
  shows "away lo hi w u"
proof -
  note p = area_path(1) [OF assms(2)]
  consider v where "in_mem (up_dir (path_adr env)) w = Some v" "in_mem (root_if_empty (path_adr env)) v = Some u"
    | "in_mem (root_if_empty (path_adr env)) w = Some u" | "in_mem (down_dir (path_adr env) a) w = Some u"
    using assms(1) by (auto simp: cd_target_def Let_def bind_Some_iff split: if_splits)
  then show ?thesis
  proof cases
    case 1
    have a1: "away lo hi w v" by (rule area_steps(5) [OF assms(2) p 1(1)])
    show ?thesis by (rule away_trans [OF a1 area_steps(6) [OF away_area [OF a1 assms(2)] p 1(2)]])
  qed (use area_steps(6,7) [OF assms(2) p] in auto)
qed

lemma strip_slash_away: "strip_slash a w = Some u \<Longrightarrow> area env lo hi w \<Longrightarrow> outside lo hi a \<Longrightarrow> away lo hi w u"
  using area_steps(1) by (auto simp: strip_slash_def bind_Some_iff split: if_splits)

text \<open>A copy into the area does not reach its upper end, so it does not reach a source behind it.\<close>

lemma cpy_below:
  assumes "acoral_str_cpy m to from = Some m'" "str_at m from d" "m hi = None" "to \<le> hi" "hi < from"
  shows "to + int (length d) < hi"
  using assms
proof (induction d arbitrary: m to "from")
  case Nil
  then have "store m to 0 \<noteq> None" by (subst (asm) acoral_str_cpy.simps) auto
  then have "m to \<noteq> None" by (auto simp: store_def split: if_splits)
  then show ?case using Nil by (cases "to = hi") auto
next
  case (Cons c d)
  have c: "m from = Some c" "c \<noteq> 0" "str_at m (from + 1) d" using Cons.prems(2) by simp_all
  have st: "m to \<noteq> None" "acoral_str_cpy (m(to \<mapsto> c)) (to + 1) (from + 1) = Some m'"
    using Cons.prems(1) c(1,2) by (subst (asm) acoral_str_cpy.simps, auto simp: store_def split: if_splits)+
  then have to: "to < hi" using Cons.prems(3,4) by (cases "to = hi") auto
  have "to + 1 + int (length d) < hi"
  proof (rule Cons.IH [OF st(2)])
    show "str_at (m(to \<mapsto> c)) (from + 1) d" using c(3) to Cons.prems(5) by (subst str_at_outside) auto
  qed (use to Cons.prems(3,5) in auto)
  then show ?case by simp
qed

lemma str_at_mapped: "str_at m a d \<Longrightarrow> mapped m a (Suc (length d))"
proof (induction d arbitrary: a)
  case (Cons c d)
  then show ?case unfolding list.size(4) add_Suc_right mapped_Suc [of m a] by simp
qed (auto simp: mapped_def dest: order_antisym)

text \<open>The outcome of the command: the area is as before, or it holds the path that was opened, or the root.\<close>

definition cd_effect :: "dir_env \<Rightarrow> int \<Rightarrow> int \<Rightarrow> 'a sh \<Rightarrow> 'a sh \<Rightarrow> bool" where
  "cd_effect env lo hi w w' \<longleftrightarrow> away lo hi w w' \<or>
     cur_dir w' = cur_dir w \<and> dir_change w' \<and> (\<exists>d. (opendir env d \<noteq> None \<or> d = [slash]) \<and> str_at (amem w') (cur_dir w) d)"

lemma away_effect: "away lo hi w u \<Longrightarrow> cd_effect env lo hi u v \<Longrightarrow> cd_effect env lo hi w v"
  using away_trans [of lo hi w u v] unfolding cd_effect_def away_def [of lo hi w u] by auto

lemma set_cur_dir_opened:
  assumes "read_str (amem w) (path_adr env) = Some d" "opendir env d \<noteq> None \<or> d = [slash]" "set_cur_dir env w = Some w'" "area env lo hi w"
  shows "cd_effect env lo hi w w'"
proof -
  obtain m where m: "acoral_str_cpy (amem w) (cur_dir w) (path_adr env) = Some m" "w' = w\<lparr>amem := m, dir_change := True\<rparr>"
    using assms(3) by (auto simp: set_cur_dir_def in_mem_def bind_Some_iff)
  have a: "lo < cur_dir w" "cur_dir w < hi" "outside lo hi (path_adr env)" using assms(4) by (simp_all add: area_def)
  note g = area_gap [OF assms(4)] and d = read_str_at [OF assms(1)]
  note mp = str_at_mapped [OF d]
  have g': "amem w lo = None" "amem w hi = None" using g by simp_all
  have "int (length d) < \<bar>cur_dir w - path_adr env\<bar>"
  proof (cases "hi < path_adr env")
    case True
    have "cur_dir w + int (length d) < hi" by (rule cpy_below [OF m(1) d g'(2) _ True]) (use a(2) in simp)
    then show ?thesis using True by linarith
  next
    case False
    have "amem w (path_adr env) \<noteq> None" using mp by (simp add: mapped_def)
    then have p: "path_adr env < lo" using outside_next [OF g a(3)] False by auto
    have "lo < path_adr env + int (Suc (length d)) \<Longrightarrow> amem w lo \<noteq> None" using mp p unfolding mapped_def by simp
    then have "\<not> lo \<le> path_adr env + int (length d)" using g'(1) by linarith
    then show ?thesis using a(1) p by linarith
  qed
  then have "str_at m (cur_dir w) d" using str_cpy_copies [OF d m(1)] by simp
  then show ?thesis using assms(2) m(2) by (auto simp: cd_effect_def)
qed

lemma cd_open_effect:
  assumes "cd_open env w = Some w'" "area env lo hi w"
  shows "cd_effect env lo hi w w'"
proof -
  obtain d where d: "read_str (amem w) (path_adr env) = Some d" using assms by (auto simp: cd_open_def bind_Some_iff)
  show ?thesis
  proof (cases "opendir env d")
    case None
    then show ?thesis using assms d print_away(2) by (auto simp: cd_open_def cd_effect_def)
  next
    case (Some ns)
    then show ?thesis
      using assms d set_cur_dir_opened [OF d _ _ assms(2)] by (auto simp: cd_open_def bind_Some_iff cd_effect_def split: if_splits)
  qed
qed

lemma cd_loop_effect:
  assumes "cd_loop env a w = Some w'"
  shows "area env lo hi w \<longrightarrow> outside lo hi a \<longrightarrow> cd_effect env lo hi w w'"
proof (rule cd_loop.raw_induct [where P = "\<lambda>env a w w'. area env lo hi w \<longrightarrow> outside lo hi a \<longrightarrow> cd_effect env lo hi w w'", OF _ assms], intro impI)
  fix loop :: "dir_env \<Rightarrow> int \<Rightarrow> 'a sh \<Rightarrow> 'a sh option" and env a and w w' :: "'a sh"
  assume IH: "\<And>env a w w'. loop env a w = Some w' \<Longrightarrow> area env lo hi w \<longrightarrow> outside lo hi a \<longrightarrow> cd_effect env lo hi w w'"
    and r: "area env lo hi w" and o: "outside lo hi a"
  assume run: "do {
       w \<leftarrow> strip_slash a w;
       n \<leftarrow> acoral_str_chr (amem w) a (uint slash);
       if n - 1 \<ge> 0 then do { w \<leftarrow> cd_component env a (n - 1) w; loop env a w }
       else do { w \<leftarrow> cd_target env a w; cd_open env w }
     } = Some w'"
  then obtain u n where u: "strip_slash a w = Some u"
      "(if n - 1 \<ge> (0 :: int) then do { v \<leftarrow> cd_component env a (n - 1) u; loop env a v } else do { v \<leftarrow> cd_target env a u; cd_open env v }) = Some w'"
    by (auto elim!: bind_SomeE)
  note a1 = strip_slash_away [OF u(1) r o]
  note r1 = away_area [OF a1 r]
  have "cd_effect env lo hi u w'"
  proof (cases "n - 1 \<ge> 0")
    case True
    then obtain v where v: "cd_component env a (n - 1) u = Some v" "loop env a v = Some w'" using u(2) by (auto simp: bind_Some_iff)
    note a2 = component_away [OF v(1) r1 o]
    show ?thesis using away_effect [OF a2] IH [OF v(2)] away_area [OF a2 r1] o by blast
  next
    case False
    then obtain v where v: "cd_target env a u = Some v" "cd_open env v = Some w'" using u(2) by (auto simp: bind_Some_iff)
    note a2 = target_away [OF v(1) r1]
    show ?thesis using away_effect [OF a2] cd_open_effect [OF v(2) away_area [OF a2 r1]] by blast
  qed
  then show "cd_effect env lo hi w w'" by (rule away_effect [OF a1])
qed

lemma root_path:
  assumes "in_mem (cpy_literal p ''/'') u = Some v" "0 \<le> p"
  shows "read_str (amem v) p = Some [slash]"
proof -
  obtain m where m: "acoral_str_cpy (with_literal (amem u) ''/'') p (- 256) = Some m" "amem v = (\<lambda>a. if a < 0 then amem u a else m a)"
    using assms(1) by (auto simp: in_mem_def cpy_literal_def bind_Some_iff)
  have "str_at (with_literal (amem u) ''/'') (- 256) [slash]" by (simp add: with_literal_def literal_def)
  from str_cpy_copies [OF this m(1)] have "m p = Some slash" "m (p + 1) = Some 0" using assms(2) by simp_all
  then show ?thesis using assms(2) m(2) by (simp add: read_str.simps)
qed

text \<open>C22. The command \<open>cd\<close> changes the current directory of the shell only to a path that the file system has opened, or to the root.
  The array of the current directory is apart from the path, the argument and the memory for components, in an area that ends at
  unmapped addresses on both sides. Whenever the command ends, then either nothing in this area and no mark has changed, or the
  directory is marked as changed and the array holds a path that opens, or the root.\<close>

theorem cd_changes_to_opened:
  assumes "cd_dir env argc argv w = Some w'" "area env lo hi w" "\<And>a. argc = 2 \<Longrightarrow> argv ! 1 = Some a \<Longrightarrow> outside lo hi a" "0 \<le> path_adr env"
  shows "cur_dir w' = cur_dir w \<and>
    ((\<forall>x. lo \<le> x \<and> x \<le> hi \<longrightarrow> amem w' x = amem w x) \<and> dir_change w' = dir_change w \<or>
     dir_change w' \<and> (\<exists>d. (opendir env d \<noteq> None \<or> d = [slash]) \<and> str_at (amem w') (cur_dir w) d))"
proof -
  obtain u where u: "clear_path env w = Some u" using assms(1) by (auto simp: cd_dir_def bind_Some_iff)
  have a0: "away lo hi w u" using u area_steps(3) [OF assms(2) area_path(1) [OF assms(2)]] by (simp add: clear_path_def)
  note r0 = away_area [OF a0 assms(2)]
  note p = area_path(1) [OF r0]
  have "cd_effect env lo hi u w'"
  proof (cases "argc = 2")
    case True
    then obtain a r v x where v: "argv ! 1 = Some a"
        "(if r \<noteq> (0 :: u32) then in_mem (\<lambda>m. acoral_str_cpy m (path_adr env) (cur_dir u)) u else Some u) = Some v"
        "in_mem (trim_slash a) v = Some x" "cd_loop env a x = Some w'"
      using assms(1) u by (auto simp: cd_dir_def elim!: bind_SomeE split del: if_split)
    note o = assms(3) [OF True v(1)]
    have a1: "away lo hi u v" using v(2) area_steps(1) [OF r0 p] by (auto split: if_splits)
    note r1 = away_area [OF a1 r0]
    note a2 = area_steps(4) [OF r1 o v(3)]
    show ?thesis using away_effect [OF away_trans [OF a1 a2]] cd_loop_effect [OF v(4)] away_area [OF a2 r1] o by blast
  next
    case False
    show ?thesis
    proof (cases "argc = 1")
      case True
      then obtain v r where v: "in_mem (cpy_literal (path_adr env) ''/'') u = Some v" "(if r \<noteq> (0 :: u32) then set_cur_dir env v else Some v) = Some w'"
        using assms(1) u by (auto simp: cd_dir_def elim!: bind_SomeE split del: if_split)
      note a1 = area_steps(8) [OF r0 p v(1)]
      have "read_str (amem v) (path_adr env) = Some [slash]" using root_path [OF v(1)] assms(4) by simp
      then have "cd_effect env lo hi v w'"
        using v(2) set_cur_dir_opened [of v env "[slash]" w' lo hi] away_area [OF a1 r0] by (auto simp: cd_effect_def split: if_splits)
      then show ?thesis by (rule away_effect [OF a1])
    next
      case False
      then show ?thesis using \<open>argc \<noteq> 2\<close> assms(1) u by (simp add: cd_dir_def cd_effect_def)
    qed
  qed
  from away_effect [OF a0 this] show ?thesis by (auto simp: cd_effect_def away_def kept_def)
qed

text \<open>The directory \<open>/a\<close> exists, and the shell at the root is told to change to \<open>a/\<close>.\<close>

definition ex_dirs :: dir_env where
  "ex_dirs = \<lparr>opendir = (\<lambda>d. if d = [slash, 97] then Some [] else None), path_adr = 1000, fname_adr = 2000, tmp_adr = (\<lambda>_. 3000)\<rparr>"

definition ex_at_root :: ash_shell where
  "ex_at_root = ex_shell\<lparr>amem := (\<lambda>a. if a = 100 then Some 97 else if a = 101 \<or> a = 500 then Some slash
      else if 0 < a \<and> a < 4000 \<and> a \<noteq> 400 \<and> a \<noteq> 600 then Some 0 else None), cur_dir := 500, dir_change := False\<rparr>"

lemma ex_cd:
  "map_option (\<lambda>w. (dir_change w, cur_dir w, map (amem w) [500, 501, 502])) (cd_dir ex_dirs 2 [None, Some 100] ex_at_root) =
     Some (True, 500, [Some slash, Some 97, Some 0])"
  by code_simp

lemma ex_area: "area ex_dirs 400 600 ex_at_root"
  by (auto simp: area_def fenced_def outside_def ex_dirs_def ex_at_root_def split: if_splits)

theorem cd_changes_to_opened_witness:
  "\<exists>w'. cd_dir ex_dirs 2 [None, Some 100] ex_at_root = Some w' \<and> dir_change w' \<and>
     (\<exists>d. (opendir ex_dirs d \<noteq> None \<or> d = [slash]) \<and> str_at (amem w') 500 d)"
proof -
  obtain w' where w': "cd_dir ex_dirs 2 [None, Some 100] ex_at_root = Some w'" "dir_change w'" using ex_cd by auto
  have c: "cur_dir ex_at_root = 500" "\<not> dir_change ex_at_root" by (simp_all add: ex_at_root_def)
  have "outside 400 600 a" if "[None, Some 100] ! 1 = Some a" for a using that by (simp add: outside_def)
  from cd_changes_to_opened [OF w'(1) ex_area this] show ?thesis using w' c by (auto simp: ex_dirs_def)
qed

end
