(* ===== verification/Spec2Isabelle.thy ===== *)
theory Spec2Isabelle
  imports Bitops Ringbuffer Sched_Props Thread_Props Ipc_Props Volmem_Props Memscan Pcp_Props Mem_Props Policy_Props Create_Props Boot_Props Dag_Props Admis_Task_Props Monitor_Props Timed_Table_Props Str_Props Print_Props Mmu_Props Dircmd_Props
begin

text \<open>
  A model of the kernel of aCoral, a small multi-core real-time kernel in C for the Zynq-7020 (\<^verbatim>\<open>src/kernel\<close>,
  with the parts of \<^verbatim>\<open>src/libcpu\<close> it needs), for the configuration of \<^verbatim>\<open>src/bsp/zynq7020/config.h\<close>: two CPUs, SMP,
  periodic threads, no tracing.

  \<^bold>\<open>How the parts fit together.\<close> Threads are control blocks of a resource pool. A ready thread is linked in the ready queue of
  its priority on its CPU; a bitmap says which queues are not empty, and the scheduler runs the head of the first of them. A thread
  that waits is linked in the wait queue of the object it waits for, in the delay queue, or in the queue of its policy, and the tick
  interrupt or another thread readies it. Operations on a thread of another CPU are sent there as a command. Control blocks,
  stacks and objects come from a buddy allocator; smaller pieces of memory from a first-fit heap on top of it. Every operation runs in
  a critical section, which the scheduler leaves with a switch when one is due.

  \<^bold>\<open>The model.\<close> Machine integers are words of their width. The doubly linked lists embedded in the structures are one node heap
  (\<open>lheap\<close>): a node is named by the structure and field it is in (\<open>knode\<close>), and has a successor, a predecessor, a value
  and a spin lock. The kernel's globals and structures are the record \<open>kstate\<close>. An operation is a function from state to \<open>'a option\<close>:
  \<open>None\<close> stands for an operation with no defined result, that is taking a spin lock that nobody will release, a loop that
  does not end (\<open>partial_function (option)\<close>), or an access outside an array. Errors the code reports are values. Each CPU acts on the state in turn:
  an operation is one step, except where a thread can be suspended or migrate inside it; there it is split into the part
  before and its continuation (\<open>_resume\<close>, \<open>_woken\<close>, \<open>_migrated\<close>), between which any other operations can happen.

  \<^bold>\<open>Theories and sources.\<close>
  \<^item> \<open>Prelude\<close>: words, option results, shared lemmas.
  \<^item> \<open>Bitops\<close> (\<^verbatim>\<open>bitops.c\<close>): bitmaps, refined to the set of their one bits.
  \<^item> \<open>Ringbuffer\<close> (\<^verbatim>\<open>ringbuffer.c\<close>): refined to the list of the newest bytes.
  \<^item> \<open>Klist\<close>, \<open>Queue\<close> (\<^verbatim>\<open>list.c\<close>, \<^verbatim>\<open>queue.c\<close>): rings, tick, priority, FIFO and LIFO queues; the queue contract is a locale,
    interpreted for each kind.
  \<^item> \<open>Ringwalk\<close>: loops over rings that search or that visit every entry, as locales that the components interpret; \<open>Ticklist\<close>: what
    the queues of delayed and of periodic threads share, also as a locale.
  \<^item> \<open>Buddy\<close>, \<open>Kmem\<close>, \<open>Mem_Props\<close>, \<open>Volmem\<close>, \<open>Volmem_Props\<close> (\<^verbatim>\<open>mem.c\<close>): the buddy allocator, its entry points, how it rounds sizes,
    how its count of free blocks leaks and where it goes wrong; the first-fit heap and its refinement to a list of blocks; \<open>Memscan\<close>: the reports
    on both, which list the blocks.
  \<^item> \<open>KState\<close> (\<^verbatim>\<open>thread.h\<close>, \<^verbatim>\<open>ipc.h\<close>, \<^verbatim>\<open>res_pool.h\<close>, \<^verbatim>\<open>error.h\<close>): the state.
  \<^item> \<open>Sched\<close>, \<open>Sched_Props\<close> (\<^verbatim>\<open>sched.c\<close>, \<^verbatim>\<open>int.c\<close>, \<^verbatim>\<open>cpu.c\<close>, parts of \<^verbatim>\<open>thread.c\<close>): critical sections, ready queues, selection, switch. \<open>Sched\<close>
    holds the invariant of the ready queues of a CPU, which the operations keep.
  \<^item> \<open>Respool\<close>, \<open>Pool_Props\<close> (\<^verbatim>\<open>res_pool.c\<close>): resource pools and identifiers; a resource that is taken and given back.
  \<^item> \<open>Thread\<close>, \<open>Thread_Props\<close> (\<^verbatim>\<open>thread.c\<close>, \<^verbatim>\<open>timer.c\<close>, \<^verbatim>\<open>ipi.c\<close>): life of a thread, delays, commands between CPUs.
  \<^item> \<open>Ipc\<close>, \<open>Ipc_Props\<close> (\<^verbatim>\<open>ipc.c\<close>): mutexes and semaphores; mutual exclusion over every interleaving of the calls.
  \<^item> \<open>Pcp\<close>, \<open>Pcp_Props\<close> (\<^verbatim>\<open>ipc.c\<close>): the priority ceiling protocols MPCP and DPCP.
  \<^item> \<open>Policy\<close>, \<open>Timed\<close>, \<open>Policy_Props\<close> (\<^verbatim>\<open>policy.c\<close>, \<^verbatim>\<open>comm_thrd.c\<close>, \<^verbatim>\<open>period_thrd.c\<close>, \<^verbatim>\<open>timed_thrd.c\<close>, \<^verbatim>\<open>timer.c\<close>, \<^verbatim>\<open>smp.c\<close>): ordinary, periodic and timed
    threads, the tick interrupt and the daemon; what a tick does to the queue of periodic threads.
  \<^item> \<open>Create_Props\<close>: the creation of an ordinary thread, with its own or an allocated stack, through pools, allocator, policy and ready queues.
  \<^item> \<open>Boot\<close>, \<open>Boot_Props\<close> (\<^verbatim>\<open>smp.c\<close>, \<^verbatim>\<open>int.c\<close>, \<^verbatim>\<open>hal_cmp_c.c\<close>): the start of both CPUs up to their first threads and the interrupt handlers;
    the initial queues are well formed, and errors at the start are not noticed.
  \<^item> \<open>Dag\<close>, \<open>Dag_Props\<close> (\<^verbatim>\<open>components/tmp/lib/src/dag.c\<close>): the parallel programming framework; a thread waits for exactly its declared
    predecessors.
  \<^item> \<open>Floats\<close>: rounded arithmetic; \<open>Admis\<close>, \<open>Admis_Props\<close>, \<open>Admis_Task\<close>, \<open>Admis_Task_Props\<close> (\<^verbatim>\<open>components/tmp/lib/src/admis_ctl.c\<close>): the admission
    control. The iteration of the analysis ends with the least solution of its recurrence (a locale of bounded iterations,
    interpreted for both loops); a passed analysis is consistent; a trial leaves nothing tentative behind in the priorities and loads and,
    when it is rejected, in the resources; where the analysis is not safe and the initialisation hangs.
  \<^item> \<open>Bytes\<close>: words in memory; \<open>Monitor\<close>, \<open>Monitor_Props\<close> (\<^verbatim>\<open>monitor.c\<close>): the logs of threads and switches, circular logs as a locale, and the stream
    of bytes, which a receiver reads back; \<open>Timed_Table\<close>, \<open>Timed_Table_Props\<close> (\<^verbatim>\<open>components/tmp/lib/src/timed.c\<close>): the tables of timed threads.
  \<^item> \<open>Str\<close>, \<open>Strfind\<close>, \<open>Str_Props\<close> (\<^verbatim>\<open>components/tmp/lib/src/str.c\<close>): the string library on a memory of bytes; copies of overlapping regions and
    the search for substrings against their specification; corner cases.
  \<^item> \<open>Print\<close>, \<open>Print_Props\<close> (\<^verbatim>\<open>components/tmp/lib/src/print.c\<close>): the format interpreter; numbers that are printed are read back.
  \<^item> \<open>Cmd\<close>, \<open>Cmd_Props\<close>, \<open>Shell\<close>, \<open>Shell_Props\<close> (\<^verbatim>\<open>components/ash/src/cmd.c\<close>, \<^verbatim>\<open>shell.c\<close>): the command interpreter, which runs the command named by the first word of a
    line with the words as arguments; the line editor and its history, refined to an editor on lists. \<open>Dircmd\<close>, \<open>Dircmd_Props\<close> (\<^verbatim>\<open>cmd.c\<close>): the commands ls and cd; cd changes
    only to a directory that opens, in an area of the memory that none of the string operations reaches otherwise.
  \<^item> \<open>Mmu\<close>, \<open>Mmu_Props\<close> (\<^verbatim>\<open>bsp/zynq7020/drivers/mmu\<close>): translation tables and user spaces, checked against the table walk of the hardware.
  \<^item> \<open>Example\<close>: a small kernel state the witnesses evaluate on.

  \<^bold>\<open>Parameters.\<close> The hooks of threads and the two functions of the admission control that a command between CPUs calls are arguments of the
  definitions that call them; so are the commands that a line runs, the file system (FatFs is not in the repository), the contents of fresh memory, the routines of an application, the set-up of the interrupt controller and whether the hardware timer has expired.

  \<^bold>\<open>Not modelled.\<close> Assembly (boot, interrupt entry, register save and restore: the switch is its effect on the kernel's variables);
  device registers (interrupt controller, timer, serial line); the output of error messages; the monitor that prints instead of sending; the
  applications; vendored code (lwIP, nanopb). Preemption inside an
  operation outside its critical section, and the weak memory of the two CPUs, are not modelled either.
\<close>

end
